(* ===== verification/Xen_Prelude.thy ===== *)
theory Xen_Prelude
  imports "HOL-Library.Word" "HOL-Library.Monad_Syntax"
begin

text \<open>
  Shared vocabulary of the development: the machine integers of the Rust sources as words,
  the checked and saturating operations of \<open>core\<close> on them, the bit counting operations, and
  the lemmas on words and lists that several components use.

  Conventions used by every component.
  \<^item> \<open>u8\<close>, \<open>u16\<close>, \<open>u32\<close> and \<open>u64\<close> are words of that width; \<open>+\<close>, \<open>-\<close> and \<open>*\<close> wrap, as
    they do in the release profile of the workspace (\<open>overflow-checks = false\<close> in the
    top-level \<open>Cargo.toml\<close>).
  \<^item> \<open>usize\<close> values that index or count the elements of an array are \<open>nat\<close>.
  \<^item> A panic (\<open>assert!\<close>, \<open>expect\<close>, \<open>unreachable!\<close>, an index out of range) is \<open>None\<close> of an
    outer \<open>option\<close>, so a panicking operation has a result of type \<open>'a option\<close> and is composed
    with the \<open>do\<close> syntax of \<open>HOL-Library.Monad_Syntax\<close>. \<open>debug_assert!\<close> is absent from the
    release profile and is not modelled.
  \<^item> A Rust \<open>Result<T, E>\<close> is the sum \<open>E + T\<close>, with \<open>Inl\<close> for \<open>Err\<close> and \<open>Inr\<close> for \<open>Ok\<close>.
\<close>

unbundle bit_operations_syntax

named_theorems xen_defs \<open>definitions that component proofs unfold together\<close>
named_theorems rust_arith \<open>characterisations of the checked and saturating operations\<close>

type_synonym u8 = "8 word"
type_synonym u16 = "16 word"
type_synonym u32 = "32 word"
type_synonym u64 = "64 word"

subsection \<open>Checked and saturating arithmetic\<close>

lemma unat_less_exp: "unat (w :: 'a::len word) < 2 ^ LENGTH('a)"
  by (fact unsigned_less)

lemma unat_minus_one: "unat (- 1 :: 'a::len word) = 2 ^ LENGTH('a) - 1"
  by (simp add: unsigned_minus_1_eq_mask mask_eq_exp_minus_1)

definition checked_add :: "'a::len word \<Rightarrow> 'a word \<Rightarrow> 'a word option" where
  "checked_add a b = (if unat a + unat b < 2 ^ LENGTH('a) then Some (a + b) else None)"

definition checked_sub :: "'a::len word \<Rightarrow> 'a word \<Rightarrow> 'a word option" where
  "checked_sub a b = (if b \<le> a then Some (a - b) else None)"

definition checked_mul :: "'a::len word \<Rightarrow> 'a word \<Rightarrow> 'a word option" where
  "checked_mul a b = (if unat a * unat b < 2 ^ LENGTH('a) then Some (a * b) else None)"

definition checked_div :: "'a::len word \<Rightarrow> 'a word \<Rightarrow> 'a word option" where
  "checked_div a b = (if b = 0 then None else Some (a div b))"

definition saturating_add :: "'a::len word \<Rightarrow> 'a word \<Rightarrow> 'a word" where
  "saturating_add a b = (if unat a + unat b < 2 ^ LENGTH('a) then a + b else - 1)"

definition saturating_sub :: "'a::len word \<Rightarrow> 'a word \<Rightarrow> 'a word" where
  "saturating_sub a b = (if b \<le> a then a - b else 0)"

definition div_ceil :: "'a::len word \<Rightarrow> 'a word \<Rightarrow> 'a word" where
  "div_ceil a b = (if a mod b = 0 then a div b else a div b + 1)"

lemma checked_add_eq_Some [rust_arith]:
  fixes a b c :: "'a::len word"
  shows "checked_add a b = Some c \<longleftrightarrow>
    unat a + unat b < 2 ^ LENGTH('a) \<and> c = a + b \<and> unat c = unat a + unat b"
  by (auto simp: checked_add_def unat_plus_if')

lemma unat_checked_add: "checked_add a b = Some c \<Longrightarrow> unat c = unat a + unat b"
  by (drule checked_add_eq_Some [THEN iffD1]) blast

lemma checked_add_fits:
  fixes a b :: "'a::len word"
  assumes "unat a + unat b < 2 ^ LENGTH('a)"
  obtains c where "checked_add a b = Some c" "unat c = unat a + unat b"
  using assms checked_add_eq_Some [of a b "a + b"] by (auto simp: checked_add_def unat_plus_if')

lemma checked_add_eq_None [rust_arith]:
  fixes a b :: "'a::len word"
  shows "checked_add a b = None \<longleftrightarrow> 2 ^ LENGTH('a) \<le> unat a + unat b"
  by (auto simp: checked_add_def)

lemma checked_sub_eq_Some [rust_arith]:
  "checked_sub a b = Some c \<longleftrightarrow> b \<le> a \<and> c = a - b \<and> unat c = unat a - unat b"
  by (auto simp: checked_sub_def unat_sub)

lemma unat_checked_sub: "checked_sub a b = Some c \<Longrightarrow> unat c = unat a - unat b"
  by (drule checked_sub_eq_Some [THEN iffD1]) blast

lemma checked_sub_eq_None [rust_arith]: "checked_sub a b = None \<longleftrightarrow> a < b"
  by (auto simp: checked_sub_def)

lemma checked_mul_eq_Some [rust_arith]:
  fixes a b c :: "'a::len word"
  shows "checked_mul a b = Some c \<longleftrightarrow>
    unat a * unat b < 2 ^ LENGTH('a) \<and> c = a * b \<and> unat c = unat a * unat b"
  by (auto simp: checked_mul_def unat_word_ariths)

lemma unat_checked_mul: "checked_mul a b = Some c \<Longrightarrow> unat c = unat a * unat b"
  by (drule checked_mul_eq_Some [THEN iffD1]) blast

lemma checked_mul_eq_None [rust_arith]:
  fixes a b :: "'a::len word"
  shows "checked_mul a b = None \<longleftrightarrow> 2 ^ LENGTH('a) \<le> unat a * unat b"
  by (auto simp: checked_mul_def)

lemma unat_saturating_sub [simp]: "unat (saturating_sub a b) = unat a - unat b"
  by (auto simp: saturating_sub_def unat_sub word_le_nat_alt)

lemma unat_saturating_add:
  fixes a b :: "'a::len word"
  shows "unat (saturating_add a b) = min (unat a + unat b) (2 ^ LENGTH('a) - 1)"
  by (auto simp: saturating_add_def unat_plus_if' unat_minus_one)

subsection \<open>Bit counting\<close>

text \<open>
  \<open>count_ones\<close>, \<open>trailing_zeros\<close>, \<open>trailing_ones\<close>, \<open>leading_zeros\<close> and \<open>is_power_of_two\<close> of
  the integer types, by inspection of the bits.
\<close>

definition count_ones :: "'a::len word \<Rightarrow> nat" where
  "count_ones w = length (filter (bit w) [0..<LENGTH('a)])"

definition trailing_zeros :: "'a::len word \<Rightarrow> nat" where
  "trailing_zeros w = length (takeWhile (\<lambda>i. \<not> bit w i) [0..<LENGTH('a)])"

definition trailing_ones :: "'a::len word \<Rightarrow> nat" where
  "trailing_ones w = length (takeWhile (bit w) [0..<LENGTH('a)])"

definition leading_zeros :: "'a::len word \<Rightarrow> nat" where
  "leading_zeros w = length (takeWhile (\<lambda>i. \<not> bit w i) (rev [0..<LENGTH('a)]))"

definition is_power_of_two :: "'a::len word \<Rightarrow> bool" where
  "is_power_of_two w \<longleftrightarrow> count_ones w = 1"

definition is_multiple_of :: "'a::len word \<Rightarrow> 'a word \<Rightarrow> bool" where
  "is_multiple_of a b \<longleftrightarrow> (if b = 0 then a = 0 else a mod b = 0)"

subsection \<open>Masks, powers of two and bit counts\<close>

lemma and_not_mask_eq: "(w::'a::len word) AND NOT (mask k) = push_bit k (drop_bit k w)"
  by (rule bit_word_eqI) (auto simp: bit_simps)

lemma unat_and_not_mask:
  fixes w :: "'a::len word"
  shows "unat (w AND NOT (mask k)) = unat w div 2 ^ k * 2 ^ k"
proof -
  have "unat (w AND NOT (mask k)) = take_bit LENGTH('a) (push_bit k (drop_bit k (unat w)))"
    by (simp add: and_not_mask_eq unsigned_push_bit_eq unat_drop_bit_eq)
  also have "\<dots> = (unat w div 2 ^ k * 2 ^ k) mod 2 ^ LENGTH('a)"
    by (simp add: push_bit_eq_mult drop_bit_eq_div take_bit_eq_mod)
  also have "\<dots> = unat w div 2 ^ k * 2 ^ k"
    by (rule mod_less) (meson div_times_less_eq_dividend le_less_trans unat_less_exp)
  finally show ?thesis .
qed

lemma unat_and_mask: "unat (w AND mask k :: 'a::len word) = unat w mod 2 ^ k"
proof -
  have "unat (w AND mask k) = take_bit k (unat w)"
    by (simp only: flip: take_bit_eq_mask unsigned_take_bit_eq)
  then show ?thesis by (simp add: take_bit_eq_mod)
qed

lemma unat_exp: "k < LENGTH('a) \<Longrightarrow> unat (2 ^ k :: 'a::len word) = 2 ^ k"
  using unsigned_of_nat[of "2 ^ k :: nat", where 'a = nat and 'b = 'a]
  by (simp add: take_bit_eq_mod)

lemma count_ones_card: "count_ones w = card {i. i < LENGTH('a) \<and> bit (w::'a::len word) i}"
proof -
  have "count_ones w = card (set (filter (bit w) [0..<LENGTH('a)]))"
    unfolding count_ones_def by (rule distinct_card[symmetric]) simp
  also have "set (filter (bit w) [0..<LENGTH('a)]) = {i. i < LENGTH('a) \<and> bit w i}"
    by auto
  finally show ?thesis .
qed

lemma is_power_of_two_iff:
  fixes w :: "'a::len word"
  shows "is_power_of_two w \<longleftrightarrow> (\<exists>k<LENGTH('a). w = 2 ^ k)"
proof
  assume "is_power_of_two w"
  then have "card {i. i < LENGTH('a) \<and> bit w i} = 1"
    by (simp add: is_power_of_two_def count_ones_card)
  then obtain k where k: "{i. i < LENGTH('a) \<and> bit w i} = {k}"
    by (auto simp: card_1_singleton_iff)
  then have kl: "k < LENGTH('a)" by auto
  have "w = 2 ^ k"
  proof (rule bit_word_eqI)
    fix n assume "n < LENGTH('a)"
    then have "bit w n \<longleftrightarrow> n = k" using k by auto
    also have "\<dots> \<longleftrightarrow> bit (2 ^ k :: 'a word) n"
      using kl by (auto simp: bit_exp_iff)
    finally show "bit w n \<longleftrightarrow> bit (2 ^ k :: 'a word) n" .
  qed
  with kl show "\<exists>k<LENGTH('a). w = 2 ^ k" by blast
next
  assume "\<exists>k<LENGTH('a). w = 2 ^ k"
  then obtain k where k: "k < LENGTH('a)" "w = 2 ^ k" by blast
  then have "{i. i < LENGTH('a) \<and> bit w i} = {k}"
    by (auto simp: bit_exp_iff)
  then show "is_power_of_two w"
    by (simp add: is_power_of_two_def count_ones_card)
qed

lemma takeWhile_upt_least:
  assumes "n = length (takeWhile P [0..<m])"
  shows "n \<le> m" "\<And>i. i < n \<Longrightarrow> P i" "n < m \<Longrightarrow> \<not> P n"
proof -
  show "n \<le> m" using assms length_takeWhile_le[of P "[0..<m]"] by simp
  then show "P i" if "i < n" for i
    using that assms set_takeWhileD[of "takeWhile P [0..<m] ! i" P "[0..<m]"]
    by (metis add_0 dual_order.strict_trans1 nth_mem nth_upt takeWhile_nth)
  show "\<not> P n" if "n < m"
    using that assms nth_length_takeWhile[of P "[0..<m]"] by simp
qed

lemma trailing_ones_le: "trailing_ones (w::'a::len word) \<le> LENGTH('a)"
  unfolding trailing_ones_def by (rule takeWhile_upt_least) simp

lemma bit_below_trailing_ones: "i < trailing_ones w \<Longrightarrow> bit w i"
  unfolding trailing_ones_def by (rule takeWhile_upt_least(2)) simp

lemma not_bit_trailing_ones: "trailing_ones (w::'a::len word) < LENGTH('a) \<Longrightarrow> \<not> bit w (trailing_ones w)"
  unfolding trailing_ones_def by (rule takeWhile_upt_least(3)) simp_all

lemma trailing_ones_less_iff: "trailing_ones (w::'a::len word) < LENGTH('a) \<longleftrightarrow> w \<noteq> - 1"
proof
  assume "trailing_ones w < LENGTH('a)"
  then show "w \<noteq> - 1" using not_bit_trailing_ones[of w] by (auto simp: bit_simps)
next
  assume "w \<noteq> - 1"
  then obtain i where i: "i < LENGTH('a)" "\<not> bit w i"
    using bit_word_eqI[of w "- 1"] by (auto simp: bit_simps)
  then have "\<not> i < trailing_ones w" using bit_below_trailing_ones by blast
  with i show "trailing_ones w < LENGTH('a)" by simp
qed

lemma trailing_zeros_exp: "k < LENGTH('a) \<Longrightarrow> trailing_zeros (2 ^ k :: 'a::len word) = k"
proof -
  assume k: "k < LENGTH('a)"
  define n where "n = trailing_zeros (2 ^ k :: 'a word)"
  note n = takeWhile_upt_least[OF n_def[unfolded trailing_zeros_def]]
  have "\<not> k < n" using n(2)[of k] k by (auto simp: bit_exp_iff)
  moreover have "n = k" if "n < LENGTH('a)"
    using n(3)[OF that] by (auto simp: bit_exp_iff)
  ultimately show ?thesis using n(1) k n_def by auto
qed

lemma trailing_zeros_dvd:
  fixes w :: "'a::len word"
  assumes "o' \<le> trailing_zeros w" shows "2 ^ o' dvd unat w"
proof -
  have "take_bit o' w = 0"
  proof (rule bit_word_eqI)
    fix n assume "n < LENGTH('a)"
    show "bit (take_bit o' w) n = bit 0 n"
      using takeWhile_upt_least(2)[OF refl, of n "\<lambda>i. \<not> bit w i" "LENGTH('a)"] assms
      by (auto simp: bit_simps trailing_zeros_def)
  qed
  then have "take_bit o' (unat w) = 0"
    by (metis unsigned_0 unsigned_take_bit_eq)
  then show ?thesis by (simp add: take_bit_eq_0_iff)
qed

lemma bit_imp_exp_le_unat:
  fixes w :: "'a::len word"
  assumes "bit w k"
  shows "2 ^ k \<le> unat w"
proof -
  have "k < LENGTH('a)" using assms by (rule bit_imp_le_length)
  with assms have "odd (unat w div 2 ^ k)"
    by (simp flip: bit_iff_odd add: bit_unsigned_iff)
  then have "unat w div 2 ^ k \<noteq> 0" by (metis even_zero)
  then show ?thesis by (simp add: div_eq_0_iff not_less)
qed

lemma exp_le_leading_zeros:
  fixes w :: "'a::len word"
  assumes "w \<noteq> 0" "k \<le> LENGTH('a) - 1 - leading_zeros w"
  shows "2 ^ k \<le> unat w"
proof -
  let ?r = "rev [0..<LENGTH('a)]" and ?P = "\<lambda>i. \<not> bit w i"
  have lz: "leading_zeros w < LENGTH('a)"
  proof (rule ccontr)
    assume "\<not> ?thesis"
    then have "length (takeWhile ?P ?r) = length ?r"
      using length_takeWhile_le[of ?P ?r] by (simp add: leading_zeros_def)
    then have "takeWhile ?P ?r = ?r"
      by (metis append_Nil2 length_0_conv takeWhile_eq_take take_all_iff order_refl)
    then have "\<forall>i\<in>set ?r. ?P i" by (simp add: takeWhile_eq_all_conv)
    then have "w = 0" by (intro bit_word_eqI) auto
    with assms(1) show False by simp
  qed
  then have "\<not> ?P (?r ! leading_zeros w)"
    using nth_length_takeWhile[of ?P ?r] by (simp add: leading_zeros_def)
  with lz have "bit w (LENGTH('a) - 1 - leading_zeros w)" by (simp add: rev_nth)
  then have "2 ^ (LENGTH('a) - 1 - leading_zeros w) \<le> unat w" by (rule bit_imp_exp_le_unat)
  moreover have "(2::nat) ^ k \<le> 2 ^ (LENGTH('a) - 1 - leading_zeros w)"
    using assms(2) by (rule power_increasing) simp
  ultimately show ?thesis by linarith
qed

lemma dvd_trailing_zeros:
  fixes w :: "'a::len word"
  assumes "2 ^ k dvd unat w" "k \<le> LENGTH('a)"
  shows "k \<le> trailing_zeros w"
proof (rule ccontr)
  assume "\<not> ?thesis"
  then have lt: "trailing_zeros w < k" by simp
  note n = takeWhile_upt_least [OF trailing_zeros_def [of w]]
  have "bit (unat w) (trailing_zeros w)"
    using n(3) lt assms(2) by (simp add: bit_unsigned_iff)
  moreover have "take_bit k (unat w) = 0" using assms(1) by (simp add: take_bit_eq_0_iff)
  then have "\<not> bit (take_bit k (unat w)) (trailing_zeros w)" by simp
  ultimately show False using lt by (simp add: bit_take_bit_iff)
qed

lemma less_exp_leading_zeros:
  fixes w :: "'a::len word"
  shows "unat w < 2 ^ (LENGTH('a) - leading_zeros w)"
proof -
  let ?r = "rev [0..<LENGTH('a)]" and ?P = "\<lambda>i. \<not> bit w i" and ?n = "LENGTH('a) - leading_zeros w"
  have "\<not> bit w i" if "?n \<le> i" "i < LENGTH('a)" for i
  proof -
    have "LENGTH('a) - 1 - i < length (takeWhile ?P ?r)"
      using that unfolding leading_zeros_def by linarith
    then have "takeWhile ?P ?r ! (LENGTH('a) - 1 - i) \<in> set (takeWhile ?P ?r)" by (rule nth_mem)
    from set_takeWhileD [OF this] have "?P (takeWhile ?P ?r ! (LENGTH('a) - 1 - i))" by (rule conjunct2)
    then show ?thesis
      using \<open>LENGTH('a) - 1 - i < length (takeWhile ?P ?r)\<close> that by (simp add: takeWhile_nth rev_nth)
  qed
  then have "take_bit ?n w = w" by (intro bit_word_eqI) (metis bit_take_bit_iff not_less)
  then have "unat w = take_bit ?n (unat w)" by (metis unsigned_take_bit_eq)
  then show ?thesis by (metis take_bit_nat_less_exp)
qed

subsection \<open>Slices and loops\<close>

text \<open>
  \<open>index_opt\<close> and \<open>update_opt\<close> are the bounds-checked \<open>xs[i]\<close> and \<open>xs[i] = v\<close>. \<open>for_each\<close> is a
  \<open>for\<close> loop whose body updates a state and may panic; \<open>for_first\<close> is a \<open>for\<close> loop whose body may
  return early from the function with a value.
\<close>

definition index_opt :: "'a list \<Rightarrow> nat \<Rightarrow> 'a option" where
  "index_opt xs i = (if i < length xs then Some (xs ! i) else None)"

definition update_opt :: "'a list \<Rightarrow> nat \<Rightarrow> 'a \<Rightarrow> 'a list option" where
  "update_opt xs i v = (if i < length xs then Some (xs[i := v]) else None)"

fun for_each :: "('s \<Rightarrow> 'i \<Rightarrow> 's option) \<Rightarrow> 's \<Rightarrow> 'i list \<Rightarrow> 's option" where
  "for_each f s [] = Some s"
| "for_each f s (i # is) = do { s' \<leftarrow> f s i; for_each f s' is }"

fun for_first :: "('i \<Rightarrow> 'a option option) \<Rightarrow> 'i list \<Rightarrow> 'a option option" where
  "for_first f [] = Some None"
| "for_first f (i # is) =
     do { r \<leftarrow> f i; case r of Some x \<Rightarrow> Some (Some x) | None \<Rightarrow> for_first f is }"

lemma index_opt_Some [simp]: "i < length xs \<Longrightarrow> index_opt xs i = Some (xs ! i)"
  by (simp add: index_opt_def)

lemma index_opt_None [simp]: "length xs \<le> i \<Longrightarrow> index_opt xs i = None"
  by (simp add: index_opt_def)

lemma index_opt_eq_Some: "index_opt xs i = Some x \<longleftrightarrow> i < length xs \<and> xs ! i = x"
  by (auto simp: index_opt_def)

lemma update_opt_Some [simp]: "i < length xs \<Longrightarrow> update_opt xs i v = Some (xs[i := v])"
  by (simp add: update_opt_def)

lemma update_opt_eq_Some: "update_opt xs i v = Some ys \<longleftrightarrow> i < length xs \<and> ys = xs[i := v]"
  by (auto simp: update_opt_def)

lemma for_each_append:
  "for_each f s (xs @ ys) = do { s' \<leftarrow> for_each f s xs; for_each f s' ys }"
  by (induction xs arbitrary: s) (auto simp: Option.bind_assoc)

lemma for_each_invariant:
  assumes "for_each f s is = Some t" "P s"
    and step: "\<And>s i s'. P s \<Longrightarrow> i \<in> set is \<Longrightarrow> f s i = Some s' \<Longrightarrow> P s'"
  shows "P t"
  using assms
proof (induction "is" arbitrary: s)
  case (Cons i "is")
  from Cons.prems(1) obtain s' where s': "f s i = Some s'" "for_each f s' is = Some t"
    by (auto simp: bind_eq_Some_conv)
  have "P s'" using Cons.prems(3) [OF Cons.prems(2) _ s'(1)] by simp
  show ?case
    by (rule Cons.IH [OF s'(2) \<open>P s'\<close>], rule Cons.prems(3)) simp_all
qed simp

lemma upt_join: "i \<le> j \<Longrightarrow> j \<le> k \<Longrightarrow> [i..<j] @ [j..<k] = [i..<k]"
  using upt_add_eq_append [of i j "k - j"] by simp

lemma find_append:
  "List.find P (xs @ ys) = (case List.find P xs of Some x \<Rightarrow> Some x | None \<Rightarrow> List.find P ys)"
  by (induction xs) auto

lemma find_map_comp: "List.find P (map f xs) = map_option f (List.find (P \<circ> f) xs)"
  by (induction xs) auto

lemma find_cong_on: "(\<And>x. x \<in> set xs \<Longrightarrow> P x = Q x) \<Longrightarrow> List.find P xs = List.find Q xs"
  by (induction xs) auto

lemma for_first_find:
  assumes "\<And>i. i \<in> set is \<Longrightarrow> f i = Some (List.find P (g i))"
  shows "for_first f is = Some (List.find P (concat (map g is)))"
  using assms by (induction "is") (auto simp: find_append split: option.splits)

text \<open>The first match in an interval, as the least one.\<close>

lemma find_upt_Some:
  "List.find P [m..<n] = Some i \<longleftrightarrow> m \<le> i \<and> i < n \<and> P i \<and> (\<forall>j. m \<le> j \<longrightarrow> j < i \<longrightarrow> \<not> P j)"
    (is "_ \<longleftrightarrow> ?r m")
proof (induction "n - m" arbitrary: m)
  case 0
  then have "n \<le> m" by simp
  then show ?case by auto
next
  case (Suc d)
  then have step: "[m..<n] = m # [Suc m..<n]" by (simp add: upt_conv_Cons)
  have IH: "List.find P [Suc m..<n] = Some i \<longleftrightarrow> ?r (Suc m)" using Suc(1) [of "Suc m"] Suc(2) by simp
  show ?case
  proof (cases "P m")
    case True
    have "?r m \<longleftrightarrow> i = m"
    proof
      assume r: "?r m"
      then have "\<not> m < i" using True by blast
      then show "i = m" using r by simp
    qed (use True Suc(2) in auto)
    then show ?thesis using True unfolding step by auto
  next
    case False
    have "?r m \<longleftrightarrow> ?r (Suc m)"
    proof
      assume r: "?r m"
      then have "m \<noteq> i" using False by blast
      then show "?r (Suc m)" using r by simp
    next
      assume r: "?r (Suc m)"
      then have "\<not> P j" if "m \<le> j" "j < i" for j
        using False that by (cases "j = m") simp_all
      then show "?r m" using r by simp
    qed
    note eq = this
    have "List.find P [m..<n] = List.find P [Suc m..<n]" using False step by simp
    then have "List.find P [m..<n] = Some i \<longleftrightarrow> List.find P [Suc m..<n] = Some i" by metis
    from this [unfolded IH eq [symmetric]] show ?thesis .
  qed
qed

lemma find_upt_None: "List.find P [m..<n] = None \<longleftrightarrow> (\<forall>i. m \<le> i \<longrightarrow> i < n \<longrightarrow> \<not> P i)"
  by (auto simp: find_None_iff)

lemma find_trailing_ones:
  fixes w :: "'a::len word"
  shows "List.find (\<lambda>k. \<not> bit w k) [0..<LENGTH('a)] =
    (if w \<noteq> - 1 then Some (trailing_ones w) else None)"
proof (cases "w = - 1")
  case True
  then have "bit w i" if "i < LENGTH('a)" for i using that by simp
  then have "List.find (\<lambda>k. \<not> bit w k) [0..<LENGTH('a)] = None"
    unfolding find_upt_None by blast
  then show ?thesis using True by simp
next
  case False
  then have "trailing_ones w < LENGTH('a)" by (simp add: trailing_ones_less_iff)
  then have "List.find (\<lambda>k. \<not> bit w k) [0..<LENGTH('a)] = Some (trailing_ones w)"
    unfolding find_upt_Some using not_bit_trailing_ones bit_below_trailing_ones by blast
  then show ?thesis using False by simp
qed

end
