(* ===== verification/Address.thy ===== *)
theory Address
  imports Xen_Prelude
begin

text \<open>
  Physical and virtual addresses: \<open>crates/xenith-types/src/address.rs\<close>. Both newtypes wrap a
  \<open>u64\<close>. The locale \<open>aligned_address\<close> is the alignment contract the two types share; its
  lemmas are proved once and used through the interpretations \<open>phys\<close> and \<open>virt\<close>. The type
  invariant of \<open>VirtAddr\<close> is that its value is canonical.
\<close>

subsection \<open>Constants\<close>

definition PAGE_SIZE :: u64 where
  "PAGE_SIZE = 4096"

definition CANONICAL_SIGN_BIT :: nat where
  "CANONICAL_SIGN_BIT = 47"

definition CANONICAL_MASK :: u64 where
  "CANONICAL_MASK = push_bit (CANONICAL_SIGN_BIT + 1) 1 - 1"

definition PHYS_ADDR_MAX_BITS :: nat where
  "PHYS_ADDR_MAX_BITS = 52"

definition PHYS_ADDR_MASK :: u64 where
  "PHYS_ADDR_MASK = push_bit PHYS_ADDR_MAX_BITS 1 - 1"

subsection \<open>Physical addresses\<close>

datatype PhysAddr = PhysAddr (PhysAddr_as_u64: u64)

definition PhysAddr_new :: "u64 \<Rightarrow> PhysAddr option" where
  "PhysAddr_new addr = Some (PhysAddr addr)"

definition PhysAddr_new_truncate :: "u64 \<Rightarrow> PhysAddr" where
  "PhysAddr_new_truncate addr = PhysAddr (addr AND PHYS_ADDR_MASK)"

definition PhysAddr_zero :: PhysAddr where
  "PhysAddr_zero = PhysAddr 0"

definition PhysAddr_align_down :: "PhysAddr \<Rightarrow> u64 \<Rightarrow> PhysAddr" where
  "PhysAddr_align_down self align =
     (if is_power_of_two align then PhysAddr (PhysAddr_as_u64 self AND NOT (align - 1)) else self)"

definition PhysAddr_align_up :: "PhysAddr \<Rightarrow> u64 \<Rightarrow> PhysAddr option" where
  "PhysAddr_align_up self align =
     (if \<not> is_power_of_two align then None
      else let mask = align - 1 in
        do {
          summed \<leftarrow> checked_add (PhysAddr_as_u64 self) mask;
          PhysAddr_new (summed AND NOT mask)
        })"

definition PhysAddr_is_aligned :: "PhysAddr \<Rightarrow> u64 \<Rightarrow> bool" where
  "PhysAddr_is_aligned self align \<longleftrightarrow>
     is_power_of_two align \<and> PhysAddr_as_u64 self AND (align - 1) = 0"

definition PhysAddr_page_align_down :: "PhysAddr \<Rightarrow> PhysAddr" where
  "PhysAddr_page_align_down self = PhysAddr_align_down self PAGE_SIZE"

definition PhysAddr_page_align_up :: "PhysAddr \<Rightarrow> PhysAddr option" where
  "PhysAddr_page_align_up self = PhysAddr_align_up self PAGE_SIZE"

definition PhysAddr_is_page_aligned :: "PhysAddr \<Rightarrow> bool" where
  "PhysAddr_is_page_aligned self \<longleftrightarrow> PhysAddr_is_aligned self PAGE_SIZE"

text \<open>
  \<open>Add<u64>\<close> and \<open>Sub<u64>\<close> panic through \<open>expect\<close>; \<open>Sub<Self>\<close> wraps.
\<close>

definition PhysAddr_add :: "PhysAddr \<Rightarrow> u64 \<Rightarrow> PhysAddr option" where
  "PhysAddr_add self rhs =
     do {
       raw \<leftarrow> checked_add (PhysAddr_as_u64 self) rhs;
       PhysAddr_new raw
     }"

definition PhysAddr_sub :: "PhysAddr \<Rightarrow> u64 \<Rightarrow> PhysAddr option" where
  "PhysAddr_sub self rhs = map_option PhysAddr (checked_sub (PhysAddr_as_u64 self) rhs)"

definition PhysAddr_diff :: "PhysAddr \<Rightarrow> PhysAddr \<Rightarrow> u64" where
  "PhysAddr_diff self rhs = PhysAddr_as_u64 self - PhysAddr_as_u64 rhs"

subsection \<open>Virtual addresses\<close>

datatype VirtAddr = VirtAddr (VirtAddr_as_u64: u64)

definition is_canonical :: "u64 \<Rightarrow> bool" where
  "is_canonical addr =
     (let high = addr AND NOT CANONICAL_MASK;
          bit47 = drop_bit CANONICAL_SIGN_BIT addr AND 1
      in (bit47 = 0 \<and> high = 0) \<or> (bit47 = 1 \<and> high = NOT CANONICAL_MASK))"

definition VirtAddr_new :: "u64 \<Rightarrow> VirtAddr option" where
  "VirtAddr_new addr = (if is_canonical addr then Some (VirtAddr addr) else None)"

definition VirtAddr_new_truncate :: "u64 \<Rightarrow> VirtAddr" where
  "VirtAddr_new_truncate addr =
     (let low48 = addr AND CANONICAL_MASK in
      if drop_bit CANONICAL_SIGN_BIT low48 AND 1 = 1
      then VirtAddr (low48 OR NOT CANONICAL_MASK)
      else VirtAddr low48)"

definition VirtAddr_zero :: VirtAddr where
  "VirtAddr_zero = VirtAddr 0"

definition VirtAddr_is_kernel :: "VirtAddr \<Rightarrow> bool" where
  "VirtAddr_is_kernel self \<longleftrightarrow> drop_bit CANONICAL_SIGN_BIT (VirtAddr_as_u64 self) AND 1 = 1"

definition VirtAddr_is_user :: "VirtAddr \<Rightarrow> bool" where
  "VirtAddr_is_user self \<longleftrightarrow> \<not> VirtAddr_is_kernel self"

definition VirtAddr_align_down :: "VirtAddr \<Rightarrow> u64 \<Rightarrow> VirtAddr" where
  "VirtAddr_align_down self align =
     (if is_power_of_two align then VirtAddr (VirtAddr_as_u64 self AND NOT (align - 1)) else self)"

definition VirtAddr_align_up :: "VirtAddr \<Rightarrow> u64 \<Rightarrow> VirtAddr option" where
  "VirtAddr_align_up self align =
     (if \<not> is_power_of_two align then None
      else let mask = align - 1 in
        do {
          summed \<leftarrow> checked_add (VirtAddr_as_u64 self) mask;
          VirtAddr_new (VirtAddr_as_u64 (VirtAddr_new_truncate (summed AND NOT mask)))
        })"

definition VirtAddr_is_aligned :: "VirtAddr \<Rightarrow> u64 \<Rightarrow> bool" where
  "VirtAddr_is_aligned self align \<longleftrightarrow>
     is_power_of_two align \<and> VirtAddr_as_u64 self AND (align - 1) = 0"

definition VirtAddr_page_align_down :: "VirtAddr \<Rightarrow> VirtAddr" where
  "VirtAddr_page_align_down self = VirtAddr_align_down self PAGE_SIZE"

definition VirtAddr_page_align_up :: "VirtAddr \<Rightarrow> VirtAddr option" where
  "VirtAddr_page_align_up self = VirtAddr_align_up self PAGE_SIZE"

definition VirtAddr_is_page_aligned :: "VirtAddr \<Rightarrow> bool" where
  "VirtAddr_is_page_aligned self \<longleftrightarrow> VirtAddr_is_aligned self PAGE_SIZE"

definition VirtAddr_add :: "VirtAddr \<Rightarrow> u64 \<Rightarrow> VirtAddr option" where
  "VirtAddr_add self rhs =
     do {
       raw \<leftarrow> checked_add (VirtAddr_as_u64 self) rhs;
       VirtAddr_new raw
     }"

definition VirtAddr_sub :: "VirtAddr \<Rightarrow> u64 \<Rightarrow> VirtAddr option" where
  "VirtAddr_sub self rhs =
     do {
       raw \<leftarrow> checked_sub (VirtAddr_as_u64 self) rhs;
       VirtAddr_new raw
     }"

definition VirtAddr_diff :: "VirtAddr \<Rightarrow> VirtAddr \<Rightarrow> u64" where
  "VirtAddr_diff self rhs = VirtAddr_as_u64 self - VirtAddr_as_u64 rhs"

text \<open>The type invariant the source states for \<open>VirtAddr\<close>: the wrapped value is canonical.\<close>

definition VirtAddr_wf :: "VirtAddr \<Rightarrow> bool" where
  "VirtAddr_wf v \<longleftrightarrow> is_canonical (VirtAddr_as_u64 v)"

subsection \<open>The shared alignment contract\<close>

locale aligned_address =
  fixes raw :: "'addr \<Rightarrow> u64"
    and align_down :: "'addr \<Rightarrow> u64 \<Rightarrow> 'addr"
    and is_aligned :: "'addr \<Rightarrow> u64 \<Rightarrow> bool"
  assumes raw_inject: "raw a = raw b \<Longrightarrow> a = b"
    and align_down_raw: "is_power_of_two al \<Longrightarrow> raw (align_down a al) = raw a AND NOT (al - 1)"
    and align_down_other: "\<not> is_power_of_two al \<Longrightarrow> align_down a al = a"
    and is_aligned_raw: "is_aligned a al \<longleftrightarrow> is_power_of_two al \<and> raw a AND (al - 1) = 0"
begin

lemma unat_align_down:
  assumes "k < 64"
  shows "unat (raw (align_down a (2 ^ k))) = unat (raw a) div 2 ^ k * 2 ^ k"
proof -
  have "is_power_of_two (2 ^ k :: u64)" using assms by (auto simp: is_power_of_two_iff)
  then show ?thesis
    by (simp add: align_down_raw unat_and_not_mask flip: mask_eq_exp_minus_1)
qed

lemma is_aligned_dvd:
  assumes "k < 64"
  shows "is_aligned a (2 ^ k) \<longleftrightarrow> 2 ^ k dvd unat (raw a)"
proof -
  have p: "is_power_of_two (2 ^ k :: u64)" using assms by (auto simp: is_power_of_two_iff)
  have "raw a AND (2 ^ k - 1) = 0 \<longleftrightarrow> unat (raw a AND mask k) = 0"
    by (simp add: unsigned_eq_0_iff flip: mask_eq_exp_minus_1)
  also have "\<dots> \<longleftrightarrow> 2 ^ k dvd unat (raw a)"
    by (simp add: unat_and_mask dvd_eq_mod_eq_0)
  finally show ?thesis by (simp add: is_aligned_raw p)
qed

lemma align_down_aligned: "is_power_of_two al \<Longrightarrow> is_aligned (align_down a al) al"
  by (auto simp: is_power_of_two_iff is_aligned_dvd unat_align_down)

lemma align_down_le: "raw (align_down a al) \<le> raw a"
proof (cases "is_power_of_two al")
  case True
  then show ?thesis
    by (auto simp: is_power_of_two_iff word_le_nat_alt unat_align_down div_times_less_eq_dividend)
next
  case False
  then show ?thesis by (simp add: align_down_other)
qed

lemma align_down_greatest:
  assumes "is_aligned b al" "raw b \<le> raw a"
  shows "raw b \<le> raw (align_down a al)"
proof -
  obtain k where k: "k < 64" "al = 2 ^ k"
    using assms(1) by (auto simp: is_aligned_raw is_power_of_two_iff)
  then obtain q where q: "unat (raw b) = 2 ^ k * q"
    using assms(1) by (auto simp: is_aligned_dvd elim: dvdE)
  then have "q \<le> unat (raw a) div 2 ^ k"
    using assms(2) by (simp add: word_le_nat_alt less_eq_div_iff_mult_less_eq mult.commute)
  then show ?thesis
    using q k by (simp add: word_le_nat_alt unat_align_down)
qed

lemma align_down_fixed_iff: "is_power_of_two al \<Longrightarrow> align_down a al = a \<longleftrightarrow> is_aligned a al"
proof -
  assume p: "is_power_of_two al"
  show ?thesis
  proof
    show "is_aligned a al" if "align_down a al = a" using align_down_aligned[OF p, of a] that by simp
    show "align_down a al = a" if "is_aligned a al"
      using align_down_greatest[OF that order_refl] align_down_le[of a al]
      by (intro raw_inject) simp
  qed
qed

end

interpretation phys: aligned_address PhysAddr_as_u64 PhysAddr_align_down PhysAddr_is_aligned
  by unfold_locales
    (auto simp: PhysAddr_align_down_def PhysAddr_is_aligned_def intro: PhysAddr.expand)

interpretation virt: aligned_address VirtAddr_as_u64 VirtAddr_align_down VirtAddr_is_aligned
  by unfold_locales
    (auto simp: VirtAddr_align_down_def VirtAddr_is_aligned_def intro: VirtAddr.expand)

subsection \<open>Canonical form\<close>

lemma CANONICAL_MASK_eq: "CANONICAL_MASK = mask 48"
  by (simp add: CANONICAL_MASK_def CANONICAL_SIGN_BIT_def mask_eq_exp_minus_1 push_bit_eq_mult)

lemma PHYS_ADDR_MASK_eq: "PHYS_ADDR_MASK = mask 52"
  by (simp add: PHYS_ADDR_MASK_def PHYS_ADDR_MAX_BITS_def mask_eq_exp_minus_1 push_bit_eq_mult)

lemma drop_bit_and_1: "drop_bit k (a :: u64) AND 1 = (if bit a k then 1 else 0)"
  by (rule bit_word_eqI) (auto simp: bit_simps intro: gr_zeroI)

lemma drop_bit_and_1_eq [simp]:
  "drop_bit k (a :: u64) AND 1 = 1 \<longleftrightarrow> bit a k"
  "drop_bit k (a :: u64) AND 1 = 0 \<longleftrightarrow> \<not> bit a k"
  by (simp_all add: drop_bit_and_1)

lemma is_canonical_bits: "is_canonical a \<longleftrightarrow> (\<forall>n. 48 \<le> n \<longrightarrow> n < 64 \<longrightarrow> bit a n = bit a 47)"
proof -
  have z: "a AND NOT (mask 48) = 0 \<longleftrightarrow> (\<forall>n. 48 \<le> n \<longrightarrow> n < 64 \<longrightarrow> \<not> bit a n)"
    by (auto simp: bit_eq_iff bit_simps) (meson not_le)
  have o: "a AND NOT (mask 48) = NOT (mask 48) \<longleftrightarrow> (\<forall>n. 48 \<le> n \<longrightarrow> n < 64 \<longrightarrow> bit a n)"
    by (auto simp: bit_eq_iff bit_simps) (meson not_le)?
  show ?thesis
    by (simp add: is_canonical_def CANONICAL_MASK_eq CANONICAL_SIGN_BIT_def z o) blast
qed

lemma bit_new_truncate:
  "bit (VirtAddr_as_u64 (VirtAddr_new_truncate a)) n \<longleftrightarrow>
     (if n < 48 then bit a n else n < 64 \<and> bit a 47)"
proof -
  have "drop_bit 47 (a AND mask 48) AND 1 = 1 \<longleftrightarrow> bit a 47"
    by (simp only: drop_bit_and_1_eq) (simp add: bit_simps)
  then show ?thesis
    by (auto simp: VirtAddr_new_truncate_def CANONICAL_MASK_eq CANONICAL_SIGN_BIT_def Let_def bit_simps
        dest: bit_imp_le_length)
qed

lemma is_canonical_range: "is_canonical a \<longleftrightarrow> unat a < 2 ^ 47 \<or> 2 ^ 64 - 2 ^ 47 \<le> unat a"
proof -
  define q where "q = unat a div 2 ^ 47"
  have q: "q < 2 ^ 17" using unat_less_exp[of a] by (simp add: q_def div_less_iff_less_mult)
  have "bit a 47 \<longleftrightarrow> bit (unat a) 47" by (simp add: bit_unsigned_iff)
  also have "\<dots> \<longleftrightarrow> q mod 2 = 1"
    by (simp only: bit_iff_odd q_def odd_iff_mod_2_eq_one)
  finally have b47: "bit a 47 \<longleftrightarrow> q mod 2 = 1" .
  have half: "unat (a AND NOT (mask 48)) = q div 2 * 2 ^ 48"
    by (simp add: unat_and_not_mask q_def flip: div_mult2_eq)
  have "is_canonical a \<longleftrightarrow>
      \<not> bit a 47 \<and> unat (a AND NOT (mask 48)) = 0 \<or>
      bit a 47 \<and> unat (a AND NOT (mask 48)) = unat (NOT (mask 48) :: u64)"
    by (simp add: is_canonical_def CANONICAL_MASK_eq CANONICAL_SIGN_BIT_def Let_def
        word_unat_eq_iff [of "a AND NOT (mask 48)"])
  also have "unat (NOT (mask 48) :: u64) = 65535 * 2 ^ 48"
    by (simp add: mask_eq_exp_minus_1)
  also have "(\<not> bit a 47 \<and> unat (a AND NOT (mask 48)) = 0 \<or>
      bit a 47 \<and> unat (a AND NOT (mask 48)) = 65535 * 2 ^ 48) \<longleftrightarrow> q = 0 \<or> q = 2 ^ 17 - 1"
    unfolding b47 half using q by (auto; presburger)
  also have "q = 0 \<longleftrightarrow> unat a < 2 ^ 47" by (simp add: q_def div_eq_0_iff)
  also have "q = 2 ^ 17 - 1 \<longleftrightarrow> 2 ^ 17 - 1 \<le> q" using q by auto
  also have "2 ^ 17 - 1 \<le> q \<longleftrightarrow> 2 ^ 64 - 2 ^ 47 \<le> unat a"
    by (simp add: q_def less_eq_div_iff_mult_less_eq)
  finally show ?thesis .
qed

lemma is_kernel_range: "VirtAddr_wf v \<Longrightarrow> VirtAddr_is_kernel v \<longleftrightarrow> 2 ^ 64 - 2 ^ 47 \<le> unat (VirtAddr_as_u64 v)"
proof -
  assume wf: "VirtAddr_wf v"
  let ?n = "unat (VirtAddr_as_u64 v)"
  have "VirtAddr_is_kernel v \<longleftrightarrow> bit ?n 47"
    by (simp add: VirtAddr_is_kernel_def CANONICAL_SIGN_BIT_def bit_unsigned_iff)
  also have "\<dots> \<longleftrightarrow> odd (?n div 2 ^ 47)" by (simp only: bit_iff_odd)
  also have "\<dots> \<longleftrightarrow> 2 ^ 64 - 2 ^ 47 \<le> ?n"
  proof (cases "?n < 2 ^ 47")
    case True
    then show ?thesis by simp
  next
    case False
    with wf have ge: "2 ^ 64 - 2 ^ 47 \<le> ?n" by (simp add: VirtAddr_wf_def is_canonical_range)
    have "?n < 2 ^ 64" using unat_less_exp [of "VirtAddr_as_u64 v"] by simp
    with ge have "?n div 2 ^ 47 = 2 ^ 17 - 1" by (intro div_nat_eqI) auto
    with ge show ?thesis by simp
  qed
  finally show ?thesis .
qed

lemma VirtAddr_new_wf: "VirtAddr_new a = Some v \<Longrightarrow> VirtAddr_wf v"
  by (auto simp: VirtAddr_new_def VirtAddr_wf_def split: if_splits)

lemma VirtAddr_new_truncate_wf: "VirtAddr_wf (VirtAddr_new_truncate a)"
  by (auto simp: VirtAddr_wf_def is_canonical_bits bit_new_truncate)

lemma new_truncate_canonical: "is_canonical a \<Longrightarrow> VirtAddr_new_truncate a = VirtAddr a"
  by (intro VirtAddr.expand bit_word_eqI) (auto simp: bit_new_truncate is_canonical_bits)

lemma VirtAddr_new_new_truncate:
  "VirtAddr_new (VirtAddr_as_u64 (VirtAddr_new_truncate a)) = Some (VirtAddr_new_truncate a)"
  using VirtAddr_new_truncate_wf [of a] by (simp add: VirtAddr_new_def VirtAddr_wf_def)

lemma VirtAddr_align_up_wf: "VirtAddr_align_up v al = Some w \<Longrightarrow> VirtAddr_wf w"
  by (auto simp: VirtAddr_align_up_def VirtAddr_new_new_truncate Let_def VirtAddr_new_truncate_wf
      bind_eq_Some_conv split: if_splits)

subsection \<open>Alignment\<close>

lemma is_power_of_two_PAGE_SIZE: "is_power_of_two (4096 :: u64)"
  by (auto simp: is_power_of_two_iff intro!: exI [of _ 12])

lemma round_up_least:
  fixes n m c :: nat
  assumes "0 < m" "m dvd c" "n \<le> c"
  shows "(n + (m - 1)) div m * m \<le> c"
proof -
  from assms(2) obtain q where "c = m * q" ..
  with assms have "n + (m - 1) < Suc q * m" by (simp add: mult.commute)
  then have "(n + (m - 1)) div m < Suc q" by (rule less_mult_imp_div_less)
  then have "(n + (m - 1)) div m * m \<le> q * m" by (intro mult_le_mono1) simp
  with \<open>c = m * q\<close> show ?thesis by (simp add: mult.commute)
qed

lemma round_up_ge:
  fixes n m :: nat
  assumes "0 < m"
  shows "n \<le> (n + (m - 1)) div m * m"
  using assms div_mult_mod_eq [of "n + (m - 1)" m] mod_less_divisor [of m "n + (m - 1)"]
  by linarith

text \<open>
  The sum that \<open>align_up\<close> checks overflows exactly when no multiple of the alignment at or above
  the address is representable.
\<close>

lemma round_up_overflow:
  fixes n k c :: nat
  assumes "k < 64" "2 ^ 64 \<le> n + (2 ^ k - 1)" "2 ^ k dvd c" "c < 2 ^ 64"
  shows "c < n"
proof -
  have "(2::nat) ^ k dvd 2 ^ 64" using assms(1) by (intro le_imp_power_dvd) simp
  then have "(2::nat) ^ k dvd 2 ^ 64 - c" using assms(3) by (rule dvd_diff_nat)
  then have "2 ^ k \<le> 2 ^ 64 - c" using assms(4) by (intro dvd_imp_le) auto
  with assms(2,4) show ?thesis by (simp; linarith)
qed

lemma unat_exp_minus_1: "k < 64 \<Longrightarrow> unat (2 ^ k - 1 :: u64) = 2 ^ k - 1"
  by (subst unat_sub) (auto simp: unat_exp word_le_nat_alt)

lemma round_up_word:
  assumes "k < 64" "checked_add (a :: u64) (2 ^ k - 1) = Some b"
  shows "unat (b AND NOT (2 ^ k - 1)) = (unat a + (2 ^ k - 1)) div 2 ^ k * 2 ^ k"
proof -
  have "unat b = unat a + (2 ^ k - 1)"
    using unat_checked_add [OF assms(2)] assms(1) by (simp add: unat_exp_minus_1)
  moreover have "unat (b AND NOT (2 ^ k - 1)) = unat b div 2 ^ k * 2 ^ k"
    by (simp add: unat_and_not_mask flip: mask_eq_exp_minus_1)
  ultimately show ?thesis by simp
qed

text \<open>
  \<open>VirtAddr::new_truncate\<close> always yields a canonical address that agrees with its argument on
  the 48 bits the MMU translates, and \<open>VirtAddr::new\<close> accepts exactly the values that truncation
  leaves unchanged.
\<close>

theorem VirtAddr_new_truncate_spec:
  "VirtAddr_wf (VirtAddr_new_truncate a) \<and>
   VirtAddr_as_u64 (VirtAddr_new_truncate a) AND CANONICAL_MASK = a AND CANONICAL_MASK \<and>
   (VirtAddr_new a = Some v \<longleftrightarrow> v = VirtAddr_new_truncate a \<and> VirtAddr_as_u64 v = a)"
proof (intro conjI)
  show "VirtAddr_wf (VirtAddr_new_truncate a)" by (rule VirtAddr_new_truncate_wf)
  show "VirtAddr_as_u64 (VirtAddr_new_truncate a) AND CANONICAL_MASK = a AND CANONICAL_MASK"
    by (rule bit_word_eqI) (auto simp: bit_simps CANONICAL_MASK_eq bit_new_truncate)
  show "VirtAddr_new a = Some v \<longleftrightarrow> v = VirtAddr_new_truncate a \<and> VirtAddr_as_u64 v = a"
    using VirtAddr_new_truncate_wf [of a]
    by (auto simp: VirtAddr_new_def VirtAddr_wf_def new_truncate_canonical)
qed

text \<open>
  \<open>PhysAddr::align_up\<close> with a power-of-two alignment returns the least aligned address that is
  not below its argument, and \<open>None\<close> exactly when every aligned \<open>u64\<close> lies below the argument.
\<close>

theorem PhysAddr_align_up_least:
  assumes "is_power_of_two al"
  shows "case PhysAddr_align_up a al of
      Some b \<Rightarrow> PhysAddr_is_aligned b al \<and> PhysAddr_as_u64 a \<le> PhysAddr_as_u64 b \<and>
        (\<forall>c. PhysAddr_is_aligned c al \<and> PhysAddr_as_u64 a \<le> PhysAddr_as_u64 c
             \<longrightarrow> PhysAddr_as_u64 b \<le> PhysAddr_as_u64 c)
    | None \<Rightarrow> \<forall>c. PhysAddr_is_aligned c al \<longrightarrow> PhysAddr_as_u64 c < PhysAddr_as_u64 a"
proof -
  obtain k where k: "k < 64" "al = 2 ^ k" using assms by (auto simp: is_power_of_two_iff)
  show ?thesis
  proof (cases "checked_add (PhysAddr_as_u64 a) (2 ^ k - 1)")
    case None
    then have "2 ^ 64 \<le> unat (PhysAddr_as_u64 a) + (2 ^ k - 1)"
      using k by (simp add: checked_add_eq_None unat_exp_minus_1)
    moreover have "PhysAddr_align_up a al = None"
      using None assms k by (simp add: PhysAddr_align_up_def)
    ultimately show ?thesis
      using k round_up_overflow [OF k(1)] unat_less_exp [where 'a = 64]
      by (simp add: phys.is_aligned_dvd word_less_nat_alt)
  next
    case (Some b)
    then have "PhysAddr_align_up a al = Some (PhysAddr (b AND NOT (2 ^ k - 1)))"
      using assms k by (simp add: PhysAddr_align_up_def PhysAddr_new_def)
    then show ?thesis
      using k round_up_word [OF k(1) Some] round_up_ge [of "2 ^ k" "unat (PhysAddr_as_u64 a)"]
        round_up_least [of "2 ^ k" _ "unat (PhysAddr_as_u64 a)"]
      by (simp add: phys.is_aligned_dvd word_le_nat_alt)
  qed
qed

theorem PhysAddr_align_up_least_witness:
  "is_power_of_two (4096 :: u64) \<and>
   PhysAddr_align_up (PhysAddr 4097) 4096 = Some (PhysAddr 8192) \<and>
   PhysAddr_is_aligned (PhysAddr 8192) 4096 \<and>
   PhysAddr_align_up (PhysAddr 0xFFFFFFFFFFFFF001) 4096 = None"
proof -
  have p: "is_power_of_two (4096 :: u64)" by (rule is_power_of_two_PAGE_SIZE)
  have e: "PhysAddr_align_up (PhysAddr 4097) 4096 = Some (PhysAddr 8192)"
    by (simp add: PhysAddr_align_up_def p checked_add_def PhysAddr_new_def)
  have n: "PhysAddr_align_up (PhysAddr 0xFFFFFFFFFFFFF001) 4096 = None"
    by (simp add: PhysAddr_align_up_def p checked_add_def)
  show ?thesis using PhysAddr_align_up_least [OF p, of "PhysAddr 4097"] p e n by simp
qed

lemma canonical_align_down_kernel:
  fixes n k :: nat
  assumes "2 ^ 64 - 2 ^ 47 \<le> n" "n < 2 ^ 64" "k < 64"
  shows "(n div 2 ^ k * 2 ^ k < 2 ^ 47 \<or> 2 ^ 64 - 2 ^ 47 \<le> n div 2 ^ k * 2 ^ k) \<longleftrightarrow> k \<le> 47"
proof (cases "k \<le> 47")
  case True
  then have "(2::nat) ^ k dvd 2 ^ 64 - 2 ^ 47"
    by (intro dvd_diff_nat le_imp_power_dvd) auto
  then obtain q where q: "(2::nat) ^ 64 - 2 ^ 47 = 2 ^ k * q" ..
  with assms(1) have "q \<le> n div 2 ^ k" by (simp add: less_eq_div_iff_mult_less_eq mult.commute)
  then have "2 ^ k * q \<le> n div 2 ^ k * 2 ^ k" by (simp add: mult.commute)
  with True q show ?thesis by simp
next
  case False
  have "n div 2 ^ k * 2 ^ k = 2 ^ 64 - 2 ^ k"
  proof -
    obtain j where j: "64 = k + j" "0 < j" using assms(3) by (metis less_imp_add_positive)
    then have e: "(2::nat) ^ 64 = 2 ^ k * 2 ^ j" by (simp flip: power_add)
    have "(2::nat) ^ 47 \<le> 2 ^ k" using False by (intro power_increasing) auto
    then have "n div 2 ^ k = 2 ^ j - 1"
      using assms(1,2) unfolding e
      by (intro div_nat_eqI) (auto simp: algebra_simps diff_mult_distrib)
    then show ?thesis unfolding e by (simp add: diff_mult_distrib2 mult.commute)
  qed
  moreover have "(2::nat) ^ 48 \<le> 2 ^ k" "(2::nat) ^ k \<le> 2 ^ 63"
    using False assms(3) by (intro power_increasing; simp)+
  ultimately show ?thesis using False by (simp; linarith)
qed

text \<open>
  C17. Rounding a canonical address down stays canonical exactly when the alignment is at most
  \<open>2^47\<close> or the address is in the user half: for a kernel-half address and an alignment of
  \<open>2^48\<close> or more, \<open>VirtAddr::align_down\<close> builds a \<open>VirtAddr\<close> that breaks the type's canonical
  guarantee.
\<close>

theorem VirtAddr_align_down_canonical_iff:
  assumes "VirtAddr_wf v" "k < 64"
  shows "VirtAddr_wf (VirtAddr_align_down v (2 ^ k)) \<longleftrightarrow> k \<le> 47 \<or> VirtAddr_is_user v"
proof -
  let ?n = "unat (VirtAddr_as_u64 v)"
  have d: "VirtAddr_wf (VirtAddr_align_down v (2 ^ k)) \<longleftrightarrow>
      ?n div 2 ^ k * 2 ^ k < 2 ^ 47 \<or> 2 ^ 64 - 2 ^ 47 \<le> ?n div 2 ^ k * 2 ^ k"
    using assms(2) by (simp add: VirtAddr_wf_def is_canonical_range virt.unat_align_down)
  show ?thesis
  proof (cases "VirtAddr_is_user v")
    case True
    then have "?n < 2 ^ 47"
      using assms(1) is_kernel_range [OF assms(1)]
      by (simp add: VirtAddr_is_user_def VirtAddr_wf_def is_canonical_range)
    then have "?n div 2 ^ k * 2 ^ k < 2 ^ 47"
      using div_times_less_eq_dividend le_less_trans by blast
    with d True show ?thesis by simp
  next
    case False
    then have "2 ^ 64 - 2 ^ 47 \<le> ?n"
      using is_kernel_range [OF assms(1)] by (simp add: VirtAddr_is_user_def)
    moreover have "?n < 2 ^ 64" using unat_less_exp [of "VirtAddr_as_u64 v"] by simp
    ultimately show ?thesis
      using d False canonical_align_down_kernel [of ?n k] assms(2) by simp
  qed
qed

theorem VirtAddr_align_down_canonical_iff_witness:
  "VirtAddr_wf (VirtAddr 0xFFFF800000000000) \<and> (48::nat) < 64 \<and>
   \<not> VirtAddr_is_user (VirtAddr 0xFFFF800000000000) \<and>
   \<not> VirtAddr_wf (VirtAddr_align_down (VirtAddr 0xFFFF800000000000) (2 ^ 48))"
proof -
  have wf: "VirtAddr_wf (VirtAddr 0xFFFF800000000000)"
    by (simp add: VirtAddr_wf_def is_canonical_range)
  have nu: "\<not> VirtAddr_is_user (VirtAddr 0xFFFF800000000000)"
    using is_kernel_range [OF wf] by (simp add: VirtAddr_is_user_def)
  show ?thesis using VirtAddr_align_down_canonical_iff [OF wf, of 48] wf nu by simp
qed

text \<open>
  \<open>VirtAddr::align_up\<close> crosses the canonical hole: for a user address above the last aligned
  user address it answers the first kernel address \<open>0xFFFF_8000_0000_0000\<close>, where its
  documentation promises \<open>None\<close>.
\<close>

theorem VirtAddr_align_up_crosses_hole:
  assumes "VirtAddr_wf v" "VirtAddr_is_user v" "k \<le> 47" "2 ^ 47 - 2 ^ k < unat (VirtAddr_as_u64 v)"
  shows "VirtAddr_align_up v (2 ^ k) = Some (VirtAddr 0xFFFF800000000000)"
proof -
  let ?a = "VirtAddr_as_u64 v"
  have k: "k < 64" using assms(3) by simp
  have p: "is_power_of_two (2 ^ k :: u64)" using k by (auto simp: is_power_of_two_iff)
  have hi: "unat ?a < 2 ^ 47"
    using assms(1,2) is_kernel_range [OF assms(1)]
    by (simp add: VirtAddr_is_user_def VirtAddr_wf_def is_canonical_range)
  have k47: "(2::nat) ^ k \<le> 2 ^ 47" using assms(3) by (intro power_increasing) auto
  obtain b where b: "checked_add ?a (2 ^ k - 1) = Some b"
    using hi k47 k by (cases "checked_add ?a (2 ^ k - 1)")
      (auto simp: checked_add_eq_None unat_exp_minus_1)
  have dvd47: "(2::nat) ^ k dvd 2 ^ 47" using assms(3) by (rule le_imp_power_dvd)
  define m where "m = (unat ?a + (2 ^ k - 1)) div 2 ^ k * 2 ^ k"
  have ge: "unat ?a \<le> m" unfolding m_def by (rule round_up_ge) simp
  have le: "m \<le> 2 ^ 47" unfolding m_def using hi dvd47 by (intro round_up_least) auto
  have "m = 2 ^ 47"
  proof (rule ccontr)
    assume "m \<noteq> 2 ^ 47"
    with le have lt: "m < 2 ^ 47" by simp
    have "(2::nat) ^ k dvd 2 ^ 47 - m"
      using dvd47 by (rule dvd_diff_nat) (simp add: m_def)
    then have "2 ^ k \<le> 2 ^ 47 - m" using lt by (intro dvd_imp_le) auto
    with assms(4) ge lt k47 show False by linarith
  qed
  then have "unat (b AND NOT (2 ^ k - 1)) = 2 ^ 47" using round_up_word [OF k b] by (simp add: m_def)
  then have "b AND NOT (2 ^ k - 1) = 2 ^ 47" by (simp add: word_unat_eq_iff)
  moreover have "VirtAddr_new_truncate (2 ^ 47) = VirtAddr 0xFFFF800000000000"
    by (simp add: VirtAddr_new_truncate_def CANONICAL_MASK_eq CANONICAL_SIGN_BIT_def
        mask_eq_exp_minus_1 bit_simps del: drop_bit_and_1_eq)
  ultimately show ?thesis
    using p b VirtAddr_new_new_truncate [of "2 ^ 47"] by (simp add: VirtAddr_align_up_def)
qed

theorem VirtAddr_align_up_crosses_hole_witness:
  "VirtAddr_wf (VirtAddr 0x7FFFFFFFF001) \<and> VirtAddr_is_user (VirtAddr 0x7FFFFFFFF001) \<and>
   VirtAddr_align_up (VirtAddr 0x7FFFFFFFF001) (2 ^ 12) = Some (VirtAddr 0xFFFF800000000000)"
proof -
  have wf: "VirtAddr_wf (VirtAddr 0x7FFFFFFFF001)"
    by (simp add: VirtAddr_wf_def is_canonical_range)
  have u: "VirtAddr_is_user (VirtAddr 0x7FFFFFFFF001)"
    using is_kernel_range [OF wf] by (simp add: VirtAddr_is_user_def)
  show ?thesis using VirtAddr_align_up_crosses_hole [OF wf u, of 12] wf u by simp
qed

end
