(* ===== verification/Page.thy ===== *)
theory Page
  imports Address
begin

text \<open>
  Pages, frames and page-table indices: \<open>crates/xenith-types/src/page.rs\<close> and \<open>size.rs\<close>. A
  \<open>Page\<close> or \<open>PhysFrame\<close> holds its aligned start address. \<open>PageRange\<close> is an iterator: one call of
  \<open>next\<close> returns the item and the advanced range, or panics, and \<open>PageRange_run\<close> is the loop
  that calls it.
\<close>

subsection \<open>Pages\<close>

datatype Page = Page (Page_start_address: VirtAddr)

definition Page_containing_addr :: "VirtAddr \<Rightarrow> Page" where
  "Page_containing_addr addr = Page (VirtAddr_align_down addr PAGE_SIZE)"

definition Page_number :: "Page \<Rightarrow> u64" where
  "Page_number self = VirtAddr_as_u64 (Page_start_address self) div PAGE_SIZE"

definition Page_next :: "Page \<Rightarrow> Page option" where
  "Page_next self =
     do {
       next_addr \<leftarrow> checked_add (VirtAddr_as_u64 (Page_start_address self)) PAGE_SIZE;
       next_va \<leftarrow> VirtAddr_new (VirtAddr_as_u64 (VirtAddr_new_truncate next_addr));
       Some (Page next_va)
     }"

definition Page_prev :: "Page \<Rightarrow> Page option" where
  "Page_prev self =
     do {
       prev_addr \<leftarrow> checked_sub (VirtAddr_as_u64 (Page_start_address self)) PAGE_SIZE;
       prev_va \<leftarrow> VirtAddr_new prev_addr;
       Some (Page prev_va)
     }"

definition Page_add :: "Page \<Rightarrow> u64 \<Rightarrow> Page option" where
  "Page_add self count =
     map_option Page_containing_addr (VirtAddr_add (Page_start_address self) (count * PAGE_SIZE))"

definition Page_sub :: "Page \<Rightarrow> u64 \<Rightarrow> Page option" where
  "Page_sub self count =
     map_option Page_containing_addr (VirtAddr_sub (Page_start_address self) (count * PAGE_SIZE))"

definition Page_diff :: "Page \<Rightarrow> Page \<Rightarrow> u64" where
  "Page_diff self rhs = Page_number self - Page_number rhs"

subsection \<open>Physical frames\<close>

datatype PhysFrame = PhysFrame (PhysFrame_start_address: PhysAddr)

definition PhysFrame_SIZE :: u64 where
  "PhysFrame_SIZE = PAGE_SIZE"

definition PhysFrame_containing_addr :: "PhysAddr \<Rightarrow> PhysFrame" where
  "PhysFrame_containing_addr addr = PhysFrame (PhysAddr_align_down addr PAGE_SIZE)"

definition PhysFrame_number :: "PhysFrame \<Rightarrow> u64" where
  "PhysFrame_number self = PhysAddr_as_u64 (PhysFrame_start_address self) div PAGE_SIZE"

definition PhysFrame_next :: "PhysFrame \<Rightarrow> PhysFrame option" where
  "PhysFrame_next self =
     do {
       n \<leftarrow> checked_add (PhysAddr_as_u64 (PhysFrame_start_address self)) PAGE_SIZE;
       Some (PhysFrame (PhysAddr_new_truncate n))
     }"

definition PhysFrame_add :: "PhysFrame \<Rightarrow> u64 \<Rightarrow> PhysFrame option" where
  "PhysFrame_add self count =
     map_option PhysFrame_containing_addr
       (PhysAddr_add (PhysFrame_start_address self) (count * PAGE_SIZE))"

definition PhysFrame_sub :: "PhysFrame \<Rightarrow> u64 \<Rightarrow> PhysFrame option" where
  "PhysFrame_sub self count =
     map_option PhysFrame_containing_addr
       (PhysAddr_sub (PhysFrame_start_address self) (count * PAGE_SIZE))"

definition PhysFrame_diff :: "PhysFrame \<Rightarrow> PhysFrame \<Rightarrow> u64" where
  "PhysFrame_diff self rhs = PhysFrame_number self - PhysFrame_number rhs"

subsection \<open>Page ranges\<close>

record PageRange =
  PageRange_start :: Page
  PageRange_end :: Page

abbreviation page_addr :: "Page \<Rightarrow> u64" where
  "page_addr p \<equiv> VirtAddr_as_u64 (Page_start_address p)"

definition PageRange_new :: "Page \<Rightarrow> Page \<Rightarrow> PageRange" where
  "PageRange_new start end' =
     (if page_addr start \<le> page_addr end'
      then \<lparr>PageRange_start = start, PageRange_end = end'\<rparr>
      else \<lparr>PageRange_start = end', PageRange_end = start\<rparr>)"

definition PageRange_between :: "VirtAddr \<Rightarrow> u64 \<Rightarrow> PageRange option" where
  "PageRange_between base len_bytes =
     do {
       let start = Page_containing_addr base;
       end_addr \<leftarrow> (if len_bytes = 0 then Some base else VirtAddr_add base (len_bytes - 1));
       let end' = Page_containing_addr end_addr;
       Some (PageRange_new start end')
     }"

definition PageRange_len :: "PageRange \<Rightarrow> u64" where
  "PageRange_len self = Page_diff (PageRange_end self) (PageRange_start self) + 1"

definition PageRange_is_empty :: "PageRange \<Rightarrow> bool" where
  "PageRange_is_empty self \<longleftrightarrow> PageRange_len self = 0"

text \<open>\<open>Iterator::next\<close>: the item and the advanced iterator; \<open>None\<close> is a panic.\<close>

definition PageRange_next :: "PageRange \<Rightarrow> (Page option \<times> PageRange) option" where
  "PageRange_next self =
     (if page_addr (PageRange_start self) > page_addr (PageRange_end self)
      then Some (None, self)
      else
        let cur = PageRange_start self in
        case Page_next cur of
          Some n \<Rightarrow> Some (Some cur, self\<lparr>PageRange_start := n\<rparr>)
        | None \<Rightarrow>
            do {
              past \<leftarrow> VirtAddr_add (Page_start_address (PageRange_end self)) PAGE_SIZE;
              Some (Some cur, self\<lparr>PageRange_start := Page_containing_addr past\<rparr>)
            })"

definition PageRange_size_hint :: "PageRange \<Rightarrow> u64" where
  "PageRange_size_hint self =
     (if page_addr (PageRange_start self) > page_addr (PageRange_end self) then 0
      else Page_diff (PageRange_end self) (PageRange_start self) + 1)"

text \<open>A \<open>for\<close> loop over the range, stopped after at most \<open>n\<close> calls of \<open>next\<close>.\<close>

fun PageRange_run :: "nat \<Rightarrow> PageRange \<Rightarrow> (Page list \<times> PageRange) option" where
  "PageRange_run 0 r = Some ([], r)"
| "PageRange_run (Suc n) r =
     do {
       (item, r') \<leftarrow> PageRange_next r;
       case item of
         None \<Rightarrow> Some ([], r')
       | Some p \<Rightarrow> do { (ps, r'') \<leftarrow> PageRange_run n r'; Some (p # ps, r'') }
     }"

subsection \<open>Page-table indices and levels\<close>

datatype PageTableIndex = PageTableIndex (PageTableIndex_value: u16)

definition PageTableIndex_MAX :: u16 where
  "PageTableIndex_MAX = 511"

definition PageTableIndex_new :: "u16 \<Rightarrow> PageTableIndex option" where
  "PageTableIndex_new idx = (if idx \<le> PageTableIndex_MAX then Some (PageTableIndex idx) else None)"

definition PageTableIndex_new_truncate :: "u16 \<Rightarrow> PageTableIndex" where
  "PageTableIndex_new_truncate idx = PageTableIndex (idx AND 0x1FF)"

definition PageTableIndex_add :: "PageTableIndex \<Rightarrow> u16 \<Rightarrow> PageTableIndex option" where
  "PageTableIndex_add self rhs =
     do {
       v \<leftarrow> checked_add (PageTableIndex_value self) rhs;
       PageTableIndex_new v
     }"

definition PageTableIndex_sub :: "PageTableIndex \<Rightarrow> u16 \<Rightarrow> PageTableIndex option" where
  "PageTableIndex_sub self rhs =
     do {
       v \<leftarrow> checked_sub (PageTableIndex_value self) rhs;
       PageTableIndex_new v
     }"

definition PageTableIndex_diff :: "PageTableIndex \<Rightarrow> PageTableIndex \<Rightarrow> u16" where
  "PageTableIndex_diff self rhs = PageTableIndex_value self - PageTableIndex_value rhs"

datatype PageTableLevel = Four | Three | Two | One

fun PageTableLevel_level :: "PageTableLevel \<Rightarrow> u8" where
  "PageTableLevel_level One = 1"
| "PageTableLevel_level Two = 2"
| "PageTableLevel_level Three = 3"
| "PageTableLevel_level Four = 4"

fun PageTableLevel_lower :: "PageTableLevel \<Rightarrow> PageTableLevel option" where
  "PageTableLevel_lower Four = Some Three"
| "PageTableLevel_lower Three = Some Two"
| "PageTableLevel_lower Two = Some One"
| "PageTableLevel_lower One = None"

fun PageTableLevel_upper :: "PageTableLevel \<Rightarrow> PageTableLevel option" where
  "PageTableLevel_upper One = Some Two"
| "PageTableLevel_upper Two = Some Three"
| "PageTableLevel_upper Three = Some Four"
| "PageTableLevel_upper Four = None"

definition PageTableLevel_is_leaf :: "PageTableLevel \<Rightarrow> bool" where
  "PageTableLevel_is_leaf self \<longleftrightarrow> self = One"

subsection \<open>Frame numbers\<close>

lemma PAGE_SIZE_exp: "PAGE_SIZE = 2 ^ 12"
  by (simp add: PAGE_SIZE_def)

lemma unat_PAGE_SIZE [simp]: "unat PAGE_SIZE = 4096"
  by (simp add: PAGE_SIZE_def)

definition Page_wf :: "Page \<Rightarrow> bool" where
  "Page_wf p \<longleftrightarrow> VirtAddr_wf (Page_start_address p) \<and> 4096 dvd unat (page_addr p)"

definition PhysFrame_wf :: "PhysFrame \<Rightarrow> bool" where
  "PhysFrame_wf f \<longleftrightarrow> 4096 dvd unat (PhysAddr_as_u64 (PhysFrame_start_address f))"

lemma unat_Page_number: "unat (Page_number p) = unat (page_addr p) div 4096"
  by (simp add: Page_number_def unat_div)

lemma unat_PhysFrame_number:
  "unat (PhysFrame_number f) = unat (PhysAddr_as_u64 (PhysFrame_start_address f)) div 4096"
  by (simp add: PhysFrame_number_def unat_div)

lemma unat_page_align_down:
  "unat (VirtAddr_as_u64 (VirtAddr_align_down v PAGE_SIZE)) = unat (VirtAddr_as_u64 v) div 4096 * 4096"
  using virt.unat_align_down [of 12 v] by (simp add: PAGE_SIZE_def)

lemma Page_containing_addr_wf:
  assumes "VirtAddr_wf v"
  shows "Page_wf (Page_containing_addr v)"
proof -
  define n where "n = unat (VirtAddr_as_u64 v)"
  have "n < 2 ^ 47 \<or> 2 ^ 64 - 2 ^ 47 \<le> n"
    using assms by (simp add: VirtAddr_wf_def is_canonical_range n_def)
  then have "n div 4096 * 4096 < 2 ^ 47 \<or> 2 ^ 64 - 2 ^ 47 \<le> n div 4096 * 4096"
    by auto
  then show ?thesis
    by (simp add: Page_wf_def VirtAddr_wf_def is_canonical_range Page_containing_addr_def
        unat_page_align_down n_def)
qed

subsection \<open>Successors and iteration\<close>

lemma unat_page_next:
  assumes "Page_wf p" "unat (page_addr p) + 4096 < 2 ^ 64"
  obtains a where "checked_add (page_addr p) PAGE_SIZE = Some a" "unat a = unat (page_addr p) + 4096"
proof -
  have "\<exists>a. checked_add (page_addr p) PAGE_SIZE = Some a"
    using assms(2) by (auto simp: checked_add_eq_Some unat_plus_if')
  then obtain a where a: "checked_add (page_addr p) PAGE_SIZE = Some a" by blast
  show thesis using that [OF a] unat_checked_add [OF a] by simp
qed

lemma Page_next_None_iff:
  assumes "Page_wf p"
  shows "Page_next p = None \<longleftrightarrow> 2 ^ 64 \<le> unat (page_addr p) + 4096"
proof (cases "unat (page_addr p) + 4096 < 2 ^ 64")
  case True
  then obtain a where "checked_add (page_addr p) PAGE_SIZE = Some a"
    using assms by (auto elim: unat_page_next)
  then show ?thesis using True by (simp add: Page_next_def VirtAddr_new_new_truncate)
next
  case False
  then have "checked_add (page_addr p) PAGE_SIZE = None" by (simp add: checked_add_eq_None)
  then show ?thesis using False by (simp add: Page_next_def)
qed

lemma new_truncate_first_hole:
  assumes "unat a = 2 ^ 47"
  shows "VirtAddr_new_truncate a = VirtAddr 0xFFFF800000000000"
proof -
  have "a = 0x800000000000" using assms by (simp add: word_unat_eq_iff)
  then show ?thesis
    by (simp add: VirtAddr_new_truncate_def CANONICAL_MASK_def CANONICAL_SIGN_BIT_def Let_def)
qed

lemma unat_Page_next:
  assumes wf: "Page_wf p" and q: "Page_next p = Some q"
  shows "Page_wf q \<and> unat (page_addr q) =
    (if unat (page_addr p) = 2 ^ 47 - 4096 then 2 ^ 64 - 2 ^ 47 else unat (page_addr p) + 4096)"
proof -
  have lt: "unat (page_addr p) + 4096 < 2 ^ 64"
    using Page_next_None_iff [OF wf] q by (simp add: not_le)
  obtain a where a: "checked_add (page_addr p) PAGE_SIZE = Some a"
      "unat a = unat (page_addr p) + 4096"
    using unat_page_next [OF wf lt] .
  have q': "q = Page (VirtAddr_new_truncate a)"
    using q a by (simp add: Page_next_def VirtAddr_new_new_truncate)
  obtain m where m: "unat (page_addr p) = 4096 * m"
    using wf by (auto simp: Page_wf_def)
  have c: "unat (page_addr p) < 2 ^ 47 \<or> 2 ^ 64 - 2 ^ 47 \<le> unat (page_addr p)"
    using wf by (simp add: Page_wf_def VirtAddr_wf_def is_canonical_range)
  show ?thesis
  proof (cases "unat (page_addr p) = 2 ^ 47 - 4096")
    case True
    then have "unat a = 2 ^ 47" using a by simp
    from new_truncate_first_hole [OF this] show ?thesis
      using True by (simp add: q' Page_wf_def VirtAddr_wf_def is_canonical_range)
  next
    case False
    have "is_canonical a" using c a(2) m False by (auto simp: is_canonical_range)
    then have "VirtAddr_new_truncate a = VirtAddr a" by (rule new_truncate_canonical)
    with \<open>is_canonical a\<close> show ?thesis
      using False a m by (simp add: q' Page_wf_def VirtAddr_wf_def)
  qed
qed

lemma Page_next_least:
  assumes "Page_wf p" "Page_next p = Some q" "Page_wf r" "page_addr p < page_addr r"
  shows "page_addr q \<le> page_addr r"
proof -
  obtain m where m: "unat (page_addr p) = 4096 * m" using assms(1) by (auto simp: Page_wf_def)
  obtain l where l: "unat (page_addr r) = 4096 * l" using assms(3) by (auto simp: Page_wf_def)
  have "unat (page_addr r) < 2 ^ 47 \<or> 2 ^ 64 - 2 ^ 47 \<le> unat (page_addr r)"
    using assms(3) by (simp add: Page_wf_def VirtAddr_wf_def is_canonical_range)
  then show ?thesis
    using unat_Page_next [OF assms(1,2)] assms(4) m l
    by (auto simp: word_le_nat_alt word_less_nat_alt split: if_splits)
qed

lemma Page_next_greater:
  assumes "Page_wf p" "Page_next p = Some q"
  shows "page_addr p < page_addr q" "unat (Page_number p) < unat (Page_number q)"
  using unat_Page_next [OF assms]
  by (auto simp: word_less_nat_alt unat_Page_number split: if_splits)

text \<open>
  \<open>Page::next\<close> is the successor in the order of the canonical pages: it answers \<open>None\<close> only on
  the last page of the address space, and otherwise the least well-formed page above \<open>self\<close>, so
  from the last user page it steps over the canonical hole to the first kernel page.
\<close>

theorem Page_next_successor:
  assumes "Page_wf p"
  shows "case Page_next p of
      None \<Rightarrow> unat (page_addr p) = 2 ^ 64 - 4096
    | Some q \<Rightarrow> Page_wf q \<and> page_addr p < page_addr q \<and>
        (\<forall>r. Page_wf r \<and> page_addr p < page_addr r \<longrightarrow> page_addr q \<le> page_addr r)"
proof (cases "Page_next p")
  case None
  obtain m where "unat (page_addr p) = 4096 * m" using assms by (auto simp: Page_wf_def)
  then show ?thesis
    using None Page_next_None_iff [OF assms] unat_less_exp [of "page_addr p"] by simp
next
  case (Some q)
  then show ?thesis
    using unat_Page_next [OF assms Some] Page_next_greater [OF assms Some]
      Page_next_least [OF assms Some] by simp
qed

theorem Page_next_successor_witness:
  "Page_wf (Page (VirtAddr 0x7FFFFFFFF000)) \<and>
   (\<exists>q. Page_next (Page (VirtAddr 0x7FFFFFFFF000)) = Some q \<and> page_addr q = 0xFFFF800000000000)"
proof -
  have wf: "Page_wf (Page (VirtAddr 0x7FFFFFFFF000))" "Page_wf (Page (VirtAddr 0xFFFF800000000000))"
    by (simp_all add: Page_wf_def VirtAddr_wf_def is_canonical_range)
  obtain q where q: "Page_next (Page (VirtAddr 0x7FFFFFFFF000)) = Some q"
    using Page_next_None_iff [OF wf(1)] by auto
  show ?thesis
    using Page_next_successor [OF wf(1)] unat_Page_next [OF wf(1) q] wf q
    by (auto simp: word_unat_eq_iff)
qed

abbreviation wf_pages_between :: "Page \<Rightarrow> Page \<Rightarrow> Page set" where
  "wf_pages_between p q \<equiv> {r. Page_wf r \<and> page_addr p \<le> page_addr r \<and> page_addr r \<le> page_addr q}"

lemma page_addr_inject [simp]: "page_addr p = page_addr q \<longleftrightarrow> p = q"
  by (metis Page.expand VirtAddr.expand)

lemma unat_PageRange_len:
  assumes "page_addr (PageRange_start r) \<le> page_addr (PageRange_end r)"
  shows "unat (PageRange_len r) =
    unat (Page_number (PageRange_end r)) - unat (Page_number (PageRange_start r)) + 1"
proof -
  let ?s = "unat (Page_number (PageRange_start r))" and ?e = "unat (Page_number (PageRange_end r))"
  have le: "?s \<le> ?e" using assms by (simp add: unat_Page_number word_le_nat_alt div_le_mono)
  have lt: "?e < 2 ^ 52"
    using unat_less_exp [of "page_addr (PageRange_end r)"] by (simp add: unat_Page_number)
  have "unat (Page_number (PageRange_end r) - Page_number (PageRange_start r)) = ?e - ?s"
    using le by (simp add: unat_sub word_le_nat_alt)
  then show ?thesis
    using lt by (simp add: PageRange_len_def Page_diff_def unat_plus_if')
qed

lemma wf_pages_between_step:
  assumes "Page_wf p" "Page_next p = Some q" "page_addr p \<le> page_addr e"
  shows "wf_pages_between p e = insert p (wf_pages_between q e)"
proof (intro set_eqI iffI)
  fix r assume r: "r \<in> wf_pages_between p e"
  show "r \<in> insert p (wf_pages_between q e)"
  proof (cases "r = p")
    case False
    then have "page_addr p < page_addr r" using r by (simp add: order_less_le)
    then have "page_addr q \<le> page_addr r" using Page_next_least [OF assms(1,2), of r] r by simp
    then show ?thesis using r by simp
  qed simp
next
  fix r assume "r \<in> insert p (wf_pages_between q e)"
  then show "r \<in> wf_pages_between p e"
    using assms Page_next_greater(1) [OF assms(1,2)] by auto
qed

lemma PageRange_run_past:
  "page_addr (PageRange_end r) < page_addr (PageRange_start r) \<Longrightarrow> PageRange_run n r = Some ([], r)"
  by (cases n) (simp_all add: PageRange_next_def)

lemma PageRange_run_complete:
  assumes "Page_wf (PageRange_start r)" "Page_wf (PageRange_end r)"
    "unat (page_addr (PageRange_end r)) + 4096 < 2 ^ 64"
    "unat (Page_number (PageRange_end r)) + 1 - unat (Page_number (PageRange_start r)) \<le> n"
  shows "\<exists>ps r'. PageRange_run n r = Some (ps, r') \<and>
    page_addr (PageRange_end r') < page_addr (PageRange_start r') \<and>
    sorted_wrt (\<lambda>p q. page_addr p < page_addr q) ps \<and>
    set ps = wf_pages_between (PageRange_start r) (PageRange_end r)"
  using assms
proof (induction n arbitrary: r)
  case 0
  then have "page_addr (PageRange_end r) < page_addr (PageRange_start r)"
    by (simp add: unat_Page_number word_less_nat_alt)
  then show ?case by (auto dest: le_less_trans)
next
  case (Suc n)
  let ?s = "PageRange_start r" and ?e = "PageRange_end r"
  show ?case
  proof (cases "page_addr ?s \<le> page_addr ?e")
    case False
    then have past: "page_addr ?e < page_addr ?s" by simp
    then show ?thesis
      using PageRange_run_past [OF past, of "Suc n"] by (auto dest: le_less_trans)
  next
    case True
    then obtain q where q: "Page_next ?s = Some q"
      using Page_next_None_iff [OF Suc.prems(1)] Suc.prems(3)
      by (cases "Page_next ?s") (auto simp: word_le_nat_alt)
    let ?r = "r\<lparr>PageRange_start := q\<rparr>"
    have num: "unat (Page_number ?s) < unat (Page_number q)"
      and gt: "page_addr ?s < page_addr q"
      using Page_next_greater [OF Suc.prems(1) q] by auto
    have fuel: "unat (Page_number ?e) + 1 - unat (Page_number q) \<le> n"
      using num Suc.prems(4) by linarith
    obtain ps r' where IH: "PageRange_run n ?r = Some (ps, r')"
        "page_addr (PageRange_end r') < page_addr (PageRange_start r')"
        "sorted_wrt (\<lambda>p q. page_addr p < page_addr q) ps" "set ps = wf_pages_between q ?e"
      using Suc.IH [of ?r] Suc.prems(2,3) fuel unat_Page_next [OF Suc.prems(1) q] by auto
    have "PageRange_run (Suc n) r = Some (?s # ps, r')"
      using True q IH(1) by (simp add: PageRange_next_def not_less)
    then show ?thesis
      using IH wf_pages_between_step [OF Suc.prems(1) q True] gt by auto
  qed
qed



lemma PageRange_run_top:
  assumes "Page_wf (PageRange_start r)" "page_addr (PageRange_end r) = 0xFFFFFFFFFFFFF000"
    "unat (Page_number (PageRange_end r)) + 1 - unat (Page_number (PageRange_start r)) \<le> n"
  shows "PageRange_run n r = None"
  using assms
proof (induction n arbitrary: r)
  case 0
  then have "2 ^ 52 \<le> unat (Page_number (PageRange_start r))"
    by (simp add: unat_Page_number)
  moreover have "unat (Page_number (PageRange_start r)) < 2 ^ 52"
    using unat_less_exp [of "page_addr (PageRange_start r)"] by (simp add: unat_Page_number)
  ultimately show ?case by simp
next
  case (Suc n)
  let ?s = "PageRange_start r"
  obtain m where m: "unat (page_addr ?s) = 4096 * m" using Suc.prems(1) by (auto simp: Page_wf_def)
  then have le: "page_addr ?s \<le> page_addr (PageRange_end r)"
    using Suc.prems(2) unat_less_exp [of "page_addr ?s"] by (simp add: word_le_nat_alt)
  show ?case
  proof (cases "Page_next ?s")
    case None
    have "VirtAddr_add (Page_start_address (PageRange_end r)) PAGE_SIZE = None"
      using Suc.prems(2) by (simp add: VirtAddr_add_def checked_add_def)
    then show ?thesis using le None by (simp add: PageRange_next_def)
  next
    case (Some q)
    have "PageRange_run n (r\<lparr>PageRange_start := q\<rparr>) = None"
      using Suc.IH [of "r\<lparr>PageRange_start := q\<rparr>"] Suc.prems unat_Page_next [OF Suc.prems(1) Some]
        Page_next_greater(2) [OF Suc.prems(1) Some] by simp
    then show ?thesis using le Some by (simp add: PageRange_next_def)
  qed
qed

text \<open>
  A range that ends at the last page of the address space cannot be iterated to its end: the
  loop panics on that page, because the branch meant to force termination adds a page to the
  address \<open>0xFFFF_FFFF_FFFF_F000\<close>.
\<close>

theorem PageRange_loop_panics_at_top:
  assumes "Page_wf p" "unat (PageRange_len r) \<le> n"
    "r = PageRange_new p (Page (VirtAddr 0xFFFFFFFFFFFFF000))"
  shows "PageRange_run n r = None"
proof -
  let ?top = "Page (VirtAddr 0xFFFFFFFFFFFFF000)"
  obtain m where m: "unat (page_addr p) = 4096 * m" using assms(1) by (auto simp: Page_wf_def)
  then have le: "page_addr p \<le> page_addr ?top"
    using unat_less_exp [of "page_addr p"] by (simp add: word_le_nat_alt)
  then have r: "r = \<lparr>PageRange_start = p, PageRange_end = ?top\<rparr>"
    using assms(3) by (simp add: PageRange_new_def)
  show ?thesis
    using PageRange_run_top [of r n] unat_PageRange_len [of r] assms(1,2) le r by simp
qed

theorem PageRange_loop_panics_at_top_witness:
  "PageRange_run 1 (PageRange_new (Page (VirtAddr 0xFFFFFFFFFFFFF000)) (Page (VirtAddr 0xFFFFFFFFFFFFF000))) = None"
proof -
  have wf: "Page_wf (Page (VirtAddr 0xFFFFFFFFFFFFF000))"
    by (simp add: Page_wf_def VirtAddr_wf_def is_canonical_range)
  show ?thesis
    by (rule PageRange_loop_panics_at_top [OF wf _ refl])
      (simp add: PageRange_new_def PageRange_len_def Page_diff_def)
qed

subsection \<open>Frames and table indices\<close>

lemma PhysFrame_containing_wf: "PhysFrame_wf (PhysFrame_containing_addr a)"
  using phys.unat_align_down [of 12 a]
  by (simp add: PhysFrame_wf_def PhysFrame_containing_addr_def PAGE_SIZE_def)

lemma unat_PhysFrame_next:
  assumes "PhysFrame_next f = Some g"
  shows "unat (PhysAddr_as_u64 (PhysFrame_start_address g)) =
    (unat (PhysAddr_as_u64 (PhysFrame_start_address f)) + 4096) mod 2 ^ 52"
proof -
  obtain a where a: "checked_add (PhysAddr_as_u64 (PhysFrame_start_address f)) PAGE_SIZE = Some a"
      and g: "g = PhysFrame (PhysAddr_new_truncate a)"
    using assms by (auto simp: PhysFrame_next_def bind_eq_Some_conv)
  have "unat (PhysAddr_as_u64 (PhysAddr_new_truncate a)) = unat a mod 2 ^ 52"
    by (simp add: PhysAddr_new_truncate_def PHYS_ADDR_MASK_eq unat_and_mask)
  then show ?thesis using unat_checked_add [OF a] g by simp
qed

text \<open>
  \<open>PhysFrame::next\<close> computes the next frame number modulo \<open>2^40\<close>: after the last frame of the
  52-bit physical space it answers frame 0, where its documentation promises \<open>None\<close>.
\<close>

theorem PhysFrame_next_wraps:
  assumes "PhysFrame_wf f" "unat (PhysFrame_number f) < 2 ^ 40"
  shows "\<exists>g. PhysFrame_next f = Some g \<and> PhysFrame_wf g \<and>
    unat (PhysFrame_number g) = (unat (PhysFrame_number f) + 1) mod 2 ^ 40"
proof -
  obtain m where m: "unat (PhysAddr_as_u64 (PhysFrame_start_address f)) = 4096 * m"
    using assms(1) by (auto simp: PhysFrame_wf_def)
  then have lt: "m < 2 ^ 40" using assms(2) by (simp add: unat_PhysFrame_number)
  then have "PhysFrame_next f \<noteq> None"
    using m by (simp add: PhysFrame_next_def checked_add_eq_None bind_eq_None_conv)
  then obtain g where g: "PhysFrame_next f = Some g" by blast
  have "(4096 * m + 4096) mod 2 ^ 52 = 4096 * ((m + 1) mod 2 ^ 40)"
  proof (cases "m + 1 = 2 ^ 40")
    case True
    then have "m = 2 ^ 40 - 1" by simp
    then show ?thesis by simp
  next
    case False
    then have "m + 1 < 2 ^ 40" "4096 * m + 4096 < 2 ^ 52" using lt by simp_all
    then show ?thesis by simp
  qed
  then have "unat (PhysAddr_as_u64 (PhysFrame_start_address g)) = 4096 * ((m + 1) mod 2 ^ 40)"
    using unat_PhysFrame_next [OF g] unfolding m by (rule trans [rotated])
  then have "PhysFrame_wf g" "unat (PhysFrame_number g) = (m + 1) mod 2 ^ 40"
    by (simp_all only: PhysFrame_wf_def unat_PhysFrame_number dvd_triv_left)
  moreover have "unat (PhysFrame_number f) = m" by (simp add: unat_PhysFrame_number m)
  ultimately show ?thesis using g by blast
qed

theorem PhysFrame_next_wraps_witness:
  "\<exists>g. PhysFrame_next (PhysFrame (PhysAddr 0xFFFFFFFFFF000)) = Some g \<and> PhysFrame_number g = 0"
proof -
  let ?f = "PhysFrame (PhysAddr 0xFFFFFFFFFF000)"
  have n: "unat (PhysFrame_number ?f) = 2 ^ 40 - 1" by (simp add: unat_PhysFrame_number)
  have "unat (PhysFrame_number ?f) < 2 ^ 40" "(unat (PhysFrame_number ?f) + 1) mod 2 ^ 40 = 0"
    unfolding n by simp_all
  then show ?thesis
    using PhysFrame_next_wraps [of ?f] by (auto simp: PhysFrame_wf_def unsigned_eq_0_iff)
qed

lemma PageTableIndex_bound:
  "PageTableIndex_new i = Some t \<Longrightarrow> PageTableIndex_value t < 512"
  "PageTableIndex_value (PageTableIndex_new_truncate i) < 512"
  "PageTableIndex_add t i = Some u \<Longrightarrow> PageTableIndex_value u < 512"
  "PageTableIndex_sub t i = Some u \<Longrightarrow> PageTableIndex_value u < 512"
proof -
  have n: "PageTableIndex_new i = Some t \<Longrightarrow> PageTableIndex_value t < 512" for i t
    by (auto simp: PageTableIndex_new_def PageTableIndex_MAX_def word_le_nat_alt word_less_nat_alt
        split: if_splits)
  show "PageTableIndex_new i = Some t \<Longrightarrow> PageTableIndex_value t < 512" by (rule n)
  have "unat (i AND mask 9) < 512" unfolding unat_and_mask by simp
  then show "PageTableIndex_value (PageTableIndex_new_truncate i) < 512"
    by (simp add: PageTableIndex_new_truncate_def mask_eq_exp_minus_1 word_less_nat_alt)
  show "PageTableIndex_add t i = Some u \<Longrightarrow> PageTableIndex_value u < 512"
    "PageTableIndex_sub t i = Some u \<Longrightarrow> PageTableIndex_value u < 512"
    by (auto simp: PageTableIndex_add_def PageTableIndex_sub_def bind_eq_Some_conv intro: n)
qed

lemma PageTableLevel_lower_upper:
  "PageTableLevel_lower l = Some m \<longleftrightarrow> PageTableLevel_upper m = Some l"
  by (cases l; cases m) simp_all

lemma PageTableLevel_is_leaf_iff: "PageTableLevel_is_leaf l \<longleftrightarrow> PageTableLevel_lower l = None"
  by (cases l) (simp_all add: PageTableLevel_is_leaf_def)

end
