(* ===== verification/Bitmap.thy ===== *)
theory Bitmap
  imports Xen_Prelude
begin

text \<open>
  The bit-level view of a word buffer, \<open>kernel/src/util/bitmap.rs\<close>: single-bit access, counting,
  the word-skipping searches and the range operations the physical frame allocator is built on.
  \<open>Bitmap_bits\<close> is the abstract value, the set of indices whose bit is set; every operation is
  shown to be the set operation it stands for.
\<close>

subsection \<open>The operations\<close>

definition BITS_PER_WORD :: nat where
  "BITS_PER_WORD = 64"

record Bitmap =
  Bitmap_words :: "u64 list"
  Bitmap_len :: nat

definition Bitmap_new :: "u64 list \<Rightarrow> Bitmap" where
  "Bitmap_new words = \<lparr>Bitmap_words = words, Bitmap_len = length words * BITS_PER_WORD\<rparr>"

definition Bitmap_with_len :: "u64 list \<Rightarrow> nat \<Rightarrow> Bitmap" where
  "Bitmap_with_len words len =
     (let cap = length words * BITS_PER_WORD in
      \<lparr>Bitmap_words = words, Bitmap_len = (if len < cap then len else cap)\<rparr>)"

definition Bitmap_is_empty :: "Bitmap \<Rightarrow> bool" where
  "Bitmap_is_empty self \<longleftrightarrow> Bitmap_len self = 0"

definition Bitmap_split_idx :: "nat \<Rightarrow> nat \<times> nat" where
  "Bitmap_split_idx idx = (idx div BITS_PER_WORD, idx mod BITS_PER_WORD)"

definition Bitmap_get :: "Bitmap \<Rightarrow> nat \<Rightarrow> bool option" where
  "Bitmap_get self idx =
     (if idx < Bitmap_len self then
        let (w, b) = Bitmap_split_idx idx in
        do {
          word \<leftarrow> index_opt (Bitmap_words self) w;
          Some (drop_bit b word AND 1 \<noteq> 0)
        }
      else None)"

definition Bitmap_set :: "Bitmap \<Rightarrow> nat \<Rightarrow> Bitmap option" where
  "Bitmap_set self idx =
     (if idx < Bitmap_len self then
        let (w, b) = Bitmap_split_idx idx in
        do {
          word \<leftarrow> index_opt (Bitmap_words self) w;
          words \<leftarrow> update_opt (Bitmap_words self) w (word OR push_bit b 1);
          Some (self\<lparr>Bitmap_words := words\<rparr>)
        }
      else None)"

definition Bitmap_clear :: "Bitmap \<Rightarrow> nat \<Rightarrow> Bitmap option" where
  "Bitmap_clear self idx =
     (if idx < Bitmap_len self then
        let (w, b) = Bitmap_split_idx idx in
        do {
          word \<leftarrow> index_opt (Bitmap_words self) w;
          words \<leftarrow> update_opt (Bitmap_words self) w (word AND NOT (push_bit b 1));
          Some (self\<lparr>Bitmap_words := words\<rparr>)
        }
      else None)"

definition Bitmap_toggle :: "Bitmap \<Rightarrow> nat \<Rightarrow> (bool \<times> Bitmap) option" where
  "Bitmap_toggle self idx =
     (if idx < Bitmap_len self then
        let (w, b) = Bitmap_split_idx idx in
        do {
          word \<leftarrow> index_opt (Bitmap_words self) w;
          let word' = word XOR push_bit b 1;
          words \<leftarrow> update_opt (Bitmap_words self) w word';
          Some (drop_bit b word' AND 1 \<noteq> 0, self\<lparr>Bitmap_words := words\<rparr>)
        }
      else None)"

definition Bitmap_assign :: "Bitmap \<Rightarrow> nat \<Rightarrow> bool \<Rightarrow> Bitmap option" where
  "Bitmap_assign self idx value = (if value then Bitmap_set self idx else Bitmap_clear self idx)"

definition Bitmap_count_ones :: "Bitmap \<Rightarrow> nat option" where
  "Bitmap_count_ones self =
     (let full_words = Bitmap_len self div BITS_PER_WORD;
          rem = Bitmap_len self mod BITS_PER_WORD in
      do {
        total \<leftarrow> for_each (\<lambda>total w. do { word \<leftarrow> index_opt (Bitmap_words self) w;
                                        Some (total + count_ones word) }) 0 [0..<full_words];
        if rem \<noteq> 0 then
          do {
            word \<leftarrow> index_opt (Bitmap_words self) full_words;
            Some (total + count_ones (word AND (push_bit rem 1 - 1)))
          }
        else Some total
      })"

definition Bitmap_count_zeros :: "Bitmap \<Rightarrow> nat option" where
  "Bitmap_count_zeros self = map_option (\<lambda>n. Bitmap_len self - n) (Bitmap_count_ones self)"

definition Bitmap_find_first_zero :: "Bitmap \<Rightarrow> nat option option" where
  "Bitmap_find_first_zero self =
     (let full_words = Bitmap_len self div BITS_PER_WORD;
          rem = Bitmap_len self mod BITS_PER_WORD in
      do {
        found \<leftarrow> for_first (\<lambda>w.
            do {
              word \<leftarrow> index_opt (Bitmap_words self) w;
              Some (if word \<noteq> - 1 then Some (w * BITS_PER_WORD + trailing_ones word) else None)
            }) [0..<full_words];
        case found of
          Some idx \<Rightarrow> Some (Some idx)
        | None \<Rightarrow>
            if rem \<noteq> 0 then
              do {
                raw \<leftarrow> index_opt (Bitmap_words self) full_words;
                let word = raw OR NOT (push_bit rem 1 - 1);
                Some (if word \<noteq> - 1 then
                        let idx = full_words * BITS_PER_WORD + trailing_ones word in
                        if idx < Bitmap_len self then Some idx else None
                      else None)
              }
            else Some None
      })"

definition Bitmap_find_first_free :: "Bitmap \<Rightarrow> nat option option" where
  "Bitmap_find_first_free self = Bitmap_find_first_zero self"

text \<open>The word \<open>find_zero_in\<close> tests for one word index, boundary bits masked to one.\<close>

definition find_zero_in_word :: "nat \<Rightarrow> nat \<Rightarrow> nat \<Rightarrow> u64 \<Rightarrow> u64" where
  "find_zero_in_word start end' word_start word =
     (let lower = min (start - word_start) BITS_PER_WORD;
          upper = min (end' - word_start) BITS_PER_WORD;
          below_mask = (if lower = 0 then 0 else push_bit lower 1 - 1);
          above_mask = (if upper = BITS_PER_WORD then 0 else NOT (push_bit upper 1 - 1)) in
      word OR below_mask OR above_mask)"

definition Bitmap_find_zero_in :: "Bitmap \<Rightarrow> nat \<Rightarrow> nat \<Rightarrow> nat option option" where
  "Bitmap_find_zero_in self start end0 =
     (if start \<ge> end0 \<or> start \<ge> Bitmap_len self then Some None
      else
        let end' = min end0 (Bitmap_len self);
            first_word = start div BITS_PER_WORD;
            last_word = (end' - 1) div BITS_PER_WORD in
        for_first (\<lambda>word_index.
            let word_start = word_index * BITS_PER_WORD in
            do {
              word \<leftarrow> index_opt (Bitmap_words self) word_index;
              let masked = find_zero_in_word start end' word_start word;
              Some (if masked \<noteq> - 1 then
                      let index = word_start + trailing_ones masked in
                      if index < end' then Some index else None
                    else None)
            }) [first_word..<Suc last_word])"

text \<open>
  The scan of \<open>allocate_range\<close>: \<open>start\<close> is the first index of the run of zeros being extended,
  \<open>run\<close> its length, \<open>idx\<close> the index under inspection.
\<close>

function Bitmap_allocate_loop ::
    "Bitmap \<Rightarrow> nat \<Rightarrow> nat option \<Rightarrow> nat \<Rightarrow> nat \<Rightarrow> (nat option \<times> Bitmap) option" where
  "Bitmap_allocate_loop self count start run idx =
     (if idx < Bitmap_len self then
        do {
          b \<leftarrow> Bitmap_get self idx;
          if \<not> b then
            let start' = (case start of None \<Rightarrow> Some idx | Some s \<Rightarrow> Some s);
                run' = run + 1 in
            if run' = count then
              do {
                s \<leftarrow> start';
                self' \<leftarrow> for_each Bitmap_set self [s..<s + count];
                Some (Some s, self')
              }
            else Bitmap_allocate_loop self count start' run' (idx + 1)
          else Bitmap_allocate_loop self count None 0 (idx + 1)
        }
      else Some (None, self))"
  by pat_completeness auto
termination
  by (relation "measure (\<lambda>(self, count, start, run, idx). Bitmap_len self - idx)") auto

declare Bitmap_allocate_loop.simps [simp del]

definition Bitmap_allocate_range :: "Bitmap \<Rightarrow> nat \<Rightarrow> (nat option \<times> Bitmap) option" where
  "Bitmap_allocate_range self count =
     (if count = 0 then Some (Some 0, self)
      else if count > Bitmap_len self then Some (None, self)
      else Bitmap_allocate_loop self count None 0 0)"

definition Bitmap_free_range :: "Bitmap \<Rightarrow> nat \<Rightarrow> nat \<Rightarrow> Bitmap option" where
  "Bitmap_free_range self start count =
     (if count = 0 then Some self
      else if start + count \<le> Bitmap_len self then for_each Bitmap_clear self [start..<start + count]
      else None)"

definition Bitmap_clear_all :: "Bitmap \<Rightarrow> Bitmap" where
  "Bitmap_clear_all self = self\<lparr>Bitmap_words := map (\<lambda>_. 0) (Bitmap_words self)\<rparr>"

definition Bitmap_set_all :: "Bitmap \<Rightarrow> Bitmap option" where
  "Bitmap_set_all self =
     (let full_words = Bitmap_len self div BITS_PER_WORD;
          rem = Bitmap_len self mod BITS_PER_WORD in
      do {
        words \<leftarrow> for_each (\<lambda>ws w. update_opt ws w (- 1)) (Bitmap_words self) [0..<full_words];
        words' \<leftarrow> (if rem \<noteq> 0 then update_opt words full_words (push_bit rem 1 - 1) else Some words);
        Some (self\<lparr>Bitmap_words := words'\<rparr>)
      })"

subsection \<open>The bit-store interface\<close>

text \<open>
  What the frame allocator relies on: \<open>set\<close> and \<open>clear\<close> insert and remove one index of the
  abstract set and panic out of range. The laws of loops over a range follow once.
\<close>

locale bit_store =
  fixes inv :: "'b \<Rightarrow> bool"
    and size_of :: "'b \<Rightarrow> nat"
    and bits :: "'b \<Rightarrow> nat set"
    and set_bit1 clear_bit1 :: "'b \<Rightarrow> nat \<Rightarrow> 'b option"
  assumes bits_bound: "inv b \<Longrightarrow> bits b \<subseteq> {..<size_of b}"
    and set_ok: "inv b \<Longrightarrow> i < size_of b \<Longrightarrow>
      \<exists>b'. set_bit1 b i = Some b' \<and> inv b' \<and> size_of b' = size_of b \<and> bits b' = insert i (bits b)"
    and set_oob: "\<not> i < size_of b \<Longrightarrow> set_bit1 b i = None"
    and clear_ok: "inv b \<Longrightarrow> i < size_of b \<Longrightarrow>
      \<exists>b'. clear_bit1 b i = Some b' \<and> inv b' \<and> size_of b' = size_of b \<and> bits b' = bits b - {i}"
    and clear_oob: "\<not> i < size_of b \<Longrightarrow> clear_bit1 b i = None"
begin

lemma set_each:
  assumes "inv b" "\<forall>i\<in>set is. i < size_of b"
  shows "\<exists>b'. for_each set_bit1 b is = Some b' \<and> inv b' \<and> size_of b' = size_of b \<and>
    bits b' = bits b \<union> set is"
  using assms
proof (induction "is" arbitrary: b)
  case (Cons i "is")
  then obtain b' where b': "set_bit1 b i = Some b'" "inv b'" "size_of b' = size_of b"
      "bits b' = insert i (bits b)"
    using set_ok [of b i] by auto
  then show ?case using Cons.IH [of b'] Cons.prems by auto
qed simp

lemma clear_each:
  assumes "inv b" "\<forall>i\<in>set is. i < size_of b"
  shows "\<exists>b'. for_each clear_bit1 b is = Some b' \<and> inv b' \<and> size_of b' = size_of b \<and>
    bits b' = bits b - set is"
  using assms
proof (induction "is" arbitrary: b)
  case (Cons i "is")
  then obtain b' where b': "clear_bit1 b i = Some b'" "inv b'" "size_of b' = size_of b"
      "bits b' = bits b - {i}"
    using clear_ok [of b i] by auto
  then show ?case using Cons.IH [of b'] Cons.prems by auto
qed simp

lemma finite_bits: "inv b \<Longrightarrow> finite (bits b)"
  using bits_bound finite_subset by blast

lemma card_bits_le: "inv b \<Longrightarrow> card (bits b) \<le> size_of b"
  using bits_bound [of b] card_mono [of "{..<size_of b}" "bits b"] by simp

end

subsection \<open>Bits as a set\<close>

definition Bitmap_wf :: "Bitmap \<Rightarrow> bool" where
  "Bitmap_wf b \<longleftrightarrow> Bitmap_len b \<le> length (Bitmap_words b) * 64"

definition Bitmap_bits :: "Bitmap \<Rightarrow> nat set" where
  "Bitmap_bits b = {i. i < Bitmap_len b \<and> bit (Bitmap_words b ! (i div 64)) (i mod 64)}"

lemma Bitmap_new_wf [simp]: "Bitmap_wf (Bitmap_new ws)" "Bitmap_wf (Bitmap_with_len ws n)"
  by (simp_all add: Bitmap_wf_def Bitmap_new_def Bitmap_with_len_def BITS_PER_WORD_def Let_def)

lemma Bitmap_word_index:
  "Bitmap_wf b \<Longrightarrow> i < Bitmap_len b \<Longrightarrow> i div 64 < length (Bitmap_words b)"
  by (auto simp: Bitmap_wf_def div_less_iff_less_mult)

lemma drop_bit_and_1_neq_0: "drop_bit k (w :: u64) AND 1 \<noteq> 0 \<longleftrightarrow> bit w k"
  by (simp add: bit_iff_and_drop_bit_eq_1 and_one_eq odd_iff_mod_2_eq_one mod2_eq_if)

lemma Bitmap_get_eq:
  assumes "Bitmap_wf b" "i < Bitmap_len b"
  shows "Bitmap_get b i = Some (i \<in> Bitmap_bits b)"
  using assms Bitmap_word_index [OF assms]
  by (simp add: Bitmap_get_def Bitmap_split_idx_def BITS_PER_WORD_def Bitmap_bits_def
      drop_bit_and_1_neq_0)

lemma bit_exp_u64: "bit (2 ^ k :: u64) n \<longleftrightarrow> n = k \<and> n < 64"
  by (auto simp: bit_simps)

lemma update_word_bits:
  assumes wf: "Bitmap_wf b" and i: "i < Bitmap_len b"
    and other: "\<And>n. n < 64 \<Longrightarrow> n \<noteq> i mod 64 \<Longrightarrow> bit v n = bit (Bitmap_words b ! (i div 64)) n"
    and c: "c = b\<lparr>Bitmap_words := (Bitmap_words b)[i div 64 := v]\<rparr>"
  shows "Bitmap_wf c \<and> Bitmap_len c = Bitmap_len b \<and>
    Bitmap_bits c = (if bit v (i mod 64) then insert i (Bitmap_bits b) else Bitmap_bits b - {i})"
proof -
  have ln: "i div 64 < length (Bitmap_words b)" using Bitmap_word_index [OF wf i] .
  have "j \<in> Bitmap_bits c \<longleftrightarrow> (if j = i then bit v (i mod 64) else j \<in> Bitmap_bits b)" for j
  proof (cases "j div 64 = i div 64")
    case True
    then have "j = i \<longleftrightarrow> j mod 64 = i mod 64" by (metis div_mult_mod_eq)
    then show ?thesis
      using True ln i other [of "j mod 64"] by (auto simp: Bitmap_bits_def c)
  next
    case False
    then show ?thesis using ln by (auto simp: Bitmap_bits_def c nth_list_update)
  qed
  then have "Bitmap_bits c = (if bit v (i mod 64) then insert i (Bitmap_bits b) else Bitmap_bits b - {i})"
    by (cases "bit v (i mod 64)"; intro set_eqI; simp)
  then show ?thesis using wf by (simp add: c Bitmap_wf_def)
qed

lemma Bitmap_set_ok:
  assumes "Bitmap_wf b" "i < Bitmap_len b"
  shows "\<exists>b'. Bitmap_set b i = Some b' \<and> Bitmap_wf b' \<and> Bitmap_len b' = Bitmap_len b \<and>
    Bitmap_bits b' = insert i (Bitmap_bits b)"
  using Bitmap_word_index [OF assms] assms
    update_word_bits [OF assms, of "Bitmap_words b ! (i div 64) OR push_bit (i mod 64) 1", OF _ refl]
  by (simp add: Bitmap_set_def Bitmap_split_idx_def BITS_PER_WORD_def bit_or_iff bit_exp_u64)

lemma Bitmap_clear_ok:
  assumes "Bitmap_wf b" "i < Bitmap_len b"
  shows "\<exists>b'. Bitmap_clear b i = Some b' \<and> Bitmap_wf b' \<and> Bitmap_len b' = Bitmap_len b \<and>
    Bitmap_bits b' = Bitmap_bits b - {i}"
  using Bitmap_word_index [OF assms] assms
    update_word_bits [OF assms, of "Bitmap_words b ! (i div 64) AND NOT (push_bit (i mod 64) 1)", OF _ refl]
  by (simp add: Bitmap_clear_def Bitmap_split_idx_def BITS_PER_WORD_def bit_and_iff bit_not_iff
      bit_exp_u64)

interpretation bm: bit_store Bitmap_wf Bitmap_len Bitmap_bits Bitmap_set Bitmap_clear
proof unfold_locales
  show "Bitmap_bits b \<subseteq> {..<Bitmap_len b}" for b by (auto simp: Bitmap_bits_def)
qed (simp_all add: Bitmap_set_ok Bitmap_clear_ok, simp_all add: Bitmap_set_def Bitmap_clear_def)

subsection \<open>The searches are first-match searches\<close>

abbreviation is_free :: "Bitmap \<Rightarrow> nat \<Rightarrow> bool" where
  "is_free b i \<equiv> i \<notin> Bitmap_bits b"

lemma bit_low_mask: "k \<le> 64 \<Longrightarrow> bit (2 ^ k - 1 :: u64) n \<longleftrightarrow> n < k"
  by (simp add: mask_eq_exp_minus_1 [symmetric] bit_mask_iff) linarith

lemma bit_find_zero_in_word:
  assumes "k < 64"
  shows "bit (find_zero_in_word s e ws w) k \<longleftrightarrow>
    bit w k \<or> ws + k < s \<or> e \<le> ws + k"
proof -
  have lo: "bit (if min (s - ws) 64 = 0 then 0 else push_bit (min (s - ws) 64) 1 - 1 :: u64) k \<longleftrightarrow> ws + k < s"
    using assms bit_low_mask [of "min (s - ws) 64" k] by (auto simp: min_def)
  have hi: "bit (if min (e - ws) 64 = 64 then 0 else NOT (push_bit (min (e - ws) 64) 1 - 1) :: u64) k \<longleftrightarrow> e \<le> ws + k"
    using assms bit_low_mask [of "min (e - ws) 64" k] by (auto simp: bit_not_iff min_def)
  show ?thesis
    unfolding find_zero_in_word_def BITS_PER_WORD_def Let_def bit_or_iff lo hi by (rule refl)
qed

lemma find_in_word:
  assumes wf: "Bitmap_wf b" and e: "e \<le> Bitmap_len b" and m: "m = find_zero_in_word s e (w * 64) (Bitmap_words b ! w)"
  shows "(if m \<noteq> - 1 then let i = w * 64 + trailing_ones m in if i < e then Some i else None else None)
    = List.find (is_free b) [max s (w * 64)..<min e (w * 64 + 64)]"
proof -
  let ?t = "trailing_ones m"
  have bit_m: "bit m k \<longleftrightarrow> bit (Bitmap_words b ! w) k \<or> w * 64 + k < s \<or> e \<le> w * 64 + k" if "k < 64" for k
    using that by (simp add: m bit_find_zero_in_word)
  have free: "is_free b (w * 64 + k) \<longleftrightarrow> \<not> bit m k"
    if "k < 64" "s \<le> w * 64 + k" "w * 64 + k < e" for k
    using that e bit_m [OF that(1)] by (auto simp: Bitmap_bits_def)
  have shift: "\<exists>k<64. i = w * 64 + k" if "w * 64 \<le> i" "i < w * 64 + 64" for i
    using that by (intro exI [of _ "i - w * 64"]) auto
  show ?thesis
  proof (cases "m = - 1")
    case True
    then have all: "bit m k" if "k < 64" for k using that by simp
    have "\<not> is_free b i" if "max s (w * 64) \<le> i" "i < min e (w * 64 + 64)" for i
      using that shift [of i] free all by auto
    then have "List.find (is_free b) [max s (w * 64)..<min e (w * 64 + 64)] = None"
      unfolding find_upt_None by blast
    then show ?thesis using True by simp
  next
    case False
    then have t: "?t < 64" using trailing_ones_less_iff [of m] by simp
    then have nb: "\<not> bit m ?t" using not_bit_trailing_ones [of m] by simp
    have rng: "s \<le> w * 64 + ?t" "w * 64 + ?t < e" using nb bit_m [OF t] by auto
    have least: "\<not> is_free b j" if j: "max s (w * 64) \<le> j" "j < w * 64 + ?t" for j
    proof -
      obtain k where k: "k < 64" "j = w * 64 + k" using shift [of j] j t by auto
      then have "bit m k" using j bit_below_trailing_ones [of k m] by simp
      then show ?thesis using free [of k] k j rng by auto
    qed
    have "List.find (is_free b) [max s (w * 64)..<min e (w * 64 + 64)] = Some (w * 64 + ?t)"
      unfolding find_upt_Some using rng t free [OF t] nb least by auto
    then show ?thesis using False rng by simp
  qed
qed

lemma concat_words:
  assumes "a * 64 \<le> s" "s < a * 64 + 64" "a \<le> b" "b * 64 < e"
  shows "concat (map (\<lambda>w. [max s (w * 64)..<min e (w * 64 + 64)]) [a..<Suc b]) =
    [s..<min e (b * 64 + 64)]"
  using assms(3,4)
proof (induction b rule: dec_induct)
  case base
  have "max s (a * 64) = s" using assms(1) by simp
  then show ?case by simp
next
  case (step n)
  let ?g = "\<lambda>w. [max s (w * 64)..<min e (w * 64 + 64)]"
  have IH: "concat (map ?g [a..<Suc n]) = [s..<n * 64 + 64]" using step by simp
  have last: "?g (Suc n) = [n * 64 + 64..<min e (Suc n * 64 + 64)]"
    using step assms(2) by (simp add: max_def add.commute)
  have "concat (map ?g [a..<Suc (Suc n)]) = concat (map ?g [a..<Suc n]) @ ?g (Suc n)"
    using step by simp
  also have "\<dots> = [s..<min e (Suc n * 64 + 64)]"
    unfolding IH last using step assms(2) by (subst upt_join) auto
  finally show ?case .
qed

lemma Bitmap_find_zero_in_eq:
  assumes wf: "Bitmap_wf b"
  shows "Bitmap_find_zero_in b s e = Some (List.find (is_free b) [s..<min e (Bitmap_len b)])"
proof (cases "s \<ge> e \<or> s \<ge> Bitmap_len b")
  case True
  then show ?thesis by (auto simp: Bitmap_find_zero_in_def)
next
  case False
  define e' where "e' = min e (Bitmap_len b)"
  define l where "l = (e' - 1) div 64"
  have e': "s < e'" "e' \<le> Bitmap_len b" "l * 64 < e'" "e' \<le> l * 64 + 64"
    using False by (auto simp: e'_def l_def)
  have idx: "w < length (Bitmap_words b)" if "w \<le> l" for w
    using that e' wf by (auto simp: Bitmap_wf_def)
  have le: "s div 64 \<le> l" using e' by (auto simp: l_def intro: div_le_mono)
  have "Bitmap_find_zero_in b s e = for_first (\<lambda>w.
      do { word \<leftarrow> index_opt (Bitmap_words b) w;
           let m = find_zero_in_word s e' (w * 64) word;
           Some (if m \<noteq> - 1 then let i = w * 64 + trailing_ones m in if i < e' then Some i else None
                 else None) }) [s div 64..<Suc l]"
    using False
    by (simp add: Bitmap_find_zero_in_def BITS_PER_WORD_def e'_def l_def Let_def del: upt_Suc cong: if_cong)
  also have "\<dots> = Some (List.find (is_free b) (concat (map (\<lambda>w. [max s (w * 64)..<min e' (w * 64 + 64)])
      [s div 64..<Suc l])))"
    by (rule for_first_find) (simp only: set_upt atLeastLessThan_iff less_Suc_eq_le idx index_opt_Some
        Option.bind.simps Let_def find_in_word [OF wf e'(2) refl, symmetric, unfolded Let_def])
  also have "\<dots> = Some (List.find (is_free b) [s..<e'])"
    using concat_words [of "s div 64" s l e'] e' le by (auto simp: min_def)
  finally show ?thesis by (simp add: e'_def)
qed

lemma find_zero_in_word_inside:
  assumes "s \<le> ws"
  shows "find_zero_in_word s e ws w = (if ws + 64 \<le> e then w else w OR NOT (2 ^ (e - ws) - 1))"
  using assms by (auto simp: find_zero_in_word_def BITS_PER_WORD_def Let_def min_def)

lemma Bitmap_find_first_zero_eq:
  assumes wf: "Bitmap_wf b"
  shows "Bitmap_find_first_zero b = Some (List.find (is_free b) [0..<Bitmap_len b])"
proof -
  define full where "full = Bitmap_len b div 64"
  define rem where "rem = Bitmap_len b mod 64"
  have len: "Bitmap_len b = full * 64 + rem" "rem < 64" by (auto simp: full_def rem_def)
  have idx: "w < length (Bitmap_words b)" if "w < full" for w
    using that wf len by (auto simp: Bitmap_wf_def)
  have word: "(if Bitmap_words b ! w \<noteq> - 1 then Some (w * 64 + trailing_ones (Bitmap_words b ! w)) else None)
      = List.find (is_free b) [w * 64..<w * 64 + 64]" if "w < full" for w
  proof -
    have e: "w * 64 + 64 \<le> Bitmap_len b" using that len by simp
    have "trailing_ones (Bitmap_words b ! w) < 64" if "Bitmap_words b ! w \<noteq> - 1"
      using that trailing_ones_less_iff [of "Bitmap_words b ! w"] by simp
    then show ?thesis
      using find_in_word [OF wf e refl, of "w * 64" w] by (auto simp: find_zero_in_word_inside Let_def split: if_splits)
  qed
  have "for_first (\<lambda>w. do { word \<leftarrow> index_opt (Bitmap_words b) w;
          Some (if word \<noteq> - 1 then Some (w * 64 + trailing_ones word) else None) }) [0..<full]
      = Some (List.find (is_free b) (concat (map (\<lambda>w. [w * 64..<w * 64 + 64]) [0..<full])))"
    by (rule for_first_find) (use idx word in auto)
  also have "concat (map (\<lambda>w. [w * 64..<w * 64 + 64]) [0..<full]) = [0..<full * 64]"
    by (induction full) (auto simp: upt_join add.commute)
  finally have body: "for_first (\<lambda>w. do { word \<leftarrow> index_opt (Bitmap_words b) w;
          Some (if word \<noteq> - 1 then Some (w * 64 + trailing_ones word) else None) }) [0..<full]
      = Some (List.find (is_free b) [0..<full * 64])" .
  have tail: "List.find (is_free b) [full * 64..<Bitmap_len b] =
      (let m = Bitmap_words b ! full OR NOT (2 ^ rem - 1) in
        if m \<noteq> - 1 then let i = full * 64 + trailing_ones m in if i < Bitmap_len b then Some i else None
        else None)"
    using find_in_word [OF wf order_refl refl, of "full * 64" full] len
    by (simp add: find_zero_in_word_inside Let_def cong: if_cong)
  have split: "List.find (is_free b) [0..<Bitmap_len b] =
      (case List.find (is_free b) [0..<full * 64] of Some x \<Rightarrow> Some x
        | None \<Rightarrow> List.find (is_free b) [full * 64..<Bitmap_len b])"
    using upt_join [of 0 "full * 64" "Bitmap_len b"] find_append len by (metis le0 le_add1)
  have lidx: "full < length (Bitmap_words b)" if "rem \<noteq> 0"
    using that wf len by (auto simp: Bitmap_wf_def)
  have "Bitmap_find_first_zero b = (case List.find (is_free b) [0..<full * 64] of
      Some idx \<Rightarrow> Some (Some idx)
    | None \<Rightarrow> if rem \<noteq> 0 then Some (List.find (is_free b) [full * 64..<Bitmap_len b]) else Some None)"
    unfolding Bitmap_find_first_zero_def BITS_PER_WORD_def full_def [symmetric] rem_def [symmetric] Let_def body
    using lidx by (simp add: tail Let_def cong: if_cong split: option.split)
  then show ?thesis unfolding split using len by (auto split: option.split)
qed



subsection \<open>Counting and allocating runs\<close>

lemma card_bits_block:
  assumes "w * 64 + m \<le> Bitmap_len b" "m \<le> 64"
  shows "card (Bitmap_bits b \<inter> {w * 64..<w * 64 + m}) = card {k. k < m \<and> bit (Bitmap_words b ! w) k}"
proof -
  have "Bitmap_bits b \<inter> {w * 64..<w * 64 + m} = (\<lambda>k. w * 64 + k) ` {k. k < m \<and> bit (Bitmap_words b ! w) k}"
  proof (intro set_eqI iffI)
    fix i assume i: "i \<in> Bitmap_bits b \<inter> {w * 64..<w * 64 + m}"
    then obtain k where k: "i = w * 64 + k" by (metis IntD2 atLeastLessThan_iff le_iff_add)
    then show "i \<in> (\<lambda>k. w * 64 + k) ` {k. k < m \<and> bit (Bitmap_words b ! w) k}"
      using i assms(2) by (auto simp: Bitmap_bits_def)
  qed (use assms in \<open>auto simp: Bitmap_bits_def\<close>)
  then show ?thesis by (simp add: card_image)
qed

lemma card_bits_split:
  "i \<le> j \<Longrightarrow> card (Bitmap_bits b \<inter> {..<j}) = card (Bitmap_bits b \<inter> {..<i}) + card (Bitmap_bits b \<inter> {i..<j})"
  by (subst card_Un_disjoint [symmetric]) (auto intro: arg_cong [of _ _ card])

lemma Bitmap_count_ones_eq:
  assumes wf: "Bitmap_wf b"
  shows "Bitmap_count_ones b = Some (card (Bitmap_bits b))"
proof -
  define full where "full = Bitmap_len b div 64"
  define rem where "rem = Bitmap_len b mod 64"
  let ?ws = "Bitmap_words b"
  have len: "Bitmap_len b = full * 64 + rem" "rem < 64" by (auto simp: full_def rem_def)
  have loop: "for_each (\<lambda>total w. do { word \<leftarrow> index_opt ?ws w; Some (total + count_ones word) }) 0 [0..<n]
      = Some (card (Bitmap_bits b \<inter> {..<n * 64}))" if "n \<le> full" for n
    using that
  proof (induction n)
    case (Suc n)
    have "n < length ?ws" using Suc.prems wf len by (auto simp: Bitmap_wf_def)
    moreover have "card (Bitmap_bits b \<inter> {n * 64..<n * 64 + 64}) = count_ones (?ws ! n)"
      using card_bits_block [of n 64 b] Suc.prems len by (simp add: count_ones_card)
    ultimately show ?case
      using Suc card_bits_split [of "n * 64" "n * 64 + 64" b]
      by (simp add: for_each_append add.commute)
  qed simp
  have all: "Bitmap_bits b \<inter> {..<Bitmap_len b} = Bitmap_bits b" by (auto simp: Bitmap_bits_def)
  show ?thesis
  proof (cases "rem = 0")
    case True
    then show ?thesis
      using loop [of full] len all
      by (simp add: Bitmap_count_ones_def BITS_PER_WORD_def full_def [symmetric] rem_def [symmetric])
  next
    case False
    have "full < length ?ws" using False wf len by (auto simp: Bitmap_wf_def)
    moreover have "{k. k < 64 \<and> bit (?ws ! full AND (2 ^ rem - 1)) k} = {k. k < rem \<and> bit (?ws ! full) k}"
      using len(2) by (auto simp: bit_and_iff bit_low_mask)
    then have "card (Bitmap_bits b \<inter> {full * 64..<Bitmap_len b}) = count_ones (?ws ! full AND (2 ^ rem - 1))"
      using card_bits_block [of full rem b] len by (simp add: count_ones_card)
    ultimately show ?thesis
      using loop [of full] False card_bits_split [of "full * 64" "Bitmap_len b" b] len all
      by (simp add: Bitmap_count_ones_def BITS_PER_WORD_def full_def [symmetric] rem_def [symmetric])
  qed
qed

definition free_run :: "Bitmap \<Rightarrow> nat \<Rightarrow> nat \<Rightarrow> bool" where
  "free_run b s count \<longleftrightarrow> s + count \<le> Bitmap_len b \<and> (\<forall>i\<in>{s..<s + count}. is_free b i)"

definition run_allocated :: "Bitmap \<Rightarrow> nat \<Rightarrow> nat \<Rightarrow> Bitmap \<Rightarrow> bool" where
  "run_allocated b s count b' \<longleftrightarrow> Bitmap_wf b' \<and> Bitmap_len b' = Bitmap_len b \<and>
     Bitmap_bits b' = Bitmap_bits b \<union> {s..<s + count}"

lemma Bitmap_allocate_loop_spec:
  assumes "Bitmap_wf b" "run < count" "idx \<le> Bitmap_len b"
    and "case start of None \<Rightarrow> run = 0
         | Some s \<Rightarrow> s + run = idx \<and> (\<forall>i\<in>{s..<idx}. is_free b i)"
    and "\<forall>t < idx - run. \<not> free_run b t count"
  shows "\<exists>res b'. Bitmap_allocate_loop b count start run idx = Some (res, b') \<and>
    (case res of None \<Rightarrow> b' = b \<and> (\<forall>t. \<not> free_run b t count)
     | Some s \<Rightarrow> free_run b s count \<and> (\<forall>t. t < s \<longrightarrow> \<not> free_run b t count) \<and> run_allocated b s count b')"
  using assms
proof (induction b count start run idx rule: Bitmap_allocate_loop.induct)
  case (1 b count start run idx)
  note wf = "1.prems"(1)
  have late: "\<not> free_run b t count" if "idx \<in> Bitmap_bits b \<or> idx = Bitmap_len b" "t \<le> idx" for t
    using that "1.prems"(2,5) by (cases "t < idx - run") (auto simp: free_run_def)
  show ?case
  proof (cases "idx < Bitmap_len b")
    case False
    then have "idx = Bitmap_len b" using "1.prems"(3) by simp
    then have "\<not> free_run b t count" for t
      using late [of t] "1.prems"(2) by (cases "t \<le> idx") (auto simp: free_run_def)
    then show ?thesis using False by (subst Bitmap_allocate_loop.simps) simp
  next
    case True
    note get = Bitmap_get_eq [OF wf True]
    show ?thesis
    proof (cases "idx \<in> Bitmap_bits b")
      case set: True
      have "\<forall>t < idx + 1 - 0. \<not> free_run b t count" using late set by simp
      then show ?thesis
        using "1.IH"(2) [of True] True get set wf "1.prems"(2)
        by (subst Bitmap_allocate_loop.simps) simp
    next
      case free: False
      define s where "s = idx - run"
      have s: "(case start of None \<Rightarrow> Some idx | Some s \<Rightarrow> Some s) = Some s" "s + run = idx"
        "\<forall>i\<in>{s..<idx + 1}. is_free b i"
        using "1.prems"(4) free by (auto simp: s_def less_Suc_eq split: option.splits)
      show ?thesis
      proof (cases "run + 1 = count")
        case full: True
        have run: "free_run b s count" using s full True by (auto simp: free_run_def)
        then obtain b' where "for_each Bitmap_set b [s..<s + count] = Some b'" "run_allocated b s count b'"
          using bm.set_each [OF wf, of "[s..<s + count]"] by (auto simp: free_run_def run_allocated_def)
        then show ?thesis
          using True get free s(1) full run "1.prems"(5)
          by (subst Bitmap_allocate_loop.simps) (simp add: s_def)
      next
        case more: False
        have "\<forall>t < idx + 1 - (run + 1). \<not> free_run b t count" using "1.prems"(5) by simp
        then show ?thesis
          using "1.IH"(1) [of False "Some s" "run + 1"] True get free s more wf "1.prems"(2)
          by (subst Bitmap_allocate_loop.simps) simp
      qed
    qed
  qed
qed

lemma Bitmap_allocate_range_spec:
  assumes "Bitmap_wf b" "0 < count"
  shows "\<exists>res b'. Bitmap_allocate_range b count = Some (res, b') \<and>
    (case res of None \<Rightarrow> b' = b \<and> (\<forall>t. \<not> free_run b t count)
     | Some s \<Rightarrow> free_run b s count \<and> (\<forall>t. t < s \<longrightarrow> \<not> free_run b t count) \<and> run_allocated b s count b')"
proof (cases "count > Bitmap_len b")
  case True
  then have "\<not> free_run b t count" for t by (simp add: free_run_def)
  then show ?thesis using True assms by (simp add: Bitmap_allocate_range_def)
next
  case False
  then show ?thesis
    using Bitmap_allocate_loop_spec [OF assms, of 0 None] assms
    by (simp add: Bitmap_allocate_range_def)
qed

lemma Bitmap_free_range_spec:
  assumes "Bitmap_wf b" "s + count \<le> Bitmap_len b"
  shows "\<exists>b'. Bitmap_free_range b s count = Some b' \<and> Bitmap_wf b' \<and> Bitmap_len b' = Bitmap_len b \<and>
    Bitmap_bits b' = Bitmap_bits b - {s..<s + count}"
  using assms bm.clear_each [OF assms(1), of "[s..<s + count]"] by (auto simp: Bitmap_free_range_def)

text \<open>
  C20. \<open>allocate_range\<close> is first fit and never panics: for a positive count it either leaves the
  bitmap unchanged and answers \<open>None\<close>, when no run of \<open>count\<close> clear bits exists, or it answers the
  lowest index at which such a run starts and sets exactly the bits of that run; freeing that run
  restores the set of allocated bits.
\<close>

theorem Bitmap_allocate_range_first_fit:
  assumes "Bitmap_wf b" "0 < count"
  shows "\<exists>res b'. Bitmap_allocate_range b count = Some (res, b') \<and>
    (case res of
       None \<Rightarrow> b' = b \<and> (\<forall>t. \<not> free_run b t count)
     | Some s \<Rightarrow> free_run b s count \<and> (\<forall>t. t < s \<longrightarrow> \<not> free_run b t count) \<and>
         Bitmap_bits b' = Bitmap_bits b \<union> {s..<s + count} \<and>
         (\<exists>b''. Bitmap_free_range b' s count = Some b'' \<and> Bitmap_bits b'' = Bitmap_bits b))"
proof -
  obtain res b' where r: "Bitmap_allocate_range b count = Some (res, b')"
    and spec: "case res of None \<Rightarrow> b' = b \<and> (\<forall>t. \<not> free_run b t count)
      | Some s \<Rightarrow> free_run b s count \<and> (\<forall>t. t < s \<longrightarrow> \<not> free_run b t count) \<and> run_allocated b s count b'"
    using Bitmap_allocate_range_spec [OF assms] by blast
  show ?thesis
  proof (cases res)
    case None
    then show ?thesis using r spec by simp
  next
    case (Some s)
    then have b': "free_run b s count" "run_allocated b s count b'" using spec by auto
    obtain b'' where "Bitmap_free_range b' s count = Some b''"
        "Bitmap_bits b'' = Bitmap_bits b' - {s..<s + count}"
      using b' Bitmap_free_range_spec [of b' s count] by (auto simp: run_allocated_def free_run_def)
    moreover have "Bitmap_bits b' - {s..<s + count} = Bitmap_bits b"
      using b' by (auto simp: run_allocated_def free_run_def)
    ultimately show ?thesis using r spec b' Some by (auto simp: run_allocated_def)
  qed
qed

theorem Bitmap_allocate_range_first_fit_witness:
  "\<exists>b'. Bitmap_allocate_range \<lparr>Bitmap_words = [0xB], Bitmap_len = 8\<rparr> 2 = Some (Some 4, b') \<and>
     Bitmap_bits b' = {0, 1, 3, 4, 5}"
proof -
  let ?b = "\<lparr>Bitmap_words = [0xB], Bitmap_len = 8\<rparr>"
  have wf: "Bitmap_wf ?b" by (simp add: Bitmap_wf_def)
  have "i \<in> Bitmap_bits ?b \<longleftrightarrow> i \<in> {0, 1, 3}" for i
  proof (cases "i < 8")
    case True
    then have "i = 0 \<or> i = 1 \<or> i = 2 \<or> i = 3 \<or> i = 4 \<or> i = 5 \<or> i = 6 \<or> i = 7" by linarith
    then show ?thesis by (elim disjE) (simp_all add: Bitmap_bits_def)
  qed (auto simp: Bitmap_bits_def)
  then have bits: "Bitmap_bits ?b = {0, 1, 3}" by blast
  have no: "\<not> free_run ?b t 2" if "t < 4" for t
  proof -
    have "t = 0 \<or> t = 1 \<or> t = 2 \<or> t = 3" using that by linarith
    then show ?thesis by (elim disjE) (auto simp: free_run_def bits)
  qed
  have yes: "free_run ?b 4 2" by (auto simp: free_run_def bits)
  obtain res b' where r: "Bitmap_allocate_range ?b 2 = Some (res, b')"
    and spec: "case res of None \<Rightarrow> b' = ?b \<and> (\<forall>t. \<not> free_run ?b t 2)
      | Some s \<Rightarrow> free_run ?b s 2 \<and> (\<forall>t. t < s \<longrightarrow> \<not> free_run ?b t 2) \<and>
         Bitmap_bits b' = Bitmap_bits ?b \<union> {s..<s + 2} \<and>
         (\<exists>b''. Bitmap_free_range b' s 2 = Some b'' \<and> Bitmap_bits b'' = Bitmap_bits ?b)"
    using Bitmap_allocate_range_first_fit [OF wf, of 2] by auto
  have "res = Some 4"
    using spec yes no by (cases res) (auto, meson linorder_neqE_nat)
  then show ?thesis using r spec by (auto simp: bits)
qed

subsection \<open>Whole-bitmap operations\<close>

lemma Bitmap_toggle_spec:
  assumes "Bitmap_wf b" "i < Bitmap_len b"
  shows "\<exists>b'. Bitmap_toggle b i = Some (i \<notin> Bitmap_bits b, b') \<and> Bitmap_wf b' \<and>
    Bitmap_len b' = Bitmap_len b \<and>
    Bitmap_bits b' = (if i \<in> Bitmap_bits b then Bitmap_bits b - {i} else insert i (Bitmap_bits b))"
proof -
  let ?v = "Bitmap_words b ! (i div 64) XOR push_bit (i mod 64) 1"
  have "bit ?v (i mod 64) \<longleftrightarrow> i \<notin> Bitmap_bits b"
    using assms(2) by (simp add: bit_xor_iff bit_exp_u64 Bitmap_bits_def)
  then show ?thesis
    using update_word_bits [OF assms, of ?v, OF _ refl] Bitmap_word_index [OF assms] assms
    by (simp add: Bitmap_toggle_def Bitmap_split_idx_def BITS_PER_WORD_def Let_def bit_xor_iff
        bit_exp_u64 drop_bit_and_1_neq_0)
qed

lemma Bitmap_clear_all_bits:
  "Bitmap_wf b \<Longrightarrow> Bitmap_wf (Bitmap_clear_all b) \<and> Bitmap_bits (Bitmap_clear_all b) = {}"
  using Bitmap_word_index by (auto simp: Bitmap_clear_all_def Bitmap_wf_def Bitmap_bits_def)

lemma for_each_update_all:
  "n \<le> length ws \<Longrightarrow> for_each (\<lambda>ws w. update_opt ws w v) ws [0..<n] = Some (replicate n v @ drop n ws)"
proof (induction n)
  case (Suc n)
  then have "(replicate n v @ drop n ws)[n := v] = replicate (Suc n) v @ drop (Suc n) ws"
    by (simp add: list_update_append upd_conv_take_nth_drop replicate_append_same [symmetric] drop_Suc
        Cons_nth_drop_Suc [symmetric])
  with Suc show ?case by (simp add: for_each_append)
qed simp

lemma Bitmap_set_all_spec:
  assumes wf: "Bitmap_wf b"
  shows "\<exists>b'. Bitmap_set_all b = Some b' \<and> Bitmap_wf b' \<and> Bitmap_len b' = Bitmap_len b \<and>
    Bitmap_bits b' = {..<Bitmap_len b}"
proof -
  define full where "full = Bitmap_len b div 64"
  define rem where "rem = Bitmap_len b mod 64"
  have len: "Bitmap_len b = full * 64 + rem" "rem < 64" by (auto simp: full_def rem_def)
  let ?ws = "replicate full (- 1) @ drop full (Bitmap_words b)"
  define ws where "ws = (if rem \<noteq> 0 then ?ws[full := 2 ^ rem - 1] else ?ws)"
  have fl: "full \<le> length (Bitmap_words b)" "rem \<noteq> 0 \<Longrightarrow> full < length (Bitmap_words b)"
    using wf len by (auto simp: Bitmap_wf_def)
  then have sa: "Bitmap_set_all b = Some (b\<lparr>Bitmap_words := ws\<rparr>)"
    by (simp add: Bitmap_set_all_def BITS_PER_WORD_def full_def [symmetric] rem_def [symmetric]
        for_each_update_all ws_def)
  have "bit (ws ! (i div 64)) (i mod 64)" if i: "i < Bitmap_len b" for i
  proof (cases "i div 64 < full")
    case True
    then show ?thesis by (simp add: ws_def nth_append nth_list_update)
  next
    case False
    have q: "i div 64 = full" using False i len by simp
    have "i div 64 * 64 + i mod 64 < full * 64 + rem" using i len by simp
    with q have "i mod 64 < rem" "rem \<noteq> 0" by simp_all
    note q this
    then show ?thesis using fl len by (simp add: ws_def nth_append bit_low_mask)
  qed
  then show ?thesis
    using sa wf fl by (auto simp: Bitmap_wf_def Bitmap_bits_def ws_def)
qed

end
