(* ===== verification/Memory_Region.thy ===== *)
theory Memory_Region
  imports Page
begin

text \<open>
  The boot memory map: \<open>RegionKind\<close> and \<open>MemoryRegion\<close> of \<open>crates/xenith-boot/src/region.rs\<close>, and
  the iterator of \<open>crates/xenith-boot/src/lib.rs\<close> that converts the bootloader's raw entries. The
  array the bootloader leaves in memory is a list of raw entries.
\<close>

subsection \<open>Regions\<close>

datatype RegionKind = Usable | Reserved | AcpiReclaim | AcpiNvs | Bad | Bootloader | Kernel

definition RegionKind_from_raw :: "u32 \<Rightarrow> RegionKind" where
  "RegionKind_from_raw kind =
     (if kind = 0 then Usable
      else if kind = 1 then Reserved
      else if kind = 2 then AcpiReclaim
      else if kind = 3 then AcpiNvs
      else if kind = 4 then Bad
      else if kind = 5 then Bootloader
      else if kind = 6 then Kernel
      else Reserved)"

fun RegionKind_as_raw :: "RegionKind \<Rightarrow> u32" where
  "RegionKind_as_raw Usable = 0"
| "RegionKind_as_raw Reserved = 1"
| "RegionKind_as_raw AcpiReclaim = 2"
| "RegionKind_as_raw AcpiNvs = 3"
| "RegionKind_as_raw Bad = 4"
| "RegionKind_as_raw Bootloader = 5"
| "RegionKind_as_raw Kernel = 6"

definition RegionKind_is_usable :: "RegionKind \<Rightarrow> bool" where
  "RegionKind_is_usable self \<longleftrightarrow> self = Usable"

definition RegionKind_is_preserved :: "RegionKind \<Rightarrow> bool" where
  "RegionKind_is_preserved self \<longleftrightarrow> self \<in> {Reserved, AcpiNvs, Bad}"

record MemoryRegion =
  MemoryRegion_start :: PhysAddr
  MemoryRegion_len :: u64
  MemoryRegion_kind :: RegionKind

definition MemoryRegion_end :: "MemoryRegion \<Rightarrow> PhysAddr option" where
  "MemoryRegion_end self =
     do {
       end' \<leftarrow> checked_add (PhysAddr_as_u64 (MemoryRegion_start self)) (MemoryRegion_len self);
       PhysAddr_new end'
     }"

definition MemoryRegion_contains :: "MemoryRegion \<Rightarrow> PhysAddr \<Rightarrow> bool" where
  "MemoryRegion_contains self addr \<longleftrightarrow>
     (let start = PhysAddr_as_u64 (MemoryRegion_start self); a = PhysAddr_as_u64 addr in
      a \<ge> start \<and> a - start < MemoryRegion_len self)"

definition MemoryRegion_is_usable :: "MemoryRegion \<Rightarrow> bool" where
  "MemoryRegion_is_usable self \<longleftrightarrow> RegionKind_is_usable (MemoryRegion_kind self)"

definition MemoryRegion_frame_count :: "MemoryRegion \<Rightarrow> u64" where
  "MemoryRegion_frame_count self =
     (let FRAME = 4096; base = PhysAddr_as_u64 (MemoryRegion_start self) in
      case map_option (\<lambda>v. v AND NOT (FRAME - 1)) (checked_add base (FRAME - 1)) of
        None \<Rightarrow> 0
      | Some aligned_base \<Rightarrow>
          let end' = (case checked_add base (MemoryRegion_len self) of Some e \<Rightarrow> e | None \<Rightarrow> base) in
          if aligned_base \<ge> end' then 0
          else let usable = end' - aligned_base in usable div FRAME)"

subsection \<open>The raw map\<close>

record MemmapEntry =
  MemmapEntry_base :: u64
  MemmapEntry_length :: u64
  MemmapEntry_kind :: u32
  MemmapEntry_reserved :: u32

text \<open>One item of \<open>MemoryMapIter\<close>, and the whole iteration over the bootloader's array.\<close>

definition MemoryMapIter_item :: "MemmapEntry \<Rightarrow> MemoryRegion" where
  "MemoryMapIter_item entry =
     \<lparr>MemoryRegion_start = PhysAddr_new_truncate (MemmapEntry_base entry),
      MemoryRegion_len = MemmapEntry_length entry,
      MemoryRegion_kind = RegionKind_from_raw (MemmapEntry_kind entry)\<rparr>"

definition BootInfo_memory_map :: "MemmapEntry list \<Rightarrow> MemoryRegion list" where
  "BootInfo_memory_map memmap = map MemoryMapIter_item memmap"

subsection \<open>Lemmas\<close>

lemma RegionKind_from_as_raw: "RegionKind_from_raw (RegionKind_as_raw k) = k"
  by (cases k) (simp_all add: RegionKind_from_raw_def)

lemma RegionKind_unknown_not_usable: "6 < k \<Longrightarrow> \<not> RegionKind_is_usable (RegionKind_from_raw k)"
  by (auto simp: RegionKind_from_raw_def RegionKind_is_usable_def)

lemma MemoryRegion_contains_iff:
  "MemoryRegion_end r = Some e \<Longrightarrow>
    MemoryRegion_contains r a \<longleftrightarrow>
      PhysAddr_as_u64 (MemoryRegion_start r) \<le> PhysAddr_as_u64 a \<and> PhysAddr_as_u64 a < PhysAddr_as_u64 e"
  by (auto simp: MemoryRegion_end_def MemoryRegion_contains_def PhysAddr_new_def bind_eq_Some_conv
      checked_add_eq_Some word_less_nat_alt word_le_nat_alt unat_sub Let_def)

end
