(* ===== verification/Frame_Allocator.thy ===== *)
theory Frame_Allocator
  imports Bitmap Memory_Region
begin

text \<open>
  The physical frame allocator, \<open>kernel/src/mm/physical/bitmap.rs\<close>. The fixed arrays with a length
  counter (\<open>usable\<close>, \<open>bootloader\<close>, \<open>released_bootloader\<close>) are lists of at most the array's size.
  \<open>from_boot_info\<close> takes the memory map and the heap's published physical claim as arguments and
  starts from the zeroed bitmap storage the source writes; \<open>usize\<close> is 64 bits wide, so the
  \<open>usize::try_from\<close> conversions of a \<open>u64\<close> always succeed.
\<close>

subsection \<open>Spans of frames\<close>

definition FRAME_SIZE :: u64 where
  "FRAME_SIZE = PhysFrame_SIZE"

definition MAX_USABLE_SPANS :: nat where
  "MAX_USABLE_SPANS = 128"

definition MAX_RECLAIMABLE_SPANS :: nat where
  "MAX_RECLAIMABLE_SPANS = 128"

record FrameSpan =
  FrameSpan_start :: u64
  FrameSpan_end :: u64

definition FrameSpan_EMPTY :: FrameSpan where
  "FrameSpan_EMPTY = \<lparr>FrameSpan_start = 0, FrameSpan_end = 0\<rparr>"

definition FrameSpan_new :: "u64 \<Rightarrow> u64 \<Rightarrow> FrameSpan" where
  "FrameSpan_new start end' = \<lparr>FrameSpan_start = start, FrameSpan_end = end'\<rparr>"

definition FrameSpan_contains :: "FrameSpan \<Rightarrow> u64 \<Rightarrow> bool" where
  "FrameSpan_contains self frame \<longleftrightarrow> frame \<ge> FrameSpan_start self \<and> frame < FrameSpan_end self"

definition FrameSpan_len :: "FrameSpan \<Rightarrow> u64" where
  "FrameSpan_len self = saturating_sub (FrameSpan_end self) (FrameSpan_start self)"

definition FrameSpan_overlaps :: "FrameSpan \<Rightarrow> FrameSpan \<Rightarrow> bool" where
  "FrameSpan_overlaps self other \<longleftrightarrow>
     FrameSpan_start self < FrameSpan_end other \<and> FrameSpan_start other < FrameSpan_end self"

datatype ProtectedFrameRange = ProtectedFrameRange (protected_span: FrameSpan)

definition ProtectedFrameRange_from_bytes :: "u64 \<Rightarrow> u64 \<Rightarrow> ProtectedFrameRange option" where
  "ProtectedFrameRange_from_bytes start len =
     do {
       end' \<leftarrow> checked_add start len;
       if start = end' then None
       else do {
         let first = start div FRAME_SIZE;
         up \<leftarrow> checked_add end' (FRAME_SIZE - 1);
         let last = up div FRAME_SIZE;
         if first < last then Some (ProtectedFrameRange (FrameSpan_new first last)) else None
       }
     }"

definition ProtectedFrameRange_from_frames :: "u64 \<Rightarrow> u64 \<Rightarrow> ProtectedFrameRange option" where
  "ProtectedFrameRange_from_frames start end' =
     (if start < end' then Some (ProtectedFrameRange (FrameSpan_new start end')) else None)"

record ReclaimReport =
  released_frames :: u64
  skipped_frames :: u64
  already_reclaimed :: bool

datatype BitmapInitError =
  EmptyMemoryMap | AddressSpaceTooLarge | NoBitmapStorage | TooManyUsableRegions
| TooManyReclaimableRegions

datatype DeallocateError = OutOfRange | ReservedFrame | DoubleFree | InvalidRange

record BitmapFrameAllocator =
  bitmap :: Bitmap
  total_frames :: u64
  capacity_frames :: u64
  free_frames :: u64
  next_frame :: nat
  usable :: "FrameSpan list"
  bootloader :: "FrameSpan list"
  released_bootloader :: "FrameSpan list"
  bootloader_reclaimed :: bool
  bitmap_storage :: FrameSpan
  heap_storage :: FrameSpan

subsection \<open>Helper functions\<close>

definition align_up :: "u64 \<Rightarrow> u64 \<Rightarrow> u64 option" where
  "align_up value align = map_option (\<lambda>v. v AND NOT (align - 1)) (checked_add value (align - 1))"

definition frame_from_index :: "u64 \<Rightarrow> PhysFrame" where
  "frame_from_index index = PhysFrame_containing_addr (PhysAddr_new_truncate (index * FRAME_SIZE))"

definition next_search_index :: "nat \<Rightarrow> nat \<Rightarrow> nat" where
  "next_search_index index len = (let n = index + 1 in if n \<ge> len then 1 else max n 1)"

definition complete_frames :: "MemoryRegion \<Rightarrow> FrameSpan option" where
  "complete_frames region =
     do {
       up \<leftarrow> align_up (PhysAddr_as_u64 (MemoryRegion_start region)) FRAME_SIZE;
       let start = up div FRAME_SIZE;
       end_addr \<leftarrow> checked_add (PhysAddr_as_u64 (MemoryRegion_start region)) (MemoryRegion_len region);
       let end' = end_addr div FRAME_SIZE;
       if start < end' then Some (FrameSpan_new start end') else None
     }"

definition select_disjoint_start :: "FrameSpan \<Rightarrow> u64 \<Rightarrow> FrameSpan \<Rightarrow> u64 option" where
  "select_disjoint_start span frames excluded =
     (let before_end = min (FrameSpan_end span) (FrameSpan_start excluded) in
      if saturating_sub before_end (FrameSpan_start span) \<ge> frames then Some (FrameSpan_start span)
      else
        let after_start = max (FrameSpan_start span) (FrameSpan_end excluded) in
        if saturating_sub (FrameSpan_end span) after_start \<ge> frames then Some after_start else None)"

fun find_map :: "('a \<Rightarrow> 'b option) \<Rightarrow> 'a list \<Rightarrow> 'b option" where
  "find_map f [] = None"
| "find_map f (x # xs) = (case f x of Some y \<Rightarrow> Some y | None \<Rightarrow> find_map f xs)"

definition select_bitmap_storage :: "MemoryRegion list \<Rightarrow> u64 \<Rightarrow> FrameSpan \<Rightarrow> u64 option" where
  "select_bitmap_storage memory_map frames excluded =
     find_map (\<lambda>span. select_disjoint_start span frames excluded)
       (List.map_filter complete_frames (filter MemoryRegion_is_usable memory_map))"

definition heap_claim_span :: "(PhysAddr \<times> u64) option \<Rightarrow> FrameSpan option" where
  "heap_claim_span heap_phys_claim =
     do {
       (start_addr, len) \<leftarrow> heap_phys_claim;
       let start = PhysAddr_as_u64 start_addr;
       end' \<leftarrow> checked_add start len;
       let first = start div FRAME_SIZE;
       up \<leftarrow> checked_add end' (FRAME_SIZE - 1);
       let last = up div FRAME_SIZE;
       if first < last then Some (FrameSpan_new first last) else None
     }"

abbreviation span_indices :: "FrameSpan \<Rightarrow> nat list" where
  "span_indices span \<equiv> [unat (FrameSpan_start span)..<unat (FrameSpan_end span)]"

definition mark_span :: "Bitmap \<Rightarrow> FrameSpan \<Rightarrow> bool \<Rightarrow> Bitmap option" where
  "mark_span bm span allocated = for_each (\<lambda>b idx. Bitmap_assign b idx allocated) bm (span_indices span)"

text \<open>The two loops of \<open>from_boot_info\<close> that copy the spans of a filtered map into an array.\<close>

fun collect_spans ::
    "BitmapInitError \<Rightarrow> nat \<Rightarrow> MemoryRegion list \<Rightarrow> FrameSpan list \<Rightarrow> BitmapInitError + FrameSpan list" where
  "collect_spans err cap [] acc = Inr acc"
| "collect_spans err cap (region # regions) acc =
     (case complete_frames region of
        None \<Rightarrow> collect_spans err cap regions acc
      | Some span \<Rightarrow>
          if length acc = cap then Inl err
          else collect_spans err cap regions (acc @ [span]))"

subsection \<open>Construction\<close>

text \<open>
  The part of \<open>from_boot_info\<close> after the spans are known: build the bitmap over zeroed storage,
  clear the usable frames, protect the bitmap's own frames, the heap and frame 0, and count.
\<close>

definition build_bitmap ::
    "u64 \<Rightarrow> u64 \<Rightarrow> FrameSpan list \<Rightarrow> FrameSpan \<Rightarrow> FrameSpan \<Rightarrow> Bitmap option" where
  "build_bitmap total' words usable_spans bitmap_span heap_span =
     do {
       let storage = replicate (unat words) 0;
       b0 \<leftarrow> Bitmap_set_all (Bitmap_with_len storage (unat total'));
       b1 \<leftarrow> for_each (\<lambda>b span. for_each Bitmap_clear b (span_indices span)) b0 usable_spans;
       b2 \<leftarrow> mark_span b1 bitmap_span True;
       b3 \<leftarrow> mark_span b2 heap_span True;
       if total' \<noteq> 0 then Bitmap_set b3 0 else Some b3
     }"

definition BitmapFrameAllocator_from_boot_info ::
    "MemoryRegion list \<Rightarrow> (PhysAddr \<times> u64) option \<Rightarrow> (BitmapInitError + BitmapFrameAllocator) option" where
  "BitmapFrameAllocator_from_boot_info memory_map heap_phys_claim =
     (case map PhysAddr_as_u64 (List.map_filter MemoryRegion_end memory_map) of
        [] \<Rightarrow> Some (Inl EmptyMemoryMap)
      | e # es \<Rightarrow>
        let max_end = fold max es e in
        if max_end = 0 then Some (Inl EmptyMemoryMap)
        else
        let total' = div_ceil max_end FRAME_SIZE;
            words = div_ceil total' 64 in
        case checked_mul words 8 of
          None \<Rightarrow> Some (Inl AddressSpaceTooLarge)
        | Some bitmap_bytes \<Rightarrow>
        let bitmap_frames = div_ceil bitmap_bytes FRAME_SIZE;
            heap_span = (case heap_claim_span heap_phys_claim of Some s \<Rightarrow> s | None \<Rightarrow> FrameSpan_EMPTY) in
        case select_bitmap_storage memory_map bitmap_frames heap_span of
          None \<Rightarrow> Some (Inl NoBitmapStorage)
        | Some bitmap_start \<Rightarrow>
        case checked_add bitmap_start bitmap_frames of
          None \<Rightarrow> Some (Inl AddressSpaceTooLarge)
        | Some bitmap_end \<Rightarrow>
        let bitmap_span = FrameSpan_new bitmap_start bitmap_end in
        case collect_spans TooManyUsableRegions MAX_USABLE_SPANS
               (filter MemoryRegion_is_usable memory_map) [] of
          Inl err \<Rightarrow> Some (Inl err)
        | Inr usable_spans \<Rightarrow>
        case collect_spans TooManyReclaimableRegions MAX_RECLAIMABLE_SPANS
               (filter (\<lambda>region. MemoryRegion_kind region = Bootloader) memory_map) [] of
          Inl err \<Rightarrow> Some (Inl err)
        | Inr bootloader_spans \<Rightarrow>
        do {
          b \<leftarrow> build_bitmap total' words usable_spans bitmap_span heap_span;
          zeros \<leftarrow> Bitmap_count_zeros b;
          found \<leftarrow> Bitmap_find_zero_in b 1 (unat total');
          Some (Inr \<lparr>bitmap = b, total_frames = total', capacity_frames = of_nat zeros,
                     free_frames = of_nat zeros,
                     next_frame = (case found of Some i \<Rightarrow> i | None \<Rightarrow> 1),
                     usable = usable_spans, bootloader = bootloader_spans,
                     released_bootloader = [], bootloader_reclaimed = False,
                     bitmap_storage = bitmap_span, heap_storage = heap_span\<rparr>)
        })"

subsection \<open>Allocation\<close>

definition BitmapFrameAllocator_allocate_frame ::
    "BitmapFrameAllocator \<Rightarrow> (PhysFrame option \<times> BitmapFrameAllocator) option" where
  "BitmapFrameAllocator_allocate_frame self =
     (let len = Bitmap_len (bitmap self) in
      if free_frames self = 0 \<or> len \<le> 1 then Some (None, self)
      else
        let start = min (max (next_frame self) 1) len in
        do {
          after \<leftarrow> Bitmap_find_zero_in (bitmap self) start len;
          found \<leftarrow> (case after of Some i \<Rightarrow> Some (Some i)
                     | None \<Rightarrow> Bitmap_find_zero_in (bitmap self) 1 start);
          case found of
            None \<Rightarrow> Some (None, self)
          | Some index \<Rightarrow>
              do {
                bm \<leftarrow> Bitmap_set (bitmap self) index;
                Some (Some (frame_from_index (of_nat index)),
                      self\<lparr>bitmap := bm, free_frames := free_frames self - 1,
                           next_frame := next_search_index index (Bitmap_len bm)\<rparr>)
              }
        })"

definition BitmapFrameAllocator_allocate_frame_below ::
    "BitmapFrameAllocator \<Rightarrow> PhysAddr \<Rightarrow> (PhysFrame option \<times> BitmapFrameAllocator) option" where
  "BitmapFrameAllocator_allocate_frame_below self exclusive_limit =
     (let max_frame = unat (min (PhysAddr_as_u64 exclusive_limit div FRAME_SIZE) (total_frames self)) in
      do {
        found \<leftarrow> Bitmap_find_zero_in (bitmap self) 1 max_frame;
        case found of
          None \<Rightarrow> Some (None, self)
        | Some index \<Rightarrow>
            do {
              bm \<leftarrow> Bitmap_set (bitmap self) index;
              Some (Some (frame_from_index (of_nat index)),
                    self\<lparr>bitmap := bm, free_frames := free_frames self - 1,
                         next_frame := next_search_index index (Bitmap_len bm)\<rparr>)
            }
      })"

definition BitmapFrameAllocator_allocate_range ::
    "BitmapFrameAllocator \<Rightarrow> u64 \<Rightarrow> (PhysFrame option \<times> BitmapFrameAllocator) option" where
  "BitmapFrameAllocator_allocate_range self count =
     (if count = 0 then Some (None, self)
      else if count = 1 then BitmapFrameAllocator_allocate_frame self
      else if count > free_frames self then Some (None, self)
      else
        do {
          (found, bm) \<leftarrow> Bitmap_allocate_range (bitmap self) (unat count);
          case found of
            None \<Rightarrow> Some (None, self\<lparr>bitmap := bm\<rparr>)
          | Some start \<Rightarrow>
              let end' = start + (unat count - 1) in
              Some (Some (frame_from_index (of_nat start)),
                    self\<lparr>bitmap := bm, free_frames := free_frames self - count,
                         next_frame := next_search_index end' (Bitmap_len bm)\<rparr>)
        })"

subsection \<open>Release\<close>

definition BitmapFrameAllocator_is_releasable :: "BitmapFrameAllocator \<Rightarrow> u64 \<Rightarrow> bool" where
  "BitmapFrameAllocator_is_releasable self idx =
     (if idx = 0 \<or> FrameSpan_contains (bitmap_storage self) idx \<or> FrameSpan_contains (heap_storage self) idx
      then False
      else (\<exists>span\<in>set (usable self). FrameSpan_contains span idx) \<or>
           (\<exists>span\<in>set (released_bootloader self). FrameSpan_contains span idx))"

definition BitmapFrameAllocator_deallocate_range ::
    "BitmapFrameAllocator \<Rightarrow> PhysFrame \<Rightarrow> u64 \<Rightarrow> ((DeallocateError + unit) \<times> BitmapFrameAllocator) option" where
  "BitmapFrameAllocator_deallocate_range self first count =
     (if count = 0 then Some (Inl InvalidRange, self)
      else
        let start = PhysFrame_number first in
        case checked_add start count of
          None \<Rightarrow> Some (Inl InvalidRange, self)
        | Some end' \<Rightarrow>
        if end' > total_frames self then Some (Inl OutOfRange, self)
        else do {
          refused \<leftarrow> for_first (\<lambda>idx.
              if \<not> BitmapFrameAllocator_is_releasable self (of_nat idx) then Some (Some ReservedFrame)
              else do {
                b \<leftarrow> Bitmap_get (bitmap self) idx;
                Some (if \<not> b then Some DoubleFree else None)
              }) [unat start..<unat end'];
          case refused of
            Some err \<Rightarrow> Some (Inl err, self)
          | None \<Rightarrow>
              do {
                bm \<leftarrow> Bitmap_free_range (bitmap self) (unat start) (unat count);
                free' \<leftarrow> checked_add (free_frames self) count;
                Some (Inr (), self\<lparr>bitmap := bm, free_frames := free'\<rparr>)
              }
        })"

definition BitmapFrameAllocator_deallocate ::
    "BitmapFrameAllocator \<Rightarrow> PhysFrame \<Rightarrow> ((DeallocateError + unit) \<times> BitmapFrameAllocator) option" where
  "BitmapFrameAllocator_deallocate self frame = BitmapFrameAllocator_deallocate_range self frame 1"

subsection \<open>Reclaiming the bootloader's memory\<close>

text \<open>\<open>(start..end).any(|frame| !bitmap.get(frame))\<close>, stopping at the first clear bit.\<close>

definition any_clear :: "Bitmap \<Rightarrow> FrameSpan \<Rightarrow> bool option" where
  "any_clear bm span =
     map_option (\<lambda>r. r \<noteq> None)
       (for_first (\<lambda>frame. do { b \<leftarrow> Bitmap_get bm frame; Some (if \<not> b then Some frame else None) })
         (span_indices span))"

definition reclaim_span ::
    "ProtectedFrameRange list \<Rightarrow> ReclaimReport \<times> BitmapFrameAllocator \<Rightarrow> FrameSpan
      \<Rightarrow> (ReclaimReport \<times> BitmapFrameAllocator) option" where
  "reclaim_span protected st original =
     (let (report, self) = st;
          span = FrameSpan_new (max (FrameSpan_start original) 1) (FrameSpan_end original) in
      if FrameSpan_start span \<ge> FrameSpan_end span then Some (report, self)
      else
        let is_protected = (\<exists>range\<in>set protected. FrameSpan_overlaps span (protected_span range)) \<or>
              FrameSpan_overlaps span (bitmap_storage self) \<or>
              FrameSpan_overlaps span (heap_storage self) in
        do {
          unexpectedly_available \<leftarrow> any_clear (bitmap self) span;
          if is_protected \<or> unexpectedly_available then
            Some (report\<lparr>skipped_frames := saturating_add (skipped_frames report) (FrameSpan_len span)\<rparr>, self)
          else do {
            bm \<leftarrow> mark_span (bitmap self) span False;
            released \<leftarrow> (if length (released_bootloader self) < MAX_RECLAIMABLE_SPANS
                         then Some (released_bootloader self @ [span]) else None);
            capacity \<leftarrow> checked_add (capacity_frames self) (FrameSpan_len span);
            free' \<leftarrow> checked_add (free_frames self) (FrameSpan_len span);
            Some (report\<lparr>released_frames := saturating_add (released_frames report) (FrameSpan_len span)\<rparr>,
                  self\<lparr>bitmap := bm, released_bootloader := released, capacity_frames := capacity,
                       free_frames := free',
                       next_frame := min (next_frame self) (unat (FrameSpan_start span))\<rparr>)
          }
        })"

definition BitmapFrameAllocator_reclaim_bootloader ::
    "BitmapFrameAllocator \<Rightarrow> ProtectedFrameRange list \<Rightarrow> (ReclaimReport \<times> BitmapFrameAllocator) option" where
  "BitmapFrameAllocator_reclaim_bootloader self protected =
     (if bootloader_reclaimed self then
        Some (\<lparr>released_frames = 0, skipped_frames = 0, already_reclaimed = True\<rparr>, self)
      else
        let self' = self\<lparr>bootloader_reclaimed := True\<rparr> in
        for_each (reclaim_span protected)
          (\<lparr>released_frames = 0, skipped_frames = 0, already_reclaimed = False\<rparr>, self')
          (bootloader self'))"

subsection \<open>Counters and the frame-backing interface\<close>

definition BitmapFrameAllocator_free_count :: "BitmapFrameAllocator \<Rightarrow> u64" where
  "BitmapFrameAllocator_free_count self = free_frames self"

definition BitmapFrameAllocator_used_count :: "BitmapFrameAllocator \<Rightarrow> u64" where
  "BitmapFrameAllocator_used_count self =
     saturating_sub (capacity_frames self) (BitmapFrameAllocator_free_count self)"

definition BitmapFrameAllocator_is_frame_free :: "BitmapFrameAllocator \<Rightarrow> u64 \<Rightarrow> bool option" where
  "BitmapFrameAllocator_is_frame_free self abs_idx =
     (if abs_idx < total_frames self then map_option Not (Bitmap_get (bitmap self) (unat abs_idx))
      else Some False)"

definition BitmapFrameAllocator_is_free :: "BitmapFrameAllocator \<Rightarrow> PhysFrame \<Rightarrow> bool option" where
  "BitmapFrameAllocator_is_free self frame =
     (let idx = PhysFrame_number frame in
      if idx < total_frames self then map_option Not (Bitmap_get (bitmap self) (unat idx))
      else Some False)"

definition BitmapFrameAllocator_mark_frame_allocated ::
    "BitmapFrameAllocator \<Rightarrow> u64 \<Rightarrow> BitmapFrameAllocator option" where
  "BitmapFrameAllocator_mark_frame_allocated self abs_idx =
     (if \<not> abs_idx < total_frames self then None
      else do {
        claimed \<leftarrow> Bitmap_get (bitmap self) (unat abs_idx);
        if claimed then None
        else do {
          bm \<leftarrow> Bitmap_set (bitmap self) (unat abs_idx);
          Some (self\<lparr>bitmap := bm, free_frames := free_frames self - 1,
                     next_frame := next_search_index (unat abs_idx) (Bitmap_len bm)\<rparr>)
        }
      })"

definition BitmapFrameAllocator_mark_frame_free ::
    "BitmapFrameAllocator \<Rightarrow> u64 \<Rightarrow> BitmapFrameAllocator option" where
  "BitmapFrameAllocator_mark_frame_free self abs_idx =
     (if \<not> BitmapFrameAllocator_is_releasable self abs_idx then None
      else do {
        claimed \<leftarrow> Bitmap_get (bitmap self) (unat abs_idx);
        if \<not> claimed then None
        else do {
          bm \<leftarrow> Bitmap_clear (bitmap self) (unat abs_idx);
          free' \<leftarrow> checked_add (free_frames self) 1;
          Some (self\<lparr>bitmap := bm, free_frames := free'\<rparr>)
        }
      })"

subsection \<open>The allocator invariant\<close>

definition free_set :: "BitmapFrameAllocator \<Rightarrow> nat set" where
  "free_set a = {..<Bitmap_len (bitmap a)} - Bitmap_bits (bitmap a)"

definition releasable_set :: "BitmapFrameAllocator \<Rightarrow> nat set" where
  "releasable_set a = {i. i < Bitmap_len (bitmap a) \<and> BitmapFrameAllocator_is_releasable a (of_nat i)}"

text \<open>
  The counter is the number of clear bits, every clear bit is a frame that may be released again
  (so never frame 0, the bitmap's own storage or the heap), and the spans stay inside the bitmap.
\<close>

definition allocator_inv :: "BitmapFrameAllocator \<Rightarrow> bool" where
  "allocator_inv a \<longleftrightarrow>
     Bitmap_wf (bitmap a) \<and> Bitmap_len (bitmap a) = unat (total_frames a) \<and>
     unat (total_frames a) \<le> 2 ^ 52 \<and>
     unat (free_frames a) = card (free_set a) \<and>
     free_set a \<subseteq> releasable_set a \<and>
     card (releasable_set a) \<le> unat (capacity_frames a) \<and>
     unat (capacity_frames a) \<le> (1 + length (released_bootloader a)) * 2 ^ 52 \<and>
     (\<forall>s\<in>set (usable a) \<union> set (bootloader a) \<union> set (released_bootloader a).
        FrameSpan_end s \<le> total_frames a) \<and>
     length (bootloader a) \<le> 128 \<and>
     (bootloader_reclaimed a \<or> released_bootloader a = [])"

text \<open>What the operations other than reclaiming leave unchanged.\<close>

definition same_layout :: "BitmapFrameAllocator \<Rightarrow> BitmapFrameAllocator \<Rightarrow> bool" where
  "same_layout a b \<longleftrightarrow>
     total_frames b = total_frames a \<and> capacity_frames b = capacity_frames a \<and>
     usable b = usable a \<and> bootloader b = bootloader a \<and>
     released_bootloader b = released_bootloader a \<and>
     bootloader_reclaimed b = bootloader_reclaimed a \<and>
     bitmap_storage b = bitmap_storage a \<and> heap_storage b = heap_storage a"

lemma same_layout_refl [simp]: "same_layout a a"
  by (simp add: same_layout_def)

lemma same_layout_releasable:
  "same_layout a b \<Longrightarrow> BitmapFrameAllocator_is_releasable b i = BitmapFrameAllocator_is_releasable a i"
  by (simp add: same_layout_def BitmapFrameAllocator_is_releasable_def)

lemma finite_free_set [simp]: "finite (free_set a)"
  by (simp add: free_set_def)

lemma finite_releasable_set [simp]: "finite (releasable_set a)"
  by (rule finite_subset [of _ "{..<Bitmap_len (bitmap a)}"]) (auto simp: releasable_set_def)

lemma free_set_less: "i \<in> free_set a \<Longrightarrow> i < Bitmap_len (bitmap a)"
  by (simp add: free_set_def)

lemma free_set_releasable:
  "allocator_inv a \<Longrightarrow> i \<in> free_set a \<Longrightarrow> BitmapFrameAllocator_is_releasable a (of_nat i)"
  by (auto simp: allocator_inv_def releasable_set_def)

lemma zero_not_free [simp]: "allocator_inv a \<Longrightarrow> 0 \<notin> free_set a"
  using free_set_releasable [of a 0] by (auto simp: BitmapFrameAllocator_is_releasable_def)

lemma inv_len: "allocator_inv a \<Longrightarrow> Bitmap_len (bitmap a) = unat (total_frames a)"
  by (simp add: allocator_inv_def)

lemma inv_wf: "allocator_inv a \<Longrightarrow> Bitmap_wf (bitmap a)"
  by (simp add: allocator_inv_def)

lemma inv_free: "allocator_inv a \<Longrightarrow> unat (free_frames a) = card (free_set a)"
  by (simp add: allocator_inv_def)

lemma is_free_iff: "i < Bitmap_len (bitmap a) \<Longrightarrow> is_free (bitmap a) i \<longleftrightarrow> i \<in> free_set a"
  by (simp add: free_set_def)

text \<open>Changing the set of clear bits and the counter together keeps the invariant.\<close>

lemma set_free_set_inv:
  assumes inv: "allocator_inv a" and bm: "Bitmap_wf bm" "Bitmap_len bm = Bitmap_len (bitmap a)"
    and F: "{..<Bitmap_len bm} - Bitmap_bits bm = F" "F \<subseteq> releasable_set a"
    and f: "unat f = card F"
    and b: "b = a\<lparr>bitmap := bm, free_frames := f, next_frame := n\<rparr>"
  shows "allocator_inv b \<and> free_set b = F \<and> same_layout a b"
proof -
  have l: "same_layout a b" by (simp add: b same_layout_def)
  have "releasable_set b = releasable_set a"
    using same_layout_releasable [OF l] bm by (auto simp: releasable_set_def b)
  moreover have "free_set b = F" using F(1) by (simp add: free_set_def b)
  ultimately show ?thesis
    using inv bm F f l by (simp add: allocator_inv_def b)
qed

lemma take_frames_inv:
  assumes inv: "allocator_inv a" and bm: "Bitmap_wf bm" "Bitmap_len bm = Bitmap_len (bitmap a)"
    and bits: "Bitmap_bits bm = Bitmap_bits (bitmap a) \<union> T" and T: "T \<subseteq> free_set a"
    and f: "f = free_frames a - of_nat (card T)"
  shows "allocator_inv (a\<lparr>bitmap := bm, free_frames := f, next_frame := n\<rparr>) \<and>
    free_set (a\<lparr>bitmap := bm, free_frames := f, next_frame := n\<rparr>) = free_set a - T \<and>
    same_layout a (a\<lparr>bitmap := bm, free_frames := f, next_frame := n\<rparr>)"
proof (rule set_free_set_inv [OF inv bm])
  show "{..<Bitmap_len bm} - Bitmap_bits bm = free_set a - T"
    using bits bm(2) by (auto simp: free_set_def)
  show "free_set a - T \<subseteq> releasable_set a" using inv by (auto simp: allocator_inv_def)
  have fin: "finite T" using T finite_subset by fastforce
  have le: "card T \<le> unat (free_frames a)"
    using card_mono [OF finite_free_set T] inv_free [OF inv] by simp
  then have "unat (of_nat (card T) :: u64) = card T"
    using unat_less_exp [of "free_frames a"] by (simp add: unsigned_of_nat take_bit_nat_eq_self)
  then have "unat f = unat (free_frames a) - card T"
    using le by (simp add: f unat_sub word_le_nat_alt)
  then show "unat f = card (free_set a - T)"
    using inv_free [OF inv] by (simp add: card_Diff_subset [OF fin T])
qed simp

lemma give_frames_inv:
  assumes inv: "allocator_inv a" and bm: "Bitmap_wf bm" "Bitmap_len bm = Bitmap_len (bitmap a)"
    and bits: "Bitmap_bits bm = Bitmap_bits (bitmap a) - T"
    and T: "T \<subseteq> releasable_set a" "T \<inter> free_set a = {}"
    and f: "unat f = unat (free_frames a) + card T"
  shows "allocator_inv (a\<lparr>bitmap := bm, free_frames := f, next_frame := n\<rparr>) \<and>
    free_set (a\<lparr>bitmap := bm, free_frames := f, next_frame := n\<rparr>) = free_set a \<union> T \<and>
    same_layout a (a\<lparr>bitmap := bm, free_frames := f, next_frame := n\<rparr>)"
proof (rule set_free_set_inv [OF inv bm])
  show "{..<Bitmap_len bm} - Bitmap_bits bm = free_set a \<union> T"
    using bits bm(2) T(1) by (auto simp: free_set_def releasable_set_def)
  show "free_set a \<union> T \<subseteq> releasable_set a" using inv T by (auto simp: allocator_inv_def)
  have "finite T" using T(1) finite_subset by fastforce
  then show "unat f = card (free_set a \<union> T)"
    using T(2) f inv_free [OF inv] by (subst card_Un_disjoint) auto
qed simp

subsection \<open>Allocation is exact\<close>

lemma frame_number_from_index:
  assumes "i < 2 ^ 40"
  shows "unat (PhysFrame_number (frame_from_index (of_nat i))) = i"
proof -
  have "unat (of_nat i * FRAME_SIZE :: u64) = i * 4096"
    using assms by (simp add: FRAME_SIZE_def PhysFrame_SIZE_def PAGE_SIZE_def unat_word_ariths
        unsigned_of_nat take_bit_eq_mod)
  then have "unat (PhysAddr_as_u64 (PhysAddr_new_truncate (of_nat i * FRAME_SIZE))) = i * 4096"
    using assms by (simp add: PhysAddr_new_truncate_def PHYS_ADDR_MASK_eq unat_and_mask)
  then show ?thesis
    using phys.unat_align_down [of 12 "PhysAddr_new_truncate (of_nat i * FRAME_SIZE)"]
    by (simp add: frame_from_index_def PhysFrame_containing_addr_def unat_PhysFrame_number PAGE_SIZE_def)
qed

lemma claim_index:
  assumes inv: "allocator_inv a" and i: "i \<in> free_set a"
  obtains bm where "Bitmap_set (bitmap a) i = Some bm" "Bitmap_len bm = Bitmap_len (bitmap a)"
    "\<And>n. allocator_inv (a\<lparr>bitmap := bm, free_frames := free_frames a - 1, next_frame := n\<rparr>)"
    "\<And>n. free_set (a\<lparr>bitmap := bm, free_frames := free_frames a - 1, next_frame := n\<rparr>) = free_set a - {i}"
    "\<And>n. same_layout a (a\<lparr>bitmap := bm, free_frames := free_frames a - 1, next_frame := n\<rparr>)"
proof -
  obtain bm where bm: "Bitmap_set (bitmap a) i = Some bm" "Bitmap_wf bm"
      "Bitmap_len bm = Bitmap_len (bitmap a)" "Bitmap_bits bm = Bitmap_bits (bitmap a) \<union> {i}"
    using bm.set_ok [OF inv_wf [OF inv] free_set_less [OF i]] by auto
  show thesis
    using that [OF bm(1,3)] take_frames_inv [OF inv bm(2-4), of "free_frames a - 1"] i by simp
qed

lemma find_free_None:
  assumes "List.find (is_free (bitmap a)) [x..<y] = None" "y \<le> Bitmap_len (bitmap a)"
  shows "free_set a \<inter> {x..<y} = {}"
  using assms by (auto simp: find_upt_None free_set_def)

lemma find_free_Some:
  assumes "List.find (is_free (bitmap a)) [x..<y] = Some i" "y \<le> Bitmap_len (bitmap a)"
  shows "i \<in> free_set a" "x \<le> i" "i < y" "free_set a \<inter> {x..<i} = {}"
  using assms by (auto simp: find_upt_Some free_set_def)

lemma allocate_frame_spec:
  assumes inv: "allocator_inv a"
  shows "\<exists>res b. BitmapFrameAllocator_allocate_frame a = Some (res, b) \<and> allocator_inv b \<and> same_layout a b \<and>
    (case res of
       None \<Rightarrow> free_set a = {} \<and> b = a
     | Some f \<Rightarrow> \<exists>i\<in>free_set a. f = frame_from_index (of_nat i) \<and> free_set b = free_set a - {i})"
proof (cases "free_frames a = 0 \<or> Bitmap_len (bitmap a) \<le> 1")
  case True
  then have "free_set a = {}"
  proof
    assume "free_frames a = 0"
    then show ?thesis using inv_free [OF inv] by simp
  next
    assume "Bitmap_len (bitmap a) \<le> 1"
    then show ?thesis using zero_not_free [OF inv] free_set_less by (metis equals0I less_one order_less_le_trans)
  qed
  then show ?thesis using True inv by (simp add: BitmapFrameAllocator_allocate_frame_def)
next
  case False
  let ?len = "Bitmap_len (bitmap a)"
  define start where "start = min (max (next_frame a) 1) ?len"
  note find = Bitmap_find_zero_in_eq [OF inv_wf [OF inv]]
  define found where "found = (case List.find (is_free (bitmap a)) [start..<?len] of
      Some i \<Rightarrow> Some i | None \<Rightarrow> List.find (is_free (bitmap a)) [1..<start])"
  have start: "1 \<le> start" "start \<le> ?len" using False by (auto simp: start_def)
  have run: "BitmapFrameAllocator_allocate_frame a = (case found of None \<Rightarrow> Some (None, a)
      | Some index \<Rightarrow> do { bm \<leftarrow> Bitmap_set (bitmap a) index;
          Some (Some (frame_from_index (of_nat index)),
                a\<lparr>bitmap := bm, free_frames := free_frames a - 1,
                  next_frame := next_search_index index (Bitmap_len bm)\<rparr>) })"
    using False start unfolding BitmapFrameAllocator_allocate_frame_def Let_def start_def [symmetric] find found_def
    by (simp split: option.split)
  show ?thesis
  proof (cases found)
    case None
    then have "free_set a \<inter> {start..<?len} = {}" "free_set a \<inter> {1..<start} = {}"
      using find_free_None [of a] start by (auto simp: found_def split: option.splits)
    then have "free_set a \<inter> {1..<?len} = {}" using start by (auto simp: disjoint_iff)
    then have "free_set a = {}"
      using zero_not_free [OF inv] free_set_less by (auto simp: disjoint_iff) (metis less_Suc0 not_less One_nat_def)
    then show ?thesis using run None inv by simp
  next
    case (Some i)
    then have i: "i \<in> free_set a"
      using find_free_Some(1) [of a] start by (auto simp: found_def split: option.splits)
    show ?thesis
      by (rule claim_index [OF inv i]) (use run Some i in auto)
  qed
qed

text \<open>
  C21. \<open>allocate_frame\<close> on a consistent allocator never panics, fails only when no frame is free,
  and otherwise hands out one frame that was free: that frame and no other leaves the free set,
  the free counter drops by one, and the invariant is kept, so the frame is not frame 0 and lies
  neither in the bitmap's storage nor in the heap. The frame number is the bitmap index as long as
  physical memory stays within 52 address bits.
\<close>

theorem allocate_frame_exact:
  assumes "allocator_inv a" "unat (total_frames a) \<le> 2 ^ 40"
  shows "\<exists>res b. BitmapFrameAllocator_allocate_frame a = Some (res, b) \<and> allocator_inv b \<and>
    (case res of
       None \<Rightarrow> free_frames a = 0 \<and> b = a
     | Some f \<Rightarrow> unat (PhysFrame_number f) \<in> free_set a \<and>
         BitmapFrameAllocator_is_releasable a (PhysFrame_number f) \<and>
         free_set b = free_set a - {unat (PhysFrame_number f)} \<and>
         unat (free_frames b) = unat (free_frames a) - 1)"
proof -
  obtain res b where r: "BitmapFrameAllocator_allocate_frame a = Some (res, b)" "allocator_inv b"
    and c: "case res of None \<Rightarrow> free_set a = {} \<and> b = a
      | Some f \<Rightarrow> \<exists>i\<in>free_set a. f = frame_from_index (of_nat i) \<and> free_set b = free_set a - {i}"
    using allocate_frame_spec [OF assms(1)] by blast
  show ?thesis
  proof (cases res)
    case None
    then show ?thesis using r c inv_free [OF assms(1)] by (simp add: unsigned_eq_0_iff)
  next
    case (Some f)
    then obtain i where i: "i \<in> free_set a" "f = frame_from_index (of_nat i)" "free_set b = free_set a - {i}"
      using c by auto
    have "i < 2 ^ 40" using free_set_less [OF i(1)] inv_len [OF assms(1)] assms(2) by simp
    then have n: "unat (PhysFrame_number f) = i" using frame_number_from_index i(2) by simp
    have "PhysFrame_number f = of_nat i" using n [symmetric] by simp
    then show ?thesis
      using r Some i n free_set_releasable [OF assms(1) i(1)] inv_free [OF assms(1)] inv_free [OF r(2)]
      by simp
  qed
qed

text \<open>A four-frame allocator: frame 1 holds the bitmap, frames 2 and 3 are free.\<close>

definition sample_allocator :: BitmapFrameAllocator where
  "sample_allocator =
     \<lparr>bitmap = \<lparr>Bitmap_words = [3], Bitmap_len = 4\<rparr>, total_frames = 4, capacity_frames = 2,
      free_frames = 2, next_frame = 2, usable = [FrameSpan_new 1 4], bootloader = [],
      released_bootloader = [], bootloader_reclaimed = False,
      bitmap_storage = FrameSpan_new 1 2, heap_storage = FrameSpan_EMPTY\<rparr>"

lemma less_4_cases: "(i::nat) < 4 \<longleftrightarrow> i = 0 \<or> i = 1 \<or> i = 2 \<or> i = 3"
  by linarith

lemma sample_bits: "Bitmap_bits (bitmap sample_allocator) = {0, 1}"
  by (auto simp: Bitmap_bits_def sample_allocator_def less_4_cases)

lemma sample_free_set: "free_set sample_allocator = {2, 3}"
  by (auto simp: free_set_def sample_bits) (auto simp: sample_allocator_def)

lemma sample_releasable: "releasable_set sample_allocator = {2, 3}"
  by (auto simp: releasable_set_def BitmapFrameAllocator_is_releasable_def sample_allocator_def
      FrameSpan_contains_def FrameSpan_new_def FrameSpan_EMPTY_def less_4_cases)

lemma sample_inv: "allocator_inv sample_allocator"
  unfolding allocator_inv_def sample_free_set sample_releasable
  by (simp add: sample_allocator_def Bitmap_wf_def FrameSpan_new_def)

theorem allocate_frame_exact_witness:
  "allocator_inv sample_allocator \<and>
   (\<exists>f b. BitmapFrameAllocator_allocate_frame sample_allocator = Some (Some f, b) \<and>
     unat (PhysFrame_number f) \<in> {2, 3} \<and> free_set b = {2, 3} - {unat (PhysFrame_number f)})"
proof -
  have n: "unat (total_frames sample_allocator) \<le> 2 ^ 40" "free_frames sample_allocator \<noteq> 0"
    by (simp_all add: sample_allocator_def)
  show ?thesis
    using allocate_frame_exact [OF sample_inv n(1)] n(2) sample_inv
    by (auto simp: sample_free_set split: option.splits)
qed

lemma allocate_frame_below_spec:
  assumes inv: "allocator_inv a"
  shows "\<exists>res b. BitmapFrameAllocator_allocate_frame_below a lim = Some (res, b) \<and> allocator_inv b \<and>
    same_layout a b \<and>
    (case res of
       None \<Rightarrow> b = a \<and> free_set a \<inter> {..<unat (PhysAddr_as_u64 lim) div 4096} = {}
     | Some f \<Rightarrow> \<exists>i\<in>free_set a. f = frame_from_index (of_nat i) \<and> i < unat (PhysAddr_as_u64 lim) div 4096 \<and>
         (\<forall>j\<in>free_set a. i \<le> j) \<and> free_set b = free_set a - {i})"
proof -
  define m where "m = unat (PhysAddr_as_u64 lim) div 4096"
  define e where "e = unat (min (PhysAddr_as_u64 lim div FRAME_SIZE) (total_frames a))"
  have e: "e = min m (Bitmap_len (bitmap a))"
    using inv_len [OF inv]
    by (simp add: e_def m_def min_def word_le_nat_alt FRAME_SIZE_def PhysFrame_SIZE_def unat_div)
  have pos: "1 \<le> j" if "j \<in> free_set a" for j
    using that zero_not_free [OF inv] by (metis less_one not_less)
  have run: "BitmapFrameAllocator_allocate_frame_below a lim =
      (case List.find (is_free (bitmap a)) [1..<e] of None \<Rightarrow> Some (None, a)
      | Some index \<Rightarrow> do { bm \<leftarrow> Bitmap_set (bitmap a) index;
          Some (Some (frame_from_index (of_nat index)),
                a\<lparr>bitmap := bm, free_frames := free_frames a - 1,
                  next_frame := next_search_index index (Bitmap_len bm)\<rparr>) })"
    by (simp add: BitmapFrameAllocator_allocate_frame_below_def Let_def e_def [symmetric]
        Bitmap_find_zero_in_eq [OF inv_wf [OF inv]]) (simp add: e min_def)
  show ?thesis
  proof (cases "List.find (is_free (bitmap a)) [1..<e]")
    case None
    then have "free_set a \<inter> {1..<e} = {}" using find_free_None [of a 1 e] e by simp
    then have "free_set a \<inter> {..<m} = {}" using pos free_set_less e by (fastforce simp: disjoint_iff)
    then show ?thesis using run None inv by (simp add: m_def)
  next
    case (Some i)
    then have i: "i \<in> free_set a" "i < e" "free_set a \<inter> {1..<i} = {}"
      using find_free_Some [of a 1 e i] e by auto
    then have least: "\<forall>j\<in>free_set a. i \<le> j" using pos by (fastforce simp: disjoint_iff not_le)
    have "i < m" using i(2) e by simp
    show ?thesis
      by (rule claim_index [OF inv i(1)]) (use run Some i(1) least \<open>i < m\<close> in \<open>auto simp: m_def\<close>)
  qed
qed

lemma allocate_range_spec:
  assumes inv: "allocator_inv a"
  shows "\<exists>res b. BitmapFrameAllocator_allocate_range a count = Some (res, b) \<and> allocator_inv b \<and>
    same_layout a b \<and>
    (case res of
       None \<Rightarrow> b = a \<and> (count = 0 \<or> \<not> (\<exists>s. {s..<s + unat count} \<subseteq> free_set a))
     | Some f \<Rightarrow> \<exists>s. f = frame_from_index (of_nat s) \<and> {s..<s + unat count} \<subseteq> free_set a \<and> count \<noteq> 0 \<and>
         free_set b = free_set a - {s..<s + unat count})"
proof -
  let ?n = "unat count"
  have fr: "free_run (bitmap a) s ?n \<longleftrightarrow> {s..<s + ?n} \<subseteq> free_set a" if "0 < ?n" for s
  proof
    assume "{s..<s + ?n} \<subseteq> free_set a"
    moreover from this that have "s + ?n - 1 < Bitmap_len (bitmap a)"
      by (intro free_set_less) (auto simp: subset_iff)
    ultimately show "free_run (bitmap a) s ?n" by (auto simp: free_run_def free_set_def)
  qed (auto simp: free_run_def free_set_def)
  consider "count = 0" | "count = 1" | "count \<noteq> 0" "count \<noteq> 1" "count > free_frames a"
    | "count \<noteq> 0" "count \<noteq> 1" "count \<le> free_frames a" by force
  then show ?thesis
  proof cases
    case 1
    then show ?thesis using inv by (simp add: BitmapFrameAllocator_allocate_range_def)
  next
    case 2
    have "{s..<s + 1} = {s}" for s :: nat by auto
    then show ?thesis
      using 2 allocate_frame_spec [OF inv] inv
      by (fastforce simp: BitmapFrameAllocator_allocate_range_def split: option.splits)
  next
    case 3
    have "\<not> {s..<s + ?n} \<subseteq> free_set a" for s
      using 3(3) inv_free [OF inv] card_mono [OF finite_free_set, of "{s..<s + ?n}" a]
      by (auto simp: word_less_nat_alt)
    then show ?thesis using 3 inv by (simp add: BitmapFrameAllocator_allocate_range_def)
  next
    case 4
    then have n: "0 < ?n" by (simp add: unsigned_eq_0_iff neq0_conv [symmetric] del: neq0_conv)
    obtain res bm where r: "Bitmap_allocate_range (bitmap a) ?n = Some (res, bm)"
      and c: "case res of None \<Rightarrow> bm = bitmap a \<and> (\<forall>t. \<not> free_run (bitmap a) t ?n)
        | Some s \<Rightarrow> free_run (bitmap a) s ?n \<and> (\<forall>t. t < s \<longrightarrow> \<not> free_run (bitmap a) t ?n) \<and>
            run_allocated (bitmap a) s ?n bm"
      using Bitmap_allocate_range_spec [OF inv_wf [OF inv] n] by blast
    show ?thesis
    proof (cases res)
      case None
      then show ?thesis
        using r c 4 inv fr [OF n] by (simp add: BitmapFrameAllocator_allocate_range_def not_less)
    next
      case (Some s)
      then have s: "{s..<s + ?n} \<subseteq> free_set a" "run_allocated (bitmap a) s ?n bm" using c fr [OF n] by auto
      then show ?thesis
        using r Some 4 take_frames_inv [OF inv, of bm "{s..<s + ?n}" "free_frames a - count"]
        by (auto simp: BitmapFrameAllocator_allocate_range_def run_allocated_def not_less Let_def)
    qed
  qed
qed

text \<open>
  \<open>allocate_range\<close> hands out \<open>count\<close> consecutive frames that were all free, or fails and leaves
  the allocator unchanged; it fails only for a count of zero or when no such run of free frames
  exists, even though it first compares the count with the free counter.
\<close>

theorem allocate_range_exact:
  assumes "allocator_inv a" "unat (total_frames a) \<le> 2 ^ 40"
  shows "\<exists>res b. BitmapFrameAllocator_allocate_range a count = Some (res, b) \<and> allocator_inv b \<and>
    (case res of
       None \<Rightarrow> b = a \<and> (count = 0 \<or> (\<nexists>s. {s..<s + unat count} \<subseteq> free_set a))
     | Some f \<Rightarrow> let s = unat (PhysFrame_number f) in
         {s..<s + unat count} \<subseteq> free_set a \<and> free_set b = free_set a - {s..<s + unat count})"
proof -
  obtain res b where r: "BitmapFrameAllocator_allocate_range a count = Some (res, b)" "allocator_inv b"
    and c: "case res of None \<Rightarrow> b = a \<and> (count = 0 \<or> (\<nexists>s. {s..<s + unat count} \<subseteq> free_set a))
      | Some f \<Rightarrow> \<exists>s. f = frame_from_index (of_nat s) \<and> {s..<s + unat count} \<subseteq> free_set a \<and> count \<noteq> 0 \<and>
         free_set b = free_set a - {s..<s + unat count}"
    using allocate_range_spec [OF assms(1), of count] by blast
  show ?thesis
  proof (cases res)
    case (Some f)
    then obtain s where s: "f = frame_from_index (of_nat s)" "{s..<s + unat count} \<subseteq> free_set a" "count \<noteq> 0"
        "free_set b = free_set a - {s..<s + unat count}" using c by auto
    have "s \<in> free_set a"
      using s(2,3) by (auto simp: subset_iff unsigned_eq_0_iff neq0_conv [symmetric] simp del: neq0_conv)
    then have "s < 2 ^ 40" using free_set_less inv_len [OF assms(1)] assms(2) by fastforce
    then have "unat (PhysFrame_number f) = s" using frame_number_from_index s(1) by simp
    then show ?thesis using r Some s by simp
  qed (use r c in simp)
qed

theorem allocate_range_exact_witness:
  "\<exists>f b. BitmapFrameAllocator_allocate_range sample_allocator 2 = Some (Some f, b) \<and>
     PhysFrame_number f = 2 \<and> free_set b = {}"
proof -
  have n: "unat (total_frames sample_allocator) \<le> 2 ^ 40" by (simp add: sample_allocator_def)
  have run: "{2..<2 + unat (2::u64)} \<subseteq> free_set sample_allocator"
    by (auto simp: sample_free_set)
  have ex: "\<exists>s. {s..<s + unat (2::u64)} \<subseteq> free_set sample_allocator" using run by blast
  obtain f b where f: "BitmapFrameAllocator_allocate_range sample_allocator 2 = Some (Some f, b)"
      "{unat (PhysFrame_number f)..<unat (PhysFrame_number f) + 2} \<subseteq> {2, 3}"
      "free_set b = {2, 3} - {unat (PhysFrame_number f)..<unat (PhysFrame_number f) + 2}"
    using allocate_range_exact [OF sample_inv n, of 2] ex
    by (auto simp: sample_free_set Let_def split: option.splits)
  define n where "n = unat (PhysFrame_number f)"
  have "n \<in> {n..<n + 2}" "n + 1 \<in> {n..<n + 2}" by auto
  then have "n \<in> {2, 3}" "n + 1 \<in> {2, 3}" using f(2) unfolding n_def by blast+
  then have "unat (PhysFrame_number f) = 2" by (auto simp: n_def)
  then have "PhysFrame_number f = 2" by (simp add: word_unat_eq_iff)
  then show ?thesis using f by auto
qed

text \<open>
  \<open>allocate_frame_below\<close> hands out the lowest free frame, provided it lies below the limit;
  otherwise no frame below the limit is free and nothing changes.
\<close>

theorem allocate_frame_below_lowest:
  assumes "allocator_inv a" "unat (total_frames a) \<le> 2 ^ 40"
  shows "\<exists>res b. BitmapFrameAllocator_allocate_frame_below a lim = Some (res, b) \<and> allocator_inv b \<and>
    (case res of
       None \<Rightarrow> b = a \<and> (\<forall>i\<in>free_set a. unat (PhysAddr_as_u64 lim) \<le> i * 4096 + 4095)
     | Some f \<Rightarrow> unat (PhysFrame_number f) = Min (free_set a) \<and>
         unat (PhysFrame_number f) * 4096 + 4096 \<le> unat (PhysAddr_as_u64 lim) \<and>
         free_set b = free_set a - {Min (free_set a)})"
proof -
  obtain res b where r: "BitmapFrameAllocator_allocate_frame_below a lim = Some (res, b)" "allocator_inv b"
    and c: "case res of
       None \<Rightarrow> b = a \<and> free_set a \<inter> {..<unat (PhysAddr_as_u64 lim) div 4096} = {}
     | Some f \<Rightarrow> \<exists>i\<in>free_set a. f = frame_from_index (of_nat i) \<and> i < unat (PhysAddr_as_u64 lim) div 4096 \<and>
         (\<forall>j\<in>free_set a. i \<le> j) \<and> free_set b = free_set a - {i}"
    using allocate_frame_below_spec [OF assms(1), of lim] by blast
  show ?thesis
  proof (cases res)
    case None
    have "unat (PhysAddr_as_u64 lim) \<le> i * 4096 + 4095" if "i \<in> free_set a" for i
    proof -
      have "unat (PhysAddr_as_u64 lim) div 4096 \<le> i" using c None that by (auto simp: disjoint_iff)
      then show ?thesis by linarith
    qed
    then show ?thesis using r c None by simp
  next
    case (Some f)
    then obtain i where i: "i \<in> free_set a" "f = frame_from_index (of_nat i)"
        "i < unat (PhysAddr_as_u64 lim) div 4096" "\<forall>j\<in>free_set a. i \<le> j" "free_set b = free_set a - {i}"
      using c by auto
    have "i < 2 ^ 40" using free_set_less [OF i(1)] inv_len [OF assms(1)] assms(2) by simp
    then have n: "unat (PhysFrame_number f) = i" using frame_number_from_index i(2) by simp
    have m: "Min (free_set a) = i" using i by (intro Min_eqI) auto
    have "i * 4096 + 4096 \<le> unat (PhysAddr_as_u64 lim)" using i(3) by linarith
    then show ?thesis using r Some i n m by simp
  qed
qed

theorem allocate_frame_below_lowest_witness:
  "\<exists>f b. BitmapFrameAllocator_allocate_frame_below sample_allocator (PhysAddr 0x3000) = Some (Some f, b) \<and>
     unat (PhysFrame_number f) = 2"
proof -
  have n: "unat (total_frames sample_allocator) \<le> 2 ^ 40" by (simp add: sample_allocator_def)
  have m: "Min {2, 3 :: nat} = 2" by simp
  show ?thesis
    using allocate_frame_below_lowest [OF sample_inv n, of "PhysAddr 0x3000"]
    by (auto simp: sample_free_set m simp del: Min_insert split: option.splits)
qed

subsection \<open>Release is exact\<close>

lemma for_first_find_map:
  assumes "\<And>i. i \<in> set is \<Longrightarrow> f i = Some (g i)"
  shows "for_first f is = Some (find_map g is)"
  using assms by (induction "is") (auto split: option.split)

lemma find_map_eq_None: "find_map g is = None \<longleftrightarrow> (\<forall>i\<in>set is. g i = None)"
  by (induction "is") (auto split: option.split)

lemma find_map_eq_SomeD: "find_map g is = Some y \<Longrightarrow> \<exists>i\<in>set is. g i = Some y"
  by (induction "is") (auto split: option.splits)

text \<open>The refusal \<open>deallocate_range\<close> reports for one frame of the range.\<close>

definition release_refusal :: "BitmapFrameAllocator \<Rightarrow> nat \<Rightarrow> DeallocateError option" where
  "release_refusal a i =
     (if \<not> BitmapFrameAllocator_is_releasable a (of_nat i) then Some ReservedFrame
      else if i \<in> free_set a then Some DoubleFree else None)"

lemma deallocate_range_spec:
  assumes inv: "allocator_inv a" and c: "count \<noteq> 0"
    and s: "s = unat (PhysFrame_number f)" and n: "s + unat count \<le> unat (total_frames a)"
  shows "case find_map (release_refusal a) [s..<s + unat count] of
      Some err \<Rightarrow> BitmapFrameAllocator_deallocate_range a f count = Some (Inl err, a)
    | None \<Rightarrow> \<exists>b. BitmapFrameAllocator_deallocate_range a f count = Some (Inr (), b) \<and> allocator_inv b \<and>
        same_layout a b \<and> free_set b = free_set a \<union> {s..<s + unat count}"
proof -
  let ?T = "{s..<s + unat count}"
  have "s + unat count < 2 ^ 64" using n unat_less_exp [of "total_frames a"] by simp
  then obtain e where e: "checked_add (PhysFrame_number f) count = Some e"
    using s by (auto simp: checked_add_def)
  then have ue: "unat e = s + unat count" using s unat_checked_add [OF e] by simp
  have loop: "for_first (\<lambda>idx.
      if \<not> BitmapFrameAllocator_is_releasable a (of_nat idx) then Some (Some ReservedFrame)
      else do { b \<leftarrow> Bitmap_get (bitmap a) idx; Some (if \<not> b then Some DoubleFree else None) }) [s..<s + unat count]
      = Some (find_map (release_refusal a) [s..<s + unat count])"
    by (rule for_first_find_map)
      (use n inv_len [OF inv] Bitmap_get_eq [OF inv_wf [OF inv]] in \<open>auto simp: release_refusal_def free_set_def\<close>)
  have run: "BitmapFrameAllocator_deallocate_range a f count =
      (case find_map (release_refusal a) [s..<s + unat count] of Some err \<Rightarrow> Some (Inl err, a)
       | None \<Rightarrow> do { bm \<leftarrow> Bitmap_free_range (bitmap a) s (unat count);
                     free' \<leftarrow> checked_add (free_frames a) count;
                     Some (Inr (), a\<lparr>bitmap := bm, free_frames := free'\<rparr>) })"
    using c n e ue loop s
    by (simp add: BitmapFrameAllocator_deallocate_range_def word_less_nat_alt not_less Let_def
        split: option.split)
  show ?thesis
  proof (cases "find_map (release_refusal a) [s..<s + unat count]")
    case None
    then have ok: "BitmapFrameAllocator_is_releasable a (of_nat i) \<and> i \<notin> free_set a" if "i \<in> ?T" for i
      using that by (auto simp: find_map_eq_None release_refusal_def split: if_splits)
    have T: "?T \<subseteq> releasable_set a" "?T \<inter> free_set a = {}"
      using ok n inv_len [OF inv] by (auto simp: releasable_set_def)
    obtain bm where bm: "Bitmap_free_range (bitmap a) s (unat count) = Some bm" "Bitmap_wf bm"
        "Bitmap_len bm = Bitmap_len (bitmap a)" "Bitmap_bits bm = Bitmap_bits (bitmap a) - ?T"
      using Bitmap_free_range_spec [OF inv_wf [OF inv], of s "unat count"] n inv_len [OF inv] by auto
    have "card (free_set a \<union> ?T) \<le> card {..<unat (total_frames a)}"
      using T inv_len [OF inv] by (intro card_mono) (auto simp: free_set_def releasable_set_def)
    moreover have "card (free_set a \<union> ?T) = card (free_set a) + unat count"
      using T by (subst card_Un_disjoint) auto
    ultimately have "unat (free_frames a) + unat count < 2 ^ 64"
      using inv_free [OF inv] inv by (simp add: allocator_inv_def)
    then obtain g where g: "checked_add (free_frames a) count = Some g"
      by (auto simp: checked_add_def)
    have ug: "unat g = unat (free_frames a) + card ?T" using unat_checked_add [OF g] by simp
    have "a\<lparr>bitmap := bm, free_frames := g\<rparr> = a\<lparr>bitmap := bm, free_frames := g, next_frame := next_frame a\<rparr>"
      by simp
    then show ?thesis
      using run None bm(1) g give_frames_inv [OF inv bm(2-4) T ug, of "next_frame a"] by auto
  qed (use run in simp)
qed



end
