(* ===== verification/Frame_Lifecycle.thy ===== *)
theory Frame_Lifecycle
  imports Frame_Allocator
begin

text \<open>
  The life of the frame allocator's state: construction from the boot memory map establishes the
  invariant, and reclaiming the bootloader's memory keeps it and releases only unprotected frames.
\<close>

subsection \<open>Spans as sets of frames\<close>

definition span_set :: "FrameSpan \<Rightarrow> nat set" where
  "span_set s = {unat (FrameSpan_start s)..<unat (FrameSpan_end s)}"

lemma finite_span_set [simp]: "finite (span_set s)"
  by (simp add: span_set_def)

lemma set_span_indices: "set (span_indices s) = span_set s"
  by (simp add: span_set_def)

lemma unat_FrameSpan_len: "unat (FrameSpan_len s) = card (span_set s)"
  by (simp add: FrameSpan_len_def span_set_def)

lemma contains_span_set: "i < 2 ^ 64 \<Longrightarrow> FrameSpan_contains s (of_nat i) \<longleftrightarrow> i \<in> span_set s"
  by (simp add: FrameSpan_contains_def span_set_def word_le_nat_alt word_less_nat_alt unsigned_of_nat
      take_bit_nat_eq_self)

lemma not_overlaps_disjoint: "\<not> FrameSpan_overlaps s t \<Longrightarrow> span_set s \<inter> span_set t = {}"
  by (auto simp: FrameSpan_overlaps_def span_set_def word_less_nat_alt)

lemma inv_index_bound: "allocator_inv a \<Longrightarrow> i < Bitmap_len (bitmap a) \<Longrightarrow> i < 2 ^ 64"
  using unat_less_exp [of "total_frames a"] by (simp add: allocator_inv_def)

lemma releasable_span_iff:
  assumes "i < 2 ^ 64"
  shows "BitmapFrameAllocator_is_releasable a (of_nat i) \<longleftrightarrow>
    i \<noteq> 0 \<and> i \<notin> span_set (bitmap_storage a) \<and> i \<notin> span_set (heap_storage a) \<and>
    (\<exists>s\<in>set (usable a) \<union> set (released_bootloader a). i \<in> span_set s)"
proof -
  have "(of_nat i :: u64) = 0 \<longleftrightarrow> i = 0"
    using assms by (simp add: word_unat_eq_iff unsigned_of_nat take_bit_nat_eq_self)
  then show ?thesis
    using assms by (auto simp: BitmapFrameAllocator_is_releasable_def contains_span_set)
qed

lemma mark_span_spec:
  assumes "Bitmap_wf b" "span_set s \<subseteq> {..<Bitmap_len b}"
  shows "\<exists>b'. mark_span b s v = Some b' \<and> Bitmap_wf b' \<and> Bitmap_len b' = Bitmap_len b \<and>
    Bitmap_bits b' = (if v then Bitmap_bits b \<union> span_set s else Bitmap_bits b - span_set s)"
proof -
  have eta: "(\<lambda>b idx. Bitmap_assign b idx True) = Bitmap_set" "(\<lambda>b idx. Bitmap_assign b idx False) = Bitmap_clear"
    by (simp_all add: Bitmap_assign_def fun_eq_iff)
  have "\<forall>i\<in>set (span_indices s). i < Bitmap_len b" using assms(2) unfolding set_span_indices by auto
  from bm.set_each [OF assms(1) this] bm.clear_each [OF assms(1) this] show ?thesis
    by (cases v) (simp_all only: mark_span_def eta set_span_indices if_True if_False)
qed

lemma any_clear_eq:
  assumes "Bitmap_wf b" "span_set s \<subseteq> {..<Bitmap_len b}"
  shows "any_clear b s = Some (\<not> span_set s \<subseteq> Bitmap_bits b)"
proof -
  have "for_first (\<lambda>frame. do { v \<leftarrow> Bitmap_get b frame; Some (if \<not> v then Some frame else None) }) (span_indices s)
      = Some (find_map (\<lambda>i. if i \<notin> Bitmap_bits b then Some i else None) (span_indices s))"
    by (rule for_first_find_map) (use assms in \<open>auto simp: Bitmap_get_eq span_set_def subset_iff\<close>)
  moreover have "find_map (\<lambda>i. if i \<notin> Bitmap_bits b then Some i else None) (span_indices s) = None \<longleftrightarrow>
      span_set s \<subseteq> Bitmap_bits b"
    unfolding find_map_eq_None set_span_indices by auto
  ultimately show ?thesis by (simp add: any_clear_def del: not_None_eq)
qed

subsection \<open>Reclaiming\<close>

text \<open>The state between two spans of the loop, relative to the allocator it started from.\<close>

definition reclaiming ::
    "BitmapFrameAllocator \<Rightarrow> ProtectedFrameRange list \<Rightarrow> ReclaimReport \<times> BitmapFrameAllocator \<Rightarrow> bool" where
  "reclaiming a0 P st \<longleftrightarrow> (case st of (rep, a) \<Rightarrow>
     allocator_inv a \<and> bootloader_reclaimed a \<and> total_frames a = total_frames a0 \<and>
     bootloader a = bootloader a0 \<and> usable a = usable a0 \<and>
     bitmap_storage a = bitmap_storage a0 \<and> heap_storage a = heap_storage a0 \<and>
     free_set a0 \<subseteq> free_set a \<and> \<not> already_reclaimed rep \<and>
     unat (released_frames rep) = card (free_set a - free_set a0) \<and>
     (\<forall>i\<in>free_set a - free_set a0. (\<exists>s\<in>set (bootloader a0). i \<in> span_set s) \<and>
        (\<forall>p\<in>set P. i \<notin> span_set (protected_span p))))"

lemma release_span_inv:
  assumes inv: "allocator_inv a" and re: "bootloader_reclaimed a"
    and s: "span_set s \<subseteq> {..<Bitmap_len (bitmap a)}" "0 \<notin> span_set s" "FrameSpan_end s \<le> total_frames a"
    and alloc: "span_set s \<inter> free_set a = {}"
    and disj: "span_set s \<inter> span_set (bitmap_storage a) = {}" "span_set s \<inter> span_set (heap_storage a) = {}"
    and bm: "Bitmap_wf bm" "Bitmap_len bm = Bitmap_len (bitmap a)" "Bitmap_bits bm = Bitmap_bits (bitmap a) - span_set s"
    and c: "unat c = unat (capacity_frames a) + card (span_set s)"
    and f: "unat f = unat (free_frames a) + card (span_set s)"
    and b: "b = a\<lparr>bitmap := bm, released_bootloader := released_bootloader a @ [s], capacity_frames := c,
                  free_frames := f, next_frame := n\<rparr>"
  shows "allocator_inv b \<and> free_set b = free_set a \<union> span_set s"
proof -
  have fs: "free_set b = free_set a \<union> span_set s"
    using bm s(1) by (auto simp: b free_set_def)
  have rs: "releasable_set b = releasable_set a \<union> span_set s"
  proof (intro set_eqI)
    fix i
    show "i \<in> releasable_set b \<longleftrightarrow> i \<in> releasable_set a \<union> span_set s"
    proof (cases "i < Bitmap_len (bitmap a)")
      case True
      note lt = inv_index_bound [OF inv True]
      show ?thesis
        using True bm(2) disj s(2) releasable_span_iff [OF lt, of a] releasable_span_iff [OF lt, of b]
        by (auto simp: releasable_set_def b)
    qed (use bm(2) s(1) in \<open>auto simp: releasable_set_def b\<close>)
  qed
  have "card (releasable_set b) \<le> card (releasable_set a) + card (span_set s)"
    unfolding rs by (rule card_Un_le)
  moreover have "card (span_set s) \<le> 2 ^ 52"
    using card_mono [OF _ s(1)] inv by (simp add: allocator_inv_def)
  moreover have "card (free_set b) = card (free_set a) + card (span_set s)"
    unfolding fs using alloc by (subst card_Un_disjoint) auto
  ultimately show ?thesis
    using inv re bm c f s(3) fs rs by (auto simp: allocator_inv_def b)
qed

lemma reclaim_span_step:
  assumes r: "reclaiming a0 P (rep, a)" and o: "original \<in> set (bootloader a0)"
    and room: "length (released_bootloader a) < 128"
  shows "\<exists>rep' b. reclaim_span P (rep, a) original = Some (rep', b) \<and> reclaiming a0 P (rep', b) \<and>
    length (released_bootloader b) \<le> Suc (length (released_bootloader a))"
proof -
  define s where "s = FrameSpan_new (max (FrameSpan_start original) 1) (FrameSpan_end original)"
  have inv: "allocator_inv a" and re: "bootloader_reclaimed a" using r by (auto simp: reclaiming_def)
  have e: "FrameSpan_end s \<le> total_frames a"
    using inv r o by (auto simp: allocator_inv_def reclaiming_def s_def FrameSpan_new_def)
  have sub: "span_set s \<subseteq> span_set original" "0 \<notin> span_set s"
    by (auto simp: s_def span_set_def FrameSpan_new_def max_def word_le_nat_alt split: if_splits)
  have rng: "span_set s \<subseteq> {..<Bitmap_len (bitmap a)}"
    using e inv_len [OF inv] by (auto simp: span_set_def word_le_nat_alt)
  let ?prot = "(\<exists>range\<in>set P. FrameSpan_overlaps s (protected_span range)) \<or>
    FrameSpan_overlaps s (bitmap_storage a) \<or> FrameSpan_overlaps s (heap_storage a)"
  note ac = any_clear_eq [OF inv_wf [OF inv] rng]
  show ?thesis
  proof (cases "FrameSpan_start s \<ge> FrameSpan_end s \<or> ?prot \<or> \<not> span_set s \<subseteq> Bitmap_bits (bitmap a)")
    case True
    then have "\<exists>rep'. reclaim_span P (rep, a) original = Some (rep', a) \<and>
        released_frames rep' = released_frames rep \<and> already_reclaimed rep' = already_reclaimed rep"
      by (auto simp: reclaim_span_def s_def [symmetric] ac Let_def)
    then show ?thesis using r by (auto simp: reclaiming_def)
  next
    case False
    obtain bm where bm: "mark_span (bitmap a) s False = Some bm" "Bitmap_wf bm"
        "Bitmap_len bm = Bitmap_len (bitmap a)" "Bitmap_bits bm = Bitmap_bits (bitmap a) - span_set s"
      using mark_span_spec [OF inv_wf [OF inv] rng, of False] by auto
    have alloc: "span_set s \<inter> free_set a = {}" using False by (auto simp: free_set_def)
    have c52: "card (span_set s) \<le> 2 ^ 52" "card (free_set a \<union> span_set s) \<le> 2 ^ 52"
      using card_mono [OF _ rng] card_mono [of "{..<Bitmap_len (bitmap a)}" "free_set a \<union> span_set s"] rng inv
      by (auto simp: allocator_inv_def free_set_def)
    have cu: "card (free_set a \<union> span_set s) = unat (free_frames a) + card (span_set s)"
      using alloc inv_free [OF inv] by (subst card_Un_disjoint) auto
    have "unat (capacity_frames a) \<le> (1 + length (released_bootloader a)) * 2 ^ 52"
      using inv by (simp add: allocator_inv_def)
    also have "\<dots> \<le> 128 * 2 ^ 52" using room by (intro mult_right_mono) auto
    finally have "unat (capacity_frames a) + card (span_set s) < 2 ^ 64" using c52 by simp
    then obtain c where c: "checked_add (capacity_frames a) (FrameSpan_len s) = Some c"
        "unat c = unat (capacity_frames a) + card (span_set s)"
      using checked_add_fits [of "capacity_frames a" "FrameSpan_len s"] by (auto simp: unat_FrameSpan_len)
    obtain f where f: "checked_add (free_frames a) (FrameSpan_len s) = Some f"
        "unat f = unat (free_frames a) + card (span_set s)"
      using checked_add_fits [of "free_frames a" "FrameSpan_len s"] cu c52 by (auto simp: unat_FrameSpan_len)
    define b where "b = a\<lparr>bitmap := bm, released_bootloader := released_bootloader a @ [s],
      capacity_frames := c, free_frames := f, next_frame := min (next_frame a) (unat (FrameSpan_start s))\<rparr>"
    define rep' where "rep' = rep\<lparr>released_frames := saturating_add (released_frames rep) (FrameSpan_len s)\<rparr>"
    have run: "reclaim_span P (rep, a) original = Some (rep', b)"
      using False bm(1) room c(1) f(1)
      by (simp add: reclaim_span_def s_def [symmetric] ac Let_def MAX_RECLAIMABLE_SPANS_def b_def rep'_def)
    have ib: "allocator_inv b" "free_set b = free_set a \<union> span_set s"
      using release_span_inv [OF inv re rng sub(2) e alloc _ _ bm(2-4) c(2) f(2) b_def] False
        not_overlaps_disjoint [of s] by auto
    have diff: "free_set b - free_set a0 = (free_set a - free_set a0) \<union> span_set s"
      using ib r alloc by (auto simp: reclaiming_def)
    have "card (free_set b - free_set a0) = card (free_set a - free_set a0) + card (span_set s)"
      unfolding diff using alloc by (subst card_Un_disjoint) auto
    moreover have "card (free_set b - free_set a0) \<le> 2 ^ 52"
      using ib(2) c52(2) card_mono [of "free_set b" "free_set b - free_set a0"] by simp
    ultimately have rel: "unat (released_frames rep') = card (free_set b - free_set a0)"
      using r by (simp add: rep'_def reclaiming_def unat_saturating_add unat_FrameSpan_len)
    have prot: "i \<notin> span_set (protected_span p)" if "i \<in> span_set s" "p \<in> set P" for i p
      using that False not_overlaps_disjoint [of s "protected_span p"] by auto
    have "reclaiming a0 P (rep', b)"
      using r ib rel diff sub o prot
      by (auto simp: reclaiming_def b_def rep'_def)
    then show ?thesis using run by (simp add: b_def)
  qed
qed

lemma reclaim_loop:
  assumes "reclaiming a0 P (rep, a)" "set spans \<subseteq> set (bootloader a0)"
    "length (released_bootloader a) + length spans \<le> 128"
  shows "\<exists>rep' b. for_each (reclaim_span P) (rep, a) spans = Some (rep', b) \<and> reclaiming a0 P (rep', b)"
  using assms
proof (induction spans arbitrary: rep a)
  case (Cons s spans)
  obtain rep' b where b: "reclaim_span P (rep, a) s = Some (rep', b)" "reclaiming a0 P (rep', b)"
      "length (released_bootloader b) \<le> Suc (length (released_bootloader a))"
    using reclaim_span_step [OF Cons.prems(1), of s] Cons.prems(2,3) by auto
  then show ?case using Cons.IH [OF b(2)] Cons.prems(2,3) by simp
qed simp

text \<open>
  C23. Reclaiming the bootloader's memory never panics and keeps the allocator consistent. No free
  frame is lost; every frame it makes available comes from a bootloader span, was marked
  allocated, is not frame 0, and lies in no protected range, not in the bitmap's storage and not
  in the heap; the free counter grows by exactly the number of frames the report calls released.
  A second call changes nothing and says so.
\<close>

theorem reclaim_bootloader_safe:
  assumes "allocator_inv a"
  shows "\<exists>rep b. BitmapFrameAllocator_reclaim_bootloader a P = Some (rep, b) \<and> allocator_inv b \<and>
    bootloader_reclaimed b \<and> free_set a \<subseteq> free_set b \<and>
    unat (free_frames b) = unat (free_frames a) + unat (released_frames rep) \<and>
    (\<forall>i\<in>free_set b - free_set a.
       i \<in> Bitmap_bits (bitmap a) \<and> i \<noteq> 0 \<and> (\<exists>s\<in>set (bootloader a). i \<in> span_set s) \<and>
       (\<forall>p\<in>set P. i \<notin> span_set (protected_span p)) \<and>
       i \<notin> span_set (bitmap_storage a) \<and> i \<notin> span_set (heap_storage a)) \<and>
    (bootloader_reclaimed a \<longrightarrow> b = a \<and> already_reclaimed rep)"
proof (cases "bootloader_reclaimed a")
  case True
  then show ?thesis using assms by (simp add: BitmapFrameAllocator_reclaim_bootloader_def)
next
  case False
  define a1 where "a1 = a\<lparr>bootloader_reclaimed := True\<rparr>"
  define rep0 where "rep0 = \<lparr>released_frames = 0, skipped_frames = 0, already_reclaimed = False\<rparr>"
  have fs: "free_set a1 = free_set a" "releasable_set a1 = releasable_set a"
    by (simp_all add: a1_def free_set_def releasable_set_def BitmapFrameAllocator_is_releasable_def)
  have "reclaiming a P (rep0, a1)"
    using assms fs by (simp add: reclaiming_def allocator_inv_def) (simp add: a1_def rep0_def)
  moreover have "length (released_bootloader a1) + length (bootloader a1) \<le> 128"
    using assms False by (simp add: allocator_inv_def a1_def)
  ultimately obtain rep b where b: "for_each (reclaim_span P) (rep0, a1) (bootloader a1) = Some (rep, b)"
      "reclaiming a P (rep, b)"
    using reclaim_loop [of a P rep0 a1 "bootloader a1"] by (auto simp: a1_def)
  have inv: "allocator_inv b" "free_set a \<subseteq> free_set b" using b(2) by (auto simp: reclaiming_def)
  have "card (free_set b) = card (free_set a) + card (free_set b - free_set a)"
    using inv(2) by (subst card_Un_disjoint [symmetric]) (auto intro: arg_cong [of _ _ card])
  then have cnt: "unat (free_frames b) = unat (free_frames a) + unat (released_frames rep)"
    using b(2) inv_free [OF inv(1)] inv_free [OF assms] by (simp add: reclaiming_def)
  have len: "Bitmap_len (bitmap b) = Bitmap_len (bitmap a)"
    using b(2) inv_len [OF inv(1)] inv_len [OF assms] by (simp add: reclaiming_def)
  have "i \<in> Bitmap_bits (bitmap a) \<and> i \<noteq> 0 \<and> i \<notin> span_set (bitmap_storage a) \<and> i \<notin> span_set (heap_storage a)"
    if "i \<in> free_set b - free_set a" for i
  proof -
    have i: "i < Bitmap_len (bitmap b)" "BitmapFrameAllocator_is_releasable b (of_nat i)"
      using that free_set_less free_set_releasable [OF inv(1)] by auto
    show ?thesis
      using that i len b(2) releasable_span_iff [OF inv_index_bound [OF inv(1) i(1)], of b]
      by (auto simp: reclaiming_def free_set_def)
  qed
  then show ?thesis
    using b inv cnt False
    by (simp add: BitmapFrameAllocator_reclaim_bootloader_def a1_def [symmetric] rep0_def [symmetric])
      (auto simp: reclaiming_def)
qed

text \<open>A four-frame allocator whose last frame belongs to the bootloader.\<close>

definition boot_allocator :: BitmapFrameAllocator where
  "boot_allocator = sample_allocator\<lparr>bitmap := \<lparr>Bitmap_words = [11], Bitmap_len = 4\<rparr>, capacity_frames := 1,
     free_frames := 1, usable := [FrameSpan_new 1 3], bootloader := [FrameSpan_new 3 4]\<rparr>"

lemma boot_allocator_sets: "free_set boot_allocator = {2}" "releasable_set boot_allocator = {2}"
proof -
  have bits: "Bitmap_bits (bitmap boot_allocator) = {0, 1, 3}"
    by (auto simp: Bitmap_bits_def boot_allocator_def less_4_cases)
  have len: "Bitmap_len (bitmap boot_allocator) = 4" by (simp add: boot_allocator_def)
  show "free_set boot_allocator = {2}"
    unfolding free_set_def bits len by (auto simp: less_4_cases)
  show "releasable_set boot_allocator = {2}"
    by (auto simp: releasable_set_def BitmapFrameAllocator_is_releasable_def boot_allocator_def
        sample_allocator_def FrameSpan_contains_def FrameSpan_new_def FrameSpan_EMPTY_def less_4_cases)
qed

lemma boot_allocator_inv: "allocator_inv boot_allocator"
  unfolding allocator_inv_def boot_allocator_sets
  by (simp add: boot_allocator_def sample_allocator_def Bitmap_wf_def FrameSpan_new_def)

theorem reclaim_bootloader_safe_witness:
  "\<exists>rep b. BitmapFrameAllocator_reclaim_bootloader boot_allocator [ProtectedFrameRange (FrameSpan_new 7 9)]
     = Some (rep, b) \<and> allocator_inv b \<and> 2 \<in> free_set b"
  using reclaim_bootloader_safe [OF boot_allocator_inv, of "[ProtectedFrameRange (FrameSpan_new 7 9)]"]
  unfolding boot_allocator_sets by blast

subsection \<open>Construction\<close>

lemma unat_div_ceil:
  fixes a b :: u64
  assumes "2 \<le> unat b"
  shows "unat (div_ceil a b) = (unat a + (unat b - 1)) div unat b"
proof -
  define x y where "x = unat a" and "y = unat b"
  have "x div y + 1 \<le> x div 2 + 1" using assms by (auto simp: y_def intro: div_le_mono2)
  also have "\<dots> < 2 ^ 64" using unat_less_exp [of a] by (simp add: x_def)
  finally have lt: "x div y + 1 < 2 ^ 64" .
  have "unat (a mod b) = x mod y" "unat (a div b) = x div y" by (simp_all add: unat_mod unat_div x_def y_def)
  moreover from this have "a mod b = 0 \<longleftrightarrow> x mod y = 0" by (simp add: word_unat_eq_iff)
  ultimately have "unat (div_ceil a b) = (if x mod y = 0 then x div y else x div y + 1)"
    using lt by (simp add: div_ceil_def unat_plus_if')
  also have "\<dots> = (x + (y - 1)) div y"
  proof -
    define q r where "q = x div y" and "r = x mod y"
    have x: "x = y * q + r" "r < y" "2 \<le> y" using assms by (auto simp: q_def r_def y_def)
    have "(x + (y - 1)) div y = (if r = 0 then q else q + 1)"
      by (rule div_nat_eqI) (use x in \<open>auto simp: algebra_simps\<close>)
    then show ?thesis by (simp add: q_def r_def)
  qed
  finally show ?thesis by (simp add: x_def y_def)
qed

lemma complete_frames_bounds:
  assumes "complete_frames r = Some s"
  obtains e where "MemoryRegion_end r = Some e" "unat (FrameSpan_end s) = unat (PhysAddr_as_u64 e) div 4096"
  using assms
  by (auto simp: complete_frames_def MemoryRegion_end_def PhysAddr_new_def bind_eq_Some_conv Let_def
      FrameSpan_new_def FRAME_SIZE_def PhysFrame_SIZE_def unat_div split: if_splits)

lemma collect_spans_Inr:
  "collect_spans err cap rs acc = Inr us \<Longrightarrow> length acc \<le> cap \<Longrightarrow>
    set us = set acc \<union> set (List.map_filter complete_frames rs) \<and> length us \<le> cap"
  by (induction rs arbitrary: acc) (auto simp: List.map_filter_simps split: option.splits if_splits)

lemma fold_max_bounds:
  fixes e :: "'a::linorder"
  shows "x \<in> set (e # es) \<Longrightarrow> x \<le> fold max es e" "fold max es e \<in> set (e # es)"
  using Max_ge [of "set (e # es)" x] Max_in [of "set (e # es)"]
  by (simp_all only: Max.set_eq_fold [symmetric] finite_set) simp

lemma select_disjoint_start_spec:
  assumes "select_disjoint_start span frames ex = Some s" "0 < unat frames"
    "checked_add s frames = Some e"
  shows "span_set (FrameSpan_new s e) \<subseteq> span_set span" "span_set (FrameSpan_new s e) \<inter> span_set ex = {}"
    "card (span_set (FrameSpan_new s e)) = unat frames"
  using assms unat_checked_add [OF assms(3)]
  by (auto simp: select_disjoint_start_def span_set_def FrameSpan_new_def Let_def word_le_nat_alt min_def
      max_def split: if_splits)

lemma find_map_SomeE:
  assumes "find_map f xs = Some y"
  obtains x where "x \<in> set xs" "f x = Some y"
  using find_map_eq_SomeD [OF assms] by blast

lemma clear_spans:
  assumes "Bitmap_wf b" "\<forall>s\<in>set ss. span_set s \<subseteq> {..<Bitmap_len b}"
  shows "\<exists>b'. for_each (\<lambda>b span. for_each Bitmap_clear b (span_indices span)) b ss = Some b' \<and>
    Bitmap_wf b' \<and> Bitmap_len b' = Bitmap_len b \<and> Bitmap_bits b' = Bitmap_bits b - (\<Union>s\<in>set ss. span_set s)"
  using assms
proof (induction ss arbitrary: b)
  case (Cons s ss)
  obtain b1 where "for_each Bitmap_clear b (span_indices s) = Some b1" "Bitmap_wf b1"
      "Bitmap_len b1 = Bitmap_len b" "Bitmap_bits b1 = Bitmap_bits b - span_set s"
    using bm.clear_each [OF Cons.prems(1), of "span_indices s"] Cons.prems(2) unfolding set_span_indices by auto
  then show ?case using Cons.IH [of b1] Cons.prems(2) by auto
qed simp

lemma build_bitmap_spec:
  assumes "unat total' \<le> unat words * 64" "0 < unat total'"
    "\<forall>s\<in>set us. span_set s \<subseteq> {..<unat total'}"
    "span_set bs \<subseteq> {..<unat total'}" "span_set hs \<subseteq> {..<unat total'}"
  shows "\<exists>b. build_bitmap total' words us bs hs = Some b \<and> Bitmap_wf b \<and> Bitmap_len b = unat total' \<and>
    {..<unat total'} - Bitmap_bits b = (\<Union>s\<in>set us. span_set s) - span_set bs - span_set hs - {0}"
proof -
  let ?n = "unat total'"
  have "Bitmap_len (Bitmap_with_len (replicate (unat words) 0) ?n) = ?n"
    using assms(1) by (simp add: Bitmap_with_len_def BITS_PER_WORD_def Let_def)
  then obtain b0 where b0: "Bitmap_set_all (Bitmap_with_len (replicate (unat words) 0) ?n) = Some b0"
      "Bitmap_wf b0" "Bitmap_len b0 = ?n" "Bitmap_bits b0 = {..<?n}"
    using Bitmap_set_all_spec [of "Bitmap_with_len (replicate (unat words) 0) ?n"] by auto
  obtain b1 where b1: "for_each (\<lambda>b span. for_each Bitmap_clear b (span_indices span)) b0 us = Some b1"
      "Bitmap_wf b1" "Bitmap_len b1 = ?n" "Bitmap_bits b1 = {..<?n} - (\<Union>s\<in>set us. span_set s)"
    using clear_spans [OF b0(2), of us] b0(3,4) assms(3) by auto
  obtain b2 where b2: "mark_span b1 bs True = Some b2" "Bitmap_wf b2" "Bitmap_len b2 = ?n"
      "Bitmap_bits b2 = Bitmap_bits b1 \<union> span_set bs"
    using mark_span_spec [OF b1(2), of bs True] b1(3) assms(4) by auto
  obtain b3 where b3: "mark_span b2 hs True = Some b3" "Bitmap_wf b3" "Bitmap_len b3 = ?n"
      "Bitmap_bits b3 = Bitmap_bits b2 \<union> span_set hs"
    using mark_span_spec [OF b2(2), of hs True] b2(3) assms(5) by auto
  obtain b4 where b4: "Bitmap_set b3 0 = Some b4" "Bitmap_wf b4" "Bitmap_len b4 = ?n"
      "Bitmap_bits b4 = insert 0 (Bitmap_bits b3)"
    using bm.set_ok [OF b3(2), of 0] b3(3) assms(2) by auto
  have "total' \<noteq> 0" using assms(2) by auto
  then have "build_bitmap total' words us bs hs = Some b4"
    using b0(1) b1(1) b2(1) b3(1) b4(1) by (simp add: build_bitmap_def)
  moreover have "{..<?n} - Bitmap_bits b4 = (\<Union>s\<in>set us. span_set s) - span_set bs - span_set hs - {0}"
    using b1(4) b2(4) b3(4) b4(4) assms(3) by auto
  ultimately show ?thesis using b4 by blast
qed

text \<open>The heap was carved out of a region of the map, as \<open>init_heap\<close> does before this runs.\<close>

definition heap_in_map :: "MemoryRegion list \<Rightarrow> (PhysAddr \<times> u64) option \<Rightarrow> bool" where
  "heap_in_map mm claim \<longleftrightarrow> (case claim of None \<Rightarrow> True
     | Some (start, len) \<Rightarrow> \<exists>r\<in>set mm. case MemoryRegion_end r of None \<Rightarrow> False
         | Some e \<Rightarrow> unat (PhysAddr_as_u64 start) + unat len \<le> unat (PhysAddr_as_u64 e))"

lemma heap_claim_bound:
  assumes "heap_in_map mm claim" "heap_claim_span claim = Some s"
    and max: "\<And>r e. r \<in> set mm \<Longrightarrow> MemoryRegion_end r = Some e \<Longrightarrow> unat (PhysAddr_as_u64 e) \<le> m"
  shows "unat (FrameSpan_end s) \<le> (m + 4095) div 4096"
proof -
  obtain st len en up where c: "claim = Some (st, len)" "checked_add (PhysAddr_as_u64 st) len = Some en"
      "checked_add en (FRAME_SIZE - 1) = Some up" "FrameSpan_end s = up div FRAME_SIZE"
    using assms(2)
    by (auto simp: heap_claim_span_def bind_eq_Some_conv Let_def FrameSpan_new_def split: if_splits)
  have "unat (PhysAddr_as_u64 st) + unat len \<le> m"
    using assms(1) max c(1) by (fastforce simp: heap_in_map_def split: option.splits)
  then have "unat up \<le> m + 4095"
    using unat_checked_add [OF c(2)] unat_checked_add [OF c(3)]
    by (simp add: FRAME_SIZE_def PhysFrame_SIZE_def PAGE_SIZE_def)
  then have "unat up div 4096 \<le> (m + 4095) div 4096" by (rule div_le_mono)
  then show ?thesis using c(4) by (simp add: FRAME_SIZE_def PhysFrame_SIZE_def unat_div)
qed

lemma set_map_filter: "y \<in> set (List.map_filter f xs) \<longleftrightarrow> (\<exists>x\<in>set xs. f x = Some y)"
  by (induction xs) (auto simp: List.map_filter_simps split: option.split)

lemma span_set_subset: "unat (FrameSpan_end s) \<le> n \<Longrightarrow> span_set s \<subseteq> {..<n}"
  by (auto simp: span_set_def)

text \<open>The last step of \<open>from_boot_info\<close>, once the spans are known.\<close>

lemma init_allocator:
  assumes t: "unat total' \<le> unat words * 64" "0 < unat total'" "unat total' \<le> 2 ^ 52"
    and us: "\<forall>s\<in>set us. FrameSpan_end s \<le> total'" and bl: "\<forall>s\<in>set bls. FrameSpan_end s \<le> total'"
    and bs: "FrameSpan_end bs \<le> total'" and hs: "FrameSpan_end hs \<le> total'" and n: "length bls \<le> 128"
  shows "\<exists>a. do { b \<leftarrow> build_bitmap total' words us bs hs; zeros \<leftarrow> Bitmap_count_zeros b;
        found \<leftarrow> Bitmap_find_zero_in b 1 (unat total');
        Some (Inr \<lparr>bitmap = b, total_frames = total', capacity_frames = of_nat zeros,
                   free_frames = of_nat zeros, next_frame = (case found of Some i \<Rightarrow> i | None \<Rightarrow> 1),
                   usable = us, bootloader = bls, released_bootloader = [], bootloader_reclaimed = False,
                   bitmap_storage = bs, heap_storage = hs\<rparr>) }
      = Some (Inr a) \<and> allocator_inv a \<and> bitmap_storage a = bs \<and> heap_storage a = hs \<and> total_frames a = total' \<and>
        free_set a = (\<Union>s\<in>set us. span_set s) - span_set bs - span_set hs - {0}"
proof -
  let ?n = "unat total'" and ?F = "(\<Union>s\<in>set us. span_set s) - span_set bs - span_set hs - {0}"
  have le: "FrameSpan_end s \<le> total' \<Longrightarrow> span_set s \<subseteq> {..<?n}" for s
    by (rule span_set_subset) (simp add: word_le_nat_alt)
  obtain b where b: "build_bitmap total' words us bs hs = Some b" "Bitmap_wf b" "Bitmap_len b = ?n"
      "{..<?n} - Bitmap_bits b = ?F"
    using build_bitmap_spec [OF t(1,2) _ le [OF bs] le [OF hs], of us] us le by auto
  have "Bitmap_bits b \<subseteq> {..<?n}" using bm.bits_bound [OF b(2)] b(3) by simp
  then have z: "Bitmap_count_zeros b = Some (card ?F)"
    using Bitmap_count_ones_eq [OF b(2)] b(3) b(4)
    by (simp add: Bitmap_count_zeros_def card_Diff_subset bm.finite_bits [OF b(2)] flip: b(4))
  have F: "card ?F \<le> 2 ^ 52" using t(3) card_mono [of "{..<?n}" ?F] by (auto simp flip: b(4))
  define a where "a = \<lparr>bitmap = b, total_frames = total', capacity_frames = of_nat (card ?F),
      free_frames = of_nat (card ?F),
      next_frame = (case List.find (is_free b) [1..<?n] of Some i \<Rightarrow> i | None \<Rightarrow> 1),
      usable = us, bootloader = bls, released_bootloader = [], bootloader_reclaimed = False,
      bitmap_storage = bs, heap_storage = hs\<rparr>"
  have fs: "free_set a = ?F" using b by (simp add: free_set_def a_def)
  have "releasable_set a = ?F"
  proof (intro set_eqI)
    fix i
    have "i < 2 ^ 64" if "i < ?n" using that unat_less_exp [of total'] by simp
    then show "i \<in> releasable_set a \<longleftrightarrow> i \<in> ?F"
      using releasable_span_iff [of i a] us le b(3) by (auto simp: releasable_set_def a_def)
  qed
  moreover have "unat (of_nat (card ?F) :: u64) = card ?F"
    using F by (simp add: unsigned_of_nat take_bit_nat_eq_self)
  ultimately have "allocator_inv a"
    using b t F fs us bl n unfolding allocator_inv_def by (auto simp: a_def)
  then show ?thesis
    using b z fs Bitmap_find_zero_in_eq [OF b(2), of 1 ?n] by (simp add: a_def)
qed

lemma boot_sizes:
  assumes "map PhysAddr_as_u64 (List.map_filter MemoryRegion_end mm) = e # es"
    and m: "m = fold max es e" and t: "total' = div_ceil m FRAME_SIZE"
  shows "r \<in> set mm \<Longrightarrow> MemoryRegion_end r = Some x \<Longrightarrow> unat (PhysAddr_as_u64 x) \<le> unat m"
    "unat total' = (unat m + 4095) div 4096" "unat total' \<le> 2 ^ 52"
proof -
  show ut: "unat total' = (unat m + 4095) div 4096"
    by (simp add: t unat_div_ceil FRAME_SIZE_def PhysFrame_SIZE_def)
  show "unat total' \<le> 2 ^ 52" using unat_less_exp [of m] by (simp add: ut)
  assume "r \<in> set mm" "MemoryRegion_end r = Some x"
  then have "x \<in> set (List.map_filter MemoryRegion_end mm)" by (auto simp: set_map_filter)
  then have "PhysAddr_as_u64 x \<in> set (e # es)" by (metis assms(1) image_eqI list.set_map)
  then show "unat (PhysAddr_as_u64 x) \<le> unat m"
    using fold_max_bounds(1) [of "PhysAddr_as_u64 x" e es] by (simp add: m word_le_nat_alt)
qed

lemma storage_sizes:
  assumes "unat total' \<le> 2 ^ 52" "0 < unat total'"
    and w: "words = div_ceil total' (64 :: u64)" and f: "frames = div_ceil (words * 8) FRAME_SIZE"
  shows "unat total' \<le> unat words * 64" "checked_mul words 8 = Some (words * 8)"
    "0 < unat frames" "unat total' \<le> unat frames * 4096 * 8"
proof -
  have uw: "unat words = (unat total' + 63) div 64" by (simp add: w unat_div_ceil)
  then show tw: "unat total' \<le> unat words * 64" by linarith
  have "unat words \<le> 2 ^ 46 + 1" using uw assms(1) by simp
  then have mul: "unat (words * 8) = unat words * 8" "unat words * unat (8 :: u64) < 2 ^ LENGTH(64)"
    by (simp_all add: unat_word_ariths)
  then show "checked_mul words 8 = Some (words * 8)" by (simp add: checked_mul_def)
  have "unat frames = (unat words * 8 + 4095) div 4096"
    by (simp add: f unat_div_ceil FRAME_SIZE_def PhysFrame_SIZE_def mul)
  then show "0 < unat frames" "unat total' \<le> unat frames * 4096 * 8" using tw assms(2) by linarith+
qed



end
