(* ===== verification/Buddy.thy ===== *)
theory Buddy
  imports Frame_Allocator
begin

text \<open>
  The buddy allocator, \<open>kernel/src/mm/physical/buddy.rs\<close>, generic over the frame backing it sits
  on. The trait \<open>FrameBacking\<close> is a record of operations that every definition takes as an argument
  and a locale of the laws the buddy relies on; the const generic \<open>CAP\<close> is the argument \<open>cap\<close>. A
  free list is the list of its live entries, top of the stack last; the array \<open>free_lists\<close> is a
  list whose length, \<open>NUM_ORDERS\<close>, the array type fixes.
\<close>

subsection \<open>Free fls\<close>

definition MAX_ORDER :: nat where
  "MAX_ORDER = 10"

definition NUM_ORDERS :: nat where
  "NUM_ORDERS = MAX_ORDER + 1"

datatype BuddyError =
  OutOfRegion | NotPowerOfTwo | OrderTooLarge nat | Misaligned | BlockDoubleFree | FreeListFull

type_synonym FreeList = "u64 list"

definition FreeList_new :: FreeList where
  "FreeList_new = []"

definition FreeList_push :: "nat \<Rightarrow> FreeList \<Rightarrow> u64 \<Rightarrow> FreeList option" where
  "FreeList_push cap self frame = (if length self < cap then Some (self @ [frame]) else None)"

definition FreeList_pop :: "FreeList \<Rightarrow> u64 option \<times> FreeList" where
  "FreeList_pop self = (if self = [] then (None, self) else (Some (last self), butlast self))"

text \<open>The scan of \<open>remove\<close>: the first match is overwritten by the last live entry.\<close>

definition FreeList_remove :: "FreeList \<Rightarrow> u64 \<Rightarrow> bool \<times> FreeList" where
  "FreeList_remove self frame =
     (case List.find (\<lambda>i. self ! i = frame) [0..<length self] of
        Some i \<Rightarrow> (True, butlast (self[i := last self]))
      | None \<Rightarrow> (False, self))"

subsection \<open>Ranges of frames\<close>

record PhysFrameRange =
  PhysFrameRange_start :: PhysFrame
  PhysFrameRange_end :: PhysFrame

definition PhysFrameRange_new :: "PhysFrame \<Rightarrow> PhysFrame \<Rightarrow> PhysFrameRange" where
  "PhysFrameRange_new start end' =
     (if PhysAddr_as_u64 (PhysFrame_start_address start) \<le> PhysAddr_as_u64 (PhysFrame_start_address end')
      then \<lparr>PhysFrameRange_start = start, PhysFrameRange_end = end'\<rparr>
      else \<lparr>PhysFrameRange_start = end', PhysFrameRange_end = start\<rparr>)"

text \<open>Outer \<open>option\<close>: a panic of \<open>start + (count - 1)\<close>; inner \<open>option\<close>: the result.\<close>

definition PhysFrameRange_spanning :: "PhysFrame \<Rightarrow> u64 \<Rightarrow> PhysFrameRange option option" where
  "PhysFrameRange_spanning start count =
     (if count = 0 then Some None
      else do {
        end' \<leftarrow> PhysFrame_add start (count - 1);
        Some (Some \<lparr>PhysFrameRange_start = start, PhysFrameRange_end = end'\<rparr>)
      })"

definition PhysFrameRange_len :: "PhysFrameRange \<Rightarrow> u64" where
  "PhysFrameRange_len self = PhysFrame_diff (PhysFrameRange_end self) (PhysFrameRange_start self) + 1"

definition PhysFrameRange_is_empty :: "PhysFrameRange \<Rightarrow> bool" where
  "PhysFrameRange_is_empty self \<longleftrightarrow> PhysFrameRange_len self = 0"

record PhysFrameRangeIter =
  PhysFrameRangeIter_next_frame :: PhysFrame
  PhysFrameRangeIter_remaining :: u64

definition PhysFrameRange_iter :: "PhysFrameRange \<Rightarrow> PhysFrameRangeIter" where
  "PhysFrameRange_iter self =
     \<lparr>PhysFrameRangeIter_next_frame = PhysFrameRange_start self,
      PhysFrameRangeIter_remaining = PhysFrameRange_len self\<rparr>"

definition PhysFrameRangeIter_next ::
    "PhysFrameRangeIter \<Rightarrow> (PhysFrame option \<times> PhysFrameRangeIter) option" where
  "PhysFrameRangeIter_next self =
     (if PhysFrameRangeIter_remaining self = 0 then Some (None, self)
      else do {
        let cur = PhysFrameRangeIter_next_frame self;
        nxt \<leftarrow> PhysFrame_add cur 1;
        Some (Some cur,
              self\<lparr>PhysFrameRangeIter_next_frame := nxt,
                   PhysFrameRangeIter_remaining := PhysFrameRangeIter_remaining self - 1\<rparr>)
      })"

subsection \<open>The allocator\<close>

text \<open>The trait \<open>FrameBacking\<close>; a panicking method answers \<open>None\<close>.\<close>

record 'b FrameBacking =
  is_frame_free :: "'b \<Rightarrow> u64 \<Rightarrow> bool option"
  mark_frame_allocated :: "'b \<Rightarrow> u64 \<Rightarrow> 'b option"
  mark_frame_free :: "'b \<Rightarrow> u64 \<Rightarrow> 'b option"

record 'b BuddyAllocator =
  backing :: 'b
  free_lists :: "FreeList list"
  base_frame :: PhysFrame
  base_idx :: u64
  managed :: u64

definition seed_order :: "u64 \<Rightarrow> u64 \<Rightarrow> nat" where
  "seed_order managed' pos =
     (let align_order = trailing_zeros pos;
          remaining = managed' - pos;
          fit_order = 63 - leading_zeros remaining;
          order = min align_order fit_order in
      if order > MAX_ORDER then MAX_ORDER else order)"

lemma seed_order_le: "seed_order m p \<le> 10"
  by (auto simp: seed_order_def MAX_ORDER_def Let_def)

lemma seed_order_fits:
  assumes "pos < managed'"
  shows "unat pos + 2 ^ seed_order managed' pos \<le> unat managed'"
proof -
  have nz: "managed' - pos \<noteq> 0" using assms by auto
  have "seed_order managed' pos \<le> 63 - leading_zeros (managed' - pos)"
    by (auto simp: seed_order_def Let_def)
  then have "2 ^ seed_order managed' pos \<le> unat (managed' - pos)"
    using exp_le_leading_zeros [OF nz, of "seed_order managed' pos"] by simp
  then show ?thesis using assms by (simp add: unat_sub word_less_nat_alt word_le_nat_alt)
qed

lemma unat_seed_step:
  assumes "pos < managed'"
  shows "unat (pos + push_bit (seed_order managed' pos) 1) = unat pos + 2 ^ seed_order managed' pos"
proof -
  have "seed_order managed' pos < LENGTH(64)" using seed_order_le [of managed' pos] by simp
  then have "unat (push_bit (seed_order managed' pos) 1 :: u64) = 2 ^ seed_order managed' pos"
    by (simp add: unat_exp)
  then show ?thesis
    using seed_order_fits [OF assms] unat_less_exp [of managed'] by (simp add: unat_plus_if')
qed

function BuddyAllocator_seed_loop ::
    "nat \<Rightarrow> u64 \<Rightarrow> u64 \<Rightarrow> FreeList list \<Rightarrow> (BuddyError + FreeList list) option" where
  "BuddyAllocator_seed_loop cap managed' pos fls =
     (if pos < managed' then
        let order = seed_order managed' pos in
        if length (fls ! order) \<ge> cap then Some (Inl FreeListFull)
        else do {
          l \<leftarrow> FreeList_push cap (fls ! order) pos;
          BuddyAllocator_seed_loop cap managed' (pos + push_bit order 1) (fls[order := l])
        }
      else Some (Inr fls))"
  by pat_completeness auto
termination
proof (relation "measure (\<lambda>(cap, managed', pos, fls). unat managed' - unat pos)")
  fix cap managed' pos fls x l
  assume "(pos :: u64) < managed'" "x = seed_order managed' pos"
  then show "((cap, managed', pos + push_bit x 1, fls[x := l]), (cap, managed', pos, fls))
      \<in> measure (\<lambda>(cap, managed', pos, fls). unat managed' - unat pos)"
    using unat_seed_step [of pos managed'] zero_less_power [of "2 :: nat" "seed_order managed' pos"]
    by (simp add: word_less_nat_alt diff_less_mono2)
qed simp

declare BuddyAllocator_seed_loop.simps [simp del]

definition BuddyAllocator_new ::
    "nat \<Rightarrow> 'b \<Rightarrow> PhysFrame \<Rightarrow> u64 \<Rightarrow> (BuddyError + 'b BuddyAllocator) option" where
  "BuddyAllocator_new cap backing' base_frame' managed' =
     (if managed' = 0 then Some (Inl OutOfRegion)
      else do {
        res \<leftarrow> BuddyAllocator_seed_loop cap managed' 0 (replicate NUM_ORDERS FreeList_new);
        case res of
          Inl err \<Rightarrow> Some (Inl err)
        | Inr fls \<Rightarrow>
            Some (Inr \<lparr>backing = backing', free_lists = fls, base_frame = base_frame',
                       base_idx = PhysFrame_number base_frame', managed = managed'\<rparr>)
      })"

definition BuddyAllocator_free_frames :: "'b BuddyAllocator \<Rightarrow> u64" where
  "BuddyAllocator_free_frames self =
     fold (\<lambda>ord total'. total' + push_bit ord (of_nat (length (free_lists self ! ord)))) [0..<NUM_ORDERS] 0"

definition BuddyAllocator_free_blocks_at_order :: "'b BuddyAllocator \<Rightarrow> nat \<Rightarrow> nat" where
  "BuddyAllocator_free_blocks_at_order self order =
     (if order > MAX_ORDER then 0 else length (free_lists self ! order))"

subsection \<open>Allocating a block\<close>

text \<open>The walk up the order ladder to the first non-empty free list.\<close>

function find_order :: "FreeList list \<Rightarrow> nat \<Rightarrow> nat" where
  "find_order fls ord =
     (if ord < NUM_ORDERS \<and> fls ! ord = [] then find_order fls (ord + 1) else ord)"
  by pat_completeness auto
termination
  by (relation "measure (\<lambda>(fls, ord). NUM_ORDERS - ord)") auto

declare find_order.simps [simp del]

text \<open>The loop that splits the block at \<open>rel\<close> from order \<open>ord\<close> down to order \<open>want\<close>.\<close>

fun split_down :: "nat \<Rightarrow> u64 \<Rightarrow> nat \<Rightarrow> nat \<Rightarrow> FreeList list \<Rightarrow> FreeList list option" where
  "split_down cap rel 0 want fls = Some fls"
| "split_down cap rel (Suc ord) want fls =
     (if Suc ord > want then
        do {
          let buddy = rel XOR push_bit ord 1;
          l \<leftarrow> FreeList_push cap (fls ! ord) buddy;
          split_down cap rel ord want (fls[ord := l])
        }
      else Some fls)"

definition BuddyAllocator_alloc_pages ::
    "'b FrameBacking \<Rightarrow> nat \<Rightarrow> 'b BuddyAllocator \<Rightarrow> nat
      \<Rightarrow> (PhysFrameRange option \<times> 'b BuddyAllocator) option" where
  "BuddyAllocator_alloc_pages ops cap self order =
     (if order > MAX_ORDER then Some (None, self)
      else
        let want = order; ord = find_order (free_lists self) want in
        if ord = NUM_ORDERS then Some (None, self)
        else
          let (popped, l) = FreeList_pop (free_lists self ! ord) in
          do {
            rel \<leftarrow> popped;
            fls \<leftarrow> split_down cap rel ord want ((free_lists self)[ord := l]);
            let size = push_bit want (1 :: u64);
            let abs_start = base_idx self + rel;
            b \<leftarrow> for_each (\<lambda>b i. mark_frame_allocated ops b (abs_start + of_nat i)) (backing self)
                  [0..<unat size];
            first \<leftarrow> PhysFrame_add (base_frame self) rel;
            spanned \<leftarrow> PhysFrameRange_spanning first size;
            fr \<leftarrow> spanned;
            Some (Some fr, self\<lparr>backing := b, free_lists := fls\<rparr>)
          })"

subsection \<open>Freeing a block\<close>

text \<open>The merge loop of \<open>coalesce_insert\<close>; the final block and the lists without its parts.\<close>

function coalesce :: "u64 \<Rightarrow> nat \<Rightarrow> FreeList list \<Rightarrow> u64 \<times> nat \<times> FreeList list" where
  "coalesce rel ord fls =
     (if ord < NUM_ORDERS - 1 then
        let buddy = rel XOR push_bit ord 1;
            (removed, l) = FreeList_remove (fls ! ord) buddy in
        if removed then coalesce (if rel < buddy then rel else buddy) (ord + 1) (fls[ord := l])
        else (rel, ord, fls)
      else (rel, ord, fls))"
  by pat_completeness auto
termination
  by (relation "measure (\<lambda>(rel, ord, fls). NUM_ORDERS - ord)") auto

declare coalesce.simps [simp del]

definition BuddyAllocator_coalesce_insert ::
    "nat \<Rightarrow> FreeList list \<Rightarrow> u64 \<Rightarrow> nat \<Rightarrow> ((BuddyError + unit) \<times> FreeList list) option" where
  "BuddyAllocator_coalesce_insert cap fls rel order =
     (let (rel', ord, fls') = coalesce rel order fls in
      if length (fls' ! ord) \<ge> cap then Some (Inl FreeListFull, fls')
      else do {
        l \<leftarrow> FreeList_push cap (fls' ! ord) rel';
        Some (Inr (), fls'[ord := l])
      })"

definition BuddyAllocator_free_pages ::
    "'b FrameBacking \<Rightarrow> nat \<Rightarrow> 'b BuddyAllocator \<Rightarrow> PhysFrameRange
      \<Rightarrow> ((BuddyError + unit) \<times> 'b BuddyAllocator) option" where
  "BuddyAllocator_free_pages ops cap self fr =
     (let rel_start = PhysFrame_diff (PhysFrameRange_start fr) (base_frame self);
          count = PhysFrameRange_len fr in
      if (case checked_add rel_start count of None \<Rightarrow> True | Some end' \<Rightarrow> end' > managed self)
      then Some (Inl OutOfRegion, self)
      else if \<not> is_power_of_two count then Some (Inl NotPowerOfTwo, self)
      else
        let order = trailing_zeros count in
        if order > MAX_ORDER then Some (Inl (OrderTooLarge order), self)
        else if \<not> is_multiple_of rel_start count then Some (Inl Misaligned, self)
        else
          let abs_start = base_idx self + rel_start in
          do {
            refused \<leftarrow> for_first (\<lambda>i.
                do {
                  free \<leftarrow> is_frame_free ops (backing self) (abs_start + of_nat i);
                  Some (if free then Some BlockDoubleFree else None)
                }) [0..<unat count];
            case refused of
              Some err \<Rightarrow> Some (Inl err, self)
            | None \<Rightarrow>
                do {
                  b \<leftarrow> for_each (\<lambda>b i. mark_frame_free ops b (abs_start + of_nat i)) (backing self)
                        [0..<unat count];
                  (res, fls) \<leftarrow> BuddyAllocator_coalesce_insert cap (free_lists self) rel_start order;
                  Some (res, self\<lparr>backing := b, free_lists := fls\<rparr>)
                }
          })"

end
