(* ===== verification/Buddy_Blocks.thy ===== *)
theory Buddy_Blocks
  imports Buddy "HOL-Library.Multiset"
begin

text \<open>
  The free lists of the buddy allocator as a set of aligned blocks. \<open>fls_ok\<close> says that the blocks
  are aligned, inside the region and pairwise disjoint, \<open>covered\<close> is the set of relative frames
  they hold, and \<open>coalesced\<close> that no two buddies below the top order are both free. Seeding,
  splitting and coalescing are shown to keep these and to change \<open>covered\<close> as intended.
\<close>

subsection \<open>Blocks\<close>

definition block :: "nat \<Rightarrow> u64 \<Rightarrow> nat set" where
  "block ord r = {unat r..<unat r + 2 ^ ord}"

definition covered :: "FreeList list \<Rightarrow> nat set" where
  "covered fls = (\<Union>ord<11. \<Union>r\<in>set (fls ! ord). block ord r)"

definition list_wf :: "nat \<Rightarrow> nat \<Rightarrow> nat \<Rightarrow> FreeList \<Rightarrow> bool" where
  "list_wf cap m ord l \<longleftrightarrow> distinct l \<and> length l \<le> cap \<and>
     (\<forall>r\<in>set l. 2 ^ ord dvd unat r \<and> unat r + 2 ^ ord \<le> m)"

definition disjoint_blocks :: "FreeList list \<Rightarrow> bool" where
  "disjoint_blocks fls \<longleftrightarrow> (\<forall>ord<11. \<forall>ord'<11. \<forall>r\<in>set (fls ! ord). \<forall>r'\<in>set (fls ! ord').
     (ord, r) \<noteq> (ord', r') \<longrightarrow> block ord r \<inter> block ord' r' = {})"

definition fls_ok :: "nat \<Rightarrow> nat \<Rightarrow> FreeList list \<Rightarrow> bool" where
  "fls_ok cap m fls \<longleftrightarrow> length fls = 11 \<and> (\<forall>ord<11. list_wf cap m ord (fls ! ord)) \<and> disjoint_blocks fls"

definition coalesced :: "FreeList list \<Rightarrow> bool" where
  "coalesced fls \<longleftrightarrow> (\<forall>ord<10. \<forall>r\<in>set (fls ! ord). r XOR 2 ^ ord \<notin> set (fls ! ord))"

lemma coveredI: "ord < 11 \<Longrightarrow> r \<in> set (fls ! ord) \<Longrightarrow> i \<in> block ord r \<Longrightarrow> i \<in> covered fls"
  by (auto simp: covered_def)

lemma coveredE:
  assumes "i \<in> covered fls"
  obtains ord r where "ord < 11" "r \<in> set (fls ! ord)" "i \<in> block ord r"
  using assms by (auto simp: covered_def)

lemma fls_okD:
  assumes "fls_ok cap m fls" "ord < 11"
  shows "length fls = 11" "distinct (fls ! ord)" "length (fls ! ord) \<le> cap"
    "r \<in> set (fls ! ord) \<Longrightarrow> 2 ^ ord dvd unat r" "r \<in> set (fls ! ord) \<Longrightarrow> unat r + 2 ^ ord \<le> m"
  using assms by (auto simp: fls_ok_def list_wf_def)

lemma covered_bound: "fls_ok cap m fls \<Longrightarrow> covered fls \<subseteq> {..<m}"
  using fls_okD(5) by (fastforce simp: block_def elim: coveredE)

lemma block_nonempty [simp]: "unat r \<in> block ord r"
  by (simp add: block_def)

lemma nth_update_if: "ord < length fls \<Longrightarrow> fls[ord := l] ! k = (if k = ord then l else fls ! k)"
  by simp

lemma disjoint_blocksD:
  "disjoint_blocks fls \<Longrightarrow> a < 11 \<Longrightarrow> b < 11 \<Longrightarrow> r \<in> set (fls ! a) \<Longrightarrow> s \<in> set (fls ! b) \<Longrightarrow>
    (a, r) \<noteq> (b, s) \<Longrightarrow> block a r \<inter> block b s = {}"
  unfolding disjoint_blocks_def by blast

lemma covered_finite: "fls_ok cap m fls \<Longrightarrow> finite (covered fls)"
  by (rule finite_subset [OF covered_bound finite_lessThan])

lemma list_length_le:
  assumes ok: "fls_ok cap m fls" and o: "ord < 11"
  shows "length (fls ! ord) \<le> card (covered fls)"
proof -
  have "unat ` set (fls ! ord) \<subseteq> covered fls" using coveredI [OF o] by auto
  then have "card (unat ` set (fls ! ord)) \<le> card (covered fls)"
    using covered_finite [OF ok] by (rule card_mono [rotated])
  moreover have "inj_on unat (set (fls ! ord))" by (simp add: inj_on_def word_unat_eq_iff)
  ultimately show ?thesis using distinct_card [OF fls_okD(2) [OF ok o]] by (simp add: card_image)
qed

text \<open>The blocks are disjoint, so their sizes add up to the number of covered frames.\<close>

lemma card_covered:
  assumes ok: "fls_ok cap m fls"
  shows "card (covered fls) = (\<Sum>ord<11. length (fls ! ord) * 2 ^ ord)"
proof -
  let ?P = "SIGMA ord:{..<11}. set (fls ! ord)"
  have dj: "disjoint_blocks fls" using ok by (simp add: fls_ok_def)
  have "covered fls = (\<Union>p\<in>?P. block (fst p) (snd p))" by (fastforce simp: covered_def)
  also have "card \<dots> = (\<Sum>p\<in>?P. card (block (fst p) (snd p)))"
  proof (rule card_UN_disjoint)
    show "\<forall>p\<in>?P. \<forall>q\<in>?P. p \<noteq> q \<longrightarrow> block (fst p) (snd p) \<inter> block (fst q) (snd q) = {}"
      using disjoint_blocksD [OF dj] by (simp add: split_paired_all)
  qed (auto simp: block_def)
  also have "\<dots> = (\<Sum>p\<in>?P. case p of (ord, r) \<Rightarrow> 2 ^ ord)" by (simp add: block_def split_def)
  also have "\<dots> = (\<Sum>ord<11. \<Sum>r\<in>set (fls ! ord). 2 ^ ord)" by (rule sum.Sigma [symmetric]) simp_all
  also have "\<dots> = (\<Sum>ord<11. length (fls ! ord) * 2 ^ ord)"
    using fls_okD(2) [OF ok] by (intro sum.cong) (simp_all add: distinct_card)
  finally show ?thesis .
qed

text \<open>Adding a disjoint aligned block and taking one out.\<close>

lemma add_block:
  assumes ok: "fls_ok cap m fls" and ord: "ord < 11" and room: "length (fls ! ord) < cap"
    and r: "2 ^ ord dvd unat r" "unat r + 2 ^ ord \<le> m" and disj: "block ord r \<inter> covered fls = {}"
    and new: "fls' = fls[ord := fls ! ord @ [r]]"
  shows "fls_ok cap m fls'" "covered fls' = covered fls \<union> block ord r"
proof -
  have len: "length fls = 11" using ok by (simp add: fls_ok_def)
  have nth: "fls' ! k = (if k = ord then fls ! ord @ [r] else fls ! k)" for k
    using len ord by (simp add: new)
  have apart: "block ord r \<inter> block k s = {}" if "k < 11" "s \<in> set (fls ! k)" for k s
    using disj coveredI [OF that] by blast
  then have fresh: "r \<notin> set (fls ! ord)" using ord block_nonempty [of r ord] by blast
  have "list_wf cap m k (fls' ! k)" if "k < 11" for k
    using fls_okD [OF ok that] room r fresh by (auto simp: nth list_wf_def)
  moreover have "block a x \<inter> block b y = {}"
    if xy: "a < 11" "b < 11" "x \<in> set (fls' ! a)" "y \<in> set (fls' ! b)" "(a, x) \<noteq> (b, y)" for a b x y
  proof -
    have "x \<in> set (fls ! a) \<or> (a, x) = (ord, r)" "y \<in> set (fls ! b) \<or> (b, y) = (ord, r)"
      using xy by (auto simp: nth split: if_splits)
    then show ?thesis
      using apart [OF xy(1)] apart [OF xy(2)] disjoint_blocksD [of fls a b x y] ok xy
      by (auto simp: fls_ok_def Int_commute)
  qed
  ultimately show "fls_ok cap m fls'"
    using len by (auto simp: fls_ok_def disjoint_blocks_def new)
  have mem: "s \<in> set (fls' ! k) \<longleftrightarrow> s \<in> set (fls ! k) \<or> (k = ord \<and> s = r)" for k s by (auto simp: nth)
  show "covered fls' = covered fls \<union> block ord r"
  proof (intro set_eqI iffI)
    fix i assume "i \<in> covered fls'"
    then obtain k s where "k < 11" "s \<in> set (fls' ! k)" "i \<in> block k s" by (rule coveredE)
    then show "i \<in> covered fls \<union> block ord r" using mem coveredI by blast
  next
    fix i assume "i \<in> covered fls \<union> block ord r"
    then obtain k s where "k < 11" "s \<in> set (fls' ! k)" "i \<in> block k s"
      using mem ord by (blast elim: coveredE)
    then show "i \<in> covered fls'" by (rule coveredI)
  qed
qed

lemma take_block:
  assumes ok: "fls_ok cap m fls" and ord: "ord < 11" and r: "r \<in> set (fls ! ord)"
    and l: "distinct l" "set l = set (fls ! ord) - {r}" "length l \<le> length (fls ! ord)"
    and new: "fls' = fls[ord := l]"
  shows "fls_ok cap m fls'" "covered fls' = covered fls - block ord r" "block ord r \<subseteq> covered fls"
proof -
  have len: "length fls = 11" using ok by (simp add: fls_ok_def)
  have nth: "fls' ! k = (if k = ord then l else fls ! k)" for k
    using len ord by (simp add: new)
  have sub: "set (fls' ! k) \<subseteq> set (fls ! k)" for k using l by (auto simp: nth)
  have "list_wf cap m k (fls' ! k)" if "k < 11" for k
    using fls_okD [OF ok that] l fls_okD(3) [OF ok ord] by (auto simp: nth list_wf_def)
  moreover have "disjoint_blocks fls'"
    using ok sub unfolding fls_ok_def disjoint_blocks_def by blast
  ultimately show "fls_ok cap m fls'" using len by (auto simp: fls_ok_def new)
  show "block ord r \<subseteq> covered fls" using coveredI [OF ord r] by blast
  have "i \<in> covered fls' \<longleftrightarrow> i \<in> covered fls \<and> i \<notin> block ord r" for i
  proof
    assume "i \<in> covered fls'"
    then obtain k s where k: "k < 11" "s \<in> set (fls' ! k)" "i \<in> block k s" by (rule coveredE)
    then have "s \<in> set (fls ! k)" "(k, s) \<noteq> (ord, r)" using sub l(2) by (auto simp: nth split: if_splits)
    then have "block k s \<inter> block ord r = {}"
      using disjoint_blocksD [of fls k ord s r] ok k ord r by (simp add: fls_ok_def)
    then show "i \<in> covered fls \<and> i \<notin> block ord r"
      using k coveredI [OF k(1) \<open>s \<in> set (fls ! k)\<close> k(3)] by blast
  next
    assume i: "i \<in> covered fls \<and> i \<notin> block ord r"
    then obtain k s where k: "k < 11" "s \<in> set (fls ! k)" "i \<in> block k s" by (auto elim: coveredE)
    with i have "(k, s) \<noteq> (ord, r)" by auto
    then have "s \<in> set (fls' ! k)" using k l(2) by (auto simp: nth)
    then show "i \<in> covered fls'" using k coveredI by blast
  qed
  then show "covered fls' = covered fls - block ord r" by blast
qed

subsection \<open>Buddies\<close>

lemma unset_bit_nat:
  fixes n :: nat
  assumes "bit n k"
  shows "unset_bit k n = n - 2 ^ k"
proof -
  have "set_bit k (unset_bit k n) = n" using assms by (auto intro!: bit_eqI simp: bit_simps)
  moreover have "set_bit k (unset_bit k n) = unset_bit k n + 2 ^ k"
    by (simp add: set_bit_eq bit_unset_bit_iff)
  ultimately show ?thesis by simp
qed

lemma unat_xor_exp:
  fixes r :: u64
  assumes "ord < 64"
  shows "unat (r XOR 2 ^ ord) = (if bit r ord then unat r - 2 ^ ord else unat r + 2 ^ ord)"
proof -
  have "unat (r XOR 2 ^ ord) = unat r XOR 2 ^ ord"
    using assms by (simp add: unsigned_xor_eq unat_exp)
  also have "\<dots> = flip_bit ord (unat r)" by (simp add: flip_bit_eq_xor push_bit_eq_mult)
  also have "\<dots> = (if bit r ord then unat r - 2 ^ ord else unat r + 2 ^ ord)"
    using assms unset_bit_nat [of "unat r" ord]
    by (simp add: flip_bit_eq_if set_bit_eq bit_unsigned_iff)
  finally show ?thesis .
qed

lemma bit_aligned:
  fixes r :: u64
  assumes "2 ^ ord dvd unat r" "ord < 64"
  shows "bit r ord \<longleftrightarrow> \<not> 2 ^ Suc ord dvd unat r"
proof -
  obtain k where k: "unat r = 2 ^ ord * k" using assms(1) by auto
  have "bit r ord \<longleftrightarrow> bit (unat r) ord" using assms(2) by (simp add: bit_unsigned_iff)
  then have "bit r ord \<longleftrightarrow> odd k" by (simp add: bit_iff_odd k)
  moreover have "2 ^ Suc ord dvd unat r \<longleftrightarrow> even k"
    unfolding k power_Suc2 by (simp add: dvd_mult_cancel1)
  ultimately show ?thesis by simp
qed

text \<open>A block and its buddy form the block of the next order at the smaller start.\<close>

lemma merge_buddies:
  fixes r :: u64
  assumes "2 ^ ord dvd unat r" "ord < 64" and b: "b = r XOR 2 ^ ord"
    and p: "p = (if r < b then r else b)"
  shows "block ord r \<inter> block ord b = {}" "block ord r \<union> block ord b = block (Suc ord) p"
    "2 ^ Suc ord dvd unat p"
proof -
  have ge: "2 ^ ord \<le> unat r" if "bit r ord"
    using that bit_imp_exp_le_unat by blast
  have p_eq: "unat p = (if bit r ord then unat r - 2 ^ ord else unat r)"
    using unat_xor_exp [OF assms(2), of r] ge by (auto simp: p b word_less_nat_alt)
  show "block ord r \<inter> block ord b = {}" "block ord r \<union> block ord b = block (Suc ord) p"
    using unat_xor_exp [OF assms(2), of r] ge p_eq by (auto simp: block_def b split: if_splits)
  show "2 ^ Suc ord dvd unat p"
  proof (cases "bit r ord")
    case False
    then show ?thesis using bit_aligned [OF assms(1,2)] p_eq by simp
  next
    case True
    then obtain k where k: "unat r = 2 ^ ord * k" "odd k"
      using assms(1,2) bit_aligned [OF assms(1,2)] by (auto elim!: dvdE)
    then obtain j where "k = 2 * j + 1" by (auto elim: oddE)
    then have "unat p = 2 ^ Suc ord * j" using p_eq True k by (simp add: algebra_simps)
    then show ?thesis by simp
  qed
qed

lemma butlast_distinct:
  assumes "distinct l" "l \<noteq> []"
  shows "distinct (butlast l)" "set (butlast l) = set l - {last l}" "length (butlast l) \<le> length l"
proof -
  obtain xs x where l: "l = xs @ [x]" using assms(2) by (metis rev_exhaust)
  show "distinct (butlast l)" "set (butlast l) = set l - {last l}" "length (butlast l) \<le> length l"
    using assms(1) by (auto simp: l)
qed

lemma FreeList_remove_spec:
  assumes "distinct l"
  shows "if f \<in> set l then \<exists>l'. FreeList_remove l f = (True, l') \<and> distinct l' \<and>
      set l' = set l - {f} \<and> length l' \<le> length l
    else FreeList_remove l f = (False, l)"
proof (cases "List.find (\<lambda>i. l ! i = f) [0..<length l]")
  case None
  then have "f \<notin> set l" by (auto simp: find_upt_None in_set_conv_nth)
  then show ?thesis using None by (simp add: FreeList_remove_def)
next
  case (Some i)
  then have i: "i < length l" "l ! i = f" by (auto simp: find_upt_Some)
  define l' where "l' = butlast (l[i := last l])"
  have ne: "l \<noteq> []" using i by auto
  have "l[i := last l] = l' @ [last l]"
    using ne append_butlast_last_id [of "l[i := last l]"] by (simp add: l'_def last_list_update)
  then have "add_mset (last l) (mset l') = mset (l[i := last l])" by simp
  also have "\<dots> = add_mset (last l) (mset l - {#f#})" using i by (simp add: mset_update)
  finally have ms: "mset l' = mset (remove1 f l)" by simp
  have "distinct l'" using mset_eq_imp_distinct_iff [OF ms] assms by simp
  moreover have "set l' = set l - {f}" using mset_eq_setD [OF ms] assms by simp
  moreover have "length l' \<le> length l" by (simp add: l'_def)
  moreover have "FreeList_remove l f = (True, l')" by (simp add: FreeList_remove_def Some l'_def)
  moreover have "f \<in> set l" using i nth_mem by blast
  ultimately show ?thesis by simp
qed

subsection \<open>Seeding\<close>

text \<open>A seeded block that is a lower half has no room for its buddy in the region.\<close>

definition lower_halves_last :: "nat \<Rightarrow> FreeList list \<Rightarrow> bool" where
  "lower_halves_last m fls \<longleftrightarrow>
     (\<forall>ord<10. \<forall>r\<in>set (fls ! ord). 2 ^ Suc ord dvd unat r \<longrightarrow> m < unat r + 2 ^ Suc ord)"

lemma lower_halves_last_coalesced:
  assumes ok: "fls_ok cap m fls" and last: "lower_halves_last m fls"
  shows "coalesced fls"
  unfolding coalesced_def
proof (intro allI impI ballI notI)
  fix ord r assume o: "ord < 10" and r: "r \<in> set (fls ! ord)" and b: "r XOR 2 ^ ord \<in> set (fls ! ord)"
  define p where "p = (if r < r XOR 2 ^ ord then r else r XOR 2 ^ ord)"
  have o': "ord < 11" "ord < 64" using o by auto
  note al = fls_okD(4) [OF ok o'(1) r] and bd = fls_okD(5) [OF ok o'(1)]
  note m = merge_buddies [OF al o'(2) refl p_def]
  have "p \<in> set (fls ! ord)" using r b by (simp add: p_def)
  then have "m < unat p + 2 ^ Suc ord" using last o m(3) by (auto simp: lower_halves_last_def)
  moreover have "block (Suc ord) p \<subseteq> {..<m}"
    unfolding m(2) [symmetric] using bd [OF r] bd [OF b] by (auto simp: block_def)
  then have "unat p + 2 ^ Suc ord \<le> m" by (auto simp: block_def ivl_subset atLeast0LessThan [symmetric])
  ultimately show False by simp
qed

lemma seed_order_props:
  assumes "pos < managed'"
  shows "2 ^ seed_order managed' pos dvd unat pos"
    "seed_order managed' pos < 10 \<Longrightarrow> 2 ^ Suc (seed_order managed' pos) dvd unat pos \<Longrightarrow>
      unat managed' < unat pos + 2 ^ Suc (seed_order managed' pos)"
proof -
  let ?o = "seed_order managed' pos" and ?rem = "managed' - pos"
  show "2 ^ ?o dvd unat pos"
    by (rule trailing_zeros_dvd) (auto simp: seed_order_def Let_def MAX_ORDER_def)
  assume o: "?o < 10" and d: "2 ^ Suc ?o dvd unat pos"
  have "Suc ?o \<le> trailing_zeros pos" using dvd_trailing_zeros [OF d] o by simp
  then have "?o = 63 - leading_zeros ?rem"
    using o by (auto simp: seed_order_def Let_def MAX_ORDER_def min_def split: if_splits)
  then have "64 - leading_zeros ?rem \<le> Suc ?o" by linarith
  then have "unat ?rem < 2 ^ Suc ?o"
    using less_exp_leading_zeros [of ?rem] power_increasing [of "64 - leading_zeros ?rem" "Suc ?o" "2 :: nat"]
    by simp
  then show "unat managed' < unat pos + 2 ^ Suc ?o"
    using assms by (simp add: unat_sub word_less_nat_alt word_le_nat_alt)
qed

lemma seed_loop_spec:
  assumes "fls_ok cap (unat managed') fls" "covered fls = {..<unat pos}" "pos \<le> managed'"
    "lower_halves_last (unat managed') fls"
  shows "\<exists>res. BuddyAllocator_seed_loop cap managed' pos fls = Some res \<and>
    (\<forall>fls'. res = Inr fls' \<longrightarrow> fls_ok cap (unat managed') fls' \<and> covered fls' = {..<unat managed'} \<and>
      lower_halves_last (unat managed') fls') \<and>
    (\<forall>err. res = Inl err \<longrightarrow> err = FreeListFull \<and> cap < unat managed')"
  using assms
proof (induction cap managed' pos fls rule: BuddyAllocator_seed_loop.induct)
  case (1 cap managed' pos fls)
  show ?case
  proof (cases "pos < managed'")
    case False
    then have "pos = managed'" using "1.prems"(3) by simp
    then show ?thesis using False "1.prems" by (subst BuddyAllocator_seed_loop.simps) simp
  next
    case True
    define ord where "ord = seed_order managed' pos"
    define pos' where "pos' = pos + 2 ^ ord"
    define fls' where "fls' = fls[ord := fls ! ord @ [pos]]"
    note ord = ord_def [symmetric]
    have o: "ord < 11" using seed_order_le [of managed' pos] by (simp add: ord_def)
    show ?thesis
    proof (cases "length (fls ! ord) \<ge> cap")
      case full: True
      have "length (fls ! ord) \<le> unat pos" using list_length_le [OF "1.prems"(1) o] "1.prems"(2) by simp
      then have "cap < unat managed'" using full True by (simp add: word_less_nat_alt)
      then show ?thesis using full True
        by (subst BuddyAllocator_seed_loop.simps) (simp add: Let_def ord)
    next
      case room: False
      have up: "unat pos' = unat pos + 2 ^ ord" using unat_seed_step [OF True] by (simp add: ord_def pos'_def)
      have fit: "unat pos + 2 ^ ord \<le> unat managed'" using seed_order_fits [OF True] by (simp add: ord_def)
      have disj: "block ord pos \<inter> covered fls = {}" unfolding "1.prems"(2) block_def by auto
      have room': "length (fls ! ord) < cap" using room by simp
      note add = add_block [OF "1.prems"(1) o room' seed_order_props(1) [OF True, folded ord_def] fit disj fls'_def]
      have cov: "covered fls' = {..<unat pos'}"
        unfolding add(2) "1.prems"(2) block_def up by auto
      have "lower_halves_last (unat managed') fls'"
        using "1.prems"(4) seed_order_props(2) [OF True] o fls_okD(1) [OF "1.prems"(1) o]
        by (auto simp: lower_halves_last_def fls'_def nth_list_update ord)
      moreover have "pos' \<le> managed'" using fit up by (simp add: word_le_nat_alt)
      ultimately show ?thesis
        using "1.IH" [OF True ord_def room, of "fls ! ord @ [pos]"] room add(1) cov True
        by (subst BuddyAllocator_seed_loop.simps)
          (simp add: Let_def ord FreeList_push_def fls'_def [symmetric] pos'_def [symmetric])
    qed
  qed
qed

lemma empty_lists: "fls_ok cap m (replicate NUM_ORDERS FreeList_new)"
    "covered (replicate NUM_ORDERS FreeList_new) = {}"
    "lower_halves_last m (replicate NUM_ORDERS FreeList_new)"
  by (auto simp: fls_ok_def list_wf_def disjoint_blocks_def covered_def lower_halves_last_def
      NUM_ORDERS_def MAX_ORDER_def FreeList_new_def)

subsection \<open>Splitting\<close>

lemma find_order_spec:
  "ord \<le> find_order fls ord" "ord \<le> k \<Longrightarrow> k < find_order fls ord \<Longrightarrow> fls ! k = []"
  "find_order fls ord < 11 \<Longrightarrow> fls ! find_order fls ord \<noteq> []"
  "ord \<le> 11 \<Longrightarrow> find_order fls ord \<le> 11"
proof (induction fls ord rule: find_order.induct)
  case (1 fls ord)
  note step = find_order.simps [of fls ord]
  { case 1 show ?case using "1.IH"(1) step by (auto simp: NUM_ORDERS_def MAX_ORDER_def) }
  { case 2 then show ?case using "1.IH"(2) step by (cases "k = ord") (auto split: if_splits) }
  { case 3 then show ?case using "1.IH"(3) step by (auto simp: NUM_ORDERS_def MAX_ORDER_def split: if_splits) }
  { case 4 then show ?case using "1.IH"(4) step by (auto simp: NUM_ORDERS_def MAX_ORDER_def) }
qed

lemma xor_twice: "(r XOR x) XOR x = (r :: u64)"
  by (simp add: xor.assoc)

lemma xor_exp_neq: "ord < 64 \<Longrightarrow> r XOR 2 ^ ord \<noteq> (r :: u64)"
  using bit_xor_iff [of r "2 ^ ord" ord] by (auto simp: bit_exp_u64)

lemma coalesced_update:
  assumes "coalesced fls" "ord < length fls"
    and "ord < 10 \<Longrightarrow> \<forall>r\<in>set l. r XOR 2 ^ ord \<notin> set l"
  shows "coalesced (fls[ord := l])"
  using assms by (auto simp: coalesced_def nth_list_update)

lemma split_down_spec:
  assumes "fls_ok cap m fls" "coalesced fls" "ord < 11" "2 ^ ord dvd unat rel" "unat rel + 2 ^ ord \<le> m"
    "block ord rel \<inter> covered fls = {}" "want \<le> ord" "\<forall>k. want \<le> k \<and> k < ord \<longrightarrow> fls ! k = []" "0 < cap"
  shows "\<exists>fls'. split_down cap rel ord want fls = Some fls' \<and> fls_ok cap m fls' \<and> coalesced fls' \<and>
    covered fls' = covered fls \<union> (block ord rel - block want rel)"
  using assms
proof (induction ord arbitrary: fls)
  case (Suc ord)
  show ?case
  proof (cases "want = Suc ord")
    case False
    define b where "b = rel XOR 2 ^ ord"
    define fls1 where "fls1 = fls[ord := fls ! ord @ [b]]"
    have o: "ord < 11" "ord < 64" "want \<le> ord" using Suc.prems(3,7) False by auto
    have d: "2 ^ ord dvd unat rel" using Suc.prems(4) by (rule dvd_trans [rotated]) simp
    then have nb: "\<not> bit rel ord" using bit_aligned [OF d o(2)] Suc.prems(4) by simp
    then have ub: "unat b = unat rel + 2 ^ ord" using unat_xor_exp [OF o(2), of rel] by (simp add: b_def)
    have split: "block (Suc ord) rel = block ord rel \<union> block ord b" "block ord rel \<inter> block ord b = {}"
      by (auto simp: block_def ub)
    have empty: "fls ! ord = []" using Suc.prems(8) o by simp
    have al: "2 ^ ord dvd unat b" using d by (simp add: ub)
    have bd: "unat b + 2 ^ ord \<le> m" using Suc.prems(5) by (simp add: ub)
    have dj: "block ord b \<inter> covered fls = {}" using Suc.prems(6) split by blast
    have room: "length (fls ! ord) < cap" using Suc.prems(9) empty by simp
    note add = add_block [OF Suc.prems(1) o(1) room al bd dj fls1_def]
    have len: "length fls = 11" using Suc.prems(1) by (simp add: fls_ok_def)
    have co: "coalesced fls1" unfolding fls1_def
      using Suc.prems(2) o(1) len xor_exp_neq [OF o(2), of b]
      by (intro coalesced_update) (auto simp: empty)
    have low: "\<forall>k. want \<le> k \<and> k < ord \<longrightarrow> fls1 ! k = []" using Suc.prems(8) by (auto simp: fls1_def)
    have bd': "unat rel + 2 ^ ord \<le> m" using Suc.prems(5) by simp
    have dj': "block ord rel \<inter> covered fls1 = {}" using add(2) split Suc.prems(6) by blast
    from Suc.IH [OF add(1) co o(1) d bd' dj' o(3) low Suc.prems(9)]
    obtain fls' where f: "split_down cap rel ord want fls1 = Some fls'" "fls_ok cap m fls'" "coalesced fls'"
        "covered fls' = covered fls1 \<union> (block ord rel - block want rel)" by blast
    have "block want rel \<subseteq> block ord rel"
      using power_increasing [OF o(3), of "2 :: nat"] by (auto simp: block_def)
    then have "covered fls' = covered fls \<union> (block (Suc ord) rel - block want rel)"
      using f(4) add(2) split by blast
    moreover have "split_down cap rel (Suc ord) want fls = Some fls'"
      using o(3) room f(1) by (simp add: FreeList_push_def fls1_def [symmetric] b_def [symmetric])
    ultimately show ?thesis using f by blast
  qed (use Suc.prems in auto)
qed auto

subsection \<open>Coalescing\<close>

lemma coalesce_spec:
  assumes "fls_ok cap m fls" "coalesced fls" "ord < 11" "2 ^ ord dvd unat rel" "unat rel + 2 ^ ord \<le> m"
    "block ord rel \<inter> covered fls = {}"
  shows "\<exists>rel' ord' fls'. coalesce rel ord fls = (rel', ord', fls') \<and> fls_ok cap m fls' \<and> coalesced fls' \<and>
    ord' < 11 \<and> 2 ^ ord' dvd unat rel' \<and> unat rel' + 2 ^ ord' \<le> m \<and>
    block ord' rel' \<inter> covered fls' = {} \<and> block ord rel \<subseteq> block ord' rel' \<and>
    covered fls' \<union> block ord' rel' = covered fls \<union> block ord rel \<and>
    (ord' < 10 \<longrightarrow> rel' XOR 2 ^ ord' \<notin> set (fls' ! ord'))"
  using assms
proof (induction rel ord fls rule: coalesce.induct)
  case (1 rel ord fls)
  note pr = "1.prems"
  define b where "b = rel XOR 2 ^ ord"
  have b_push: "rel XOR push_bit ord 1 = b" by (simp add: b_def)
  have o: "ord < 64" "ord \<le> 10" using pr(3) by auto
  note rem = FreeList_remove_spec [OF fls_okD(2) [OF pr(1,3)], of b]
  show ?case
  proof (cases "ord < 10 \<and> b \<in> set (fls ! ord)")
    case False
    then have "coalesce rel ord fls = (rel, ord, fls)"
      using rem by (subst coalesce.simps)
        (auto simp: NUM_ORDERS_def MAX_ORDER_def Let_def b_def [symmetric] split: if_splits)
    then show ?thesis using pr False by (auto simp: b_def)
  next
    case True
    then obtain l where l: "FreeList_remove (fls ! ord) b = (True, l)" "distinct l"
        "set l = set (fls ! ord) - {b}" "length l \<le> length (fls ! ord)"
      using rem by auto
    define p where "p = (if rel < b then rel else b)"
    define fls1 where "fls1 = fls[ord := l]"
    note tk = take_block [OF pr(1,3) conjunct2 [OF True] l(2-4) fls1_def]
    note mg = merge_buddies [OF pr(4) o(1) b_def p_def]
    have len: "length fls = 11" using pr(1) by (simp add: fls_ok_def)
    have co: "coalesced fls1"
      unfolding fls1_def using pr(2,3) True l(3) len
      by (intro coalesced_update) (auto simp: coalesced_def)
    have "block (Suc ord) p \<subseteq> {..<m}"
      unfolding mg(2) [symmetric] using pr(5) fls_okD(5) [OF pr(1,3) conjunct2 [OF True]] by (auto simp: block_def)
    then have bd: "unat p + 2 ^ Suc ord \<le> m" by (auto simp: block_def ivl_subset atLeast0LessThan [symmetric])
    have dj: "block (Suc ord) p \<inter> covered fls1 = {}"
      unfolding mg(2) [symmetric] tk(2) using pr(6) by blast
    have step: "coalesce rel ord fls = coalesce p (Suc ord) fls1"
      using True l(1) by (subst coalesce.simps)
        (simp add: NUM_ORDERS_def MAX_ORDER_def Let_def b_def [symmetric] p_def fls1_def)
    have cond: "ord < NUM_ORDERS - 1" using True by (simp add: NUM_ORDERS_def MAX_ORDER_def)
    have "Suc ord < 11" using True by simp
    from "1.IH" [OF cond b_push [symmetric] l(1) [symmetric] refl TrueI, folded p_def fls1_def Suc_eq_plus1,
        OF tk(1) co this mg(3) bd dj]
    obtain rel' ord' fls' where r: "coalesce p (Suc ord) fls1 = (rel', ord', fls')" "fls_ok cap m fls'"
        "coalesced fls'" "ord' < 11" "2 ^ ord' dvd unat rel'" "unat rel' + 2 ^ ord' \<le> m"
        "block ord' rel' \<inter> covered fls' = {}" "block (Suc ord) p \<subseteq> block ord' rel'"
        "covered fls' \<union> block ord' rel' = covered fls1 \<union> block (Suc ord) p"
        "ord' < 10 \<longrightarrow> rel' XOR 2 ^ ord' \<notin> set (fls' ! ord')" by blast
    have "covered fls1 \<union> block (Suc ord) p = covered fls \<union> block ord rel"
      unfolding tk(2) mg(2) [symmetric] using tk(3) by blast
    moreover have "block ord rel \<subseteq> block ord' rel'" using r(8) mg(2) by blast
    ultimately show ?thesis
      unfolding step r(1) using r(2-7,9,10) by (intro exI [of _ rel'] exI [of _ ord'] exI [of _ fls']) simp
  qed
qed

lemma coalesce_insert_spec:
  assumes ok: "fls_ok cap m fls" "coalesced fls" and o: "ord < 11"
    and r: "2 ^ ord dvd unat rel" "unat rel + 2 ^ ord \<le> m" "block ord rel \<inter> covered fls = {}"
  shows "\<exists>res fls'. BuddyAllocator_coalesce_insert cap fls rel ord = Some (res, fls') \<and>
    fls_ok cap m fls' \<and> coalesced fls' \<and>
    (case res of
       Inr u \<Rightarrow> covered fls' = covered fls \<union> block ord rel
     | Inl err \<Rightarrow> err = FreeListFull \<and> covered fls' \<subseteq> covered fls \<and> block ord rel \<inter> covered fls' = {} \<and>
         (\<exists>k<11. length (fls' ! k) = cap))"
proof -
  obtain rel' ord' fls1 where c: "coalesce rel ord fls = (rel', ord', fls1)" "fls_ok cap m fls1"
      "coalesced fls1" "ord' < 11" "2 ^ ord' dvd unat rel'" "unat rel' + 2 ^ ord' \<le> m"
      "block ord' rel' \<inter> covered fls1 = {}" "block ord rel \<subseteq> block ord' rel'"
      "covered fls1 \<union> block ord' rel' = covered fls \<union> block ord rel"
      "ord' < 10 \<longrightarrow> rel' XOR 2 ^ ord' \<notin> set (fls1 ! ord')"
    using coalesce_spec [OF ok o r] by blast
  show ?thesis
  proof (cases "length (fls1 ! ord') \<ge> cap")
    case True
    then have "length (fls1 ! ord') = cap" using fls_okD(3) [OF c(2,4)] by simp
    then show ?thesis using True c by (auto simp: BuddyAllocator_coalesce_insert_def)
  next
    case False
    define fls2 where "fls2 = fls1[ord' := fls1 ! ord' @ [rel']]"
    have room: "length (fls1 ! ord') < cap" using False by simp
    note add = add_block [OF c(2,4) room c(5,6,7) fls2_def]
    have "x XOR 2 ^ ord' \<noteq> rel'" if "x \<in> set (fls1 ! ord')" "ord' < 10" for x
      using that c(10) xor_twice [of x "2 ^ ord'"] by auto
    then have "coalesced fls2"
      unfolding fls2_def using c(2,3,4,10) xor_exp_neq [of ord' rel']
      by (intro coalesced_update) (auto simp: coalesced_def fls_ok_def)
    then show ?thesis
      using room c(1,9) add by (auto simp: BuddyAllocator_coalesce_insert_def FreeList_push_def fls2_def [symmetric])
  qed
qed

subsection \<open>The coalesced decomposition is unique\<close>

lemma aligned_nested:
  fixes x y i :: nat
  assumes "2 ^ a dvd x" "2 ^ b dvd y" "a \<le> b" "x \<le> i" "i < x + 2 ^ a" "y \<le> i" "i < y + 2 ^ b"
  shows "{x..<x + 2 ^ a} \<subseteq> {y..<y + 2 ^ b}"
proof -
  have ab: "(2::nat) ^ a dvd 2 ^ b" using assms(3) by (rule le_imp_power_dvd)
  obtain p where p: "x = 2 ^ a * p" using assms(1) by auto
  obtain q where q: "y = 2 ^ a * q" using assms(2) ab dvd_trans by (metis dvdE)
  obtain c where c: "(2::nat) ^ b = 2 ^ a * c" using ab by auto
  have "2 ^ a * q < 2 ^ a * (p + 1)" using assms(5,6) p q by simp
  then have "q < p + 1" by (subst (asm) nat_mult_less_cancel1) simp
  then have "q \<le> p" by simp
  then have "2 ^ a * q \<le> 2 ^ a * p" by (rule mult_le_mono2)
  moreover have "2 ^ a * p < 2 ^ a * (q + c)" using assms(4,7) p q c by (simp add: distrib_left)
  then have "p < q + c" by (subst (asm) nat_mult_less_cancel1) simp
  then have "p + 1 \<le> q + c" by simp
  then have "2 ^ a * (p + 1) \<le> 2 ^ a * (q + c)" by (rule mult_le_mono2)
  ultimately show ?thesis using p q c by (auto simp: distrib_left)
qed

lemma block_nested:
  assumes "2 ^ a dvd unat r" "2 ^ b dvd unat s" "a \<le> b" "i \<in> block a r" "i \<in> block b s"
  shows "block a r \<subseteq> block b s"
  using aligned_nested [OF assms(1-3), of i] assms(4,5) by (auto simp: block_def)

lemma block_eq_iff: "block a r = block b s \<longleftrightarrow> a = b \<and> r = s"
proof
  assume eq: "block a r = block b s"
  then have "unat r = unat s" by (simp add: block_def atLeastLessThan_eq_iff)
  moreover from eq have "card (block a r) = card (block b s)" by simp
  then have "a = b" by (simp add: block_def)
  ultimately show "a = b \<and> r = s" by (simp add: word_unat_eq_iff)
qed simp

lemma covered_in_one_block:
  assumes ok: "fls_ok cap m fls" "coalesced fls"
  shows "ord \<le> 10 \<Longrightarrow> 2 ^ ord dvd unat r \<Longrightarrow> block ord r \<subseteq> covered fls \<Longrightarrow>
    \<exists>k s. k < 11 \<and> ord \<le> k \<and> s \<in> set (fls ! k) \<and> block ord r \<subseteq> block k s"
proof (induction ord arbitrary: r)
  case 0
  then have "unat r \<in> covered fls" by (auto simp: block_def)
  then obtain k s where "k < 11" "s \<in> set (fls ! k)" "unat r \<in> block k s" by (rule coveredE)
  moreover have "block 0 r = {unat r}" by (auto simp: block_def)
  ultimately show ?case by auto
next
  case (Suc ord)
  have o: "ord < 64" "ord < 10" "ord \<le> 10" using Suc.prems(1) by auto
  define u where "u = r XOR 2 ^ ord"
  have d: "2 ^ ord dvd unat r" using Suc.prems(2) by (rule dvd_trans [rotated]) simp
  have nb: "\<not> bit r ord" using bit_aligned [OF d o(1)] Suc.prems(2) by simp
  then have uu: "unat u = unat r + 2 ^ ord" using unat_xor_exp [OF o(1), of r] by (simp add: u_def)
  have halves: "block (Suc ord) r = block ord r \<union> block ord u" by (auto simp: block_def uu)
  have whole: "block (Suc ord) r \<subseteq> block k s"
    if "k < 11" "s \<in> set (fls ! k)" "Suc ord \<le> k" "i \<in> block (Suc ord) r" "i \<in> block k s" for k s i
    using block_nested [OF Suc.prems(2) fls_okD(4) [OF ok(1) that(1,2)] that(3,4,5)] .
  obtain k s where l: "k < 11" "ord \<le> k" "s \<in> set (fls ! k)" "block ord r \<subseteq> block k s"
    using Suc.IH [OF o(3) d] Suc.prems(3) halves by blast
  have "2 ^ ord dvd unat u" using d by (simp add: uu)
  then obtain j t where v: "j < 11" "ord \<le> j" "t \<in> set (fls ! j)" "block ord u \<subseteq> block j t"
    using Suc.IH [OF o(3)] Suc.prems(3) halves by blast
  have pts: "unat r \<in> block (Suc ord) r" "unat r \<in> block k s" "unat u \<in> block (Suc ord) r" "unat u \<in> block j t"
    using l(4) v(4) by (auto simp: halves)
  show ?case
  proof (cases "Suc ord \<le> k \<or> Suc ord \<le> j")
    case True
    then show ?thesis using whole [OF l(1,3) _ pts(1,2)] whole [OF v(1,3) _ pts(3,4)] l v by blast
  next
    case False
    then have "k = ord" "j = ord" using l(2) v(2) by auto
    then have "s = r" "t = u"
      using l(4) v(4) by (auto simp: block_def word_unat_eq_iff atLeastLessThan_subset_iff)
    then show ?thesis using ok(2) o(2) l(3) v(3) \<open>k = ord\<close> \<open>j = ord\<close> by (auto simp: coalesced_def u_def)
  qed
qed

lemma coalesced_unique:
  assumes f: "fls_ok cap m fls" "coalesced fls" and g: "fls_ok cap' m' gls" "coalesced gls"
    and cov: "covered fls = covered gls" and o: "ord < 11"
  shows "set (fls ! ord) \<subseteq> set (gls ! ord)"
proof
  fix r assume r: "r \<in> set (fls ! ord)"
  have sub: "block ord r \<subseteq> covered fls" using coveredI [OF o r] by blast
  then obtain k s where s: "k < 11" "s \<in> set (gls ! k)" "block ord r \<subseteq> block k s"
    using covered_in_one_block [OF g, of ord r] fls_okD(4) [OF f(1) o r] o cov by auto
  then have "block k s \<subseteq> covered fls" using coveredI [OF s(1,2)] cov by blast
  then obtain j t where t: "j < 11" "t \<in> set (fls ! j)" "block k s \<subseteq> block j t"
    using covered_in_one_block [OF f, of k s] fls_okD(4) [OF g(1) s(1,2)] s(1) by auto
  have "block ord r \<inter> block j t \<noteq> {}" using s(3) t(3) block_nonempty [of r ord] by blast
  then have "(ord, r) = (j, t)"
    using disjoint_blocksD [of fls ord j r t] f(1) o r t(1,2) by (auto simp: fls_ok_def)
  then have "block ord r = block k s" using s(3) t(3) by auto
  then show "r \<in> set (gls ! ord)" using s(2) by (simp add: block_eq_iff)
qed

end
