(* ===== verification/Buddy_Alloc.thy ===== *)
theory Buddy_Alloc
  imports Buddy_Blocks
begin

text \<open>
  The buddy allocator on top of a frame backing. \<open>frame_backing\<close> states what the buddy relies on;
  allocation and release are proved against it, and the bitmap frame allocator is shown to
  provide it.
\<close>

subsection \<open>Frame arithmetic\<close>

lemma PhysFrame_add_spec:
  assumes "PhysFrame_wf f" "unat (PhysFrame_number f) + unat c < 2 ^ 40"
  shows "\<exists>g. PhysFrame_add f c = Some g \<and> PhysFrame_wf g \<and>
    unat (PhysFrame_number g) = unat (PhysFrame_number f) + unat c"
proof -
  let ?a = "PhysAddr_as_u64 (PhysFrame_start_address f)"
  obtain k where k: "unat ?a = 4096 * k" using assms(1) by (auto simp: PhysFrame_wf_def)
  then have kc: "k + unat c < 2 ^ 40" using assms(2) by (simp add: unat_PhysFrame_number)
  then have m: "unat (c * PAGE_SIZE) = unat c * 4096" by (simp add: PAGE_SIZE_def unat_word_ariths)
  have sum: "unat ?a + unat (c * PAGE_SIZE) = 4096 * (k + unat c)" using k m by simp
  then have "unat ?a + unat (c * PAGE_SIZE) < 2 ^ LENGTH(64)" using kc by simp
  then obtain s where s: "checked_add ?a (c * PAGE_SIZE) = Some s" "unat s = 4096 * (k + unat c)"
    by (rule checked_add_fits) (simp only: sum)
  have al: "unat (PhysAddr_as_u64 (PhysAddr_align_down (PhysAddr s) PAGE_SIZE)) = 4096 * (k + unat c)"
    using phys.unat_align_down [of 12 "PhysAddr s"] s(2) by (simp add: PAGE_SIZE_def)
  have "PhysFrame_add f c = Some (PhysFrame_containing_addr (PhysAddr s))"
    using s(1) by (simp add: PhysFrame_add_def PhysAddr_add_def PhysAddr_new_def)
  then show ?thesis
    using al k by (simp add: PhysFrame_containing_addr_def PhysFrame_wf_def unat_PhysFrame_number)
qed

lemma ivl_count: "0 < n \<Longrightarrow> {x..x + (n - 1)} = {x..<x + n :: nat}"
  by auto

lemma unat_add_of_nat:
  "unat (a :: u64) + i < 2 ^ 64 \<Longrightarrow> unat (a + of_nat i) = unat a + i"
  by (simp add: unat_plus_if' unsigned_of_nat take_bit_nat_eq_self)

subsection \<open>What the buddy relies on\<close>

locale frame_backing =
  fixes ops :: "'b FrameBacking"
    and wfb :: "'b \<Rightarrow> bool"
    and free rel :: "'b \<Rightarrow> nat set"
  assumes free_ok: "wfb b \<Longrightarrow> is_frame_free ops b i = Some (unat i \<in> free b)"
    and alloc_ok: "wfb b \<Longrightarrow> unat i \<in> free b \<Longrightarrow>
      \<exists>b'. mark_frame_allocated ops b i = Some b' \<and> wfb b' \<and> free b' = free b - {unat i} \<and> rel b' = rel b"
    and release_ok: "wfb b \<Longrightarrow> unat i \<in> rel b \<Longrightarrow> unat i \<notin> free b \<Longrightarrow>
      \<exists>b'. mark_frame_free ops b i = Some b' \<and> wfb b' \<and> free b' = insert (unat i) (free b) \<and> rel b' = rel b"
begin

lemma claim_run:
  assumes "wfb b" "unat a + n < 2 ^ 64" "{unat a..<unat a + n} \<subseteq> free b"
  shows "\<exists>b'. for_each (\<lambda>b i. mark_frame_allocated ops b (a + of_nat i)) b [0..<n] = Some b' \<and>
    wfb b' \<and> free b' = free b - {unat a..<unat a + n} \<and> rel b' = rel b"
  using assms(2,3)
proof (induction n)
  case (Suc n)
  have "{unat a..<unat a + n} \<subseteq> {unat a..<unat a + Suc n}" by auto
  then have pre: "unat a + n < 2 ^ 64" "{unat a..<unat a + n} \<subseteq> free b" using Suc.prems by auto
  obtain b1 where b1: "for_each (\<lambda>b i. mark_frame_allocated ops b (a + of_nat i)) b [0..<n] = Some b1"
      "wfb b1" "free b1 = free b - {unat a..<unat a + n}" "rel b1 = rel b"
    using Suc.IH [OF pre] by blast
  have u: "unat (a + of_nat n) = unat a + n" using Suc.prems(1) by (intro unat_add_of_nat) simp
  then have "unat (a + of_nat n) \<in> free b1" using Suc.prems(2) b1(3) by auto
  from alloc_ok [OF b1(2) this] obtain b2 where "mark_frame_allocated ops b1 (a + of_nat n) = Some b2"
      "wfb b2" "free b2 = free b1 - {unat a + n}" "rel b2 = rel b1" using u by auto
  then show ?case using b1 by (auto simp: for_each_append)
qed (use assms(1) in simp)

lemma release_run:
  assumes "wfb b" "unat a + n < 2 ^ 64" "{unat a..<unat a + n} \<subseteq> rel b" "{unat a..<unat a + n} \<inter> free b = {}"
  shows "\<exists>b'. for_each (\<lambda>b i. mark_frame_free ops b (a + of_nat i)) b [0..<n] = Some b' \<and>
    wfb b' \<and> free b' = free b \<union> {unat a..<unat a + n} \<and> rel b' = rel b"
  using assms(2,3,4)
proof (induction n)
  case (Suc n)
  have "{unat a..<unat a + n} \<subseteq> {unat a..<unat a + Suc n}" by auto
  then have sub: "{unat a..<unat a + n} \<subseteq> rel b" "{unat a..<unat a + n} \<inter> free b = {}"
    using Suc.prems(2,3) by blast+
  have pre: "unat a + n < 2 ^ 64" using Suc.prems(1) by simp
  obtain b1 where b1: "for_each (\<lambda>b i. mark_frame_free ops b (a + of_nat i)) b [0..<n] = Some b1"
      "wfb b1" "free b1 = free b \<union> {unat a..<unat a + n}" "rel b1 = rel b"
    using Suc.IH [OF pre sub] by blast
  have u: "unat (a + of_nat n) = unat a + n" using Suc.prems(1) by (intro unat_add_of_nat) simp
  have "unat a + n \<in> {unat a..<unat a + Suc n}" by simp
  then have "unat a + n \<in> rel b" "unat a + n \<notin> free b" using Suc.prems(2,3) by blast+
  then have "unat (a + of_nat n) \<in> rel b1" "unat (a + of_nat n) \<notin> free b1" using b1(3,4) u by auto
  from release_ok [OF b1(2) this] obtain b2 where "mark_frame_free ops b1 (a + of_nat n) = Some b2"
      "wfb b2" "free b2 = insert (unat a + n) (free b1)" "rel b2 = rel b1" using u by auto
  then show ?case using b1 by (auto simp: for_each_append)
qed (use assms(1) in simp)

end

text \<open>
  The invariant of the buddy allocator relative to its backing: the free lists are a coalesced set
  of disjoint aligned blocks, and a frame of the region is in a free block exactly when the
  backing has it free.
\<close>

definition buddy_inv ::
    "('b \<Rightarrow> bool) \<Rightarrow> ('b \<Rightarrow> nat set) \<Rightarrow> ('b \<Rightarrow> nat set) \<Rightarrow> nat \<Rightarrow> 'b BuddyAllocator \<Rightarrow> bool" where
  "buddy_inv wfb free rel cap a \<longleftrightarrow>
     fls_ok cap (unat (managed a)) (free_lists a) \<and> coalesced (free_lists a) \<and> wfb (backing a) \<and>
     PhysFrame_wf (base_frame a) \<and> base_idx a = PhysFrame_number (base_frame a) \<and>
     unat (base_idx a) + unat (managed a) < 2 ^ 40 \<and>
     {unat (base_idx a)..<unat (base_idx a) + unat (managed a)} \<subseteq> rel (backing a) \<and>
     (\<forall>i<unat (managed a). i \<in> covered (free_lists a) \<longleftrightarrow> unat (base_idx a) + i \<in> free (backing a))"

text \<open>The absolute frames of a relative block, and what an operation leaves unchanged.\<close>

definition abs_block :: "'b BuddyAllocator \<Rightarrow> nat \<Rightarrow> u64 \<Rightarrow> nat set" where
  "abs_block a ord r = {unat (base_idx a) + unat r..<unat (base_idx a) + unat r + 2 ^ ord}"

definition range_set :: "PhysFrameRange \<Rightarrow> nat set" where
  "range_set fr = {unat (PhysFrame_number (PhysFrameRange_start fr))..unat (PhysFrame_number (PhysFrameRange_end fr))}"

lemma buddy_invD:
  assumes "buddy_inv wfb free rel cap a"
  shows "fls_ok cap (unat (managed a)) (free_lists a)" "coalesced (free_lists a)" "wfb (backing a)"
    "PhysFrame_wf (base_frame a)" "base_idx a = PhysFrame_number (base_frame a)"
    "unat (base_idx a) + unat (managed a) < 2 ^ 40"
    "{unat (base_idx a)..<unat (base_idx a) + unat (managed a)} \<subseteq> rel (backing a)"
    "i < unat (managed a) \<Longrightarrow> i \<in> covered (free_lists a) \<longleftrightarrow> unat (base_idx a) + i \<in> free (backing a)"
  using assms by (auto simp: buddy_inv_def)

lemma abs_block_subset:
  assumes "\<forall>i<m. i \<in> cov \<longleftrightarrow> unat (base_idx a) + i \<in> F" "block ord r \<subseteq> {..<m}"
  shows "abs_block a ord r \<subseteq> F \<longleftrightarrow> block ord r \<subseteq> cov" "abs_block a ord r \<inter> F = {} \<longleftrightarrow> block ord r \<inter> cov = {}"
proof -
  have shift: "abs_block a ord r = (\<lambda>i. unat (base_idx a) + i) ` block ord r"
    by (simp add: abs_block_def block_def ac_simps)
  show "abs_block a ord r \<subseteq> F \<longleftrightarrow> block ord r \<subseteq> cov" "abs_block a ord r \<inter> F = {} \<longleftrightarrow> block ord r \<inter> cov = {}"
    unfolding shift using assms by blast+
qed

context frame_backing
begin

text \<open>Both lists and backing change by the same block.\<close>

lemma buddy_inv_update:
  assumes wfb: "buddy_inv wfb free rel cap a"
    and f: "fls_ok cap (unat (managed a)) fls" "coalesced fls"
    and b: "wfb b" "rel b = rel (backing a)"
    and eq: "\<forall>i<unat (managed a). i \<in> covered fls \<longleftrightarrow> unat (base_idx a) + i \<in> free b"
  shows "buddy_inv wfb free rel cap (a\<lparr>backing := b, free_lists := fls\<rparr>)"
  using assms by (auto simp: buddy_inv_def)

text \<open>Claiming a covered block in the backing and building the returned range.\<close>

lemma claim_block:
  assumes inv: "buddy_inv wfb free rel cap a" and o: "ord \<le> 10"
    and r: "block ord r \<subseteq> covered (free_lists a)"
    and f: "fls_ok cap (unat (managed a)) fls" "coalesced fls" "covered fls = covered (free_lists a) - block ord r"
  obtains b g e where
    "for_each (\<lambda>b i. mark_frame_allocated ops b (base_idx a + r + of_nat i)) (backing a) [0..<2 ^ ord] = Some b"
    "PhysFrame_add (base_frame a) r = Some g"
    "PhysFrameRange_spanning g (2 ^ ord) = Some (Some \<lparr>PhysFrameRange_start = g, PhysFrameRange_end = e\<rparr>)"
    "PhysFrame_wf g" "PhysFrame_wf e"
    "range_set \<lparr>PhysFrameRange_start = g, PhysFrameRange_end = e\<rparr> = abs_block a ord r"
    "free b = free (backing a) - abs_block a ord r"
    "buddy_inv wfb free rel cap (a\<lparr>backing := b, free_lists := fls\<rparr>)"
proof -
  note i = buddy_invD [OF inv]
  let ?m = "unat (managed a)" and ?base = "unat (base_idx a)"
  have bd: "block ord r \<subseteq> {..<?m}" using covered_bound [OF i(1)] r by blast
  then have m: "unat r + 2 ^ ord \<le> ?m" by (auto simp: block_def ivl_subset atLeast0LessThan [symmetric])
  have ur: "unat (base_idx a + r) = ?base + unat r" using m i(6) by (simp add: unat_plus_if')
  have ab: "{unat (base_idx a + r)..<unat (base_idx a + r) + 2 ^ ord} = abs_block a ord r"
    by (simp add: abs_block_def ur)
  have eq: "\<forall>i<?m. i \<in> covered (free_lists a) \<longleftrightarrow> ?base + i \<in> free (backing a)" using i(8) by blast
  have sub: "abs_block a ord r \<subseteq> free (backing a)" using abs_block_subset(1) [OF eq bd] r by simp
  obtain b where b: "for_each (\<lambda>b i. mark_frame_allocated ops b (base_idx a + r + of_nat i)) (backing a) [0..<2 ^ ord] = Some b"
      "wfb b" "free b = free (backing a) - abs_block a ord r" "rel b = rel (backing a)"
    using claim_run [OF i(3), of "base_idx a + r" "2 ^ ord", unfolded ab, OF _ sub] m i(6) ur by auto
  have "?base + unat r < 2 ^ 40" using m i(6) by linarith
  then obtain g where g: "PhysFrame_add (base_frame a) r = Some g" "PhysFrame_wf g"
      "unat (PhysFrame_number g) = ?base + unat r"
    using PhysFrame_add_spec [OF i(4), of r] i(5) by auto
  have us: "unat (2 ^ ord - 1 :: u64) = 2 ^ ord - 1" "(2 ^ ord :: u64) \<noteq> 0"
    using o unat_exp_minus_1 [of ord] by (auto simp: word_unat_eq_iff unat_exp)
  then have lt: "unat (PhysFrame_number g) + unat (2 ^ ord - 1 :: u64) < 2 ^ 40" using g(3) m i(6) by simp
  obtain e where e: "PhysFrame_add g (2 ^ ord - 1) = Some e" "PhysFrame_wf e"
      "unat (PhysFrame_number e) = ?base + unat r + (2 ^ ord - 1)"
    using PhysFrame_add_spec [OF g(2) lt] unfolding g(3) us(1) by blast
  have rs: "range_set \<lparr>PhysFrameRange_start = g, PhysFrameRange_end = e\<rparr> = abs_block a ord r"
    by (simp only: range_set_def PhysFrameRange.simps g(3) e(3) abs_block_def)
      (rule ivl_count, simp)
  have "j \<in> covered fls \<longleftrightarrow> ?base + j \<in> free b" if "j < ?m" for j
    using i(8) [OF that] f(3) b(3) by (auto simp: abs_block_def block_def)
  then have "buddy_inv wfb free rel cap (a\<lparr>backing := b, free_lists := fls\<rparr>)"
    using buddy_inv_update [OF inv f(1,2) b(2,4)] by blast
  then show thesis
    using that [OF b(1) g(1) _ g(2) e(2) rs b(3)] e(1) us(2) by (simp add: PhysFrameRange_spanning_def)
qed

lemma alloc_pages_spec:
  assumes wfb: "buddy_inv wfb free rel cap a"
  shows "\<exists>res a'. BuddyAllocator_alloc_pages ops cap a order = Some (res, a') \<and> buddy_inv wfb free rel cap a' \<and>
    base_frame a' = base_frame a \<and> managed a' = managed a \<and>
    (case res of
       None \<Rightarrow> a' = a \<and> (10 < order \<or>
         (\<nexists>r. 2 ^ order dvd unat r \<and> block order r \<subseteq> covered (free_lists a)))
     | Some fr \<Rightarrow> order \<le> 10 \<and> (\<exists>r. 2 ^ order dvd unat r \<and> block order r \<subseteq> covered (free_lists a) \<and>
         range_set fr = abs_block a order r \<and>
         PhysFrame_wf (PhysFrameRange_start fr) \<and> PhysFrame_wf (PhysFrameRange_end fr) \<and>
         covered (free_lists a') = covered (free_lists a) - block order r \<and>
         free (backing a') = free (backing a) - range_set fr))"
proof -
  note i = buddy_invD [OF wfb]
  let ?fls = "free_lists a" and ?m = "unat (managed a)" and ?base = "unat (base_idx a)"
  define ord where "ord = find_order ?fls order"
  show ?thesis
  proof (cases "order \<le> 10 \<and> ord < 11")
    case False
    have "\<nexists>r. 2 ^ order dvd unat r \<and> block order r \<subseteq> covered ?fls" if o10: "order \<le> 10"
    proof
      assume "\<exists>r. 2 ^ order dvd unat r \<and> block order r \<subseteq> covered ?fls"
      then obtain k s where "k < 11" "order \<le> k" "s \<in> set (?fls ! k)"
        using covered_in_one_block [OF i(1,2) o10] by blast
      then show False using find_order_spec(2) [of order k ?fls] False o10 by (auto simp: ord_def)
    qed
    moreover have "ord = 11" if "order \<le> 10"
      using False that find_order_spec(4) [of order ?fls] by (simp add: ord_def)
    ultimately show ?thesis
      using wfb by (auto simp: BuddyAllocator_alloc_pages_def MAX_ORDER_def NUM_ORDERS_def ord_def [symmetric] Let_def)
  next
    case True
    then have o: "order \<le> 10" "ord < 11" "order \<le> ord" using find_order_spec(1) [of order ?fls] by (auto simp: ord_def)
    define l where "l = ?fls ! ord"
    have ne: "l \<noteq> []" using find_order_spec(3) [of ?fls order] o by (simp add: ord_def l_def)
    define r where "r = last l"
    define fls1 where "fls1 = ?fls[ord := butlast l]"
    have dl: "distinct l" using fls_okD(2) [OF i(1) o(2)] by (simp add: l_def)
    have rl: "r \<in> set (?fls ! ord)" using ne by (simp add: r_def l_def)
    have bl: "distinct (butlast l)" "set (butlast l) = set (?fls ! ord) - {r}" "length (butlast l) \<le> length (?fls ! ord)"
      using butlast_distinct [OF dl ne] by (simp_all add: r_def l_def)
    note tk = take_block [OF i(1) o(2) rl bl fls1_def]
    have al: "2 ^ ord dvd unat r" "unat r + 2 ^ ord \<le> ?m" using fls_okD(4,5) [OF i(1) o(2) rl] by auto
    have co: "coalesced fls1"
      unfolding fls1_def using i(1,2) o(2) bl(2) by (intro coalesced_update) (auto simp: coalesced_def fls_ok_def)
    have low: "\<forall>k. order \<le> k \<and> k < ord \<longrightarrow> fls1 ! k = []"
      using find_order_spec(2) [of order _ ?fls] by (auto simp: fls1_def ord_def)
    have "0 < cap" using fls_okD(3) [OF i(1) o(2)] ne by (cases l) (auto simp: l_def)
    moreover have "block ord r \<inter> covered fls1 = {}" using tk(2) by blast
    ultimately obtain fls2 where f2: "split_down cap r ord order fls1 = Some fls2" "fls_ok cap ?m fls2"
        "coalesced fls2" "covered fls2 = covered fls1 \<union> (block ord r - block order r)"
      using split_down_spec [OF tk(1) co o(2) al _ o(3) low] by blast
    have sub: "block order r \<subseteq> block ord r" using power_increasing [OF o(3), of "2 :: nat"] by (auto simp: block_def)
    then have c2: "covered fls2 = covered ?fls - block order r" using f2(4) tk(2,3) by blast
    have cb: "block order r \<subseteq> covered ?fls" using sub tk(3) by blast
    have d: "2 ^ order dvd unat r" using al(1) le_imp_power_dvd [OF o(3)] dvd_trans by blast
    have sz: "unat (2 ^ order :: u64) = 2 ^ order" using o(1) by (simp add: unat_exp)
    have pop: "FreeList_pop l = (Some r, butlast l)" using ne by (simp add: FreeList_pop_def r_def)
    show ?thesis
    proof (rule claim_block [OF wfb o(1) cb f2(2,3) c2])
      fix b g e
      assume h: "for_each (\<lambda>b i. mark_frame_allocated ops b (base_idx a + r + of_nat i)) (backing a) [0..<2 ^ order] = Some b"
        "PhysFrame_add (base_frame a) r = Some g"
        "PhysFrameRange_spanning g (2 ^ order) = Some (Some \<lparr>PhysFrameRange_start = g, PhysFrameRange_end = e\<rparr>)"
        "PhysFrame_wf g" "PhysFrame_wf e"
        "range_set \<lparr>PhysFrameRange_start = g, PhysFrameRange_end = e\<rparr> = abs_block a order r"
        "free b = free (backing a) - abs_block a order r"
        "buddy_inv wfb free rel cap (a\<lparr>backing := b, free_lists := fls2\<rparr>)"
      have "BuddyAllocator_alloc_pages ops cap a order =
          Some (Some \<lparr>PhysFrameRange_start = g, PhysFrameRange_end = e\<rparr>, a\<lparr>backing := b, free_lists := fls2\<rparr>)"
        using o pop h(1-3) f2(1)
        by (simp add: BuddyAllocator_alloc_pages_def MAX_ORDER_def NUM_ORDERS_def ord_def [symmetric] Let_def
            l_def [symmetric] fls1_def [symmetric] sz)
      then show ?thesis using h(4-8) o(1) d cb c2 by auto
    qed
  qed
qed

end

subsection \<open>Release\<close>

text \<open>The ranges \<open>free_pages\<close> accepts: an aligned block of the region, all of it allocated.\<close>

definition rel_of :: "'b BuddyAllocator \<Rightarrow> PhysFrameRange \<Rightarrow> u64" where
  "rel_of a fr = PhysFrame_diff (PhysFrameRange_start fr) (base_frame a)"

definition releasable_block :: "'b BuddyAllocator \<Rightarrow> PhysFrameRange \<Rightarrow> nat \<Rightarrow> bool" where
  "releasable_block a fr ord \<longleftrightarrow> ord \<le> 10 \<and> PhysFrameRange_len fr = 2 ^ ord \<and>
     2 ^ ord dvd unat (rel_of a fr) \<and> unat (rel_of a fr) + 2 ^ ord \<le> unat (managed a) \<and>
     block ord (rel_of a fr) \<inter> covered (free_lists a) = {}"

lemma is_multiple_of_exp:
  "ord < 64 \<Longrightarrow> is_multiple_of (r :: u64) (2 ^ ord) \<longleftrightarrow> 2 ^ ord dvd unat r"
  by (simp add: is_multiple_of_def word_unat_eq_iff unat_mod unat_exp dvd_eq_mod_eq_0)

lemma in_region_iff:
  "\<not> (case checked_add r c of None \<Rightarrow> True | Some e \<Rightarrow> e > (M :: u64)) \<longleftrightarrow> unat r + unat c \<le> unat M"
proof (cases "checked_add r c")
  case None
  have "2 ^ 64 \<le> unat r + unat c" using None by (simp add: checked_add_eq_None)
  then show ?thesis using unat_less_exp [of M] by (simp add: None)
next
  case (Some e)
  then show ?thesis using unat_checked_add [OF Some] by (simp add: word_less_nat_alt not_less)
qed

context frame_backing
begin

lemma double_free_scan:
  assumes "wfb b" "unat a + n < 2 ^ 64"
  shows "for_first (\<lambda>i. do { fre \<leftarrow> is_frame_free ops b (a + of_nat i);
      Some (if fre then Some BlockDoubleFree else None) }) [0..<n] =
    Some (if {unat a..<unat a + n} \<inter> free b = {} then None else Some BlockDoubleFree)"
proof -
  have "for_first (\<lambda>i. do { fre \<leftarrow> is_frame_free ops b (a + of_nat i);
      Some (if fre then Some BlockDoubleFree else None) }) [0..<n] =
    Some (find_map (\<lambda>i. if unat a + i \<in> free b then Some BlockDoubleFree else None) [0..<n])"
    by (rule for_first_find_map) (use assms in \<open>simp add: free_ok unat_add_of_nat\<close>)
  moreover have "find_map (\<lambda>i. if unat a + i \<in> free b then Some BlockDoubleFree else None) [0..<n] =
      (if {unat a..<unat a + n} \<inter> free b = {} then None else Some BlockDoubleFree)"
  proof (cases "find_map (\<lambda>i. if unat a + i \<in> free b then Some BlockDoubleFree else None) [0..<n]")
    case None
    then have "\<forall>i<n. unat a + i \<notin> free b" by (auto simp: find_map_eq_None split: if_splits)
    then have "j \<notin> free b" if "unat a \<le> j" "j < unat a + n" for j
      using that by (metis add_less_cancel_left le_add_diff_inverse)
    then show ?thesis using None by auto
  next
    case (Some err)
    then obtain i where i: "i < n" "unat a + i \<in> free b" "err = BlockDoubleFree"
      using find_map_eq_SomeD [OF Some] by (auto split: if_splits)
    have "unat a + i \<in> {unat a..<unat a + n}" using i(1) by simp
    then have "{unat a..<unat a + n} \<inter> free b \<noteq> {}" using i(2) by blast
    then show ?thesis using Some i(3) by simp
  qed
  ultimately show ?thesis by simp
qed

lemma free_pages_refused:
  assumes inv: "buddy_inv wfb free rel cap a" and no: "\<nexists>ord. releasable_block a fr ord"
  shows "\<exists>err. err \<noteq> FreeListFull \<and> BuddyAllocator_free_pages ops cap a fr = Some (Inl err, a)"
proof -
  note i = buddy_invD [OF inv]
  define r c where "r = rel_of a fr" and "c = PhysFrameRange_len fr"
  have def: "PhysFrame_diff (PhysFrameRange_start fr) (base_frame a) = r" by (simp add: r_def rel_of_def)
  note unf = BuddyAllocator_free_pages_def [of ops cap a fr, unfolded def, folded c_def]
  show ?thesis
  proof (cases "unat r + unat c \<le> unat (managed a) \<and> is_power_of_two c \<and> trailing_zeros c \<le> 10
      \<and> is_multiple_of r c")
    case False
    then show ?thesis
      using in_region_iff [where r = r and c = c and M = "managed a"] unfolding unf by (auto simp: Let_def MAX_ORDER_def)
  next
    case True
    then obtain k where k: "k < 64" "c = 2 ^ k" by (auto simp: is_power_of_two_iff)
    have tz: "trailing_zeros c = k" using k trailing_zeros_exp [of k, where ?'a = 64] by simp
    have uc: "unat c = 2 ^ k" using k by (simp add: unat_exp)
    have al: "2 ^ k dvd unat r" using True k is_multiple_of_exp by simp
    have bd: "unat r + 2 ^ k \<le> unat (managed a)" using True uc by simp
    have ur: "unat (base_idx a + r) = unat (base_idx a) + unat r"
      using bd i(6) by (simp add: unat_plus_if')
    have hit: "block k r \<inter> covered (free_lists a) \<noteq> {}"
      using no True tz k al bd by (auto simp: releasable_block_def r_def c_def)
    have eq: "\<forall>i<unat (managed a). i \<in> covered (free_lists a) \<longleftrightarrow> unat (base_idx a) + i \<in> free (backing a)"
      using i(8) by blast
    have "block k r \<subseteq> {..<unat (managed a)}" using bd by (auto simp: block_def)
    then have "abs_block a k r \<inter> free (backing a) \<noteq> {}" using abs_block_subset(2) [OF eq] hit by blast
    then have scan: "for_first (\<lambda>i. do { fre \<leftarrow> is_frame_free ops (backing a) (base_idx a + r + of_nat i);
        Some (if fre then Some BlockDoubleFree else None) }) [0..<2 ^ k] = Some (Some BlockDoubleFree)"
      using double_free_scan [OF i(3), of "base_idx a + r" "2 ^ k"] ur bd i(6) by (simp add: abs_block_def)
    show ?thesis
      using True in_region_iff [where r = r and c = c and M = "managed a"] tz uc scan unfolding unf
      by (auto simp: Let_def MAX_ORDER_def)
  qed
qed

lemma free_pages_accepted:
  assumes inv: "buddy_inv wfb free rel cap a" and rb: "releasable_block a fr ord"
  shows "\<exists>res a'. BuddyAllocator_free_pages ops cap a fr = Some (res, a') \<and>
    base_frame a' = base_frame a \<and> managed a' = managed a \<and>
    free (backing a') = free (backing a) \<union> abs_block a ord (rel_of a fr) \<and>
    BuddyAllocator_coalesce_insert cap (free_lists a) (rel_of a fr) ord = Some (res, free_lists a') \<and>
    (case res of
       Inr u \<Rightarrow> buddy_inv wfb free rel cap a' \<and>
         covered (free_lists a') = covered (free_lists a) \<union> block ord (rel_of a fr)
     | Inl err \<Rightarrow> err = FreeListFull \<and> block ord (rel_of a fr) \<inter> covered (free_lists a') = {} \<and>
         (\<exists>k<11. length (free_lists a' ! k) = cap))"
proof -
  note i = buddy_invD [OF inv]
  define r c where "r = rel_of a fr" and "c = PhysFrameRange_len fr"
  have def: "PhysFrame_diff (PhysFrameRange_start fr) (base_frame a) = r" by (simp add: r_def rel_of_def)
  note unf = BuddyAllocator_free_pages_def [of ops cap a fr, unfolded def, folded c_def]
  let ?m = "unat (managed a)" and ?base = "unat (base_idx a)"
  have v: "ord \<le> 10" "c = 2 ^ ord" "2 ^ ord dvd unat r" "unat r + 2 ^ ord \<le> ?m"
      "block ord r \<inter> covered (free_lists a) = {}"
    using rb by (auto simp: releasable_block_def r_def c_def)
  have pw: "is_power_of_two c" "trailing_zeros c = ord" "unat c = 2 ^ ord" "is_multiple_of r c"
    using v(1-3) trailing_zeros_exp [of ord, where ?'a = 64] is_multiple_of_exp [of ord r]
    by (auto simp: is_power_of_two_iff unat_exp intro!: exI [of _ ord])
  have ur: "unat (base_idx a + r) = ?base + unat r" using v(4) i(6) by (simp add: unat_plus_if')
  have ab: "{unat (base_idx a + r)..<unat (base_idx a + r) + 2 ^ ord} = abs_block a ord r"
    by (simp add: abs_block_def ur)
  have eq: "\<forall>i<?m. i \<in> covered (free_lists a) \<longleftrightarrow> ?base + i \<in> free (backing a)" using i(8) by blast
  have bm: "block ord r \<subseteq> {..<?m}" using v(4) by (auto simp: block_def)
  have nf: "abs_block a ord r \<inter> free (backing a) = {}" using abs_block_subset(2) [OF eq bm] v(5) by simp
  have lt: "unat (base_idx a + r) + 2 ^ ord < 2 ^ 64" using ur v(4) i(6) by simp
  have sub: "abs_block a ord r \<subseteq> rel (backing a)" using i(7) v(4) by (auto simp: abs_block_def)
  obtain b where b: "for_each (\<lambda>b i. mark_frame_free ops b (base_idx a + r + of_nat i)) (backing a) [0..<2 ^ ord] = Some b"
      "wfb b" "free b = free (backing a) \<union> abs_block a ord r" "rel b = rel (backing a)"
    using release_run [OF i(3) lt] sub nf unfolding ab by blast
  obtain res fls where f: "BuddyAllocator_coalesce_insert cap (free_lists a) r ord = Some (res, fls)"
      "fls_ok cap ?m fls" "coalesced fls"
      "case res of Inr u \<Rightarrow> covered fls = covered (free_lists a) \<union> block ord r
        | Inl err \<Rightarrow> err = FreeListFull \<and> covered fls \<subseteq> covered (free_lists a) \<and> block ord r \<inter> covered fls = {} \<and>
            (\<exists>k<11. length (fls ! k) = cap)"
    using coalesce_insert_spec [OF i(1,2) _ v(3-5)] v(1) by auto
  have run: "BuddyAllocator_free_pages ops cap a fr = Some (res, a\<lparr>backing := b, free_lists := fls\<rparr>)"
    using pw v(1,4) in_region_iff [where r = r and c = c and M = "managed a"]
      double_free_scan [OF i(3) lt] nf b(1) f(1) unfolding unf ab by (simp add: Let_def MAX_ORDER_def)
  have "buddy_inv wfb free rel cap (a\<lparr>backing := b, free_lists := fls\<rparr>)"
    if "covered fls = covered (free_lists a) \<union> block ord r"
    using buddy_inv_update [OF inv f(2,3) b(2,4)] eq b(3) by (auto simp: that abs_block_def block_def)
  then show ?thesis using run f(1,4) b(3) by (auto simp: r_def [symmetric] split: sum.splits)
qed

lemma new_spec:
  assumes "wfb b" "PhysFrame_wf base" "unat (PhysFrame_number base) + unat m < 2 ^ 40"
    "{unat (PhysFrame_number base)..<unat (PhysFrame_number base) + unat m} \<subseteq> rel b \<inter> free b"
  shows "\<exists>res. BuddyAllocator_new cap b base m = Some res \<and>
    (case res of
       Inr a \<Rightarrow> m \<noteq> 0 \<and> backing a = b \<and> base_frame a = base \<and> managed a = m \<and>
         buddy_inv wfb free rel cap a \<and> covered (free_lists a) = {..<unat m}
     | Inl err \<Rightarrow> m = 0 \<and> err = OutOfRegion \<or> err = FreeListFull \<and> cap < unat m)"
proof (cases "m = 0")
  case False
  obtain res where r: "BuddyAllocator_seed_loop cap m 0 (replicate NUM_ORDERS FreeList_new) = Some res"
      "\<forall>fls. res = Inr fls \<longrightarrow> fls_ok cap (unat m) fls \<and> covered fls = {..<unat m} \<and>
        lower_halves_last (unat m) fls" "\<forall>err. res = Inl err \<longrightarrow> err = FreeListFull \<and> cap < unat m"
    using seed_loop_spec [where cap = cap and managed' = m and pos = 0, OF empty_lists(1) _ _ empty_lists(3)]
      empty_lists(2) by auto
  show ?thesis
  proof (cases res)
    case (Inr fls)
    then have "fls_ok cap (unat m) fls" "covered fls = {..<unat m}" "coalesced fls"
      using r(2) lower_halves_last_coalesced by blast+
    then show ?thesis using False r(1) Inr assms by (auto simp: BuddyAllocator_new_def buddy_inv_def)
  qed (use False r(1,3) in \<open>simp add: BuddyAllocator_new_def\<close>)
qed (simp add: BuddyAllocator_new_def)

end

subsection \<open>The bitmap frame allocator is a frame backing\<close>

definition bitmap_backing :: "BitmapFrameAllocator FrameBacking" where
  "bitmap_backing = \<lparr>is_frame_free = BitmapFrameAllocator_is_frame_free,
     mark_frame_allocated = BitmapFrameAllocator_mark_frame_allocated,
     mark_frame_free = BitmapFrameAllocator_mark_frame_free\<rparr>"

lemma bitmap_release_ok:
  assumes inv: "allocator_inv a" and i: "unat i \<in> releasable_set a" "unat i \<notin> free_set a"
  shows "\<exists>b. BitmapFrameAllocator_mark_frame_free a i = Some b \<and> allocator_inv b \<and>
    free_set b = insert (unat i) (free_set a) \<and> releasable_set b = releasable_set a"
proof -
  have lt: "unat i < Bitmap_len (bitmap a)" and r: "BitmapFrameAllocator_is_releasable a i"
    using i(1) by (auto simp: releasable_set_def)
  then have get: "Bitmap_get (bitmap a) (unat i) = Some True"
    using Bitmap_get_eq [OF inv_wf [OF inv] lt] i(2) by (simp add: free_set_def)
  obtain bm where bm: "Bitmap_clear (bitmap a) (unat i) = Some bm" "Bitmap_wf bm"
      "Bitmap_len bm = Bitmap_len (bitmap a)" "Bitmap_bits bm = Bitmap_bits (bitmap a) - {unat i}"
    using bm.clear_ok [OF inv_wf [OF inv] lt] by auto
  have "card (free_set a) \<le> 2 ^ 52"
    using inv card_mono [of "{..<Bitmap_len (bitmap a)}" "free_set a"] by (auto simp: allocator_inv_def free_set_def)
  then have "unat (free_frames a) + unat (1 :: u64) < 2 ^ LENGTH(64)" using inv_free [OF inv] by simp
  then obtain f where f: "checked_add (free_frames a) 1 = Some f" "unat f = unat (free_frames a) + card {unat i}"
    by (rule checked_add_fits) simp
  have T: "{unat i} \<subseteq> releasable_set a" "{unat i} \<inter> free_set a = {}" using i by auto
  define b where "b = a\<lparr>bitmap := bm, free_frames := f, next_frame := next_frame a\<rparr>"
  have ib: "allocator_inv b" "free_set b = free_set a \<union> {unat i}" "same_layout a b"
    using give_frames_inv [OF inv bm(2-4) T f(2), of "next_frame a"] by (auto simp: b_def)
  moreover have "releasable_set b = releasable_set a"
    using same_layout_releasable [OF ib(3)] bm(3) by (auto simp: releasable_set_def b_def)
  moreover have "BitmapFrameAllocator_mark_frame_free a i = Some b"
    using r get bm(1) f(1) by (simp add: BitmapFrameAllocator_mark_frame_free_def b_def)
  ultimately show ?thesis by simp
qed

lemma bitmap_alloc_ok:
  assumes inv: "allocator_inv a" and i: "unat i \<in> free_set a"
  shows "\<exists>b. BitmapFrameAllocator_mark_frame_allocated a i = Some b \<and> allocator_inv b \<and>
    free_set b = free_set a - {unat i} \<and> releasable_set b = releasable_set a"
proof (rule claim_index [OF inv i])
  fix bm
  define b where "b = a\<lparr>bitmap := bm, free_frames := free_frames a - 1,
      next_frame := next_search_index (unat i) (Bitmap_len bm)\<rparr>"
  assume bm: "Bitmap_set (bitmap a) (unat i) = Some bm" "Bitmap_len bm = Bitmap_len (bitmap a)"
    and h: "\<And>n. allocator_inv (a\<lparr>bitmap := bm, free_frames := free_frames a - 1, next_frame := n\<rparr>)"
      "\<And>n. free_set (a\<lparr>bitmap := bm, free_frames := free_frames a - 1, next_frame := n\<rparr>) = free_set a - {unat i}"
      "\<And>n. same_layout a (a\<lparr>bitmap := bm, free_frames := free_frames a - 1, next_frame := n\<rparr>)"
  have lt: "unat i < Bitmap_len (bitmap a)" using free_set_less [OF i] .
  then have "Bitmap_get (bitmap a) (unat i) = Some False"
    using Bitmap_get_eq [OF inv_wf [OF inv] lt] i by (simp add: free_set_def)
  then have "BitmapFrameAllocator_mark_frame_allocated a i = Some b"
    using lt inv_len [OF inv] bm
    by (simp add: BitmapFrameAllocator_mark_frame_allocated_def word_less_nat_alt b_def)
  moreover have "releasable_set b = releasable_set a"
    using same_layout_releasable [OF h(3)] bm(2) by (auto simp: releasable_set_def b_def)
  ultimately show ?thesis using h by (simp add: b_def)
qed

interpretation fa: frame_backing bitmap_backing allocator_inv free_set releasable_set
proof unfold_locales
  show "is_frame_free bitmap_backing b i = Some (unat i \<in> free_set b)" if "allocator_inv b" for b i
    using Bitmap_get_eq [OF inv_wf [OF that], of "unat i"] inv_len [OF that]
    by (auto simp: bitmap_backing_def BitmapFrameAllocator_is_frame_free_def free_set_def word_less_nat_alt)
qed (simp_all add: bitmap_backing_def bitmap_alloc_ok bitmap_release_ok)

end
