(* ===== verification/Buddy_Laws.thy ===== *)
theory Buddy_Laws
  imports Buddy_Alloc
begin

text \<open>
  What the buddy allocator promises when it runs on the bitmap frame allocator: the seeded free
  lists cover the region, allocation and release are exact, an allocation followed by its release
  restores the free lists, and the reported number of free frames agrees with the bitmap.
\<close>

abbreviation bitmap_buddy_inv :: "nat \<Rightarrow> BitmapFrameAllocator BuddyAllocator \<Rightarrow> bool" where
  "bitmap_buddy_inv \<equiv> buddy_inv allocator_inv free_set releasable_set"

text \<open>The frames of the buddy's region that the bitmap has free.\<close>

definition region_free :: "BitmapFrameAllocator BuddyAllocator \<Rightarrow> nat set" where
  "region_free a =
     {unat (base_idx a)..<unat (base_idx a) + unat (managed a)} \<inter> free_set (backing a)"

lemma region_free_covered:
  assumes "bitmap_buddy_inv cap a"
  shows "region_free a = (\<lambda>i. unat (base_idx a) + i) ` covered (free_lists a)"
proof -
  note i = buddy_invD [OF assms]
  have "covered (free_lists a) \<subseteq> {..<unat (managed a)}" using covered_bound [OF i(1)] .
  then show ?thesis
    using i(8) by (fastforce simp: region_free_def image_iff le_iff_add)
qed

lemma abs_block_image: "abs_block a ord r = (\<lambda>i. unat (base_idx a) + i) ` block ord r"
  by (simp add: abs_block_def block_def ac_simps)

lemma abs_block_region_free:
  assumes "bitmap_buddy_inv cap a"
  shows "abs_block a ord r \<subseteq> region_free a \<longleftrightarrow> block ord r \<subseteq> covered (free_lists a)"
  by (simp add: region_free_covered [OF assms] abs_block_image inj_image_subset_iff)

subsection \<open>A small instance\<close>

text \<open>A buddy over the two free frames of the sample frame allocator.\<close>

abbreviation "sample_base \<equiv> PhysFrame (PhysAddr 0x2000)"

lemma sample_base_facts:
  "PhysFrame_wf sample_base" "unat (PhysFrame_number sample_base) = 2"
  "{unat (PhysFrame_number sample_base)..<unat (PhysFrame_number sample_base) + unat (2 :: u64)} = {2, 3}"
  by (auto simp: PhysFrame_wf_def unat_PhysFrame_number)

lemma sample_buddy:
  obtains a where "BuddyAllocator_new 4 sample_allocator sample_base 2 = Some (Inr a)" "bitmap_buddy_inv 4 a"
    "region_free a = {2, 3}" "base_idx a = 2" "managed a = 2" "backing a = sample_allocator"
proof -
  have sub: "{unat (PhysFrame_number sample_base)..<unat (PhysFrame_number sample_base) + unat (2 :: u64)}
      \<subseteq> releasable_set sample_allocator \<inter> free_set sample_allocator"
    unfolding sample_base_facts(3) sample_releasable sample_free_set by simp
  have lt: "unat (PhysFrame_number sample_base) + unat (2 :: u64) < 2 ^ 40" by (simp add: sample_base_facts)
  obtain a where a: "BuddyAllocator_new 4 sample_allocator sample_base 2 = Some (Inr a)" "bitmap_buddy_inv 4 a"
      "backing a = sample_allocator" "base_frame a = sample_base" "managed a = 2"
    using fa.new_spec [OF sample_inv sample_base_facts(1) lt sub, of 4] by (elim exE conjE, case_tac res) auto
  have "base_idx a = 2" using buddy_invD(5) [OF a(2)] a(4) by (simp add: PhysFrame_number_def PAGE_SIZE_def)
  moreover from this have "region_free a = {2, 3}"
    using a(3,5) by (auto simp: region_free_def sample_free_set)
  ultimately show thesis using that a by blast
qed

subsection \<open>Counting\<close>

lemma fold_word_sum:
  "fold (\<lambda>k t. t + push_bit k (of_nat (f k) :: u64)) [0..<n] 0 = of_nat (\<Sum>k<n. f k * 2 ^ k)"
  by (induction n) (simp_all add: push_bit_eq_mult)

text \<open>
  The free-frame count the buddy reports is the number of frames of its region that are free in
  the bitmap, so the two layers of the frame allocator never disagree about how much memory is
  left; the 64-bit sum does not wrap.
\<close>

theorem buddy_free_frames_exact:
  assumes "bitmap_buddy_inv cap a"
  shows "unat (BuddyAllocator_free_frames a) = card (region_free a)"
proof -
  note i = buddy_invD [OF assms]
  have "BuddyAllocator_free_frames a = of_nat (card (covered (free_lists a)))"
    using fold_word_sum [of "\<lambda>k. length (free_lists a ! k)" 11] card_covered [OF i(1)]
    by (simp add: BuddyAllocator_free_frames_def NUM_ORDERS_def MAX_ORDER_def)
  moreover have "card (covered (free_lists a)) \<le> unat (managed a)"
    using card_mono [OF _ covered_bound [OF i(1)]] by simp
  moreover have "unat (managed a) < 2 ^ 40" using i(6) by simp
  moreover have "card (region_free a) = card (covered (free_lists a))"
    by (simp add: region_free_covered [OF assms] card_image)
  ultimately show ?thesis by (simp add: unat_of_nat take_bit_nat_eq_self)
qed

theorem buddy_free_frames_exact_witness:
  "\<exists>a. BuddyAllocator_new 4 sample_allocator sample_base 2 = Some (Inr a) \<and>
     unat (BuddyAllocator_free_frames a) = 2"
proof -
  obtain a where a: "BuddyAllocator_new 4 sample_allocator sample_base 2 = Some (Inr a)" "bitmap_buddy_inv 4 a"
    "region_free a = {2, 3}" by (rule sample_buddy)
  then show ?thesis using buddy_free_frames_exact [OF a(2)] by simp
qed

subsection \<open>Construction\<close>

text \<open>
  C25. Seeding a region whose frames are all free in the bitmap never panics. It succeeds unless the
  region is empty or a free list is too short, which cannot happen when the capacity is at least
  the number of frames; on success the invariant holds and every frame of the region can be
  allocated.
\<close>

theorem buddy_new_covers_region:
  assumes "allocator_inv b" "PhysFrame_wf base" "unat (PhysFrame_number base) + unat m < 2 ^ 40"
    "{unat (PhysFrame_number base)..<unat (PhysFrame_number base) + unat m} \<subseteq> free_set b"
  shows "\<exists>res. BuddyAllocator_new cap b base m = Some res \<and>
    (case res of
       Inr a \<Rightarrow> m \<noteq> 0 \<and> bitmap_buddy_inv cap a \<and> backing a = b \<and>
         region_free a = {unat (PhysFrame_number base)..<unat (PhysFrame_number base) + unat m}
     | Inl err \<Rightarrow> m = 0 \<and> err = OutOfRegion \<or> err = FreeListFull \<and> cap < unat m)"
proof -
  have "free_set b \<subseteq> releasable_set b" using assms(1) by (simp add: allocator_inv_def)
  then have sub: "{unat (PhysFrame_number base)..<unat (PhysFrame_number base) + unat m}
      \<subseteq> releasable_set b \<inter> free_set b" using assms(4) by blast
  have "base_idx a = PhysFrame_number (base_frame a)" if "bitmap_buddy_inv cap a" for a
    using buddy_invD(5) [OF that] .
  then show ?thesis
    using fa.new_spec [OF assms(1-3) sub, of cap] assms(4)
    by (fastforce simp: region_free_def split: sum.splits)
qed

theorem buddy_new_covers_region_witness:
  "\<exists>a. BuddyAllocator_new 2 sample_allocator sample_base 2 = Some (Inr a) \<and> region_free a = {2, 3}"
proof -
  have lt: "unat (PhysFrame_number sample_base) + unat (2 :: u64) < 2 ^ 40" by (simp add: sample_base_facts)
  have sub: "{unat (PhysFrame_number sample_base)..<unat (PhysFrame_number sample_base) + unat (2 :: u64)}
      \<subseteq> free_set sample_allocator" unfolding sample_base_facts(3) sample_free_set by simp
  show ?thesis
    using buddy_new_covers_region [OF sample_inv sample_base_facts(1) lt sub, of 2]
    unfolding sample_base_facts(3) by (elim exE conjE, case_tac res) auto
qed

subsection \<open>Allocation\<close>

text \<open>
  C26. \<open>alloc_pages\<close> never panics and keeps the invariant. It answers \<open>None\<close> and changes nothing
  exactly when the order is above the maximum or no aligned block of that order is entirely free;
  otherwise it hands out one such block, aligned relative to the base of the region, which leaves
  the free set, and no other frame changes.
\<close>

theorem buddy_alloc_exact:
  assumes "bitmap_buddy_inv cap a"
  shows "\<exists>res a'. BuddyAllocator_alloc_pages bitmap_backing cap a order = Some (res, a') \<and>
    bitmap_buddy_inv cap a' \<and>
    (case res of
       None \<Rightarrow> a' = a \<and> (10 < order \<or> (\<nexists>r. 2 ^ order dvd unat r \<and> abs_block a order r \<subseteq> region_free a))
     | Some fr \<Rightarrow> order \<le> 10 \<and> (\<exists>r. 2 ^ order dvd unat r \<and> range_set fr = abs_block a order r) \<and>
         range_set fr \<subseteq> region_free a \<and> region_free a' = region_free a - range_set fr \<and>
         free_set (backing a') = free_set (backing a) - range_set fr)"
proof -
  obtain res a' where r: "BuddyAllocator_alloc_pages bitmap_backing cap a order = Some (res, a')"
      "bitmap_buddy_inv cap a'" "base_frame a' = base_frame a" "managed a' = managed a"
    and c: "case res of None \<Rightarrow> a' = a \<and> (10 < order \<or>
         (\<nexists>r. 2 ^ order dvd unat r \<and> block order r \<subseteq> covered (free_lists a)))
     | Some fr \<Rightarrow> order \<le> 10 \<and> (\<exists>r. 2 ^ order dvd unat r \<and> block order r \<subseteq> covered (free_lists a) \<and>
         range_set fr = abs_block a order r \<and>
         PhysFrame_wf (PhysFrameRange_start fr) \<and> PhysFrame_wf (PhysFrameRange_end fr) \<and>
         covered (free_lists a') = covered (free_lists a) - block order r \<and>
         free_set (backing a') = free_set (backing a) - range_set fr)"
    using fa.alloc_pages_spec [OF assms] by blast
  have "base_idx a' = base_idx a" using r(2,3) assms by (simp add: buddy_inv_def)
  then have rf: "region_free a' = region_free a - S" if "free_set (backing a') = free_set (backing a) - S" for S
    using r(4) that by (auto simp: region_free_def)
  show ?thesis
  proof (cases res)
    case None
    then show ?thesis using r(1,2) c by (auto simp: abs_block_region_free [OF assms])
  next
    case (Some fr)
    then obtain b where b: "2 ^ order dvd unat b" "abs_block a order b \<subseteq> region_free a" "order \<le> 10"
        "range_set fr = abs_block a order b" "free_set (backing a') = free_set (backing a) - range_set fr"
      using c abs_block_region_free [OF assms] by auto
    then show ?thesis using r(1,2) Some rf [OF b(5)] by auto
  qed
qed

theorem buddy_alloc_exact_witness:
  "\<exists>a fr a'. BuddyAllocator_new 4 sample_allocator sample_base 2 = Some (Inr a) \<and>
     BuddyAllocator_alloc_pages bitmap_backing 4 a 1 = Some (Some fr, a') \<and>
     range_set fr = {2, 3} \<and> region_free a' = {}"
proof -
  obtain a where a: "BuddyAllocator_new 4 sample_allocator sample_base 2 = Some (Inr a)" "bitmap_buddy_inv 4 a"
    "region_free a = {2, 3}" "base_idx a = 2" by (rule sample_buddy)
  have "abs_block a 1 0 = {2, 3}" using a(4) by (auto simp: abs_block_def)
  then have ex: "2 ^ 1 dvd unat (0 :: u64) \<and> abs_block a 1 0 \<subseteq> region_free a" using a(3) by simp
  obtain fr a' r where f: "BuddyAllocator_alloc_pages bitmap_backing 4 a 1 = Some (Some fr, a')"
      "range_set fr = abs_block a 1 r" "range_set fr \<subseteq> {2, 3}" "region_free a' = region_free a - range_set fr"
    using buddy_alloc_exact [OF a(2), of 1] ex a(3) by (elim exE conjE, case_tac res) auto
  have "card (range_set fr) = 2" using f(2) by (simp add: abs_block_def)
  then have "range_set fr = {2, 3}" using f(3) card_subset_eq [of "{2, 3}" "range_set fr"] by simp
  then show ?thesis using a f by auto
qed

subsection \<open>Release\<close>

text \<open>
  C27. \<open>free_pages\<close> never panics. A range that is not an aligned, wholly allocated block of the
  region of an order up to the maximum is refused with the allocator unchanged. An accepted range
  becomes free in the bitmap; then either it is inserted and the invariant holds again, or the
  merged block does not fit its free list, and \<open>FreeListFull\<close> is reported although the frames
  are already marked free in the bitmap and no free list holds them any more.
\<close>

theorem buddy_free_exact:
  assumes "bitmap_buddy_inv cap a"
  shows "\<exists>res a'. BuddyAllocator_free_pages bitmap_backing cap a fr = Some (res, a') \<and>
    (if \<exists>ord. releasable_block a fr ord
     then \<exists>ord. releasable_block a fr ord \<and>
       free_set (backing a') = free_set (backing a) \<union> abs_block a ord (rel_of a fr) \<and>
       (case res of
          Inr u \<Rightarrow> bitmap_buddy_inv cap a' \<and> region_free a' = region_free a \<union> abs_block a ord (rel_of a fr)
        | Inl err \<Rightarrow> err = FreeListFull \<and> (\<exists>k<11. length (free_lists a' ! k) = cap) \<and>
            block ord (rel_of a fr) \<inter> covered (free_lists a') = {})
     else a' = a \<and> (\<exists>err. res = Inl err \<and> err \<noteq> FreeListFull))"
proof (cases "\<exists>ord. releasable_block a fr ord")
  case True
  then obtain ord where rb: "releasable_block a fr ord" by blast
  obtain res a' where r: "BuddyAllocator_free_pages bitmap_backing cap a fr = Some (res, a')"
      "base_frame a' = base_frame a" "managed a' = managed a"
      "free_set (backing a') = free_set (backing a) \<union> abs_block a ord (rel_of a fr)"
      "case res of Inr u \<Rightarrow> bitmap_buddy_inv cap a' \<and>
           covered (free_lists a') = covered (free_lists a) \<union> block ord (rel_of a fr)
       | Inl err \<Rightarrow> err = FreeListFull \<and> block ord (rel_of a fr) \<inter> covered (free_lists a') = {} \<and>
           (\<exists>k<11. length (free_lists a' ! k) = cap)"
    using fa.free_pages_accepted [OF assms rb] by blast
  have "region_free a' = region_free a \<union> abs_block a ord (rel_of a fr)"
    if "bitmap_buddy_inv cap a'" "covered (free_lists a') = covered (free_lists a) \<union> block ord (rel_of a fr)"
    using that r(2) assms unfolding region_free_covered [OF that(1)] region_free_covered [OF assms]
    by (auto simp: abs_block_image buddy_inv_def)
  then show ?thesis using True rb r by (auto split: sum.splits intro!: exI [of _ ord])
next
  case False
  then show ?thesis using fa.free_pages_refused [OF assms False] by auto
qed

theorem buddy_free_exact_witness:
  "\<exists>a err. BuddyAllocator_new 4 sample_allocator sample_base 2 = Some (Inr a) \<and>
     BuddyAllocator_free_pages bitmap_backing 4 a \<lparr>PhysFrameRange_start = sample_base, PhysFrameRange_end = sample_base\<rparr>
       = Some (Inl err, a) \<and> err \<noteq> FreeListFull"
proof -
  obtain a where a: "BuddyAllocator_new 4 sample_allocator sample_base 2 = Some (Inr a)" "bitmap_buddy_inv 4 a"
    "region_free a = {2, 3}" "base_idx a = 2" by (rule sample_buddy)
  define fr where "fr = \<lparr>PhysFrameRange_start = sample_base, PhysFrameRange_end = sample_base\<rparr>"
  have "base_frame a = sample_base"
    using a(1) by (auto simp: BuddyAllocator_new_def split: sum.split_asm Option.bind_splits)
  then have r: "rel_of a fr = 0" by (simp add: rel_of_def fr_def PhysFrame_diff_def)
  have "unat (base_idx a) + 0 \<in> region_free a" using a(3,4) by simp
  then have "0 \<in> covered (free_lists a)" unfolding region_free_covered [OF a(2)] by auto
  moreover have "0 \<in> block ord 0" for ord by (simp add: block_def)
  ultimately have "\<nexists>ord. releasable_block a fr ord" using r by (auto simp: releasable_block_def)
  then show ?thesis using buddy_free_exact [OF a(2), of fr] a(1) by (auto simp: fr_def)
qed

subsection \<open>Allocating and releasing again\<close>

lemma fls_ok_Suc: "fls_ok cap m fls \<Longrightarrow> fls_ok (Suc cap) m fls"
  by (fastforce simp: fls_ok_def list_wf_def)

text \<open>
  Putting a block back never overflows a free list when the lists covered it before: the coalesced
  lists with that cover are unique, so the merged block is one the lists already had room for.
\<close>

lemma reinsert_fits:
  assumes f: "fls_ok cap m fls" "coalesced fls" and o: "fls_ok cap m old" "coalesced old"
    and r: "ord < 11" "2 ^ ord dvd unat rel" "unat rel + 2 ^ ord \<le> m" "block ord rel \<inter> covered fls = {}"
    and cov: "covered old = covered fls \<union> block ord rel"
  shows "\<exists>fls'. BuddyAllocator_coalesce_insert cap fls rel ord = Some (Inr (), fls')"
proof -
  obtain rel' ord' fls' where c: "coalesce rel ord fls = (rel', ord', fls')" "fls_ok cap m fls'" "ord' < 11"
    using coalesce_spec [OF f r] by blast
  note len = fls_okD(3) [OF c(2)] and n = fls_okD(1) [OF c(2,3)]
  obtain res g where g: "BuddyAllocator_coalesce_insert (Suc cap) fls rel ord = Some (res, g)"
      "fls_ok (Suc cap) m g" "coalesced g"
      "case res of Inr u \<Rightarrow> covered g = covered old
        | Inl err \<Rightarrow> \<exists>k<11. length (g ! k) = Suc cap"
    using coalesce_insert_spec [OF fls_ok_Suc [OF f(1)] f(2) r] cov by (fastforce split: sum.splits)
  have room: "length (fls' ! ord') < Suc cap" using len [OF c(3)] by simp
  then have g': "res = Inr ()" "g = fls'[ord' := fls' ! ord' @ [rel']]"
    using g(1) c(1) by (auto simp: BuddyAllocator_coalesce_insert_def FreeList_push_def)
  then have "set (g ! ord') \<subseteq> set (old ! ord')"
    using coalesced_unique [OF g(2,3) o _ c(3)] g(4) by simp
  then have "card (set (g ! ord')) \<le> card (set (old ! ord'))" by (rule card_mono [OF finite_set])
  then have "length (g ! ord') \<le> cap"
    using fls_okD(2,3) [OF o(1) c(3)] fls_okD(2) [OF g(2) c(3)] by (simp add: distinct_card)
  then have "length (fls' ! ord') < cap" using g'(2) n c(3) by simp
  then show ?thesis using c(1) by (simp add: BuddyAllocator_coalesce_insert_def FreeList_push_def)
qed

lemma coalesced_same_lists:
  assumes f: "fls_ok cap m fls" "coalesced fls" and g: "fls_ok cap m gls" "coalesced gls"
    and cov: "covered fls = covered gls" and o: "ord < 11"
  shows "mset (fls ! ord) = mset (gls ! ord)"
proof -
  have "set (fls ! ord) = set (gls ! ord)"
    using coalesced_unique [OF f g cov o] coalesced_unique [OF g f cov [symmetric] o] by simp
  then show ?thesis
    using fls_okD(2) [OF f(1) o] fls_okD(2) [OF g(1) o] set_eq_iff_mset_eq_distinct by blast
qed

text \<open>A range that names an absolute block is that block for \<open>free_pages\<close>.\<close>

lemma range_of_block:
  assumes e: "range_set fr = abs_block a ord r" and o: "ord \<le> 10"
    and b: "base_idx a = PhysFrame_number (base_frame a)"
  shows "rel_of a fr = r" "PhysFrameRange_len fr = 2 ^ ord"
proof -
  let ?s = "PhysFrame_number (PhysFrameRange_start fr)" and ?e = "PhysFrame_number (PhysFrameRange_end fr)"
  let ?b = "unat (base_idx a) + unat r"
  define n :: nat where "n = 2 ^ ord"
  have pos: "0 < n" by (simp add: n_def)
  then have "{?b..<?b + n} = {?b..?b + (n - 1)}" by auto
  then have "{unat ?s..unat ?e} = {?b..?b + (n - 1)}"
    using e unfolding range_set_def abs_block_def n_def by simp
  then have "unat ?s = ?b \<and> unat ?e = ?b + (n - 1)"
    using Icc_eq_Icc [of "unat ?s" "unat ?e" ?b "?b + (n - 1)"] by simp
  then have se: "unat ?s = ?b" "unat ?e = ?b + (n - 1)" by blast+
  have "of_nat (unat ?s) = (of_nat ?b :: u64)" by (simp only: se)
  moreover have "unat ?e + 1 = ?b + 2 ^ ord" using se(2) pos unfolding n_def by linarith
  then have "of_nat (unat ?e + 1) = (of_nat (?b + 2 ^ ord) :: u64)" by (simp only:)
  ultimately have w: "?s = base_idx a + r" "?e + 1 = base_idx a + r + 2 ^ ord"
    by (simp_all add: add.commute)
  show "rel_of a fr = r" using w(1) b by (simp add: rel_of_def PhysFrame_diff_def)
  have "?e - ?s + 1 = (?e + 1) - ?s" by simp
  then show "PhysFrameRange_len fr = 2 ^ ord"
    using w by (simp add: PhysFrameRange_len_def PhysFrame_diff_def)
qed

text \<open>
  C28. Releasing a block right after allocating it always succeeds and undoes the allocation: the
  release never reports \<open>FreeListFull\<close>, the bitmap has the same free frames as before, and every
  free list holds the same blocks as before (in some order), because splitting is exactly undone by
  coalescing.
\<close>

theorem buddy_alloc_free_roundtrip:
  assumes inv: "bitmap_buddy_inv cap a"
    and al: "BuddyAllocator_alloc_pages bitmap_backing cap a order = Some (Some fr, a')"
  shows "\<exists>a''. BuddyAllocator_free_pages bitmap_backing cap a' fr = Some (Inr (), a'') \<and>
    bitmap_buddy_inv cap a'' \<and> free_set (backing a'') = free_set (backing a) \<and>
    (\<forall>ord<11. mset (free_lists a'' ! ord) = mset (free_lists a ! ord))"
proof -
  note i = buddy_invD [OF inv]
  obtain r where r: "bitmap_buddy_inv cap a'" "base_frame a' = base_frame a" "managed a' = managed a"
      "order \<le> 10" "2 ^ order dvd unat r" "block order r \<subseteq> covered (free_lists a)"
      "range_set fr = abs_block a order r"
      "covered (free_lists a') = covered (free_lists a) - block order r"
      "free_set (backing a') = free_set (backing a) - range_set fr"
    using fa.alloc_pages_spec [OF inv, of order] al by auto
  note i' = buddy_invD [OF r(1)]
  have ab: "abs_block a' order r = abs_block a order r" using i(5) i'(5) r(2) by (simp add: abs_block_def)
  note rg = range_of_block [of fr a' order r, unfolded ab, OF r(7,4) i'(5)]
  have "block order r \<subseteq> {..<unat (managed a)}" using r(6) covered_bound [OF i(1)] by simp
  then have bd: "unat r + 2 ^ order \<le> unat (managed a)"
    using ivl_subset [of "unat r" "unat r + 2 ^ order" 0 "unat (managed a)"]
    by (simp add: block_def atLeast0LessThan)
  have dj: "block order r \<inter> covered (free_lists a') = {}" and cov: "covered (free_lists a) = covered (free_lists a') \<union> block order r"
    using r(6,8) by auto
  have rb: "releasable_block a' fr order" using rg r(3-5) bd dj by (simp add: releasable_block_def)
  obtain res a'' where f: "BuddyAllocator_free_pages bitmap_backing cap a' fr = Some (res, a'')"
      "base_frame a'' = base_frame a'" "managed a'' = managed a'"
      "free_set (backing a'') = free_set (backing a') \<union> abs_block a' order r"
      "case res of Inr u \<Rightarrow> bitmap_buddy_inv cap a'' \<and>
           covered (free_lists a'') = covered (free_lists a') \<union> block order r | Inl err \<Rightarrow> True"
      "BuddyAllocator_coalesce_insert cap (free_lists a') r order = Some (res, free_lists a'')"
    using fa.free_pages_accepted [OF r(1) rb] unfolding rg(1) by (fastforce split: sum.splits)
  have "order < 11" using r(4) by simp
  then obtain fls where "BuddyAllocator_coalesce_insert cap (free_lists a') r order = Some (Inr (), fls)"
    using reinsert_fits [OF i'(1,2) _ i(2) _ r(5) _ dj cov] i(1) r(3) bd by auto
  then have res: "res = Inr ()" using f(6) by simp
  then have inv'': "bitmap_buddy_inv cap a''" "covered (free_lists a'') = covered (free_lists a)" using f(5) cov by auto
  note i'' = buddy_invD [OF inv''(1)]
  have "mset (free_lists a'' ! ord) = mset (free_lists a ! ord)" if "ord < 11" for ord
    using coalesced_same_lists [OF i''(1,2) _ i(2) inv''(2) that] i(1) f(3) r(3) by simp
  moreover have "abs_block a order r \<subseteq> free_set (backing a)"
    using abs_block_region_free [OF inv] r(6) by (auto simp: region_free_def)
  ultimately show ?thesis using f(1,4) res inv''(1) r(7,9) ab by auto
qed

theorem buddy_alloc_free_roundtrip_witness:
  "\<exists>a fr a' a''. BuddyAllocator_new 4 sample_allocator sample_base 2 = Some (Inr a) \<and>
     BuddyAllocator_alloc_pages bitmap_backing 4 a 0 = Some (Some fr, a') \<and>
     BuddyAllocator_free_pages bitmap_backing 4 a' fr = Some (Inr (), a'') \<and>
     free_set (backing a'') = {2, 3}"
proof -
  obtain a where a: "BuddyAllocator_new 4 sample_allocator sample_base 2 = Some (Inr a)" "bitmap_buddy_inv 4 a"
    "region_free a = {2, 3}" "base_idx a = 2" "backing a = sample_allocator" by (rule sample_buddy)
  have "abs_block a 0 0 = {2}" using a(4) by (auto simp: abs_block_def)
  then have "block 0 0 \<subseteq> covered (free_lists a)" using abs_block_region_free [OF a(2), of 0 0] a(3) by simp
  then obtain fr a' where f: "BuddyAllocator_alloc_pages bitmap_backing 4 a 0 = Some (Some fr, a')"
    using fa.alloc_pages_spec [OF a(2), of 0] by (elim exE conjE, case_tac res) auto
  show ?thesis
    using a(1) f buddy_alloc_free_roundtrip [OF a(2) f] a(5) sample_free_set by auto
qed

end
