(* ===== verification/Rust_Result.thy ===== *)
theory Rust_Result
  imports Xen_Prelude
begin

text \<open>
  The combinators of Rust's \<open>Result\<close> and \<open>Option\<close> that the sources chain, on the sum type:
  \<open>and_then\<close> is the \<open>?\<close> operator followed by the rest of the function.
\<close>

definition and_then :: "'e + 'a \<Rightarrow> ('a \<Rightarrow> 'e + 'b) \<Rightarrow> 'e + 'b" where
  "and_then r f = (case r of Inl e \<Rightarrow> Inl e | Inr x \<Rightarrow> f x)"

definition ok_or :: "'a option \<Rightarrow> 'e \<Rightarrow> 'e + 'a" where
  "ok_or o' e = (case o' of None \<Rightarrow> Inl e | Some x \<Rightarrow> Inr x)"

definition map_err :: "('e \<Rightarrow> 'f) \<Rightarrow> 'e + 'a \<Rightarrow> 'f + 'a" where
  "map_err g r = (case r of Inl e \<Rightarrow> Inl (g e) | Inr x \<Rightarrow> Inr x)"

definition is_ok :: "'e + 'a \<Rightarrow> bool" where
  "is_ok r = (case r of Inl e \<Rightarrow> False | Inr x \<Rightarrow> True)"

definition opt_filter :: "('a \<Rightarrow> bool) \<Rightarrow> 'a option \<Rightarrow> 'a option" where
  "opt_filter p o' = (case o' of None \<Rightarrow> None | Some x \<Rightarrow> if p x then Some x else None)"

lemma and_then_simps [simp]: "and_then (Inl e) f = Inl e" "and_then (Inr x) f = f x"
  by (simp_all add: and_then_def)

lemma and_then_eq_Inr: "and_then r f = Inr y \<longleftrightarrow> (\<exists>x. r = Inr x \<and> f x = Inr y)"
  by (cases r) auto

lemma and_then_eq_Inl: "and_then r f = Inl e \<longleftrightarrow> r = Inl e \<or> (\<exists>x. r = Inr x \<and> f x = Inl e)"
  by (cases r) auto

lemma ok_or_simps [simp]: "ok_or None e = Inl e" "ok_or (Some x) e = Inr x"
  by (simp_all add: ok_or_def)

lemma ok_or_eq_Inr [simp]: "ok_or r e = Inr x \<longleftrightarrow> r = Some x"
  by (cases r) auto

lemma ok_or_eq_Inl: "ok_or r e = Inl e' \<longleftrightarrow> r = None \<and> e' = e"
  by (cases r) auto

lemma map_err_simps [simp]: "map_err g (Inl e) = Inl (g e)" "map_err g (Inr x) = Inr x"
  by (simp_all add: map_err_def)

lemma map_err_eq_Inr [simp]: "map_err g r = Inr x \<longleftrightarrow> r = Inr x"
  by (cases r) auto

lemma map_err_eq_Inl: "map_err g r = Inl e \<longleftrightarrow> (\<exists>e'. r = Inl e' \<and> e = g e')"
  by (cases r) auto

lemma is_ok_simps [simp]: "is_ok (Inl e) = False" "is_ok (Inr x) = True"
  by (simp_all add: is_ok_def)

lemma is_ok_iff: "is_ok r \<longleftrightarrow> (\<exists>x. r = Inr x)"
  by (cases r) auto

lemma opt_filter_simps [simp]: "opt_filter p None = None" "opt_filter p (Some x) = (if p x then Some x else None)"
  by (simp_all add: opt_filter_def)

lemma opt_filter_eq_Some [simp]: "opt_filter p r = Some x \<longleftrightarrow> r = Some x \<and> p x"
  by (cases r) auto

text \<open>The index of the first element with a property, as \<open>Iterator::position\<close>.\<close>

definition position :: "('a \<Rightarrow> bool) \<Rightarrow> 'a list \<Rightarrow> nat option" where
  "position P xs = List.find (\<lambda>i. P (xs ! i)) [0..<length xs]"

lemma position_SomeD:
  assumes "position P xs = Some i"
  shows "i < length xs" "P (xs ! i)" "\<forall>j<i. \<not> P (xs ! j)"
  using assms find_upt_Some [of "\<lambda>i. P (xs ! i)" 0 "length xs" i] by (auto simp: position_def)

lemma position_None: "position P xs = None \<longleftrightarrow> (\<forall>x\<in>set xs. \<not> P x)"
  by (simp add: position_def find_upt_None all_set_conv_all_nth)

text \<open>
  The operator \<open>?\<close> on an operation that also changes a state: an error stops with the state reached so far.
  \<open>for_try\<close> is a loop whose body uses it.
\<close>

definition try_then ::
  "(('e + 'a) \<times> 's) option \<Rightarrow> ('a \<Rightarrow> 's \<Rightarrow> (('e + 'b) \<times> 's) option) \<Rightarrow> (('e + 'b) \<times> 's) option" where
  "try_then r f = (case r of None \<Rightarrow> None | Some (Inl e, s) \<Rightarrow> Some (Inl e, s) | Some (Inr x, s) \<Rightarrow> f x s)"

lemma try_then_simps [simp]:
  "try_then None f = None" "try_then (Some (Inl e, s)) f = Some (Inl e, s)" "try_then (Some (Inr x, s)) f = f x s"
  by (simp_all add: try_then_def)

fun for_try :: "('i \<Rightarrow> 's \<Rightarrow> (('e + unit) \<times> 's) option) \<Rightarrow> 'i list \<Rightarrow> 's \<Rightarrow> (('e + unit) \<times> 's) option" where
  "for_try f [] s = Some (Inr (), s)"
| "for_try f (i # is) s = try_then (f i s) (\<lambda>_ s. for_try f is s)"

end
