(* ===== verification/Page_Table.thy ===== *)
theory Page_Table
  imports Frame_Allocator Rust_Result
begin

text \<open>
  Page tables and the machine state they live in (\<open>kernel/src/mm/virtual/address_space.rs\<close>, with the
  flag operations of \<open>crates/xenith-bitflags/src/lib.rs\<close>). The kernel reaches every physical frame through
  its direct map, so a table is named by its frame and a \<open>&mut PageTableEntry\<close> by the frame and the index
  of the entry. The memory of a frame is a function from the word index to the 64-bit word.
\<close>

subsection \<open>Flags\<close>

datatype PageTableFlags = PageTableFlags (PageTableFlags_bits: u64)

definition PageTableFlags_PRESENT :: PageTableFlags where "PageTableFlags_PRESENT = PageTableFlags 0x1"
definition PageTableFlags_WRITABLE :: PageTableFlags where "PageTableFlags_WRITABLE = PageTableFlags 0x2"
definition PageTableFlags_USER :: PageTableFlags where "PageTableFlags_USER = PageTableFlags 0x4"
definition PageTableFlags_ACCESSED :: PageTableFlags where "PageTableFlags_ACCESSED = PageTableFlags 0x20"
definition PageTableFlags_DIRTY :: PageTableFlags where "PageTableFlags_DIRTY = PageTableFlags 0x40"
definition PageTableFlags_HUGE_PAGE :: PageTableFlags where "PageTableFlags_HUGE_PAGE = PageTableFlags 0x80"
definition PageTableFlags_GLOBAL :: PageTableFlags where "PageTableFlags_GLOBAL = PageTableFlags 0x100"
definition PageTableFlags_COPY_ON_WRITE :: PageTableFlags where "PageTableFlags_COPY_ON_WRITE = PageTableFlags 0x200"
definition PageTableFlags_NO_EXECUTE :: PageTableFlags where
  "PageTableFlags_NO_EXECUTE = PageTableFlags 0x8000000000000000"

text \<open>The union of the declared flags: bits 0 to 9 and bit 63.\<close>

definition PageTableFlags_ALL :: PageTableFlags where
  "PageTableFlags_ALL = PageTableFlags 0x80000000000003FF"

definition PageTableFlags_from_bits_truncate :: "u64 \<Rightarrow> PageTableFlags" where
  "PageTableFlags_from_bits_truncate bits = PageTableFlags (bits AND PageTableFlags_bits PageTableFlags_ALL)"

definition PageTableFlags_contains :: "PageTableFlags \<Rightarrow> PageTableFlags \<Rightarrow> bool" where
  "PageTableFlags_contains self other \<longleftrightarrow>
     PageTableFlags_bits self AND PageTableFlags_bits other = PageTableFlags_bits other"

definition PageTableFlags_intersects :: "PageTableFlags \<Rightarrow> PageTableFlags \<Rightarrow> bool" where
  "PageTableFlags_intersects self other \<longleftrightarrow> PageTableFlags_bits self AND PageTableFlags_bits other \<noteq> 0"

definition PageTableFlags_insert :: "PageTableFlags \<Rightarrow> PageTableFlags \<Rightarrow> PageTableFlags" where
  "PageTableFlags_insert self other = PageTableFlags (PageTableFlags_bits self OR PageTableFlags_bits other)"

definition PageTableFlags_remove :: "PageTableFlags \<Rightarrow> PageTableFlags \<Rightarrow> PageTableFlags" where
  "PageTableFlags_remove self other = PageTableFlags (PageTableFlags_bits self AND NOT (PageTableFlags_bits other))"

definition PageTableFlags_bitor :: "PageTableFlags \<Rightarrow> PageTableFlags \<Rightarrow> PageTableFlags" where
  "PageTableFlags_bitor self rhs = PageTableFlags (PageTableFlags_bits self OR PageTableFlags_bits rhs)"

definition PageTableFlags_KERNEL_HHDM :: PageTableFlags where
  "PageTableFlags_KERNEL_HHDM = PageTableFlags_from_bits_truncate (0x1 OR 0x2 OR 0x100)"

subsection \<open>Entries\<close>

definition ENTRIES_PER_TABLE :: nat where "ENTRIES_PER_TABLE = 512"
definition ADDR_MASK :: u64 where "ADDR_MASK = 0x000FFFFFFFFFF000"
definition USER_MAX :: u64 where "USER_MAX = 0x00007FFFFFFFFFFF"

datatype PageTableEntry = PageTableEntry (PageTableEntry_bits: u64)

definition PageTableEntry_empty :: PageTableEntry where
  "PageTableEntry_empty = PageTableEntry 0"

definition PageTableEntry_new :: "PhysFrame \<Rightarrow> PageTableFlags \<Rightarrow> PageTableEntry" where
  "PageTableEntry_new frame flags =
     PageTableEntry ((PhysAddr_as_u64 (PhysFrame_start_address frame) AND ADDR_MASK) OR PageTableFlags_bits flags)"

definition PageTableEntry_is_present :: "PageTableEntry \<Rightarrow> bool" where
  "PageTableEntry_is_present self \<longleftrightarrow>
     PageTableEntry_bits self AND PageTableFlags_bits PageTableFlags_PRESENT \<noteq> 0"

definition PageTableEntry_is_huge :: "PageTableEntry \<Rightarrow> bool" where
  "PageTableEntry_is_huge self \<longleftrightarrow>
     PageTableEntry_bits self AND PageTableFlags_bits PageTableFlags_HUGE_PAGE \<noteq> 0"

definition PageTableEntry_flags :: "PageTableEntry \<Rightarrow> PageTableFlags" where
  "PageTableEntry_flags self = PageTableFlags_from_bits_truncate (PageTableEntry_bits self)"

definition PageTableEntry_frame :: "PageTableEntry \<Rightarrow> PhysFrame option" where
  "PageTableEntry_frame self =
     (let addr = PageTableEntry_bits self AND ADDR_MASK in
      if addr = 0 \<and> \<not> PageTableEntry_is_present self then None
      else Some (PhysFrame_containing_addr (PhysAddr_new_truncate addr)))"

subsection \<open>The machine\<close>

text \<open>
  \<open>memory\<close> holds the words of every frame. \<open>frame_allocator\<close> is the static behind the
  \<open>FrameAllocator\<close> bridge, absent before its initialisation. \<open>shared_user_frames\<close> counts the mappings of
  the frames that several address spaces share. \<open>heap_replies\<close> are the outcomes of the coming calls of
  \<open>Vec::try_reserve\<close>, which depend on the kernel heap; an empty list stands for a heap that grants them.
  \<open>hhdm_static\<close> is the offset of the direct map that the boot code stored, 0 before it did.
  \<open>shootdowns\<close> records the requests to drop cached translations, the newest first.
\<close>

record SharedUserFrame =
  shared_frame :: PhysFrame
  references :: nat

datatype Shootdown = ShootdownPage u64 u64 | ShootdownKernelPage u64

record Machine =
  memory :: "PhysFrame \<Rightarrow> nat \<Rightarrow> u64"
  frame_allocator :: "BitmapFrameAllocator option"
  shared_user_frames :: "SharedUserFrame list"
  heap_replies :: "bool list"
  hhdm_static :: u64
  shootdowns :: "Shootdown list"

definition HIGHER_HALF :: u64 where "HIGHER_HALF = 0xFFFF800000000000"

definition hhdm_offset :: "Machine \<Rightarrow> u64" where
  "hhdm_offset m = (if hhdm_static m \<noteq> 0 then hhdm_static m else HIGHER_HALF)"

definition phys_to_virt :: "Machine \<Rightarrow> PhysAddr \<Rightarrow> VirtAddr" where
  "phys_to_virt m phys = VirtAddr_new_truncate (hhdm_offset m + PhysAddr_as_u64 phys)"

definition virt_to_phys :: "Machine \<Rightarrow> VirtAddr \<Rightarrow> PhysAddr option" where
  "virt_to_phys m virt =
     (if VirtAddr_as_u64 virt \<ge> hhdm_offset m
      then Some (PhysAddr_new_truncate (VirtAddr_as_u64 virt - hhdm_offset m)) else None)"

definition try_reserve :: "Machine \<Rightarrow> bool \<times> Machine" where
  "try_reserve m =
     (case heap_replies m of [] \<Rightarrow> (True, m) | granted # rest \<Rightarrow> (granted, m\<lparr>heap_replies := rest\<rparr>))"

definition shootdown :: "Shootdown \<Rightarrow> Machine \<Rightarrow> Machine" where
  "shootdown s m = m\<lparr>shootdowns := s # shootdowns m\<rparr>"

definition alloc_frame :: "Machine \<Rightarrow> (PhysFrame option \<times> Machine) option" where
  "alloc_frame m =
     (case frame_allocator m of
        None \<Rightarrow> Some (None, m)
      | Some allocator \<Rightarrow>
          do {
            (frame, allocator) \<leftarrow> BitmapFrameAllocator_allocate_frame allocator;
            Some (frame, m\<lparr>frame_allocator := Some allocator\<rparr>)
          })"

text \<open>A refused release is only logged.\<close>

definition free_frame :: "PhysFrame \<Rightarrow> Machine \<Rightarrow> Machine option" where
  "free_frame frame m =
     (case frame_allocator m of
        None \<Rightarrow> Some m
      | Some allocator \<Rightarrow>
          do {
            (result, allocator) \<leftarrow> BitmapFrameAllocator_deallocate allocator frame;
            Some (m\<lparr>frame_allocator := Some allocator\<rparr>)
          })"

definition zero_frame :: "PhysFrame \<Rightarrow> Machine \<Rightarrow> Machine" where
  "zero_frame frame m = m\<lparr>memory := (memory m)(frame := (\<lambda>_. 0))\<rparr>"

definition copy_frame :: "PhysFrame \<Rightarrow> PhysFrame \<Rightarrow> Machine \<Rightarrow> Machine" where
  "copy_frame source destination m = m\<lparr>memory := (memory m)(destination := memory m source)\<rparr>"

definition PageTable_entry :: "Machine \<Rightarrow> PhysFrame \<Rightarrow> PageTableIndex \<Rightarrow> PageTableEntry" where
  "PageTable_entry m table index = PageTableEntry (memory m table (unat (PageTableIndex_value index)))"

text \<open>A store through the \<open>&mut PageTableEntry\<close> of \<open>entry_mut\<close>.\<close>

definition PageTable_store :: "PhysFrame \<times> PageTableIndex \<Rightarrow> PageTableEntry \<Rightarrow> Machine \<Rightarrow> Machine" where
  "PageTable_store = (\<lambda>(table, index) entry m.
     m\<lparr>memory := (memory m)(table := (memory m table)(unat (PageTableIndex_value index) := PageTableEntry_bits entry))\<rparr>)"

definition p4_index :: "Page \<Rightarrow> PageTableIndex" where
  "p4_index page = PageTableIndex_new_truncate (ucast (drop_bit 39 (page_addr page) AND 0x1FF))"

definition p3_index :: "Page \<Rightarrow> PageTableIndex" where
  "p3_index page = PageTableIndex_new_truncate (ucast (drop_bit 30 (page_addr page) AND 0x1FF))"

definition p2_index :: "Page \<Rightarrow> PageTableIndex" where
  "p2_index page = PageTableIndex_new_truncate (ucast (drop_bit 21 (page_addr page) AND 0x1FF))"

definition p1_index :: "Page \<Rightarrow> PageTableIndex" where
  "p1_index page = PageTableIndex_new_truncate (ucast (drop_bit 12 (page_addr page) AND 0x1FF))"

definition page_from_indices ::
  "PageTableIndex \<Rightarrow> PageTableIndex \<Rightarrow> PageTableIndex \<Rightarrow> PageTableIndex \<Rightarrow> Page" where
  "page_from_indices p4 p3 p2 p1 =
     (let address = (push_bit 39 (ucast (PageTableIndex_value p4)) OR push_bit 30 (ucast (PageTableIndex_value p3)) OR
                     push_bit 21 (ucast (PageTableIndex_value p2)) OR push_bit 12 (ucast (PageTableIndex_value p1)) :: u64) in
      Page_containing_addr (VirtAddr_new_truncate address))"

end
