(* ===== verification/Address_Space.thy ===== *)
theory Address_Space
  imports Page_Table
begin

text \<open>
  Address spaces (\<open>kernel/src/mm/virtual/address_space.rs\<close>): mapping, unmapping, translation and
  protection of pages, copy-on-write fork and its fault handler, and the release of a hierarchy.
  An operation returns its result with the machine it leaves; \<open>None\<close> is a panic of the frame allocator.
\<close>

subsection \<open>Walks\<close>

datatype MapError = MapOutOfRange | MapOutOfMemory | AlreadyMapped | CorruptPageTable | HugePageUnsupported

datatype UnmapError = NotMapped

datatype AddressSpace = AddressSpace (p4_frame: PhysFrame)

definition AddressSpace_new_empty :: "Machine \<Rightarrow> ((MapError + AddressSpace) \<times> Machine) option" where
  "AddressSpace_new_empty m =
     do {
       (frame, m) \<leftarrow> alloc_frame m;
       Some (case frame of
          None \<Rightarrow> (Inl MapOutOfMemory, m)
        | Some frame \<Rightarrow> (Inr (AddressSpace frame), zero_frame frame m))
     }"

definition AddressSpace_cr3 :: "AddressSpace \<Rightarrow> u64" where
  "AddressSpace_cr3 self = PhysAddr_as_u64 (PhysFrame_start_address (p4_frame self)) AND ADDR_MASK"

definition next_level_or_create ::
  "PhysFrame \<Rightarrow> PageTableIndex \<Rightarrow> PageTableFlags \<Rightarrow> Machine \<Rightarrow> ((MapError + PhysFrame) \<times> Machine) option" where
  "next_level_or_create parent index intermediate m =
     (let entry = PageTable_entry m parent index in
      if PageTableEntry_is_huge entry then Some (Inl AlreadyMapped, m)
      else if \<not> PageTableEntry_is_present entry then
        do {
          (frame, m) \<leftarrow> alloc_frame m;
          Some (case frame of
             None \<Rightarrow> (Inl MapOutOfMemory, m)
           | Some frame \<Rightarrow>
               (Inr frame, PageTable_store (parent, index) (PageTableEntry_new frame intermediate) (zero_frame frame m)))
        }
      else Some (ok_or (PageTableEntry_frame entry) MapOutOfMemory, m))"

text \<open>The location of the leaf entry, with the missing tables above it created.\<close>

definition AddressSpace_walk_or_create ::
  "AddressSpace \<Rightarrow> Page \<Rightarrow> PageTableFlags \<Rightarrow> Machine \<Rightarrow> ((MapError + PhysFrame \<times> PageTableIndex) \<times> Machine) option" where
  "AddressSpace_walk_or_create self page intermediate m =
     try_then (next_level_or_create (p4_frame self) (p4_index page) intermediate m) (\<lambda>p3 m.
     try_then (next_level_or_create p3 (p3_index page) intermediate m) (\<lambda>p2 m.
     try_then (next_level_or_create p2 (p2_index page) intermediate m) (\<lambda>p1 m.
       Some (Inr (p1, p1_index page), m))))"

definition AddressSpace_walk_mut :: "AddressSpace \<Rightarrow> Page \<Rightarrow> Machine \<Rightarrow> (PhysFrame \<times> PageTableIndex) option" where
  "AddressSpace_walk_mut self page m =
     (let p4e = PageTable_entry m (p4_frame self) (p4_index page) in
      if \<not> PageTableEntry_is_present p4e then None
      else do {
        p3 \<leftarrow> PageTableEntry_frame p4e;
        let p3e = PageTable_entry m p3 (p3_index page);
        if \<not> PageTableEntry_is_present p3e \<or> PageTableEntry_is_huge p3e then None
        else do {
          p2 \<leftarrow> PageTableEntry_frame p3e;
          let p2e = PageTable_entry m p2 (p2_index page);
          if \<not> PageTableEntry_is_present p2e \<or> PageTableEntry_is_huge p2e then None
          else do {
            p1 \<leftarrow> PageTableEntry_frame p2e;
            Some (p1, p1_index page)
          }
        }
      })"

definition huge_frame :: "PageTableEntry \<Rightarrow> Page \<Rightarrow> PageTableLevel \<Rightarrow> PhysFrame" where
  "huge_frame entry page level =
     (let base = PageTableEntry_bits entry AND ADDR_MASK;
          large_size = (case level of Three \<Rightarrow> 0x40000000 | Two \<Rightarrow> 0x200000 | _ \<Rightarrow> PAGE_SIZE);
          base_aligned = base AND NOT (large_size - 1);
          intra = page_addr page AND (large_size - 1) in
      PhysFrame_containing_addr (PhysAddr_new_truncate (base_aligned + intra)))"

definition AddressSpace_translate :: "AddressSpace \<Rightarrow> Page \<Rightarrow> Machine \<Rightarrow> (PhysFrame \<times> PageTableFlags) option" where
  "AddressSpace_translate self page m =
     (let p4e = PageTable_entry m (p4_frame self) (p4_index page) in
      if \<not> PageTableEntry_is_present p4e then None
      else do {
        p3 \<leftarrow> PageTableEntry_frame p4e;
        let p3e = PageTable_entry m p3 (p3_index page);
        if \<not> PageTableEntry_is_present p3e then None
        else if PageTableEntry_is_huge p3e then Some (huge_frame p3e page Three, PageTableEntry_flags p3e)
        else do {
          p2 \<leftarrow> PageTableEntry_frame p3e;
          let p2e = PageTable_entry m p2 (p2_index page);
          if \<not> PageTableEntry_is_present p2e then None
          else if PageTableEntry_is_huge p2e then Some (huge_frame p2e page Two, PageTableEntry_flags p2e)
          else do {
            p1 \<leftarrow> PageTableEntry_frame p2e;
            let p1e = PageTable_entry m p1 (p1_index page);
            if \<not> PageTableEntry_is_present p1e then None
            else map_option (\<lambda>f. (f, PageTableEntry_flags p1e)) (PageTableEntry_frame p1e)
          }
        }
      })"

subsection \<open>Mapping\<close>

definition USER_INTERMEDIATE :: PageTableFlags where
  "USER_INTERMEDIATE = PageTableFlags_from_bits_truncate (0x1 OR 0x2 OR 0x4)"

definition KERNEL_INTERMEDIATE :: PageTableFlags where
  "KERNEL_INTERMEDIATE = PageTableFlags_from_bits_truncate (0x1 OR 0x2)"

definition AddressSpace_map_user ::
  "AddressSpace \<Rightarrow> Page \<Rightarrow> PhysFrame \<Rightarrow> PageTableFlags \<Rightarrow> Machine \<Rightarrow> ((MapError + unit) \<times> Machine) option" where
  "AddressSpace_map_user self page frame flags m =
     (if page_addr page > USER_MAX then Some (Inl MapOutOfRange, m)
      else try_then (AddressSpace_walk_or_create self page USER_INTERMEDIATE m) (\<lambda>leaf m.
        if PageTableEntry_is_present (PageTable_entry m (fst leaf) (snd leaf)) then Some (Inl AlreadyMapped, m)
        else Some (Inr (),
          shootdown (ShootdownPage (AddressSpace_cr3 self) (page_addr page))
            (PageTable_store leaf (PageTableEntry_new frame (PageTableFlags_bitor flags PageTableFlags_PRESENT)) m))))"

text \<open>The loop of \<open>map_kernel\<close> over the remaining frames.\<close>

fun map_kernel_loop :: "AddressSpace \<Rightarrow> PhysAddr \<Rightarrow> nat \<Rightarrow> Machine \<Rightarrow> ((MapError + unit) \<times> Machine) option" where
  "map_kernel_loop self phys 0 m = Some (Inr (), m)"
| "map_kernel_loop self phys (Suc count) m =
     (let frame = PhysFrame_containing_addr phys;
          page = Page_containing_addr (phys_to_virt m phys) in
      try_then (AddressSpace_walk_or_create self page KERNEL_INTERMEDIATE m) (\<lambda>leaf m.
        let m = shootdown (ShootdownKernelPage (page_addr page))
                  (PageTable_store leaf (PageTableEntry_new frame PageTableFlags_KERNEL_HHDM) m) in
        case checked_add (PhysAddr_as_u64 phys) PAGE_SIZE of
          Some next' \<Rightarrow> map_kernel_loop self (PhysAddr_new_truncate next') count m
        | None \<Rightarrow> Some (Inr (), m)))"

definition AddressSpace_map_kernel :: "AddressSpace \<Rightarrow> PhysAddr \<Rightarrow> u64 \<Rightarrow> Machine \<Rightarrow> ((MapError + unit) \<times> Machine) option" where
  "AddressSpace_map_kernel self phys_start count m =
     (if count = 0 then Some (Inr (), m)
      else map_kernel_loop self (PhysAddr_align_down phys_start PAGE_SIZE) (unat count) m)"

definition AddressSpace_unmap :: "AddressSpace \<Rightarrow> Page \<Rightarrow> Machine \<Rightarrow> (UnmapError + PhysFrame) \<times> Machine" where
  "AddressSpace_unmap self page m =
     (case AddressSpace_walk_mut self page m of
        None \<Rightarrow> (Inl NotMapped, m)
      | Some leaf \<Rightarrow>
          let entry = PageTable_entry m (fst leaf) (snd leaf) in
          if \<not> PageTableEntry_is_present entry then (Inl NotMapped, m)
          else
            let old_flags = PageTableEntry_flags entry;
                frame = PageTableEntry_frame entry;
                m = PageTable_store leaf PageTableEntry_empty m;
                m = shootdown (if PageTableFlags_contains old_flags PageTableFlags_USER
                               then ShootdownPage (AddressSpace_cr3 self) (page_addr page)
                               else ShootdownKernelPage (page_addr page)) m in
            (Inr (case frame of Some f \<Rightarrow> f | None \<Rightarrow> PhysFrame_containing_addr (PhysAddr 0)), m))"

definition AddressSpace_protect_user ::
  "AddressSpace \<Rightarrow> Page \<Rightarrow> PageTableFlags \<Rightarrow> Machine \<Rightarrow> (MapError + unit) \<times> Machine" where
  "AddressSpace_protect_user self page requested m =
     (if page_addr page > USER_MAX \<or> \<not> PageTableFlags_contains requested PageTableFlags_USER \<or>
         PageTableFlags_intersects requested (PageTableFlags_bitor PageTableFlags_GLOBAL PageTableFlags_HUGE_PAGE)
      then (Inl MapOutOfRange, m)
      else case AddressSpace_walk_mut self page m of
        None \<Rightarrow> (Inl CorruptPageTable, m)
      | Some leaf \<Rightarrow>
          let entry = PageTable_entry m (fst leaf) (snd leaf);
              old = PageTableEntry_flags entry in
          if \<not> PageTableFlags_contains old (PageTableFlags_bitor PageTableFlags_PRESENT PageTableFlags_USER) \<or>
             PageTableEntry_is_huge entry
          then (Inl CorruptPageTable, m)
          else case PageTableEntry_frame entry of
            None \<Rightarrow> (Inl CorruptPageTable, m)
          | Some frame \<Rightarrow>
              let next' = PageTableFlags_bitor requested PageTableFlags_PRESENT;
                  next' = (if PageTableFlags_contains old PageTableFlags_ACCESSED
                           then PageTableFlags_bitor next' PageTableFlags_ACCESSED else next');
                  next' = (if PageTableFlags_contains old PageTableFlags_DIRTY
                           then PageTableFlags_bitor next' PageTableFlags_DIRTY else next');
                  next' = (if PageTableFlags_contains old PageTableFlags_COPY_ON_WRITE
                           then PageTableFlags_remove (PageTableFlags_bitor next' PageTableFlags_COPY_ON_WRITE)
                                  PageTableFlags_WRITABLE
                           else next') in
              (Inr (), shootdown (ShootdownPage (AddressSpace_cr3 self) (page_addr page))
                         (PageTable_store leaf (PageTableEntry_new frame next') m)))"

end
