(* ===== verification/Cow_Fork.thy ===== *)
theory Cow_Fork
  imports Address_Space
begin

text \<open>
  Copy-on-write fork of an address space, its fault handler and the release of a hierarchy
  (\<open>kernel/src/mm/virtual/address_space.rs\<close>). The lock that serialises fork and faults makes each
  operation one step of the machine.
\<close>

subsection \<open>References of shared frames\<close>

definition cow_shared_flags :: "PageTableFlags \<Rightarrow> PageTableFlags" where
  "cow_shared_flags flags =
     (if PageTableFlags_contains flags PageTableFlags_WRITABLE
      then PageTableFlags_insert (PageTableFlags_remove flags PageTableFlags_WRITABLE) PageTableFlags_COPY_ON_WRITE
      else flags)"

definition retain_shared_user_frame :: "PhysFrame \<Rightarrow> Machine \<Rightarrow> (MapError + unit) \<times> Machine" where
  "retain_shared_user_frame frame m =
     (let frames = shared_user_frames m in
      case position (\<lambda>shared. shared_frame shared = frame) frames of
        Some i \<Rightarrow>
          if references (frames ! i) + 1 < 2 ^ 64
          then (Inr (), m\<lparr>shared_user_frames := frames[i := (frames ! i)\<lparr>references := references (frames ! i) + 1\<rparr>]\<rparr>)
          else (Inl CorruptPageTable, m)
      | None \<Rightarrow>
          (case try_reserve m of
             (False, m) \<Rightarrow> (Inl MapOutOfMemory, m)
           | (True, m) \<Rightarrow>
               (Inr (), m\<lparr>shared_user_frames := frames @ [\<lparr>shared_frame = frame, references = 2\<rparr>]\<rparr>)))"

definition shared_user_frame :: "PhysFrame \<Rightarrow> Machine \<Rightarrow> bool" where
  "shared_user_frame frame m \<longleftrightarrow> list_ex (\<lambda>shared. shared_frame shared = frame) (shared_user_frames m)"

text \<open>\<open>Vec::swap_remove\<close>: the last element takes the place of the removed one.\<close>

definition swap_remove :: "'a list \<Rightarrow> nat \<Rightarrow> 'a list" where
  "swap_remove xs i = butlast (xs[i := last xs])"

definition release_user_frame :: "PhysFrame \<Rightarrow> Machine \<Rightarrow> bool \<times> Machine" where
  "release_user_frame frame m =
     (let frames = shared_user_frames m in
      case position (\<lambda>shared. shared_frame shared = frame) frames of
        None \<Rightarrow> (True, m)
      | Some i \<Rightarrow>
          (False, m\<lparr>shared_user_frames :=
             (if references (frames ! i) > 2
              then frames[i := (frames ! i)\<lparr>references := references (frames ! i) - 1\<rparr>]
              else swap_remove frames i)\<rparr>))"

subsection \<open>The kernel half and the release of a hierarchy\<close>

text \<open>The indices of a loop over the entries from \<open>a\<close> to \<open>b\<close>; all are below 512, so building them never panics.\<close>

definition table_indices :: "nat \<Rightarrow> nat \<Rightarrow> PageTableIndex list" where
  "table_indices a b = map (\<lambda>i. PageTableIndex (of_nat i)) [a..<b]"

definition copy_kernel_half :: "AddressSpace \<Rightarrow> AddressSpace \<Rightarrow> Machine \<Rightarrow> Machine" where
  "copy_kernel_half parent child m =
     fold (\<lambda>index m. PageTable_store (p4_frame child, index) (PageTable_entry m (p4_frame parent) index) m)
       (table_indices (ENTRIES_PER_TABLE div 2) ENTRIES_PER_TABLE) m"

definition clear_kernel_half :: "AddressSpace \<Rightarrow> Machine \<Rightarrow> Machine" where
  "clear_kernel_half space m =
     fold (\<lambda>index m. PageTable_store (p4_frame space, index) PageTableEntry_empty m)
       (table_indices (ENTRIES_PER_TABLE div 2) ENTRIES_PER_TABLE) m"

text \<open>
  The body of the loop over the entries of one table: a present entry that is not huge has its table handled
  by \<open>inner\<close> and is then freed.
\<close>

definition destroy_entry :: "(PhysFrame \<Rightarrow> Machine \<Rightarrow> Machine option) \<Rightarrow> PhysFrame \<Rightarrow> Machine \<Rightarrow> PageTableIndex \<Rightarrow> Machine option" where
  "destroy_entry inner table m index =
     (let entry = PageTable_entry m table index in
      if \<not> PageTableEntry_is_present entry \<or> PageTableEntry_is_huge entry then Some m
      else
        let child = (case PageTableEntry_frame entry of Some f \<Rightarrow> f | None \<Rightarrow> PhysFrame_containing_addr (PhysAddr 0)) in
        do { m \<leftarrow> inner child m; free_frame child m })"

definition destroy_children :: "(PhysFrame \<Rightarrow> Machine \<Rightarrow> Machine option) \<Rightarrow> PhysFrame \<Rightarrow> Machine \<Rightarrow> Machine option" where
  "destroy_children inner table m = for_each (destroy_entry inner table) m (table_indices 0 ENTRIES_PER_TABLE)"

definition AddressSpace_destroy :: "AddressSpace \<Rightarrow> Machine \<Rightarrow> Machine option" where
  "AddressSpace_destroy self m =
     do {
       m \<leftarrow> destroy_children (destroy_children (destroy_children (\<lambda>pt m. Some m))) (p4_frame self) m;
       free_frame (p4_frame self) m
     }"

subsection \<open>Fork\<close>

record ForkMapping =
  fork_page :: Page
  fork_frame :: PhysFrame
  parent_flags :: "PageTableFlags option"

text \<open>The state of the loops of \<open>clone_user_mappings\<close>: the mappings made so far and the machine.\<close>

type_synonym clone_state = "ForkMapping list \<times> Machine"

definition clone_leaf ::
  "AddressSpace \<Rightarrow> AddressSpace \<Rightarrow> PageTableIndex \<Rightarrow> PageTableIndex \<Rightarrow> PageTableIndex \<Rightarrow> PhysFrame \<Rightarrow> PageTableIndex \<Rightarrow>
   clone_state \<Rightarrow> ((MapError + unit) \<times> clone_state) option" where
  "clone_leaf self child i4 i3 i2 p1 i1 = (\<lambda>(mapped, m).
     (let p1e = PageTable_entry m p1 i1 in
      if \<not> PageTableEntry_is_present p1e then Some (Inr (), mapped, m)
      else if \<not> PageTableFlags_contains (PageTableEntry_flags p1e) PageTableFlags_USER
      then Some (Inl CorruptPageTable, mapped, m)
      else (case try_reserve m of
        (False, m) \<Rightarrow> Some (Inl MapOutOfMemory, mapped, m)
      | (True, m) \<Rightarrow>
          (case PageTableEntry_frame p1e of
             None \<Rightarrow> Some (Inl CorruptPageTable, mapped, m)
           | Some source \<Rightarrow>
               let page = page_from_indices i4 i3 i2 i1;
                   original_flags = PageTableEntry_flags p1e;
                   shared_flags = cow_shared_flags original_flags in
               case retain_shared_user_frame source m of
                 (Inl e, m) \<Rightarrow> Some (Inl e, mapped, m)
               | (Inr u, m) \<Rightarrow>
                   (case AddressSpace_map_user child page source shared_flags m of
                      None \<Rightarrow> None
                    | Some (Inl error, m) \<Rightarrow> Some (Inl error, mapped, snd (release_user_frame source m))
                    | Some (Inr u, m) \<Rightarrow>
                        let restore = (if shared_flags \<noteq> original_flags then Some original_flags else None);
                            m = (if restore \<noteq> None
                                 then shootdown (ShootdownPage (AddressSpace_cr3 self) (page_addr page))
                                   (PageTable_store (p1, i1) (PageTableEntry_new source shared_flags) m)
                                 else m) in
                        Some (Inr (), mapped @ [\<lparr>fork_page = page, fork_frame = source, parent_flags = restore\<rparr>], m))))))"

text \<open>
  The guard of the three loops over the upper tables: an absent entry is skipped, a huge one refused, and
  \<open>inner\<close> clones what a present one leads to.
\<close>

definition clone_entry ::
  "PhysFrame \<Rightarrow> (PhysFrame \<Rightarrow> clone_state \<Rightarrow> ((MapError + unit) \<times> clone_state) option) \<Rightarrow> PageTableIndex \<Rightarrow>
   clone_state \<Rightarrow> ((MapError + unit) \<times> clone_state) option" where
  "clone_entry table inner index s =
     (let entry = PageTable_entry (snd s) table index in
      if \<not> PageTableEntry_is_present entry then Some (Inr (), s)
      else if PageTableEntry_is_huge entry then Some (Inl HugePageUnsupported, s)
      else case PageTableEntry_frame entry of
        None \<Rightarrow> Some (Inl CorruptPageTable, s)
      | Some next' \<Rightarrow> inner next' s)"

definition AddressSpace_clone_user_mappings ::
  "AddressSpace \<Rightarrow> AddressSpace \<Rightarrow> ForkMapping list \<Rightarrow> Machine \<Rightarrow> ((MapError + unit) \<times> clone_state) option" where
  "AddressSpace_clone_user_mappings self child mapped m =
     for_try (\<lambda>i4. clone_entry (p4_frame self) (\<lambda>p3.
       for_try (\<lambda>i3. clone_entry p3 (\<lambda>p2.
         for_try (\<lambda>i2. clone_entry p2 (\<lambda>p1.
           for_try (clone_leaf self child i4 i3 i2 p1) (table_indices 0 ENTRIES_PER_TABLE))
         i2) (table_indices 0 ENTRIES_PER_TABLE))
       i3) (table_indices 0 ENTRIES_PER_TABLE))
     i4) (table_indices 0 (ENTRIES_PER_TABLE div 2)) (mapped, m)"

definition rollback_mapping :: "AddressSpace \<Rightarrow> AddressSpace \<Rightarrow> ForkMapping \<Rightarrow> Machine \<Rightarrow> Machine" where
  "rollback_mapping parent child mapping m =
     (let m = snd (AddressSpace_unmap child (fork_page mapping) m);
          m = snd (release_user_frame (fork_frame mapping) m) in
      case parent_flags mapping of
        None \<Rightarrow> m
      | Some flags \<Rightarrow>
          (case AddressSpace_walk_mut parent (fork_page mapping) m of
             None \<Rightarrow> m
           | Some leaf \<Rightarrow>
               shootdown (ShootdownPage (AddressSpace_cr3 parent) (page_addr (fork_page mapping)))
                 (PageTable_store leaf (PageTableEntry_new (fork_frame mapping) flags) m)))"

definition rollback_fork :: "AddressSpace \<Rightarrow> AddressSpace \<Rightarrow> ForkMapping list \<Rightarrow> Machine \<Rightarrow> Machine option" where
  "rollback_fork parent child mapped m =
     AddressSpace_destroy child
       (clear_kernel_half child (fold (rollback_mapping parent child) (rev mapped) m))"

definition AddressSpace_fork :: "AddressSpace \<Rightarrow> Machine \<Rightarrow> ((MapError + AddressSpace) \<times> Machine) option" where
  "AddressSpace_fork self m =
     try_then (AddressSpace_new_empty m) (\<lambda>child m.
       let m = copy_kernel_half self child m in
       do {
         (result, mapped, m) \<leftarrow> AddressSpace_clone_user_mappings self child [] m;
         case result of
           Inl error \<Rightarrow> do { m \<leftarrow> rollback_fork self child mapped m; Some (Inl error, m) }
         | Inr u \<Rightarrow> Some (Inr child, m)
       })"

subsection \<open>Write faults\<close>

definition AddressSpace_resolve_cow_fault :: "AddressSpace \<Rightarrow> Page \<Rightarrow> Machine \<Rightarrow> ((MapError + bool) \<times> Machine) option" where
  "AddressSpace_resolve_cow_fault self page m =
     (case AddressSpace_walk_mut self page m of
        None \<Rightarrow> Some (Inr False, m)
      | Some leaf \<Rightarrow>
          let entry = PageTable_entry m (fst leaf) (snd leaf);
              flags = PageTableEntry_flags entry in
          if \<not> PageTableFlags_contains flags (PageTableFlags_bitor PageTableFlags_PRESENT PageTableFlags_USER) \<or>
             \<not> PageTableFlags_contains flags PageTableFlags_COPY_ON_WRITE \<or>
             PageTableFlags_contains flags PageTableFlags_WRITABLE
          then Some (Inr False, m)
          else (case PageTableEntry_frame entry of
            None \<Rightarrow> Some (Inl CorruptPageTable, m)
          | Some source \<Rightarrow>
              let writable = PageTableFlags_insert (PageTableFlags_remove flags PageTableFlags_COPY_ON_WRITE) PageTableFlags_WRITABLE;
                  flush = shootdown (ShootdownPage (AddressSpace_cr3 self) (page_addr page)) in
              if shared_user_frame source m
              then do {
                (destination, m) \<leftarrow> alloc_frame m;
                case destination of
                  None \<Rightarrow> Some (Inl MapOutOfMemory, m)
                | Some destination \<Rightarrow>
                    let m = copy_frame source destination m;
                        m = PageTable_store leaf (PageTableEntry_new destination writable) m;
                        (unowned, m) = release_user_frame source m in
                    if unowned
                    then do {
                      m \<leftarrow> free_frame destination (PageTable_store leaf (PageTableEntry_new source flags) m);
                      Some (Inl CorruptPageTable, m)
                    }
                    else Some (Inr True, flush m)
              }
              else Some (Inr True, flush (PageTable_store leaf (PageTableEntry_new source writable) m))))"

end
