(* ===== verification/Address_Space_Laws.thy ===== *)
theory Address_Space_Laws
  imports Address_Space
begin

text \<open>
  The contract of an address space: what a page translates to changes only where an operation says so,
  in the space it works on, and the tables stay a tree of frames the allocator has handed out.
\<close>

subsection \<open>Entries\<close>

definition frame_ok :: "PhysFrame \<Rightarrow> bool" where
  "frame_ok f \<longleftrightarrow> PhysFrame_wf f \<and> unat (PhysAddr_as_u64 (PhysFrame_start_address f)) < 2 ^ 52"

definition flags_ok :: "PageTableFlags \<Rightarrow> bool" where
  "flags_ok fl \<longleftrightarrow> PageTableFlags_bits fl AND PageTableFlags_bits PageTableFlags_ALL = PageTableFlags_bits fl"

text \<open>The frame of a present entry.\<close>

definition entry_frame :: "PageTableEntry \<Rightarrow> PhysFrame" where
  "entry_frame e = PhysFrame_containing_addr (PhysAddr_new_truncate (PageTableEntry_bits e AND ADDR_MASK))"

lemma PageTableEntry_frame_present:
  "PageTableEntry_is_present e \<Longrightarrow> PageTableEntry_frame e = Some (entry_frame e)"
  by (simp add: PageTableEntry_frame_def entry_frame_def Let_def)

lemma bit_ADDR_MASK: "bit ADDR_MASK n \<longleftrightarrow> 12 \<le> n \<and> n < 52"
proof -
  have eq: "ADDR_MASK = push_bit 12 (mask 40)" by (simp add: ADDR_MASK_def mask_eq_exp_minus_1 push_bit_eq_mult)
  show ?thesis unfolding eq by (auto simp: bit_simps)
qed

lemma bit_ALL: "bit (PageTableFlags_bits PageTableFlags_ALL) n \<longleftrightarrow> n < 10 \<or> n = 63"
proof -
  have eq: "PageTableFlags_bits PageTableFlags_ALL = mask 10 OR push_bit 63 1"
    by (simp add: PageTableFlags_ALL_def mask_eq_exp_minus_1 push_bit_eq_mult)
  show ?thesis unfolding eq bit_or_iff bit_push_bit_iff bit_mask_iff bit_1_iff by auto
qed

lemma bit_push_1: "bit (push_bit k 1 :: u64) n \<longleftrightarrow> n = k \<and> k < 64"
  unfolding bit_push_bit_iff bit_1_iff by auto

lemma bit_flags:
  "bit (PageTableFlags_bits PageTableFlags_PRESENT) n \<longleftrightarrow> n = 0"
  "bit (PageTableFlags_bits PageTableFlags_WRITABLE) n \<longleftrightarrow> n = 1"
  "bit (PageTableFlags_bits PageTableFlags_USER) n \<longleftrightarrow> n = 2"
  "bit (PageTableFlags_bits PageTableFlags_ACCESSED) n \<longleftrightarrow> n = 5"
  "bit (PageTableFlags_bits PageTableFlags_DIRTY) n \<longleftrightarrow> n = 6"
  "bit (PageTableFlags_bits PageTableFlags_HUGE_PAGE) n \<longleftrightarrow> n = 7"
  "bit (PageTableFlags_bits PageTableFlags_GLOBAL) n \<longleftrightarrow> n = 8"
  "bit (PageTableFlags_bits PageTableFlags_COPY_ON_WRITE) n \<longleftrightarrow> n = 9"
proof -
  have eq: "PageTableFlags_bits PageTableFlags_PRESENT = push_bit 0 1" "PageTableFlags_bits PageTableFlags_WRITABLE = push_bit 1 1"
    "PageTableFlags_bits PageTableFlags_USER = push_bit 2 1" "PageTableFlags_bits PageTableFlags_ACCESSED = push_bit 5 1"
    "PageTableFlags_bits PageTableFlags_DIRTY = push_bit 6 1" "PageTableFlags_bits PageTableFlags_HUGE_PAGE = push_bit 7 1"
    "PageTableFlags_bits PageTableFlags_GLOBAL = push_bit 8 1" "PageTableFlags_bits PageTableFlags_COPY_ON_WRITE = push_bit 9 1"
    by (simp_all add: PageTableFlags_PRESENT_def PageTableFlags_WRITABLE_def PageTableFlags_USER_def PageTableFlags_ACCESSED_def
        PageTableFlags_DIRTY_def PageTableFlags_HUGE_PAGE_def PageTableFlags_GLOBAL_def PageTableFlags_COPY_ON_WRITE_def)
  show "bit (PageTableFlags_bits PageTableFlags_PRESENT) n \<longleftrightarrow> n = 0"
    "bit (PageTableFlags_bits PageTableFlags_WRITABLE) n \<longleftrightarrow> n = 1"
    "bit (PageTableFlags_bits PageTableFlags_USER) n \<longleftrightarrow> n = 2"
    "bit (PageTableFlags_bits PageTableFlags_ACCESSED) n \<longleftrightarrow> n = 5"
    "bit (PageTableFlags_bits PageTableFlags_DIRTY) n \<longleftrightarrow> n = 6"
    "bit (PageTableFlags_bits PageTableFlags_HUGE_PAGE) n \<longleftrightarrow> n = 7"
    "bit (PageTableFlags_bits PageTableFlags_GLOBAL) n \<longleftrightarrow> n = 8"
    "bit (PageTableFlags_bits PageTableFlags_COPY_ON_WRITE) n \<longleftrightarrow> n = 9"
    unfolding eq bit_push_1 by auto
qed

lemma word_eq_bits: "(x :: u64) = y \<longleftrightarrow> (\<forall>n. bit x n = bit y n)"
  using bit_word_eqI by auto

lemma contains_bits: "PageTableFlags_contains a b \<longleftrightarrow> (\<forall>n. bit (PageTableFlags_bits b) n \<longrightarrow> bit (PageTableFlags_bits a) n)"
  unfolding PageTableFlags_contains_def word_eq_bits bit_and_iff by blast

lemma flags_ok_bits: "flags_ok fl \<longleftrightarrow> (\<forall>n. bit (PageTableFlags_bits fl) n \<longrightarrow> n < 10 \<or> n = 63)"
  unfolding flags_ok_def word_eq_bits bit_and_iff bit_ALL by blast

lemma flags_eqI: "(\<And>n. bit (PageTableFlags_bits a) n = bit (PageTableFlags_bits b) n) \<Longrightarrow> a = b"
  by (rule PageTableFlags.expand) (simp add: word_eq_bits)

lemma bit_flag_ops:
  "bit (PageTableFlags_bits (PageTableFlags_bitor a b)) n \<longleftrightarrow> bit (PageTableFlags_bits a) n \<or> bit (PageTableFlags_bits b) n"
  "bit (PageTableFlags_bits (PageTableFlags_insert a b)) n \<longleftrightarrow> bit (PageTableFlags_bits a) n \<or> bit (PageTableFlags_bits b) n"
  "bit (PageTableFlags_bits (PageTableFlags_remove a b)) n \<longleftrightarrow> bit (PageTableFlags_bits a) n \<and> \<not> bit (PageTableFlags_bits b) n"
  by (auto simp: PageTableFlags_bitor_def PageTableFlags_insert_def PageTableFlags_remove_def bit_simps dest: bit_imp_le_length)

lemmas flag_bits = contains_bits flags_ok_bits bit_flag_ops bit_flags

lemma entry_flags_ok [simp]: "flags_ok (PageTableEntry_flags e)"
  by (simp add: flags_ok_bits PageTableEntry_flags_def PageTableFlags_from_bits_truncate_def bit_and_iff bit_ALL)

lemma bit_entry_flags:
  "bit (PageTableFlags_bits (PageTableEntry_flags e)) n \<longleftrightarrow> bit (PageTableEntry_bits e) n \<and> (n < 10 \<or> n = 63)"
  by (auto simp: PageTableEntry_flags_def PageTableFlags_from_bits_truncate_def bit_and_iff bit_ALL)

lemma bit_present: "PageTableEntry_is_present e \<longleftrightarrow> bit (PageTableEntry_bits e) 0"
  by (simp add: PageTableEntry_is_present_def PageTableFlags_PRESENT_def and_one_eq bit_0 odd_iff_mod_2_eq_one)

lemma bit_huge: "PageTableEntry_is_huge e \<longleftrightarrow> bit (PageTableEntry_bits e) 7"
proof -
  have eq: "PageTableFlags_bits PageTableFlags_HUGE_PAGE = push_bit 7 1" by (simp add: PageTableFlags_HUGE_PAGE_def)
  show ?thesis unfolding PageTableEntry_is_huge_def eq bit_iff_and_push_bit_not_eq_0 by (rule refl)
qed

lemma PAGE_SIZE_mask: "is_power_of_two PAGE_SIZE" "PAGE_SIZE - 1 = mask 12"
  using is_power_of_two_PAGE_SIZE by (simp_all add: PAGE_SIZE_def mask_eq_exp_minus_1)

lemma entry_frame_start:
  "PhysAddr_as_u64 (PhysFrame_start_address (entry_frame e)) = PageTableEntry_bits e AND ADDR_MASK"
  by (auto simp: entry_frame_def PhysFrame_containing_addr_def PhysAddr_new_truncate_def PhysAddr_align_down_def
      PAGE_SIZE_mask PHYS_ADDR_MASK_eq bit_simps bit_ADDR_MASK intro!: bit_word_eqI)

lemma frame_ok_bits:
  "frame_ok f \<longleftrightarrow> PhysAddr_as_u64 (PhysFrame_start_address f) AND ADDR_MASK = PhysAddr_as_u64 (PhysFrame_start_address f)"
  (is "_ \<longleftrightarrow> ?a AND _ = _")
proof -
  have "?a AND ADDR_MASK = (?a AND mask 52) AND NOT (mask 12)"
    by (auto simp: bit_simps bit_ADDR_MASK intro!: bit_word_eqI)
  then have "?a AND ADDR_MASK = ?a \<longleftrightarrow> unat ?a mod 2 ^ 52 div 2 ^ 12 * 2 ^ 12 = unat ?a"
    by (simp only: flip: unat_and_mask unat_and_not_mask) (simp add: word_unat_eq_iff)
  also have "\<dots> \<longleftrightarrow> 4096 dvd unat ?a \<and> unat ?a < 2 ^ 52"
  proof
    assume e: "unat ?a mod 2 ^ 52 div 2 ^ 12 * 2 ^ 12 = unat ?a"
    then have "2 ^ 12 dvd unat ?a" by (metis dvd_triv_right)
    moreover have "unat ?a \<le> unat ?a mod 2 ^ 52" using e by (metis div_times_less_eq_dividend)
    ultimately show "4096 dvd unat ?a \<and> unat ?a < 2 ^ 52"
      using mod_less_divisor [of "2 ^ 52" "unat ?a"] by simp
  qed simp
  finally show ?thesis by (auto simp: frame_ok_def PhysFrame_wf_def)
qed

lemma entry_frame_ok [simp]: "frame_ok (entry_frame e)"
  by (simp add: frame_ok_bits entry_frame_start and.assoc)

lemma frame_eqI: "PhysAddr_as_u64 (PhysFrame_start_address f) = PhysAddr_as_u64 (PhysFrame_start_address g) \<Longrightarrow> f = g"
  by (cases f; cases g) (metis PhysAddr.expand PhysFrame.sel)

lemma entry_new:
  assumes "frame_ok f" "flags_ok fl"
  shows "entry_frame (PageTableEntry_new f fl) = f" "PageTableEntry_flags (PageTableEntry_new f fl) = fl"
    "n < 10 \<Longrightarrow> bit (PageTableEntry_bits (PageTableEntry_new f fl)) n \<longleftrightarrow> bit (PageTableFlags_bits fl) n"
proof -
  let ?a = "PhysAddr_as_u64 (PhysFrame_start_address f)"
  have a: "bit ?a n \<Longrightarrow> 12 \<le> n \<and> n < 52" for n
    using assms(1) unfolding frame_ok_bits by (metis bit_ADDR_MASK bit_and_iff)
  have fl: "bit (PageTableFlags_bits fl) n \<Longrightarrow> n < 10 \<or> n = 63" for n
    using assms(2) unfolding flags_ok_def by (metis bit_ALL bit_and_iff)
  show "entry_frame (PageTableEntry_new f fl) = f"
    by (rule frame_eqI, unfold entry_frame_start)
      (fastforce simp: PageTableEntry_new_def bit_simps bit_ADDR_MASK dest: a fl intro!: bit_word_eqI)
  show "PageTableEntry_flags (PageTableEntry_new f fl) = fl"
    by (rule PageTableFlags.expand, rule bit_word_eqI)
      (fastforce simp: PageTableEntry_flags_def PageTableFlags_from_bits_truncate_def PageTableEntry_new_def
        bit_simps bit_ADDR_MASK bit_ALL dest: a fl)
  show "bit (PageTableEntry_bits (PageTableEntry_new f fl)) n \<longleftrightarrow> bit (PageTableFlags_bits fl) n" if "n < 10"
    using that by (auto simp: PageTableEntry_new_def bit_simps dest: a)
qed

subsection \<open>Walks through the tables\<close>

abbreviation index :: "PageTableIndex \<Rightarrow> nat" where
  "index i \<equiv> unat (PageTableIndex_value i)"

text \<open>
  \<open>table_at m r is\<close> is the table reached from the table \<open>r\<close> along the indices \<open>is\<close>;
  \<open>walked m r is\<close> lists the entries read on the way.
\<close>

definition links :: "PageTableEntry \<Rightarrow> bool" where
  "links e \<longleftrightarrow> PageTableEntry_is_present e \<and> \<not> PageTableEntry_is_huge e"

fun table_at :: "Machine \<Rightarrow> PhysFrame \<Rightarrow> PageTableIndex list \<Rightarrow> PhysFrame option" where
  "table_at m r [] = Some r"
| "table_at m r (i # is) =
     (if links (PageTable_entry m r i) then table_at m (entry_frame (PageTable_entry m r i)) is else None)"

fun walked :: "Machine \<Rightarrow> PhysFrame \<Rightarrow> PageTableIndex list \<Rightarrow> (PhysFrame \<times> PageTableIndex) list" where
  "walked m r [] = []"
| "walked m r (i # is) =
     (r, i) # (if links (PageTable_entry m r i) then walked m (entry_frame (PageTable_entry m r i)) is else [])"

lemma table_at_append:
  "table_at m r (is @ js) = (case table_at m r is of None \<Rightarrow> None | Some f \<Rightarrow> table_at m f js)"
  by (induction "is" arbitrary: r) auto

lemma walked_append:
  "walked m r (is @ js) = walked m r is @ (case table_at m r is of None \<Rightarrow> [] | Some f \<Rightarrow> walked m f js)"
  by (induction "is" arbitrary: r) auto

lemma in_walked:
  "(f, i) \<in> set (walked m r is) \<longleftrightarrow> (\<exists>p q. is = p @ i # q \<and> table_at m r p = Some f)"
proof (induction "is" arbitrary: r)
  case (Cons j "is")
  show ?case
  proof
    assume "(f, i) \<in> set (walked m r (j # is))"
    then consider "f = r" "i = j"
      | "links (PageTable_entry m r j)" "(f, i) \<in> set (walked m (entry_frame (PageTable_entry m r j)) is)"
      by (auto split: if_split_asm)
    then show "\<exists>p q. j # is = p @ i # q \<and> table_at m r p = Some f"
    proof cases
      case 1
      then show ?thesis by (intro exI [of _ "[]"] exI [of _ "is"]) simp
    next
      case 2
      then obtain p q where "is = p @ i # q" "table_at m (entry_frame (PageTable_entry m r j)) p = Some f"
        using Cons.IH by blast
      then show ?thesis using 2 by (intro exI [of _ "j # p"] exI [of _ q]) simp
    qed
  next
    assume "\<exists>p q. j # is = p @ i # q \<and> table_at m r p = Some f"
    then obtain p q where pq: "j # is = p @ i # q" "table_at m r p = Some f" by blast
    then show "(f, i) \<in> set (walked m r (j # is))"
      using Cons.IH by (cases p) (auto split: if_split_asm)
  qed
qed simp

lemma table_at_cong:
  assumes "\<forall>(f, i)\<in>set (walked m r is). PageTable_entry m' f i = PageTable_entry m f i"
  shows "table_at m' r is = table_at m r is" "walked m' r is = walked m r is"
  using assms by (induction "is" arbitrary: r) auto

text \<open>The indices of a page, and its translation as a walk along them.\<close>

definition page_path :: "Page \<Rightarrow> PageTableIndex list" where
  "page_path q = [p4_index q, p3_index q, p2_index q, p1_index q]"

lemma translate_cong:
  assumes "\<forall>(f, i)\<in>set (walked m (p4_frame sp) (page_path q)). PageTable_entry m' f i = PageTable_entry m f i"
    and "\<not> PageTableEntry_is_huge (PageTable_entry m (p4_frame sp) (p4_index q))"
  shows "AddressSpace_translate sp q m' = AddressSpace_translate sp q m"
  using assms
  by (auto simp: AddressSpace_translate_def page_path_def Let_def links_def PageTableEntry_frame_present split: if_split_asm)

text \<open>
  A user page lies below the tables that \<open>table_at\<close> reaches along its first three indices.
\<close>

lemma translate_leaf:
  assumes "table_at m (p4_frame sp) [p4_index q, p3_index q, p2_index q] = Some t"
  shows "AddressSpace_translate sp q m =
    (let e = PageTable_entry m t (p1_index q) in
     if PageTableEntry_is_present e then Some (entry_frame e, PageTableEntry_flags e) else None)"
    "AddressSpace_walk_mut sp q m = Some (t, p1_index q)"
  using assms
  by (auto simp: AddressSpace_translate_def AddressSpace_walk_mut_def Let_def links_def PageTableEntry_frame_present
      split: if_split_asm)

subsection \<open>Indices\<close>

definition index_at :: "nat \<Rightarrow> u64 \<Rightarrow> PageTableIndex" where
  "index_at s a = PageTableIndex_new_truncate (ucast (drop_bit s a AND 0x1FF))"

lemma index_at_simps:
  "p4_index q = index_at 39 (page_addr q)" "p3_index q = index_at 30 (page_addr q)"
  "p2_index q = index_at 21 (page_addr q)" "p1_index q = index_at 12 (page_addr q)"
  by (simp_all add: p4_index_def p3_index_def p2_index_def p1_index_def index_at_def)

lemma mask_9: "(0x1FF :: 'a::len word) = mask 9"
  by (simp add: mask_eq_exp_minus_1)

lemma bit_index_at: "s + 9 \<le> 64 \<Longrightarrow> bit (PageTableIndex_value (index_at s a)) n \<longleftrightarrow> n < 9 \<and> bit a (s + n)"
  unfolding index_at_def PageTableIndex_new_truncate_def mask_9 PageTableIndex.sel
  by (auto simp: bit_simps dest: bit_imp_le_length)

lemma index_at_nat: "index (index_at s a) = unat a div 2 ^ s mod 512"
proof -
  have "unat (ucast (drop_bit s a AND mask 9) :: u16) = unat a div 2 ^ s mod 512"
    by (simp add: unsigned_ucast_eq unat_and_mask unat_drop_bit_eq take_bit_eq_mod del: drop_bit_eq_div)
      (simp add: drop_bit_eq_div)
  then show ?thesis
    unfolding index_at_def PageTableIndex_new_truncate_def mask_9 by (simp add: unat_and_mask)
qed

lemma index_less [simp]:
  "index (p4_index q) < 512" "index (p3_index q) < 512" "index (p2_index q) < 512" "index (p1_index q) < 512"
  by (simp_all add: index_at_simps index_at_nat)

lemma index_inject: "index i = index j \<longleftrightarrow> i = j"
  by (metis PageTableIndex.expand word_unat_eq_iff)

lemma page_path_inj:
  assumes "Page_wf p" "Page_wf q" "page_path p = page_path q"
  shows "p = q"
proof -
  have e: "index_at s (page_addr p) = index_at s (page_addr q)" if "s \<in> {12, 21, 30, 39}" for s
    using assms(3) that by (auto simp: page_path_def index_at_simps)
  have mid: "bit (page_addr p) n = bit (page_addr q) n" if "12 \<le> n" "n < 48" for n
  proof -
    have "\<exists>s\<in>{12, 21, 30, 39 :: nat}. s \<le> n \<and> n - s < 9" using that by (simp; presburger)
    then obtain s where s: "s \<in> {12, 21, 30, 39 :: nat}" "s \<le> n" "n - s < 9" by blast
    then have "s + 9 \<le> 64" by auto
    then show ?thesis using bit_index_at [of s _ "n - s"] e [OF s(1)] s by (metis le_add_diff_inverse)
  qed
  have low: "\<not> bit (page_addr x) n" if "Page_wf x" "n < 12" for x n
  proof -
    have "unat (page_addr x AND mask 12) = 0" using that(1) by (simp add: unat_and_mask Page_wf_def dvd_eq_mod_eq_0)
    then have "page_addr x AND mask 12 = 0" by (simp add: unsigned_eq_0_iff)
    then have "\<not> bit (page_addr x AND mask 12) n" by simp
    then show ?thesis using that(2) by (simp add: bit_simps)
  qed
  have high: "bit (page_addr x) n = bit (page_addr x) 47" if "Page_wf x" "48 \<le> n" "n < 64" for x n
    using that by (auto simp: Page_wf_def VirtAddr_wf_def is_canonical_bits)
  have "page_addr p = page_addr q"
  proof (rule bit_word_eqI)
    fix n assume n: "n < LENGTH(64)"
    consider "n < 12" | "12 \<le> n" "n < 48" | "48 \<le> n" by linarith
    then show "bit (page_addr p) n = bit (page_addr q) n"
      using low mid high assms(1,2) n by cases (simp_all)
  qed
  then show ?thesis by (metis Page.expand VirtAddr.expand)
qed

lemma user_page_index:
  assumes "Page_wf q"
  shows "page_addr q \<le> USER_MAX \<longleftrightarrow> index (p4_index q) < 256"
proof -
  let ?a = "unat (page_addr q)"
  have c: "?a < 2 ^ 47 \<or> 2 ^ 64 - 2 ^ 47 \<le> ?a" "?a < 2 ^ 64"
    using assms unat_less_exp [of "page_addr q"] by (simp_all add: Page_wf_def VirtAddr_wf_def is_canonical_range)
  have "page_addr q \<le> USER_MAX \<longleftrightarrow> ?a < 2 ^ 47" by (simp add: word_le_nat_alt USER_MAX_def less_Suc_eq_le [symmetric])
  moreover have "?a div 2 ^ 39 mod 512 < 256 \<longleftrightarrow> ?a < 2 ^ 47"
  proof (cases "?a < 2 ^ 47")
    case True
    then have "?a div 2 ^ 39 < 256" by (simp add: div_less_iff_less_mult)
    then show ?thesis using True by simp
  next
    case False
    then have "2 ^ 25 - 256 \<le> ?a div 2 ^ 39" "?a div 2 ^ 39 < 2 ^ 25"
      using c by (simp_all add: div_less_iff_less_mult less_eq_div_iff_mult_less_eq)
    then obtain r where "?a div 2 ^ 39 = (256 + r) + 65535 * 512" "r < 256"
      by (intro that [of "?a div 2 ^ 39 - (2 ^ 25 - 256)"]) auto
    then have "256 \<le> ?a div 2 ^ 39 mod 512" by (simp only: mod_mult_self1) simp
    then show ?thesis using False by simp
  qed
  ultimately show ?thesis by (simp add: index_at_simps index_at_nat)
qed

subsection \<open>The invariant of a set of address spaces\<close>

definition path_ok :: "nat \<Rightarrow> PageTableIndex list \<Rightarrow> bool" where
  "path_ok n p \<longleftrightarrow> length p \<le> n \<and> (\<forall>i\<in>set p. index i < 512)"

text \<open>The lower half of the root table belongs to the space, the upper half to the kernel.\<close>

definition user_path :: "PageTableIndex list \<Rightarrow> bool" where
  "user_path p \<longleftrightarrow> p = [] \<or> index (hd p) < 256"

definition tables :: "Machine \<Rightarrow> PhysFrame set \<Rightarrow> PhysFrame set" where
  "tables m S = {f. \<exists>r\<in>S. \<exists>p. path_ok 3 p \<and> table_at m r p = Some f}"

definition frame_free :: "Machine \<Rightarrow> PhysFrame \<Rightarrow> bool" where
  "frame_free m f \<longleftrightarrow> (\<exists>a. frame_allocator m = Some a \<and> unat (PhysFrame_number f) \<in> free_set a)"

definition frame_taken :: "Machine \<Rightarrow> PhysFrame \<Rightarrow> bool" where
  "frame_taken m f \<longleftrightarrow> frame_ok f \<and>
     (\<exists>a. frame_allocator m = Some a \<and> unat (PhysFrame_number f) \<in> releasable_set a - free_set a)"

definition alloc_inv :: "Machine \<Rightarrow> bool" where
  "alloc_inv m \<longleftrightarrow> (\<forall>a. frame_allocator m = Some a \<longrightarrow> allocator_inv a \<and> unat (total_frames a) \<le> 2 ^ 40)"

text \<open>
  A table below the user half is reached along one path of one space only; the entries that should lead
  to its tables never carry the huge bit; and the allocator has handed out every table.
\<close>

definition tree_inv :: "Machine \<Rightarrow> PhysFrame set \<Rightarrow> bool" where
  "tree_inv m S \<longleftrightarrow>
     (\<forall>r\<in>S. \<forall>r'\<in>S. \<forall>p q f. user_path p \<and> path_ok 3 p \<and> path_ok 3 q \<and>
        table_at m r p = Some f \<and> table_at m r' q = Some f \<longrightarrow> r = r' \<and> p = q)"

definition small_inv :: "Machine \<Rightarrow> PhysFrame set \<Rightarrow> bool" where
  "small_inv m S \<longleftrightarrow>
     (\<forall>r\<in>S. \<forall>p i f. user_path p \<and> path_ok 3 (p @ [i]) \<and> table_at m r p = Some f \<longrightarrow>
        \<not> PageTableEntry_is_huge (PageTable_entry m f i))"

definition frames_inv :: "Machine \<Rightarrow> PhysFrame set \<Rightarrow> bool" where
  "frames_inv m S \<longleftrightarrow>
     (\<forall>r\<in>S. \<forall>p f. path_ok 3 p \<and> table_at m r p = Some f \<longrightarrow>
        \<not> frame_free m f \<and> (user_path p \<longrightarrow> frame_taken m f))"

definition vm_inv :: "Machine \<Rightarrow> PhysFrame set \<Rightarrow> bool" where
  "vm_inv m S \<longleftrightarrow> alloc_inv m \<and> tree_inv m S \<and> small_inv m S \<and> frames_inv m S"

lemma path_ok_mono: "path_ok n p \<Longrightarrow> n \<le> k \<Longrightarrow> path_ok k p"
  by (simp add: path_ok_def)

lemma path_ok_append: "path_ok n (p @ i # q) \<Longrightarrow> path_ok (n - 1) p \<and> index i < 512"
  by (auto simp: path_ok_def)

lemma path_ok_page_path [simp]: "path_ok 4 (page_path q)"
  by (simp add: path_ok_def page_path_def)

lemma tablesI: "r \<in> S \<Longrightarrow> path_ok 3 p \<Longrightarrow> table_at m r p = Some f \<Longrightarrow> f \<in> tables m S"
  by (auto simp: tables_def)

lemma walked_tables:
  assumes "r \<in> S" "path_ok 4 js" "(f, i) \<in> set (walked m r js)"
  shows "f \<in> tables m S" "index i < 512"
proof -
  obtain p q where "js = p @ i # q" "table_at m r p = Some f" using assms(3) unfolding in_walked by blast
  then show "f \<in> tables m S" "index i < 512"
    using assms(1,2) path_ok_append [of 4 p i q] by (auto intro: tablesI)
qed

lemma tree_invD:
  assumes "tree_inv m S" "r \<in> S" "r' \<in> S" "user_path p" "path_ok 3 p" "path_ok 3 q"
    "table_at m r p = Some f" "table_at m r' q = Some f"
  shows "r = r'" "p = q"
  using assms unfolding tree_inv_def by blast+

lemma small_invD:
  assumes "small_inv m S" "r \<in> S" "user_path p" "path_ok 3 (p @ [i])" "table_at m r p = Some f"
  shows "\<not> PageTableEntry_is_huge (PageTable_entry m f i)"
  using assms unfolding small_inv_def by blast

text \<open>Memory outside the tables does not matter.\<close>

lemma same_tables:
  assumes e: "\<forall>f\<in>tables m S. \<forall>i. index i < 512 \<longrightarrow> PageTable_entry m' f i = PageTable_entry m f i"
    and r: "r \<in> S" and js: "path_ok 4 js"
  shows "table_at m' r js = table_at m r js" "walked m' r js = walked m r js"
proof -
  have "\<forall>(f, i)\<in>set (walked m r js). PageTable_entry m' f i = PageTable_entry m f i"
    using walked_tables [OF r js, of _ _ m] e by auto
  then show "table_at m' r js = table_at m r js" "walked m' r js = walked m r js"
    by (rule table_at_cong)+
qed

lemma root_not_huge:
  assumes "small_inv m S" "p4_frame sp \<in> S" "index i < 512"
  shows "\<not> PageTableEntry_is_huge (PageTable_entry m (p4_frame sp) i)"
  by (rule small_invD [OF assms(1,2), of "[]"]) (use assms(3) in \<open>simp_all add: user_path_def path_ok_def\<close>)

lemma outside_tables:
  assumes inv: "vm_inv m S"
    and e: "\<forall>f\<in>tables m S. \<forall>i. index i < 512 \<longrightarrow> PageTable_entry m' f i = PageTable_entry m f i"
    and al: "alloc_inv m'" "\<And>f. f \<in> tables m S \<Longrightarrow> \<not> frame_free m f \<Longrightarrow> \<not> frame_free m' f"
      "\<And>f. f \<in> tables m S \<Longrightarrow> frame_taken m f \<Longrightarrow> frame_taken m' f"
  shows "vm_inv m' S" "tables m' S = tables m S"
    "\<And>sp q. p4_frame sp \<in> S \<Longrightarrow> AddressSpace_translate sp q m' = AddressSpace_translate sp q m"
proof -
  have t: "table_at m' r p = table_at m r p" if "r \<in> S" "path_ok 3 p" for r p
    using same_tables(1) [OF e that(1)] path_ok_mono [OF that(2)] by simp
  show "tables m' S = tables m S"
    unfolding tables_def by (intro Collect_cong bex_cong refl ex_cong1 conj_cong) (simp add: t)
  have "tree_inv m' S" using inv t unfolding vm_inv_def tree_inv_def by metis
  moreover have "small_inv m' S"
    unfolding small_inv_def
  proof (intro ballI allI impI)
    fix r p i f assume r: "r \<in> S" and a: "user_path p \<and> path_ok 3 (p @ [i]) \<and> table_at m' r p = Some f"
    then have p: "path_ok 3 p" "index i < 512" by (auto simp: path_ok_def)
    then have f: "table_at m r p = Some f" using t [OF r p(1)] a by simp
    show "\<not> PageTableEntry_is_huge (PageTable_entry m' f i)"
      using small_invD [OF _ r _ _ f, of i] a inv e tablesI [OF r p(1) f] p(2) by (simp add: vm_inv_def)
  qed
  moreover have "frames_inv m' S"
    using inv t al(2,3) tablesI unfolding vm_inv_def frames_inv_def by metis
  ultimately show "vm_inv m' S" using al(1) by (simp add: vm_inv_def)
  show "AddressSpace_translate sp q m' = AddressSpace_translate sp q m" if "p4_frame sp \<in> S" for sp q
  proof (rule translate_cong)
    show "\<forall>(f, i)\<in>set (walked m (p4_frame sp) (page_path q)). PageTable_entry m' f i = PageTable_entry m f i"
      using walked_tables [OF that path_ok_page_path, of _ _ m q] e by auto
    show "\<not> PageTableEntry_is_huge (PageTable_entry m (p4_frame sp) (p4_index q))"
      using inv that by (intro root_not_huge) (simp_all add: vm_inv_def)
  qed
qed

subsection \<open>Storing one entry\<close>

lemma PageTable_entry_store [simp]:
  "PageTable_entry (PageTable_store (t, i) e m) f j = (if f = t \<and> j = i then e else PageTable_entry m f j)"
  by (cases e) (auto simp: PageTable_entry_def PageTable_store_def index_inject)

lemma store_same [simp]:
  "frame_allocator (PageTable_store l e m) = frame_allocator m"
  "shared_user_frames (PageTable_store l e m) = shared_user_frames m"
  "heap_replies (PageTable_store l e m) = heap_replies m"
  "shootdowns (PageTable_store l e m) = shootdowns m"
  by (simp_all add: PageTable_store_def split: prod.split)

lemma store_memory: "f \<noteq> t \<Longrightarrow> memory (PageTable_store (t, i) e m) f = memory m f"
  by (simp add: PageTable_store_def)

lemma alloc_same:
  assumes "frame_allocator m' = frame_allocator m"
  shows "alloc_inv m' = alloc_inv m" "frame_free m' f = frame_free m f" "frame_taken m' f = frame_taken m f"
  using assms by (simp_all add: alloc_inv_def frame_free_def frame_taken_def)

lemma store_alloc [simp]:
  "frame_free (PageTable_store l e m) = frame_free m" "frame_taken (PageTable_store l e m) = frame_taken m"
  "alloc_inv (PageTable_store l e m) = alloc_inv m"
  by (simp_all add: alloc_same [OF store_same(1)] fun_eq_iff)

text \<open>A walk that does not pass the stored entry is unchanged.\<close>

lemma store_walk:
  assumes "tree_inv m S" "r \<in> S" "r' \<in> S" "user_path p" "path_ok 3 p" "table_at m r p = Some t"
    and js: "path_ok 4 js" "\<not> (r' = r \<and> (\<exists>b. js = p @ i # b))"
  shows "(t, i) \<notin> set (walked m r' js)"
    "table_at (PageTable_store (t, i) e m) r' js = table_at m r' js"
proof -
  show off: "(t, i) \<notin> set (walked m r' js)"
  proof
    assume "(t, i) \<in> set (walked m r' js)"
    then obtain a b where ab: "js = a @ i # b" "table_at m r' a = Some t" unfolding in_walked by blast
    then have "path_ok 3 a" using path_ok_append [of 4 a i b] js(1) by simp
    then show False using tree_invD [OF assms(1-3,4,5) _ assms(6) ab(2)] ab(1) js(2) by simp
  qed
  show "table_at (PageTable_store (t, i) e m) r' js = table_at m r' js"
    by (rule table_at_cong) (use off in auto)
qed

lemma store_translate:
  assumes inv: "tree_inv m S" "small_inv m S" and "r \<in> S" "p4_frame sp \<in> S" "user_path p" "path_ok 3 p" "table_at m r p = Some t"
    and q: "\<not> (p4_frame sp = r \<and> (\<exists>b. page_path q = p @ i # b))"
  shows "AddressSpace_translate sp q (PageTable_store (t, i) e m) = AddressSpace_translate sp q m"
proof (rule translate_cong)
  show "\<forall>(f, j)\<in>set (walked m (p4_frame sp) (page_path q)).
      PageTable_entry (PageTable_store (t, i) e m) f j = PageTable_entry m f j"
    using store_walk(1) [OF inv(1) assms(3-7) path_ok_page_path q] by auto
qed (use root_not_huge [OF inv(2) assms(4)] in simp)

lemma leaf_store:
  assumes inv: "vm_inv m S" and r: "r \<in> S" and p: "length p = 3" "user_path p" "path_ok 3 p" "table_at m r p = Some t"
  shows "vm_inv (PageTable_store (t, i) e m) S" "tables (PageTable_store (t, i) e m) S = tables m S"
    "\<And>sp q. p4_frame sp \<in> S \<Longrightarrow> AddressSpace_translate sp q (PageTable_store (t, i) e m) =
       (if p4_frame sp = r \<and> page_path q = p @ [i]
        then if PageTableEntry_is_present e then Some (entry_frame e, PageTableEntry_flags e) else None
        else AddressSpace_translate sp q m)"
    "\<And>r' js. r' \<in> S \<Longrightarrow> path_ok 3 js \<Longrightarrow> table_at (PageTable_store (t, i) e m) r' js = table_at m r' js"
proof -
  let ?m = "PageTable_store (t, i) e m"
  have i: "tree_inv m S" "small_inv m S" "frames_inv m S" "alloc_inv m" using inv by (simp_all add: vm_inv_def)
  show t: "table_at ?m r' js = table_at m r' js" if "r' \<in> S" "path_ok 3 js" for r' js
    by (rule store_walk(2) [OF i(1) r that(1) p(2-4)]) (use that p(1) in \<open>auto simp: path_ok_def\<close>)
  show "tables ?m S = tables m S"
    unfolding tables_def by (intro Collect_cong bex_cong refl ex_cong1 conj_cong) (simp add: t)
  have "tree_inv ?m S" using i(1) t unfolding tree_inv_def by metis
  moreover have "small_inv ?m S"
    unfolding small_inv_def
  proof (intro ballI allI impI)
    fix r' a j f assume r': "r' \<in> S" and a: "user_path a \<and> path_ok 3 (a @ [j]) \<and> table_at ?m r' a = Some f"
    then have pa: "path_ok 3 a" "length a < 3" by (auto simp: path_ok_def)
    then have f: "table_at m r' a = Some f" using t [OF r'] a by simp
    have "f \<noteq> t" using tree_invD [OF i(1) r r' p(2,3) pa(1) p(4)] f pa(2) p(1) by auto
    then show "\<not> PageTableEntry_is_huge (PageTable_entry ?m f j)" using small_invD [OF i(2) r' _ _ f, of j] a by simp
  qed
  moreover have "frames_inv ?m S"
    using i(3) t alloc_same [OF store_same(1)] unfolding frames_inv_def by metis
  ultimately show "vm_inv ?m S" using i(4) alloc_same [OF store_same(1)] by (simp add: vm_inv_def)
  show "AddressSpace_translate sp q ?m = (if p4_frame sp = r \<and> page_path q = p @ [i]
      then if PageTableEntry_is_present e then Some (entry_frame e, PageTableEntry_flags e) else None
      else AddressSpace_translate sp q m)" if sp: "p4_frame sp \<in> S" for sp q
  proof (cases "p4_frame sp = r \<and> page_path q = p @ [i]")
    case True
    then have "p = [p4_index q, p3_index q, p2_index q]" "i = p1_index q" using p(1) by (auto simp: page_path_def)
    then show ?thesis using translate_leaf(1) [of ?m sp q t] t [OF r p(3)] p(4) True by (simp add: Let_def)
  next
    case False
    moreover have "b = []" if "page_path q = p @ i # b" for b
      using arg_cong [OF that, of length] p(1) by (simp add: page_path_def)
    ultimately have "\<not> (p4_frame sp = r \<and> (\<exists>b. page_path q = p @ i # b))" by blast
    from store_translate [OF i(1,2) r sp p(2-4) this] show ?thesis using False by auto
  qed
qed

lemma translate_stop:
  assumes "table_at m (p4_frame sp) p = Some t" "page_path q = p @ i # b" "\<not> PageTableEntry_is_present (PageTable_entry m t i)"
  shows "AddressSpace_translate sp q m = None"
proof -
  consider "p = []" "i = p4_index q" | "p = [p4_index q]" "i = p3_index q"
    | "p = [p4_index q, p3_index q]" "i = p2_index q" | "p = [p4_index q, p3_index q, p2_index q]" "i = p1_index q"
    using assms(2) by (auto simp: page_path_def Cons_eq_append_conv)
  then show ?thesis using assms(1,3)
    by cases (auto simp: AddressSpace_translate_def Let_def links_def PageTableEntry_frame_present split: if_split_asm)
qed

text \<open>A new empty table hung below an absent entry adds that table and changes no translation.\<close>

definition can_link ::
  "Machine \<Rightarrow> PhysFrame set \<Rightarrow> PhysFrame \<Rightarrow> PageTableIndex list \<Rightarrow> PageTableIndex \<Rightarrow> PhysFrame \<Rightarrow> PageTableEntry \<Rightarrow> bool" where
  "can_link m S r p i t e \<longleftrightarrow>
     vm_inv m S \<and> r \<in> S \<and> user_path p \<and> path_ok 3 (p @ [i]) \<and> user_path (p @ [i]) \<and> table_at m r p = Some t \<and>
     \<not> PageTableEntry_is_present (PageTable_entry m t i) \<and> links e \<and>
     entry_frame e \<notin> tables m S \<and> frame_taken m (entry_frame e) \<and> \<not> frame_free m (entry_frame e) \<and>
     memory m (entry_frame e) = (\<lambda>_. 0)"

lemma can_linkD:
  assumes "can_link m S r p i t e"
  shows "tree_inv m S" "small_inv m S" "frames_inv m S" "alloc_inv m" "r \<in> S" "user_path p" "path_ok 3 p"
    "table_at m r p = Some t" "path_ok 3 (p @ [i])" "\<not> PageTableEntry_is_present (PageTable_entry m t i)" "links e"
    "entry_frame e \<notin> tables m S"
  using assms by (auto simp: can_link_def vm_inv_def path_ok_def)

lemma empty_entry [simp]:
  "\<not> links PageTableEntry_empty" "\<not> PageTableEntry_is_present PageTableEntry_empty"
  "\<not> PageTableEntry_is_huge PageTableEntry_empty"
  by (simp_all add: links_def bit_present bit_huge PageTableEntry_empty_def)

lemma link_zero:
  assumes l: "can_link m S r p i t e"
  shows "PageTable_entry (PageTable_store (t, i) e m) (entry_frame e) j = PageTableEntry_empty"
proof -
  have "entry_frame e \<noteq> t" using can_linkD [OF l] tablesI [of r S p m t] by auto
  then show ?thesis using l by (simp add: can_link_def) (simp add: PageTable_entry_def PageTableEntry_empty_def)
qed

lemma link_table_at:
  assumes l: "can_link m S r p i t e" and "r' \<in> S" "path_ok 3 js"
  shows "table_at (PageTable_store (t, i) e m) r' js =
    (if r' = r \<and> js = p @ [i] then Some (entry_frame e) else table_at m r' js)"
proof (cases "r' = r \<and> (\<exists>b. js = p @ i # b)")
  case True
  then obtain b where b: "r' = r" "js = p @ i # b" by blast
  note d = can_linkD [OF l]
  have "table_at (PageTable_store (t, i) e m) r p = Some t"
    using store_walk(2) [OF d(1,5,5,6,7,8) path_ok_mono [OF d(7)], of i e] d(8) by simp
  moreover have "table_at m r js = None" using d(8,10) b by (simp add: table_at_append links_def)
  ultimately show ?thesis
    using d(11) b link_zero [OF l] by (cases b) (simp_all add: table_at_append)
next
  case False
  note d = can_linkD [OF l]
  from store_walk(2) [OF d(1,5) assms(2) d(6-8) path_ok_mono [OF assms(3)] False] show ?thesis using False by auto
qed

lemma link_tables:
  assumes l: "can_link m S r p i t e"
  shows "tables (PageTable_store (t, i) e m) S = insert (entry_frame e) (tables m S)"
proof (intro set_eqI iffI)
  fix f assume "f \<in> tables (PageTable_store (t, i) e m) S"
  then show "f \<in> insert (entry_frame e) (tables m S)"
    unfolding tables_def using link_table_at [OF l] by (auto split: if_split_asm)
next
  note d = can_linkD [OF l]
  fix f assume "f \<in> insert (entry_frame e) (tables m S)"
  then consider "f = entry_frame e" | r' js where "r' \<in> S" "path_ok 3 js" "table_at m r' js = Some f"
    unfolding tables_def by blast
  then show "f \<in> tables (PageTable_store (t, i) e m) S"
  proof cases
    case 1
    then show ?thesis using link_table_at [OF l d(5,9)] by (intro tablesI [OF d(5,9)]) simp
  next
    case 2
    moreover have "table_at m r (p @ [i]) = None" using d(8,10) by (simp add: table_at_append links_def)
    ultimately show ?thesis using link_table_at [OF l 2(1,2)] by (intro tablesI [OF 2(1,2)]) auto
  qed
qed

lemma link_inv:
  assumes l: "can_link m S r p i t e"
  shows "vm_inv (PageTable_store (t, i) e m) S"
proof -
  let ?m = "PageTable_store (t, i) e m"
  note d = can_linkD [OF l] and t = link_table_at [OF l]
  have old: "f \<noteq> entry_frame e" if "r' \<in> S" "path_ok 3 js" "table_at m r' js = Some f" for r' js f
    using that d(12) tablesI by auto
  have "tree_inv ?m S"
    unfolding tree_inv_def
  proof (intro ballI allI impI)
    fix r1 r2 p1 p2 f assume S: "r1 \<in> S" "r2 \<in> S"
      and a: "user_path p1 \<and> path_ok 3 p1 \<and> path_ok 3 p2 \<and> table_at ?m r1 p1 = Some f \<and> table_at ?m r2 p2 = Some f"
    have at: "if r' = r \<and> q = p @ [i] then f = entry_frame e else table_at m r' q = Some f"
      if "(r', q) \<in> {(r1, p1), (r2, p2)}" for r' q
      using t [of r' q] S a that by (cases "r' = r \<and> q = p @ [i]") auto
    show "r1 = r2 \<and> p1 = p2"
    proof (cases "f = entry_frame e")
      case True
      then show ?thesis using at [of r1 p1] at [of r2 p2] old [OF S(1), of p1 f] old [OF S(2), of p2 f] a
        by (auto split: if_split_asm)
    next
      case False
      then have "table_at m r1 p1 = Some f" "table_at m r2 p2 = Some f"
        using at [of r1 p1] at [of r2 p2] by (simp_all split: if_split_asm)
      then show ?thesis using tree_invD [OF d(1) S] a by blast
    qed
  qed
  moreover have "small_inv ?m S"
    unfolding small_inv_def
  proof (intro ballI allI impI)
    fix r' a j f assume r': "r' \<in> S" and a: "user_path a \<and> path_ok 3 (a @ [j]) \<and> table_at ?m r' a = Some f"
    then have pa: "path_ok 3 a" by (auto simp: path_ok_def)
    then show "\<not> PageTableEntry_is_huge (PageTable_entry ?m f j)"
      using small_invD [OF d(2) r', of a j f] a t [OF r' pa] link_zero [OF l, of j] d(11)
      by (auto simp: links_def split: if_split_asm)
  qed
  moreover have "frames_inv ?m S"
    unfolding frames_inv_def using d(3) t alloc_same [OF store_same(1), of "(t, i)" e m] l
    by (auto simp: frames_inv_def can_link_def split: if_split_asm)
  ultimately show ?thesis using d(4) alloc_same [OF store_same(1)] by (simp add: vm_inv_def)
qed

lemma link_translate:
  assumes l: "can_link m S r p i t e" and sp: "p4_frame sp \<in> S"
  shows "AddressSpace_translate sp q (PageTable_store (t, i) e m) = AddressSpace_translate sp q m"
proof (cases "p4_frame sp = r \<and> (\<exists>b. page_path q = p @ i # b)")
  case True
  then obtain b where b: "p4_frame sp = r" "page_path q = p @ i # b" by blast
  note d = can_linkD [OF l]
  have "b \<noteq> []" using arg_cong [OF b(2), of length] d(9) by (auto simp: page_path_def path_ok_def)
  then obtain j c where c: "page_path q = (p @ [i]) @ j # c" using b(2) by (cases b) auto
  have "AddressSpace_translate sp q (PageTable_store (t, i) e m) = None"
  proof (rule translate_stop [OF _ c])
    show "table_at (PageTable_store (t, i) e m) (p4_frame sp) (p @ [i]) = Some (entry_frame e)"
      using link_table_at [OF l d(5,9)] b by simp
    show "\<not> PageTableEntry_is_present (PageTable_entry (PageTable_store (t, i) e m) (entry_frame e) j)"
      by (simp only: link_zero [OF l] empty_entry not_False_eq_True)
  qed
  then show ?thesis using translate_stop [OF _ b(2) d(10)] d(8) b(1) by simp
next
  case False
  note d = can_linkD [OF l]
  from store_translate [OF d(1,2,5) sp d(6-8) False] show ?thesis .
qed

subsection \<open>Taking frames\<close>

lemma frame_from_index_ok:
  assumes "i < 2 ^ 40"
  shows "frame_ok (frame_from_index (of_nat i))"
proof -
  let ?a = "PhysAddr_as_u64 (PhysAddr_new_truncate (of_nat i * FRAME_SIZE)) AND NOT (mask 12)"
  have "PhysAddr_as_u64 (PhysFrame_start_address (frame_from_index (of_nat i))) = ?a"
    by (simp add: frame_from_index_def PhysFrame_containing_addr_def PhysAddr_align_down_def PAGE_SIZE_mask)
  moreover have "?a AND ADDR_MASK = ?a"
    by (auto simp: PhysAddr_new_truncate_def PHYS_ADDR_MASK_eq bit_simps bit_ADDR_MASK intro!: bit_word_eqI)
  ultimately show ?thesis by (simp add: frame_ok_bits)
qed

lemma frame_number_inject:
  assumes "frame_ok f" "frame_ok g"
  shows "PhysFrame_number f = PhysFrame_number g \<longleftrightarrow> f = g"
proof
  assume "PhysFrame_number f = PhysFrame_number g"
  then have "unat (PhysAddr_as_u64 (PhysFrame_start_address f)) div 4096 = unat (PhysAddr_as_u64 (PhysFrame_start_address g)) div 4096"
    by (metis unat_PhysFrame_number)
  then have "unat (PhysAddr_as_u64 (PhysFrame_start_address f)) = unat (PhysAddr_as_u64 (PhysFrame_start_address g))"
    using assms by (simp add: frame_ok_def PhysFrame_wf_def) (metis dvd_div_mult_self)
  then show "f = g" by (intro frame_eqI) (simp add: word_unat_eq_iff)
qed simp

text \<open>\<open>alloc_frame\<close> never panics; without a free frame it changes nothing, otherwise it takes one.\<close>

lemma alloc_frame_cases:
  assumes inv: "alloc_inv m"
  obtains (none) "alloc_frame m = Some (None, m)" "\<forall>f. \<not> frame_free m f"
  | (some) f a where "alloc_frame m = Some (Some f, m\<lparr>frame_allocator := Some a\<rparr>)"
      "frame_ok f" "frame_free m f" "alloc_inv (m\<lparr>frame_allocator := Some a\<rparr>)"
      "frame_taken (m\<lparr>frame_allocator := Some a\<rparr>) f"
      "\<forall>g. frame_ok g \<longrightarrow> frame_free (m\<lparr>frame_allocator := Some a\<rparr>) g = (frame_free m g \<and> g \<noteq> f)"
      "\<forall>g. frame_taken m g \<longrightarrow> frame_taken (m\<lparr>frame_allocator := Some a\<rparr>) g"
proof (cases "frame_allocator m")
  case None
  then show ?thesis by (intro none) (simp_all add: alloc_frame_def frame_free_def)
next
  case (Some a)
  then have a: "allocator_inv a" "unat (total_frames a) \<le> 2 ^ 40" using inv by (simp_all add: alloc_inv_def)
  obtain res b where b: "BitmapFrameAllocator_allocate_frame a = Some (res, b)" "allocator_inv b" "same_layout a b"
      "case res of None \<Rightarrow> free_set a = {} \<and> b = a
       | Some f \<Rightarrow> \<exists>i\<in>free_set a. f = frame_from_index (of_nat i) \<and> free_set b = free_set a - {i}"
    using allocate_frame_spec [OF a(1)] by blast
  show ?thesis
  proof (cases res)
    case None
    then show ?thesis using b Some by (intro none) (simp_all add: alloc_frame_def frame_free_def)
  next
    case (Some f)
    then obtain i where i: "i \<in> free_set a" "f = frame_from_index (of_nat i)" "free_set b = free_set a - {i}"
      using b(4) by auto
    have small: "i < 2 ^ 40" using i(1) a by (auto simp: free_set_def allocator_inv_def)
    have ok: "frame_ok f" and num: "unat (PhysFrame_number f) = i"
      using frame_from_index_ok [OF small] frame_number_from_index [OF small] i(2) by simp_all
    have "releasable_set b = releasable_set a"
      using b(2,3) a(1) by (simp add: releasable_set_def allocator_inv_def same_layout_def BitmapFrameAllocator_is_releasable_def)
    moreover have "i \<in> releasable_set a" using i(1) a(1) by (auto simp: allocator_inv_def)
    moreover have "unat (PhysFrame_number g) = i \<longleftrightarrow> g = f" if "frame_ok g" for g
      using frame_number_inject [OF that ok] num by (metis word_unat_eq_iff)
    moreover have "unat (total_frames b) \<le> 2 ^ 40" using b(3) a(2) by (simp add: same_layout_def)
    ultimately show ?thesis
      using b(1,2) i(1,3) ok num \<open>frame_allocator m = Some a\<close> Some
      by (intro some [of f b]) (auto simp: alloc_frame_def frame_free_def frame_taken_def alloc_inv_def)
  qed
qed

text \<open>Growing the tables of the spaces: nothing a page translates to changes, and each frame taken is a table.\<close>

definition vm_extends :: "PhysFrame set \<Rightarrow> PhysFrame \<Rightarrow> PageTableIndex list set \<Rightarrow> Machine \<Rightarrow> Machine \<Rightarrow> bool" where
  "vm_extends S root Q m m' \<longleftrightarrow>
     vm_inv m' S \<and>
     (\<forall>p. path_ok 3 p \<and> table_at m' root p \<noteq> None \<longrightarrow> table_at m root p \<noteq> None \<or> p \<in> Q) \<and>
     (\<forall>r\<in>S. \<forall>p. path_ok 3 p \<and> (r \<noteq> root \<or> \<not> user_path p) \<longrightarrow> table_at m' r p = table_at m r p) \<and>
     (\<forall>f\<in>tables m' S. f \<in> tables m S \<or> frame_free m f) \<and>
     (\<forall>r\<in>S. \<forall>p f. path_ok 3 p \<and> table_at m r p = Some f \<longrightarrow> table_at m' r p = Some f) \<and>
     (\<forall>sp q. p4_frame sp \<in> S \<longrightarrow> AddressSpace_translate sp q m' = AddressSpace_translate sp q m) \<and>
     (\<forall>f. frame_ok f \<longrightarrow> frame_free m' f = (frame_free m f \<and> f \<notin> tables m' S)) \<and>
     (\<forall>f. frame_taken m f \<longrightarrow> frame_taken m' f) \<and>
     (\<forall>f. f \<notin> tables m' S \<longrightarrow> memory m' f = memory m f) \<and>
     shared_user_frames m' = shared_user_frames m \<and> shootdowns m' = shootdowns m \<and> heap_replies m' = heap_replies m"

lemma tables_not_free: "vm_inv m S \<Longrightarrow> f \<in> tables m S \<Longrightarrow> \<not> frame_free m f"
  by (auto simp: vm_inv_def frames_inv_def tables_def)

lemma table_at_ok: "frame_ok r \<Longrightarrow> table_at m r p = Some f \<Longrightarrow> frame_ok f"
  by (induction p arbitrary: r) (auto split: if_split_asm, metis entry_frame_ok)

lemma tables_ok:
  assumes "vm_inv m S" "f \<in> tables m S"
  shows "frame_ok f"
proof -
  obtain r p where r: "r \<in> S" "table_at m r p = Some f" using assms(2) by (auto simp: tables_def)
  have "path_ok 3 [] \<and> table_at m r [] = Some r \<and> user_path []" by (simp add: path_ok_def user_path_def)
  then have "frame_taken m r" using assms(1) r(1) unfolding vm_inv_def frames_inv_def by blast
  then have "frame_ok r" by (simp add: frame_taken_def)
  then show ?thesis using table_at_ok r(2) by blast
qed

lemma vm_extends_refl: "vm_inv m S \<Longrightarrow> vm_extends S root Q m m"
  using tables_not_free by (auto simp: vm_extends_def)

lemma vm_extends_tables: "vm_extends S root Q m m' \<Longrightarrow> tables m S \<subseteq> tables m' S"
  unfolding vm_extends_def tables_def by blast

lemma vm_extends_trans:
  assumes a: "vm_extends S root Q m m'" and b: "vm_extends S root Q m' m''"
  shows "vm_extends S root Q m m''"
proof -
  have new: "\<forall>f\<in>tables m'' S. f \<in> tables m S \<or> frame_free m f"
    using a b tables_ok [of m'' S] unfolding vm_extends_def by metis
  have mem: "\<forall>f. f \<notin> tables m'' S \<longrightarrow> memory m'' f = memory m f"
    using a b vm_extends_tables [OF b] unfolding vm_extends_def by auto
  have free: "\<forall>f. frame_ok f \<longrightarrow> frame_free m'' f = (frame_free m f \<and> f \<notin> tables m'' S)"
    using a b vm_extends_tables [OF b] by (auto simp: vm_extends_def)
  have "table_at m root p \<noteq> None \<or> p \<in> Q" if p: "path_ok 3 p" "table_at m'' root p \<noteq> None" for p
  proof -
    have "table_at m' root p \<noteq> None \<or> p \<in> Q" using b p by (simp add: vm_extends_def)
    then show ?thesis using a p(1) by (simp add: vm_extends_def) blast
  qed
  then show ?thesis
    unfolding vm_extends_def using new mem free a b by (intro conjI) (simp_all add: vm_extends_def)
qed

lemma alloc_table:
  assumes inv: "vm_inv m S" and l: "r \<in> S" "user_path p" "path_ok 3 (p @ [i])" "user_path (p @ [i])" "table_at m r p = Some t"
      "\<not> PageTableEntry_is_present (PageTable_entry m t i)"
    and f: "frame_ok f" "frame_free m f" "alloc_inv (m\<lparr>frame_allocator := Some a\<rparr>)"
      "frame_taken (m\<lparr>frame_allocator := Some a\<rparr>) f"
      "\<forall>g. frame_ok g \<longrightarrow> frame_free (m\<lparr>frame_allocator := Some a\<rparr>) g = (frame_free m g \<and> g \<noteq> f)"
      "\<forall>g. frame_taken m g \<longrightarrow> frame_taken (m\<lparr>frame_allocator := Some a\<rparr>) g"
    and e: "links e" "entry_frame e = f" and Q: "p @ [i] \<in> Q"
  shows "vm_extends S r Q m (PageTable_store (t, i) e (zero_frame f (m\<lparr>frame_allocator := Some a\<rparr>)))"
    "table_at (PageTable_store (t, i) e (zero_frame f (m\<lparr>frame_allocator := Some a\<rparr>))) r (p @ [i]) = Some f"
proof -
  let ?z = "zero_frame f (m\<lparr>frame_allocator := Some a\<rparr>)"
  have z: "frame_free ?z = frame_free (m\<lparr>frame_allocator := Some a\<rparr>)" "frame_taken ?z = frame_taken (m\<lparr>frame_allocator := Some a\<rparr>)"
      "alloc_inv ?z"
    using f(3) by (auto simp: zero_frame_def frame_free_def frame_taken_def alloc_inv_def fun_eq_iff)
  have nf: "f \<notin> tables m S" using tables_not_free [OF inv] f(2) by auto
  have okt: "frame_ok g" if "g \<in> tables m S" for g using tables_ok [OF inv that] .
  have same: "\<forall>g\<in>tables m S. \<forall>j. index j < 512 \<longrightarrow> PageTable_entry ?z g j = PageTable_entry m g j"
    using nf by (auto simp: zero_frame_def PageTable_entry_def)
  have out: "vm_inv ?z S" "tables ?z S = tables m S"
      "\<And>sp q. p4_frame sp \<in> S \<Longrightarrow> AddressSpace_translate sp q ?z = AddressSpace_translate sp q m"
    by (rule outside_tables [OF inv same]; use z f okt in \<open>simp; fail\<close>)+
  have p4: "path_ok 4 p" "path_ok 3 p" using l(3) by (auto simp: path_ok_def)
  have tt: "t \<in> tables m S" using tablesI [OF l(1) p4(2) l(5)] .
  have tz: "table_at ?z r' q = table_at m r' q" if "r' \<in> S" "path_ok 3 q" for r' q
    by (rule same_tables(1) [OF same that(1)]) (use that(2) in \<open>simp add: path_ok_def\<close>)
  have "index i < 512" using l(3) by (simp add: path_ok_def)
  then have cl: "can_link ?z S r p i t e"
    unfolding can_link_def using out(1,2) l tz [OF l(1) p4(2)] same tt e nf z f(1,2,4,5)
    by (simp, simp add: zero_frame_def)
  show "table_at (PageTable_store (t, i) e ?z) r (p @ [i]) = Some f"
    using link_table_at [OF cl l(1,3)] e(2) by simp
  have none: "table_at m r (p @ [i]) = None" using l(5,6) by (simp add: table_at_append links_def)
  show "vm_extends S r Q m (PageTable_store (t, i) e ?z)"
    unfolding vm_extends_def link_tables [OF cl] out(2) e(2)
  proof (intro conjI ballI allI impI)
    show "vm_inv (PageTable_store (t, i) e ?z) S" by (rule link_inv [OF cl])
  next
    fix q assume "path_ok 3 q \<and> table_at (PageTable_store (t, i) e ?z) r q \<noteq> None"
    then show "table_at m r q \<noteq> None \<or> q \<in> Q"
      using link_table_at [OF cl l(1), of q] tz [OF l(1), of q] Q by (auto split: if_split_asm)
  next
    fix r' q assume "r' \<in> S" "path_ok 3 q \<and> (r' \<noteq> r \<or> \<not> user_path q)"
    then show "table_at (PageTable_store (t, i) e ?z) r' q = table_at m r' q"
      using link_table_at [OF cl, of r' q] tz l(4) by auto
  next
    fix g assume "g \<in> insert f (tables m S)"
    then show "g \<in> tables m S \<or> frame_free m g" using f(2) by auto
  next
    fix r' q g assume "r' \<in> S" "path_ok 3 q \<and> table_at m r' q = Some g"
    then show "table_at (PageTable_store (t, i) e ?z) r' q = Some g"
      using link_table_at [OF cl, of r' q] tz none by auto
  next
    fix sp q assume "p4_frame sp \<in> S"
    then show "AddressSpace_translate sp q (PageTable_store (t, i) e ?z) = AddressSpace_translate sp q m"
      using link_translate [OF cl] out(3) by simp
  next
    fix g assume "frame_ok g"
    then show "frame_free (PageTable_store (t, i) e ?z) g = (frame_free m g \<and> g \<notin> insert f (tables m S))"
      using alloc_same(2) [OF store_same(1)] z(1) f(5) tables_not_free [OF inv] by auto
  next
    fix g assume "frame_taken m g"
    then show "frame_taken (PageTable_store (t, i) e ?z) g"
      using alloc_same(3) [OF store_same(1)] z(2) f(6) by auto
  next
    fix g assume "g \<notin> insert f (tables m S)"
    then show "memory (PageTable_store (t, i) e ?z) g = memory m g"
      using tt by (auto simp: PageTable_store_def zero_frame_def)
  qed (simp_all add: zero_frame_def)
qed

subsection \<open>Walking and creating\<close>

definition table_flags :: "PageTableFlags \<Rightarrow> bool" where
  "table_flags fl \<longleftrightarrow> flags_ok fl \<and> bit (PageTableFlags_bits fl) 0 \<and> \<not> bit (PageTableFlags_bits fl) 7"

lemma table_flags_USER_INTERMEDIATE [simp]: "table_flags USER_INTERMEDIATE"
proof -
  have "PageTableFlags_bits USER_INTERMEDIATE = mask 3"
    by (simp add: USER_INTERMEDIATE_def PageTableFlags_from_bits_truncate_def PageTableFlags_ALL_def mask_eq_exp_minus_1)
  then show ?thesis by (auto simp: table_flags_def flags_ok_def bit_simps bit_ALL intro!: bit_word_eqI)
qed

lemma links_new: "frame_ok f \<Longrightarrow> table_flags fl \<Longrightarrow> links (PageTableEntry_new f fl)"
  by (simp add: links_def bit_present bit_huge table_flags_def entry_new(3))

lemma next_level_cases:
  assumes inv: "vm_inv m S" and l: "r \<in> S" "user_path p" "path_ok 3 (p @ [i])" "user_path (p @ [i])" "table_at m r p = Some t"
    and fl: "table_flags fl" and Q: "p @ [i] \<in> Q"
  obtains (oom) "next_level_or_create t i fl m = Some (Inl MapOutOfMemory, m)" "\<forall>f. \<not> frame_free m f"
      "\<not> PageTableEntry_is_present (PageTable_entry m t i)"
  | (ok) g m' where "next_level_or_create t i fl m = Some (Inr g, m')" "table_at m' r (p @ [i]) = Some g" "vm_extends S r Q m m'"
proof -
  let ?e = "PageTable_entry m t i"
  have huge: "\<not> PageTableEntry_is_huge ?e" using small_invD [OF _ l(1,2,3,5)] inv by (simp add: vm_inv_def)
  show thesis
  proof (cases "PageTableEntry_is_present ?e")
    case True
    then show ?thesis
      using huge l(5) by (intro ok [of "entry_frame ?e" m])
        (simp_all add: next_level_or_create_def Let_def PageTableEntry_frame_present table_at_append links_def vm_extends_refl [OF inv])
  next
    case False
    have "alloc_inv m" using inv by (simp add: vm_inv_def)
    then show ?thesis
    proof (cases rule: alloc_frame_cases)
      case none
      then show ?thesis using False huge by (intro oom) (simp_all add: next_level_or_create_def Let_def)
    next
      case (some f a)
      have e: "links (PageTableEntry_new f fl)" "entry_frame (PageTableEntry_new f fl) = f"
        using links_new [OF some(2) fl] entry_new(1) [OF some(2)] fl by (simp_all add: table_flags_def)
      show ?thesis
        by (rule ok [OF _ alloc_table(2,1) [OF inv l False some(2-) e Q]])
          (use some(1) False huge in \<open>simp add: next_level_or_create_def Let_def\<close>)
    qed
  qed
qed

lemma vm_extendsD:
  assumes "vm_extends S root Q m m'"
  shows "vm_inv m' S" "p4_frame sp \<in> S \<Longrightarrow> AddressSpace_translate sp q m' = AddressSpace_translate sp q m"
    "r \<in> S \<Longrightarrow> path_ok 3 p \<Longrightarrow> table_at m r p = Some f \<Longrightarrow> table_at m' r p = Some f"
  using assms by (auto simp: vm_extends_def)

text \<open>What \<open>walk_or_create\<close> may answer, and one step of it.\<close>

definition table_paths :: "Page \<Rightarrow> PageTableIndex list set" where
  "table_paths q = {p. \<exists>b. page_path q = p @ b}"

definition walk_result ::
  "PhysFrame set \<Rightarrow> AddressSpace \<Rightarrow> Page \<Rightarrow> Machine \<Rightarrow> ((MapError + PhysFrame \<times> PageTableIndex) \<times> Machine) option \<Rightarrow> bool" where
  "walk_result S sp q m x \<longleftrightarrow>
     (\<exists>m'. x = Some (Inl MapOutOfMemory, m') \<and> vm_extends S (p4_frame sp) (table_paths q) m m' \<and>
        (\<forall>f. \<not> frame_free m' f) \<and> AddressSpace_translate sp q m = None) \<or>
     (\<exists>t m'. x = Some (Inr (t, p1_index q), m') \<and> vm_extends S (p4_frame sp) (table_paths q) m m' \<and>
        table_at m' (p4_frame sp) [p4_index q, p3_index q, p2_index q] = Some t)"

lemma walk_step:
  assumes ext: "vm_extends S (p4_frame sp) (table_paths q) m0 m" and sp: "p4_frame sp \<in> S" and fl: "table_flags fl"
    and q: "index (p4_index q) < 256" "page_path q = p @ i # b" "b \<noteq> []" and t: "table_at m (p4_frame sp) p = Some t"
    and k: "\<And>g m'. vm_extends S (p4_frame sp) (table_paths q) m0 m' \<Longrightarrow> table_at m' (p4_frame sp) (p @ [i]) = Some g \<Longrightarrow> walk_result S sp q m0 (k g m')"
  shows "walk_result S sp q m0 (try_then (next_level_or_create t i fl m) k)"
proof -
  have inv: "vm_inv m S" by (rule vm_extendsD [OF ext])
  have "\<forall>j\<in>set (page_path q). index j < 512" "length (page_path q) = 4" by (simp_all add: page_path_def)
  then have po: "path_ok 3 (p @ [i])"
    using q(2,3) by (auto simp: path_ok_def Suc_le_eq neq_Nil_conv)
  have "hd (p @ [i]) = p4_index q" using arg_cong [OF q(2), of hd] by (simp add: page_path_def hd_append)
  then have u: "user_path p" "user_path (p @ [i])" using q(1) by (auto simp: user_path_def hd_append split: if_split_asm)
  have Q: "p @ [i] \<in> table_paths q" using q(2) by (auto simp: table_paths_def)
  from inv sp u(1) po u(2) t fl Q show ?thesis
  proof (cases rule: next_level_cases)
    case oom
    then show ?thesis
      using ext translate_stop [OF t q(2)] vm_extendsD(2) [OF ext sp, of q] by (simp add: walk_result_def)
  next
    case (ok g m')
    then show ?thesis using k [OF vm_extends_trans [OF ext ok(3)] ok(2)] by simp
  qed
qed

lemma walk_or_create_result:
  assumes inv: "vm_inv m S" and sp: "p4_frame sp \<in> S" and q: "index (p4_index q) < 256" and fl: "table_flags fl"
  shows "walk_result S sp q m (AddressSpace_walk_or_create sp q fl m)"
proof -
  have path: "page_path q = [] @ p4_index q # [p3_index q, p2_index q, p1_index q]"
      "page_path q = [p4_index q] @ p3_index q # [p2_index q, p1_index q]"
      "page_path q = [p4_index q, p3_index q] @ p2_index q # [p1_index q]"
    by (simp_all add: page_path_def)
  show ?thesis
    unfolding AddressSpace_walk_or_create_def
  proof (rule walk_step [OF vm_extends_refl [OF inv] sp fl q path(1)])
    fix p3 m3 assume m3: "vm_extends S (p4_frame sp) (table_paths q) m m3" "table_at m3 (p4_frame sp) ([] @ [p4_index q]) = Some p3"
    show "walk_result S sp q m (try_then (next_level_or_create p3 (p3_index q) fl m3) (\<lambda>p2 m.
        try_then (next_level_or_create p2 (p2_index q) fl m) (\<lambda>p1 m. Some (Inr (p1, p1_index q), m))))"
    proof (rule walk_step [OF m3(1) sp fl q path(2)])
      fix p2 m2 assume m2: "vm_extends S (p4_frame sp) (table_paths q) m m2" "table_at m2 (p4_frame sp) ([p4_index q] @ [p3_index q]) = Some p2"
      show "walk_result S sp q m (try_then (next_level_or_create p2 (p2_index q) fl m2) (\<lambda>p1 m. Some (Inr (p1, p1_index q), m)))"
        by (rule walk_step [OF m2(1) sp fl q path(3)]) (use m2(2) in \<open>auto simp: walk_result_def\<close>)
    qed (use m3(2) in auto)
  qed auto
qed

subsection \<open>Mapping a user page\<close>

lemma flags_or_present:
  assumes "flags_ok fl"
  shows "flags_ok (PageTableFlags_bitor fl PageTableFlags_PRESENT)" "bit (PageTableFlags_bits (PageTableFlags_bitor fl PageTableFlags_PRESENT)) 0"
  using assms by (auto simp: flag_bits)

lemma shootdown_same [simp]:
  "memory (shootdown x m) = memory m" "frame_allocator (shootdown x m) = frame_allocator m"
  "shared_user_frames (shootdown x m) = shared_user_frames m" "heap_replies (shootdown x m) = heap_replies m"
  "shootdowns (shootdown x m) = x # shootdowns m"
  by (simp_all add: shootdown_def)

text \<open>The tables depend on the memory and the allocator only.\<close>

lemma vm_same:
  assumes mem: "memory m' = memory m" and al: "frame_allocator m' = frame_allocator m"
  shows "PageTable_entry m' = PageTable_entry m" "table_at m' = table_at m" "tables m' S = tables m S" "vm_inv m' S = vm_inv m S"
    "AddressSpace_translate sp q m' = AddressSpace_translate sp q m" "AddressSpace_walk_mut sp q m' = AddressSpace_walk_mut sp q m"
    "frame_free m' = frame_free m" "frame_taken m' = frame_taken m"
proof -
  show e: "PageTable_entry m' = PageTable_entry m" using mem by (simp add: PageTable_entry_def fun_eq_iff)
  have "table_at m' r p = table_at m r p" for r p by (rule table_at_cong) (simp add: e)
  then show t: "table_at m' = table_at m" by (simp add: fun_eq_iff)
  show "tables m' S = tables m S" by (simp add: tables_def t)
  show "vm_inv m' S = vm_inv m S"
    by (simp add: vm_inv_def tree_inv_def small_inv_def frames_inv_def t e alloc_same [OF al])
  show "AddressSpace_translate sp q m' = AddressSpace_translate sp q m"
    unfolding AddressSpace_translate_def e by (rule refl)
  show "AddressSpace_walk_mut sp q m' = AddressSpace_walk_mut sp q m"
    unfolding AddressSpace_walk_mut_def e by (rule refl)
  show "frame_free m' = frame_free m" "frame_taken m' = frame_taken m" using alloc_same [OF al] by (simp_all add: fun_eq_iff)
qed

lemmas shootdown_vm [simp] = vm_same [OF shootdown_same(1,2)]

text \<open>The machines that differ in the translation of one page only.\<close>

definition remap_post ::
  "PhysFrame set \<Rightarrow> AddressSpace \<Rightarrow> Page \<Rightarrow> (PhysFrame \<times> PageTableFlags) option \<Rightarrow> Machine \<Rightarrow> Machine \<Rightarrow> bool" where
  "remap_post S sp q new m m' \<longleftrightarrow>
     vm_inv m' S \<and> tables m' S = tables m S \<and>
     (\<forall>r\<in>S. \<forall>p. path_ok 3 p \<longrightarrow> table_at m' r p = table_at m r p) \<and>
     (\<forall>sp' q'. p4_frame sp' \<in> S \<and> Page_wf q' \<longrightarrow>
        AddressSpace_translate sp' q' m' = (if sp' = sp \<and> q' = q then new else AddressSpace_translate sp' q' m)) \<and>
     (\<forall>f. f \<notin> tables m S \<longrightarrow> memory m' f = memory m f) \<and>
     frame_allocator m' = frame_allocator m \<and> shared_user_frames m' = shared_user_frames m \<and>
     heap_replies m' = heap_replies m"

lemma remap_store:
  assumes inv: "vm_inv m S" and sp: "p4_frame sp \<in> S" and q: "Page_wf q" "page_addr q \<le> USER_MAX"
    and t: "table_at m (p4_frame sp) [p4_index q, p3_index q, p2_index q] = Some t"
    and new: "new = (if PageTableEntry_is_present e then Some (entry_frame e, PageTableEntry_flags e) else None)"
  shows "remap_post S sp q new m (shootdown x (PageTable_store (t, p1_index q) e m))"
proof -
  have p: "length [p4_index q, p3_index q, p2_index q] = 3" "user_path [p4_index q, p3_index q, p2_index q]"
      "path_ok 3 [p4_index q, p3_index q, p2_index q]"
    using q user_page_index [OF q(1)] by (simp_all add: user_path_def path_ok_def)
  note st = leaf_store [OF inv sp p t, where i = "p1_index q" and e = e]
  have path: "page_path q' = [p4_index q, p3_index q, p2_index q] @ [p1_index q] \<longleftrightarrow> q' = q" if "Page_wf q'" for q'
    using page_path_inj [OF that q(1)] by (auto simp: page_path_def)
  have root: "p4_frame sp' = p4_frame sp \<longleftrightarrow> sp' = sp" for sp' by (metis AddressSpace.expand)
  have tr: "AddressSpace_translate sp' q' (PageTable_store (t, p1_index q) e m) =
      (if sp' = sp \<and> q' = q then new else AddressSpace_translate sp' q' m)"
    if "p4_frame sp' \<in> S" "Page_wf q'" for sp' q'
    unfolding st(3) [OF that(1)] path [OF that(2)] root new by simp
  have "t \<in> tables m S" by (rule tablesI [OF sp p(3) t])
  then have mem: "memory (PageTable_store (t, p1_index q) e m) f = memory m f" if "f \<notin> tables m S" for f
    by (intro store_memory) (use that in auto)
  show ?thesis
    unfolding remap_post_def shootdown_vm shootdown_same store_same st(2) using st(1,4) tr mem by simp
qed

text \<open>What \<open>map_user\<close> leaves: the page maps the frame exactly when it succeeds, and nothing else changes.\<close>

definition map_user_post ::
  "PhysFrame set \<Rightarrow> AddressSpace \<Rightarrow> Page \<Rightarrow> PhysFrame \<times> PageTableFlags \<Rightarrow> Machine \<Rightarrow> MapError + unit \<Rightarrow> Machine \<Rightarrow> bool" where
  "map_user_post S sp q new m res m' \<longleftrightarrow>
     vm_inv m' S \<and> tables m S \<subseteq> tables m' S \<and> (\<forall>f\<in>tables m' S. f \<in> tables m S \<or> frame_free m f) \<and>
     (\<forall>r\<in>S. \<forall>p. path_ok 3 p \<and> (r \<noteq> p4_frame sp \<or> \<not> user_path p) \<longrightarrow> table_at m' r p = table_at m r p) \<and>
     (\<forall>p. path_ok 3 p \<and> table_at m' (p4_frame sp) p \<noteq> None \<longrightarrow> table_at m (p4_frame sp) p \<noteq> None \<or> p \<in> table_paths q) \<and>
     (\<forall>sp' q'. p4_frame sp' \<in> S \<and> Page_wf q' \<longrightarrow>
        AddressSpace_translate sp' q' m' =
          (if res = Inr () \<and> sp' = sp \<and> q' = q then Some new else AddressSpace_translate sp' q' m)) \<and>
     (\<forall>f. frame_ok f \<longrightarrow> frame_free m' f = (frame_free m f \<and> f \<notin> tables m' S)) \<and>
     (\<forall>f. f \<notin> tables m' S \<longrightarrow> memory m' f = memory m f) \<and>
     shared_user_frames m' = shared_user_frames m \<and> heap_replies m' = heap_replies m \<and>
     (case res of
        Inr u \<Rightarrow> page_addr q \<le> USER_MAX \<and> AddressSpace_translate sp q m = None
      | Inl MapOutOfRange \<Rightarrow> USER_MAX < page_addr q \<and> m' = m
      | Inl AlreadyMapped \<Rightarrow> page_addr q \<le> USER_MAX \<and> AddressSpace_translate sp q m \<noteq> None
      | Inl MapOutOfMemory \<Rightarrow> page_addr q \<le> USER_MAX \<and> AddressSpace_translate sp q m = None \<and> (\<forall>f. \<not> frame_free m' f)
      | Inl e \<Rightarrow> False)"

lemma map_user_post_fail:
  assumes "vm_extends S (p4_frame sp) (table_paths q) m m'" "p4_frame sp \<in> S"
    "e = MapOutOfRange \<and> USER_MAX < page_addr q \<and> m' = m \<or>
     e = AlreadyMapped \<and> page_addr q \<le> USER_MAX \<and> AddressSpace_translate sp q m \<noteq> None \<or>
     e = MapOutOfMemory \<and> page_addr q \<le> USER_MAX \<and> AddressSpace_translate sp q m = None \<and> (\<forall>f. \<not> frame_free m' f)"
  shows "map_user_post S sp q new m (Inl e) m'"
proof -
  have "case Inl e of
        Inr (u :: unit) \<Rightarrow> page_addr q \<le> USER_MAX \<and> AddressSpace_translate sp q m = None
      | Inl MapOutOfRange \<Rightarrow> USER_MAX < page_addr q \<and> m' = m
      | Inl AlreadyMapped \<Rightarrow> page_addr q \<le> USER_MAX \<and> AddressSpace_translate sp q m \<noteq> None
      | Inl MapOutOfMemory \<Rightarrow> page_addr q \<le> USER_MAX \<and> AddressSpace_translate sp q m = None \<and> (\<forall>f. \<not> frame_free m' f)
      | Inl e \<Rightarrow> False"
    using assms(3) by (elim disjE conjE) simp_all
  then show ?thesis
    unfolding map_user_post_def using assms(1) vm_extends_tables [OF assms(1)] by (simp add: vm_extends_def)
qed

lemma map_user_post_ok:
  assumes ext: "vm_extends S (p4_frame sp) (table_paths q) m n" and sp: "p4_frame sp \<in> S" and q: "Page_wf q" "page_addr q \<le> USER_MAX"
    and t: "table_at n (p4_frame sp) [p4_index q, p3_index q, p2_index q] = Some t"
    and absent: "\<not> PageTableEntry_is_present (PageTable_entry n t (p1_index q))"
    and e: "PageTableEntry_is_present e"
  shows "map_user_post S sp q (entry_frame e, PageTableEntry_flags e) m (Inr ()) (shootdown x (PageTable_store (t, p1_index q) e n))"
proof -
  let ?n = "shootdown x (PageTable_store (t, p1_index q) e n)"
  have post: "remap_post S sp q (Some (entry_frame e, PageTableEntry_flags e)) n ?n"
    by (rule remap_store [OF vm_extendsD(1) [OF ext] sp q t]) (simp add: e)
  have "AddressSpace_translate sp q n = None" using translate_leaf(1) [OF t] absent by (simp add: Let_def)
  then have none: "AddressSpace_translate sp q m = None" using vm_extendsD(2) [OF ext sp] by simp
  have al: "frame_allocator ?n = frame_allocator n" by simp
  have "table_at ?n (p4_frame sp) p = table_at n (p4_frame sp) p" if "path_ok 3 p" for p
    using post sp that by (simp add: remap_post_def)
  then have "table_at m (p4_frame sp) p \<noteq> None \<or> p \<in> table_paths q" if "path_ok 3 p" "table_at ?n (p4_frame sp) p \<noteq> None" for p
    using ext that by (simp add: vm_extends_def)
  then show ?thesis
    unfolding map_user_post_def alloc_same(2) [OF al]
    using post vm_extends_tables [OF ext] ext q(2) none by (simp add: remap_post_def vm_extends_def)
qed

text \<open>
  Mapping a user page never panics. It succeeds exactly when the page lies in the user half, is not
  mapped yet and the allocator can supply the missing tables; then the page translates to the frame with
  the given flags and \<open>PRESENT\<close>. Every other page of this space and every page of every other space
  translates as before, on success and on each error; every frame taken has become a page table, and the
  contents of all other frames are kept. The error tells the reason, and the tables stay separated.
\<close>

lemma map_user_spec:
  assumes inv: "vm_inv m S" and sp: "p4_frame sp \<in> S" and q: "Page_wf q" and f: "frame_ok f" "flags_ok flags"
  shows "\<exists>res m'. AddressSpace_map_user sp q f flags m = Some (res, m') \<and>
    map_user_post S sp q (f, PageTableFlags_bitor flags PageTableFlags_PRESENT) m res m'"
proof (cases "page_addr q > USER_MAX")
  case True
  then show ?thesis
    using map_user_post_fail [OF vm_extends_refl [OF inv] sp, where e = MapOutOfRange and q = q] by (simp add: AddressSpace_map_user_def)
next
  case False
  then have i: "index (p4_index q) < 256" using user_page_index [OF q] by (simp add: not_less)
  let ?fl = "PageTableFlags_bitor flags PageTableFlags_PRESENT"
  let ?e = "PageTableEntry_new f ?fl"
  note fl = flags_or_present [OF f(2)]
  have e: "PageTableEntry_is_present ?e" "entry_frame ?e = f" "PageTableEntry_flags ?e = ?fl"
    using entry_new [OF f(1) fl(1)] fl(2) by (simp_all add: bit_present)
  consider (oom) m' where "AddressSpace_walk_or_create sp q USER_INTERMEDIATE m = Some (Inl MapOutOfMemory, m')" "vm_extends S (p4_frame sp) (table_paths q) m m'"
        "\<forall>f. \<not> frame_free m' f" "AddressSpace_translate sp q m = None"
    | (ok) t n where "AddressSpace_walk_or_create sp q USER_INTERMEDIATE m = Some (Inr (t, p1_index q), n)" "vm_extends S (p4_frame sp) (table_paths q) m n"
        "table_at n (p4_frame sp) [p4_index q, p3_index q, p2_index q] = Some t"
    using walk_or_create_result [OF inv sp i table_flags_USER_INTERMEDIATE] unfolding walk_result_def by blast
  then show ?thesis
  proof cases
    case oom
    then show ?thesis
      using map_user_post_fail [OF oom(2) sp, of MapOutOfMemory] False by (auto simp: AddressSpace_map_user_def)
  next
    case ok
    note tr = translate_leaf(1) [OF ok(3)]
    show ?thesis
    proof (cases "PageTableEntry_is_present (PageTable_entry n t (p1_index q))")
      case True
      then have "AddressSpace_translate sp q m \<noteq> None" using tr vm_extendsD(2) [OF ok(2) sp, of q] by (simp add: Let_def)
      then show ?thesis
        using map_user_post_fail [OF ok(2) sp, of AlreadyMapped] ok(1) True False by (auto simp: AddressSpace_map_user_def)
    next
      case absent: False
      then show ?thesis
        using map_user_post_ok [OF ok(2) sp q _ ok(3) absent e(1)] e(2,3) ok(1) False by (auto simp: AddressSpace_map_user_def)
    qed
  qed
qed

subsection \<open>Unmapping and protecting\<close>

lemma user_leaf_cases:
  assumes inv: "vm_inv m S" and sp: "p4_frame sp \<in> S" and q: "index (p4_index q) < 256"
  obtains (absent) "AddressSpace_walk_mut sp q m = None" "AddressSpace_translate sp q m = None"
  | (leaf) t where "table_at m (p4_frame sp) [p4_index q, p3_index q, p2_index q] = Some t"
proof (cases "table_at m (p4_frame sp) [p4_index q, p3_index q, p2_index q]")
  case None
  let ?r = "p4_frame sp"
  have small: "\<not> PageTableEntry_is_huge (PageTable_entry m f i)"
    if "user_path p" "path_ok 3 (p @ [i])" "table_at m ?r p = Some f" for p f i
    using small_invD [OF _ sp that] inv by (simp add: vm_inv_def)
  have u: "user_path [p4_index q]" "user_path [p4_index q, p3_index q]" using q by (simp_all add: user_path_def)
  show ?thesis
    by (rule absent)
      (use None small [of "[]" "p4_index q" ?r] small [OF u(1), of "p3_index q"] small [OF u(2), of "p2_index q"] in
        \<open>auto simp: AddressSpace_walk_mut_def AddressSpace_translate_def Let_def links_def PageTableEntry_frame_present
          user_path_def path_ok_def split: if_split_asm\<close>)
qed (use leaf in blast)

text \<open>
  Unmapping a user page answers the frame the page maps, or \<open>NotMapped\<close> with the machine unchanged
  when it maps none. Afterwards this page translates to nothing, every other page of every space translates
  as before, and no frame is released. The cached translation is dropped in this space for a page with the
  \<open>USER\<close> flag and everywhere for a page without it.
\<close>

lemma unmap_spec:
  assumes inv: "vm_inv m S" and sp: "p4_frame sp \<in> S" and q: "Page_wf q" "page_addr q \<le> USER_MAX"
  shows "case AddressSpace_translate sp q m of
      None \<Rightarrow> AddressSpace_unmap sp q m = (Inl NotMapped, m)
    | Some (f, fl) \<Rightarrow> \<exists>m'. AddressSpace_unmap sp q m = (Inr f, m') \<and> remap_post S sp q None m m' \<and>
        shootdowns m' = (if PageTableFlags_contains fl PageTableFlags_USER
          then ShootdownPage (AddressSpace_cr3 sp) (page_addr q) else ShootdownKernelPage (page_addr q)) # shootdowns m"
proof -
  have "index (p4_index q) < 256" using q user_page_index by simp
  with inv sp show ?thesis
  proof (cases rule: user_leaf_cases)
    case absent
    then show ?thesis by (simp add: AddressSpace_unmap_def)
  next
    case (leaf t)
    note post = remap_store [OF inv sp q leaf, of None PageTableEntry_empty]
    show ?thesis
      using post translate_leaf [OF leaf]
      by (auto simp: AddressSpace_unmap_def Let_def PageTableEntry_frame_present)
  qed
qed

text \<open>The flags a successful \<open>protect_user\<close> writes.\<close>

definition protected_flags :: "PageTableFlags \<Rightarrow> PageTableFlags \<Rightarrow> PageTableFlags" where
  "protected_flags requested old =
     (let kept = PageTableFlags (PageTableFlags_bits requested OR PageTableFlags_bits PageTableFlags_PRESENT OR
            (PageTableFlags_bits old AND (PageTableFlags_bits PageTableFlags_ACCESSED OR PageTableFlags_bits PageTableFlags_DIRTY))) in
      if PageTableFlags_contains old PageTableFlags_COPY_ON_WRITE
      then PageTableFlags_remove (PageTableFlags_insert kept PageTableFlags_COPY_ON_WRITE) PageTableFlags_WRITABLE else kept)"

lemma bit_protected_flags:
  "bit (PageTableFlags_bits (protected_flags requested old)) n \<longleftrightarrow>
     (if n = 0 then True
      else if n = 5 \<or> n = 6 then bit (PageTableFlags_bits requested) n \<or> bit (PageTableFlags_bits old) n
      else if bit (PageTableFlags_bits old) 9 \<and> n = 9 then True
      else if bit (PageTableFlags_bits old) 9 \<and> n = 1 then False
      else bit (PageTableFlags_bits requested) n)"
  by (simp add: protected_flags_def Let_def flag_bits bit_or_iff bit_and_iff)

lemma protect_next:
  "(let next' = PageTableFlags_bitor requested PageTableFlags_PRESENT;
        next' = (if PageTableFlags_contains old PageTableFlags_ACCESSED
                 then PageTableFlags_bitor next' PageTableFlags_ACCESSED else next');
        next' = (if PageTableFlags_contains old PageTableFlags_DIRTY
                 then PageTableFlags_bitor next' PageTableFlags_DIRTY else next');
        next' = (if PageTableFlags_contains old PageTableFlags_COPY_ON_WRITE
                 then PageTableFlags_remove (PageTableFlags_bitor next' PageTableFlags_COPY_ON_WRITE) PageTableFlags_WRITABLE
                 else next') in k next') = k (protected_flags requested old)"
  unfolding Let_def
proof (rule arg_cong [of _ _ k], rule flags_eqI, goal_cases)
  case (1 n)
  show ?case
    by (cases "PageTableFlags_contains old PageTableFlags_ACCESSED"; cases "PageTableFlags_contains old PageTableFlags_DIRTY";
        cases "PageTableFlags_contains old PageTableFlags_COPY_ON_WRITE")
      (simp_all add: bit_protected_flags flag_bits)
qed

lemma refused_flags:
  "PageTableFlags_intersects fl (PageTableFlags_bitor PageTableFlags_GLOBAL PageTableFlags_HUGE_PAGE) \<longleftrightarrow>
     PageTableFlags_contains fl PageTableFlags_GLOBAL \<or> PageTableFlags_contains fl PageTableFlags_HUGE_PAGE"
  unfolding PageTableFlags_intersects_def word_eq_bits by (auto simp: flag_bits bit_and_iff)

lemma entry_contains:
  "PageTableFlags_contains (PageTableEntry_flags e) (PageTableFlags_bitor PageTableFlags_PRESENT PageTableFlags_USER) \<longleftrightarrow>
     PageTableEntry_is_present e \<and> PageTableFlags_contains (PageTableEntry_flags e) PageTableFlags_USER"
  "PageTableEntry_is_huge e \<longleftrightarrow> PageTableFlags_contains (PageTableEntry_flags e) PageTableFlags_HUGE_PAGE"
  by (auto simp: flag_bits bit_present bit_huge bit_entry_flags)

text \<open>
  \<open>protect_user\<close> refuses a page of the kernel half, a request without \<open>USER\<close> or with \<open>GLOBAL\<close> or
  \<open>HUGE_PAGE\<close>, and a page that is not a present user page, and then changes nothing. Otherwise the page
  keeps its frame, its accessed and dirty bits and its copy-on-write mark and takes the requested flags;
  a copy-on-write page never becomes writable this way. All other translations are kept.
\<close>

lemma protect_user_spec:
  assumes inv: "vm_inv m S" and sp: "p4_frame sp \<in> S" and q: "Page_wf q" and fl: "flags_ok requested"
  shows "let refused = page_addr q > USER_MAX \<or> \<not> PageTableFlags_contains requested PageTableFlags_USER \<or>
        PageTableFlags_contains requested PageTableFlags_GLOBAL \<or> PageTableFlags_contains requested PageTableFlags_HUGE_PAGE;
      (res, m') = AddressSpace_protect_user sp q requested m in
    if refused then res = Inl MapOutOfRange \<and> m' = m
    else case AddressSpace_translate sp q m of
        None \<Rightarrow> res = Inl CorruptPageTable \<and> m' = m
      | Some (f, old) \<Rightarrow>
          if PageTableFlags_contains old PageTableFlags_USER \<and> \<not> PageTableFlags_contains old PageTableFlags_HUGE_PAGE
          then res = Inr () \<and> remap_post S sp q (Some (f, protected_flags requested old)) m m' \<and>
            (PageTableFlags_contains old PageTableFlags_COPY_ON_WRITE \<longrightarrow>
               PageTableFlags_contains (protected_flags requested old) PageTableFlags_COPY_ON_WRITE \<and>
               \<not> PageTableFlags_contains (protected_flags requested old) PageTableFlags_WRITABLE)
          else res = Inl CorruptPageTable \<and> m' = m"
proof (cases "page_addr q > USER_MAX \<or> \<not> PageTableFlags_contains requested PageTableFlags_USER \<or>
    PageTableFlags_contains requested PageTableFlags_GLOBAL \<or> PageTableFlags_contains requested PageTableFlags_HUGE_PAGE")
  case True
  then show ?thesis by (simp add: AddressSpace_protect_user_def refused_flags)
next
  case ok: False
  then have i: "index (p4_index q) < 256" "page_addr q \<le> USER_MAX" using user_page_index [OF q] by (simp_all add: not_less)
  have cow: "PageTableFlags_contains old PageTableFlags_COPY_ON_WRITE \<longrightarrow>
      PageTableFlags_contains (protected_flags requested old) PageTableFlags_COPY_ON_WRITE \<and>
      \<not> PageTableFlags_contains (protected_flags requested old) PageTableFlags_WRITABLE" for old
    by (simp add: flag_bits bit_protected_flags)
  from inv sp i(1) show ?thesis
  proof (cases rule: user_leaf_cases)
    case absent
    then show ?thesis using ok by (simp add: AddressSpace_protect_user_def refused_flags)
  next
    case (leaf t)
    let ?e = "PageTable_entry m t (p1_index q)"
    let ?new = "PageTableEntry_new (entry_frame ?e) (protected_flags requested (PageTableEntry_flags ?e))"
    have fl': "flags_ok (protected_flags requested (PageTableEntry_flags ?e))"
      using fl by (simp add: flags_ok_bits bit_protected_flags)
    have new: "PageTableEntry_is_present ?new" "entry_frame ?new = entry_frame ?e"
        "PageTableEntry_flags ?new = protected_flags requested (PageTableEntry_flags ?e)"
      using entry_new [OF entry_frame_ok fl'] by (simp_all add: bit_present bit_protected_flags)
    note post = remap_store [OF inv sp q i(2) leaf, of _ ?new, OF refl]
    have run: "AddressSpace_protect_user sp q requested m =
        (if PageTableEntry_is_present ?e \<and> PageTableFlags_contains (PageTableEntry_flags ?e) PageTableFlags_USER \<and>
            \<not> PageTableFlags_contains (PageTableEntry_flags ?e) PageTableFlags_HUGE_PAGE
         then (Inr (), shootdown (ShootdownPage (AddressSpace_cr3 sp) (page_addr q)) (PageTable_store (t, p1_index q) ?new m))
         else (Inl CorruptPageTable, m))"
      using ok unfolding AddressSpace_protect_user_def translate_leaf(2) [OF leaf] protect_next
      by (simp add: refused_flags entry_contains PageTableEntry_frame_present) (simp add: Let_def)
    show ?thesis
      using ok post new translate_leaf(1) [OF leaf] cow unfolding run by (simp add: Let_def)
  qed
qed

end
