(* ===== verification/Cow_Fork_Laws.thy ===== *)
theory Cow_Fork_Laws
  imports Cow_Fork Address_Space_Laws
begin

text \<open>
  What copy-on-write promises: the reference counts follow the mappings, a write fault gives the writer a
  private copy and changes nothing anybody reads, and a fork either duplicates every user page or leaves no trace.
\<close>

subsection \<open>Reference counts\<close>

text \<open>A frame that is not in the table has one reference.\<close>

definition refs :: "Machine \<Rightarrow> PhysFrame \<Rightarrow> nat" where
  "refs m f = (case map_of (map (\<lambda>s. (shared_frame s, references s)) (shared_user_frames m)) f of None \<Rightarrow> 1 | Some n \<Rightarrow> n)"

definition shared_inv :: "Machine \<Rightarrow> bool" where
  "shared_inv m \<longleftrightarrow> distinct (map shared_frame (shared_user_frames m)) \<and> (\<forall>s\<in>set (shared_user_frames m). 2 \<le> references s)"

lemma refs_in:
  assumes "shared_inv m" "s \<in> set (shared_user_frames m)"
  shows "refs m (shared_frame s) = references s"
proof -
  have "map_of (map (\<lambda>s. (shared_frame s, references s)) (shared_user_frames m)) (shared_frame s) = Some (references s)"
    using assms by (intro map_of_is_SomeI) (auto simp: shared_inv_def comp_def)
  then show ?thesis by (simp add: refs_def)
qed

lemma refs_out: "f \<notin> shared_frame ` set (shared_user_frames m) \<Longrightarrow> refs m f = 1"
proof -
  assume "f \<notin> shared_frame ` set (shared_user_frames m)"
  then have "map_of (map (\<lambda>s. (shared_frame s, references s)) (shared_user_frames m)) f = None"
    by (auto simp: map_of_eq_None_iff)
  then show ?thesis by (simp add: refs_def)
qed

lemma refs_cases:
  assumes "shared_inv m"
  obtains (alone) "f \<notin> shared_frame ` set (shared_user_frames m)" "refs m f = 1"
  | (shared) s where "s \<in> set (shared_user_frames m)" "shared_frame s = f" "refs m f = references s" "2 \<le> refs m f"
  using assms refs_in [OF assms] refs_out [of f m] by (auto simp: shared_inv_def image_iff)

lemma refs_pos: "shared_inv m \<Longrightarrow> 1 \<le> refs m f"
  by (cases rule: refs_cases [of m f]) auto

lemma shared_iff_refs: "shared_inv m \<Longrightarrow> shared_user_frame f m \<longleftrightarrow> 2 \<le> refs m f"
  by (cases rule: refs_cases [of m f]) (auto simp: shared_user_frame_def list_ex_iff)

text \<open>The table is determined by its entries.\<close>

lemma refsI:
  assumes "distinct (map shared_frame (shared_user_frames m'))" "\<forall>s\<in>set (shared_user_frames m'). 2 \<le> references s"
    and "\<forall>s\<in>set (shared_user_frames m'). references s = n (shared_frame s)"
    and "\<forall>f. f \<notin> shared_frame ` set (shared_user_frames m') \<longrightarrow> n f = 1"
  shows "shared_inv m' \<and> refs m' = n"
proof (intro conjI ext)
  show inv: "shared_inv m'" using assms(1,2) by (simp add: shared_inv_def)
  fix f
  from inv show "refs m' f = n f"
    by (cases rule: refs_cases [of m' f]) (use assms(3,4) in auto)
qed

lemma set_swap_remove:
  assumes "i < length xs" "distinct xs"
  shows "set (swap_remove xs i) = set xs - {xs ! i}" "distinct (swap_remove xs i)"
proof -
  have ne: "xs \<noteq> []" using assms(1) by auto
  obtain ys y where xs: "xs = ys @ [y]" using ne by (metis append_butlast_last_id)
  have "set (swap_remove xs i) = set xs - {xs ! i} \<and> distinct (swap_remove xs i)"
  proof (cases "i < length ys")
    case True
    then have "swap_remove xs i = ys[i := y]" using xs by (simp add: swap_remove_def list_update_append)
    moreover have "set (ys[i := y]) = insert y (set ys - {ys ! i})" "distinct (ys[i := y])"
      using True assms(2) xs by (auto simp: set_update_distinct distinct_list_update)
    ultimately show ?thesis using True xs assms(2) by (auto simp: nth_append)
  next
    case False
    then have "i = length ys" using assms(1) xs by simp
    then show ?thesis using xs assms(2) by (auto simp: swap_remove_def)
  qed
  then show "set (swap_remove xs i) = set xs - {xs ! i}" "distinct (swap_remove xs i)" by simp_all
qed

lemma map_swap_remove: "i < length xs \<Longrightarrow> map g (swap_remove xs i) = swap_remove (map g xs) i"
proof -
  assume "i < length xs"
  then have "xs \<noteq> []" by auto
  then show ?thesis by (simp add: swap_remove_def map_butlast map_update last_map)
qed

lemma position_frame:
  assumes "shared_inv m"
  shows "case position (\<lambda>s. shared_frame s = f) (shared_user_frames m) of
      None \<Rightarrow> f \<notin> shared_frame ` set (shared_user_frames m) \<and> refs m f = 1
    | Some i \<Rightarrow> i < length (shared_user_frames m) \<and> shared_frame (shared_user_frames m ! i) = f \<and>
        refs m f = references (shared_user_frames m ! i) \<and> 2 \<le> refs m f"
proof (cases "position (\<lambda>s. shared_frame s = f) (shared_user_frames m)")
  case None
  then have "f \<notin> shared_frame ` set (shared_user_frames m)" by (auto simp: position_None)
  then show ?thesis using None refs_out [of f m] by simp
next
  case (Some i)
  then have i: "i < length (shared_user_frames m)" "shared_frame (shared_user_frames m ! i) = f" using position_SomeD by blast+
  then show ?thesis
    using Some refs_in [OF assms nth_mem [OF i(1)]] assms nth_mem [OF i(1)] by (auto simp: shared_inv_def)
qed

text \<open>Changing the count of the frame at one position.\<close>

lemma refs_update:
  assumes inv: "shared_inv m" and i: "i < length (shared_user_frames m)" and n: "2 \<le> n"
    and m': "shared_user_frames m' = (shared_user_frames m)[i := (shared_user_frames m ! i)\<lparr>references := n\<rparr>]"
  shows "shared_inv m'" "refs m' = (refs m)(shared_frame (shared_user_frames m ! i) := n)"
proof -
  let ?xs = "shared_user_frames m"
  have d: "distinct (map shared_frame ?xs)" using inv by (simp add: shared_inv_def)
  have frames: "map shared_frame (shared_user_frames m') = map shared_frame ?xs"
    using i by (simp add: m' map_update list_update_same_conv)
  have mem: "s = (?xs ! i)\<lparr>references := n\<rparr> \<or> s \<in> set ?xs \<and> shared_frame s \<noteq> shared_frame (?xs ! i)"
    if s: "s \<in> set (shared_user_frames m')" for s
  proof -
    obtain j where j: "j < length ?xs" "s = shared_user_frames m' ! j" using s by (auto simp: in_set_conv_nth m')
    then show ?thesis using d i by (cases "j = i") (auto simp: m' distinct_conv_nth)
  qed
  have "shared_inv m' \<and> refs m' = (refs m)(shared_frame (?xs ! i) := n)"
  proof (rule refsI)
    show "distinct (map shared_frame (shared_user_frames m'))" using d frames by simp
    show "\<forall>s\<in>set (shared_user_frames m'). 2 \<le> references s" using mem n inv by (fastforce simp: shared_inv_def)
    show "\<forall>s\<in>set (shared_user_frames m'). references s = ((refs m)(shared_frame (?xs ! i) := n)) (shared_frame s)"
      using mem refs_in [OF inv] by fastforce
    have im: "shared_frame ` set (shared_user_frames m') = shared_frame ` set ?xs" using arg_cong [OF frames, of set] by simp
    show "\<forall>f. f \<notin> shared_frame ` set (shared_user_frames m') \<longrightarrow> ((refs m)(shared_frame (?xs ! i) := n)) f = 1"
      unfolding im using refs_out [of _ m] nth_mem [OF i] by auto
  qed
  then show "shared_inv m'" "refs m' = (refs m)(shared_frame (?xs ! i) := n)" by simp_all
qed

lemma refs_remove:
  assumes inv: "shared_inv m" and i: "i < length (shared_user_frames m)"
    and m': "shared_user_frames m' = swap_remove (shared_user_frames m) i"
  shows "shared_inv m'" "refs m' = (refs m)(shared_frame (shared_user_frames m ! i) := 1)"
proof -
  let ?xs = "shared_user_frames m"
  have d: "distinct (map shared_frame ?xs)" "distinct ?xs" using inv by (auto simp: shared_inv_def distinct_map)
  have set': "set (shared_user_frames m') = set ?xs - {?xs ! i}" using set_swap_remove [OF i d(2)] m' by simp
  have frames: "distinct (map shared_frame (shared_user_frames m'))"
      "shared_frame ` set (shared_user_frames m') = shared_frame ` set ?xs - {shared_frame (?xs ! i)}"
    using set_swap_remove [of i "map shared_frame ?xs"] d(1) i map_swap_remove [OF i, of shared_frame]
    by (simp_all add: m' flip: set_map)
  have ne: "shared_frame s \<noteq> shared_frame (?xs ! i)" if "s \<in> set (shared_user_frames m')" for s
    using that frames(2) by blast
  have "shared_inv m' \<and> refs m' = (refs m)(shared_frame (?xs ! i) := 1)"
  proof (rule refsI [OF frames(1)])
    show "\<forall>s\<in>set (shared_user_frames m'). 2 \<le> references s" using inv set' by (auto simp: shared_inv_def)
    show "\<forall>s\<in>set (shared_user_frames m'). references s = ((refs m)(shared_frame (?xs ! i) := 1)) (shared_frame s)"
      using ne refs_in [OF inv] set' by auto
    show "\<forall>f. f \<notin> shared_frame ` set (shared_user_frames m') \<longrightarrow> ((refs m)(shared_frame (?xs ! i) := 1)) f = 1"
      unfolding frames(2) using refs_out [of _ m] by auto
  qed
  then show "shared_inv m'" "refs m' = (refs m)(shared_frame (?xs ! i) := 1)" by simp_all
qed

lemma refs_append:
  assumes inv: "shared_inv m" and f: "f \<notin> shared_frame ` set (shared_user_frames m)"
    and m': "shared_user_frames m' = shared_user_frames m @ [\<lparr>shared_frame = f, references = 2\<rparr>]"
  shows "shared_inv m'" "refs m' = (refs m)(f := 2)"
proof -
  have "shared_inv m' \<and> refs m' = (refs m)(f := 2)"
  proof (rule refsI)
    show "\<forall>s\<in>set (shared_user_frames m'). references s = ((refs m)(f := 2)) (shared_frame s)"
      using refs_in [OF inv] f by (auto simp: m')
    show "\<forall>g. g \<notin> shared_frame ` set (shared_user_frames m') \<longrightarrow> ((refs m)(f := 2)) g = 1"
      using refs_out [of _ m] by (auto simp: m')
  qed (use inv f in \<open>auto simp: shared_inv_def m'\<close>)
  then show "shared_inv m'" "refs m' = (refs m)(f := 2)" by simp_all
qed

text \<open>Retaining adds one reference, releasing takes one away and tells when the last one went.\<close>

lemma retain_frame_spec:
  assumes inv: "shared_inv m"
  obtains (ok) X Y where "retain_shared_user_frame f m = (Inr (), m\<lparr>shared_user_frames := X, heap_replies := Y\<rparr>)"
      "shared_inv (m\<lparr>shared_user_frames := X, heap_replies := Y\<rparr>)"
      "refs (m\<lparr>shared_user_frames := X, heap_replies := Y\<rparr>) = (refs m)(f := refs m f + 1)" "set Y \<subseteq> set (heap_replies m)"
  | (fail) e Y where "retain_shared_user_frame f m = (Inl e, m\<lparr>heap_replies := Y\<rparr>)" "e = CorruptPageTable \<or> e = MapOutOfMemory"
      "set Y \<subseteq> set (heap_replies m)" "False \<in> set (heap_replies m) \<or> 2 ^ 64 \<le> refs m f + 1"
proof (cases "position (\<lambda>s. shared_frame s = f) (shared_user_frames m)")
  case None
  then have f: "f \<notin> shared_frame ` set (shared_user_frames m)" "refs m f = 1" using position_frame [OF inv, of f] by simp_all
  show ?thesis
  proof (cases "fst (try_reserve m)")
    case True
    let ?m = "m\<lparr>shared_user_frames := shared_user_frames m @ [\<lparr>shared_frame = f, references = 2\<rparr>], heap_replies := heap_replies (snd (try_reserve m))\<rparr>"
    have "retain_shared_user_frame f m = (Inr (), ?m)"
      using None True by (simp add: retain_shared_user_frame_def try_reserve_def split: list.splits)
    moreover have "set (heap_replies (snd (try_reserve m))) \<subseteq> set (heap_replies m)" by (auto simp: try_reserve_def split: list.splits)
    ultimately show ?thesis
      using refs_append [OF inv f(1), of ?m] f(2) by (intro ok [of "heap_replies (snd (try_reserve m))"]) (simp_all add: numeral_2_eq_2)
  next
    case False
    then show ?thesis
      using None by (intro fail [of MapOutOfMemory "heap_replies (snd (try_reserve m))"])
        (auto simp: retain_shared_user_frame_def try_reserve_def split: list.splits)
  qed
next
  case (Some i)
  then have i: "i < length (shared_user_frames m)" "shared_frame (shared_user_frames m ! i) = f"
      "refs m f = references (shared_user_frames m ! i)" "2 \<le> refs m f"
    using position_frame [OF inv, of f] by simp_all
  show ?thesis
  proof (cases "refs m f + 1 < 2 ^ 64")
    case True
    let ?X = "(shared_user_frames m)[i := (shared_user_frames m ! i)\<lparr>references := refs m f + 1\<rparr>]"
    show ?thesis
      using refs_update [OF inv i(1), of "refs m f + 1" "m\<lparr>shared_user_frames := ?X\<rparr>"] Some i True
      by (intro ok [of "heap_replies m" ?X]) (simp_all add: retain_shared_user_frame_def Let_def)
  next
    case False
    then show ?thesis
      using Some i by (intro fail [of CorruptPageTable "heap_replies m"]) (simp_all add: retain_shared_user_frame_def Let_def)
  qed
qed

lemma release_frame_spec:
  assumes inv: "shared_inv m"
  obtains X where "release_user_frame f m = (refs m f = 1, m\<lparr>shared_user_frames := X\<rparr>)"
      "shared_inv (m\<lparr>shared_user_frames := X\<rparr>)"
      "refs (m\<lparr>shared_user_frames := X\<rparr>) = (refs m)(f := max 1 (refs m f - 1))"
proof (cases "position (\<lambda>s. shared_frame s = f) (shared_user_frames m)")
  case None
  then have "refs m f = 1" using position_frame [OF inv, of f] by simp
  then show ?thesis using None inv by (intro that [of "shared_user_frames m"]) (simp_all add: release_user_frame_def Let_def fun_upd_idem)
next
  case (Some i)
  then have i: "i < length (shared_user_frames m)" "shared_frame (shared_user_frames m ! i) = f"
      "refs m f = references (shared_user_frames m ! i)" "2 \<le> refs m f"
    using position_frame [OF inv, of f] by simp_all
  show ?thesis
  proof (cases "refs m f > 2")
    case True
    let ?X = "(shared_user_frames m)[i := (shared_user_frames m ! i)\<lparr>references := refs m f - 1\<rparr>]"
    have "max 1 (refs m f - 1) = refs m f - 1" "2 \<le> refs m f - 1" using True by simp_all
    then show ?thesis
      using refs_update [OF inv i(1), of "refs m f - 1" "m\<lparr>shared_user_frames := ?X\<rparr>"] Some i True
      by (intro that [of ?X]) (simp_all add: release_user_frame_def Let_def)
  next
    case False
    let ?X = "swap_remove (shared_user_frames m) i"
    show ?thesis
      using refs_remove [OF inv i(1), of "m\<lparr>shared_user_frames := ?X\<rparr>"] Some i False
      by (intro that [of ?X]) (simp_all add: release_user_frame_def Let_def)
  qed
qed

subsection \<open>Frames and the pages that map them\<close>

definition user_page :: "Page \<Rightarrow> bool" where
  "user_page q \<longleftrightarrow> Page_wf q \<and> page_addr q \<le> USER_MAX"

lemma user_page_p4: "user_page q \<Longrightarrow> index (p4_index q) < 256"
  using user_page_index [of q] by (simp add: user_page_def)

definition mappings :: "Machine \<Rightarrow> PhysFrame set \<Rightarrow> PhysFrame \<Rightarrow> (AddressSpace \<times> Page) set" where
  "mappings m S f = {(sp, q). p4_frame sp \<in> S \<and> user_page q \<and> (\<exists>fl. AddressSpace_translate sp q m = Some (f, fl))}"

text \<open>What a reader of a page sees.\<close>

definition page_contents :: "AddressSpace \<Rightarrow> Page \<Rightarrow> Machine \<Rightarrow> (nat \<Rightarrow> u64) option" where
  "page_contents sp q m = map_option (\<lambda>(f, fl). memory m f) (AddressSpace_translate sp q m)"

text \<open>No mapped frame is a table or free, and a frame has at most as many mappings as references.\<close>

definition cow_inv :: "Machine \<Rightarrow> PhysFrame set \<Rightarrow> bool" where
  "cow_inv m S \<longleftrightarrow> vm_inv m S \<and> finite S \<and> shared_inv m \<and>
     (\<forall>f. mappings m S f \<noteq> {} \<longrightarrow> \<not> frame_free m f \<and> f \<notin> tables m S) \<and>
     (\<forall>f. card (mappings m S f) \<le> refs m f)"

lemma finite_pages: "finite (Q :: Page set)"
proof -
  have "inj page_addr" by (rule injI) (metis Page.expand VirtAddr.expand)
  then have "finite (UNIV :: Page set)" using finite_imageD [of page_addr UNIV] by simp
  then show ?thesis by (rule rev_finite_subset) simp
qed

lemma finite_mappings: "finite S \<Longrightarrow> finite (mappings m S f)"
proof -
  assume "finite S"
  have "finite (p4_frame -` S)"
    using \<open>finite S\<close> by (intro finite_vimageI) (auto intro!: injI AddressSpace.expand)
  then have "finite ((p4_frame -` S) \<times> (UNIV :: Page set))" using finite_pages by simp
  then show ?thesis by (rule rev_finite_subset) (auto simp: mappings_def)
qed

lemma cow_invD:
  assumes "cow_inv m S"
  shows "vm_inv m S" "finite S" "shared_inv m" "card (mappings m S f) \<le> refs m f" "finite (mappings m S f)"
    "mappings m S f \<noteq> {} \<Longrightarrow> \<not> frame_free m f" "mappings m S f \<noteq> {} \<Longrightarrow> f \<notin> tables m S"
  using assms finite_mappings by (simp_all add: cow_inv_def)

lemma mappings_remap:
  assumes tr: "\<forall>sp' q'. p4_frame sp' \<in> S \<and> Page_wf q' \<longrightarrow>
      AddressSpace_translate sp' q' m' = (if sp' = sp \<and> q' = q then new else AddressSpace_translate sp' q' m)"
    and sp: "p4_frame sp \<in> S" "user_page q"
  shows "mappings m' S f = (if \<exists>fl. new = Some (f, fl) then insert (sp, q) (mappings m S f) else mappings m S f - {(sp, q)})"
proof (rule set_eqI)
  fix x :: "AddressSpace \<times> Page"
  obtain a b where x: "x = (a, b)" by (cases x)
  have tr': "AddressSpace_translate a b m' = (if a = sp \<and> b = q then new else AddressSpace_translate a b m)"
    if "p4_frame a \<in> S" "user_page b" using tr that by (simp add: user_page_def)
  show "x \<in> mappings m' S f \<longleftrightarrow>
      x \<in> (if \<exists>fl. new = Some (f, fl) then insert (sp, q) (mappings m S f) else mappings m S f - {(sp, q)})"
    using sp by (simp add: mappings_def x tr' cong: conj_cong)
qed

lemma entry_of_translate:
  assumes "table_at m (p4_frame sp) [p4_index q, p3_index q, p2_index q] = Some t"
    and "AddressSpace_translate sp q m = Some (f, fl)"
  shows "PageTableEntry_is_present (PageTable_entry m t (p1_index q))" "entry_frame (PageTable_entry m t (p1_index q)) = f"
    "PageTableEntry_flags (PageTable_entry m t (p1_index q)) = fl" "bit (PageTableFlags_bits fl) 0"
  using translate_leaf(1) [OF assms(1)] assms(2)
  by (auto simp: Let_def bit_entry_flags simp flip: bit_present split: if_split_asm)

lemma mapped_frame_ok:
  assumes "vm_inv m S" "p4_frame sp \<in> S" "user_page q" "AddressSpace_translate sp q m = Some (f, fl)"
  shows "frame_ok f" "flags_ok fl" "bit (PageTableFlags_bits fl) 0"
    "\<exists>t. table_at m (p4_frame sp) [p4_index q, p3_index q, p2_index q] = Some t"
proof -
  from assms(1,2) user_page_p4 [OF assms(3)] obtain t
    where t: "table_at m (p4_frame sp) [p4_index q, p3_index q, p2_index q] = Some t"
    by (cases rule: user_leaf_cases) (use assms(4) in auto)
  then show "\<exists>t. table_at m (p4_frame sp) [p4_index q, p3_index q, p2_index q] = Some t" by blast
  note e = entry_of_translate [OF t assms(4)]
  show "frame_ok f" "flags_ok fl" "bit (PageTableFlags_bits fl) 0"
    using e(4) entry_frame_ok [of "PageTable_entry m t (p1_index q)"] entry_flags_ok [of "PageTable_entry m t (p1_index q)"]
    unfolding e(2,3) by simp_all
qed

text \<open>Replacing what one page maps.\<close>

lemma cow_inv_remap:
  assumes inv: "cow_inv m S" and sp: "p4_frame sp \<in> S" "user_page q"
    and old: "AddressSpace_translate sp q m = Some (f, fl)"
    and post: "vm_inv m' S" "tables m' S = tables m S" "shared_inv m'"
      "\<forall>sp' q'. p4_frame sp' \<in> S \<and> Page_wf q' \<longrightarrow>
        AddressSpace_translate sp' q' m' = (if sp' = sp \<and> q' = q then Some (g, fl') else AddressSpace_translate sp' q' m)"
    and g: "g = f \<and> refs m' = refs m \<and> (\<forall>h. frame_ok h \<longrightarrow> frame_free m' h = frame_free m h) \<or>
      frame_free m g \<and> frame_ok g \<and> refs m' = (refs m)(f := refs m f - 1) \<and> 2 \<le> refs m f \<and>
        (\<forall>h. frame_ok h \<longrightarrow> frame_free m' h = (frame_free m h \<and> h \<noteq> g))"
  shows "cow_inv m' S"
proof -
  have maps: "mappings m' S h = (if h = g then insert (sp, q) (mappings m S h) else mappings m S h - {(sp, q)})" for h
    using mappings_remap [OF post(4) sp] by auto
  have fin: "finite S" "finite (mappings m S h)" for h using inv finite_mappings by (auto simp: cow_inv_def)
  have inf: "(sp, q) \<in> mappings m S f" using sp old by (auto simp: mappings_def)
  have owned: "\<not> frame_free m h \<and> h \<notin> tables m S" if "mappings m S h \<noteq> {}" for h using inv that by (auto simp: cow_inv_def)
  have ok: "frame_ok h" if "mappings m S h \<noteq> {}" for h
    using that mapped_frame_ok [of m S] inv by (auto simp: mappings_def cow_inv_def)
  have vm: "vm_inv m S" "shared_inv m" using inv by (simp_all add: cow_inv_def)
  have card: "card (mappings m S h) \<le> refs m h" for h using inv by (simp add: cow_inv_def)
  have ng: "\<not> frame_free m' g \<and> g \<notin> tables m S"
    using g owned [of f] ok [of f] inf tables_not_free [OF vm(1), of g] by auto
  show ?thesis
    unfolding cow_inv_def
  proof (intro conjI allI impI)
    fix h assume h: "mappings m' S h \<noteq> {}"
    show "\<not> frame_free m' h" using g ng h owned [of h] ok [of h] maps [of h] by (cases "h = g") auto
    show "h \<notin> tables m' S" using post(2) ng h owned [of h] maps [of h] by (cases "h = g") auto
  next
    fix h
    have g_new: "g \<noteq> f \<Longrightarrow> mappings m S g = {}" using g owned [of g] by auto
    show "card (mappings m' S h) \<le> refs m' h"
    proof (cases "g = f")
      case True
      then have "frame_free m g \<Longrightarrow> False" using owned [of f] inf by auto
      then have "refs m' = refs m" using g by blast
      then show ?thesis using card [of h] maps [of h] inf True by (auto simp: insert_absorb card_Diff_singleton_if)
    next
      case False
      then have "refs m' = (refs m)(f := refs m f - 1)" "2 \<le> refs m f" using g by auto
      moreover have "1 \<le> refs m g" using refs_pos [OF vm(2)] .
      ultimately show ?thesis
        using card [of h] card [of f] maps [of h] inf False g_new fin(2)
        by (auto simp: card_Diff_singleton_if)
    qed
  qed (use post fin in auto)
qed

lemma contents_remap:
  assumes inv: "cow_inv m S" and sp: "p4_frame sp \<in> S" "user_page q" and old: "AddressSpace_translate sp q m = Some (f, fl)"
    and tr: "\<forall>sp' q'. p4_frame sp' \<in> S \<and> Page_wf q' \<longrightarrow>
        AddressSpace_translate sp' q' m' = (if sp' = sp \<and> q' = q then Some (g, fl') else AddressSpace_translate sp' q' m)"
    and mem: "\<forall>h. h \<notin> tables m S \<and> \<not> frame_free m h \<longrightarrow> memory m' h = memory m h"
      "memory m' g = memory m f"
    and p: "p4_frame sp' \<in> S" "user_page q'"
  shows "page_contents sp' q' m' = page_contents sp' q' m"
proof (cases "AddressSpace_translate sp' q' m")
  case None
  then show ?thesis using tr p old by (auto simp: page_contents_def user_page_def)
next
  case (Some x)
  obtain h fl'' where x: "x = (h, fl'')" by (cases x)
  have "(sp', q') \<in> mappings m S h" using p Some x by (auto simp: mappings_def)
  then have "\<not> frame_free m h" "h \<notin> tables m S" using inv by (auto simp: cow_inv_def)
  then show ?thesis using tr p old mem Some x by (auto simp: page_contents_def user_page_def)
qed

subsection \<open>A write fault\<close>

definition cow_page :: "PageTableFlags \<Rightarrow> bool" where
  "cow_page fl \<longleftrightarrow> PageTableFlags_contains fl PageTableFlags_USER \<and>
     PageTableFlags_contains fl PageTableFlags_COPY_ON_WRITE \<and> \<not> PageTableFlags_contains fl PageTableFlags_WRITABLE"

definition split_flags :: "PageTableFlags \<Rightarrow> PageTableFlags" where
  "split_flags fl = PageTableFlags_insert (PageTableFlags_remove fl PageTableFlags_COPY_ON_WRITE) PageTableFlags_WRITABLE"

lemma split_flags_ok: "flags_ok fl \<Longrightarrow> flags_ok (split_flags fl)"
  by (auto simp: split_flags_def flag_bits)

lemma bit_split_flags: "bit (PageTableFlags_bits (split_flags fl)) 0 = bit (PageTableFlags_bits fl) 0"
  by (simp add: split_flags_def flag_bits)

text \<open>The handler works on one page; every reader sees what it saw before.\<close>

definition fault_post :: "PhysFrame set \<Rightarrow> AddressSpace \<Rightarrow> Page \<Rightarrow> PageTableFlags \<Rightarrow> Machine \<Rightarrow> Machine \<Rightarrow> bool" where
  "fault_post S sp q fl m m' \<longleftrightarrow>
     cow_inv m' S \<and>
     (\<forall>sp' q'. p4_frame sp' \<in> S \<and> user_page q' \<longrightarrow> page_contents sp' q' m' = page_contents sp' q' m) \<and>
     (\<forall>sp' q'. p4_frame sp' \<in> S \<and> user_page q' \<and> (sp', q') \<noteq> (sp, q) \<longrightarrow>
        AddressSpace_translate sp' q' m' = AddressSpace_translate sp' q' m) \<and>
     (\<exists>g. AddressSpace_translate sp q m' = Some (g, split_flags fl) \<and> mappings m' S g = {(sp, q)})"

text \<open>The sole owner only gets its permission back.\<close>

lemma fault_unshared:
  assumes inv: "cow_inv m S" and sp: "p4_frame sp \<in> S" "user_page q" and old: "AddressSpace_translate sp q m = Some (f, fl)"
    and one: "refs m f = 1"
    and t: "table_at m (p4_frame sp) [p4_index q, p3_index q, p2_index q] = Some t"
  shows "fault_post S sp q fl m (shootdown x (PageTable_store (t, p1_index q) (PageTableEntry_new f (split_flags fl)) m))"
    (is "fault_post S sp q fl m ?m")
proof -
  have vm: "vm_inv m S" "Page_wf q" "page_addr q \<le> USER_MAX" using inv sp by (simp_all add: cow_inv_def user_page_def)
  note ok = mapped_frame_ok [OF vm(1) sp old]
  have e: "PageTableEntry_is_present (PageTableEntry_new f (split_flags fl))"
      "entry_frame (PageTableEntry_new f (split_flags fl)) = f" "PageTableEntry_flags (PageTableEntry_new f (split_flags fl)) = split_flags fl"
    using entry_new [OF ok(1) split_flags_ok [OF ok(2)]] bit_split_flags entry_of_translate(4) [OF t old] by (simp_all add: bit_present)
  have post: "remap_post S sp q (Some (f, split_flags fl)) m ?m"
    by (rule remap_store [OF vm(1) sp(1) vm(2,3) t]) (simp add: e)
  have refs: "refs ?m = refs m" "shared_inv ?m = shared_inv m" by (simp_all add: refs_def fun_eq_iff shared_inv_def)
  have free: "frame_free ?m = frame_free m" by simp
  have "(sp, q) \<in> mappings m S f" using sp old by (auto simp: mappings_def)
  then have nt: "f \<notin> tables m S" using cow_invD(7) [OF inv] by auto
  have inv': "cow_inv ?m S"
    by (rule cow_inv_remap [OF inv sp old, of _ f "split_flags fl"])
      (use post inv refs free in \<open>auto simp: remap_post_def cow_inv_def\<close>)
  have "(sp, q) \<in> mappings ?m S f" using post sp by (auto simp: mappings_def remap_post_def user_page_def)
  moreover have "card (mappings ?m S f) \<le> 1" "finite (mappings ?m S f)"
    using cow_invD(4,5) [OF inv', of f] one refs(1) by simp_all
  ultimately have "mappings ?m S f = {(sp, q)}" by (auto simp: card_le_Suc0_iff_eq)
  moreover have "page_contents sp' q' ?m = page_contents sp' q' m" if "p4_frame sp' \<in> S" "user_page q'" for sp' q'
    by (rule contents_remap [OF inv sp old _ _ _ that]) (use post nt in \<open>auto simp: remap_post_def\<close>)
  ultimately show ?thesis
    using inv' post sp by (auto simp: fault_post_def remap_post_def user_page_def)
qed

text \<open>A frame with several references is copied into a frame that was free.\<close>

lemma fault_shared:
  assumes inv: "cow_inv m S" and sp: "p4_frame sp \<in> S" "user_page q" and old: "AddressSpace_translate sp q m = Some (f, fl)"
    and two: "2 \<le> refs m f"
    and t: "table_at m (p4_frame sp) [p4_index q, p3_index q, p2_index q] = Some t"
    and g: "frame_ok g" "frame_free m g" "alloc_inv (m\<lparr>frame_allocator := Some a\<rparr>)"
      "\<forall>h. frame_ok h \<longrightarrow> frame_free (m\<lparr>frame_allocator := Some a\<rparr>) h = (frame_free m h \<and> h \<noteq> g)"
      "\<forall>h. frame_taken m h \<longrightarrow> frame_taken (m\<lparr>frame_allocator := Some a\<rparr>) h"
    and m3: "m3 = PageTable_store (t, p1_index q) (PageTableEntry_new g (split_flags fl))
        (copy_frame f g (m\<lparr>frame_allocator := Some a\<rparr>))"
    and X: "shared_inv (m3\<lparr>shared_user_frames := X\<rparr>)" "refs (m3\<lparr>shared_user_frames := X\<rparr>) = (refs m)(f := refs m f - 1)"
  shows "fault_post S sp q fl m (shootdown x (m3\<lparr>shared_user_frames := X\<rparr>))" (is "fault_post S sp q fl m ?m")
proof -
  let ?c = "copy_frame f g (m\<lparr>frame_allocator := Some a\<rparr>)"
  have vm: "vm_inv m S" "Page_wf q" "page_addr q \<le> USER_MAX" using inv sp by (simp_all add: cow_inv_def user_page_def)
  have ng: "g \<notin> tables m S" using tables_not_free [OF vm(1)] g(2) by auto
  have al: "frame_free ?c = frame_free (m\<lparr>frame_allocator := Some a\<rparr>)" "frame_taken ?c = frame_taken (m\<lparr>frame_allocator := Some a\<rparr>)"
      "alloc_inv ?c"
    using g(3) by (auto simp: copy_frame_def frame_free_def frame_taken_def alloc_inv_def fun_eq_iff)
  have same: "\<forall>h\<in>tables m S. \<forall>j. index j < 512 \<longrightarrow> PageTable_entry ?c h j = PageTable_entry m h j"
    using ng by (auto simp: copy_frame_def PageTable_entry_def)
  have out: "vm_inv ?c S" "tables ?c S = tables m S"
      "\<And>sp q. p4_frame sp \<in> S \<Longrightarrow> AddressSpace_translate sp q ?c = AddressSpace_translate sp q m"
    by (rule outside_tables [OF vm(1) same]; use al g(4,5) tables_ok [OF vm(1)] in \<open>simp; fail\<close>)+
  have tc: "table_at ?c (p4_frame sp) [p4_index q, p3_index q, p2_index q] = Some t"
    by (rule trans [OF same_tables(1) [OF same sp(1)] t]) (simp add: path_ok_def)
  note ok = mapped_frame_ok [OF vm(1) sp old]
  have e: "PageTableEntry_is_present (PageTableEntry_new g (split_flags fl))"
      "entry_frame (PageTableEntry_new g (split_flags fl)) = g" "PageTableEntry_flags (PageTableEntry_new g (split_flags fl)) = split_flags fl"
    using entry_new [OF g(1) split_flags_ok [OF ok(2)]] bit_split_flags entry_of_translate(4) [OF t old] by (simp_all add: bit_present)
  have "remap_post S sp q (Some (g, split_flags fl)) ?c (shootdown x m3)"
    unfolding m3 by (rule remap_store [OF out(1) sp(1) vm(2,3) tc]) (simp add: e)
  then have post: "vm_inv m3 S" "tables m3 S = tables m S" "\<forall>h. h \<notin> tables m S \<longrightarrow> memory m3 h = memory ?c h"
      "\<forall>sp' q'. p4_frame sp' \<in> S \<and> Page_wf q' \<longrightarrow>
        AddressSpace_translate sp' q' m3 = (if sp' = sp \<and> q' = q then Some (g, split_flags fl) else AddressSpace_translate sp' q' m)"
    using out by (simp_all add: remap_post_def)
  have same3: "vm_inv ?m S = vm_inv m3 S" "tables ?m S = tables m3 S" "AddressSpace_translate sp' q' ?m = AddressSpace_translate sp' q' m3"
      "frame_free ?m = frame_free m3" "memory ?m = memory m3" for sp' q'
    by (rule vm_same; simp)+ simp
  have free: "frame_free m3 = frame_free (m\<lparr>frame_allocator := Some a\<rparr>)" by (simp add: m3 al)
  have "refs ?m = (refs m)(f := refs m f - 1)" "shared_inv ?m" using X by (simp_all add: refs_def fun_eq_iff shared_inv_def)
  then have inv': "cow_inv ?m S"
    by (intro cow_inv_remap [OF inv sp old, of ?m g "split_flags fl"]) (use post free g two same3 in auto)
  have none: "mappings m S g = {}" using cow_invD(6) [OF inv, of g] g(2) by auto
  then have "mappings ?m S g = {(sp, q)}"
    using mappings_remap [of S ?m sp q "Some (g, split_flags fl)" m g] post(4) same3(3) sp by simp
  moreover have "page_contents sp' q' ?m = page_contents sp' q' m" if "p4_frame sp' \<in> S" "user_page q'" for sp' q'
  proof (rule contents_remap [where g = g and fl' = "split_flags fl", OF inv sp old _ _ _ that])
    show "\<forall>h. h \<notin> tables m S \<and> \<not> frame_free m h \<longrightarrow> memory ?m h = memory m h"
      using post(3) same3(5) g(2) by (auto simp: copy_frame_def)
    show "memory ?m g = memory m f" using post(3) same3(5) ng by (simp add: copy_frame_def)
  qed (use post(4) same3(3) in simp)
  ultimately show ?thesis
    using inv' post(4) same3(3) sp by (auto simp: fault_post_def user_page_def)
qed

text \<open>
  The write-fault handler never panics and keeps the copy-on-write invariant. On a user page marked
  copy-on-write it either reports that no frame is left, with the machine unchanged, or makes the page
  writable on a frame that no other page of any space maps; every page of every space reads the same
  contents as before and every other page keeps its translation. On any other page it answers that the
  fault is not its own and changes nothing.
\<close>

lemma resolve_cow_fault_spec:
  assumes inv: "cow_inv m S" and sp: "p4_frame sp \<in> S" "user_page q"
  shows "\<exists>res m'. AddressSpace_resolve_cow_fault sp q m = Some (res, m') \<and>
    (if \<exists>f fl. AddressSpace_translate sp q m = Some (f, fl) \<and> cow_page fl
     then res = Inl MapOutOfMemory \<and> m' = m \<and> (\<forall>f. \<not> frame_free m f) \<or>
       res = Inr True \<and> fault_post S sp q (snd (the (AddressSpace_translate sp q m))) m m'
     else res = Inr False \<and> m' = m)"
proof -
  note vm = cow_invD(1,3) [OF inv]
  from vm(1) sp(1) user_page_p4 [OF sp(2)] show ?thesis
  proof (cases rule: user_leaf_cases)
    case absent
    then show ?thesis by (simp add: AddressSpace_resolve_cow_fault_def)
  next
    case (leaf t)
    let ?e = "PageTable_entry m t (p1_index q)"
    note walk = translate_leaf [OF leaf]
    show ?thesis
    proof (cases "PageTableEntry_is_present ?e \<and> cow_page (PageTableEntry_flags ?e)")
      case False
      then show ?thesis
        using walk by (auto simp: AddressSpace_resolve_cow_fault_def Let_def cow_page_def entry_contains(1) split: if_split_asm)
    next
      case True
      let ?f = "entry_frame ?e" and ?fl = "PageTableEntry_flags ?e"
      let ?flush = "shootdown (ShootdownPage (AddressSpace_cr3 sp) (page_addr q))"
      have old: "AddressSpace_translate sp q m = Some (?f, ?fl)" using walk True by (simp add: Let_def)
      have ef: "PageTableEntry_frame ?e = Some ?f" using True by (simp add: PageTableEntry_frame_present)
      have run: "AddressSpace_resolve_cow_fault sp q m =
          (if 2 \<le> refs m ?f
           then do {
             (destination, m) \<leftarrow> alloc_frame m;
             case destination of
               None \<Rightarrow> Some (Inl MapOutOfMemory, m)
             | Some destination \<Rightarrow>
                 let (unowned, m) = release_user_frame ?f
                       (PageTable_store (t, p1_index q) (PageTableEntry_new destination (split_flags ?fl)) (copy_frame ?f destination m)) in
                 if unowned
                 then do { m \<leftarrow> free_frame destination (PageTable_store (t, p1_index q) (PageTableEntry_new ?f ?fl) m);
                           Some (Inl CorruptPageTable, m) }
                 else Some (Inr True, ?flush m)
           }
           else Some (Inr True, ?flush (PageTable_store (t, p1_index q) (PageTableEntry_new ?f (split_flags ?fl)) m)))"
        using True shared_iff_refs [OF vm(2), of ?f] ef
        unfolding AddressSpace_resolve_cow_fault_def Let_def split_flags_def walk(2) option.case fst_conv snd_conv ef
        by (simp add: cow_page_def entry_contains(1))
      show ?thesis
      proof (cases "2 \<le> refs m ?f")
        case False
        then have "refs m ?f = 1" using refs_pos [OF vm(2), of ?f] by simp
        then show ?thesis using fault_unshared [OF inv sp old _ leaf] run False old True by auto
      next
        case two: True
        have "alloc_inv m" using vm(1) by (simp add: vm_inv_def)
        then show ?thesis
        proof (cases rule: alloc_frame_cases)
          case none
          then show ?thesis using run two old True by auto
        next
          case (some g a)
          let ?m3 = "PageTable_store (t, p1_index q) (PageTableEntry_new g (split_flags ?fl)) (copy_frame ?f g (m\<lparr>frame_allocator := Some a\<rparr>))"
          have sh: "shared_inv ?m3" "refs ?m3 = refs m" using vm(2) by (simp_all add: shared_inv_def refs_def fun_eq_iff copy_frame_def)
          obtain X where X: "release_user_frame ?f ?m3 = (refs ?m3 ?f = 1, ?m3\<lparr>shared_user_frames := X\<rparr>)"
              "shared_inv (?m3\<lparr>shared_user_frames := X\<rparr>)"
              "refs (?m3\<lparr>shared_user_frames := X\<rparr>) = (refs ?m3)(?f := max 1 (refs ?m3 ?f - 1))"
            using release_frame_spec [OF sh(1)] by metis
          have "max 1 (refs m ?f - 1) = refs m ?f - 1" using two by simp
          then have "refs (?m3\<lparr>shared_user_frames := X\<rparr>) = (refs m)(?f := refs m ?f - 1)" using X(3) unfolding sh(2) by simp
          then have post: "fault_post S sp q ?fl m (?flush (?m3\<lparr>shared_user_frames := X\<rparr>))"
            by (intro fault_shared [OF inv sp old two leaf some(2,3,4,6,7) refl X(2)])
          then show ?thesis using run two some(1) X(1) sh(2) old True by simp
        qed
      qed
    qed
  qed
qed

end
