(* ===== verification/Fork_Laws.thy ===== *)
theory Fork_Laws
  imports Cow_Fork_Laws
begin

text \<open>
  Fork either gives the child every user page of the parent, with writable pages turned copy-on-write in
  both, or takes every step back.
\<close>

subsection \<open>Adding a space\<close>

text \<open>
  A taken frame whose lower half is empty and whose upper half repeats entries of the spaces' roots is the
  root of one more space.
\<close>

definition new_root :: "Machine \<Rightarrow> PhysFrame set \<Rightarrow> PhysFrame \<Rightarrow> bool" where
  "new_root m S c \<longleftrightarrow> c \<notin> tables m S \<and> frame_taken m c \<and> \<not> frame_free m c \<and>
     (\<forall>i. index i < 512 \<longrightarrow> PageTable_entry m c i = PageTableEntry_empty \<or>
        256 \<le> index i \<and> (\<exists>r\<in>S. PageTable_entry m c i = PageTable_entry m r i))"

lemma new_root_table_at:
  assumes n: "new_root m S c" and p: "path_ok 3 p" "table_at m c p = Some f"
  shows "p = [] \<and> f = c \<or> (\<exists>r\<in>S. \<not> user_path p \<and> table_at m r p = Some f)"
proof (cases p)
  case (Cons i q)
  then have "index i < 512" "links (PageTable_entry m c i)" using p by (auto simp: path_ok_def split: if_split_asm)
  then obtain r where "r \<in> S" "256 \<le> index i" "PageTable_entry m c i = PageTable_entry m r i"
    using n empty_entry(1) unfolding new_root_def by metis
  then have "\<not> user_path p" "table_at m r p = Some f" using p(2) Cons by (simp_all add: user_path_def split: if_split_asm)
  then show ?thesis using \<open>r \<in> S\<close> by blast
qed (use p in simp)

lemma add_space:
  assumes inv: "vm_inv m S" and n: "new_root m S c"
  shows "vm_inv m (insert c S)" "tables m (insert c S) = insert c (tables m S)"
    "user_page q \<Longrightarrow> AddressSpace_translate (AddressSpace c) q m = None"
proof -
  note at = new_root_table_at [OF n]
  have nt: "c \<notin> tables m S" "frame_taken m c" "\<not> frame_free m c" using n by (simp_all add: new_root_def)
  have i: "tree_inv m S" "small_inv m S" "frames_inv m S" "alloc_inv m" using inv by (simp_all add: vm_inv_def)
  have "c \<in> tables m (insert c S)" by (rule tablesI [of c _ "[]"]) (simp_all add: path_ok_def)
  moreover have "f \<in> insert c (tables m S)" if "f \<in> tables m (insert c S)" for f
  proof -
    obtain r p where "r \<in> insert c S" "path_ok 3 p" "table_at m r p = Some f" using \<open>f \<in> _\<close> by (auto simp: tables_def)
    then show ?thesis using at [of p f] tablesI by blast
  qed
  ultimately show "tables m (insert c S) = insert c (tables m S)" by (auto simp: tables_def)
  have in_S: "f \<in> tables m S" if "path_ok 3 p" "table_at m c p = Some f" "p \<noteq> []" for p f
    using at [OF that(1,2)] that tablesI by blast
  have "tree_inv m (insert c S)"
    unfolding tree_inv_def
  proof (intro ballI allI impI)
    fix r r' p q f assume r: "r \<in> insert c S" "r' \<in> insert c S"
      and a: "user_path p \<and> path_ok 3 p \<and> path_ok 3 q \<and> table_at m r p = Some f \<and> table_at m r' q = Some f"
    then have p: "user_path p" "path_ok 3 p" "path_ok 3 q" "table_at m r p = Some f" "table_at m r' q = Some f" by simp_all
    have "f = c \<or> f \<in> tables m S" using r(1) at [OF p(2)] p(2,4) tablesI by blast
    then show "r = r' \<and> p = q"
    proof
      assume f: "f = c"
      have only: "x = c \<and> js = []" if "x \<in> insert c S" "path_ok 3 js" "table_at m x js = Some f" for x js
        using that in_S [of js f] tablesI [of x S js m f] nt(1) f by auto
      show ?thesis using only [OF r(1) p(2,4)] only [OF r(2) p(3,5)] by simp
    next
      assume f: "f \<in> tables m S"
      then have "f \<noteq> c" using nt(1) by auto
      then have S: "r \<in> S" using r(1) at [OF p(2)] p(1,4) by auto
      obtain r2 where "r2 \<in> S" "table_at m r2 q = Some f" "r' = c \<longrightarrow> \<not> user_path q" "r' = r2 \<or> r' = c"
        using r(2) at [OF p(3)] p(5) \<open>f \<noteq> c\<close> by (cases "r' = c") auto
      then show ?thesis using tree_invD [OF i(1) S _ p(1-4)] p(1) by blast
    qed
  qed
  moreover have "small_inv m (insert c S)"
    unfolding small_inv_def
  proof (intro ballI allI impI)
    fix r p j f assume r: "r \<in> insert c S" and a: "user_path p \<and> path_ok 3 (p @ [j]) \<and> table_at m r p = Some f"
    then have p: "user_path p" "path_ok 3 p" "path_ok 3 (p @ [j])" "table_at m r p = Some f" "index j < 512"
      by (auto simp: path_ok_def)
    show "\<not> PageTableEntry_is_huge (PageTable_entry m f j)"
    proof (cases "r = c")
      case True
      then have f: "f = c" using at [OF p(2)] p(1,4) by blast
      have "\<not> PageTableEntry_is_huge (PageTable_entry m x j)" if "x \<in> S" for x
        by (rule small_invD [OF i(2) that, of "[]"]) (use p(5) in \<open>simp_all add: user_path_def path_ok_def\<close>)
      then show ?thesis using n p(5) empty_entry(3) unfolding new_root_def f by metis
    next
      case False
      then show ?thesis using small_invD [OF i(2) _ p(1,3,4)] r by blast
    qed
  qed
  moreover have "frames_inv m (insert c S)"
    using i(3) at nt unfolding frames_inv_def by (metis insert_iff)
  ultimately show "vm_inv m (insert c S)" using i(4) by (simp add: vm_inv_def)
  show "AddressSpace_translate (AddressSpace c) q m = None" if "user_page q"
  proof -
    have "PageTable_entry m c (p4_index q) = PageTableEntry_empty"
      using n user_page_p4 [OF that] unfolding new_root_def by (metis index_less(1) not_le)
    then show ?thesis by (simp add: AddressSpace_translate_def)
  qed
qed

subsection \<open>The kernel half\<close>

lemma set_table_indices:
  assumes "b \<le> 512"
  shows "set (table_indices a b) = {i. a \<le> index i \<and> index i < b}"
proof (intro set_eqI iffI)
  fix i assume "i \<in> set (table_indices a b)"
  then obtain k where "a \<le> k" "k < b" "i = PageTableIndex (of_nat k)" by (auto simp: table_indices_def)
  then show "i \<in> {i. a \<le> index i \<and> index i < b}" using assms by (simp add: unsigned_of_nat take_bit_nat_eq_self)
next
  fix i assume i: "i \<in> {i. a \<le> index i \<and> index i < b}"
  have "i = PageTableIndex (of_nat (index i))" by (cases i) simp
  then show "i \<in> set (table_indices a b)" unfolding table_indices_def set_map by (rule image_eqI) (use i in simp)
qed

lemma distinct_table_indices:
  assumes "b \<le> 512"
  shows "distinct (table_indices a b)"
  unfolding table_indices_def distinct_map
proof (intro conjI inj_onI)
  fix x y assume "x \<in> set [a..<b]" "y \<in> set [a..<b]" "PageTableIndex (of_nat x) = PageTableIndex (of_nat y)"
  then have "unat (of_nat x :: u16) = unat (of_nat y :: u16)" "x < 2 ^ 16" "y < 2 ^ 16" using assms by auto
  then show "x = y" by (simp add: unsigned_of_nat take_bit_nat_eq_self)
qed simp

text \<open>A loop of stores into one table, from entries outside of it.\<close>

lemma fold_store:
  assumes "\<And>i m'. (\<And>f j. f \<noteq> c \<Longrightarrow> PageTable_entry m' f j = PageTable_entry m f j) \<Longrightarrow> new m' i = new m i"
  shows "PageTable_entry (fold (\<lambda>i m. PageTable_store (c, i) (new m i) m) js m) f j =
      (if f = c \<and> j \<in> set js then new m j else PageTable_entry m f j)"
    "frame_allocator (fold (\<lambda>i m. PageTable_store (c, i) (new m i) m) js m) = frame_allocator m"
    "shared_user_frames (fold (\<lambda>i m. PageTable_store (c, i) (new m i) m) js m) = shared_user_frames m"
    "heap_replies (fold (\<lambda>i m. PageTable_store (c, i) (new m i) m) js m) = heap_replies m"
    "shootdowns (fold (\<lambda>i m. PageTable_store (c, i) (new m i) m) js m) = shootdowns m"
    "f \<noteq> c \<Longrightarrow> memory (fold (\<lambda>i m. PageTable_store (c, i) (new m i) m) js m) f = memory m f"
proof -
  let ?g = "\<lambda>js. fold (\<lambda>i m. PageTable_store (c, i) (new m i) m) js m"
  have all: "(\<forall>f j. PageTable_entry (?g js) f j = (if f = c \<and> j \<in> set js then new m j else PageTable_entry m f j)) \<and>
      frame_allocator (?g js) = frame_allocator m \<and> shared_user_frames (?g js) = shared_user_frames m \<and>
      heap_replies (?g js) = heap_replies m \<and> shootdowns (?g js) = shootdowns m \<and>
      (\<forall>f. f \<noteq> c \<longrightarrow> memory (?g js) f = memory m f)" for js
  proof (induction js rule: rev_induct)
    case (snoc i js)
    moreover from snoc have "new (?g js) i = new m i" by (intro assms) auto
    ultimately show ?case by (auto simp: store_memory)
  qed simp
  show "PageTable_entry (?g js) f j = (if f = c \<and> j \<in> set js then new m j else PageTable_entry m f j)"
    "frame_allocator (?g js) = frame_allocator m" "shared_user_frames (?g js) = shared_user_frames m"
    "heap_replies (?g js) = heap_replies m" "shootdowns (?g js) = shootdowns m" "f \<noteq> c \<Longrightarrow> memory (?g js) f = memory m f"
    using all [of js] by simp_all
qed

lemma copy_kernel_half_spec:
  assumes "p4_frame parent \<noteq> p4_frame child"
  shows "PageTable_entry (copy_kernel_half parent child m) f j =
      (if f = p4_frame child \<and> 256 \<le> index j \<and> index j < 512 then PageTable_entry m (p4_frame parent) j else PageTable_entry m f j)"
    "frame_allocator (copy_kernel_half parent child m) = frame_allocator m"
    "shared_user_frames (copy_kernel_half parent child m) = shared_user_frames m"
    "heap_replies (copy_kernel_half parent child m) = heap_replies m"
    "shootdowns (copy_kernel_half parent child m) = shootdowns m"
    "f \<noteq> p4_frame child \<Longrightarrow> memory (copy_kernel_half parent child m) f = memory m f"
  using fold_store [where c = "p4_frame child" and m = m and new = "\<lambda>m i. PageTable_entry m (p4_frame parent) i" and js = "table_indices 256 512"] assms
  by (simp_all add: copy_kernel_half_def ENTRIES_PER_TABLE_def set_table_indices)

lemma clear_kernel_half_spec:
  "PageTable_entry (clear_kernel_half space m) f j =
     (if f = p4_frame space \<and> 256 \<le> index j \<and> index j < 512 then PageTableEntry_empty else PageTable_entry m f j)"
  "frame_allocator (clear_kernel_half space m) = frame_allocator m"
  "shared_user_frames (clear_kernel_half space m) = shared_user_frames m"
  "heap_replies (clear_kernel_half space m) = heap_replies m"
  "shootdowns (clear_kernel_half space m) = shootdowns m"
  "f \<noteq> p4_frame space \<Longrightarrow> memory (clear_kernel_half space m) f = memory m f"
  using fold_store [where c = "p4_frame space" and m = m and new = "\<lambda>m i. PageTableEntry_empty" and js = "table_indices 256 512"]
  by (simp_all add: clear_kernel_half_def ENTRIES_PER_TABLE_def set_table_indices)

text \<open>The machine after a frame \<open>c\<close> was taken for the root of a new space.\<close>

definition space_added :: "PhysFrame set \<Rightarrow> Machine \<Rightarrow> PhysFrame \<Rightarrow> Machine \<Rightarrow> bool" where
  "space_added S m c m' \<longleftrightarrow>
     vm_inv m' S \<and> new_root m' S c \<and> frame_free m c \<and>
     (\<forall>r\<in>S. \<forall>p. path_ok 3 p \<longrightarrow> table_at m' r p = table_at m r p) \<and>
     (\<forall>sp q. p4_frame sp \<in> S \<longrightarrow> AddressSpace_translate sp q m' = AddressSpace_translate sp q m) \<and>
     (\<forall>f. frame_ok f \<longrightarrow> frame_free m' f = (frame_free m f \<and> f \<noteq> c)) \<and>
     (\<forall>f. f \<noteq> c \<longrightarrow> memory m' f = memory m f) \<and>
     shared_user_frames m' = shared_user_frames m \<and> heap_replies m' = heap_replies m \<and> shootdowns m' = shootdowns m"

lemma new_empty_cases:
  assumes inv: "vm_inv m S"
  obtains (none) "AddressSpace_new_empty m = Some (Inl MapOutOfMemory, m)" "\<forall>f. \<not> frame_free m f"
  | (some) c m' where "AddressSpace_new_empty m = Some (Inr (AddressSpace c), m')" "space_added S m c m'"
proof -
  have "alloc_inv m" using inv by (simp add: vm_inv_def)
  then show thesis
  proof (cases rule: alloc_frame_cases)
    case none
    then show ?thesis by (intro that(1)) (simp_all add: AddressSpace_new_empty_def)
  next
    case (some c a)
    let ?z = "zero_frame c (m\<lparr>frame_allocator := Some a\<rparr>)"
    have nc: "c \<notin> tables m S" using tables_not_free [OF inv] some(3) by auto
    have al: "frame_free ?z = frame_free (m\<lparr>frame_allocator := Some a\<rparr>)" "frame_taken ?z = frame_taken (m\<lparr>frame_allocator := Some a\<rparr>)"
        "alloc_inv ?z"
      using some(4) by (auto simp: zero_frame_def frame_free_def frame_taken_def alloc_inv_def fun_eq_iff)
    have same: "\<forall>f\<in>tables m S. \<forall>i. index i < 512 \<longrightarrow> PageTable_entry ?z f i = PageTable_entry m f i"
      using nc by (auto simp: zero_frame_def PageTable_entry_def)
    have out: "vm_inv ?z S" "tables ?z S = tables m S"
        "\<And>sp q. p4_frame sp \<in> S \<Longrightarrow> AddressSpace_translate sp q ?z = AddressSpace_translate sp q m"
      by (rule outside_tables [OF inv same]; use al some(6,7) tables_ok [OF inv] in \<open>simp; fail\<close>)+
    have "PageTable_entry ?z c i = PageTableEntry_empty" for i
      by (simp add: PageTable_entry_def zero_frame_def PageTableEntry_empty_def)
    then have "new_root ?z S c" using nc al out(2) some(2,5,6) by (simp add: new_root_def)
    moreover have "table_at ?z r p = table_at m r p" if "r \<in> S" "path_ok 3 p" for r p
      by (rule same_tables(1) [OF same that(1) path_ok_mono [OF that(2)]]) simp
    ultimately have "space_added S m c ?z"
      using out some(3,6) al(1) by (simp add: space_added_def) (simp add: zero_frame_def)
    then show ?thesis using some(1) by (intro that(2)) (simp_all add: AddressSpace_new_empty_def)
  qed
qed

lemma copy_kernel_half_added:
  assumes add: "space_added S m c m1" and r: "p4_frame parent \<in> S"
  shows "space_added S m c (copy_kernel_half parent (AddressSpace c) m1)" (is "space_added S m c ?k")
    "Page_wf q \<Longrightarrow> \<not> user_page q \<Longrightarrow>
       AddressSpace_translate (AddressSpace c) q (copy_kernel_half parent (AddressSpace c) m1) = AddressSpace_translate parent q m"
proof -
  have inv: "vm_inv m1 S" and n: "new_root m1 S c" using add by (simp_all add: space_added_def)
  then have nc: "c \<notin> tables m1 S" by (simp add: new_root_def)
  have "p4_frame parent \<in> tables m1 S" by (rule tablesI [OF r, of "[]"]) (simp_all add: path_ok_def)
  then have ne: "p4_frame parent \<noteq> p4_frame (AddressSpace c)" using nc by auto
  note k = copy_kernel_half_spec [OF ne, where m = m1, unfolded AddressSpace.sel]
  have same: "\<forall>f\<in>tables m1 S. \<forall>i. index i < 512 \<longrightarrow> PageTable_entry ?k f i = PageTable_entry m1 f i"
    using nc by (auto simp: k(1))
  note al = alloc_same [OF k(2)]
  have out: "vm_inv ?k S" "tables ?k S = tables m1 S"
      "\<And>sp q. p4_frame sp \<in> S \<Longrightarrow> AddressSpace_translate sp q ?k = AddressSpace_translate sp q m1"
    by (rule outside_tables [OF inv same]; use al inv in \<open>simp add: vm_inv_def; fail\<close>)+
  have at: "table_at ?k r' p = table_at m1 r' p" if "r' \<in> S" "path_ok 3 p" for r' p
    by (rule same_tables(1) [OF same that(1) path_ok_mono [OF that(2)]]) simp
  have "PageTable_entry ?k c i = PageTableEntry_empty \<or> 256 \<le> index i \<and> (\<exists>r\<in>S. PageTable_entry ?k c i = PageTable_entry ?k r i)"
    if "index i < 512" for i
  proof (cases "256 \<le> index i")
    case True
    then have "PageTable_entry ?k c i = PageTable_entry ?k (p4_frame parent) i" using that ne by (simp add: k(1))
    then show ?thesis using True r by blast
  next
    case False
    then have "PageTable_entry m1 c i = PageTableEntry_empty" using that n unfolding new_root_def by blast
    then show ?thesis using False by (simp add: k(1))
  qed
  then have "new_root ?k S c" using n al out(2) by (simp add: new_root_def)
  then show "space_added S m c ?k"
    using add out at k al by (simp add: space_added_def)
  show "AddressSpace_translate (AddressSpace c) q ?k = AddressSpace_translate parent q m" if "Page_wf q" "\<not> user_page q"
  proof -
    have "256 \<le> index (p4_index q)" using that user_page_index [of q] by (simp add: user_page_def)
    then have "PageTable_entry ?k c (p4_index q) = PageTable_entry ?k (p4_frame parent) (p4_index q)" using ne by (simp add: k(1))
    then have "AddressSpace_translate (AddressSpace c) q ?k = AddressSpace_translate parent q ?k"
      unfolding AddressSpace_translate_def AddressSpace.sel by simp
    then show ?thesis using out(3) r add by (simp add: space_added_def)
  qed
qed

subsection \<open>Pages and their indices\<close>

lemma index_bits:
  assumes "index i < 2 ^ k" "bit (PageTableIndex_value i) n"
  shows "n < k"
proof (rule ccontr)
  assume "\<not> n < k"
  then have "index i < 2 ^ n" using assms(1) by (meson less_le_trans not_less one_le_numeral power_increasing)
  then have "\<not> bit (index i) n" by (simp add: bit_iff_odd)
  then show False using assms(2) by (simp add: bit_unsigned_iff)
qed

lemma page_from_indices:
  assumes "index i4 < 256" "index i3 < 512" "index i2 < 512" "index i1 < 512"
  shows "user_page (page_from_indices i4 i3 i2 i1)" "page_path (page_from_indices i4 i3 i2 i1) = [i4, i3, i2, i1]"
proof -
  let ?a = "push_bit 39 (ucast (PageTableIndex_value i4)) OR push_bit 30 (ucast (PageTableIndex_value i3)) OR
      push_bit 21 (ucast (PageTableIndex_value i2)) OR push_bit 12 (ucast (PageTableIndex_value i1)) :: u64"
  let ?q = "page_from_indices i4 i3 i2 i1"
  have lim: "bit (PageTableIndex_value i4) n \<Longrightarrow> n < 8" "bit (PageTableIndex_value i3) n \<Longrightarrow> n < 9"
    "bit (PageTableIndex_value i2) n \<Longrightarrow> n < 9" "bit (PageTableIndex_value i1) n \<Longrightarrow> n < 9" for n
    using index_bits [of i4 8 n] index_bits [of i3 9 n] index_bits [of i2 9 n] index_bits [of i1 9 n] assms by simp_all
  have a: "bit ?a n \<longleftrightarrow> n < 64 \<and> (39 \<le> n \<and> bit (PageTableIndex_value i4) (n - 39) \<or> 30 \<le> n \<and> bit (PageTableIndex_value i3) (n - 30) \<or>
      21 \<le> n \<and> bit (PageTableIndex_value i2) (n - 21) \<or> 12 \<le> n \<and> bit (PageTableIndex_value i1) (n - 12))" for n
    by (auto simp: bit_simps dest: lim)
  have q: "bit (page_addr ?q) n \<longleftrightarrow> bit ?a n" for n
    unfolding page_from_indices_def Let_def Page_containing_addr_def VirtAddr_align_down_def
    by (auto simp: PAGE_SIZE_mask bit_new_truncate bit_and_iff bit_not_iff bit_mask_iff a dest: lim)
  have idx: "index_at s (page_addr ?q) = i" if "s + 9 \<le> 48" "\<And>n. n < 9 \<Longrightarrow> bit ?a (s + n) = bit (PageTableIndex_value i) n"
      "index i < 512" for s i
  proof (intro PageTableIndex.expand bit_word_eqI)
    fix n assume "n < LENGTH(16)"
    show "bit (PageTableIndex_value (index_at s (page_addr ?q))) n = bit (PageTableIndex_value i) n"
      using bit_index_at [of s "page_addr ?q" n] that index_bits [of i 9 n] unfolding q by auto
  qed
  have "p4_index ?q = i4" "p3_index ?q = i3" "p2_index ?q = i2" "p1_index ?q = i1"
    unfolding index_at_simps by (rule idx; use assms in \<open>auto simp: a dest: lim\<close>)+
  then show "page_path ?q = [i4, i3, i2, i1]" by (simp add: page_path_def)
  have "Page_wf ?q" unfolding page_from_indices_def Let_def by (intro Page_containing_addr_wf VirtAddr_new_truncate_wf)
  then show "user_page ?q" using user_page_index \<open>p4_index ?q = i4\<close> assms(1) by (simp add: user_page_def)
qed

subsection \<open>The state of a fork in progress\<close>

definition forked :: "(PhysFrame \<times> PageTableFlags) option \<Rightarrow> (PhysFrame \<times> PageTableFlags) option" where
  "forked t = map_option (\<lambda>(f, fl). (f, cow_shared_flags fl)) t"

text \<open>
  The pages \<open>Vc\<close> have been given to the child \<open>c\<close>, and in the parent the pages \<open>Vp\<close> carry the shared flags.
  The child has only grown by tables that were free when the fork began.
\<close>

definition fork_core ::
  "PhysFrame set \<Rightarrow> Machine \<Rightarrow> AddressSpace \<Rightarrow> PhysFrame \<Rightarrow> Page set \<Rightarrow> Page set \<Rightarrow> Machine \<Rightarrow> bool" where
  "fork_core S m0 P c Vp Vc m \<longleftrightarrow>
     vm_inv m (insert c S) \<and>
     (\<forall>r\<in>S. \<forall>p. path_ok 3 p \<longrightarrow> table_at m r p = table_at m0 r p) \<and>
     (\<forall>p f. path_ok 3 p \<and> \<not> user_path p \<and> table_at m c p = Some f \<longrightarrow> f \<in> tables m0 S) \<and>
     (\<forall>f\<in>tables m (insert c S). f \<in> tables m0 S \<or> frame_free m0 f) \<and>
     (\<forall>f. frame_ok f \<longrightarrow> frame_free m f = (frame_free m0 f \<and> f \<notin> tables m (insert c S))) \<and>
     (\<forall>f. f \<notin> tables m (insert c S) \<longrightarrow> memory m f = memory m0 f) \<and>
     (\<forall>sp q. p4_frame sp \<in> S \<and> Page_wf q \<longrightarrow> AddressSpace_translate sp q m =
        (if sp = P \<and> q \<in> Vp then forked (AddressSpace_translate P q m0) else AddressSpace_translate sp q m0)) \<and>
     (\<forall>q. Page_wf q \<longrightarrow> AddressSpace_translate (AddressSpace c) q m =
        (if q \<in> Vc then forked (AddressSpace_translate P q m0)
         else if user_page q then None else AddressSpace_translate P q m0))"

lemma fork_coreD:
  assumes "fork_core S m0 P c Vp Vc m"
  shows "vm_inv m (insert c S)" "r \<in> S \<Longrightarrow> path_ok 3 p \<Longrightarrow> table_at m r p = table_at m0 r p"
    "p4_frame sp \<in> S \<Longrightarrow> Page_wf q \<Longrightarrow> AddressSpace_translate sp q m =
       (if sp = P \<and> q \<in> Vp then forked (AddressSpace_translate P q m0) else AddressSpace_translate sp q m0)"
    "Page_wf q \<Longrightarrow> AddressSpace_translate (AddressSpace c) q m =
       (if q \<in> Vc then forked (AddressSpace_translate P q m0)
        else if user_page q then None else AddressSpace_translate P q m0)"
  using assms unfolding fork_core_def by blast+

lemma fork_core_same:
  assumes "memory m' = memory m" "frame_allocator m' = frame_allocator m"
  shows "fork_core S m0 P c Vp Vc m' = fork_core S m0 P c Vp Vc m"
  unfolding fork_core_def vm_same [OF assms] assms(1) by (rule refl)

lemma fork_core_map:
  assumes core: "fork_core S m0 P c Vp Vc m" and c: "c \<notin> S" and q: "user_page q" "q \<notin> Vc"
    and post: "map_user_post (insert c S) (AddressSpace c) q (f, cow_shared_flags fl) m res m'"
    and old: "AddressSpace_translate P q m0 = Some (f, fl)"
  shows "fork_core S m0 P c Vp (if res = Inr () then insert q Vc else Vc) m'"
proof -
  have tr: "AddressSpace_translate sp q' m' =
      (if res = Inr () \<and> sp = AddressSpace c \<and> q' = q then Some (f, cow_shared_flags fl) else AddressSpace_translate sp q' m)"
    if "p4_frame sp \<in> insert c S" "Page_wf q'" for sp q'
    using post that unfolding map_user_post_def by blast
  have sub: "tables m (insert c S) \<subseteq> tables m' (insert c S)"
    "\<forall>f\<in>tables m' (insert c S). f \<in> tables m (insert c S) \<or> frame_free m f"
    and inv: "vm_inv m' (insert c S)" using post unfolding map_user_post_def by blast+
  have new: "f \<in> tables m0 S \<or> frame_free m0 f" if "f \<in> tables m' (insert c S)" for f
    using sub(2) that core tables_ok [OF inv that] unfolding fork_core_def by blast
  have at: "table_at m' r p = table_at m r p" if "r \<in> insert c S" "path_ok 3 p" "r \<noteq> c \<or> \<not> user_path p" for r p
    using post that unfolding map_user_post_def by auto
  have kernel: "f \<in> tables m0 S" if "path_ok 3 p \<and> \<not> user_path p \<and> table_at m' c p = Some f" for p f
    using at [of c p] that core unfolding fork_core_def by (metis insertI1)
  have at0: "table_at m' r p = table_at m0 r p" if "r \<in> S" "path_ok 3 p" for r p
    using at [of r p] that c fork_coreD(2) [OF core that] by auto
  have "AddressSpace_translate sp q' m' =
      (if sp = P \<and> q' \<in> Vp then forked (AddressSpace_translate P q' m0) else AddressSpace_translate sp q' m0)"
    if "p4_frame sp \<in> S" "Page_wf q'" for sp q'
    using tr [of sp q'] fork_coreD(3) [OF core that] that c by auto
  moreover have "AddressSpace_translate (AddressSpace c) q' m' =
      (if q' \<in> (if res = Inr () then insert q Vc else Vc) then forked (AddressSpace_translate P q' m0)
       else if user_page q' then None else AddressSpace_translate P q' m0)" if "Page_wf q'" for q'
    using tr [of "AddressSpace c" q'] fork_coreD(4) [OF core that] that old by (auto simp: forked_def)
  moreover have "frame_free m' f = (frame_free m0 f \<and> f \<notin> tables m' (insert c S))" if "frame_ok f" for f
  proof -
    have "frame_free m' f = (frame_free m f \<and> f \<notin> tables m' (insert c S))" using post that by (simp add: map_user_post_def)
    moreover have "frame_free m f = (frame_free m0 f \<and> f \<notin> tables m (insert c S))" using core that by (simp add: fork_core_def)
    ultimately show ?thesis using sub(1) by blast
  qed
  moreover have "memory m' f = memory m0 f" if "f \<notin> tables m' (insert c S)" for f
  proof -
    have "memory m' f = memory m f" using post that by (simp add: map_user_post_def)
    moreover have "memory m f = memory m0 f" using core that sub(1) by (auto simp: fork_core_def)
    ultimately show ?thesis by simp
  qed
  ultimately show ?thesis using inv at0 kernel new unfolding fork_core_def by blast
qed

lemma fork_core_remap:
  assumes core: "fork_core S m0 P c Vp Vc m" and c: "c \<notin> S" and P: "p4_frame P \<in> S"
    and post: "remap_post (insert c S) sp q new m m'"
    and new: "sp = AddressSpace c \<and> user_page q \<and> new = None \<and> Vp' = Vp \<and> Vc' = Vc - {q} \<or>
      sp = P \<and> new = forked (AddressSpace_translate P q m0) \<and> Vp' = insert q Vp \<and> Vc' = Vc \<or>
      sp = P \<and> new = AddressSpace_translate P q m0 \<and> Vp' = Vp - {q} \<and> Vc' = Vc"
  shows "fork_core S m0 P c Vp' Vc' m'"
proof -
  have tr: "AddressSpace_translate sp' q' m' = (if sp' = sp \<and> q' = q then new else AddressSpace_translate sp' q' m)"
    if "p4_frame sp' \<in> insert c S" "Page_wf q'" for sp' q'
    using post that unfolding remap_post_def by blast
  have tabs: "tables m' (insert c S) = tables m (insert c S)" and inv: "vm_inv m' (insert c S)"
    and mem: "\<forall>f. f \<notin> tables m (insert c S) \<longrightarrow> memory m' f = memory m f" and al: "frame_allocator m' = frame_allocator m"
    using post unfolding remap_post_def by blast+
  have at: "table_at m' r p = table_at m0 r p" if "r \<in> S" "path_ok 3 p" for r p
    using post that fork_coreD(2) [OF core that] by (auto simp: remap_post_def)
  have kernel: "f \<in> tables m0 S" if "path_ok 3 p \<and> \<not> user_path p \<and> table_at m' c p = Some f" for p f
    using post that core unfolding fork_core_def remap_post_def by (metis insertI1)
  have "AddressSpace_translate sp' q' m' =
      (if sp' = P \<and> q' \<in> Vp' then forked (AddressSpace_translate P q' m0) else AddressSpace_translate sp' q' m0)"
    if "p4_frame sp' \<in> S" "Page_wf q'" for sp' q'
    using tr [of sp' q'] fork_coreD(3) [OF core that] that c new by auto
  moreover have "AddressSpace_translate (AddressSpace c) q' m' =
      (if q' \<in> Vc' then forked (AddressSpace_translate P q' m0)
       else if user_page q' then None else AddressSpace_translate P q' m0)" if "Page_wf q'" for q'
    using tr [of "AddressSpace c" q'] fork_coreD(4) [OF core that] that c P new by auto
  moreover have "frame_free m' f = (frame_free m0 f \<and> f \<notin> tables m' (insert c S))" if "frame_ok f" for f
    using core that tabs alloc_same(2) [OF al] by (simp add: fork_core_def)
  moreover have "memory m' f = memory m0 f" if "f \<notin> tables m' (insert c S)" for f
    using core that tabs mem by (simp add: fork_core_def)
  ultimately show ?thesis using inv at kernel core tabs unfolding fork_core_def by auto
qed

text \<open>The record of the mappings made, and the references they hold.\<close>

definition fork_books :: "Machine \<Rightarrow> AddressSpace \<Rightarrow> Page set \<Rightarrow> ForkMapping list \<Rightarrow> Machine \<Rightarrow> bool" where
  "fork_books m0 P V mapped m \<longleftrightarrow>
     shared_inv m \<and> (\<forall>f. refs m f = refs m0 f + length (filter (\<lambda>x. fork_frame x = f) mapped)) \<and>
     distinct (map fork_page mapped) \<and> fork_page ` set mapped = {q \<in> V. AddressSpace_translate P q m0 \<noteq> None} \<and>
     (\<forall>x\<in>set mapped. \<exists>fl. AddressSpace_translate P (fork_page x) m0 = Some (fork_frame x, fl) \<and>
        parent_flags x = (if cow_shared_flags fl \<noteq> fl then Some fl else None))"

text \<open>
  The child has no more tables than the parent, and the heap has no new answers: what a fork needs is bounded
  by what the parent has. \<open>fork_blocked\<close> names the reasons for which it can fail.
\<close>

definition fork_room :: "Machine \<Rightarrow> AddressSpace \<Rightarrow> PhysFrame \<Rightarrow> Machine \<Rightarrow> bool" where
  "fork_room m0 P c m \<longleftrightarrow>
     (\<forall>p. path_ok 3 p \<and> user_path p \<and> table_at m c p \<noteq> None \<longrightarrow> table_at m0 (p4_frame P) p \<noteq> None) \<and>
     set (heap_replies m) \<subseteq> set (heap_replies m0)"

text \<open>The pages of one space that map a frame.\<close>

definition pages_of :: "Machine \<Rightarrow> AddressSpace \<Rightarrow> PhysFrame \<Rightarrow> Page set" where
  "pages_of m sp f = {q. user_page q \<and> (\<exists>fl. AddressSpace_translate sp q m = Some (f, fl))}"

definition fork_blocked :: "Machine \<Rightarrow> AddressSpace \<Rightarrow> Machine \<Rightarrow> bool" where
  "fork_blocked m0 P m \<longleftrightarrow>
     (\<forall>f. \<not> frame_free m f) \<or> False \<in> set (heap_replies m0) \<or>
     (\<exists>q f fl. user_page q \<and> AddressSpace_translate P q m0 = Some (f, fl) \<and> \<not> PageTableFlags_contains fl PageTableFlags_USER) \<or>
     (\<exists>f. 2 ^ 64 \<le> refs m0 f + card (pages_of m0 P f))"

definition fork_inv :: "PhysFrame set \<Rightarrow> Machine \<Rightarrow> AddressSpace \<Rightarrow> PhysFrame \<Rightarrow> Page set \<Rightarrow> clone_state \<Rightarrow> bool" where
  "fork_inv S m0 P c V s \<longleftrightarrow> V \<subseteq> Collect user_page \<and> fork_core S m0 P c V V (snd s) \<and> fork_books m0 P V (fst s) (snd s)"

definition clone_inv :: "PhysFrame set \<Rightarrow> Machine \<Rightarrow> AddressSpace \<Rightarrow> PhysFrame \<Rightarrow> Page set \<Rightarrow> clone_state \<Rightarrow> bool" where
  "clone_inv S m0 P c V s \<longleftrightarrow> fork_inv S m0 P c V s \<and> fork_room m0 P c (snd s)"

lemma refs_same: "shared_user_frames m' = shared_user_frames m \<Longrightarrow> refs m' = refs m \<and> shared_inv m' = shared_inv m"
  by (simp add: refs_def shared_inv_def fun_eq_iff)

text \<open>What one step of the loops may answer: the pages \<open>W\<close> are done, or an error with some pages done.\<close>

definition clone_result ::
  "PhysFrame set \<Rightarrow> Machine \<Rightarrow> AddressSpace \<Rightarrow> PhysFrame \<Rightarrow> Page set \<Rightarrow> ((MapError + unit) \<times> clone_state) option \<Rightarrow> bool" where
  "clone_result S m0 P c W x \<longleftrightarrow>
     (\<exists>s. x = Some (Inr (), s) \<and> clone_inv S m0 P c W s) \<or> (\<exists>e s V. x = Some (Inl e, s) \<and> clone_inv S m0 P c V s \<and> fork_blocked m0 P (snd s))"

lemma clone_resultI:
  "clone_inv S m0 P c W s \<Longrightarrow> clone_result S m0 P c W (Some (Inr (), s))"
  "clone_inv S m0 P c V s \<Longrightarrow> fork_blocked m0 P (snd s) \<Longrightarrow> clone_result S m0 P c W (Some (Inl e, s))"
  by (auto simp: clone_result_def)

lemma cow_flags:
  "flags_ok fl \<Longrightarrow> flags_ok (cow_shared_flags fl)"
  "bit (PageTableFlags_bits (cow_shared_flags fl)) 0 = bit (PageTableFlags_bits fl) 0"
  "bit (PageTableFlags_bits fl) 0 \<Longrightarrow> PageTableFlags_bitor (cow_shared_flags fl) PageTableFlags_PRESENT = cow_shared_flags fl"
proof -
  show "flags_ok fl \<Longrightarrow> flags_ok (cow_shared_flags fl)" by (auto simp: cow_shared_flags_def flag_bits)
  show b: "bit (PageTableFlags_bits (cow_shared_flags fl)) 0 = bit (PageTableFlags_bits fl) 0"
    by (simp add: cow_shared_flags_def flag_bits)
  show "PageTableFlags_bitor (cow_shared_flags fl) PageTableFlags_PRESENT = cow_shared_flags fl"
    if "bit (PageTableFlags_bits fl) 0" by (rule flags_eqI) (use that b in \<open>auto simp: bit_flag_ops bit_flags\<close>)
qed

lemma fork_books_same:
  assumes "refs m' = refs m" "shared_inv m' = shared_inv m"
  shows "fork_books m0 P V mapped m' = fork_books m0 P V mapped m"
  by (simp add: fork_books_def assms)

lemma fork_books_add:
  assumes b: "fork_books m0 P V mapped m" and q: "q \<notin> V" "AddressSpace_translate P q m0 = Some (f, fl)"
    and m': "shared_inv m'" "refs m' = (refs m)(f := refs m f + 1)"
    and x: "fork_page x = q" "fork_frame x = f" "parent_flags x = (if cow_shared_flags fl \<noteq> fl then Some fl else None)"
  shows "fork_books m0 P (insert q V) (mapped @ [x]) m'"
proof -
  have "{q' \<in> insert q V. AddressSpace_translate P q' m0 \<noteq> None} = insert q {q' \<in> V. AddressSpace_translate P q' m0 \<noteq> None}"
    using q(2) by auto
  then show ?thesis using b q m' x by (auto simp: fork_books_def)
qed

text \<open>Pages the parent does not map need no work.\<close>

lemma clone_inv_skip:
  assumes inv: "clone_inv S m0 P c V s" and B: "\<forall>q\<in>B. user_page q \<and> AddressSpace_translate P q m0 = None"
  shows "clone_inv S m0 P c (V \<union> B) s"
proof -
  have f: "forked (AddressSpace_translate P q m0) = None" if "q \<in> B" for q using that B by (simp add: forked_def)
  have core: "fork_core S m0 P c V V (snd s)" using inv by (simp add: clone_inv_def fork_inv_def)
  have "fork_core S m0 P c (V \<union> B) (V \<union> B) (snd s)"
    unfolding fork_core_def using core f B fork_coreD(3,4) [OF core] by (auto simp: fork_core_def)
  moreover have "{q \<in> V \<union> B. AddressSpace_translate P q m0 \<noteq> None} = {q \<in> V. AddressSpace_translate P q m0 \<noteq> None}"
    using B by auto
  ultimately show ?thesis using inv B by (auto simp: clone_inv_def fork_inv_def fork_books_def)
qed

text \<open>Sharing one page with the child, and marking it in the parent when its flags change.\<close>

lemma clone_leaf_remap:
  assumes core: "fork_core S m0 P c V W m" and P: "p4_frame P \<in> S" and q: "user_page q"
    and t: "table_at m (p4_frame P) [p4_index q, p3_index q, p2_index q] = Some t"
    and old: "AddressSpace_translate P q m0 = Some (f, fl)" "frame_ok f" "flags_ok fl" "bit (PageTableFlags_bits fl) 0"
  shows "remap_post (insert c S) P q (forked (AddressSpace_translate P q m0)) m
    (shootdown x (PageTable_store (t, p1_index q) (PageTableEntry_new f (cow_shared_flags fl)) m))"
proof -
  let ?e = "PageTableEntry_new f (cow_shared_flags fl)"
  note fl = cow_flags [of fl] old(3,4)
  have e: "PageTableEntry_is_present ?e" "entry_frame ?e = f" "PageTableEntry_flags ?e = cow_shared_flags fl"
    using entry_new [OF old(2) fl(1)] fl by (simp_all add: bit_present)
  show ?thesis
    by (rule remap_store [OF fork_coreD(1) [OF core] _ _ _ t]) (use P q e old(1) in \<open>simp_all add: user_page_def forked_def\<close>)
qed

lemma fork_room_same:
  assumes "fork_room m0 P c m" "\<And>p. path_ok 3 p \<Longrightarrow> table_at m' c p = table_at m c p" "set (heap_replies m') \<subseteq> set (heap_replies m)"
  shows "fork_room m0 P c m'"
  using assms unfolding fork_room_def by auto

lemma clone_leaf_mark:
  assumes core: "fork_core S m0 P c V (insert q V) m" and c: "c \<notin> S" and P: "p4_frame P \<in> S"
    and q: "user_page q" "q \<notin> V"
    and t: "table_at m (p4_frame P) [p4_index q, p3_index q, p2_index q] = Some t"
    and old: "AddressSpace_translate P q m0 = Some (f, fl)" "frame_ok f" "flags_ok fl" "bit (PageTableFlags_bits fl) 0"
    and room: "fork_room m0 P c m"
    and n: "n = (if cow_shared_flags fl \<noteq> fl
       then shootdown x (PageTable_store (t, p1_index q) (PageTableEntry_new f (cow_shared_flags fl)) m) else m)"
  shows "fork_core S m0 P c (insert q V) (insert q V) n" "fork_room m0 P c n"
proof -
  note post = clone_leaf_remap [OF core P q(1) t old, of x]
  show "fork_core S m0 P c (insert q V) (insert q V) n"
  proof (cases "cow_shared_flags fl = fl")
    case True
    then have "forked (AddressSpace_translate P q m0) = AddressSpace_translate P q m0" using old by (simp add: forked_def)
    then have "fork_core S m0 P c (insert q V) (insert q V) m"
      unfolding fork_core_def using core fork_coreD(3) [OF core] by (auto simp: fork_core_def)
    then show ?thesis using True n by simp
  next
    case False
    then show ?thesis using post fork_core_remap [OF core c P, of P q] n by simp
  qed
  show "fork_room m0 P c n"
    by (rule fork_room_same [OF room]) (use post n in \<open>auto simp: remap_post_def\<close>)
qed

lemma try_reserve_spec:
  "\<exists>b Y. try_reserve m = (b, m\<lparr>heap_replies := Y\<rparr>) \<and> set Y \<subseteq> set (heap_replies m) \<and> (b \<or> False \<in> set (heap_replies m))"
proof (cases "heap_replies m")
  case Nil
  then have "try_reserve m = (True, m\<lparr>heap_replies := heap_replies m\<rparr>)" by (simp add: try_reserve_def)
  then show ?thesis by blast
qed (auto simp: try_reserve_def)

lemma clone_inv_heap:
  assumes "clone_inv S m0 P c V (mapped, m)" "set Y \<subseteq> set (heap_replies m)"
  shows "clone_inv S m0 P c V (mapped, m\<lparr>heap_replies := Y\<rparr>)"
proof -
  let ?m = "m\<lparr>heap_replies := Y\<rparr>"
  have "fork_room m0 P c ?m" by (rule fork_room_same [of _ _ _ m]) (use assms vm_same(2) [of ?m m] in \<open>simp_all add: clone_inv_def fork_inv_def\<close>)
  then show ?thesis
    using assms(1) fork_core_same [of ?m m] fork_books_same [of ?m m] refs_same [of ?m m] by (simp add: clone_inv_def fork_inv_def)
qed

text \<open>A page that is still to be shared leaves room in the reference count, and its tables are those of the parent.\<close>

lemma fork_refs_left:
  assumes books: "fork_books m0 P V mapped m" and V: "V \<subseteq> Collect user_page"
    and q: "user_page q" "q \<notin> V" "AddressSpace_translate P q m0 = Some (f, fl)"
  shows "refs m f + 1 \<le> refs m0 f + card (pages_of m0 P f)"
proof -
  let ?xs = "filter (\<lambda>x. fork_frame x = f) mapped"
  have b: "distinct (map fork_page mapped)" "fork_page ` set mapped \<subseteq> V"
      "\<forall>x\<in>set mapped. \<exists>fl. AddressSpace_translate P (fork_page x) m0 = Some (fork_frame x, fl)"
      "refs m f = refs m0 f + length ?xs"
    using books by (auto simp: fork_books_def)
  have "insert q (fork_page ` set ?xs) \<subseteq> pages_of m0 P f" using b(2,3) V q by (fastforce simp: pages_of_def)
  then have "card (insert q (fork_page ` set ?xs)) \<le> card (pages_of m0 P f)" by (rule card_mono [OF finite_pages])
  moreover have "distinct (map fork_page ?xs)" using b(1) by (rule distinct_map_filter)
  then have "card (fork_page ` set ?xs) = length ?xs" using distinct_card [of "map fork_page ?xs"] by simp
  moreover have "q \<notin> fork_page ` set ?xs" using b(2) q(2) by auto
  ultimately show ?thesis using b(4) by simp
qed

lemma map_user_oom:
  assumes "map_user_post S sp q new m (Inl e) m'" "user_page q" "AddressSpace_translate sp q m = None"
  shows "\<forall>f. \<not> frame_free m' f"
proof -
  have "case e of MapOutOfRange \<Rightarrow> USER_MAX < page_addr q | AlreadyMapped \<Rightarrow> AddressSpace_translate sp q m \<noteq> None
      | MapOutOfMemory \<Rightarrow> \<forall>f. \<not> frame_free m' f | _ \<Rightarrow> False"
    using assms(1) unfolding map_user_post_def by (elim conjE) (cases e; simp)
  then show ?thesis using assms(2,3) by (cases e) (auto simp: user_page_def)
qed

lemma fork_room_map:
  assumes room: "fork_room m0 P c m" and t: "table_at m0 (p4_frame P) [p4_index q, p3_index q, p2_index q] = Some t"
    and post: "map_user_post S (AddressSpace c) q new m res m'"
  shows "fork_room m0 P c m'"
proof -
  have pre: "table_at m0 (p4_frame P) p \<noteq> None" if p: "path_ok 3 p" "p \<in> table_paths q" for p
  proof -
    obtain b where b: "[p4_index q, p3_index q, p2_index q] @ [p1_index q] = p @ b" using p(2) by (auto simp: table_paths_def page_path_def)
    have "b \<noteq> []" using arg_cong [OF b, of length] p(1) by (auto simp: path_ok_def)
    then have "[p4_index q, p3_index q, p2_index q] = p @ butlast b" using arg_cong [OF b, of butlast] by (simp add: butlast_append)
    then show ?thesis using t by (auto simp: table_at_append split: option.splits)
  qed
  have "table_at m c p \<noteq> None \<or> p \<in> table_paths q" if "path_ok 3 p" "table_at m' c p \<noteq> None" for p
    using post that unfolding map_user_post_def by auto
  then have "table_at m0 (p4_frame P) p \<noteq> None" if "path_ok 3 p" "user_path p" "table_at m' c p \<noteq> None" for p
    using room pre [of p] that unfolding fork_room_def by blast
  moreover have "heap_replies m' = heap_replies m" using post by (simp add: map_user_post_def)
  ultimately show ?thesis using room by (simp add: fork_room_def)
qed

lemma clone_leaf_share:
  assumes inv: "clone_inv S m0 P c V (mapped, m)" and c: "c \<notin> S" and P: "p4_frame P \<in> S"
    and q: "user_page q" "q \<notin> V"
    and t: "table_at m (p4_frame P) [p4_index q, p3_index q, p2_index q] = Some t"
    and old: "AddressSpace_translate P q m0 = Some (f, fl)" "frame_ok f" "flags_ok fl" "bit (PageTableFlags_bits fl) 0"
  shows "clone_result S m0 P c (insert q V)
    (case retain_shared_user_frame f m of
       (Inl e, m) \<Rightarrow> Some (Inl e, mapped, m)
     | (Inr u, m) \<Rightarrow>
         (case AddressSpace_map_user (AddressSpace c) q f (cow_shared_flags fl) m of
            None \<Rightarrow> None
          | Some (Inl error, m) \<Rightarrow> Some (Inl error, mapped, snd (release_user_frame f m))
          | Some (Inr u, m) \<Rightarrow>
              Some (Inr (), mapped @ [\<lparr>fork_page = q, fork_frame = f, parent_flags = (if cow_shared_flags fl \<noteq> fl then Some fl else None)\<rparr>],
                if cow_shared_flags fl \<noteq> fl
                then shootdown x (PageTable_store (t, p1_index q) (PageTableEntry_new f (cow_shared_flags fl)) m) else m)))"
proof -
  have V: "V \<subseteq> Collect user_page" and core: "fork_core S m0 P c V V m" and books: "fork_books m0 P V mapped m"
    and room: "fork_room m0 P c m"
    using inv by (simp_all add: clone_inv_def fork_inv_def)
  have t0: "table_at m0 (p4_frame P) [p4_index q, p3_index q, p2_index q] = Some t"
    using t fork_coreD(2) [OF core P] by (simp add: path_ok_def del: table_at.simps)
  from books have sh: "shared_inv m" by (simp add: fork_books_def)
  show ?thesis
  proof (rule retain_frame_spec [OF sh, of f])
    fix e Y assume r: "retain_shared_user_frame f m = (Inl e, m\<lparr>heap_replies := Y\<rparr>)" "set Y \<subseteq> set (heap_replies m)"
      "False \<in> set (heap_replies m) \<or> 2 ^ 64 \<le> refs m f + 1"
    have "set (heap_replies m) \<subseteq> set (heap_replies m0)" using room by (simp add: fork_room_def)
    then have "fork_blocked m0 P (m\<lparr>heap_replies := Y\<rparr>)"
      using r(3) fork_refs_left [OF books V q old(1)] unfolding fork_blocked_def by (meson le_trans subsetD)
    then show ?thesis using r(1) clone_inv_heap [OF inv r(2)] by (simp add: clone_resultI)
  next
    fix X Y let ?m = "m\<lparr>shared_user_frames := X, heap_replies := Y\<rparr>"
    assume r: "retain_shared_user_frame f m = (Inr (), ?m)" "shared_inv ?m" "refs ?m = (refs m)(f := refs m f + 1)"
      "set Y \<subseteq> set (heap_replies m)"
    have room': "fork_room m0 P c ?m" by (rule fork_room_same [OF room]) (use r(4) vm_same(2) [of ?m m] in simp_all)
    have core': "fork_core S m0 P c V V ?m" using core fork_core_same [of ?m m] by simp
    have pw: "Page_wf q" using q(1) by (simp add: user_page_def)
    obtain res m3 where m3: "AddressSpace_map_user (AddressSpace c) q f (cow_shared_flags fl) ?m = Some (res, m3)"
        "map_user_post (insert c S) (AddressSpace c) q (f, PageTableFlags_bitor (cow_shared_flags fl) PageTableFlags_PRESENT) ?m res m3"
      using map_user_spec [OF fork_coreD(1) [OF core'], of "AddressSpace c" q f "cow_shared_flags fl"] pw old(2) cow_flags(1) [OF old(3)]
      by auto
    then have post: "map_user_post (insert c S) (AddressSpace c) q (f, cow_shared_flags fl) ?m res m3"
      using cow_flags(3) [OF old(4)] by simp
    have core3: "fork_core S m0 P c V (if res = Inr () then insert q V else V) m3"
      by (rule fork_core_map [OF core' c q post old(1)])
    have room3: "fork_room m0 P c m3" by (rule fork_room_map [OF room' t0 post])
    have sh3: "refs m3 = (refs m)(f := refs m f + 1)" "shared_inv m3"
      using refs_same [of m3 ?m] post r(2,3) by (simp_all add: map_user_post_def)
    show ?thesis
    proof (cases res)
      case (Inl e)
      obtain X' where X': "release_user_frame f m3 = (refs m3 f = 1, m3\<lparr>shared_user_frames := X'\<rparr>)"
          "shared_inv (m3\<lparr>shared_user_frames := X'\<rparr>)"
          "refs (m3\<lparr>shared_user_frames := X'\<rparr>) = (refs m3)(f := max 1 (refs m3 f - 1))"
        by (rule release_frame_spec [OF sh3(2), of f])
      have "refs (m3\<lparr>shared_user_frames := X'\<rparr>) = refs m" using X'(3) sh3(1) refs_pos [OF sh, of f] by (simp add: max_def)
      moreover have "fork_room m0 P c (m3\<lparr>shared_user_frames := X'\<rparr>)"
        by (rule fork_room_same [OF room3]) (use vm_same(2) [of "m3\<lparr>shared_user_frames := X'\<rparr>" m3] in simp_all)
      ultimately have "clone_inv S m0 P c V (mapped, m3\<lparr>shared_user_frames := X'\<rparr>)"
        using V books core3 Inl fork_books_same [of "m3\<lparr>shared_user_frames := X'\<rparr>" m] X'(2) sh
          fork_core_same [of "m3\<lparr>shared_user_frames := X'\<rparr>" m3] by (simp add: clone_inv_def fork_inv_def)
      moreover have "AddressSpace_translate (AddressSpace c) q ?m = None"
        using fork_coreD(4) [OF core' pw] q by simp
      then have "\<forall>g. \<not> frame_free m3 g"
        using map_user_oom post Inl q(1) by blast
      then have "fork_blocked m0 P (m3\<lparr>shared_user_frames := X'\<rparr>)"
        using vm_same(7) [of "m3\<lparr>shared_user_frames := X'\<rparr>" m3] by (simp add: fork_blocked_def)
      ultimately show ?thesis using r(1) m3(1) X'(1) Inl by (simp add: clone_resultI)
    next
      case (Inr u)
      let ?x = "\<lparr>fork_page = q, fork_frame = f, parent_flags = (if cow_shared_flags fl \<noteq> fl then Some fl else None)\<rparr>"
      let ?m4 = "if cow_shared_flags fl \<noteq> fl
        then shootdown x (PageTable_store (t, p1_index q) (PageTableEntry_new f (cow_shared_flags fl)) m3) else m3"
      have t3: "table_at m3 (p4_frame P) [p4_index q, p3_index q, p2_index q] = Some t"
        using t fork_coreD(2) [OF core P] fork_coreD(2) [OF core3 P] by (simp add: path_ok_def del: table_at.simps)
      have "fork_core S m0 P c (insert q V) (insert q V) ?m4" "fork_room m0 P c ?m4"
        by (rule clone_leaf_mark [OF _ c P q t3 old room3 refl]; use core3 Inr in simp)+
      moreover have "fork_books m0 P (insert q V) (mapped @ [?x]) ?m4"
        by (rule fork_books_add [OF books q(2) old(1)]) (use sh3 in \<open>simp_all add: refs_def shared_inv_def fun_eq_iff\<close>)
      ultimately show ?thesis using r(1) m3(1) Inr V q(1) by (simp add: clone_result_def clone_inv_def fork_inv_def)
    qed
  qed
qed

end
