(* ===== verification/Destroy_Laws.thy ===== *)
theory Destroy_Laws
  imports Fork_Laws
begin

text \<open>
  Releasing a hierarchy: \<open>destroy\<close> gives every table of the space back to the frame allocator, and nothing else.
\<close>

definition frame_releasable :: "Machine \<Rightarrow> PhysFrame \<Rightarrow> bool" where
  "frame_releasable m f \<longleftrightarrow> frame_ok f \<and> (\<exists>a. frame_allocator m = Some a \<and> unat (PhysFrame_number f) \<in> releasable_set a)"

lemma frame_taken_releasable: "frame_taken m f \<longleftrightarrow> frame_releasable m f \<and> \<not> frame_free m f"
  by (auto simp: frame_taken_def frame_releasable_def frame_free_def)

text \<open>A machine in which exactly the frames \<open>A\<close> have become free.\<close>

definition frees :: "PhysFrame set \<Rightarrow> Machine \<Rightarrow> Machine \<Rightarrow> bool" where
  "frees A m m' \<longleftrightarrow> (\<exists>X. m' = m\<lparr>frame_allocator := X\<rparr>) \<and> (alloc_inv m \<longrightarrow> alloc_inv m') \<and>
     (\<forall>g. frame_ok g \<longrightarrow> frame_free m' g = (frame_free m g \<or> g \<in> A)) \<and> (\<forall>g. frame_releasable m' g = frame_releasable m g)"

lemma frees_refl: "frees {} m m"
proof -
  have "m = m\<lparr>frame_allocator := frame_allocator m\<rparr>" by simp
  then have "\<exists>X. m = m\<lparr>frame_allocator := X\<rparr>" by (rule exI)
  then show ?thesis unfolding frees_def by blast
qed

lemma frees_trans: "frees A m m' \<Longrightarrow> frees B m' m'' \<Longrightarrow> frees (A \<union> B) m m''"
  unfolding frees_def by auto

lemma free_frame_spec:
  assumes inv: "alloc_inv m" and f: "frame_releasable m f"
  shows "\<exists>m'. free_frame f m = Some m' \<and> frees {f} m m'"
proof -
  obtain a where a: "frame_allocator m = Some a" "unat (PhysFrame_number f) \<in> releasable_set a" and ok: "frame_ok f"
    using f by (auto simp: frame_releasable_def)
  then have ai: "allocator_inv a" "unat (total_frames a) \<le> 2 ^ 40" using inv by (simp_all add: alloc_inv_def)
  let ?s = "unat (PhysFrame_number f)"
  have s: "?s + unat (1 :: u64) \<le> unat (total_frames a)"
    using a(2) ai(1) by (simp add: releasable_set_def allocator_inv_def)
  have rel: "BitmapFrameAllocator_is_releasable a (of_nat ?s)" using a(2) by (simp add: releasable_set_def)
  have num: "unat (PhysFrame_number g) = ?s \<longleftrightarrow> g = f" if "frame_ok g" for g
    using frame_number_inject [OF that ok] by (metis word_unat_eq_iff)
  note spec = deallocate_range_spec [OF ai(1) _ refl s]
  show ?thesis
  proof (cases "?s \<in> free_set a")
    case True
    then have "find_map (release_refusal a) [?s..<?s + unat (1 :: u64)] = Some DoubleFree"
      using rel by (simp add: release_refusal_def)
    then have "BitmapFrameAllocator_deallocate a f = Some (Inl DoubleFree, a)" using spec by (simp add: BitmapFrameAllocator_deallocate_def)
    then have "free_frame f m = Some (m\<lparr>frame_allocator := Some a\<rparr>)" using a(1) by (simp add: free_frame_def)
    moreover have "m\<lparr>frame_allocator := Some a\<rparr> = m" using a(1) by simp
    moreover have "frame_free m f" using True a(1) by (simp add: frame_free_def)
    then have "frees {f} m m" using frees_refl [of m] by (auto simp: frees_def)
    ultimately show ?thesis by simp
  next
    case False
    then have "find_map (release_refusal a) [?s..<?s + unat (1 :: u64)] = None"
      using rel by (simp add: release_refusal_def)
    then obtain b where b: "BitmapFrameAllocator_deallocate a f = Some (Inr (), b)" "allocator_inv b" "same_layout a b"
        "free_set b = free_set a \<union> {?s..<?s + unat (1 :: u64)}"
      using spec by (auto simp: BitmapFrameAllocator_deallocate_def)
    have "releasable_set b = releasable_set a"
      using b(2,3) ai(1) by (simp add: releasable_set_def allocator_inv_def same_layout_def BitmapFrameAllocator_is_releasable_def)
    moreover have "free_set b = insert ?s (free_set a)" using b(4) by auto
    moreover have "unat (total_frames b) \<le> 2 ^ 40" using b(3) ai(2) by (simp add: same_layout_def)
    ultimately have "frees {f} m (m\<lparr>frame_allocator := Some b\<rparr>)"
      using a(1) b(2) num by (auto simp: frees_def alloc_inv_def frame_free_def frame_releasable_def)
    then show ?thesis using a(1) b(1) by (simp add: free_frame_def)
  qed
qed

text \<open>The tables below a table, down to a depth.\<close>

fun sub_tables :: "Machine \<Rightarrow> nat \<Rightarrow> PhysFrame \<Rightarrow> PhysFrame set" where
  "sub_tables m 0 t = {}"
| "sub_tables m (Suc k) t = (\<Union>i\<in>{i. index i < 512 \<and> links (PageTable_entry m t i)}.
     insert (entry_frame (PageTable_entry m t i)) (sub_tables m k (entry_frame (PageTable_entry m t i))))"

lemma sub_tables_eq: "sub_tables m k t = {f. \<exists>p. p \<noteq> [] \<and> path_ok k p \<and> table_at m t p = Some f}"
proof (induction k arbitrary: t)
  case 0
  then show ?case by (auto simp: path_ok_def)
next
  case (Suc k)
  show ?case
  proof (intro set_eqI iffI)
    fix f assume "f \<in> sub_tables m (Suc k) t"
    then obtain i where i: "index i < 512" "links (PageTable_entry m t i)"
        "f = entry_frame (PageTable_entry m t i) \<or> f \<in> sub_tables m k (entry_frame (PageTable_entry m t i))" by auto
    then obtain p where "path_ok k p" "table_at m (entry_frame (PageTable_entry m t i)) p = Some f"
      unfolding Suc by (auto simp: path_ok_def intro: that [of "[]"])
    then show "f \<in> {f. \<exists>p. p \<noteq> [] \<and> path_ok (Suc k) p \<and> table_at m t p = Some f}"
      using i by (intro CollectI exI [of _ "i # p"]) (simp add: path_ok_def)
  next
    fix f assume "f \<in> {f. \<exists>p. p \<noteq> [] \<and> path_ok (Suc k) p \<and> table_at m t p = Some f}"
    then obtain i p where p: "path_ok (Suc k) (i # p)" "table_at m t (i # p) = Some f" by (auto simp: neq_Nil_conv)
    then have "index i < 512" "links (PageTable_entry m t i)" "path_ok k p" "table_at m (entry_frame (PageTable_entry m t i)) p = Some f"
      by (auto simp: path_ok_def split: if_split_asm)
    moreover have "f = entry_frame (PageTable_entry m t i) \<or> f \<in> sub_tables m k (entry_frame (PageTable_entry m t i))"
      unfolding Suc using calculation by (cases "p = []") auto
    ultimately show "f \<in> sub_tables m (Suc k) t" by auto
  qed
qed

lemma sub_tables_root: "insert r (sub_tables m 3 r) = tables m {r}"
proof (intro set_eqI iffI)
  fix f assume "f \<in> insert r (sub_tables m 3 r)"
  then obtain p where "path_ok 3 p" "table_at m r p = Some f"
    unfolding sub_tables_eq by (auto simp: path_ok_def intro: that [of "[]"])
  then show "f \<in> tables m {r}" by (auto simp: tables_def)
next
  fix f assume "f \<in> tables m {r}"
  then obtain p where "path_ok 3 p" "table_at m r p = Some f" by (auto simp: tables_def)
  then show "f \<in> insert r (sub_tables m 3 r)" unfolding sub_tables_eq by (cases "p = []") auto
qed

lemma frees_entry: "frees A m m' \<Longrightarrow> PageTable_entry m' = PageTable_entry m \<and> sub_tables m' = sub_tables m"
proof -
  assume "frees A m m'"
  then have e: "PageTable_entry m' = PageTable_entry m" by (auto simp: frees_def PageTable_entry_def fun_eq_iff)
  have "sub_tables m' k t = sub_tables m k t" for k t by (induction k arbitrary: t) (simp_all add: e)
  then show ?thesis using e by (simp add: fun_eq_iff)
qed

text \<open>One loop over the entries of a table frees the tables its entries lead to, with what is below them.\<close>

definition entry_tables :: "Machine \<Rightarrow> nat \<Rightarrow> PhysFrame \<Rightarrow> PageTableIndex \<Rightarrow> PhysFrame set" where
  "entry_tables m k t i =
     (let e = PageTable_entry m t i in if links e then insert (entry_frame e) (sub_tables m k (entry_frame e)) else {})"

lemma sub_tables_entries: "sub_tables m (Suc k) t = (\<Union>i\<in>{i. index i < 512}. entry_tables m k t i)"
  by (auto simp: entry_tables_def Let_def)

definition frees_below :: "nat \<Rightarrow> Machine \<Rightarrow> (PhysFrame \<Rightarrow> Machine \<Rightarrow> Machine option) \<Rightarrow> bool" where
  "frees_below k m inner \<longleftrightarrow> (\<forall>f m'. alloc_inv m' \<and> PageTable_entry m' = PageTable_entry m \<and>
     (\<forall>g\<in>sub_tables m k f. frame_releasable m' g) \<longrightarrow> (\<exists>m''. inner f m' = Some m'' \<and> frees (sub_tables m k f) m' m''))"

lemma destroy_entry_spec:
  assumes inv: "alloc_inv m" and rel: "\<forall>f\<in>entry_tables m k t i. frame_releasable m f" and inner: "frees_below k m inner"
  shows "\<exists>m'. destroy_entry inner t m i = Some m' \<and> frees (entry_tables m k t i) m m'"
proof (cases "links (PageTable_entry m t i)")
  case False
  then show ?thesis by (auto simp: destroy_entry_def Let_def links_def entry_tables_def frees_refl)
next
  case True
  let ?e = "PageTable_entry m t i"
  have A: "entry_tables m k t i = insert (entry_frame ?e) (sub_tables m k (entry_frame ?e))" using True by (simp add: entry_tables_def Let_def)
  then obtain m1 where m1: "inner (entry_frame ?e) m = Some m1" "frees (sub_tables m k (entry_frame ?e)) m m1"
    using inner inv rel unfolding frees_below_def by blast
  have "alloc_inv m1" "frame_releasable m1 (entry_frame ?e)" using m1(2) inv rel A by (auto simp: frees_def)
  then obtain m2 where m2: "free_frame (entry_frame ?e) m1 = Some m2" "frees {entry_frame ?e} m1 m2" using free_frame_spec by blast
  have "frees (entry_tables m k t i) m m2" using frees_trans [OF m1(2) m2(2)] A by simp
  then show ?thesis
    using True m1(1) m2(1) by (auto simp: links_def PageTableEntry_frame_present destroy_entry_def Let_def)
qed

lemma frees_same:
  assumes "frees A m m'"
  shows "entry_tables m' k t i = entry_tables m k t i" "frees_below k m' inner = frees_below k m inner"
    "frame_releasable m' f = frame_releasable m f" "alloc_inv m \<Longrightarrow> alloc_inv m'"
  using assms frees_entry [OF assms] by (simp_all add: frees_def entry_tables_def frees_below_def Let_def)

lemma destroy_loop:
  assumes "alloc_inv m" "\<forall>i\<in>set js. \<forall>f\<in>entry_tables m k t i. frame_releasable m f" "frees_below k m inner"
  shows "\<exists>m'. for_each (destroy_entry inner t) m js = Some m' \<and> frees (\<Union>i\<in>set js. entry_tables m k t i) m m'"
  using assms
proof (induction js arbitrary: m)
  case Nil
  then show ?case by (simp add: frees_refl)
next
  case (Cons i js)
  obtain m1 where m1: "destroy_entry inner t m i = Some m1" "frees (entry_tables m k t i) m m1"
    using destroy_entry_spec [of m k t i inner] Cons.prems by auto
  note same = frees_same [OF m1(2)]
  obtain m2 where m2: "for_each (destroy_entry inner t) m1 js = Some m2" "frees (\<Union>i\<in>set js. entry_tables m k t i) m1 m2"
    using Cons.IH [of m1] Cons.prems same by auto
  show ?case using m1(1) m2(1) frees_trans [OF m1(2) m2(2)] by simp
qed

lemma destroy_children_spec: "frees_below k m inner \<Longrightarrow> frees_below (Suc k) m (destroy_children inner)"
  unfolding frees_below_def [of "Suc k"]
proof (intro allI impI)
  fix f m' assume inner: "frees_below k m inner"
    and m': "alloc_inv m' \<and> PageTable_entry m' = PageTable_entry m \<and> (\<forall>g\<in>sub_tables m (Suc k) f. frame_releasable m' g)"
  have "sub_tables m' j t = sub_tables m j t" for j t by (induction j arbitrary: t) (simp_all add: m')
  then have e: "entry_tables m' k f i = entry_tables m k f i" "frees_below k m' inner" for i
    using inner m' by (simp_all add: entry_tables_def frees_below_def Let_def)
  have "\<exists>m''. for_each (destroy_entry inner f) m' (table_indices 0 512) = Some m'' \<and>
      frees (\<Union>i\<in>set (table_indices 0 512). entry_tables m' k f i) m' m''"
    by (rule destroy_loop) (use m' e in \<open>auto simp: sub_tables_entries set_table_indices simp del: sub_tables.simps\<close>)
  then show "\<exists>m''. destroy_children inner f m' = Some m'' \<and> frees (sub_tables m (Suc k) f) m' m''"
    by (simp add: destroy_children_def ENTRIES_PER_TABLE_def set_table_indices e sub_tables_entries del: sub_tables.simps)
qed

lemma destroy_spec:
  assumes inv: "alloc_inv m" and rel: "\<forall>f\<in>tables m {p4_frame sp}. frame_releasable m f"
  shows "\<exists>m'. AddressSpace_destroy sp m = Some m' \<and> frees (tables m {p4_frame sp}) m m'"
proof -
  let ?r = "p4_frame sp"
  have "frees_below 0 m (\<lambda>pt m. Some m)" by (simp add: frees_below_def frees_refl)
  then have b: "frees_below 3 m (destroy_children (destroy_children (destroy_children (\<lambda>pt m. Some m))))"
    using destroy_children_spec by (metis numeral_3_eq_3)
  have rel': "\<forall>f\<in>insert ?r (sub_tables m 3 ?r). frame_releasable m f" using rel unfolding sub_tables_root .
  then obtain m1 where m1: "destroy_children (destroy_children (destroy_children (\<lambda>pt m. Some m))) ?r m = Some m1"
      "frees (sub_tables m 3 ?r) m m1"
    using b inv unfolding frees_below_def by blast
  obtain m2 where m2: "free_frame ?r m1 = Some m2" "frees {?r} m1 m2"
    using free_frame_spec [of m1 ?r] frees_same(3,4) [OF m1(2)] inv rel' by auto
  show ?thesis using m1(1) m2 frees_trans [OF m1(2) m2(2)] sub_tables_root [of ?r m] by (simp add: AddressSpace_destroy_def)
qed

subsection \<open>Dropping a space\<close>

lemma vm_inv_subset:
  assumes "vm_inv m S'" "S \<subseteq> S'"
  shows "vm_inv m S"
  using assms unfolding vm_inv_def tree_inv_def small_inv_def frames_inv_def by (meson subsetD)

definition user_tables :: "Machine \<Rightarrow> PhysFrame \<Rightarrow> PhysFrame set" where
  "user_tables m r = {f. \<exists>p. path_ok 3 p \<and> user_path p \<and> table_at m r p = Some f}"

lemma user_tables_disjoint:
  assumes "vm_inv m S" "r \<in> S" "f \<in> user_tables m r"
  shows "f \<notin> tables m (S - {r})" "frame_taken m f"
proof -
  obtain p where p: "path_ok 3 p" "user_path p" "table_at m r p = Some f" using assms(3) by (auto simp: user_tables_def)
  show "frame_taken m f" using p assms(1,2) unfolding vm_inv_def frames_inv_def by blast
  show "f \<notin> tables m (S - {r})"
  proof
    assume "f \<in> tables m (S - {r})"
    then obtain r' q where "r' \<in> S - {r}" "path_ok 3 q" "table_at m r' q = Some f" by (auto simp: tables_def)
    then show False using tree_invD(1) [of m S r r' p q f] assms(1,2) p by (auto simp: vm_inv_def)
  qed
qed

text \<open>Without its kernel half, a space has the tables of its user half only.\<close>

lemma cleared_table_at:
  assumes inv: "vm_inv m S" and r: "p4_frame sp \<in> S" and p: "path_ok 3 p"
  shows "table_at (clear_kernel_half sp m) (p4_frame sp) p = (if user_path p then table_at m (p4_frame sp) p else None)"
proof (cases p)
  case Nil
  then show ?thesis by (simp add: user_path_def)
next
  case (Cons i q)
  let ?k = "clear_kernel_half sp m" and ?r = "p4_frame sp"
  note k = clear_kernel_half_spec(1) [of sp m]
  have i: "index i < 512" using p Cons by (simp add: path_ok_def)
  have only: "a = []" if "path_ok 3 a" "table_at m ?r a = Some ?r" for a
    using tree_invD(2) [of m S ?r ?r "[]" a ?r] inv r that by (auto simp: vm_inv_def path_ok_def user_path_def)
  show ?thesis
  proof (cases "index i < 256")
    case True
    have "\<forall>(f, j)\<in>set (walked m ?r p). PageTable_entry ?k f j = PageTable_entry m f j"
    proof clarify
      fix f j assume "(f, j) \<in> set (walked m ?r p)"
      then obtain a b where ab: "p = a @ j # b" "table_at m ?r a = Some f" unfolding in_walked by blast
      then have "a = [] \<or> f \<noteq> ?r" using only [of a] p by (auto simp: path_ok_def)
      then show "PageTable_entry ?k f j = PageTable_entry m f j" using ab(1) Cons True by (auto simp: k)
    qed
    then show ?thesis using table_at_cong(1) [of m ?r p ?k] True Cons by (simp add: user_path_def del: table_at.simps)
  next
    case False
    then show ?thesis using i Cons by (simp add: k user_path_def)
  qed
qed

definition space_dropped :: "PhysFrame set \<Rightarrow> PhysFrame \<Rightarrow> Machine \<Rightarrow> Machine \<Rightarrow> bool" where
  "space_dropped S r m m' \<longleftrightarrow>
     vm_inv m' (S - {r}) \<and> tables m' (S - {r}) = tables m (S - {r}) \<and>
     (\<forall>sp q. p4_frame sp \<in> S - {r} \<longrightarrow> AddressSpace_translate sp q m' = AddressSpace_translate sp q m) \<and>
     (\<forall>g. frame_ok g \<longrightarrow> frame_free m' g = (frame_free m g \<or> g \<in> user_tables m r)) \<and>
     (\<forall>f. f \<noteq> r \<longrightarrow> memory m' f = memory m f) \<and> shared_user_frames m' = shared_user_frames m"

lemma drop_space:
  assumes inv: "vm_inv m S" and r: "p4_frame sp \<in> S"
  shows "\<exists>m'. AddressSpace_destroy sp (clear_kernel_half sp m) = Some m' \<and> space_dropped S (p4_frame sp) m m'"
proof -
  let ?k = "clear_kernel_half sp m" and ?r = "p4_frame sp" and ?T = "S - {p4_frame sp}"
  note k = clear_kernel_half_spec [where space = sp and m = m]
  note al = alloc_same [OF k(2)]
  have invT: "vm_inv m ?T" by (rule vm_inv_subset [OF inv]) auto
  have "?r \<in> user_tables m ?r" unfolding user_tables_def by (intro CollectI exI [of _ "[]"]) (simp add: path_ok_def user_path_def)
  then have nr: "?r \<notin> tables m ?T" by (rule user_tables_disjoint [OF inv r])
  have same: "\<forall>f\<in>tables m ?T. \<forall>i. index i < 512 \<longrightarrow> PageTable_entry ?k f i = PageTable_entry m f i" using nr by (auto simp: k(1))
  have out: "vm_inv ?k ?T" "tables ?k ?T = tables m ?T"
      "\<And>sp q. p4_frame sp \<in> ?T \<Longrightarrow> AddressSpace_translate sp q ?k = AddressSpace_translate sp q m"
    by (rule outside_tables [OF invT same]; use al invT in \<open>simp add: vm_inv_def; fail\<close>)+
  have user: "tables ?k {?r} = user_tables m ?r"
    using cleared_table_at [OF inv r] by (auto simp: tables_def user_tables_def split: if_split_asm)
  have ut: "f \<notin> tables m ?T" "frame_taken m f" if "f \<in> tables ?k {?r}" for f
    using user_tables_disjoint [OF inv r] that unfolding user by simp_all
  obtain m' where m': "AddressSpace_destroy sp ?k = Some m'" "frees (user_tables m ?r) ?k m'"
    using destroy_spec [of ?k sp] ut(2) al inv unfolding user
    by (auto simp: vm_inv_def frame_taken_releasable frame_releasable_def k(2))
  have e': "PageTable_entry m' = PageTable_entry ?k" using frees_entry [OF m'(2)] by blast
  have free': "frame_free m' g = (frame_free m g \<or> g \<in> user_tables m ?r)" if "frame_ok g" for g
    using m'(2) that al by (simp add: frees_def)
  have rel: "frame_releasable m' g = frame_releasable ?k g" for g using m'(2) by (simp add: frees_def)
  have keep: "\<not> frame_free ?k f \<Longrightarrow> \<not> frame_free m' f" "frame_taken ?k f \<Longrightarrow> frame_taken m' f" if "f \<in> tables ?k ?T" for f
  proof -
    have "frame_ok f" "f \<notin> user_tables m ?r" using tables_ok [OF out(1) that] ut(1) that out(2) unfolding user by auto
    then show "\<not> frame_free ?k f \<Longrightarrow> \<not> frame_free m' f" "frame_taken ?k f \<Longrightarrow> frame_taken m' f"
      using free' [of f] al(2) [of f] rel [of f] by (auto simp: frame_taken_releasable)
  qed
  have ai: "alloc_inv m'" using m'(2) al inv by (simp add: frees_def vm_inv_def)
  have fin: "vm_inv m' ?T" "tables m' ?T = tables ?k ?T"
      "\<And>sp q. p4_frame sp \<in> ?T \<Longrightarrow> AddressSpace_translate sp q m' = AddressSpace_translate sp q ?k"
    by (rule outside_tables [OF out(1) _ ai keep]; simp add: e')+
  have "shared_user_frames m' = shared_user_frames m" "\<forall>f. f \<noteq> ?r \<longrightarrow> memory m' f = memory m f"
    using m'(2) k(3,6) by (auto simp: frees_def)
  then show ?thesis using m'(1) fin out free' by (simp add: space_dropped_def)
qed

end
