(* ===== verification/Fork_Transaction.thy ===== *)
theory Fork_Transaction
  imports Destroy_Laws
begin

text \<open>
  The loops of \<open>clone_user_mappings\<close>, the rollback and the release of the child, and with them what \<open>fork\<close>
  promises as a whole.
\<close>

subsection \<open>The loops of a fork\<close>

lemma clone_leaf_step:
  assumes inv: "clone_inv S m0 P c V s" and c: "c \<notin> S" and P: "p4_frame P \<in> S"
    and i: "index i4 < 256" "index i3 < 512" "index i2 < 512" "index i1 < 512"
    and t: "table_at m0 (p4_frame P) [i4, i3, i2] = Some t"
    and q: "page_from_indices i4 i3 i2 i1 \<notin> V"
  shows "clone_result S m0 P c (insert (page_from_indices i4 i3 i2 i1) V) (clone_leaf P (AddressSpace c) i4 i3 i2 t i1 s)"
proof -
  obtain mapped m where s: "s = (mapped, m)" by (cases s)
  let ?q = "page_from_indices i4 i3 i2 i1" and ?e = "PageTable_entry m t i1"
  note pq = page_from_indices [OF i]
  have idx: "p4_index ?q = i4" "p3_index ?q = i3" "p2_index ?q = i2" "p1_index ?q = i1"
    using pq(2) by (simp_all add: page_path_def)
  have core: "fork_core S m0 P c V V m" using inv s by (simp add: clone_inv_def fork_inv_def)
  have tm: "table_at m (p4_frame P) [p4_index ?q, p3_index ?q, p2_index ?q] = Some t"
    using t fork_coreD(2) [OF core P] i unfolding idx by (simp add: path_ok_def del: table_at.simps)
  have same: "AddressSpace_translate P ?q m = AddressSpace_translate P ?q m0"
    using fork_coreD(3) [OF core P] pq(1) q by (simp add: user_page_def)
  note tr = translate_leaf(1) [OF tm, unfolded idx same Let_def]
  consider "\<not> PageTableEntry_is_present ?e" | "PageTableEntry_is_present ?e" "\<not> PageTableFlags_contains (PageTableEntry_flags ?e) PageTableFlags_USER"
    | "PageTableEntry_is_present ?e" "PageTableFlags_contains (PageTableEntry_flags ?e) PageTableFlags_USER" by blast
  then show ?thesis
  proof cases
    case 1
    then show ?thesis
      using clone_inv_skip [OF inv, of "{?q}"] pq(1) tr s by (simp add: clone_leaf_def Let_def clone_resultI)
  next
    case 2
    then have "AddressSpace_translate P ?q m0 = Some (entry_frame ?e, PageTableEntry_flags ?e)" using tr by simp
    then have "fork_blocked m0 P m" using 2 pq(1) unfolding fork_blocked_def by blast
    then show ?thesis using 2 inv s by (simp add: clone_leaf_def Let_def clone_resultI)
  next
    case 3
    have old: "AddressSpace_translate P ?q m0 = Some (entry_frame ?e, PageTableEntry_flags ?e)" using tr 3 by simp
    obtain b Y where r: "try_reserve m = (b, m\<lparr>heap_replies := Y\<rparr>)" "set Y \<subseteq> set (heap_replies m)" "b \<or> False \<in> set (heap_replies m)"
      using try_reserve_spec by blast
    let ?m = "m\<lparr>heap_replies := Y\<rparr>"
    have inv': "clone_inv S m0 P c V (mapped, ?m)" using clone_inv_heap [OF _ r(2)] inv s by simp
    show ?thesis
    proof (cases b)
      case False
      then have "fork_blocked m0 P ?m" using r(3) inv s by (auto simp: fork_blocked_def clone_inv_def fork_inv_def fork_room_def)
      then show ?thesis using 3 r(1) s inv' False by (simp add: clone_leaf_def Let_def clone_resultI)
    next
      case True
      have t': "table_at ?m (p4_frame P) [p4_index ?q, p3_index ?q, p2_index ?q] = Some t"
        using tm vm_same(2) [of ?m m] by simp
      have present: "bit (PageTableFlags_bits (PageTableEntry_flags ?e)) 0" using 3 by (simp add: bit_entry_flags bit_present)
      have some: "((if b then Some x else None) \<noteq> None) = b" for b and x :: PageTableFlags by simp
      show ?thesis
        using clone_leaf_share [OF inv' c P pq(1) q t' old entry_frame_ok entry_flags_ok present,
            of "ShootdownPage (AddressSpace_cr3 P) (page_addr ?q)"] 3 r(1) s True
        unfolding clone_leaf_def Let_def idx some by (simp add: PageTableEntry_frame_present)
    qed
  qed
qed

text \<open>The user pages whose walk starts with the indices \<open>p\<close>.\<close>

definition below :: "PageTableIndex list \<Rightarrow> Page set" where
  "below p = {q. user_page q \<and> (\<exists>b. page_path q = p @ b)}"

lemma below_disjoint: "i \<noteq> j \<Longrightarrow> below (p @ [i]) \<inter> below (p @ [j]) = {}"
  by (auto simp: below_def)

lemma below_split:
  assumes "length p < 4"
  shows "below p = (\<Union>i\<in>set (table_indices 0 (if p = [] then 256 else 512)). below (p @ [i]))"
proof (intro set_eqI iffI)
  fix q assume "q \<in> below p"
  then obtain b where b: "user_page q" "page_path q = p @ b" by (auto simp: below_def)
  have "b \<noteq> []" using arg_cong [OF b(2), of length] assms by (auto simp: page_path_def)
  then obtain i b' where i: "b = i # b'" by (cases b) auto
  have "index j < 512" if "j \<in> set (page_path q)" for j using that by (auto simp: page_path_def)
  moreover have "p = [] \<Longrightarrow> i = p4_index q" using b(2) i by (simp add: page_path_def)
  ultimately have "i \<in> set (table_indices 0 (if p = [] then 256 else 512))"
    using b i user_page_p4 [OF b(1)] by (auto simp: set_table_indices)
  then show "q \<in> (\<Union>i\<in>set (table_indices 0 (if p = [] then 256 else 512)). below (p @ [i]))"
    using b i by (auto simp: below_def)
qed (auto simp: below_def)

lemma clone_loop:
  assumes "\<And>i V s. i \<in> set js \<Longrightarrow> clone_inv S m0 P c V s \<Longrightarrow> V \<inter> below (p @ [i]) = {} \<Longrightarrow>
      clone_result S m0 P c (V \<union> below (p @ [i])) (f i s)"
    and "clone_inv S m0 P c V s" "\<forall>i\<in>set js. V \<inter> below (p @ [i]) = {}" "distinct js"
  shows "clone_result S m0 P c (V \<union> (\<Union>i\<in>set js. below (p @ [i]))) (for_try f js s)"
  using assms
proof (induction js arbitrary: V s)
  case Nil
  then show ?case by (simp add: clone_resultI)
next
  case (Cons i js)
  have "clone_result S m0 P c (V \<union> below (p @ [i])) (f i s)" using Cons.prems by simp
  then consider (ok) s' where "f i s = Some (Inr (), s')" "clone_inv S m0 P c (V \<union> below (p @ [i])) s'"
    | (err) e s' V' where "f i s = Some (Inl e, s')" "clone_inv S m0 P c V' s'" "fork_blocked m0 P (snd s')"
    by (auto simp: clone_result_def)
  then show ?case
  proof cases
    case ok
    have "(V \<union> below (p @ [i])) \<inter> below (p @ [j]) = {}" if "j \<in> set js" for j
    proof -
      have "i \<noteq> j" using that Cons.prems(4) by auto
      then show ?thesis using that Cons.prems(3) below_disjoint [of i j p] by auto
    qed
    then have "clone_result S m0 P c ((V \<union> below (p @ [i])) \<union> (\<Union>j\<in>set js. below (p @ [j]))) (for_try f js s')"
      using Cons.prems(1,4) by (intro Cons.IH [OF _ ok(2)]) auto
    then show ?thesis using ok(1) by (simp add: Un_assoc)
  next
    case err
    then show ?thesis by (simp add: clone_resultI)
  qed
qed

lemma clone_entry_step:
  assumes inv: "clone_inv S m0 P c V s" and P: "p4_frame P \<in> S"
    and p: "user_path p" "path_ok 3 (p @ [i])" "table_at m0 (p4_frame P) p = Some t" and V: "V \<inter> below (p @ [i]) = {}"
    and inner: "\<And>t'. table_at m0 (p4_frame P) (p @ [i]) = Some t' \<Longrightarrow> clone_result S m0 P c (V \<union> below (p @ [i])) (inner t' s)"
  shows "clone_result S m0 P c (V \<union> below (p @ [i])) (clone_entry t inner i s)"
proof -
  let ?m = "snd s" and ?e = "PageTable_entry (snd s) t i"
  have core: "fork_core S m0 P c V V ?m" using inv by (simp add: clone_inv_def fork_inv_def)
  have p3: "path_ok 3 p" using p(2) by (auto simp: path_ok_def)
  have tm: "table_at ?m (p4_frame P) p = Some t" using p(3) fork_coreD(2) [OF core P p3] by simp
  have "small_inv ?m (insert c S)" using fork_coreD(1) [OF core] by (simp add: vm_inv_def)
  then have huge: "\<not> PageTableEntry_is_huge ?e" by (rule small_invD [OF _ _ p(1,2) tm]) (use P in simp)
  show ?thesis
  proof (cases "PageTableEntry_is_present ?e")
    case True
    have "table_at ?m (p4_frame P) (p @ [i]) = Some (entry_frame ?e)"
      using tm True huge by (simp add: table_at_append links_def)
    then have "table_at m0 (p4_frame P) (p @ [i]) = Some (entry_frame ?e)" using fork_coreD(2) [OF core P p(2)] by simp
    then show ?thesis using inner True huge by (simp add: clone_entry_def Let_def PageTableEntry_frame_present)
  next
    case False
    have "user_page q \<and> AddressSpace_translate P q m0 = None" if "q \<in> below (p @ [i])" for q
    proof -
      obtain b where b: "user_page q" "page_path q = p @ i # b" using \<open>q \<in> _\<close> by (auto simp: below_def)
      then have "q \<notin> V" using V that by auto
      then show ?thesis
        using b translate_stop [OF tm b(2) False] fork_coreD(3) [OF core P, of q] by (auto simp: user_page_def)
    qed
    then show ?thesis using clone_inv_skip [OF inv, of "below (p @ [i])"] False by (simp add: clone_entry_def Let_def clone_resultI)
  qed
qed

lemma below_leaf:
  assumes "index i4 < 256" "index i3 < 512" "index i2 < 512" "index i1 < 512"
  shows "below [i4, i3, i2, i1] = {page_from_indices i4 i3 i2 i1}"
proof -
  note pq = page_from_indices [OF assms]
  have "q = page_from_indices i4 i3 i2 i1" if "q \<in> below [i4, i3, i2, i1]" for q
    using that pq by (intro page_path_inj) (auto simp: below_def user_page_def page_path_def)
  then show ?thesis using pq by (auto simp: below_def)
qed

text \<open>One loop over the entries of a table below which everything else is cloned.\<close>

lemma clone_table:
  assumes inv: "clone_inv S m0 P c V s" and V: "V \<inter> below p = {}" and p: "length p < 4" "p \<noteq> []"
    and step: "\<And>i V s. index i < 512 \<Longrightarrow> clone_inv S m0 P c V s \<Longrightarrow> V \<inter> below (p @ [i]) = {} \<Longrightarrow>
      clone_result S m0 P c (V \<union> below (p @ [i])) (f i s)"
  shows "clone_result S m0 P c (V \<union> below p) (for_try f (table_indices 0 ENTRIES_PER_TABLE) s)"
proof -
  have "\<forall>i\<in>set (table_indices 0 ENTRIES_PER_TABLE). V \<inter> below (p @ [i]) = {}"
    using V below_split [OF p(1)] p(2) by (auto simp: ENTRIES_PER_TABLE_def)
  then show ?thesis
    using clone_loop [of "table_indices 0 ENTRIES_PER_TABLE" S m0 P c p f V s] step inv below_split [OF p(1)] p(2)
    by (simp add: set_table_indices distinct_table_indices ENTRIES_PER_TABLE_def)
qed

lemma clone_user_mappings_result:
  assumes inv: "clone_inv S m0 P c {} ([], m)" and c: "c \<notin> S" and P: "p4_frame P \<in> S"
  shows "clone_result S m0 P c (Collect user_page) (AddressSpace_clone_user_mappings P (AddressSpace c) [] m)"
proof -
  let ?r = "p4_frame P"
  have leaf: "clone_result S m0 P c (V \<union> below [i4, i3, i2, i1]) (clone_leaf P (AddressSpace c) i4 i3 i2 t i1 s)"
    if "index i4 < 256" "index i3 < 512" "index i2 < 512" "index i1 < 512" "table_at m0 ?r [i4, i3, i2] = Some t"
      "clone_inv S m0 P c V s" "V \<inter> below [i4, i3, i2, i1] = {}" for i4 i3 i2 i1 t V s
    using clone_leaf_step [OF that(6) c P that(1-5)] that(7) below_leaf [OF that(1-4)] by simp
  have p1: "clone_result S m0 P c (V \<union> below [i4, i3, i2])
      (for_try (clone_leaf P (AddressSpace c) i4 i3 i2 t) (table_indices 0 ENTRIES_PER_TABLE) s)"
    if "index i4 < 256" "index i3 < 512" "index i2 < 512" "table_at m0 ?r [i4, i3, i2] = Some t"
      "clone_inv S m0 P c V s" "V \<inter> below [i4, i3, i2] = {}" for i4 i3 i2 t V s
    by (rule clone_table [OF that(5,6)]) (use leaf that(1-4) in simp_all)
  have u: "user_path []" "index i4 < 256 \<Longrightarrow> user_path [i4]" "index i4 < 256 \<Longrightarrow> user_path [i4, i3]" for i4 i3
    by (simp_all add: user_path_def)
  have p2: "clone_result S m0 P c (V \<union> below [i4, i3]) (for_try (\<lambda>i2. clone_entry t (\<lambda>p1.
      for_try (clone_leaf P (AddressSpace c) i4 i3 i2 p1) (table_indices 0 ENTRIES_PER_TABLE)) i2) (table_indices 0 ENTRIES_PER_TABLE) s)"
    if "index i4 < 256" "index i3 < 512" "table_at m0 ?r [i4, i3] = Some t" "clone_inv S m0 P c V s" "V \<inter> below [i4, i3] = {}"
    for i4 i3 t V s
  proof (rule clone_table [OF that(4,5)])
    fix i2 V s assume i2: "index i2 < 512" "clone_inv S m0 P c V s" "V \<inter> below ([i4, i3] @ [i2]) = {}"
    show "clone_result S m0 P c (V \<union> below ([i4, i3] @ [i2])) (clone_entry t (\<lambda>p1.
        for_try (clone_leaf P (AddressSpace c) i4 i3 i2 p1) (table_indices 0 ENTRIES_PER_TABLE)) i2 s)"
      by (rule clone_entry_step [OF i2(2) P u(3) [OF that(1)] _ that(3) i2(3)])
        (use p1 i2 that(1,2) in \<open>simp_all add: path_ok_def del: table_at.simps\<close>)
  qed simp_all
  have p3: "clone_result S m0 P c (V \<union> below [i4]) (for_try (\<lambda>i3. clone_entry t (\<lambda>p2. for_try (\<lambda>i2. clone_entry p2 (\<lambda>p1.
      for_try (clone_leaf P (AddressSpace c) i4 i3 i2 p1) (table_indices 0 ENTRIES_PER_TABLE)) i2) (table_indices 0 ENTRIES_PER_TABLE)) i3)
      (table_indices 0 ENTRIES_PER_TABLE) s)"
    if "index i4 < 256" "table_at m0 ?r [i4] = Some t" "clone_inv S m0 P c V s" "V \<inter> below [i4] = {}" for i4 t V s
  proof (rule clone_table [OF that(3,4)])
    fix i3 V s assume i3: "index i3 < 512" "clone_inv S m0 P c V s" "V \<inter> below ([i4] @ [i3]) = {}"
    show "clone_result S m0 P c (V \<union> below ([i4] @ [i3])) (clone_entry t (\<lambda>p2. for_try (\<lambda>i2. clone_entry p2 (\<lambda>p1.
        for_try (clone_leaf P (AddressSpace c) i4 i3 i2 p1) (table_indices 0 ENTRIES_PER_TABLE)) i2) (table_indices 0 ENTRIES_PER_TABLE)) i3 s)"
      by (rule clone_entry_step [OF i3(2) P u(2) [OF that(1)] _ that(2) i3(3)])
        (use p2 i3 that(1) in \<open>simp_all add: path_ok_def del: table_at.simps\<close>)
  qed simp_all
  have half: "ENTRIES_PER_TABLE div 2 = 256" by (simp add: ENTRIES_PER_TABLE_def)
  have "clone_result S m0 P c ({} \<union> (\<Union>i\<in>set (table_indices 0 256). below ([] @ [i])))
      (AddressSpace_clone_user_mappings P (AddressSpace c) [] m)"
    unfolding AddressSpace_clone_user_mappings_def half
  proof (rule clone_loop)
    fix i4 V s assume i4: "i4 \<in> set (table_indices 0 256)" "clone_inv S m0 P c V s" "V \<inter> below ([] @ [i4]) = {}"
    then have "index i4 < 256" by (simp add: set_table_indices)
    then show "clone_result S m0 P c (V \<union> below ([] @ [i4])) (clone_entry ?r (\<lambda>p3. for_try (\<lambda>i3. clone_entry p3 (\<lambda>p2.
        for_try (\<lambda>i2. clone_entry p2 (\<lambda>p1. for_try (clone_leaf P (AddressSpace c) i4 i3 i2 p1) (table_indices 0 ENTRIES_PER_TABLE)) i2)
        (table_indices 0 ENTRIES_PER_TABLE)) i3) (table_indices 0 ENTRIES_PER_TABLE)) i4 s)"
      by (intro clone_entry_step [OF i4(2) P u(1) _ _ i4(3)]) (use p3 i4 in \<open>simp_all add: path_ok_def\<close>)
  qed (use inv in \<open>simp_all add: distinct_table_indices\<close>)
  moreover have "(\<Union>i\<in>set (table_indices 0 256). below ([] @ [i])) = Collect user_page"
    using below_split [of "[]"] by (simp add: below_def)
  ultimately show ?thesis by simp
qed

subsection \<open>The rollback\<close>

lemma fork_books_drop:
  assumes b: "fork_books m0 P V (xs @ [x]) m" and m': "shared_inv m'" "refs m' = (refs m)(fork_frame x := refs m (fork_frame x) - 1)"
  shows "fork_books m0 P (V - {fork_page x}) xs m'"
proof -
  have pages: "fork_page ` set (xs @ [x]) = {q \<in> V. AddressSpace_translate P q m0 \<noteq> None}" "distinct (map fork_page (xs @ [x]))"
    using b unfolding fork_books_def by blast+
  then have "insert (fork_page x) (fork_page ` set xs) = {q \<in> V. AddressSpace_translate P q m0 \<noteq> None}" "fork_page x \<notin> fork_page ` set xs"
    by simp_all
  then have "fork_page ` set xs = {q \<in> V - {fork_page x}. AddressSpace_translate P q m0 \<noteq> None}" by blast
  moreover have "refs m' f = refs m0 f + length (filter (\<lambda>x. fork_frame x = f) xs)" for f
    using b m'(2) by (simp add: fork_books_def)
  ultimately show ?thesis using b m'(1) by (simp add: fork_books_def)
qed

lemma rollback_parent:
  assumes inv0: "vm_inv m0 S" and core: "fork_core S m0 P c V W m" and c: "c \<notin> S" and P: "p4_frame P \<in> S"
    and q: "q \<in> V" "user_page q" and fl: "AddressSpace_translate P q m0 = Some (f, fl)"
  shows "fork_core S m0 P c (V - {q}) W
      (case if cow_shared_flags fl \<noteq> fl then Some fl else None of
         None \<Rightarrow> m
       | Some flags \<Rightarrow> (case AddressSpace_walk_mut P q m of None \<Rightarrow> m
           | Some leaf \<Rightarrow> shootdown x (PageTable_store leaf (PageTableEntry_new f flags) m)))" (is "fork_core _ _ _ _ _ _ ?m")
    and "shared_user_frames (case if cow_shared_flags fl \<noteq> fl then Some fl else None of
         None \<Rightarrow> m
       | Some flags \<Rightarrow> (case AddressSpace_walk_mut P q m of None \<Rightarrow> m
           | Some leaf \<Rightarrow> shootdown x (PageTable_store leaf (PageTableEntry_new f flags) m))) = shared_user_frames m"
proof -
  show "fork_core S m0 P c (V - {q}) W ?m"
  proof (cases "cow_shared_flags fl = fl")
    case True
    then have "forked (AddressSpace_translate P q m0) = AddressSpace_translate P q m0" using fl by (simp add: forked_def)
    then have "fork_core S m0 P c (V - {q}) W m"
      unfolding fork_core_def using core fork_coreD(3) [OF core] by (auto simp: fork_core_def)
    then show ?thesis using True by simp
  next
    case False
    have up: "Page_wf q" "page_addr q \<le> USER_MAX" using q(2) by (simp_all add: user_page_def)
    have tr: "AddressSpace_translate P q m = Some (f, cow_shared_flags fl)"
      using fork_coreD(3) [OF core P up(1)] q fl by (simp add: forked_def)
    note inv = fork_coreD(1) [OF core] and P' = insertI2 [OF P, of c]
    obtain t where t: "table_at m (p4_frame P) [p4_index q, p3_index q, p2_index q] = Some t"
      using mapped_frame_ok(4) [OF inv P' q(2) tr] by blast
    note ok = mapped_frame_ok(1-3) [OF inv0 P q(2) fl]
    have "remap_post (insert c S) P q (AddressSpace_translate P q m0) m
        (shootdown x (PageTable_store (t, p1_index q) (PageTableEntry_new f fl) m))"
      by (rule remap_store [OF inv P' up t]) (use entry_new [OF ok(1,2)] ok(3) fl in \<open>simp add: bit_present\<close>)
    then show ?thesis using fork_core_remap [OF core c P, of P q] False translate_leaf(2) [OF t] by simp
  qed
  show "shared_user_frames ?m = shared_user_frames m" by (simp split: option.split)
qed

lemma rollback_step:
  assumes inv0: "vm_inv m0 S" "shared_inv m0" and inv: "fork_inv S m0 P c V (xs @ [x], m)" and c: "c \<notin> S" and P: "p4_frame P \<in> S"
  shows "fork_inv S m0 P c (V - {fork_page x}) (xs, rollback_mapping P (AddressSpace c) x m)"
proof -
  let ?q = "fork_page x" and ?f = "fork_frame x" and ?C = "AddressSpace c"
  have V: "V \<subseteq> Collect user_page" and core: "fork_core S m0 P c V V m" and books: "fork_books m0 P V (xs @ [x]) m"
    using inv by (simp_all add: fork_inv_def)
  obtain fl where fl: "AddressSpace_translate P ?q m0 = Some (?f, fl)" "parent_flags x = (if cow_shared_flags fl \<noteq> fl then Some fl else None)"
    using books unfolding fork_books_def by auto
  have "?q \<in> fork_page ` set (xs @ [x])" by simp
  then have q: "?q \<in> V" using books unfolding fork_books_def by blast
  then have up: "user_page ?q" "Page_wf ?q" "page_addr ?q \<le> USER_MAX" using V by (auto simp: user_page_def)
  have "AddressSpace_translate ?C ?q m = Some (?f, cow_shared_flags fl)"
    using fork_coreD(4) [OF core up(2)] q fl(1) by (simp add: forked_def)
  then obtain m1 where m1: "AddressSpace_unmap ?C ?q m = (Inr ?f, m1)" "remap_post (insert c S) ?C ?q None m m1"
    using unmap_spec [OF fork_coreD(1) [OF core] _ up(2,3), of ?C] by auto
  have core1: "fork_core S m0 P c V (V - {?q}) m1" using fork_core_remap [OF core c P m1(2)] up(1) by simp
  have sh1: "shared_inv m1" "refs m1 = refs m" using refs_same [of m1 m] m1(2) books by (simp_all add: remap_post_def fork_books_def)
  obtain X where X: "release_user_frame ?f m1 = (refs m1 ?f = 1, m1\<lparr>shared_user_frames := X\<rparr>)"
      "shared_inv (m1\<lparr>shared_user_frames := X\<rparr>)" "refs (m1\<lparr>shared_user_frames := X\<rparr>) = (refs m1)(?f := max 1 (refs m1 ?f - 1))"
    by (rule release_frame_spec [OF sh1(1), of ?f])
  let ?m2 = "m1\<lparr>shared_user_frames := X\<rparr>"
  have "2 \<le> refs m ?f" using books refs_pos [OF inv0(2), of ?f] by (auto simp: fork_books_def)
  then have max: "max 1 (refs m ?f - 1) = refs m ?f - 1" by simp
  have books2: "fork_books m0 P (V - {?q}) xs ?m2"
    by (rule fork_books_drop [OF books X(2)]) (use X(3) sh1(2) max in simp)
  have core2: "fork_core S m0 P c V (V - {?q}) ?m2" using core1 fork_core_same [of ?m2 m1] by simp
  note parent = rollback_parent [OF inv0(1) core2 c P q up(1) fl(1), where x = "ShootdownPage (AddressSpace_cr3 P) (page_addr ?q)", folded fl(2)]
  have run: "rollback_mapping P ?C x m = (case parent_flags x of
         None \<Rightarrow> ?m2
       | Some flags \<Rightarrow> (case AddressSpace_walk_mut P ?q ?m2 of None \<Rightarrow> ?m2
           | Some leaf \<Rightarrow> shootdown (ShootdownPage (AddressSpace_cr3 P) (page_addr ?q)) (PageTable_store leaf (PageTableEntry_new ?f flags) ?m2)))"
    unfolding rollback_mapping_def Let_def m1(1) X(1) snd_conv by (rule refl)
  have "fork_books m0 P (V - {?q}) xs (rollback_mapping P ?C x m)"
    unfolding run using books2 fork_books_same [OF _ _, of _ ?m2] refs_same [OF parent(2)] by blast
  then show ?thesis using V parent(1) unfolding run by (auto simp: fork_inv_def)
qed

lemma rollback_all:
  assumes inv0: "vm_inv m0 S" "shared_inv m0" and c: "c \<notin> S" and P: "p4_frame P \<in> S" and inv: "fork_inv S m0 P c V (mapped, m)"
  shows "fork_core S m0 P c {} {} (fold (rollback_mapping P (AddressSpace c)) (rev mapped) m)"
    "shared_inv (fold (rollback_mapping P (AddressSpace c)) (rev mapped) m)"
    "refs (fold (rollback_mapping P (AddressSpace c)) (rev mapped) m) = refs m0"
proof -
  let ?m = "fold (rollback_mapping P (AddressSpace c)) (rev mapped) m"
  obtain V' where inv': "fork_inv S m0 P c V' ([], ?m)"
    using inv
  proof (induction mapped arbitrary: V m thesis rule: rev_induct)
    case (snoc x xs)
    show ?case by (rule snoc.IH [OF _ rollback_step [OF inv0 snoc.prems(2) c P]]) (use snoc.prems(1) in simp)
  qed simp
  then have core: "fork_core S m0 P c V' V' ?m" and V': "V' \<subseteq> Collect user_page" and books: "fork_books m0 P V' [] ?m"
    by (simp_all add: fork_inv_def)
  have "{q \<in> V'. AddressSpace_translate P q m0 \<noteq> None} = {}" using books unfolding fork_books_def by simp
  then have none: "\<forall>q\<in>V'. AddressSpace_translate P q m0 = None" by blast
  show "fork_core S m0 P c {} {} ?m"
    unfolding fork_core_def using core none V' fork_coreD(3,4) [OF core] by (auto simp: fork_core_def forked_def)
  show "shared_inv ?m" "refs ?m = refs m0" using books by (auto simp: fork_books_def)
qed

subsection \<open>Giving up the child\<close>

text \<open>The machine in which the spaces \<open>S\<close> are as in \<open>m0\<close>.\<close>

definition restored :: "PhysFrame set \<Rightarrow> Machine \<Rightarrow> Machine \<Rightarrow> bool" where
  "restored S m0 m \<longleftrightarrow>
     vm_inv m S \<and> tables m S = tables m0 S \<and>
     (\<forall>sp q. p4_frame sp \<in> S \<and> Page_wf q \<longrightarrow> AddressSpace_translate sp q m = AddressSpace_translate sp q m0) \<and>
     (\<forall>f. frame_ok f \<longrightarrow> frame_free m f = frame_free m0 f) \<and>
     (\<forall>f. \<not> frame_free m0 f \<and> f \<notin> tables m0 S \<longrightarrow> memory m f = memory m0 f)"

text \<open>Once nothing is shared with the child any more, releasing it frees exactly what the fork had taken.\<close>

lemma child_free:
  assumes inv0: "vm_inv m0 S" and core: "fork_core S m0 P c {} {} m" and c: "c \<notin> S" and g: "frame_ok g"
  shows "frame_free m g \<or> g \<in> user_tables m c \<longleftrightarrow> frame_free m0 g"
proof -
  have inv: "vm_inv m (insert c S)" by (rule fork_coreD [OF core])
  have tab0: "tables m S = tables m0 S"
    unfolding tables_def using fork_coreD(2) [OF core] by (intro Collect_cong bex_cong refl ex_cong1 conj_cong) simp
  show ?thesis
  proof
    assume "frame_free m g \<or> g \<in> user_tables m c"
    then show "frame_free m0 g"
    proof
      assume "g \<in> user_tables m c"
      then have "g \<notin> tables m S" "g \<in> tables m (insert c S)"
        using user_tables_disjoint [OF inv, of c] c by (auto simp: user_tables_def tables_def)
      then show ?thesis using core tab0 unfolding fork_core_def by blast
    qed (use core g in \<open>simp add: fork_core_def\<close>)
  next
    assume free: "frame_free m0 g"
    then have nt: "g \<notin> tables m0 S" using tables_not_free [OF inv0] by blast
    show "frame_free m g \<or> g \<in> user_tables m c"
    proof (cases "g \<in> tables m (insert c S)")
      case True
      then obtain p where p: "path_ok 3 p" "table_at m c p = Some g"
        using nt tablesI [of _ S _ m g] unfolding tab0 by (auto simp: tables_def [of m "insert c S"])
      then have "user_path p" using core nt unfolding fork_core_def by blast
      then show ?thesis using p by (auto simp: user_tables_def)
    next
      case False
      then show ?thesis using core free g by (simp add: fork_core_def)
    qed
  qed
qed

lemma drop_child:
  assumes inv0: "vm_inv m0 S" and core: "fork_core S m0 P c {} {} m" and c: "c \<notin> S"
  shows "\<exists>m'. AddressSpace_destroy (AddressSpace c) (clear_kernel_half (AddressSpace c) m) = Some m' \<and>
    restored S m0 m' \<and> shared_user_frames m' = shared_user_frames m"
proof -
  have S: "insert c S - {c} = S" using c by simp
  obtain m' where m': "AddressSpace_destroy (AddressSpace c) (clear_kernel_half (AddressSpace c) m) = Some m'"
      "space_dropped (insert c S) c m m'"
    using drop_space [OF fork_coreD(1) [OF core], of "AddressSpace c"] by auto
  then have d: "vm_inv m' S" "tables m' S = tables m S" "shared_user_frames m' = shared_user_frames m"
      "\<forall>sp q. p4_frame sp \<in> S \<longrightarrow> AddressSpace_translate sp q m' = AddressSpace_translate sp q m"
      "\<forall>g. frame_ok g \<longrightarrow> frame_free m' g = (frame_free m g \<or> g \<in> user_tables m c)" "\<forall>f. f \<noteq> c \<longrightarrow> memory m' f = memory m f"
    unfolding space_dropped_def S by blast+
  have tab0: "tables m S = tables m0 S"
    unfolding tables_def using fork_coreD(2) [OF core] by (intro Collect_cong bex_cong refl ex_cong1 conj_cong) simp
  have mem: "memory m' f = memory m0 f" if "\<not> frame_free m0 f" "f \<notin> tables m0 S" for f
  proof -
    have nt: "f \<notin> tables m (insert c S)" using core that unfolding fork_core_def by blast
    moreover have "c \<in> tables m (insert c S)" by (rule tablesI [of c _ "[]"]) (simp_all add: path_ok_def)
    ultimately have "f \<noteq> c" by blast
    then show ?thesis using d(6) core nt unfolding fork_core_def by simp
  qed
  have "restored S m0 m'"
    unfolding restored_def using d tab0 mem child_free [OF inv0 core c] fork_coreD(3) [OF core] by simp
  then show ?thesis using m'(1) d(3) by blast
qed

end
