(* ===== verification/Fork_Spec.thy ===== *)
theory Fork_Spec
  imports Fork_Transaction
begin

text \<open>What \<open>fork\<close> promises as a whole, and how it works together with the write faults that follow.\<close>

lemma fork_start:
  assumes inv0: "vm_inv m0 S" "shared_inv m0" and P: "p4_frame P \<in> S" and add: "space_added S m0 c m"
    and kernel: "\<And>q. Page_wf q \<Longrightarrow> \<not> user_page q \<Longrightarrow> AddressSpace_translate (AddressSpace c) q m = AddressSpace_translate P q m0"
  shows "c \<notin> S" "clone_inv S m0 P c {} ([], m)"
proof -
  have a: "vm_inv m S" "new_root m S c" "frame_free m0 c" "\<forall>r\<in>S. \<forall>p. path_ok 3 p \<longrightarrow> table_at m r p = table_at m0 r p"
    using add by (simp_all add: space_added_def)
  note sp = add_space [OF a(1,2)]
  have tab: "tables m S = tables m0 S"
    unfolding tables_def using a(4) by (intro Collect_cong bex_cong refl ex_cong1 conj_cong) simp
  have "c \<notin> tables m S" using a(2) by (simp add: new_root_def)
  then show c: "c \<notin> S" using tablesI [of c S "[]" m c] by (auto simp: path_ok_def)
  have "f \<in> tables m0 S" if p: "path_ok 3 p \<and> \<not> user_path p \<and> table_at m c p = Some f" for p f
  proof -
    obtain r where "r \<in> S" "table_at m r p = Some f" using new_root_table_at [OF a(2), of p f] p by (auto simp: user_path_def)
    then show ?thesis using p tablesI [of r S p m f] tab by simp
  qed
  moreover have "frame_free m f = (frame_free m0 f \<and> f \<notin> insert c (tables m0 S))" if "frame_ok f" for f
    using add that tables_not_free [OF inv0(1), of f] by (auto simp: space_added_def)
  ultimately have "fork_core S m0 P c {} {} m"
    unfolding fork_core_def sp(2) tab using sp(1,3) a add kernel by (auto simp: space_added_def)
  moreover have "fork_books m0 P {} [] m"
    using inv0(2) refs_same [of m m0] add by (auto simp: fork_books_def space_added_def)
  moreover have "p = []" if "path_ok 3 p" "user_path p" "table_at m c p \<noteq> None" for p
    using new_root_table_at [OF a(2) that(1)] that(2,3) by auto
  then have "fork_room m0 P c m" using add by (fastforce simp: fork_room_def space_added_def)
  ultimately show "clone_inv S m0 P c {} ([], m)" by (simp add: clone_inv_def fork_inv_def)
qed

lemma fork_books_card:
  assumes "fork_books m0 P (Collect user_page) mapped m"
  shows "refs m f = refs m0 f + card (pages_of m0 P f)"
proof -
  let ?xs = "filter (\<lambda>x. fork_frame x = f) mapped"
  have b: "distinct (map fork_page mapped)" "fork_page ` set mapped = {q. user_page q \<and> AddressSpace_translate P q m0 \<noteq> None}"
    "\<forall>x\<in>set mapped. \<exists>fl. AddressSpace_translate P (fork_page x) m0 = Some (fork_frame x, fl)"
    "refs m f = refs m0 f + length ?xs"
    using assms by (auto simp: fork_books_def)
  have "fork_page ` set ?xs = pages_of m0 P f"
  proof (intro set_eqI iffI)
    fix q assume "q \<in> fork_page ` set ?xs"
    then obtain x where x: "x \<in> set mapped" "fork_frame x = f" "q = fork_page x" by auto
    then have "user_page q" using b(2) by blast
    then show "q \<in> pages_of m0 P f" using x b(3) by (auto simp: pages_of_def)
  next
    fix q assume "q \<in> pages_of m0 P f"
    then obtain fl where q: "user_page q" "AddressSpace_translate P q m0 = Some (f, fl)" by (auto simp: pages_of_def)
    then have "q \<in> fork_page ` set mapped" using b(2) by simp
    then obtain x where "x \<in> set mapped" "q = fork_page x" by auto
    then show "q \<in> fork_page ` set ?xs" using b(3) q(2) by fastforce
  qed
  moreover have "distinct (map fork_page ?xs)" using b(1) by (rule distinct_map_filter)
  then have "card (fork_page ` set ?xs) = length ?xs" using distinct_card [of "map fork_page ?xs"] by simp
  ultimately show ?thesis using b(4) by simp
qed

lemma forked_Some: "forked t = Some (f, fl) \<longleftrightarrow> (\<exists>fl0. t = Some (f, fl0) \<and> fl = cow_shared_flags fl0)"
  by (auto simp: forked_def)

lemma fork_mappings:
  assumes S: "\<And>sp q. p4_frame sp \<in> S \<Longrightarrow> user_page q \<Longrightarrow> AddressSpace_translate sp q m =
        (if sp = P then forked (AddressSpace_translate P q m0) else AddressSpace_translate sp q m0)"
    and C: "\<And>q. user_page q \<Longrightarrow> AddressSpace_translate (AddressSpace c) q m = forked (AddressSpace_translate P q m0)"
    and P: "p4_frame P \<in> S" and c: "c \<notin> S"
  shows "mappings m (insert c S) f = mappings m0 S f \<union> (\<lambda>q. (AddressSpace c, q)) ` pages_of m0 P f"
proof (rule set_eqI)
  fix x :: "AddressSpace \<times> Page"
  obtain sp q where x: "x = (sp, q)" by (cases x)
  have root: "p4_frame sp = c \<longleftrightarrow> sp = AddressSpace c" by (metis AddressSpace.collapse AddressSpace.sel)
  show "x \<in> mappings m (insert c S) f \<longleftrightarrow> x \<in> mappings m0 S f \<union> (\<lambda>q. (AddressSpace c, q)) ` pages_of m0 P f"
    using S [of sp q] C [of q] c unfolding x
    by (cases "sp = AddressSpace c"; cases "p4_frame sp \<in> S"; cases "user_page q"; cases "sp = P")
      (auto simp: mappings_def pages_of_def root forked_Some)
qed

lemma fork_cow_inv:
  assumes inv0: "cow_inv m0 S" and inv: "fork_inv S m0 P c (Collect user_page) (mapped, m)" and P: "p4_frame P \<in> S" and c: "c \<notin> S"
  shows "cow_inv m (insert c S)"
proof -
  have core: "fork_core S m0 P c (Collect user_page) (Collect user_page) m" and books: "fork_books m0 P (Collect user_page) mapped m"
    using inv by (simp_all add: fork_inv_def)
  have maps: "mappings m (insert c S) f = mappings m0 S f \<union> (\<lambda>q. (AddressSpace c, q)) ` pages_of m0 P f" for f
    by (rule fork_mappings [OF _ _ P c]) (use fork_coreD(3,4) [OF core] in \<open>auto simp: user_page_def\<close>)
  have owned: "\<not> frame_free m0 f \<and> f \<notin> tables m0 S \<and> frame_ok f" if "mappings m (insert c S) f \<noteq> {}" for f
  proof -
    have "pages_of m0 P f \<noteq> {} \<Longrightarrow> mappings m0 S f \<noteq> {}" using P by (auto simp: pages_of_def mappings_def)
    then have ne: "mappings m0 S f \<noteq> {}" using that maps [of f] by auto
    then have "frame_ok f" using mapped_frame_ok(1) [OF cow_invD(1) [OF inv0]] by (auto simp: mappings_def)
    then show ?thesis using cow_invD(6,7) [OF inv0 ne] by simp
  qed
  have "card (mappings m (insert c S) f) \<le> refs m f" for f
  proof -
    have "card (mappings m (insert c S) f) \<le> card (mappings m0 S f) + card (pages_of m0 P f)"
      unfolding maps using card_Un_le card_image_le [OF finite_pages] by (meson add_left_mono le_trans)
    then show ?thesis using cow_invD(4) [OF inv0, of f] fork_books_card [OF books, of f] by simp
  qed
  moreover have "\<not> frame_free m f \<and> f \<notin> tables m (insert c S)" if "mappings m (insert c S) f \<noteq> {}" for f
    using owned [OF that] core unfolding fork_core_def by blast
  ultimately show ?thesis
    using fork_coreD(1) [OF core] books cow_invD(2) [OF inv0] by (simp add: cow_inv_def fork_books_def)
qed

lemma restored_cow_inv:
  assumes inv0: "cow_inv m0 S" and r: "restored S m0 m" and sh: "shared_inv m" "refs m = refs m0"
  shows "cow_inv m S"
proof -
  have maps: "mappings m S f = mappings m0 S f" for f
    using r by (auto simp: mappings_def restored_def user_page_def)
  have "frame_ok f" if "mappings m0 S f \<noteq> {}" for f
    using that mapped_frame_ok(1) [OF cow_invD(1) [OF inv0]] by (auto simp: mappings_def)
  then show ?thesis using r sh inv0 unfolding cow_inv_def maps restored_def by auto
qed

text \<open>What a successful fork leaves: the child repeats the parent, and writable pages became copy-on-write in both.\<close>

definition fork_post :: "PhysFrame set \<Rightarrow> AddressSpace \<Rightarrow> Machine \<Rightarrow> PhysFrame \<Rightarrow> Machine \<Rightarrow> bool" where
  "fork_post S P m c m' \<longleftrightarrow>
     c \<notin> S \<and> frame_free m c \<and> cow_inv m' (insert c S) \<and>
     (\<forall>q. user_page q \<longrightarrow> AddressSpace_translate P q m' = forked (AddressSpace_translate P q m) \<and>
        AddressSpace_translate (AddressSpace c) q m' = forked (AddressSpace_translate P q m)) \<and>
     (\<forall>q. Page_wf q \<and> \<not> user_page q \<longrightarrow> AddressSpace_translate (AddressSpace c) q m' = AddressSpace_translate P q m) \<and>
     (\<forall>sp q. p4_frame sp \<in> S \<and> Page_wf q \<and> (sp \<noteq> P \<or> \<not> user_page q) \<longrightarrow>
        AddressSpace_translate sp q m' = AddressSpace_translate sp q m) \<and>
     (\<forall>f. refs m' f = refs m f + card (pages_of m P f)) \<and>
     (\<forall>f. \<not> frame_free m f \<and> f \<notin> tables m S \<longrightarrow> memory m' f = memory m f)"

text \<open>
  Why a fork can fail: there are no more free frames than the parent has tables, the heap refuses a reservation, a page
  of the user half is not a user page, or a reference count would overflow.
\<close>

definition fork_refused :: "Machine \<Rightarrow> AddressSpace \<Rightarrow> bool" where
  "fork_refused m P \<longleftrightarrow>
     card {f. frame_ok f \<and> frame_free m f} \<le> card (user_tables m (p4_frame P)) \<or> False \<in> set (heap_replies m) \<or>
     (\<exists>q f fl. user_page q \<and> AddressSpace_translate P q m = Some (f, fl) \<and> \<not> PageTableFlags_contains fl PageTableFlags_USER) \<or>
     (\<exists>f. 2 ^ 64 \<le> refs m f + card (pages_of m P f))"

lemma finite_paths: "finite {p. path_ok n p}"
proof -
  have "finite (UNIV :: PageTableIndex set)"
    by (rule finite_imageD [of PageTableIndex_value]) (auto intro: injI PageTableIndex.expand)
  then have "finite {p :: PageTableIndex list. set p \<subseteq> UNIV \<and> length p \<le> n}" by (rule finite_lists_length_le)
  then show ?thesis by (rule finite_subset [rotated]) (auto simp: path_ok_def)
qed

lemma user_tables_card:
  assumes inv: "vm_inv m S" and r: "r \<in> S"
  shows "card (user_tables m r) = card {p. path_ok 3 p \<and> user_path p \<and> table_at m r p \<noteq> None}" (is "_ = card ?Q")
proof -
  have "inj_on (\<lambda>p. the (table_at m r p)) ?Q"
  proof (rule inj_onI)
    fix p q assume a: "p \<in> ?Q" "q \<in> ?Q" "the (table_at m r p) = the (table_at m r q)"
    then obtain f where "table_at m r p = Some f" "table_at m r q = Some f" by auto
    then show "p = q" using inv r a(1,2) unfolding vm_inv_def tree_inv_def by blast
  qed
  moreover have "user_tables m r = (\<lambda>p. the (table_at m r p)) ` ?Q" by (force simp: user_tables_def)
  ultimately show ?thesis by (simp add: card_image)
qed

lemma fork_blocked_refused:
  assumes inv0: "vm_inv m0 S" and P: "p4_frame P \<in> S" and c: "c \<notin> S" and cl: "clone_inv S m0 P c V (mapped, m)" and b: "fork_blocked m0 P m"
  shows "fork_refused m0 P"
proof (cases "\<forall>f. \<not> frame_free m f")
  case True
  have core: "fork_core S m0 P c V V m" and room: "fork_room m0 P c m" using cl by (simp_all add: clone_inv_def fork_inv_def)
  let ?Q = "\<lambda>m r. {p. path_ok 3 p \<and> user_path p \<and> table_at m r p \<noteq> None}"
  have "f \<in> user_tables m c" if f: "frame_ok f" "frame_free m0 f" for f
  proof -
    have "f \<in> tables m (insert c S)" using core f True by (auto simp: fork_core_def)
    moreover have "f \<notin> tables m0 S" using tables_not_free [OF inv0] f(2) by blast
    moreover have "table_at m r p = table_at m0 r p" if "r \<in> S" "path_ok 3 p" for r p by (rule fork_coreD(2) [OF core that])
    ultimately obtain p where "path_ok 3 p" "table_at m c p = Some f" by (auto simp: tables_def)
    moreover from this have "user_path p" using core \<open>f \<notin> tables m0 S\<close> by (auto simp: fork_core_def)
    ultimately show ?thesis by (auto simp: user_tables_def)
  qed
  then have sub: "{f. frame_ok f \<and> frame_free m0 f} \<subseteq> user_tables m c" by blast
  have fin: "finite (?Q m' r)" for m' r by (rule finite_subset [OF _ finite_paths [of 3]]) auto
  have "user_tables m c \<subseteq> (\<lambda>p. the (table_at m c p)) ` ?Q m c" by (force simp: user_tables_def)
  then have "finite (user_tables m c)" using fin finite_surj by blast
  then have "card {f. frame_ok f \<and> frame_free m0 f} \<le> card (user_tables m c)" using sub by (rule card_mono)
  also have "\<dots> = card (?Q m c)" using user_tables_card [OF fork_coreD(1) [OF core]] by simp
  also have "\<dots> \<le> card (?Q m0 (p4_frame P))" by (rule card_mono [OF fin]) (use room in \<open>auto simp: fork_room_def\<close>)
  also have "\<dots> = card (user_tables m0 (p4_frame P))" using user_tables_card [OF inv0 P] by simp
  finally show ?thesis by (simp add: fork_refused_def)
next
  case False
  then show ?thesis using b unfolding fork_blocked_def fork_refused_def by blast
qed

lemma fork_spec:
  assumes inv: "cow_inv m S" and P: "p4_frame P \<in> S"
  shows "\<exists>res m'. AddressSpace_fork P m = Some (res, m') \<and>
    (case res of
       Inl e \<Rightarrow> restored S m m' \<and> cow_inv m' S \<and> refs m' = refs m \<and> fork_refused m P
     | Inr child \<Rightarrow> fork_post S P m (p4_frame child) m')"
proof -
  note vm = cow_invD(1,3) [OF inv]
  from vm(1) show ?thesis
  proof (cases rule: new_empty_cases)
    case none
    have "restored S m m" "fork_refused m P" using vm(1) none(2) by (simp_all add: restored_def fork_refused_def)
    then show ?thesis using none inv by (simp add: AddressSpace_fork_def)
  next
    case (some c m1)
    let ?m2 = "copy_kernel_half P (AddressSpace c) m1"
    note add = copy_kernel_half_added [OF some(2) P]
    note start = fork_start [OF vm P add]
    have free: "frame_free m c" using some(2) by (simp add: space_added_def)
    consider (ok) mapped m3 where "AddressSpace_clone_user_mappings P (AddressSpace c) [] ?m2 = Some (Inr (), mapped, m3)"
          "clone_inv S m P c (Collect user_page) (mapped, m3)"
      | (err) e mapped m3 V where "AddressSpace_clone_user_mappings P (AddressSpace c) [] ?m2 = Some (Inl e, mapped, m3)"
          "clone_inv S m P c V (mapped, m3)" "fork_blocked m P m3"
      using clone_user_mappings_result [OF start(2,1) P] unfolding clone_result_def by fastforce
    then show ?thesis
    proof cases
      case ok
      have core: "fork_core S m P c (Collect user_page) (Collect user_page) m3" and books: "fork_books m P (Collect user_page) mapped m3"
        and inv3: "fork_inv S m P c (Collect user_page) (mapped, m3)" using ok(2) by (simp_all add: clone_inv_def fork_inv_def)
      have "memory m3 f = memory m f" if "\<not> frame_free m f" "f \<notin> tables m S" for f
        using core that unfolding fork_core_def by blast
      then have "fork_post S P m c m3"
        using start(1) free fork_cow_inv [OF inv inv3 P start(1)] fork_books_card [OF books] fork_coreD(3,4) [OF core] P
        unfolding fork_post_def by (auto simp: user_page_def)
      then show ?thesis using some(1) ok(1) by (simp add: AddressSpace_fork_def)
    next
      case err
      have refused: "fork_refused m P" by (rule fork_blocked_refused [OF vm(1) P start(1) err(2,3)])
      have "fork_inv S m P c V (mapped, m3)" using err(2) by (simp add: clone_inv_def)
      note undone = rollback_all [OF vm start(1) P this]
      obtain m' where m': "rollback_fork P (AddressSpace c) mapped m3 = Some m'" "restored S m m'"
          "shared_user_frames m' = shared_user_frames (fold (rollback_mapping P (AddressSpace c)) (rev mapped) m3)"
        using drop_child [OF vm(1) undone(1) start(1)] by (auto simp: rollback_fork_def)
      have "shared_inv m'" "refs m' = refs m" using refs_same [OF m'(3)] undone(2,3) by simp_all
      then show ?thesis using some(1) err(1) m'(1,2) refused restored_cow_inv [OF inv m'(2)] by (simp add: AddressSpace_fork_def)
    qed
  qed
qed

end
