(* ===== verification/Virtual_Memory.thy ===== *)
theory Virtual_Memory
  imports Fork_Spec
begin

text \<open>
  The life of the private user memory of all processes: spaces are created and forked, pages are given
  fresh frames, unmapped, and copied on a write fault. Every state the kernel can reach this way keeps the
  invariants, and a page a process can write is mapped nowhere else.
\<close>

subsection \<open>Giving back a frame\<close>

text \<open>\<open>free_user_frame\<close> of \<open>kernel/src/user/process.rs\<close>: the last owner returns the frame to the allocator.\<close>

definition free_user_frame :: "PhysFrame \<Rightarrow> Machine \<Rightarrow> Machine option" where
  "free_user_frame frame m =
     (case release_user_frame frame m of (unowned, m) \<Rightarrow> if unowned then free_frame frame m else Some m)"

text \<open>
  The bodies of the loops of \<open>map_zeroed_range\<close>, which gives a page a fresh frame, and of
  \<open>rollback_new_pages\<close> and \<open>unmap_owned_range\<close>, which take a page away.
\<close>

definition map_zeroed_page :: "AddressSpace \<Rightarrow> Page \<Rightarrow> PageTableFlags \<Rightarrow> Machine \<Rightarrow> ((MapError + PhysFrame) \<times> Machine) option" where
  "map_zeroed_page space page flags m =
     do {
       (frame, m) \<leftarrow> alloc_frame m;
       case frame of
         None \<Rightarrow> Some (Inl MapOutOfMemory, m)
       | Some frame \<Rightarrow>
           do {
             (result, m) \<leftarrow> AddressSpace_map_user space page frame flags (zero_frame frame m);
             case result of
               Inl error \<Rightarrow> do { m \<leftarrow> free_frame frame m; Some (Inl error, m) }
             | Inr u \<Rightarrow> Some (Inr frame, m)
           }
     }"

definition release_page :: "AddressSpace \<Rightarrow> Page \<Rightarrow> Machine \<Rightarrow> Machine option" where
  "release_page space page m =
     (case AddressSpace_unmap space page m of
        (Inl e, m) \<Rightarrow> Some m
      | (Inr frame, m) \<Rightarrow> free_user_frame frame m)"

text \<open>\<open>destroy\<close> of \<open>kernel/src/user/elf.rs\<close>: the recorded pages, then the tables, are given back.\<close>

definition destroy_image :: "AddressSpace \<Rightarrow> Page list \<Rightarrow> Machine \<Rightarrow> Machine option" where
  "destroy_image space pages m =
     do {
       m \<leftarrow> for_each (\<lambda>m page. release_page space page m) m pages;
       AddressSpace_destroy space (clear_kernel_half space m)
     }"

lemma free_frame_any:
  assumes inv: "alloc_inv m" and f: "frame_ok f"
  shows "\<exists>m' A. free_frame f m = Some m' \<and> frees A m m' \<and> A \<subseteq> {f}"
proof (cases "frame_releasable m f")
  case True
  then show ?thesis using free_frame_spec [OF inv] by blast
next
  case False
  show ?thesis
  proof (cases "frame_allocator m")
    case None
    then show ?thesis using frees_refl by (auto simp: free_frame_def)
  next
    case (Some a)
    let ?s = "unat (PhysFrame_number f)"
    have ai: "allocator_inv a" using inv Some by (simp add: alloc_inv_def)
    have nr: "?s \<notin> releasable_set a" using False f Some by (simp add: frame_releasable_def)
    have "\<exists>e. BitmapFrameAllocator_deallocate a f = Some (Inl e, a)"
    proof (cases "?s + unat (1 :: u64) \<le> unat (total_frames a)")
      case True
      then have "\<not> BitmapFrameAllocator_is_releasable a (of_nat ?s)"
        using nr ai by (auto simp: releasable_set_def allocator_inv_def)
      then have "find_map (release_refusal a) [?s..<?s + unat (1 :: u64)] = Some ReservedFrame" by (simp add: release_refusal_def)
      then show ?thesis using deallocate_range_spec [OF ai _ refl True] by (simp add: BitmapFrameAllocator_deallocate_def)
    next
      case False
      then show ?thesis
        by (cases "checked_add (PhysFrame_number f) 1")
          (auto simp: BitmapFrameAllocator_deallocate_def BitmapFrameAllocator_deallocate_range_def Let_def word_less_nat_alt
            dest: unat_checked_add)
    qed
    then obtain e where "BitmapFrameAllocator_deallocate a f = Some (Inl e, a)" by blast
    then have "free_frame f m = Some (m\<lparr>frame_allocator := Some a\<rparr>)" using Some by (simp add: free_frame_def)
    moreover have "m\<lparr>frame_allocator := Some a\<rparr> = m" using Some by simp
    ultimately show ?thesis using frees_refl [of m] by auto
  qed
qed

subsection \<open>Every operation keeps the invariant\<close>

text \<open>Frames may be taken, released and rewritten as long as no page maps them and no table lies in them.\<close>

lemma cow_inv_outside:
  assumes inv: "cow_inv m S"
    and mem: "\<forall>f\<in>tables m S. memory m' f = memory m f"
    and al: "alloc_inv m'" "\<And>f. f \<in> tables m S \<Longrightarrow> frame_taken m f \<Longrightarrow> frame_taken m' f"
      "\<And>f. frame_ok f \<Longrightarrow> f \<in> tables m S \<or> mappings m S f \<noteq> {} \<Longrightarrow> \<not> frame_free m f \<Longrightarrow> \<not> frame_free m' f"
    and sh: "shared_inv m'" "\<And>f. card (mappings m S f) \<le> refs m' f"
  shows "cow_inv m' S" "\<And>sp q. p4_frame sp \<in> S \<Longrightarrow> AddressSpace_translate sp q m' = AddressSpace_translate sp q m"
    "tables m' S = tables m S" "\<And>f. mappings m' S f = mappings m S f"
proof -
  note vm = cow_invD(1) [OF inv]
  have same: "\<forall>f\<in>tables m S. \<forall>i. index i < 512 \<longrightarrow> PageTable_entry m' f i = PageTable_entry m f i"
    using mem by (simp add: PageTable_entry_def)
  have out: "vm_inv m' S" "tables m' S = tables m S"
      "\<And>sp q. p4_frame sp \<in> S \<Longrightarrow> AddressSpace_translate sp q m' = AddressSpace_translate sp q m"
    by (rule outside_tables [OF vm same al(1)]; use al(2,3) tables_ok [OF vm] in blast)+
  show "\<And>sp q. p4_frame sp \<in> S \<Longrightarrow> AddressSpace_translate sp q m' = AddressSpace_translate sp q m" by (rule out(3))
  show "tables m' S = tables m S" by (rule out(2))
  show maps: "mappings m' S f = mappings m S f" for f using out(3) by (auto simp: mappings_def)
  have "frame_ok f" if "mappings m S f \<noteq> {}" for f
    using that mapped_frame_ok(1) [OF vm] by (auto simp: mappings_def)
  then show "cow_inv m' S"
    using inv out al(3) sh unfolding cow_inv_def maps out(2) by blast
qed

lemma cow_inv_map:
  assumes inv: "cow_inv m S" and sp: "p4_frame sp \<in> S" "Page_wf q"
    and f: "frame_ok f" "f \<notin> tables m S" "\<not> frame_free m f" "mappings m S f = {}"
    and post: "map_user_post S sp q (f, fl) m res m'"
  shows "cow_inv m' S" "f \<notin> tables m' S" "\<not> frame_free m' f"
    "mappings m' S g = (if res = Inr () \<and> g = f then {(sp, q)} else mappings m S g)"
proof -
  have p: "vm_inv m' S" "\<forall>g\<in>tables m' S. g \<in> tables m S \<or> frame_free m g" "shared_user_frames m' = shared_user_frames m"
    "\<forall>g. frame_ok g \<longrightarrow> frame_free m' g = (frame_free m g \<and> g \<notin> tables m' S)"
    and tr: "\<forall>sp' q'. p4_frame sp' \<in> S \<and> Page_wf q' \<longrightarrow> AddressSpace_translate sp' q' m' =
      (if res = Inr () \<and> sp' = sp \<and> q' = q then Some (f, fl) else AddressSpace_translate sp' q' m)"
    using post unfolding map_user_post_def by blast+
  have ok: "res = Inr () \<Longrightarrow> user_page q \<and> AddressSpace_translate sp q m = None"
    using post sp(2) by (auto simp: map_user_post_def user_page_def)
  show nf: "f \<notin> tables m' S" "\<not> frame_free m' f" using p f by auto
  show maps: "mappings m' S g = (if res = Inr () \<and> g = f then {(sp, q)} else mappings m S g)" for g
  proof (cases "res = Inr ()")
    case True
    then have none: "(sp, q) \<notin> mappings m S g" using ok by (auto simp: mappings_def)
    have "mappings m' S g = (if \<exists>fl'. Some (f, fl) = Some (g, fl') then insert (sp, q) (mappings m S g) else mappings m S g - {(sp, q)})"
      by (rule mappings_remap) (use tr True ok sp in auto)
    then show ?thesis using True none f(4) by auto
  next
    case False
    then show ?thesis using tr by (auto simp: mappings_def user_page_def)
  qed
  note r = refs_same [OF p(3)]
  have owned: "\<not> frame_free m' g \<and> g \<notin> tables m' S" if "mappings m S g \<noteq> {}" for g
  proof -
    have "frame_ok g" using that mapped_frame_ok(1) [OF cow_invD(1) [OF inv]] by (auto simp: mappings_def)
    then show ?thesis using cow_invD(6,7) [OF inv that] p(2,4) by auto
  qed
  have "card (mappings m' S g) \<le> refs m' g" for g
    using cow_invD(4) [OF inv, of g] refs_pos [OF cow_invD(3) [OF inv], of g] r unfolding maps by auto
  then show "cow_inv m' S"
    using p(1) owned nf r cow_invD(2,3) [OF inv] unfolding cow_inv_def maps by auto
qed

text \<open>A frame that is neither mapped nor a table may be handed out, filled or returned.\<close>

lemma cow_inv_alloc:
  assumes inv: "cow_inv m S"
    and f: "frame_ok f" "frame_free m f" "alloc_inv (m\<lparr>frame_allocator := Some a\<rparr>)"
      "\<forall>h. frame_ok h \<longrightarrow> frame_free (m\<lparr>frame_allocator := Some a\<rparr>) h = (frame_free m h \<and> h \<noteq> f)"
      "\<forall>h. frame_taken m h \<longrightarrow> frame_taken (m\<lparr>frame_allocator := Some a\<rparr>) h"
    and m': "m' = zero_frame f (m\<lparr>frame_allocator := Some a\<rparr>)"
  shows "cow_inv m' S" "\<And>sp q. p4_frame sp \<in> S \<Longrightarrow> AddressSpace_translate sp q m' = AddressSpace_translate sp q m"
    "tables m' S = tables m S" "\<And>g. mappings m' S g = mappings m S g" "f \<notin> tables m' S" "\<not> frame_free m' f" "mappings m' S f = {}"
    "\<And>h. frame_ok h \<Longrightarrow> frame_free m' h = (frame_free m h \<and> h \<noteq> f)"
proof -
  note vm = cow_invD(1,3) [OF inv]
  have nt: "f \<notin> tables m S" "mappings m S f = {}" using tables_not_free [OF vm(1)] cow_invD(6) [OF inv, of f] f(2) by auto
  have al: "frame_free m' = frame_free (m\<lparr>frame_allocator := Some a\<rparr>)" "frame_taken m' = frame_taken (m\<lparr>frame_allocator := Some a\<rparr>)"
      "alloc_inv m'"
    using f(3) by (auto simp: m' zero_frame_def frame_free_def frame_taken_def alloc_inv_def fun_eq_iff)
  have sh: "shared_inv m'" "refs m' = refs m" using vm(2) by (simp_all add: m' zero_frame_def shared_inv_def refs_def fun_eq_iff)
  have mem: "\<forall>g\<in>tables m S. memory m' g = memory m g" using nt(1) by (auto simp: m' zero_frame_def)
  show out: "cow_inv m' S" "\<And>sp q. p4_frame sp \<in> S \<Longrightarrow> AddressSpace_translate sp q m' = AddressSpace_translate sp q m"
    "tables m' S = tables m S" "\<And>g. mappings m' S g = mappings m S g"
    by (rule cow_inv_outside [OF inv mem al(3)]; use al f(4,5) sh cow_invD(4) [OF inv] in simp)+
  show "frame_free m' h = (frame_free m h \<and> h \<noteq> f)" if "frame_ok h" for h using al(1) f(4) that by simp
  show "f \<notin> tables m' S" "\<not> frame_free m' f" "mappings m' S f = {}" using out(3,4) nt al(1) f(1,4) by simp_all
qed

lemma cow_inv_free:
  assumes inv: "cow_inv m S" and fr: "frees A m m'" and A: "\<forall>f\<in>A. f \<notin> tables m S \<and> mappings m S f = {}"
  shows "cow_inv m' S" "\<And>sp q. p4_frame sp \<in> S \<Longrightarrow> AddressSpace_translate sp q m' = AddressSpace_translate sp q m"
    "tables m' S = tables m S" "\<And>f. mappings m' S f = mappings m S f"
proof -
  note vm = cow_invD(1,3) [OF inv]
  obtain X where X: "m' = m\<lparr>frame_allocator := X\<rparr>" using fr by (auto simp: frees_def)
  have sh: "shared_inv m'" "refs m' = refs m" using vm(2) by (simp_all add: X shared_inv_def refs_def fun_eq_iff)
  have ai: "alloc_inv m'" using fr vm(1) by (simp add: frees_def vm_inv_def)
  have free: "frame_free m' g = (frame_free m g \<or> g \<in> A)" if "frame_ok g" for g using fr that by (simp add: frees_def)
  have taken: "frame_taken m' g" if "g \<in> tables m S" "frame_taken m g" for g
    using that fr A free [OF tables_ok [OF vm(1) that(1)]] by (auto simp: frame_taken_releasable frees_def)
  show "cow_inv m' S" "\<And>sp q. p4_frame sp \<in> S \<Longrightarrow> AddressSpace_translate sp q m' = AddressSpace_translate sp q m"
    "tables m' S = tables m S" "\<And>f. mappings m' S f = mappings m S f"
    by (rule cow_inv_outside [OF inv _ ai taken]; use X free A sh cow_invD(4) [OF inv] in auto)+
qed

text \<open>Giving a page a fresh frame.\<close>

definition fresh_page :: "PhysFrame set \<Rightarrow> AddressSpace \<Rightarrow> Page \<Rightarrow> (PhysFrame \<times> PageTableFlags) option \<Rightarrow> Machine \<Rightarrow> Machine \<Rightarrow> bool" where
  "fresh_page S sp q new m m' \<longleftrightarrow>
     cow_inv m' S \<and>
     (\<forall>sp' q'. p4_frame sp' \<in> S \<and> Page_wf q' \<longrightarrow> AddressSpace_translate sp' q' m' =
        (if new \<noteq> None \<and> sp' = sp \<and> q' = q then new else AddressSpace_translate sp' q' m)) \<and>
     (\<forall>f fl. new = Some (f, fl) \<longrightarrow> mappings m S f = {} \<and> user_page q \<and> AddressSpace_translate sp q m = None) \<and>
     (\<forall>f. mappings m S f \<noteq> {} \<longrightarrow> memory m' f = memory m f)"

lemma map_zeroed_page_spec:
  assumes inv: "cow_inv m S" and sp: "p4_frame sp \<in> S" "Page_wf q" and fl: "flags_ok fl"
  shows "\<exists>res m'. map_zeroed_page sp q fl m = Some (res, m') \<and>
    (case res of
       Inl e \<Rightarrow> fresh_page S sp q None m m'
     | Inr f \<Rightarrow> fresh_page S sp q (Some (f, PageTableFlags_bitor fl PageTableFlags_PRESENT)) m m' \<and> memory m' f = (\<lambda>_. 0) \<and> frame_free m f)"
proof -
  have "alloc_inv m" using cow_invD(1) [OF inv] by (simp add: vm_inv_def)
  then show ?thesis
  proof (cases rule: alloc_frame_cases)
    case none
    then show ?thesis using inv by (simp add: map_zeroed_page_def fresh_page_def)
  next
    case (some f a)
    let ?z = "zero_frame f (m\<lparr>frame_allocator := Some a\<rparr>)"
    note z = cow_inv_alloc [OF inv some(2,3,4,6,7) refl]
    obtain res m3 where m3: "AddressSpace_map_user sp q f fl ?z = Some (res, m3)"
        "map_user_post S sp q (f, PageTableFlags_bitor fl PageTableFlags_PRESENT) ?z res m3"
      using map_user_spec [OF cow_invD(1) [OF z(1)] sp some(2) fl] by blast
    note c = cow_inv_map [OF z(1) sp some(2) z(5-7) m3(2)]
    have tr: "AddressSpace_translate sp' q' m3 = (if res = Inr () \<and> sp' = sp \<and> q' = q
        then Some (f, PageTableFlags_bitor fl PageTableFlags_PRESENT) else AddressSpace_translate sp' q' m)"
      if "p4_frame sp' \<in> S" "Page_wf q'" for sp' q'
      using m3(2) that z(2) by (simp add: map_user_post_def)
    have mem3: "memory m3 g = memory ?z g" if "g \<notin> tables m3 S" for g using m3(2) that by (simp add: map_user_post_def)
    have mem: "memory m3 g = memory m g" if g: "mappings m S g \<noteq> {}" for g
    proof -
      have "g \<noteq> f" using g cow_invD(6) [OF inv g] some(3) by blast
      moreover have "mappings m3 S g \<noteq> {}" using g c(4) [of g] z(4) \<open>g \<noteq> f\<close> by simp
      then have "g \<notin> tables m3 S" by (rule cow_invD(7) [OF c(1)])
      ultimately show ?thesis using mem3 [of g] by (simp add: zero_frame_def)
    qed
    show ?thesis
    proof (cases res)
      case (Inl e)
      obtain m4 A where m4: "free_frame f m3 = Some m4" "frees A m3 m4" "A \<subseteq> {f}"
        using free_frame_any [of m3 f] cow_invD(1) [OF c(1)] some(2) by (auto simp: vm_inv_def)
      have "mappings m3 S f = {}" using c(4) [of f] Inl z(7) by simp
      then have A: "\<forall>f\<in>A. f \<notin> tables m3 S \<and> mappings m3 S f = {}" using m4(3) c(2) by blast
      note free = cow_inv_free [OF c(1) m4(2) A]
      have "memory m4 = memory m3" using m4(2) by (auto simp: frees_def)
      then have "fresh_page S sp q None m m4" unfolding fresh_page_def using free(1,2) tr Inl mem by simp
      then show ?thesis using some(1) m3(1) Inl m4(1) by (simp add: map_zeroed_page_def)
    next
      case (Inr u)
      have "user_page q \<and> AddressSpace_translate sp q m = None"
        using m3(2) Inr sp z(2) [OF sp(1)] by (simp add: map_user_post_def user_page_def)
      then have "fresh_page S sp q (Some (f, PageTableFlags_bitor fl PageTableFlags_PRESENT)) m m3"
        unfolding fresh_page_def using c(1) tr Inr mem z(4,7) by auto
      moreover have "memory m3 f = (\<lambda>_. 0)" using mem3 [OF c(2)] by (simp add: zero_frame_def)
      ultimately show ?thesis using some(1,3) m3(1) Inr by (simp add: map_zeroed_page_def)
    qed
  qed
qed

text \<open>Taking a page away.\<close>

definition page_gone :: "PhysFrame set \<Rightarrow> AddressSpace \<Rightarrow> Page \<Rightarrow> Machine \<Rightarrow> Machine \<Rightarrow> bool" where
  "page_gone S sp q m m' \<longleftrightarrow>
     cow_inv m' S \<and> tables m' S = tables m S \<and>
     (\<forall>sp' q'. p4_frame sp' \<in> S \<and> Page_wf q' \<longrightarrow> AddressSpace_translate sp' q' m' =
        (if sp' = sp \<and> q' = q then None else AddressSpace_translate sp' q' m)) \<and>
     (\<forall>f. f \<notin> tables m S \<longrightarrow> memory m' f = memory m f)"

lemma page_gone_mappings:
  assumes "page_gone S sp q m m'" "p4_frame sp \<in> S" "user_page q"
  shows "mappings m' S f = mappings m S f - {(sp, q)}"
  using mappings_remap [of S m' sp q None m f] assms by (simp add: page_gone_def)

lemma cow_inv_unmap:
  assumes inv: "cow_inv m S" and sp: "p4_frame sp \<in> S" "user_page q" and old: "AddressSpace_translate sp q m = Some (f, fl)"
    and post: "remap_post S sp q None m m1"
    and X: "shared_inv (m1\<lparr>shared_user_frames := X\<rparr>)" "refs (m1\<lparr>shared_user_frames := X\<rparr>) = (refs m)(f := max 1 (refs m f - 1))"
  shows "page_gone S sp q m (m1\<lparr>shared_user_frames := X\<rparr>)" (is "page_gone S sp q m ?m")
proof -
  have p: "vm_inv m1 S" "tables m1 S = tables m S" "frame_allocator m1 = frame_allocator m"
      "\<forall>sp' q'. p4_frame sp' \<in> S \<and> Page_wf q' \<longrightarrow> AddressSpace_translate sp' q' m1 =
        (if sp' = sp \<and> q' = q then None else AddressSpace_translate sp' q' m)" "\<forall>f. f \<notin> tables m S \<longrightarrow> memory m1 f = memory m f"
    using post unfolding remap_post_def by blast+
  have same: "vm_inv ?m S = vm_inv m1 S" "tables ?m S = tables m1 S" "AddressSpace_translate sp' q' ?m = AddressSpace_translate sp' q' m1"
      "frame_free ?m = frame_free m1" for sp' q' by (rule vm_same; simp)+
  have maps: "mappings ?m S g = mappings m S g - {(sp, q)}" for g
    using mappings_remap [of S ?m sp q None m g] p(4) sp same(3) by simp
  have in': "(sp, q) \<in> mappings m S f" using sp old by (auto simp: mappings_def)
  have card: "card (mappings ?m S g) \<le> refs ?m g" for g
  proof (cases "g = f")
    case True
    then have "card (mappings ?m S g) = card (mappings m S f) - 1" unfolding maps using in' by simp
    then show ?thesis using cow_invD(4) [OF inv, of f] X(2) True by simp
  next
    case False
    have "card (mappings ?m S g) \<le> card (mappings m S g)" unfolding maps by (rule card_mono [OF cow_invD(5) [OF inv]]) blast
    then show ?thesis using cow_invD(4) [OF inv, of g] X(2) False by simp
  qed
  have "\<not> frame_free ?m g \<and> g \<notin> tables ?m S" if "mappings ?m S g \<noteq> {}" for g
  proof -
    have "mappings m S g \<noteq> {}" using that unfolding maps by blast
    then show ?thesis using cow_invD(6,7) [OF inv] same(2,4) p(2) alloc_same(2) [OF p(3)] by simp
  qed
  then have "cow_inv ?m S" using p(1) X(1) same(1) card cow_invD(2) [OF inv] by (simp add: cow_inv_def)
  then show ?thesis using p(2,4,5) same by (simp add: page_gone_def)
qed

lemma release_page_spec:
  assumes inv: "cow_inv m S" and sp: "p4_frame sp \<in> S" "user_page q"
  shows "\<exists>m'. release_page sp q m = Some m' \<and> page_gone S sp q m m'"
proof -
  note vm = cow_invD(1,3) [OF inv]
  have up: "Page_wf q" "page_addr q \<le> USER_MAX" using sp(2) by (simp_all add: user_page_def)
  show ?thesis
  proof (cases "AddressSpace_translate sp q m")
    case None
    then have "release_page sp q m = Some m" using unmap_spec [OF vm(1) sp(1) up] by (simp add: release_page_def)
    then show ?thesis using inv None by (auto simp: page_gone_def)
  next
    case (Some x)
    obtain f fl where x: "x = (f, fl)" by (cases x)
    note old = Some [unfolded x]
    obtain m1 where m1: "AddressSpace_unmap sp q m = (Inr f, m1)" "remap_post S sp q None m m1"
      using unmap_spec [OF vm(1) sp(1) up] old by auto
    have sh: "shared_inv m1" "refs m1 = refs m" using refs_same [of m1 m] m1(2) vm(2) by (simp_all add: remap_post_def)
    obtain X where X: "release_user_frame f m1 = (refs m1 f = 1, m1\<lparr>shared_user_frames := X\<rparr>)"
        "shared_inv (m1\<lparr>shared_user_frames := X\<rparr>)" "refs (m1\<lparr>shared_user_frames := X\<rparr>) = (refs m1)(f := max 1 (refs m1 f - 1))"
      by (rule release_frame_spec [OF sh(1), of f])
    let ?m2 = "m1\<lparr>shared_user_frames := X\<rparr>"
    have gone: "page_gone S sp q m ?m2" by (rule cow_inv_unmap [OF inv sp old m1(2) X(2)]) (use X(3) sh(2) in simp)
    show ?thesis
    proof (cases "refs m f = 1")
      case False
      then show ?thesis using gone m1(1) X(1) sh(2) by (simp add: release_page_def free_user_frame_def)
    next
      case True
      have in': "(sp, q) \<in> mappings m S f" using sp old by (auto simp: mappings_def)
      then have "mappings m S f = {(sp, q)}" using cow_invD(4,5) [OF inv, of f] True by (auto simp: card_le_Suc0_iff_eq)
      then have none: "mappings ?m2 S f = {}" using page_gone_mappings [OF gone sp] by simp
      have inv2: "cow_inv ?m2 S" "tables ?m2 S = tables m S" using gone by (simp_all add: page_gone_def)
      have nt: "f \<notin> tables ?m2 S" using cow_invD(7) [OF inv, of f] in' inv2(2) by auto
      obtain m3 A where m3: "free_frame f ?m2 = Some m3" "frees A ?m2 m3" "A \<subseteq> {f}"
        using free_frame_any [of ?m2 f] cow_invD(1) [OF inv2(1)] mapped_frame_ok(1) [OF vm(1) sp old] by (auto simp: vm_inv_def)
      then have A: "\<forall>f\<in>A. f \<notin> tables ?m2 S \<and> mappings ?m2 S f = {}" using nt none by blast
      note free = cow_inv_free [OF inv2(1) m3(2) A]
      have "memory m3 = memory ?m2" using m3(2) by (auto simp: frees_def)
      then have "page_gone S sp q m m3" using gone free by (simp add: page_gone_def)
      then show ?thesis using m1(1) X(1) sh(2) True m3(1) by (auto simp: release_page_def free_user_frame_def)
    qed
  qed
qed

text \<open>Ending a process.\<close>

definition others_kept :: "PhysFrame set \<Rightarrow> PhysFrame \<Rightarrow> Machine \<Rightarrow> Machine \<Rightarrow> bool" where
  "others_kept S r m m' \<longleftrightarrow>
     (\<forall>sp q. p4_frame sp \<in> S - {r} \<and> Page_wf q \<longrightarrow> AddressSpace_translate sp q m' = AddressSpace_translate sp q m) \<and>
     (\<forall>f. f \<notin> tables m S \<longrightarrow> memory m' f = memory m f)"

lemma release_pages_spec:
  assumes "cow_inv m S" "p4_frame sp \<in> S" "\<forall>q\<in>set pages. user_page q"
  shows "\<exists>m'. for_each (\<lambda>m page. release_page sp page m) m pages = Some m' \<and> cow_inv m' S \<and> tables m' S = tables m S \<and>
    others_kept S (p4_frame sp) m m' \<and>
    (\<forall>q. user_page q \<longrightarrow> AddressSpace_translate sp q m' = (if q \<in> set pages then None else AddressSpace_translate sp q m))"
  using assms
proof (induction pages arbitrary: m)
  case Nil
  then show ?case by (simp add: others_kept_def)
next
  case (Cons q pages)
  obtain m1 where m1: "release_page sp q m = Some m1" "page_gone S sp q m m1" using release_page_spec [of m S sp q] Cons.prems by auto
  have g: "cow_inv m1 S" "tables m1 S = tables m S" using m1(2) by (simp_all add: page_gone_def)
  obtain m2 where m2: "for_each (\<lambda>m page. release_page sp page m) m1 pages = Some m2" "cow_inv m2 S" "tables m2 S = tables m1 S"
      "others_kept S (p4_frame sp) m1 m2"
      "\<forall>q. user_page q \<longrightarrow> AddressSpace_translate sp q m2 = (if q \<in> set pages then None else AddressSpace_translate sp q m1)"
    using Cons.IH [OF g(1)] Cons.prems by auto
  have "others_kept S (p4_frame sp) m m2"
    using m1(2) m2(4) g(2) by (auto simp: others_kept_def page_gone_def)
  moreover have "AddressSpace_translate sp q' m2 = (if q' \<in> set (q # pages) then None else AddressSpace_translate sp q' m)" if "user_page q'" for q'
    using m1(2) m2(5) that Cons.prems(2) by (auto simp: page_gone_def user_page_def)
  ultimately show ?case using m1(1) m2(1-3) g(2) by simp
qed

lemma cow_inv_drop:
  assumes inv: "cow_inv m S" and r: "r \<in> S" and d: "space_dropped S r m m'"
  shows "cow_inv m' (S - {r})" "mappings m' (S - {r}) f = mappings m S f - {x. p4_frame (fst x) = r}"
proof -
  have p: "vm_inv m' (S - {r})" "tables m' (S - {r}) = tables m (S - {r})" "shared_user_frames m' = shared_user_frames m"
      "\<forall>sp q. p4_frame sp \<in> S - {r} \<longrightarrow> AddressSpace_translate sp q m' = AddressSpace_translate sp q m"
      "\<forall>g. frame_ok g \<longrightarrow> frame_free m' g = (frame_free m g \<or> g \<in> user_tables m r)"
    using d unfolding space_dropped_def by blast+
  show maps: "mappings m' (S - {r}) f = mappings m S f - {x. p4_frame (fst x) = r}" for f
    using p(4) by (auto simp: mappings_def)
  have "\<not> frame_free m' f \<and> f \<notin> tables m' (S - {r})" if "mappings m' (S - {r}) f \<noteq> {}" for f
  proof -
    have ne: "mappings m S f \<noteq> {}" using that unfolding maps by blast
    then have "frame_ok f" using mapped_frame_ok(1) [OF cow_invD(1) [OF inv]] by (auto simp: mappings_def)
    moreover have "tables m (S - {r}) \<subseteq> tables m S" "user_tables m r \<subseteq> tables m S" using r by (auto simp: tables_def user_tables_def)
    ultimately show ?thesis using cow_invD(6,7) [OF inv ne] p(2,5) by auto
  qed
  moreover have "card (mappings m' (S - {r}) f) \<le> refs m' f" for f
  proof -
    have "card (mappings m' (S - {r}) f) \<le> card (mappings m S f)" unfolding maps by (rule card_mono [OF cow_invD(5) [OF inv]]) blast
    then show ?thesis using cow_invD(4) [OF inv, of f] refs_same [OF p(3)] by simp
  qed
  ultimately show "cow_inv m' (S - {r})"
    using p(1) cow_invD(2,3) [OF inv] refs_same [OF p(3)] by (simp add: cow_inv_def)
qed

lemma destroy_image_spec:
  assumes inv: "cow_inv m S" and sp: "p4_frame sp \<in> S" and q: "\<forall>q\<in>set pages. user_page q"
  shows "\<exists>m'. destroy_image sp pages m = Some m' \<and> cow_inv m' (S - {p4_frame sp}) \<and> others_kept S (p4_frame sp) m m'"
proof -
  obtain m1 where m1: "for_each (\<lambda>m page. release_page sp page m) m pages = Some m1" "cow_inv m1 S" "tables m1 S = tables m S"
      "others_kept S (p4_frame sp) m m1"
    using release_pages_spec [OF inv sp q] by blast
  obtain m2 where m2: "AddressSpace_destroy sp (clear_kernel_half sp m1) = Some m2" "space_dropped S (p4_frame sp) m1 m2"
    using drop_space [OF cow_invD(1) [OF m1(2)] sp] by blast
  have "p4_frame sp \<in> tables m S" by (rule tablesI [OF sp, of "[]"]) (simp_all add: path_ok_def)
  then have "memory m2 f = memory m f" if "f \<notin> tables m S" for f
    using m1(4) m2(2) that unfolding others_kept_def space_dropped_def by metis
  then have "others_kept S (p4_frame sp) m m2"
    using m1(4) m2(2) unfolding others_kept_def space_dropped_def by simp
  then show ?thesis using m1(1) m2(1) cow_inv_drop(1) [OF m1(2) sp m2(2)] by (simp add: destroy_image_def)
qed

subsection \<open>The states of user memory\<close>

type_synonym vm_state = "Machine \<times> PhysFrame set"

text \<open>A store of a user program into the frame behind a writable page.\<close>

definition user_store :: "PhysFrame \<Rightarrow> nat \<Rightarrow> u64 \<Rightarrow> Machine \<Rightarrow> Machine" where
  "user_store f i v m = m\<lparr>memory := (memory m)(f := (memory m f)(i := v))\<rparr>"

inductive vm_step :: "vm_state \<Rightarrow> vm_state \<Rightarrow> bool" where
  create: "AddressSpace_new_empty m = Some (Inr sp, m') \<Longrightarrow> vm_step (m, S) (m', insert (p4_frame sp) S)"
| create_from: "AddressSpace_new_empty m = Some (Inr sp, m') \<Longrightarrow> p4_frame active \<in> S \<Longrightarrow>
    vm_step (m, S) (copy_kernel_half active sp m', insert (p4_frame sp) S)"
| map_page: "p4_frame sp \<in> S \<Longrightarrow> Page_wf q \<Longrightarrow> flags_ok fl \<Longrightarrow> map_zeroed_page sp q fl m = Some (res, m') \<Longrightarrow>
    vm_step (m, S) (m', S)"
| unmap_page: "p4_frame sp \<in> S \<Longrightarrow> user_page q \<Longrightarrow> release_page sp q m = Some m' \<Longrightarrow> vm_step (m, S) (m', S)"
| fork: "p4_frame sp \<in> S \<Longrightarrow> AddressSpace_fork sp m = Some (Inr child, m') \<Longrightarrow> vm_step (m, S) (m', insert (p4_frame child) S)"
| fork_fails: "p4_frame sp \<in> S \<Longrightarrow> AddressSpace_fork sp m = Some (Inl e, m') \<Longrightarrow> vm_step (m, S) (m', S)"
| fault: "p4_frame sp \<in> S \<Longrightarrow> user_page q \<Longrightarrow> AddressSpace_resolve_cow_fault sp q m = Some (res, m') \<Longrightarrow> vm_step (m, S) (m', S)"
| store: "p4_frame sp \<in> S \<Longrightarrow> user_page q \<Longrightarrow> AddressSpace_translate sp q m = Some (f, fl) \<Longrightarrow>
    PageTableFlags_contains fl PageTableFlags_WRITABLE \<Longrightarrow> vm_step (m, S) (user_store f i v m, S)"
| exit: "p4_frame sp \<in> S \<Longrightarrow> \<forall>q\<in>set pages. user_page q \<Longrightarrow> destroy_image sp pages m = Some m' \<Longrightarrow>
    vm_step (m, S) (m', S - {p4_frame sp})"

inductive_cases vm_stepE: "vm_step (m, S) (m', S')"

text \<open>A page that can be written is the only one that maps its frame.\<close>

definition isolated :: "Machine \<Rightarrow> PhysFrame set \<Rightarrow> bool" where
  "isolated m S \<longleftrightarrow> (\<forall>sp q f fl. p4_frame sp \<in> S \<and> user_page q \<and> AddressSpace_translate sp q m = Some (f, fl) \<and>
     PageTableFlags_contains fl PageTableFlags_WRITABLE \<longrightarrow> mappings m S f = {(sp, q)})"

definition vm_ok :: "vm_state \<Rightarrow> bool" where
  "vm_ok s \<longleftrightarrow> cow_inv (fst s) (snd s) \<and> isolated (fst s) (snd s)"

lemma isolatedD:
  assumes "isolated m S" "p4_frame sp \<in> S" "user_page q" "AddressSpace_translate sp q m = Some (f, fl)"
    "PageTableFlags_contains fl PageTableFlags_WRITABLE"
  shows "mappings m S f = {(sp, q)}"
  using assms unfolding isolated_def by blast

text \<open>
  Isolation is kept when each page that is writable afterwards either was already, with its frame mapped by
  no new page, or has its frame to itself.
\<close>

lemma isolatedI:
  assumes iso: "isolated m S"
    and step: "\<And>sp q f fl. p4_frame sp \<in> S' \<Longrightarrow> user_page q \<Longrightarrow> AddressSpace_translate sp q m' = Some (f, fl) \<Longrightarrow>
      PageTableFlags_contains fl PageTableFlags_WRITABLE \<Longrightarrow>
      mappings m' S' f = {(sp, q)} \<or>
      p4_frame sp \<in> S \<and> AddressSpace_translate sp q m = Some (f, fl) \<and> mappings m' S' f \<subseteq> mappings m S f"
  shows "isolated m' S'"
  unfolding isolated_def
proof (intro allI impI)
  fix sp q f fl assume a: "p4_frame sp \<in> S' \<and> user_page q \<and> AddressSpace_translate sp q m' = Some (f, fl) \<and>
     PageTableFlags_contains fl PageTableFlags_WRITABLE"
  then have "(sp, q) \<in> mappings m' S' f" by (auto simp: mappings_def)
  moreover have "mappings m' S' f = {(sp, q)} \<or> mappings m' S' f \<subseteq> {(sp, q)}"
    using step [of sp q f fl] isolatedD [OF iso, of sp q f fl] a by auto
  ultimately show "mappings m' S' f = {(sp, q)}" by auto
qed

lemma space_added_ok:
  assumes ok: "vm_ok (m, S)" and add: "space_added S m c m'"
  shows "vm_ok (m', insert c S)"
proof -
  have inv: "cow_inv m S" and iso: "isolated m S" using ok by (simp_all add: vm_ok_def)
  have a: "vm_inv m' S" "new_root m' S c" "frame_free m c" "shared_user_frames m' = shared_user_frames m"
      "\<forall>sp q. p4_frame sp \<in> S \<longrightarrow> AddressSpace_translate sp q m' = AddressSpace_translate sp q m"
      "\<forall>f. frame_ok f \<longrightarrow> frame_free m' f = (frame_free m f \<and> f \<noteq> c)" "\<forall>r\<in>S. \<forall>p. path_ok 3 p \<longrightarrow> table_at m' r p = table_at m r p"
    using add unfolding space_added_def by blast+
  note sp = add_space [OF a(1,2)]
  have root: "p4_frame sp = c \<longleftrightarrow> sp = AddressSpace c" for sp by (metis AddressSpace.collapse AddressSpace.sel)
  have maps: "mappings m' (insert c S) f = mappings m S f" for f
    using a(5) sp(3) new_root_def [of m' S c] a(2) tablesI [of c S "[]" m' c] by (auto simp: mappings_def root path_ok_def)
  have tab: "tables m' S = tables m S"
    unfolding tables_def using a(7) by (intro Collect_cong bex_cong refl ex_cong1 conj_cong) simp
  have "\<not> frame_free m' f \<and> f \<notin> tables m' (insert c S)" if "mappings m' (insert c S) f \<noteq> {}" for f
  proof -
    have ne: "mappings m S f \<noteq> {}" using that maps by simp
    then have "frame_ok f" using mapped_frame_ok(1) [OF cow_invD(1) [OF inv]] by (auto simp: mappings_def)
    then show ?thesis using cow_invD(6,7) [OF inv ne] a(3,6) sp(2) tab by auto
  qed
  then have "cow_inv m' (insert c S)"
    using sp(1) cow_invD [OF inv] refs_same [OF a(4)] by (simp add: cow_inv_def maps)
  moreover have "isolated m' (insert c S)"
    by (rule isolatedI [OF iso]) (use a(5) sp(3) maps root in auto)
  ultimately show ?thesis by (simp add: vm_ok_def)
qed

lemma create_space_ok:
  assumes ok: "vm_ok (m, S)" and new: "AddressSpace_new_empty m = Some (Inr sp, m')"
  shows "vm_ok (m', insert (p4_frame sp) S)"
    "p4_frame active \<in> S \<Longrightarrow> vm_ok (copy_kernel_half active sp m', insert (p4_frame sp) S)"
proof -
  have "vm_inv m S" using ok cow_invD(1) by (auto simp: vm_ok_def)
  then obtain c where c: "sp = AddressSpace c" "space_added S m c m'"
    by (cases rule: new_empty_cases) (use new in auto)
  show "vm_ok (m', insert (p4_frame sp) S)" using space_added_ok [OF ok c(2)] c(1) by simp
  show "vm_ok (copy_kernel_half active sp m', insert (p4_frame sp) S)" if "p4_frame active \<in> S"
    using space_added_ok [OF ok copy_kernel_half_added(1) [OF c(2) that]] c(1) by simp
qed

lemma map_page_ok:
  assumes ok: "vm_ok (m, S)" and sp: "p4_frame sp \<in> S" "Page_wf q" "flags_ok fl" and run: "map_zeroed_page sp q fl m = Some (res, m')"
  shows "vm_ok (m', S)"
proof -
  have inv: "cow_inv m S" and iso: "isolated m S" using ok by (simp_all add: vm_ok_def)
  obtain new where fresh: "fresh_page S sp q new m m'"
    using map_zeroed_page_spec [OF inv sp] run by (auto split: sum.splits)
  then have f: "cow_inv m' S" "\<forall>sp' q'. p4_frame sp' \<in> S \<and> Page_wf q' \<longrightarrow> AddressSpace_translate sp' q' m' =
      (if new \<noteq> None \<and> sp' = sp \<and> q' = q then new else AddressSpace_translate sp' q' m)"
      "\<forall>f fl. new = Some (f, fl) \<longrightarrow> mappings m S f = {} \<and> user_page q \<and> AddressSpace_translate sp q m = None"
    unfolding fresh_page_def by blast+
  have maps: "mappings m' S g = (if \<exists>fl. new = Some (g, fl) then {(sp, q)} else mappings m S g)" for g
  proof (cases new)
    case None
    then show ?thesis using f(2) by (auto simp: mappings_def user_page_def)
  next
    case (Some x)
    then have "user_page q" "AddressSpace_translate sp q m = None" using f(3) by (cases x; simp)+
    then show ?thesis using mappings_remap [of S m' sp q new m g] f(2,3) Some sp(1) by (auto simp: mappings_def)
  qed
  have "isolated m' S"
  proof (rule isolatedI [OF iso])
    fix sp' q' g gl assume p: "p4_frame sp' \<in> S" "user_page q'" "AddressSpace_translate sp' q' m' = Some (g, gl)"
    show "mappings m' S g = {(sp', q')} \<or>
        p4_frame sp' \<in> S \<and> AddressSpace_translate sp' q' m = Some (g, gl) \<and> mappings m' S g \<subseteq> mappings m S g"
    proof (cases "new \<noteq> None \<and> sp' = sp \<and> q' = q")
      case True
      then have "new = Some (g, gl)" using f(2) p by (simp add: user_page_def)
      then show ?thesis using maps [of g] True by simp
    next
      case False
      then have old: "AddressSpace_translate sp' q' m = Some (g, gl)" using f(2) p by (auto simp: user_page_def)
      then have "(sp', q') \<in> mappings m S g" using p by (auto simp: mappings_def)
      then show ?thesis using maps [of g] f(3) old p(1) by auto
    qed
  qed
  then show ?thesis using f(1) by (simp add: vm_ok_def)
qed

lemma unmap_page_ok:
  assumes ok: "vm_ok (m, S)" and sp: "p4_frame sp \<in> S" "user_page q" and run: "release_page sp q m = Some m'"
  shows "vm_ok (m', S)"
proof -
  have inv: "cow_inv m S" and iso: "isolated m S" using ok by (simp_all add: vm_ok_def)
  have g: "page_gone S sp q m m'" using release_page_spec [OF inv sp] run by simp
  have "isolated m' S"
    by (rule isolatedI [OF iso])
      (use g page_gone_mappings [OF g sp] in \<open>auto simp: page_gone_def user_page_def split: if_split_asm\<close>)
  then show ?thesis using g by (simp add: vm_ok_def page_gone_def)
qed

lemma cow_shared_not_writable: "\<not> PageTableFlags_contains (cow_shared_flags fl) PageTableFlags_WRITABLE"
  by (auto simp: cow_shared_flags_def flag_bits)

lemma fork_ok:
  assumes ok: "vm_ok (m, S)" and sp: "p4_frame sp \<in> S" and run: "AddressSpace_fork sp m = Some (Inr child, m')"
  shows "vm_ok (m', insert (p4_frame child) S)"
proof -
  have inv: "cow_inv m S" and iso: "isolated m S" using ok by (simp_all add: vm_ok_def)
  let ?c = "p4_frame child"
  have post: "fork_post S sp m ?c m'" using fork_spec [OF inv sp] run by auto
  then have p: "?c \<notin> S" "cow_inv m' (insert ?c S)"
      "\<And>q. user_page q \<Longrightarrow> AddressSpace_translate sp q m' = forked (AddressSpace_translate sp q m)"
      "\<And>q. user_page q \<Longrightarrow> AddressSpace_translate (AddressSpace ?c) q m' = forked (AddressSpace_translate sp q m)"
      "\<And>sp' q. p4_frame sp' \<in> S \<Longrightarrow> user_page q \<Longrightarrow> sp' \<noteq> sp \<Longrightarrow> AddressSpace_translate sp' q m' = AddressSpace_translate sp' q m"
    unfolding fork_post_def by (auto simp: user_page_def)
  have maps: "mappings m' (insert ?c S) f = mappings m S f \<union> (\<lambda>q. (AddressSpace ?c, q)) ` pages_of m sp f" for f
    by (rule fork_mappings [OF _ p(4) sp p(1)]) (use p(3,5) in auto)
  have "isolated m' (insert ?c S)"
  proof (rule isolatedI [OF iso])
    fix sp' q f fl assume a: "p4_frame sp' \<in> insert ?c S" "user_page q" "AddressSpace_translate sp' q m' = Some (f, fl)"
      "PageTableFlags_contains fl PageTableFlags_WRITABLE"
    have "forked t \<noteq> Some (f, fl)" for t using a(4) cow_shared_not_writable by (auto simp: forked_def)
    then have "sp' \<noteq> sp" "sp' \<noteq> AddressSpace ?c" using a(2,3) p(3,4) by auto
    then have "p4_frame sp' \<noteq> ?c" by (metis AddressSpace.collapse)
    then have other: "p4_frame sp' \<in> S" "AddressSpace_translate sp' q m = Some (f, fl)"
      using a p(5) \<open>sp' \<noteq> sp\<close> by auto
    then have "mappings m S f = {(sp', q)}" using isolatedD [OF iso] a by blast
    then have "pages_of m sp f = {}" using sp \<open>sp' \<noteq> sp\<close> by (auto simp: pages_of_def mappings_def)
    then show "mappings m' (insert ?c S) f = {(sp', q)} \<or>
        p4_frame sp' \<in> S \<and> AddressSpace_translate sp' q m = Some (f, fl) \<and> mappings m' (insert ?c S) f \<subseteq> mappings m S f"
      using maps [of f] other by simp
  qed
  then show ?thesis using p(2) by (simp add: vm_ok_def)
qed

lemma fork_fails_ok:
  assumes ok: "vm_ok (m, S)" and sp: "p4_frame sp \<in> S" and run: "AddressSpace_fork sp m = Some (Inl e, m')"
  shows "vm_ok (m', S)"
proof -
  have inv: "cow_inv m S" and iso: "isolated m S" using ok by (simp_all add: vm_ok_def)
  have r: "restored S m m'" "cow_inv m' S" using fork_spec [OF inv sp] run by auto
  have maps: "mappings m' S f = mappings m S f" for f using r(1) by (auto simp: mappings_def restored_def user_page_def)
  have "isolated m' S" by (rule isolatedI [OF iso]) (use r(1) maps in \<open>auto simp: restored_def user_page_def\<close>)
  then show ?thesis using r(2) by (simp add: vm_ok_def)
qed

lemma fault_ok:
  assumes ok: "vm_ok (m, S)" and sp: "p4_frame sp \<in> S" "user_page q" and run: "AddressSpace_resolve_cow_fault sp q m = Some (res, m')"
  shows "vm_ok (m', S)"
proof -
  have inv: "cow_inv m S" and iso: "isolated m S" using ok by (simp_all add: vm_ok_def)
  consider "m' = m" | fl where "fault_post S sp q fl m m'"
    using resolve_cow_fault_spec [OF inv sp] run by (auto split: if_split_asm)
  then show ?thesis
  proof cases
    case 2
    then obtain g where f: "cow_inv m' S" "AddressSpace_translate sp q m' = Some (g, split_flags fl)" "mappings m' S g = {(sp, q)}"
        "\<forall>sp' q'. p4_frame sp' \<in> S \<and> user_page q' \<and> (sp', q') \<noteq> (sp, q) \<longrightarrow>
          AddressSpace_translate sp' q' m' = AddressSpace_translate sp' q' m"
      unfolding fault_post_def by blast
    have "isolated m' S"
    proof (rule isolatedI [OF iso])
      fix sp' q' h hl assume a: "p4_frame sp' \<in> S" "user_page q'" "AddressSpace_translate sp' q' m' = Some (h, hl)"
      then have in': "(sp', q') \<in> mappings m' S h" by (auto simp: mappings_def)
      show "mappings m' S h = {(sp', q')} \<or>
          p4_frame sp' \<in> S \<and> AddressSpace_translate sp' q' m = Some (h, hl) \<and> mappings m' S h \<subseteq> mappings m S h"
      proof (cases "h = g")
        case True
        then show ?thesis using f(3) in' by auto
      next
        case False
        then have ne: "(sp', q') \<noteq> (sp, q)" using a(3) f(2) by auto
        moreover have "mappings m' S h \<subseteq> mappings m S h"
          using f(2,4) False by (auto simp: mappings_def) (metis Pair_inject option.inject)
        ultimately show ?thesis using f(4) a by auto
      qed
    qed
    then show ?thesis using f(1) by (simp add: vm_ok_def)
  qed (use ok in simp)
qed

end
