(* ===== verification/Memory_Isolation.thy ===== *)
theory Memory_Isolation
  imports Virtual_Memory
begin

text \<open>
  The composition of the memory operations of the kernel: spaces are created, pages are mapped, unmapped,
  forked, split on a write fault and written, and spaces are destroyed, in any order. Every state reached from
  an empty machine keeps the copy-on-write bookkeeping and lets a writable page share its frame with no other
  page, so that a store of one process is visible in no page of another.
\<close>

lemma store_ok:
  assumes ok: "vm_ok (m, S)" and sp: "p4_frame sp \<in> S" "user_page q" "AddressSpace_translate sp q m = Some (f, fl)"
  shows "vm_ok (user_store f i v m, S)"
    "\<And>sp q. p4_frame sp \<in> S \<Longrightarrow> AddressSpace_translate sp q (user_store f i v m) = AddressSpace_translate sp q m"
proof -
  have inv: "cow_inv m S" and iso: "isolated m S" using ok by (simp_all add: vm_ok_def)
  let ?m = "user_store f i v m"
  have "mappings m S f \<noteq> {}" using sp by (auto simp: mappings_def)
  then have "f \<notin> tables m S" using cow_invD(7) [OF inv] by blast
  then have mem: "\<forall>g\<in>tables m S. memory ?m g = memory m g" by (auto simp: user_store_def)
  have al: "alloc_inv ?m \<longleftrightarrow> alloc_inv m" "frame_taken ?m = frame_taken m" "frame_free ?m = frame_free m"
    by (auto simp: fun_eq_iff user_store_def alloc_inv_def frame_taken_def frame_free_def)
  have rf: "refs ?m = refs m" by (simp add: fun_eq_iff refs_def user_store_def)
  have sh: "shared_inv ?m" using cow_invD(3) [OF inv] by (simp add: shared_inv_def user_store_def)
  note out = cow_inv_outside [OF inv mem, unfolded al rf]
  have o: "cow_inv ?m S" "\<And>sp q. p4_frame sp \<in> S \<Longrightarrow> AddressSpace_translate sp q ?m = AddressSpace_translate sp q m"
      "\<And>g. mappings ?m S g = mappings m S g"
    using out [OF _ _ _ sh] cow_invD [OF inv] by (auto simp: vm_inv_def)
  have "isolated ?m S" by (rule isolatedI [OF iso]) (use o in auto)
  then show "vm_ok (?m, S)" using o(1) by (simp add: vm_ok_def)
  show "\<And>sp q. p4_frame sp \<in> S \<Longrightarrow> AddressSpace_translate sp q ?m = AddressSpace_translate sp q m" by (rule o(2))
qed

lemma exit_ok:
  assumes ok: "vm_ok (m, S)" and sp: "p4_frame sp \<in> S" "\<forall>q\<in>set pages. user_page q" and run: "destroy_image sp pages m = Some m'"
  shows "vm_ok (m', S - {p4_frame sp})"
proof -
  have inv: "cow_inv m S" and iso: "isolated m S" using ok by (simp_all add: vm_ok_def)
  have d: "cow_inv m' (S - {p4_frame sp})" "others_kept S (p4_frame sp) m m'" using destroy_image_spec [OF inv sp] run by auto
  then have kept: "p4_frame sp' \<in> S - {p4_frame sp} \<Longrightarrow> user_page q \<Longrightarrow> AddressSpace_translate sp' q m' = AddressSpace_translate sp' q m"
    for sp' q unfolding others_kept_def user_page_def by auto
  have "isolated m' (S - {p4_frame sp})"
    by (rule isolatedI [OF iso]) (use kept in \<open>auto simp: mappings_def\<close>)
  then show ?thesis using d(1) by (simp add: vm_ok_def)
qed

lemma vm_step_ok: "vm_step s s' \<Longrightarrow> vm_ok s \<Longrightarrow> vm_ok s'"
proof (induction rule: vm_step.induct)
  case create then show ?case using create_space_ok(1) by blast
next
  case create_from then show ?case using create_space_ok(2) by blast
next
  case map_page then show ?case using map_page_ok by blast
next
  case unmap_page then show ?case using unmap_page_ok by blast
next
  case fork then show ?case using fork_ok by blast
next
  case fork_fails then show ?case using fork_fails_ok by blast
next
  case fault then show ?case using fault_ok by blast
next
  case store then show ?case using store_ok(1) by blast
next
  case exit then show ?case using exit_ok by blast
qed

inductive vm_reach :: "Machine \<Rightarrow> vm_state \<Rightarrow> bool" for m0 where
  boot: "vm_reach m0 (m0, {})"
| step: "vm_reach m0 s \<Longrightarrow> vm_step s s' \<Longrightarrow> vm_reach m0 s'"

lemma vm_boot_ok:
  assumes "alloc_inv m" "shared_user_frames m = []"
  shows "vm_ok (m, {})"
  using assms
  by (auto simp: vm_ok_def cow_inv_def isolated_def vm_inv_def tree_inv_def small_inv_def frames_inv_def tables_def mappings_def shared_inv_def
      refs_def)

lemma vm_reach_ok:
  assumes "vm_reach m0 s" "alloc_inv m0" "shared_user_frames m0 = []"
  shows "vm_ok s"
  using assms by (induction rule: vm_reach.induct) (auto intro: vm_step_ok vm_boot_ok)

subsection \<open>A machine of sixteen frames\<close>

text \<open>The allocator whose bitmap is the word \<open>w\<close>, with \<open>n\<close> free frames and the next search at \<open>j\<close>.\<close>

definition paging_allocator :: "u64 \<Rightarrow> u64 \<Rightarrow> nat \<Rightarrow> BitmapFrameAllocator" where
  "paging_allocator w n j = sample_allocator\<lparr>bitmap := \<lparr>Bitmap_words = [w], Bitmap_len = 16\<rparr>, total_frames := 16, capacity_frames := 14,
     free_frames := n, next_frame := j, usable := [FrameSpan_new 1 16]\<rparr>"

definition sample_machine :: Machine where
  "sample_machine = \<lparr>memory = (\<lambda>_ _. 0), frame_allocator = Some (paging_allocator 3 14 2), shared_user_frames = [], heap_replies = [],
     hhdm_static = 0, shootdowns = []\<rparr>"

definition sample_page :: Page where
  "sample_page = Page (VirtAddr 0x400000)"

lemma paging_free:
  assumes "w = mask k"
  shows "free_set (paging_allocator w n j) = {k..<16}"
proof -
  have b: "Bitmap_bits (bitmap (paging_allocator w n j)) = {i. i < 16 \<and> i < k}"
    unfolding Bitmap_bits_def assms by (rule Collect_cong) (auto simp: paging_allocator_def bit_mask_iff)
  show ?thesis unfolding free_set_def b by (rule set_eqI) (simp add: paging_allocator_def, linarith)
qed

lemma paging_releasable: "releasable_set (paging_allocator w n j) = {2..<16}"
proof (rule set_eqI)
  fix i :: nat
  let ?a = "paging_allocator w n j"
  have f: "Bitmap_len (bitmap ?a) = 16" "heap_storage ?a = FrameSpan_new 0 0" "bitmap_storage ?a = FrameSpan_new 1 2"
      "usable ?a = [FrameSpan_new 1 16]" "released_bootloader ?a = []"
    by (simp_all add: paging_allocator_def sample_allocator_def FrameSpan_EMPTY_def FrameSpan_new_def)
  show "i \<in> releasable_set ?a \<longleftrightarrow> i \<in> {2..<16}"
  proof (cases "i < 16")
    case True
    then have "unat (of_nat i :: u64) = i" by (simp add: unat_of_nat)
    then have "(of_nat i :: u64) = 0 \<longleftrightarrow> i = 0" "(1 :: u64) \<le> of_nat i \<longleftrightarrow> 1 \<le> i" "(of_nat i :: u64) < 2 \<longleftrightarrow> i < 2" "(of_nat i :: u64) < 16 \<longleftrightarrow> i < 16"
      by (simp_all add: word_le_nat_alt word_less_nat_alt unat_eq_zero [symmetric])
    then show ?thesis using True
      by (auto simp: releasable_set_def f BitmapFrameAllocator_is_releasable_def FrameSpan_contains_def FrameSpan_new_def)
  qed (simp add: releasable_set_def f)
qed

lemma sample_machine_ok: "alloc_inv sample_machine" "shared_user_frames sample_machine = []" "heap_replies sample_machine = []"
proof -
  have "(3 :: u64) = mask 2" by (simp add: mask_eq_exp_minus_1)
  then have "allocator_inv (paging_allocator 3 14 2)"
    unfolding allocator_inv_def paging_releasable using paging_free [of 3 2 14 2]
    by (simp add: paging_allocator_def sample_allocator_def Bitmap_wf_def FrameSpan_new_def)
  then show "alloc_inv sample_machine" by (simp add: alloc_inv_def sample_machine_def) (simp add: paging_allocator_def)
qed (simp_all add: sample_machine_def)

lemma sample_page_ok: "user_page sample_page"
  by (simp add: user_page_def sample_page_def Page_wf_def VirtAddr_wf_def) code_simp

text \<open>The machine with one space in which the page is mapped with the given flags.\<close>

definition sample_run :: "PageTableFlags \<Rightarrow> (AddressSpace \<times> PhysFrame \<times> Machine) option" where
  "sample_run flags = (case AddressSpace_new_empty sample_machine of
       Some (Inr sp, m) \<Rightarrow>
         (case map_zeroed_page sp sample_page flags m of Some (Inr f, m') \<Rightarrow> Some (sp, f, m') | _ \<Rightarrow> None)
     | _ \<Rightarrow> None)"

lemma sample_run_maps:
  "(case sample_run (PageTableFlags 4) of None \<Rightarrow> False | Some (sp, f, m) \<Rightarrow>
      AddressSpace_translate sp sample_page m = Some (f, PageTableFlags 5) \<and> frame_allocator m = Some (paging_allocator 127 9 7) \<and>
      heap_replies m = [] \<and> shared_user_frames m = [])"
  "(case sample_run (PageTableFlags 6) of None \<Rightarrow> False | Some (sp, f, m) \<Rightarrow> AddressSpace_translate sp sample_page m = Some (f, PageTableFlags 7))"
  "(case sample_run (PageTableFlags 0x204) of None \<Rightarrow> False | Some (sp, f, m) \<Rightarrow>
      AddressSpace_translate sp sample_page m = Some (f, PageTableFlags 0x205) \<and> frame_allocator m = Some (paging_allocator 127 9 7))"
  by code_simp+

lemma sample_run_reach:
  assumes run: "sample_run flags = Some (sp, f, m)" and fl: "flags_ok flags"
  shows "vm_reach sample_machine (m, {p4_frame sp})"
proof -
  from run obtain m1 where m1: "AddressSpace_new_empty sample_machine = Some (Inr sp, m1)" "map_zeroed_page sp sample_page flags m1 = Some (Inr f, m)"
    by (auto simp: sample_run_def split: option.splits sum.splits)
  have "vm_reach sample_machine (m1, {p4_frame sp})" using vm_reach.step [OF vm_reach.boot vm_step.create [OF m1(1)]] by simp
  then show ?thesis
    by (rule vm_reach.step) (rule vm_step.map_page [OF _ _ fl m1(2)], use sample_page_ok in \<open>auto simp: user_page_def\<close>)
qed

text \<open>No other page is mapped.\<close>

lemma sample_run_only:
  assumes run: "sample_run flags = Some (sp, f, m)" and fl: "flags_ok flags" and q: "user_page q" "AddressSpace_translate sp q m \<noteq> None"
  shows "q = sample_page"
proof -
  from run obtain m1 where m1: "AddressSpace_new_empty sample_machine = Some (Inr sp, m1)" "map_zeroed_page sp sample_page flags m1 = Some (Inr f, m)"
    by (auto simp: sample_run_def split: option.splits sum.splits)
  have ok: "vm_ok (sample_machine, {})" by (rule vm_boot_ok [OF sample_machine_ok(1,2)])
  then have "vm_inv sample_machine {}" using cow_invD(1) by (auto simp: vm_ok_def)
  then obtain c where c: "sp = AddressSpace c" "space_added {} sample_machine c m1"
    by (cases rule: new_empty_cases) (use m1(1) in auto)
  then have none: "AddressSpace_translate sp q m1 = None" using add_space(3) q(1) by (auto simp: space_added_def)
  have inv: "cow_inv m1 {p4_frame sp}" using create_space_ok(1) [OF ok m1(1)] by (simp add: vm_ok_def)
  have "Page_wf sample_page" using sample_page_ok by (simp add: user_page_def)
  then have "fresh_page {p4_frame sp} sp sample_page (Some (f, PageTableFlags_bitor flags PageTableFlags_PRESENT)) m1 m"
    using map_zeroed_page_spec [OF inv _ _ fl, of sp sample_page] m1(2) by auto
  then have "AddressSpace_translate sp q m = (if q = sample_page then Some (f, PageTableFlags_bitor flags PageTableFlags_PRESENT) else AddressSpace_translate sp q m1)"
    using q(1) by (simp add: fresh_page_def user_page_def)
  then show ?thesis using none q(2) by (auto split: if_split_asm)
qed

lemma sample_mapped:
  obtains sp f m where "vm_reach sample_machine (m, {p4_frame sp})" "AddressSpace_translate sp sample_page m = Some (f, PageTableFlags 5)"
    "frame_allocator m = Some (paging_allocator 127 9 7)" "heap_replies m = []" "shared_user_frames m = []"
    "\<forall>q. user_page q \<and> AddressSpace_translate sp q m \<noteq> None \<longrightarrow> q = sample_page"
proof -
  have fl: "flags_ok (PageTableFlags 4)" by code_simp
  obtain sp f m where run: "sample_run (PageTableFlags 4) = Some (sp, f, m)" "AddressSpace_translate sp sample_page m = Some (f, PageTableFlags 5)"
      "frame_allocator m = Some (paging_allocator 127 9 7)" "heap_replies m = []" "shared_user_frames m = []"
    using sample_run_maps(1) by (auto split: option.splits)
  then show thesis using sample_run_reach [OF run(1) fl] sample_run_only [OF run(1) fl] that by blast
qed

lemma sample_writable:
  obtains sp f m where "vm_reach sample_machine (m, {p4_frame sp})" "AddressSpace_translate sp sample_page m = Some (f, PageTableFlags 7)"
proof -
  have "flags_ok (PageTableFlags 6)" by code_simp
  then show thesis using sample_run_maps(2) sample_run_reach that by (fastforce split: option.splits)
qed

lemma sample_marked:
  obtains sp f m where "vm_reach sample_machine (m, {p4_frame sp})" "AddressSpace_translate sp sample_page m = Some (f, PageTableFlags 0x205)"
    "frame_allocator m = Some (paging_allocator 127 9 7)"
proof -
  have "flags_ok (PageTableFlags 0x204)" by code_simp
  then show thesis using sample_run_maps(3) sample_run_reach that by (fastforce split: option.splits)
qed

lemma sample_cow: "vm_reach sample_machine s \<Longrightarrow> vm_ok s" "vm_reach sample_machine (m, S) \<Longrightarrow> cow_inv m S"
  using vm_reach_ok [OF _ sample_machine_ok(1,2)] by (auto simp: vm_ok_def dest: vm_reach_ok [OF _ sample_machine_ok(1,2)])

subsection \<open>Isolation of the reachable states\<close>

text \<open>
  C1. From a machine with a sound frame allocator and no shared frames, every sequence of creating, filling,
  forking, faulting, writing and destroying spaces keeps the page tables well formed, counts at least one
  reference for each mapping of a frame, and gives a page that can be written a frame that no other page of
  any space maps.
\<close>

theorem reachable_isolated:
  assumes "vm_reach m0 (m, S)" "alloc_inv m0" "shared_user_frames m0 = []"
  shows "cow_inv m S \<and>
    (\<forall>sp q f fl. p4_frame sp \<in> S \<and> user_page q \<and> AddressSpace_translate sp q m = Some (f, fl) \<and>
       PageTableFlags_contains fl PageTableFlags_WRITABLE \<longrightarrow> mappings m S f = {(sp, q)})"
  using vm_reach_ok [OF assms] by (simp add: vm_ok_def isolated_def)

theorem reachable_isolated_witness:
  "\<exists>sp f m. AddressSpace_translate sp sample_page m = Some (f, PageTableFlags 7) \<and> mappings m {p4_frame sp} f = {(sp, sample_page)}"
proof -
  obtain sp f m where r: "vm_reach sample_machine (m, {p4_frame sp})" "AddressSpace_translate sp sample_page m = Some (f, PageTableFlags 7)"
    by (rule sample_writable)
  have "PageTableFlags_contains (PageTableFlags 7) PageTableFlags_WRITABLE" by code_simp
  then have "mappings m {p4_frame sp} f = {(sp, sample_page)}"
    using reachable_isolated [OF r(1) sample_machine_ok(1,2)] r(2) sample_page_ok by blast
  then show ?thesis using r(2) by blast
qed

text \<open>
  C2. In every reachable state a store through a writable page changes the word stored in that page and the
  contents of no other page of any space.
\<close>

theorem store_private:
  assumes reach: "vm_reach m0 (m, S)" "alloc_inv m0" "shared_user_frames m0 = []"
    and w: "p4_frame sp \<in> S" "user_page q" "AddressSpace_translate sp q m = Some (f, fl)" "PageTableFlags_contains fl PageTableFlags_WRITABLE"
    and other: "p4_frame sp' \<in> S" "user_page q'"
  shows "page_contents sp' q' (user_store f i v m) =
    (if sp' = sp \<and> q' = q then map_option (\<lambda>c. c(i := v)) (page_contents sp q m) else page_contents sp' q' m)"
proof -
  have ok: "vm_ok (m, S)" by (rule vm_reach_ok [OF reach])
  have maps: "mappings m S f = {(sp, q)}" using isolatedD [OF _ w] ok by (simp add: vm_ok_def)
  have "fst t \<noteq> f" if "AddressSpace_translate sp' q' m = Some t" "\<not> (sp' = sp \<and> q' = q)" for t
  proof
    assume "fst t = f"
    then have "(sp', q') \<in> mappings m S f" using that(1) other by (cases t) (auto simp: mappings_def)
    then show False using maps that(2) by simp
  qed
  then show ?thesis
    using store_ok(2) [OF ok w(1,2,3) other(1), of q' i v] w(3)
    by (cases "AddressSpace_translate sp' q' m") (auto simp: page_contents_def user_store_def)
qed

theorem store_private_witness:
  "\<exists>sp f m. AddressSpace_translate sp sample_page m = Some (f, PageTableFlags 7) \<and>
     page_contents sp sample_page (user_store f 3 42 m) = map_option (\<lambda>c. c(3 := 42)) (page_contents sp sample_page m)"
proof -
  obtain sp f m where r: "vm_reach sample_machine (m, {p4_frame sp})" "AddressSpace_translate sp sample_page m = Some (f, PageTableFlags 7)"
    by (rule sample_writable)
  have "PageTableFlags_contains (PageTableFlags 7) PageTableFlags_WRITABLE" by code_simp
  then show ?thesis
    using store_private [OF r(1) sample_machine_ok(1,2) _ sample_page_ok r(2) _ _ sample_page_ok, of sp 3 42] r(2) by auto
qed

end
