(* ===== verification/Memory_Contract.thy ===== *)
theory Memory_Contract
  imports Memory_Isolation
begin

text \<open>
  What the operations of an address space promise their callers, over the page tables of all spaces:
  mapping, protecting and forking a page, resolving a write fault and destroying a space.
\<close>

lemma fork_accepted:
  assumes "cow_inv m S" "p4_frame P \<in> S" "\<not> fork_refused m P"
  obtains child m' where "AddressSpace_fork P m = Some (Inr child, m')" "fork_post S P m (p4_frame child) m'"
proof -
  obtain res m' where r: "AddressSpace_fork P m = Some (res, m')"
      "case res of Inl e \<Rightarrow> restored S m m' \<and> cow_inv m' S \<and> refs m' = refs m \<and> fork_refused m P | Inr child \<Rightarrow> fork_post S P m (p4_frame child) m'"
    using fork_spec [OF assms(1,2)] by blast
  then show thesis using assms(3) that by (cases res) auto
qed

lemma user_store_translate:
  assumes inv: "vm_inv m S" and f: "f \<notin> tables m S" and sp: "p4_frame sp \<in> S"
  shows "AddressSpace_translate sp q (user_store f i v m) = AddressSpace_translate sp q m"
proof -
  let ?m = "user_store f i v m"
  have "\<forall>g\<in>tables m S. \<forall>j. index j < 512 \<longrightarrow> PageTable_entry ?m g j = PageTable_entry m g j"
    using f by (auto simp: user_store_def PageTable_entry_def)
  moreover have "frame_allocator ?m = frame_allocator m" by (simp add: user_store_def)
  note al = alloc_same [OF this]
  ultimately show ?thesis using inv sp al by (intro outside_tables(3) [OF inv]) (simp_all add: vm_inv_def)
qed

text \<open>The sample space has room for a fork: nine frames are free, and its tables are among the five in use.\<close>

lemma sample_room:
  assumes inv: "vm_inv m {r}" and al: "frame_allocator m = Some (paging_allocator 127 9 7)"
  shows "card (user_tables m r) < card {f. frame_ok f \<and> frame_free m f}"
proof -
  let ?n = "\<lambda>f. unat (PhysFrame_number f)" and ?a = "paging_allocator 127 9 7"
  have free: "free_set ?a = {7..<16}" by (rule paging_free) (simp add: mask_eq_exp_minus_1)
  have inj: "inj_on ?n {f. frame_ok f}" by (rule inj_onI) (use frame_number_inject in \<open>auto simp: word_unat_eq_iff\<close>)
  have "?n ` user_tables m r \<subseteq> {2..<7}"
  proof (rule image_subsetI)
    fix f assume "f \<in> user_tables m r"
    then have "frame_taken m f" using inv by (auto simp: user_tables_def vm_inv_def frames_inv_def)
    then show "?n f \<in> {2..<7}" using al free paging_releasable by (auto simp: frame_taken_def)
  qed
  then have "card (?n ` user_tables m r) \<le> 5" using card_mono [of "{2..<7 :: nat}"] by fastforce
  moreover have "inj_on ?n (user_tables m r)"
    by (rule inj_on_subset [OF inj]) (use inv in \<open>auto simp: user_tables_def vm_inv_def frames_inv_def frame_taken_def\<close>)
  ultimately have tabs: "card (user_tables m r) \<le> 5" by (simp add: card_image)
  have "?n ` {f. frame_ok f \<and> frame_free m f} = {7..<16}"
  proof (intro set_eqI iffI)
    fix i :: nat assume i: "i \<in> {7..<16}"
    then have "i < 2 ^ 40" by simp
    note f = frame_from_index_ok [OF this] frame_number_from_index [OF this]
    then show "i \<in> ?n ` {f. frame_ok f \<and> frame_free m f}"
      using i al free by (intro image_eqI [of _ _ "frame_from_index (of_nat i)"]) (simp_all add: frame_free_def)
  qed (use al free in \<open>auto simp: frame_free_def\<close>)
  then have "card (?n ` {f. frame_ok f \<and> frame_free m f}) = 9" by simp
  moreover have "inj_on ?n {f. frame_ok f \<and> frame_free m f}" by (rule inj_on_subset [OF inj]) auto
  ultimately show ?thesis using tabs by (simp add: card_image)
qed

lemma sample_space:
  obtains sp f m where "cow_inv m {p4_frame sp}" "vm_inv m {p4_frame sp}" "AddressSpace_translate sp sample_page m = Some (f, PageTableFlags 5)"
    "user_page sample_page" "Page_wf sample_page" "p4_frame sp \<in> {p4_frame sp}" "card (user_tables m (p4_frame sp)) < card {f. frame_ok f \<and> frame_free m f}"
    "heap_replies m = []" "\<forall>q f fl. user_page q \<and> AddressSpace_translate sp q m = Some (f, fl) \<longrightarrow> PageTableFlags_contains fl PageTableFlags_USER"
    "\<forall>f. refs m f + card (pages_of m sp f) < 2 ^ 64"
proof -
  obtain sp f m where r: "vm_reach sample_machine (m, {p4_frame sp})" "AddressSpace_translate sp sample_page m = Some (f, PageTableFlags 5)"
      "frame_allocator m = Some (paging_allocator 127 9 7)" "heap_replies m = []" "shared_user_frames m = []"
      "\<forall>q. user_page q \<and> AddressSpace_translate sp q m \<noteq> None \<longrightarrow> q = sample_page"
    by (rule sample_mapped)
  have inv: "cow_inv m {p4_frame sp}" "vm_inv m {p4_frame sp}" using sample_cow(2) [OF r(1)] cow_invD(1) by auto
  have "PageTableFlags_contains (PageTableFlags 5) PageTableFlags_USER" by code_simp
  then have user: "PageTableFlags_contains fl PageTableFlags_USER" if "user_page q" "AddressSpace_translate sp q m = Some (f, fl)" for q f fl
    using r(2,6) that by auto
  have "refs m g + card (pages_of m sp g) < 2 ^ 64" for g
  proof -
    have "card (pages_of m sp g) \<le> 1" using card_mono [of "{sample_page}" "pages_of m sp g"] r(6) by (auto simp: pages_of_def)
    moreover have "refs m g = 1" using r(5) by (simp add: refs_def)
    ultimately show ?thesis by simp
  qed
  then show thesis
    by (intro that [OF inv r(2) sample_page_ok _ _ sample_room [OF inv(2) r(3)] r(4)])
      (use user sample_page_ok in \<open>auto simp: user_page_def\<close>)
qed

text \<open>
  C3. Forking never panics. A failed fork leaves every translation, every page, the free frames and the
  references as they were. A successful one adds a new space: parent and child translate every user page to
  the frame the parent used, read-only and marked for copying where it was writable; every page of every space
  keeps its contents; kernel pages are those of the parent; and each frame gains one reference per page of the
  parent that maps it.
\<close>

theorem fork_exact:
  assumes inv: "cow_inv m S" and P: "p4_frame P \<in> S"
  shows "\<exists>res m'. AddressSpace_fork P m = Some (res, m') \<and>
    (\<forall>sp q. p4_frame sp \<in> S \<and> user_page q \<longrightarrow> page_contents sp q m' = page_contents sp q m) \<and>
    (case res of
       Inl e \<Rightarrow> cow_inv m' S \<and> refs m' = refs m \<and> (\<forall>f. frame_ok f \<longrightarrow> frame_free m' f = frame_free m f) \<and>
         (\<forall>sp q. p4_frame sp \<in> S \<and> Page_wf q \<longrightarrow> AddressSpace_translate sp q m' = AddressSpace_translate sp q m)
     | Inr child \<Rightarrow> p4_frame child \<notin> S \<and> cow_inv m' (insert (p4_frame child) S) \<and>
         (\<forall>q. user_page q \<longrightarrow> AddressSpace_translate P q m' = forked (AddressSpace_translate P q m) \<and>
            AddressSpace_translate child q m' = forked (AddressSpace_translate P q m) \<and>
            page_contents child q m' = page_contents P q m) \<and>
         (\<forall>q. Page_wf q \<and> \<not> user_page q \<longrightarrow> AddressSpace_translate child q m' = AddressSpace_translate P q m) \<and>
         (\<forall>sp q. p4_frame sp \<in> S \<and> Page_wf q \<and> (sp \<noteq> P \<or> \<not> user_page q) \<longrightarrow>
            AddressSpace_translate sp q m' = AddressSpace_translate sp q m) \<and>
         (\<forall>f. refs m' f = refs m f + card (pages_of m P f)))"
proof -
  have owned: "\<not> frame_free m f \<and> f \<notin> tables m S" if "p4_frame sp \<in> S" "user_page q" "AddressSpace_translate sp q m = Some (f, fl)" for sp q f fl
    using that cow_invD(6,7) [OF inv, of f] by (auto simp: mappings_def)
  obtain res m' where r: "AddressSpace_fork P m = Some (res, m')"
      "case res of Inl e \<Rightarrow> restored S m m' \<and> cow_inv m' S \<and> refs m' = refs m \<and> fork_refused m P | Inr child \<Rightarrow> fork_post S P m (p4_frame child) m'"
    using fork_spec [OF inv P] by blast
  have mem: "memory m' f = memory m f" if "\<not> frame_free m f \<and> f \<notin> tables m S" for f
    using r(2) that by (cases res) (simp_all add: restored_def fork_post_def)
  have sh: "map_option (\<lambda>(f, fl). memory m' f) (forked t) = map_option (\<lambda>(f, fl). memory m f) t"
    if "\<And>f fl. t = Some (f, fl) \<Longrightarrow> memory m' f = memory m f" for t
    using that by (cases t) (auto simp: forked_def)
  have cont: "page_contents sp q m' = page_contents sp q m" if s: "p4_frame sp \<in> S" "user_page q" for sp q
  proof -
    have tr: "AddressSpace_translate sp q m' = AddressSpace_translate sp q m \<or> AddressSpace_translate sp q m' = forked (AddressSpace_translate sp q m)"
      using r(2) s by (cases res; cases "sp = P") (simp_all add: restored_def fork_post_def user_page_def)
    show ?thesis using tr mem owned [OF s] sh by (cases "AddressSpace_translate sp q m") (auto simp: page_contents_def forked_def)
  qed
  have child: "page_contents c q m' = page_contents P q m" if "user_page q" "AddressSpace_translate c q m' = forked (AddressSpace_translate P q m)" for c q
    unfolding page_contents_def that(2) using sh mem owned [OF P that(1)] by auto
  show ?thesis
    using r cont child by (intro exI [of _ res] exI [of _ m']) (auto simp: restored_def fork_post_def split: sum.splits)
qed

theorem fork_exact_witness:
  "\<exists>sp f m res m'. AddressSpace_translate sp sample_page m = Some (f, PageTableFlags 5) \<and> AddressSpace_fork sp m = Some (res, m') \<and>
     page_contents sp sample_page m' = page_contents sp sample_page m"
proof (rule sample_space)
  fix sp f m assume a: "cow_inv m {p4_frame sp}" "AddressSpace_translate sp sample_page m = Some (f, PageTableFlags 5)"
    "user_page sample_page" "p4_frame sp \<in> {p4_frame sp}"
  show ?thesis using fork_exact [OF a(1,4)] a(2,3) by blast
qed

text \<open>
  C4. A fork succeeds whenever more frames are free than the parent has tables in its user half, the heap grants every
  reservation, each page of the user half is a user page, and no reference count would reach \<open>2 ^ 64\<close>.
\<close>

theorem fork_succeeds:
  assumes "cow_inv m S" "p4_frame P \<in> S"
    and "card (user_tables m (p4_frame P)) < card {f. frame_ok f \<and> frame_free m f}" "False \<notin> set (heap_replies m)"
    and "\<forall>q f fl. user_page q \<and> AddressSpace_translate P q m = Some (f, fl) \<longrightarrow> PageTableFlags_contains fl PageTableFlags_USER"
    and "\<forall>f. refs m f + card (pages_of m P f) < 2 ^ 64"
  shows "\<exists>child m'. AddressSpace_fork P m = Some (Inr child, m') \<and> cow_inv m' (insert (p4_frame child) S)"
proof -
  have "\<not> fork_refused m P" using assms(3-) unfolding fork_refused_def not_le [symmetric] by blast
  then obtain child m' where "AddressSpace_fork P m = Some (Inr child, m')" "fork_post S P m (p4_frame child) m'"
    by (rule fork_accepted [OF assms(1,2)])
  then show ?thesis by (auto simp: fork_post_def)
qed

theorem fork_succeeds_witness:
  "\<exists>sp m child m'. AddressSpace_translate sp sample_page m \<noteq> None \<and> AddressSpace_fork sp m = Some (Inr child, m')"
proof (rule sample_space)
  fix sp f m assume a: "cow_inv m {p4_frame sp}" "AddressSpace_translate sp sample_page m = Some (f, PageTableFlags 5)"
    "p4_frame sp \<in> {p4_frame sp}" "card (user_tables m (p4_frame sp)) < card {f. frame_ok f \<and> frame_free m f}" "heap_replies m = []"
    "\<forall>q f fl. user_page q \<and> AddressSpace_translate sp q m = Some (f, fl) \<longrightarrow> PageTableFlags_contains fl PageTableFlags_USER"
    "\<forall>f. refs m f + card (pages_of m sp f) < 2 ^ 64"
  have "False \<notin> set (heap_replies m)" using a(5) by simp
  then show ?thesis using fork_succeeds [OF a(1,3,4) _ a(6,7)] a(2) by blast
qed

text \<open>
  C5. Fork shares a read-only page without marking it for copying. When its protection is then raised in the child, the
  child writes the frame that the parent still reads: a store of the child changes the page of the parent.
\<close>

theorem protect_after_fork_shares:
  assumes inv: "cow_inv m S" and P: "p4_frame P \<in> S" and q: "user_page q"
    and old: "AddressSpace_translate P q m = Some (f, fl)" "PageTableFlags_contains fl PageTableFlags_USER"
      "\<not> PageTableFlags_contains fl PageTableFlags_WRITABLE" "\<not> PageTableFlags_contains fl PageTableFlags_COPY_ON_WRITE"
      "\<not> PageTableFlags_contains fl PageTableFlags_HUGE_PAGE"
    and req: "flags_ok requested" "PageTableFlags_contains requested PageTableFlags_USER" "PageTableFlags_contains requested PageTableFlags_WRITABLE"
      "\<not> PageTableFlags_contains requested PageTableFlags_GLOBAL" "\<not> PageTableFlags_contains requested PageTableFlags_HUGE_PAGE"
    and fork: "AddressSpace_fork P m = Some (Inr child, m1)"
  shows "\<exists>m2 fl'. AddressSpace_protect_user child q requested m1 = (Inr (), m2) \<and>
    AddressSpace_translate child q m2 = Some (f, fl') \<and> PageTableFlags_contains fl' PageTableFlags_WRITABLE \<and>
    page_contents P q (user_store f i v m2) = Some ((memory m2 f)(i := v))"
proof -
  have post: "fork_post S P m (p4_frame child) m1" using fork_spec [OF inv P] fork by auto
  then have inv1: "vm_inv m1 (insert (p4_frame child) S)" and ne: "P \<noteq> child"
    using cow_invD(1) P by (auto simp: fork_post_def)
  have "forked (Some (f, fl)) = Some (f, fl)" using old(3) by (simp add: forked_def cow_shared_flags_def)
  then have tr: "AddressSpace_translate child q m1 = Some (f, fl)" "AddressSpace_translate P q m1 = Some (f, fl)"
    using post q old(1) by (simp_all add: fork_post_def)
  have pw: "Page_wf q" "\<not> page_addr q > USER_MAX" using q by (auto simp: user_page_def not_less)
  obtain m2 where m2: "AddressSpace_protect_user child q requested m1 = (Inr (), m2)"
      "remap_post (insert (p4_frame child) S) child q (Some (f, protected_flags requested fl)) m1 m2"
    using protect_user_spec [OF inv1 _ pw(1) req(1), of child] pw(2) tr(1) old(2,5) req(2,4,5)
    by (cases "AddressSpace_protect_user child q requested m1") auto
  have t2: "AddressSpace_translate child q m2 = Some (f, protected_flags requested fl)" "AddressSpace_translate P q m2 = Some (f, fl)"
    using m2(2) pw(1) P ne tr(2) by (simp_all add: remap_post_def)
  have w: "PageTableFlags_contains (protected_flags requested fl) PageTableFlags_WRITABLE"
    using req(3) old(4) by (simp add: protected_flags_def Let_def flag_bits bit_or_iff)
  have "vm_inv m2 (insert (p4_frame child) S)" "tables m2 (insert (p4_frame child) S) = tables m1 (insert (p4_frame child) S)"
    using m2(2) by (simp_all add: remap_post_def)
  moreover have "mappings m1 (insert (p4_frame child) S) f \<noteq> {}" using tr(1) q by (auto simp: mappings_def)
  then have "f \<notin> tables m1 (insert (p4_frame child) S)" using post cow_invD(7) by (auto simp: fork_post_def)
  ultimately have "AddressSpace_translate P q (user_store f i v m2) = Some (f, fl)"
    using user_store_translate [of m2 _ f P q i v] P t2(2) by simp
  then have "page_contents P q (user_store f i v m2) = Some ((memory m2 f)(i := v))" by (simp add: page_contents_def user_store_def)
  then show ?thesis using m2(1) t2(1) w by blast
qed

theorem protect_after_fork_shares_witness:
  "\<exists>sp f m child m1 m2. AddressSpace_translate sp sample_page m = Some (f, PageTableFlags 5) \<and> AddressSpace_fork sp m = Some (Inr child, m1) \<and>
     AddressSpace_protect_user child sample_page (PageTableFlags 6) m1 = (Inr (), m2) \<and>
     page_contents sp sample_page (user_store f 3 42 m2) = Some ((memory m2 f)(3 := 42))"
proof (rule sample_space)
  fix sp f m assume a: "cow_inv m {p4_frame sp}" "AddressSpace_translate sp sample_page m = Some (f, PageTableFlags 5)" "user_page sample_page"
    "p4_frame sp \<in> {p4_frame sp}" "card (user_tables m (p4_frame sp)) < card {f. frame_ok f \<and> frame_free m f}" "heap_replies m = []"
    "\<forall>q f fl. user_page q \<and> AddressSpace_translate sp q m = Some (f, fl) \<longrightarrow> PageTableFlags_contains fl PageTableFlags_USER"
    "\<forall>f. refs m f + card (pages_of m sp f) < 2 ^ 64"
  have "\<not> fork_refused m sp" using a(5-) unfolding fork_refused_def by (auto simp: not_le)
  then obtain child m1 where fork: "AddressSpace_fork sp m = Some (Inr child, m1)"
    using fork_accepted [OF a(1,4)] by blast
  have fl: "PageTableFlags_contains (PageTableFlags 5) PageTableFlags_USER" "\<not> PageTableFlags_contains (PageTableFlags 5) PageTableFlags_WRITABLE"
      "\<not> PageTableFlags_contains (PageTableFlags 5) PageTableFlags_COPY_ON_WRITE" "\<not> PageTableFlags_contains (PageTableFlags 5) PageTableFlags_HUGE_PAGE"
    and req: "flags_ok (PageTableFlags 6)" "PageTableFlags_contains (PageTableFlags 6) PageTableFlags_USER"
      "PageTableFlags_contains (PageTableFlags 6) PageTableFlags_WRITABLE" "\<not> PageTableFlags_contains (PageTableFlags 6) PageTableFlags_GLOBAL"
      "\<not> PageTableFlags_contains (PageTableFlags 6) PageTableFlags_HUGE_PAGE"
    by code_simp+
  show ?thesis using protect_after_fork_shares [OF a(1,4,3,2) fl req fork, of 3 42] a(2) fork by blast
qed


text \<open>
  C6. A write fault never panics. On a user page marked for copying it either finds no free frame and changes
  nothing, or makes the page writable over a frame that no other page of any space maps; every page of every
  space keeps its contents and every other translation stays. On any other page it reports that the fault is
  not its own and changes nothing.
\<close>

theorem resolve_cow_fault_exact:
  assumes inv: "cow_inv m S" and sp: "p4_frame sp \<in> S" "user_page q"
  shows "\<exists>res m'. AddressSpace_resolve_cow_fault sp q m = Some (res, m') \<and> cow_inv m' S \<and>
    (\<forall>sp' q'. p4_frame sp' \<in> S \<and> user_page q' \<longrightarrow> page_contents sp' q' m' = page_contents sp' q' m \<and>
       ((sp', q') \<noteq> (sp, q) \<longrightarrow> AddressSpace_translate sp' q' m' = AddressSpace_translate sp' q' m)) \<and>
    (case AddressSpace_translate sp q m of
       Some (f, fl) \<Rightarrow>
         if cow_page fl
         then res = Inl MapOutOfMemory \<and> m' = m \<and> (\<forall>f. \<not> frame_free m f) \<or>
           res = Inr True \<and> (\<exists>g. AddressSpace_translate sp q m' = Some (g, split_flags fl) \<and> mappings m' S g = {(sp, q)})
         else res = Inr False \<and> m' = m
     | None \<Rightarrow> res = Inr False \<and> m' = m)"
proof -
  obtain res m' where r: "AddressSpace_resolve_cow_fault sp q m = Some (res, m')"
      "if \<exists>f fl. AddressSpace_translate sp q m = Some (f, fl) \<and> cow_page fl
       then res = Inl MapOutOfMemory \<and> m' = m \<and> (\<forall>f. \<not> frame_free m f) \<or>
         res = Inr True \<and> fault_post S sp q (snd (the (AddressSpace_translate sp q m))) m m'
       else res = Inr False \<and> m' = m"
    using resolve_cow_fault_spec [OF inv sp] by blast
  show ?thesis
  proof (cases "m' = m")
    case True
    then show ?thesis using r inv by (intro exI [of _ res] exI [of _ m']) (auto simp: fault_post_def split: option.splits)
  next
    case False
    then show ?thesis using r by (intro exI [of _ res] exI [of _ m']) (auto simp: fault_post_def split: if_split_asm option.splits)
  qed
qed

theorem resolve_cow_fault_exact_witness:
  "\<exists>sp f m. AddressSpace_translate sp sample_page m = Some (f, PageTableFlags 5) \<and>
     AddressSpace_resolve_cow_fault sp sample_page m = Some (Inr False, m)"
proof (rule sample_space)
  fix sp f m assume a: "cow_inv m {p4_frame sp}" "AddressSpace_translate sp sample_page m = Some (f, PageTableFlags 5)"
    "user_page sample_page" "p4_frame sp \<in> {p4_frame sp}"
  have "\<not> cow_page (PageTableFlags 5)" by code_simp
  then show ?thesis using resolve_cow_fault_exact [OF a(1,4,3)] a(2) by auto
qed



text \<open>
  C8. Changing the protection of a user page refuses addresses above the user half and flags that are not those
  of a user page, reports a page that is not mapped for the user, and otherwise keeps the frame and changes this
  translation only. A page marked for copying keeps its mark and stays read-only.
\<close>

theorem protect_user_exact:
  assumes "vm_inv m S" "p4_frame sp \<in> S" "Page_wf q" "flags_ok requested"
  shows "\<exists>res m'. AddressSpace_protect_user sp q requested m = (res, m') \<and> vm_inv m' S \<and>
    (if page_addr q > USER_MAX \<or> \<not> PageTableFlags_contains requested PageTableFlags_USER \<or>
        PageTableFlags_contains requested PageTableFlags_GLOBAL \<or> PageTableFlags_contains requested PageTableFlags_HUGE_PAGE
     then res = Inl MapOutOfRange \<and> m' = m
     else case AddressSpace_translate sp q m of
        None \<Rightarrow> res = Inl CorruptPageTable \<and> m' = m
      | Some (f, old) \<Rightarrow>
          if PageTableFlags_contains old PageTableFlags_USER \<and> \<not> PageTableFlags_contains old PageTableFlags_HUGE_PAGE
          then res = Inr () \<and>
            (\<forall>sp' q'. p4_frame sp' \<in> S \<and> Page_wf q' \<longrightarrow> AddressSpace_translate sp' q' m' =
               (if sp' = sp \<and> q' = q then Some (f, protected_flags requested old) else AddressSpace_translate sp' q' m)) \<and>
            (PageTableFlags_contains old PageTableFlags_COPY_ON_WRITE \<longrightarrow>
               PageTableFlags_contains (protected_flags requested old) PageTableFlags_COPY_ON_WRITE \<and>
               \<not> PageTableFlags_contains (protected_flags requested old) PageTableFlags_WRITABLE)
          else res = Inl CorruptPageTable \<and> m' = m)"
  using protect_user_spec [OF assms] assms(1)
  by (cases "AddressSpace_protect_user sp q requested m") (auto simp: Let_def remap_post_def split: if_split_asm option.splits)

theorem protect_user_exact_witness:
  "\<exists>sp f m m'. AddressSpace_translate sp sample_page m = Some (f, PageTableFlags 5) \<and>
     AddressSpace_protect_user sp sample_page (PageTableFlags 7) m = (Inr (), m') \<and>
     AddressSpace_translate sp sample_page m' = Some (f, PageTableFlags 7)"
proof (rule sample_space)
  fix sp f m assume a: "vm_inv m {p4_frame sp}" "AddressSpace_translate sp sample_page m = Some (f, PageTableFlags 5)"
    "user_page sample_page" "Page_wf sample_page" "p4_frame sp \<in> {p4_frame sp}"
  have fl: "flags_ok (PageTableFlags 7)" "PageTableFlags_contains (PageTableFlags 7) PageTableFlags_USER"
      "\<not> PageTableFlags_contains (PageTableFlags 7) PageTableFlags_GLOBAL" "\<not> PageTableFlags_contains (PageTableFlags 7) PageTableFlags_HUGE_PAGE"
      "PageTableFlags_contains (PageTableFlags 5) PageTableFlags_USER" "\<not> PageTableFlags_contains (PageTableFlags 5) PageTableFlags_HUGE_PAGE"
      "protected_flags (PageTableFlags 7) (PageTableFlags 5) = PageTableFlags 7"
    by code_simp+
  have user: "\<not> USER_MAX < page_addr sample_page" using a(3) by (simp add: user_page_def not_less)
  obtain res m' where r: "AddressSpace_protect_user sp sample_page (PageTableFlags 7) m = (res, m')" "res = Inr ()"
      "AddressSpace_translate sp sample_page m' = Some (f, PageTableFlags 7)"
    using protect_user_exact [OF a(1,5,4) fl(1), unfolded a(2)] user fl a(4) by auto
  then show ?thesis using a(2) by blast
qed

lemma bit_no_execute: "bit (PageTableFlags_bits PageTableFlags_NO_EXECUTE) n \<longleftrightarrow> n = 63"
proof -
  have eq: "PageTableFlags_bits PageTableFlags_NO_EXECUTE = push_bit 63 1" by (simp add: PageTableFlags_NO_EXECUTE_def push_bit_eq_mult)
  show ?thesis unfolding eq bit_push_1 by auto
qed

lemma cow_inv_reflag:
  assumes inv: "cow_inv m S" and sp: "p4_frame sp \<in> S" "user_page q" and old: "AddressSpace_translate sp q m = Some (f, fl)"
    and post: "remap_post S sp q (Some (f, fl')) m m'"
  shows "cow_inv m' S"
proof -
  have p: "vm_inv m' S" "tables m' S = tables m S" "frame_allocator m' = frame_allocator m" "shared_user_frames m' = shared_user_frames m"
    using post by (simp_all add: remap_post_def)
  have "AddressSpace_translate sp' q' m' = (if sp' = sp \<and> q' = q then Some (f, fl') else AddressSpace_translate sp' q' m)"
    if "p4_frame sp' \<in> S" "user_page q'" for sp' q' using post that by (simp add: remap_post_def user_page_def)
  then have "mappings m' S g = mappings m S g" for g using old by (auto simp: mappings_def split: if_split_asm)
  then show ?thesis using inv p refs_same [OF p(4)] alloc_same(2) [OF p(3)] by (simp add: cow_inv_def)
qed

text \<open>
  C9. The mark for copying outlives every change of protection, and a write fault looks at nothing else: whatever protection
  a process gives a page marked for copying, read-only or executable included, the next store makes the page writable and
  keeps its execute permission.
\<close>

theorem write_fault_ignores_protection:
  assumes inv: "cow_inv m S" and sp: "p4_frame sp \<in> S" "user_page q"
    and old: "AddressSpace_translate sp q m = Some (f, old)" "cow_page old" "\<not> PageTableFlags_contains old PageTableFlags_HUGE_PAGE"
    and req: "flags_ok requested" "PageTableFlags_contains requested PageTableFlags_USER"
      "\<not> PageTableFlags_contains requested PageTableFlags_GLOBAL" "\<not> PageTableFlags_contains requested PageTableFlags_HUGE_PAGE"
    and free: "frame_free m h"
  shows "\<exists>m1 m2 g fl. AddressSpace_protect_user sp q requested m = (Inr (), m1) \<and>
    AddressSpace_resolve_cow_fault sp q m1 = Some (Inr True, m2) \<and> AddressSpace_translate sp q m2 = Some (g, fl) \<and>
    PageTableFlags_contains fl PageTableFlags_WRITABLE \<and>
    PageTableFlags_contains fl PageTableFlags_NO_EXECUTE = PageTableFlags_contains requested PageTableFlags_NO_EXECUTE"
proof -
  have pw: "Page_wf q" "\<not> page_addr q > USER_MAX" using sp(2) by (auto simp: user_page_def not_less)
  let ?fl = "protected_flags requested old"
  have cow: "PageTableFlags_contains old PageTableFlags_USER" "PageTableFlags_contains old PageTableFlags_COPY_ON_WRITE"
    using old(2) by (simp_all add: cow_page_def)
  obtain m1 where m1: "AddressSpace_protect_user sp q requested m = (Inr (), m1)" "remap_post S sp q (Some (f, ?fl)) m m1"
    using protect_user_spec [OF cow_invD(1) [OF inv] sp(1) pw(1) req(1)] pw(2) old(1,3) cow(1) req(2-4)
    by (cases "AddressSpace_protect_user sp q requested m") auto
  have tr: "AddressSpace_translate sp q m1 = Some (f, ?fl)" using m1(2) pw(1) sp(1) by (simp add: remap_post_def)
  have "frame_free m1 h" using free m1(2) alloc_same(2) [of m1 m] by (simp add: remap_post_def)
  moreover have marked: "cow_page ?fl"
    using cow req(2) by (auto simp: cow_page_def protected_flags_def Let_def flag_bits bit_simps)
  ultimately obtain m2 where m2: "AddressSpace_resolve_cow_fault sp q m1 = Some (Inr True, m2)" "fault_post S sp q ?fl m1 m2"
    using resolve_cow_fault_spec [OF cow_inv_reflag [OF inv sp old(1) m1(2)] sp] tr by auto
  then obtain g where "AddressSpace_translate sp q m2 = Some (g, split_flags ?fl)" by (auto simp: fault_post_def)
  moreover have "PageTableFlags_contains (split_flags ?fl) PageTableFlags_WRITABLE"
      "PageTableFlags_contains (split_flags ?fl) PageTableFlags_NO_EXECUTE = PageTableFlags_contains requested PageTableFlags_NO_EXECUTE"
    using cow(2) by (auto simp: split_flags_def protected_flags_def Let_def flag_bits bit_simps bit_no_execute)
  ultimately show ?thesis using m1(1) m2(1) by blast
qed

theorem write_fault_ignores_protection_witness:
  "\<exists>sp f m m1 m2 g fl. AddressSpace_translate sp sample_page m = Some (f, PageTableFlags 0x205) \<and>
     AddressSpace_protect_user sp sample_page (PageTableFlags 4) m = (Inr (), m1) \<and>
     AddressSpace_resolve_cow_fault sp sample_page m1 = Some (Inr True, m2) \<and> AddressSpace_translate sp sample_page m2 = Some (g, fl) \<and>
     PageTableFlags_contains fl PageTableFlags_WRITABLE \<and> \<not> PageTableFlags_contains fl PageTableFlags_NO_EXECUTE"
proof -
  obtain sp f m where r: "vm_reach sample_machine (m, {p4_frame sp})" "AddressSpace_translate sp sample_page m = Some (f, PageTableFlags 0x205)"
      "frame_allocator m = Some (paging_allocator 127 9 7)"
    by (rule sample_marked)
  have inv: "cow_inv m {p4_frame sp}" by (rule sample_cow(2) [OF r(1)])
  have "{f. frame_ok f \<and> frame_free m f} \<noteq> {}" using sample_room [OF cow_invD(1) [OF inv] r(3)] by force
  then obtain h where h: "frame_free m h" by blast
  have fl: "cow_page (PageTableFlags 0x205)" "\<not> PageTableFlags_contains (PageTableFlags 0x205) PageTableFlags_HUGE_PAGE"
    "flags_ok (PageTableFlags 4)" "PageTableFlags_contains (PageTableFlags 4) PageTableFlags_USER"
    "\<not> PageTableFlags_contains (PageTableFlags 4) PageTableFlags_GLOBAL" "\<not> PageTableFlags_contains (PageTableFlags 4) PageTableFlags_HUGE_PAGE"
    "\<not> PageTableFlags_contains (PageTableFlags 4) PageTableFlags_NO_EXECUTE"
    by code_simp+
  show ?thesis using write_fault_ignores_protection [OF inv _ sample_page_ok r(2) fl(1-6) h] r(2) fl(7) by fastforce
qed

text \<open>
  C10. Destroying a space whose kernel half is cleared never panics and returns exactly the tables of its user
  half, its root included, to the frame allocator. Every translation of the other spaces stays.
\<close>

theorem destroy_exact:
  assumes "vm_inv m S" "p4_frame sp \<in> S"
  shows "\<exists>m'. AddressSpace_destroy sp (clear_kernel_half sp m) = Some m' \<and> vm_inv m' (S - {p4_frame sp}) \<and>
    (\<forall>g. frame_ok g \<longrightarrow> frame_free m' g = (frame_free m g \<or> g \<in> user_tables m (p4_frame sp))) \<and>
    (\<forall>sp' q. p4_frame sp' \<in> S - {p4_frame sp} \<longrightarrow> AddressSpace_translate sp' q m' = AddressSpace_translate sp' q m) \<and>
    (\<forall>f. f \<noteq> p4_frame sp \<longrightarrow> memory m' f = memory m f)"
  using drop_space [OF assms] unfolding space_dropped_def by blast

theorem destroy_exact_witness:
  "\<exists>sp m m'. AddressSpace_destroy sp (clear_kernel_half sp m) = Some m' \<and> frame_free m' (p4_frame sp)"
proof (rule sample_space)
  fix sp f m assume a: "vm_inv m {p4_frame sp}" "p4_frame sp \<in> {p4_frame sp}"
  have "p4_frame sp \<in> user_tables m (p4_frame sp)"
    by (auto simp: user_tables_def path_ok_def user_path_def intro!: exI [of _ "[]"])
  moreover have "frame_ok (p4_frame sp)" using tables_ok [OF a(1)] tablesI [OF a(2), of "[]" m] by (simp add: path_ok_def)
  ultimately show ?thesis using destroy_exact [OF a] by blast
qed

end
