(* ===== verification/Nt_Types.thy ===== *)
theory Nt_Types
  imports Rust_Result
begin

text \<open>
  The exact-width boundary types of \<open>user/winhost-core\<close>: status values with their severity and DOS
  error mapping (\<open>status.rs\<close>), and the scalar types and the counted string descriptor (\<open>types.rs\<close>).
  An \<open>i32\<close> is a 32-bit word read with \<open>sint\<close>.
\<close>

subsection \<open>Status values\<close>

datatype NtStatus = NtStatus (status_bits: u32)

definition NtStatus_from_u32 :: "u32 \<Rightarrow> NtStatus" where
  "NtStatus_from_u32 raw = NtStatus raw"

definition NtStatus_as_u32 :: "NtStatus \<Rightarrow> u32" where
  "NtStatus_as_u32 self = status_bits self"

definition NtStatus_as_i32 :: "NtStatus \<Rightarrow> int" where
  "NtStatus_as_i32 self = sint (status_bits self)"

definition NtStatus_SUCCESS :: NtStatus where
  "NtStatus_SUCCESS = NtStatus_from_u32 0x00000000"

definition NtStatus_PENDING :: NtStatus where
  "NtStatus_PENDING = NtStatus_from_u32 0x00000103"

definition NtStatus_TIMEOUT :: NtStatus where
  "NtStatus_TIMEOUT = NtStatus_from_u32 0x00000102"

definition NtStatus_ABANDONED :: NtStatus where
  "NtStatus_ABANDONED = NtStatus_from_u32 0x00000080"

definition NtStatus_BUFFER_OVERFLOW :: NtStatus where
  "NtStatus_BUFFER_OVERFLOW = NtStatus_from_u32 0x80000005"

definition NtStatus_NO_MORE_FILES :: NtStatus where
  "NtStatus_NO_MORE_FILES = NtStatus_from_u32 0x80000006"

definition NtStatus_UNSUCCESSFUL :: NtStatus where
  "NtStatus_UNSUCCESSFUL = NtStatus_from_u32 0xc0000001"

definition NtStatus_NOT_IMPLEMENTED :: NtStatus where
  "NtStatus_NOT_IMPLEMENTED = NtStatus_from_u32 0xc0000002"

definition NtStatus_INVALID_INFO_CLASS :: NtStatus where
  "NtStatus_INVALID_INFO_CLASS = NtStatus_from_u32 0xc0000003"

definition NtStatus_ACCESS_VIOLATION :: NtStatus where
  "NtStatus_ACCESS_VIOLATION = NtStatus_from_u32 0xc0000005"

definition NtStatus_INVALID_HANDLE :: NtStatus where
  "NtStatus_INVALID_HANDLE = NtStatus_from_u32 0xc0000008"

definition NtStatus_INVALID_PARAMETER :: NtStatus where
  "NtStatus_INVALID_PARAMETER = NtStatus_from_u32 0xc000000d"

definition NtStatus_NO_SUCH_FILE :: NtStatus where
  "NtStatus_NO_SUCH_FILE = NtStatus_from_u32 0xc000000f"

definition NtStatus_END_OF_FILE :: NtStatus where
  "NtStatus_END_OF_FILE = NtStatus_from_u32 0xc0000011"

definition NtStatus_NO_MEMORY :: NtStatus where
  "NtStatus_NO_MEMORY = NtStatus_from_u32 0xc0000017"

definition NtStatus_CONFLICTING_ADDRESSES :: NtStatus where
  "NtStatus_CONFLICTING_ADDRESSES = NtStatus_from_u32 0xc0000018"

definition NtStatus_ACCESS_DENIED :: NtStatus where
  "NtStatus_ACCESS_DENIED = NtStatus_from_u32 0xc0000022"

definition NtStatus_OBJECT_TYPE_MISMATCH :: NtStatus where
  "NtStatus_OBJECT_TYPE_MISMATCH = NtStatus_from_u32 0xc0000024"

definition NtStatus_BUFFER_TOO_SMALL :: NtStatus where
  "NtStatus_BUFFER_TOO_SMALL = NtStatus_from_u32 0xc0000023"

definition NtStatus_OBJECT_NAME_INVALID :: NtStatus where
  "NtStatus_OBJECT_NAME_INVALID = NtStatus_from_u32 0xc0000033"

definition NtStatus_OBJECT_NAME_NOT_FOUND :: NtStatus where
  "NtStatus_OBJECT_NAME_NOT_FOUND = NtStatus_from_u32 0xc0000034"

definition NtStatus_OBJECT_NAME_COLLISION :: NtStatus where
  "NtStatus_OBJECT_NAME_COLLISION = NtStatus_from_u32 0xc0000035"

definition NtStatus_OBJECT_PATH_INVALID :: NtStatus where
  "NtStatus_OBJECT_PATH_INVALID = NtStatus_from_u32 0xc0000039"

definition NtStatus_OBJECT_PATH_NOT_FOUND :: NtStatus where
  "NtStatus_OBJECT_PATH_NOT_FOUND = NtStatus_from_u32 0xc000003a"

definition NtStatus_SHARING_VIOLATION :: NtStatus where
  "NtStatus_SHARING_VIOLATION = NtStatus_from_u32 0xc0000043"

definition NtStatus_MUTANT_NOT_OWNED :: NtStatus where
  "NtStatus_MUTANT_NOT_OWNED = NtStatus_from_u32 0xc0000046"

definition NtStatus_SEMAPHORE_LIMIT_EXCEEDED :: NtStatus where
  "NtStatus_SEMAPHORE_LIMIT_EXCEEDED = NtStatus_from_u32 0xc0000047"

definition NtStatus_INVALID_IMAGE_FORMAT :: NtStatus where
  "NtStatus_INVALID_IMAGE_FORMAT = NtStatus_from_u32 0xc000007b"

definition NtStatus_INSUFFICIENT_RESOURCES :: NtStatus where
  "NtStatus_INSUFFICIENT_RESOURCES = NtStatus_from_u32 0xc000009a"

definition NtStatus_INTEGER_OVERFLOW :: NtStatus where
  "NtStatus_INTEGER_OVERFLOW = NtStatus_from_u32 0xc0000095"

definition NtStatus_NOT_SUPPORTED :: NtStatus where
  "NtStatus_NOT_SUPPORTED = NtStatus_from_u32 0xc00000bb"

definition NtStatus_FILE_IS_A_DIRECTORY :: NtStatus where
  "NtStatus_FILE_IS_A_DIRECTORY = NtStatus_from_u32 0xc00000ba"

definition NtStatus_DIRECTORY_NOT_EMPTY :: NtStatus where
  "NtStatus_DIRECTORY_NOT_EMPTY = NtStatus_from_u32 0xc0000101"

definition NtStatus_NAME_TOO_LONG :: NtStatus where
  "NtStatus_NAME_TOO_LONG = NtStatus_from_u32 0xc0000106"

definition NtStatus_DLL_NOT_FOUND :: NtStatus where
  "NtStatus_DLL_NOT_FOUND = NtStatus_from_u32 0xc0000135"

definition NtStatus_ENTRYPOINT_NOT_FOUND :: NtStatus where
  "NtStatus_ENTRYPOINT_NOT_FOUND = NtStatus_from_u32 0xc0000139"

definition NtStatus_MUTANT_LIMIT_EXCEEDED :: NtStatus where
  "NtStatus_MUTANT_LIMIT_EXCEEDED = NtStatus_from_u32 0xc0000191"

lemmas NtStatus_defs =
  NtStatus_from_u32_def NtStatus_SUCCESS_def NtStatus_PENDING_def
  NtStatus_TIMEOUT_def NtStatus_ABANDONED_def NtStatus_BUFFER_OVERFLOW_def
  NtStatus_NO_MORE_FILES_def NtStatus_UNSUCCESSFUL_def NtStatus_NOT_IMPLEMENTED_def
  NtStatus_INVALID_INFO_CLASS_def NtStatus_ACCESS_VIOLATION_def NtStatus_INVALID_HANDLE_def
  NtStatus_INVALID_PARAMETER_def NtStatus_NO_SUCH_FILE_def NtStatus_END_OF_FILE_def
  NtStatus_NO_MEMORY_def NtStatus_CONFLICTING_ADDRESSES_def NtStatus_ACCESS_DENIED_def
  NtStatus_OBJECT_TYPE_MISMATCH_def NtStatus_BUFFER_TOO_SMALL_def NtStatus_OBJECT_NAME_INVALID_def
  NtStatus_OBJECT_NAME_NOT_FOUND_def NtStatus_OBJECT_NAME_COLLISION_def NtStatus_OBJECT_PATH_INVALID_def
  NtStatus_OBJECT_PATH_NOT_FOUND_def NtStatus_SHARING_VIOLATION_def NtStatus_MUTANT_NOT_OWNED_def
  NtStatus_SEMAPHORE_LIMIT_EXCEEDED_def NtStatus_INVALID_IMAGE_FORMAT_def NtStatus_INSUFFICIENT_RESOURCES_def
  NtStatus_INTEGER_OVERFLOW_def NtStatus_NOT_SUPPORTED_def NtStatus_FILE_IS_A_DIRECTORY_def
  NtStatus_DIRECTORY_NOT_EMPTY_def NtStatus_NAME_TOO_LONG_def NtStatus_DLL_NOT_FOUND_def
  NtStatus_ENTRYPOINT_NOT_FOUND_def NtStatus_MUTANT_LIMIT_EXCEEDED_def

datatype NtSeverity = Success | Informational | Warning | Error

definition NtStatus_severity :: "NtStatus \<Rightarrow> NtSeverity" where
  "NtStatus_severity self =
     (let s = drop_bit 30 (NtStatus_as_u32 self) in
      if s = 0 then Success else if s = 1 then Informational else if s = 2 then Warning else Error)"

definition NtStatus_is_success :: "NtStatus \<Rightarrow> bool" where
  "NtStatus_is_success self \<longleftrightarrow> NtStatus_as_i32 self \<ge> 0"

subsection \<open>DOS errors\<close>

datatype DosError = DosError (dos_number: u32)

definition DosError_from_u32 :: "u32 \<Rightarrow> DosError" where
  "DosError_from_u32 raw = DosError raw"

definition DosError_as_u32 :: "DosError \<Rightarrow> u32" where
  "DosError_as_u32 self = dos_number self"

definition DosError_SUCCESS :: DosError where
  "DosError_SUCCESS = DosError 0"

definition DosError_INVALID_FUNCTION :: DosError where
  "DosError_INVALID_FUNCTION = DosError 1"

definition DosError_FILE_NOT_FOUND :: DosError where
  "DosError_FILE_NOT_FOUND = DosError 2"

definition DosError_PATH_NOT_FOUND :: DosError where
  "DosError_PATH_NOT_FOUND = DosError 3"

definition DosError_ACCESS_DENIED :: DosError where
  "DosError_ACCESS_DENIED = DosError 5"

definition DosError_INVALID_HANDLE :: DosError where
  "DosError_INVALID_HANDLE = DosError 6"

definition DosError_NOT_ENOUGH_MEMORY :: DosError where
  "DosError_NOT_ENOUGH_MEMORY = DosError 8"

definition DosError_NO_MORE_FILES :: DosError where
  "DosError_NO_MORE_FILES = DosError 18"

definition DosError_GEN_FAILURE :: DosError where
  "DosError_GEN_FAILURE = DosError 31"

definition DosError_SHARING_VIOLATION :: DosError where
  "DosError_SHARING_VIOLATION = DosError 32"

definition DosError_HANDLE_EOF :: DosError where
  "DosError_HANDLE_EOF = DosError 38"

definition DosError_NOT_SUPPORTED :: DosError where
  "DosError_NOT_SUPPORTED = DosError 50"

definition DosError_INVALID_PARAMETER :: DosError where
  "DosError_INVALID_PARAMETER = DosError 87"

definition DosError_INSUFFICIENT_BUFFER :: DosError where
  "DosError_INSUFFICIENT_BUFFER = DosError 122"

definition DosError_MOD_NOT_FOUND :: DosError where
  "DosError_MOD_NOT_FOUND = DosError 126"

definition DosError_PROC_NOT_FOUND :: DosError where
  "DosError_PROC_NOT_FOUND = DosError 127"

definition DosError_INVALID_NAME :: DosError where
  "DosError_INVALID_NAME = DosError 123"

definition DosError_DIR_NOT_EMPTY :: DosError where
  "DosError_DIR_NOT_EMPTY = DosError 145"

definition DosError_ALREADY_EXISTS :: DosError where
  "DosError_ALREADY_EXISTS = DosError 183"

definition DosError_BAD_PATHNAME :: DosError where
  "DosError_BAD_PATHNAME = DosError 161"

definition DosError_BAD_EXE_FORMAT :: DosError where
  "DosError_BAD_EXE_FORMAT = DosError 193"

definition DosError_FILENAME_EXCED_RANGE :: DosError where
  "DosError_FILENAME_EXCED_RANGE = DosError 206"

definition DosError_MORE_DATA :: DosError where
  "DosError_MORE_DATA = DosError 234"

definition DosError_MR_MID_NOT_FOUND :: DosError where
  "DosError_MR_MID_NOT_FOUND = DosError 317"

definition DosError_INVALID_ADDRESS :: DosError where
  "DosError_INVALID_ADDRESS = DosError 487"

definition DosError_IO_PENDING :: DosError where
  "DosError_IO_PENDING = DosError 997"

definition DosError_NOACCESS :: DosError where
  "DosError_NOACCESS = DosError 998"

definition DosError_NO_SYSTEM_RESOURCES :: DosError where
  "DosError_NO_SYSTEM_RESOURCES = DosError 1450"

lemmas DosError_defs =
  DosError_SUCCESS_def DosError_INVALID_FUNCTION_def DosError_FILE_NOT_FOUND_def
  DosError_PATH_NOT_FOUND_def DosError_ACCESS_DENIED_def DosError_INVALID_HANDLE_def
  DosError_NOT_ENOUGH_MEMORY_def DosError_NO_MORE_FILES_def DosError_GEN_FAILURE_def
  DosError_SHARING_VIOLATION_def DosError_HANDLE_EOF_def DosError_NOT_SUPPORTED_def
  DosError_INVALID_PARAMETER_def DosError_INSUFFICIENT_BUFFER_def DosError_MOD_NOT_FOUND_def
  DosError_PROC_NOT_FOUND_def DosError_INVALID_NAME_def DosError_DIR_NOT_EMPTY_def
  DosError_ALREADY_EXISTS_def DosError_BAD_PATHNAME_def DosError_BAD_EXE_FORMAT_def
  DosError_FILENAME_EXCED_RANGE_def DosError_MORE_DATA_def DosError_MR_MID_NOT_FOUND_def
  DosError_INVALID_ADDRESS_def DosError_IO_PENDING_def DosError_NOACCESS_def
  DosError_NO_SYSTEM_RESOURCES_def

definition ntstatus_to_dos_error :: "NtStatus \<Rightarrow> DosError" where
  "ntstatus_to_dos_error status =
     (let s = NtStatus_as_u32 status in
      if s = 0x00000000 then DosError_SUCCESS
      else if s = 0x00000103 then DosError_IO_PENDING
      else if s = 0x80000005 then DosError_MORE_DATA
      else if s = 0x80000006 then DosError_NO_MORE_FILES
      else if s = 0xc0000001 then DosError_GEN_FAILURE
      else if s = 0xc0000002 then DosError_INVALID_FUNCTION
      else if s = 0xc0000003 \<or> s = 0xc000000d then DosError_INVALID_PARAMETER
      else if s = 0xc0000005 then DosError_NOACCESS
      else if s = 0xc0000008 then DosError_INVALID_HANDLE
      else if s = 0xc000000f \<or> s = 0xc0000034 then DosError_FILE_NOT_FOUND
      else if s = 0xc0000011 then DosError_HANDLE_EOF
      else if s = 0xc0000017 then DosError_NOT_ENOUGH_MEMORY
      else if s = 0xc0000018 then DosError_INVALID_ADDRESS
      else if s = 0xc0000022 then DosError_ACCESS_DENIED
      else if s = 0xc0000023 then DosError_INSUFFICIENT_BUFFER
      else if s = 0xc0000033 then DosError_INVALID_NAME
      else if s = 0xc0000035 then DosError_ALREADY_EXISTS
      else if s = 0xc0000039 then DosError_BAD_PATHNAME
      else if s = 0xc000003a then DosError_PATH_NOT_FOUND
      else if s = 0xc0000043 then DosError_SHARING_VIOLATION
      else if s = 0xc000007b then DosError_BAD_EXE_FORMAT
      else if s = 0xc000009a then DosError_NO_SYSTEM_RESOURCES
      else if s = 0xc00000ba then DosError_ACCESS_DENIED
      else if s = 0xc00000bb then DosError_NOT_SUPPORTED
      else if s = 0xc0000101 then DosError_DIR_NOT_EMPTY
      else if s = 0xc0000106 then DosError_FILENAME_EXCED_RANGE
      else if s = 0xc0000135 then DosError_MOD_NOT_FOUND
      else if s = 0xc0000139 then DosError_PROC_NOT_FOUND
      else DosError_MR_MID_NOT_FOUND)"

subsection \<open>Scalars\<close>

datatype NtTypeError =
    InvalidBoolean u8
  | NullThreadId
  | OddUtf16ByteLength
  | LengthExceedsMaximum
  | NullBuffer

definition NtTypeError_status :: "NtTypeError \<Rightarrow> NtStatus" where
  "NtTypeError_status self = NtStatus_INVALID_PARAMETER"

datatype NtBoolean = NtBoolean (NtBoolean_raw: u8)

definition NtBoolean_FALSE :: NtBoolean where
  "NtBoolean_FALSE = NtBoolean 0"

definition NtBoolean_TRUE :: NtBoolean where
  "NtBoolean_TRUE = NtBoolean 1"

definition NtBoolean_try_from_raw :: "u8 \<Rightarrow> NtTypeError + NtBoolean" where
  "NtBoolean_try_from_raw raw =
     (if raw = 0 then Inr NtBoolean_FALSE
      else if raw = 1 then Inr NtBoolean_TRUE
      else Inl (InvalidBoolean raw))"

definition NtBoolean_get :: "NtBoolean \<Rightarrow> bool" where
  "NtBoolean_get self \<longleftrightarrow> NtBoolean_raw self = 1"

datatype NtThreadId = NtThreadId (NtThreadId_raw: u64)

definition NtThreadId_try_from_raw :: "u64 \<Rightarrow> NtTypeError + NtThreadId" where
  "NtThreadId_try_from_raw raw = (if raw = 0 then Inl NullThreadId else Inr (NtThreadId raw))"

record NtUnicodeString64 =
  length_bytes :: u16
  maximum_length_bytes :: u16
  padding :: u32
  buffer :: u64

definition NtUnicodeString64_try_new :: "u64 \<Rightarrow> u16 \<Rightarrow> u16 \<Rightarrow> NtTypeError + NtUnicodeString64" where
  "NtUnicodeString64_try_new buffer' length' maximum =
     (if length' AND 1 \<noteq> 0 \<or> maximum AND 1 \<noteq> 0 then Inl OddUtf16ByteLength
      else if length' > maximum then Inl LengthExceedsMaximum
      else if maximum \<noteq> 0 \<and> buffer' = 0 then Inl NullBuffer
      else Inr \<lparr>length_bytes = length', maximum_length_bytes = maximum, padding = 0, buffer = buffer'\<rparr>)"

definition NtUnicodeString64_is_canonical :: "NtUnicodeString64 \<Rightarrow> bool" where
  "NtUnicodeString64_is_canonical self \<longleftrightarrow>
     padding self = 0 \<and> length_bytes self AND 1 = 0 \<and> maximum_length_bytes self AND 1 = 0 \<and>
     length_bytes self \<le> maximum_length_bytes self \<and> (maximum_length_bytes self = 0 \<or> buffer self \<noteq> 0)"

subsection \<open>Properties\<close>

text \<open>A success status is exactly one whose severity is success or informational.\<close>

lemma is_success_severity:
  "NtStatus_is_success s \<longleftrightarrow> NtStatus_severity s \<in> {Success, Informational}"
proof -
  let ?w = "NtStatus_as_u32 s"
  have "unat (drop_bit 30 ?w) = unat ?w div 2 ^ 30" by (simp add: drop_bit_eq_div unat_div)
  then have "drop_bit 30 ?w = 0 \<longleftrightarrow> unat ?w < 2 ^ 30"
      "drop_bit 30 ?w = 1 \<longleftrightarrow> 2 ^ 30 \<le> unat ?w \<and> unat ?w < 2 ^ 31"
    by (auto simp: word_unat_eq_iff div_eq_0_iff)
  moreover have "0 \<le> sint ?w \<longleftrightarrow> unat ?w < 2 ^ 31"
  proof -
    have "unat ?w div 2 ^ 31 < 2" using unat_less_exp [of ?w] by (simp add: less_mult_imp_div_less)
    then have "odd (unat ?w div 2 ^ 31) \<longleftrightarrow> 2 ^ 31 \<le> unat ?w" by (cases "unat ?w div 2 ^ 31") auto
    moreover have "bit ?w 31 \<longleftrightarrow> odd (unat ?w div 2 ^ 31)"
      using bit_iff_odd [of "unat ?w" 31] by (simp add: bit_unsigned_iff)
    ultimately show ?thesis using bit_last_iff [of ?w] by auto
  qed
  ultimately show ?thesis
    by (auto simp: NtStatus_severity_def NtStatus_is_success_def NtStatus_as_i32_def NtStatus_as_u32_def Let_def)
qed

text \<open>
  The string descriptor constructor accepts exactly the canonical descriptors: it succeeds
  on a buffer and two lengths if and only if the descriptor built from them is canonical, and the
  result is that descriptor.
\<close>

theorem NtUnicodeString64_try_new_canonical:
  "NtUnicodeString64_try_new b l m = Inr s \<longleftrightarrow>
     s = \<lparr>length_bytes = l, maximum_length_bytes = m, padding = 0, buffer = b\<rparr> \<and>
     NtUnicodeString64_is_canonical s"
  by (auto simp: NtUnicodeString64_try_new_def NtUnicodeString64_is_canonical_def word_gt_0 not_less)

end
