(* ===== verification/Nt_Handle.thy ===== *)
theory Nt_Handle
  imports Nt_Types
begin

text \<open>
  The guest handle table of \<open>user/winhost-core/src/handle.rs\<close>: handles encode a slot index and a
  generation, and a slot that runs out of generations is retired.
\<close>

subsection \<open>Packing an index and a generation\<close>

lemma small_word_bits:
  fixes x :: "'a::len word"
  assumes "unat x < 2 ^ k" "bit x n"
  shows "n < k"
proof -
  have "take_bit k (unat x) = unat x" using assms(1) by (simp add: take_bit_nat_eq_self)
  then have "take_bit k x = x" by (metis unsigned_take_bit_eq word_unat_eq_iff)
  then show ?thesis using assms(2) by (metis bit_take_bit_iff)
qed

lemma pack_low:
  fixes g x :: "'a::len word"
  assumes "unat x < 2 ^ k"
  shows "(push_bit k g OR x) AND mask k = x"
  using small_word_bits [OF assms]
  by (intro bit_word_eqI) (auto simp: bit_and_iff bit_or_iff bit_push_bit_iff bit_mask_iff)

lemma pack_high:
  fixes g x :: "'a::len word"
  assumes "unat x < 2 ^ k" "unat g < 2 ^ (LENGTH('a) - k)" "k \<le> LENGTH('a)"
  shows "drop_bit k (push_bit k g OR x) = g"
proof (rule bit_word_eqI)
  fix n assume "n < LENGTH('a)"
  have "bit g n \<Longrightarrow> k + n < LENGTH('a)" using small_word_bits [OF assms(2), of n] assms(3) by simp
  moreover have "\<not> bit x (k + n)" using small_word_bits [OF assms(1), of "k + n"] by auto
  ultimately show "bit (drop_bit k (push_bit k g OR x)) n \<longleftrightarrow> bit g n"
    by (auto simp: bit_drop_bit_eq bit_or_iff bit_push_bit_iff)
qed

lemma pack_unpack: "push_bit k (drop_bit k w) OR (w AND mask k) = (w :: 'a::len word)"
  by (intro bit_word_eqI) (auto simp: bit_or_iff bit_push_bit_iff bit_drop_bit_eq bit_and_iff bit_mask_iff)

subsection \<open>Keys that are never issued twice\<close>

text \<open>
  The contract of a table that hands out generation-checked keys: a key that stops being live is
  spent, and a spent key stays spent. Hence a dead key never becomes live again, whatever happens
  to the table.
\<close>

locale generation_keys =
  fixes step :: "'t \<Rightarrow> 't \<Rightarrow> bool"
    and wf :: "'t \<Rightarrow> bool"
    and live spent :: "'t \<Rightarrow> 'k \<Rightarrow> bool"
  assumes step_wf: "wf t \<Longrightarrow> step t t' \<Longrightarrow> wf t'"
    and spent_not_live: "spent t k \<Longrightarrow> \<not> live t k"
    and spent_stays: "wf t \<Longrightarrow> step t t' \<Longrightarrow> spent t k \<Longrightarrow> spent t' k"
    and death_spends: "wf t \<Longrightarrow> step t t' \<Longrightarrow> live t k \<Longrightarrow> \<not> live t' k \<Longrightarrow> spent t' k"
begin

lemma steps_wf: "step\<^sup>*\<^sup>* t t' \<Longrightarrow> wf t \<Longrightarrow> wf t'"
  by (induction rule: rtranclp_induct) (auto intro: step_wf)

lemma steps_spent: "step\<^sup>*\<^sup>* t t' \<Longrightarrow> wf t \<Longrightarrow> spent t k \<Longrightarrow> spent t' k"
  by (induction rule: rtranclp_induct) (auto intro: spent_stays steps_wf)

lemma steps_live_or_spent: "step\<^sup>*\<^sup>* t t' \<Longrightarrow> wf t \<Longrightarrow> live t k \<Longrightarrow> live t' k \<or> spent t' k"
  by (induction rule: rtranclp_induct) (auto intro: spent_stays death_spends steps_wf)

lemma never_again:
  assumes "wf t" "live t k" "step\<^sup>*\<^sup>* t t'" "\<not> live t' k" "step\<^sup>*\<^sup>* t' t''"
  shows "\<not> live t'' k"
  using steps_live_or_spent [OF assms(3,1,2)] assms steps_wf [OF assms(3,1)] steps_spent [OF assms(5)]
    spent_not_live by blast

end

subsection \<open>Handles, types and access masks\<close>

definition INDEX_BITS :: nat where
  "INDEX_BITS = 12"

definition INDEX_MASK :: u32 where
  "INDEX_MASK = push_bit INDEX_BITS 1 - 1"

definition GENERATION_MASK :: u32 where
  "GENERATION_MASK = push_bit (32 - INDEX_BITS) 1 - 1"

definition MAX_ISSUED_GENERATION :: u32 where
  "MAX_ISSUED_GENERATION = GENERATION_MASK - 1"

definition MAX_HANDLE_ENTRIES :: nat where
  "MAX_HANDLE_ENTRIES = unat INDEX_MASK"

datatype GuestHandle = GuestHandle (GuestHandle_raw: u32)

definition GuestHandle_NULL :: GuestHandle where
  "GuestHandle_NULL = GuestHandle 0"

definition GuestHandle_is_null :: "GuestHandle \<Rightarrow> bool" where
  "GuestHandle_is_null self \<longleftrightarrow> GuestHandle_raw self = 0"

datatype ObjectType =
    InvalidType | FileType | DirectoryType | EventType | SemaphoreType | MutantType | SectionType
  | ProcessType | ThreadType | ConsoleType | RegistryKeyType | TokenType | TimerType

datatype AccessMask = AccessMask (AccessMask_bits: u32)

definition AccessMask_NONE :: AccessMask where "AccessMask_NONE = AccessMask 0"
definition AccessMask_SYNCHRONIZE :: AccessMask where "AccessMask_SYNCHRONIZE = AccessMask 0x00100000"
definition AccessMask_GENERIC_WRITE :: AccessMask where "AccessMask_GENERIC_WRITE = AccessMask 0x40000000"
definition AccessMask_GENERIC_READ :: AccessMask where "AccessMask_GENERIC_READ = AccessMask 0x80000000"
definition AccessMask_EVENT_QUERY_STATE :: AccessMask where "AccessMask_EVENT_QUERY_STATE = AccessMask 1"
definition AccessMask_EVENT_MODIFY_STATE :: AccessMask where "AccessMask_EVENT_MODIFY_STATE = AccessMask 2"
definition AccessMask_MUTANT_QUERY_STATE :: AccessMask where "AccessMask_MUTANT_QUERY_STATE = AccessMask 1"
definition AccessMask_SEMAPHORE_QUERY_STATE :: AccessMask where "AccessMask_SEMAPHORE_QUERY_STATE = AccessMask 1"
definition AccessMask_SEMAPHORE_MODIFY_STATE :: AccessMask where "AccessMask_SEMAPHORE_MODIFY_STATE = AccessMask 2"
definition AccessMask_TIMER_QUERY_STATE :: AccessMask where "AccessMask_TIMER_QUERY_STATE = AccessMask 1"
definition AccessMask_TIMER_MODIFY_STATE :: AccessMask where "AccessMask_TIMER_MODIFY_STATE = AccessMask 2"

definition AccessMask_contains :: "AccessMask \<Rightarrow> AccessMask \<Rightarrow> bool" where
  "AccessMask_contains self requested \<longleftrightarrow>
     AccessMask_bits self AND AccessMask_bits requested = AccessMask_bits requested"

definition AccessMask_union :: "AccessMask \<Rightarrow> AccessMask \<Rightarrow> AccessMask" where
  "AccessMask_union self other = AccessMask (AccessMask_bits self OR AccessMask_bits other)"

definition AccessMask_is_empty :: "AccessMask \<Rightarrow> bool" where
  "AccessMask_is_empty self \<longleftrightarrow> AccessMask_bits self = 0"

record HandleEntry =
  entry_object_id :: u64
  entry_object_type :: ObjectType
  entry_access :: AccessMask
  entry_inheritable :: bool

definition HandleEntry_EMPTY :: HandleEntry where
  "HandleEntry_EMPTY =
     \<lparr>entry_object_id = 0, entry_object_type = InvalidType, entry_access = AccessMask_NONE,
      entry_inheritable = False\<rparr>"

record Slot =
  slot_generation :: u32
  slot_occupied :: bool
  slot_retired :: bool
  slot_entry :: HandleEntry

definition Slot_EMPTY :: Slot where
  "Slot_EMPTY =
     \<lparr>slot_generation = 1, slot_occupied = False, slot_retired = False, slot_entry = HandleEntry_EMPTY\<rparr>"

datatype HandleError =
    HandleInvalidCapacity nat nat
  | HandleTableFull
  | InvalidObjectType
  | InvalidEntryObjectId
  | InvalidHandle
  | HandleTypeMismatch ObjectType ObjectType
  | HandleAccessDenied AccessMask AccessMask

fun HandleError_status :: "HandleError \<Rightarrow> NtStatus" where
  "HandleError_status (HandleInvalidCapacity c m) = NtStatus_INVALID_PARAMETER"
| "HandleError_status InvalidObjectType = NtStatus_INVALID_PARAMETER"
| "HandleError_status InvalidEntryObjectId = NtStatus_INVALID_PARAMETER"
| "HandleError_status HandleTableFull = NtStatus_INSUFFICIENT_RESOURCES"
| "HandleError_status InvalidHandle = NtStatus_INVALID_HANDLE"
| "HandleError_status (HandleTypeMismatch e a) = NtStatus_OBJECT_TYPE_MISMATCH"
| "HandleError_status (HandleAccessDenied r g) = NtStatus_ACCESS_DENIED"

subsection \<open>The table\<close>

record HandleTable =
  handle_slots :: "Slot list"
  handle_len :: nat

definition encode :: "nat \<Rightarrow> u32 \<Rightarrow> GuestHandle" where
  "encode index generation = GuestHandle (push_bit INDEX_BITS generation OR (of_nat index + 1))"

definition decode :: "GuestHandle \<Rightarrow> (nat \<times> u32) option" where
  "decode handle =
     (let slot = GuestHandle_raw handle AND INDEX_MASK;
          generation = drop_bit INDEX_BITS (GuestHandle_raw handle) in
      if slot = 0 \<or> generation = 0 then None else Some (unat (slot - 1), generation))"

definition HandleTable_try_new :: "nat \<Rightarrow> HandleError + HandleTable" where
  "HandleTable_try_new n =
     (if n = 0 \<or> n > MAX_HANDLE_ENTRIES then Inl (HandleInvalidCapacity n MAX_HANDLE_ENTRIES)
      else Inr \<lparr>handle_slots = replicate n Slot_EMPTY, handle_len = 0\<rparr>)"

definition HandleTable_insert :: "HandleTable \<Rightarrow> HandleEntry \<Rightarrow> (HandleError + GuestHandle) \<times> HandleTable" where
  "HandleTable_insert self entry =
     (if entry_object_type entry = InvalidType then (Inl InvalidObjectType, self)
      else if entry_object_id entry = 0 then (Inl InvalidEntryObjectId, self)
      else
        case position (\<lambda>slot. \<not> slot_occupied slot \<and> \<not> slot_retired slot) (handle_slots self) of
          None \<Rightarrow> (Inl HandleTableFull, self)
        | Some index \<Rightarrow>
            let slot = handle_slots self ! index in
            (Inr (encode index (slot_generation slot)),
             self\<lparr>handle_slots := (handle_slots self)[index := slot\<lparr>slot_occupied := True, slot_entry := entry\<rparr>],
                  handle_len := handle_len self + 1\<rparr>))"

definition HandleTable_reference ::
    "HandleTable \<Rightarrow> GuestHandle \<Rightarrow> ObjectType option \<Rightarrow> AccessMask \<Rightarrow> HandleError + HandleEntry" where
  "HandleTable_reference self handle expected_type requested_access =
     and_then (ok_or (decode handle) InvalidHandle) (\<lambda>(index, generation).
     and_then (ok_or (index_opt (handle_slots self) index) InvalidHandle) (\<lambda>slot.
       if \<not> slot_occupied slot \<or> slot_retired slot \<or> slot_generation slot \<noteq> generation then Inl InvalidHandle
       else
         case (case expected_type of
                 Some expected \<Rightarrow>
                   if entry_object_type (slot_entry slot) \<noteq> expected
                   then Some (HandleTypeMismatch expected (entry_object_type (slot_entry slot))) else None
               | None \<Rightarrow> None) of
           Some err \<Rightarrow> Inl err
         | None \<Rightarrow>
             if \<not> AccessMask_contains (entry_access (slot_entry slot)) requested_access
             then Inl (HandleAccessDenied requested_access (entry_access (slot_entry slot)))
             else Inr (slot_entry slot)))"

definition HandleTable_close :: "HandleTable \<Rightarrow> GuestHandle \<Rightarrow> (HandleError + HandleEntry) \<times> HandleTable" where
  "HandleTable_close self handle =
     (case decode handle of
        None \<Rightarrow> (Inl InvalidHandle, self)
      | Some (index, generation) \<Rightarrow>
          case index_opt (handle_slots self) index of
            None \<Rightarrow> (Inl InvalidHandle, self)
          | Some slot \<Rightarrow>
              if \<not> slot_occupied slot \<or> slot_retired slot \<or> slot_generation slot \<noteq> generation
              then (Inl InvalidHandle, self)
              else
                let slot' = slot\<lparr>slot_occupied := False, slot_entry := HandleEntry_EMPTY\<rparr>;
                    slot'' = (if slot_generation slot' = MAX_ISSUED_GENERATION then slot'\<lparr>slot_retired := True\<rparr>
                              else slot'\<lparr>slot_generation := slot_generation slot' + 1\<rparr>) in
                (Inr (slot_entry slot),
                 self\<lparr>handle_slots := (handle_slots self)[index := slot''], handle_len := handle_len self - 1\<rparr>))"

definition HandleTable_duplicate ::
    "HandleTable \<Rightarrow> GuestHandle \<Rightarrow> AccessMask option \<Rightarrow> bool option
      \<Rightarrow> (HandleError + GuestHandle) \<times> HandleTable" where
  "HandleTable_duplicate self source desired_access inheritable =
     (case HandleTable_reference self source None AccessMask_NONE of
        Inl err \<Rightarrow> (Inl err, self)
      | Inr entry \<Rightarrow>
          case (case desired_access of
                  Some desired \<Rightarrow>
                    if \<not> AccessMask_contains (entry_access entry) desired
                    then Inl (HandleAccessDenied desired (entry_access entry))
                    else Inr (entry\<lparr>entry_access := desired\<rparr>)
                | None \<Rightarrow> Inr entry) of
            Inl err \<Rightarrow> (Inl err, self)
          | Inr entry' \<Rightarrow>
              let entry'' = (case inheritable of Some v \<Rightarrow> entry'\<lparr>entry_inheritable := v\<rparr> | None \<Rightarrow> entry') in
              HandleTable_insert self entry'')"

subsection \<open>Encoding\<close>

lemma INDEX_MASK_mask: "INDEX_MASK = mask 12"
  by (simp add: INDEX_MASK_def INDEX_BITS_def mask_eq_exp_minus_1)

lemma MAX_HANDLE_ENTRIES_eq: "MAX_HANDLE_ENTRIES = 4095"
  by (simp add: MAX_HANDLE_ENTRIES_def INDEX_MASK_def INDEX_BITS_def)

lemma MAX_ISSUED_GENERATION_eq: "MAX_ISSUED_GENERATION = 0xFFFFE"
  by (simp add: MAX_ISSUED_GENERATION_def GENERATION_MASK_def INDEX_BITS_def)

lemma decode_encode:
  assumes "index < 4095" "1 \<le> g" "g \<le> MAX_ISSUED_GENERATION"
  shows "decode (encode index g) = Some (index, g)"
proof -
  let ?x = "of_nat index + 1 :: u32"
  have x: "unat ?x = index + 1" using assms(1) by (simp add: unat_word_ariths unat_of_nat take_bit_nat_eq_self)
  then have xk: "unat ?x < 2 ^ 12" using assms(1) by simp
  have "unat g \<le> unat MAX_ISSUED_GENERATION" using assms(3) by (simp add: word_le_nat_alt)
  then have gk: "unat g < 2 ^ (LENGTH(32) - 12)" by (simp add: MAX_ISSUED_GENERATION_eq)
  have "?x \<noteq> 0" using x by (metis add_is_0 one_neq_zero unsigned_0)
  moreover have "g \<noteq> 0" using assms(2) by auto
  moreover have "unat (?x - 1) = index" using assms(1) by (simp add: unat_of_nat take_bit_nat_eq_self)
  ultimately show ?thesis
    using pack_low [OF xk, of g] pack_high [OF xk gk]
    by (simp add: decode_def encode_def INDEX_MASK_mask INDEX_BITS_def Let_def)
qed

lemma encode_decode:
  assumes "decode h = Some (index, g)"
  shows "encode index g = h"
proof -
  let ?s = "GuestHandle_raw h AND INDEX_MASK"
  have s: "?s \<noteq> 0" "index = unat (?s - 1)" "g = drop_bit 12 (GuestHandle_raw h)"
    using assms by (auto simp: decode_def Let_def INDEX_BITS_def split: if_splits)
  have "of_nat index + 1 = ?s" using s(2) by simp
  then have "push_bit 12 g OR (of_nat index + 1) = GuestHandle_raw h"
    using pack_unpack [of 12 "GuestHandle_raw h"] s(3) by (simp add: INDEX_MASK_mask)
  then show ?thesis by (simp add: encode_def INDEX_BITS_def)
qed

subsection \<open>The table as a map from handles to entries\<close>

definition slot_live :: "Slot \<Rightarrow> u32 \<Rightarrow> bool" where
  "slot_live slot g \<longleftrightarrow> slot_occupied slot \<and> \<not> slot_retired slot \<and> slot_generation slot = g"

definition handle_map :: "HandleTable \<Rightarrow> GuestHandle \<Rightarrow> HandleEntry option" where
  "handle_map t h =
     (case decode h of
        None \<Rightarrow> None
      | Some (i, g) \<Rightarrow> if i < length (handle_slots t) \<and> slot_live (handle_slots t ! i) g
                    then Some (slot_entry (handle_slots t ! i)) else None)"

definition handle_slot_wf :: "Slot \<Rightarrow> bool" where
  "handle_slot_wf slot \<longleftrightarrow>
     1 \<le> slot_generation slot \<and> slot_generation slot \<le> MAX_ISSUED_GENERATION \<and>
     (slot_retired slot \<longrightarrow> \<not> slot_occupied slot) \<and>
     (slot_occupied slot \<longrightarrow> entry_object_type (slot_entry slot) \<noteq> InvalidType \<and> entry_object_id (slot_entry slot) \<noteq> 0)"

definition handle_table_wf :: "HandleTable \<Rightarrow> bool" where
  "handle_table_wf t \<longleftrightarrow>
     0 < length (handle_slots t) \<and> length (handle_slots t) \<le> MAX_HANDLE_ENTRIES \<and>
     (\<forall>s\<in>set (handle_slots t). handle_slot_wf s) \<and>
     handle_len t = length (filter slot_occupied (handle_slots t))"

definition handle_spent :: "HandleTable \<Rightarrow> GuestHandle \<Rightarrow> bool" where
  "handle_spent t h \<longleftrightarrow>
     (\<exists>i g. decode h = Some (i, g) \<and> i < length (handle_slots t) \<and>
        (g < slot_generation (handle_slots t ! i) \<or>
         g = slot_generation (handle_slots t ! i) \<and> slot_retired (handle_slots t ! i)))"

lemma handle_wf_slot: "handle_table_wf t \<Longrightarrow> i < length (handle_slots t) \<Longrightarrow> handle_slot_wf (handle_slots t ! i)"
  by (simp add: handle_table_wf_def)

lemma handle_map_encode:
  assumes "handle_table_wf t" "i < length (handle_slots t)"
  shows "handle_map t (encode i (slot_generation (handle_slots t ! i))) =
    (if slot_occupied (handle_slots t ! i) then Some (slot_entry (handle_slots t ! i)) else None)"
proof -
  have w: "handle_slot_wf (handle_slots t ! i)" using handle_wf_slot [OF assms] .
  have "i < 4095" using assms by (simp add: handle_table_wf_def MAX_HANDLE_ENTRIES_eq)
  then have "decode (encode i (slot_generation (handle_slots t ! i))) = Some (i, slot_generation (handle_slots t ! i))"
    using w by (intro decode_encode) (auto simp: handle_slot_wf_def)
  then show ?thesis using assms(2) w by (auto simp: handle_map_def slot_live_def handle_slot_wf_def)
qed

lemma reference_eq:
  "HandleTable_reference t h ty acc =
     (case handle_map t h of
        None \<Rightarrow> Inl InvalidHandle
      | Some e \<Rightarrow>
          (case ty of
             Some ex \<Rightarrow> if entry_object_type e \<noteq> ex then Inl (HandleTypeMismatch ex (entry_object_type e))
                else if AccessMask_contains (entry_access e) acc then Inr e
                else Inl (HandleAccessDenied acc (entry_access e))
           | None \<Rightarrow> if AccessMask_contains (entry_access e) acc then Inr e
                else Inl (HandleAccessDenied acc (entry_access e))))"
  by (auto simp: HandleTable_reference_def handle_map_def slot_live_def index_opt_def ok_or_def and_then_def
      split: option.splits prod.splits if_splits)

text \<open>The number of occupied slots after one slot changes.\<close>

lemma length_filter_update:
  assumes "i < length xs"
  shows "length (filter P (xs[i := x])) + (if P (xs ! i) then 1 else 0) =
    length (filter P xs) + (if P x then 1 else 0)"
proof -
  have "length (filter P (take i xs @ x # drop (Suc i) xs)) + (if P (xs ! i) then 1 else 0) =
      length (filter P (take i xs @ xs ! i # drop (Suc i) xs)) + (if P x then 1 else 0)" by simp
  then show ?thesis using assms by (simp add: upd_conv_take_nth_drop id_take_nth_drop [symmetric])
qed

lemma handle_wf_update:
  assumes wf: "handle_table_wf t" and i: "i < length (handle_slots t)" and s: "handle_slot_wf s"
    and n: "n + (if slot_occupied (handle_slots t ! i) then 1 else 0) = handle_len t + (if slot_occupied s then 1 else 0)"
  shows "handle_table_wf (t\<lparr>handle_slots := (handle_slots t)[i := s], handle_len := n\<rparr>)"
  using wf s n length_filter_update [OF i, of slot_occupied s] set_update_subset_insert [of "handle_slots t" i s]
  by (auto simp: handle_table_wf_def)

text \<open>A slot changes: the handles of the other slots keep their entries.\<close>

lemma handle_map_update:
  assumes i: "i < length (handle_slots t)"
  shows "handle_map (t\<lparr>handle_slots := (handle_slots t)[i := s], handle_len := n\<rparr>) h =
    (case decode h of
       None \<Rightarrow> None
     | Some (j, g) \<Rightarrow> if j = i then (if slot_live s g then Some (slot_entry s) else None) else handle_map t h)"
  using i by (auto simp: handle_map_def split: option.splits)

lemma decode_eq_encode:
  assumes "index < 4095" "1 \<le> g" "g \<le> MAX_ISSUED_GENERATION"
  shows "decode h = Some (index, g) \<longleftrightarrow> h = encode index g"
proof
  assume "decode h = Some (index, g)"
  then show "h = encode index g" by (rule encode_decode [symmetric])
qed (use decode_encode [OF assms] in simp)

lemma try_new_wf: "HandleTable_try_new n = Inr t \<Longrightarrow> handle_table_wf t \<and> handle_map t = (\<lambda>h. None)"
  by (auto simp: HandleTable_try_new_def handle_table_wf_def handle_slot_wf_def Slot_EMPTY_def handle_map_def
      slot_live_def MAX_ISSUED_GENERATION_eq fun_eq_iff split: if_splits option.splits)

lemma handle_map_update_one:
  assumes i: "i < length (handle_slots t)" and h: "decode h = Some (i, slot_generation (handle_slots t ! i))"
    and new: "\<And>g. g \<noteq> slot_generation (handle_slots t ! i) \<Longrightarrow> \<not> slot_live s g"
  shows "handle_map (t\<lparr>handle_slots := (handle_slots t)[i := s], handle_len := n\<rparr>) =
    (handle_map t)(h := if slot_live s (slot_generation (handle_slots t ! i)) then Some (slot_entry s) else None)"
proof
  fix k
  show "handle_map (t\<lparr>handle_slots := (handle_slots t)[i := s], handle_len := n\<rparr>) k =
    ((handle_map t)(h := if slot_live s (slot_generation (handle_slots t ! i)) then Some (slot_entry s) else None)) k"
  proof (cases "k = h")
    case True
    then show ?thesis using h by (simp add: handle_map_update [OF i])
  next
    case False
    then have ne: "decode k \<noteq> Some (i, slot_generation (handle_slots t ! i))"
      using encode_decode [OF h] encode_decode [of k i "slot_generation (handle_slots t ! i)"] by auto
    show ?thesis
    proof (cases "decode k")
      case None
      then show ?thesis using False by (simp add: handle_map_def)
    next
      case (Some p)
      obtain j g where p: "p = (j, g)" by (cases p)
      show ?thesis
      proof (cases "j = i")
        case True
        then have g: "g \<noteq> slot_generation (handle_slots t ! i)" using ne Some p by simp
        then have "\<not> slot_live (handle_slots t ! i) g" by (simp add: slot_live_def)
        then show ?thesis using True False Some p new [OF g] by (simp add: handle_map_update [OF i] handle_map_def)
      next
        case False
        then show ?thesis using \<open>k \<noteq> h\<close> Some p by (simp add: handle_map_update [OF i])
      qed
    qed
  qed
qed

text \<open>The two outcomes of an insertion: an error that changes nothing, or one free slot is filled.\<close>

abbreviation filled :: "HandleTable \<Rightarrow> nat \<Rightarrow> HandleEntry \<Rightarrow> HandleTable" where
  "filled t i e \<equiv> t\<lparr>handle_slots := (handle_slots t)[i := (handle_slots t ! i)\<lparr>slot_occupied := True, slot_entry := e\<rparr>],
     handle_len := handle_len t + 1\<rparr>"

lemma insert_cases [consumes 1, case_names refused filled]:
  assumes "HandleTable_insert t e = (r, t')"
  obtains err where "r = Inl err" "t' = t"
      "err = InvalidObjectType \<and> entry_object_type e = InvalidType \<or> err = InvalidEntryObjectId \<and> entry_object_id e = 0 \<or>
       err = HandleTableFull \<and> (\<forall>s\<in>set (handle_slots t). slot_occupied s \<or> slot_retired s)"
  | i where "i < length (handle_slots t)" "\<not> slot_occupied (handle_slots t ! i)" "\<not> slot_retired (handle_slots t ! i)"
      "entry_object_type e \<noteq> InvalidType" "entry_object_id e \<noteq> 0"
      "r = Inr (encode i (slot_generation (handle_slots t ! i)))" "t' = filled t i e"
proof (cases "position (\<lambda>slot. \<not> slot_occupied slot \<and> \<not> slot_retired slot) (handle_slots t)")
  case None
  have "\<forall>s\<in>set (handle_slots t). slot_occupied s \<or> slot_retired s"
    using None [unfolded position_None] by auto
  then show ?thesis
    using assms that(1) None by (auto simp: HandleTable_insert_def split: if_splits)
next
  case (Some i)
  then show ?thesis
    using assms that position_SomeD [OF Some] by (auto simp: HandleTable_insert_def Let_def split: if_splits)
qed

lemma insert_wf:
  assumes wf: "handle_table_wf t" and ins: "HandleTable_insert t e = (r, t')"
  shows "handle_table_wf t'"
  using ins
proof (cases rule: insert_cases)
  case (filled i)
  then show ?thesis using handle_wf_slot [OF wf filled(1)]
    by (simp add: handle_wf_update [OF wf filled(1)] handle_slot_wf_def)
qed (use wf in simp)

lemma insert_map:
  assumes wf: "handle_table_wf t" and ins: "HandleTable_insert t e = (Inr h, t')"
  shows "handle_map t h = None" "handle_map t' = (handle_map t)(h \<mapsto> e)"
    "entry_object_type e \<noteq> InvalidType" "entry_object_id e \<noteq> 0"
proof -
  obtain i where i: "i < length (handle_slots t)" "\<not> slot_occupied (handle_slots t ! i)"
      "\<not> slot_retired (handle_slots t ! i)" "entry_object_type e \<noteq> InvalidType" "entry_object_id e \<noteq> 0"
      "h = encode i (slot_generation (handle_slots t ! i))" "t' = filled t i e"
    using ins by (cases rule: insert_cases) simp_all
  let ?s = "handle_slots t ! i"
  show "handle_map t h = None" using handle_map_encode [OF wf i(1)] i(2,6) by simp
  show "entry_object_type e \<noteq> InvalidType" "entry_object_id e \<noteq> 0" by fact+
  have "i < 4095" using i(1) wf by (simp add: handle_table_wf_def MAX_HANDLE_ENTRIES_eq)
  then have "decode h = Some (i, slot_generation ?s)"
    using handle_wf_slot [OF wf i(1)] unfolding i(6) by (intro decode_encode) (simp_all add: handle_slot_wf_def)
  from handle_map_update_one [OF i(1) this, of "?s\<lparr>slot_occupied := True, slot_entry := e\<rparr>"]
  show "handle_map t' = (handle_map t)(h \<mapsto> e)" using i(3) by (simp add: i(7) slot_live_def)
qed

text \<open>Closing: an error that changes nothing, or the handle's slot is emptied and moves on.\<close>

definition next_slot :: "Slot \<Rightarrow> Slot" where
  "next_slot s = (let s' = s\<lparr>slot_occupied := False, slot_entry := HandleEntry_EMPTY\<rparr> in
     if slot_generation s = MAX_ISSUED_GENERATION then s'\<lparr>slot_retired := True\<rparr>
     else s'\<lparr>slot_generation := slot_generation s + 1\<rparr>)"

lemma close_eq:
  "HandleTable_close t h =
     (case handle_map t h of
        None \<Rightarrow> (Inl InvalidHandle, t)
      | Some e \<Rightarrow> (Inr e, t\<lparr>handle_slots := (handle_slots t)[fst (the (decode h)) := next_slot (handle_slots t ! fst (the (decode h)))],
          handle_len := handle_len t - 1\<rparr>))"
  by (auto simp: HandleTable_close_def handle_map_def slot_live_def index_opt_def next_slot_def Let_def
      split: option.splits prod.splits if_splits)

lemma handle_map_SomeD:
  assumes "handle_map t h = Some e"
  obtains i where "i < length (handle_slots t)" "slot_occupied (handle_slots t ! i)" "\<not> slot_retired (handle_slots t ! i)"
    "slot_entry (handle_slots t ! i) = e" "decode h = Some (i, slot_generation (handle_slots t ! i))"
  using assms by (auto simp: handle_map_def slot_live_def split: option.splits if_splits)

lemma generation_step:
  assumes "handle_slot_wf s" "slot_generation s \<noteq> MAX_ISSUED_GENERATION"
  shows "slot_generation s < slot_generation s + 1" "slot_generation s + 1 \<le> MAX_ISSUED_GENERATION"
proof -
  have lt: "slot_generation s < MAX_ISSUED_GENERATION" using assms by (simp add: handle_slot_wf_def order_less_le)
  then show "slot_generation s + 1 \<le> MAX_ISSUED_GENERATION" by (rule inc_le)
  show "slot_generation s < slot_generation s + 1"
    using lt by (simp add: word_less_nat_alt MAX_ISSUED_GENERATION_eq unat_word_ariths)
qed

lemma next_slot_wf: "handle_slot_wf s \<Longrightarrow> handle_slot_wf (next_slot s)"
  using generation_step [of s] by (auto simp: handle_slot_wf_def next_slot_def Let_def)

lemma close_spec:
  assumes wf: "handle_table_wf t" and e: "handle_map t h = Some e" and cl: "HandleTable_close t h = (r, t')"
  shows "r = Inr e" "handle_table_wf t'" "handle_map t' = (handle_map t)(h := None)" "handle_spent t' h"
proof -
  obtain i where i: "i < length (handle_slots t)" "slot_occupied (handle_slots t ! i)"
      "\<not> slot_retired (handle_slots t ! i)" "decode h = Some (i, slot_generation (handle_slots t ! i))"
    using e by (rule handle_map_SomeD)
  let ?s = "handle_slots t ! i"
  have w: "handle_slot_wf ?s" using handle_wf_slot [OF wf i(1)] .
  have t': "r = Inr e" "t' = t\<lparr>handle_slots := (handle_slots t)[i := next_slot ?s], handle_len := handle_len t - 1\<rparr>"
    using cl e i(4) by (simp_all add: close_eq)
  show "r = Inr e" by fact
  have "0 < handle_len t"
    using wf i(1,2) by (auto simp: handle_table_wf_def filter_empty_conv intro!: bexI [of _ ?s])
  then show "handle_table_wf t'"
    unfolding t'(2) using i(2) by (intro handle_wf_update [OF wf i(1) next_slot_wf [OF w]]) (auto simp: next_slot_def Let_def)
  show "handle_map t' = (handle_map t)(h := None)"
    using handle_map_update_one [OF i(1,4), of "next_slot ?s"] by (simp add: t'(2) slot_live_def next_slot_def Let_def)
  show "handle_spent t' h"
    using i(1,4) generation_step(1) [OF w] unfolding t'(2) by (auto simp: handle_spent_def next_slot_def Let_def)
qed

subsection \<open>Duplication\<close>

lemma contains_NONE [simp]: "AccessMask_contains a AccessMask_NONE"
  by (simp add: AccessMask_contains_def AccessMask_NONE_def)

lemma contains_refl [simp]: "AccessMask_contains a a"
  by (simp add: AccessMask_contains_def)

definition derived_entry :: "HandleEntry \<Rightarrow> AccessMask option \<Rightarrow> bool option \<Rightarrow> HandleEntry" where
  "derived_entry e acc inh =
     e\<lparr>entry_access := (case acc of Some a \<Rightarrow> a | None \<Rightarrow> entry_access e),
       entry_inheritable := (case inh of Some v \<Rightarrow> v | None \<Rightarrow> entry_inheritable e)\<rparr>"

lemma duplicate_eq:
  "HandleTable_duplicate t h acc inh =
     (case handle_map t h of
        None \<Rightarrow> (Inl InvalidHandle, t)
      | Some e \<Rightarrow>
          if \<exists>a. acc = Some a \<and> \<not> AccessMask_contains (entry_access e) a
          then (Inl (HandleAccessDenied (the acc) (entry_access e)), t)
          else HandleTable_insert t (derived_entry e acc inh))"
  by (auto simp: HandleTable_duplicate_def reference_eq derived_entry_def Let_def split: option.splits)

subsection \<open>Histories of a table\<close>

inductive handle_step :: "HandleTable \<Rightarrow> HandleTable \<Rightarrow> bool" where
  step_insert: "HandleTable_insert t e = (r, t') \<Longrightarrow> handle_step t t'"
| step_close: "HandleTable_close t h = (r', t') \<Longrightarrow> handle_step t t'"
| step_duplicate: "HandleTable_duplicate t h acc inh = (r, t') \<Longrightarrow> handle_step t t'"

text \<open>Generations never go back and a retired slot stays retired.\<close>

definition slots_advance :: "HandleTable \<Rightarrow> HandleTable \<Rightarrow> bool" where
  "slots_advance t t' \<longleftrightarrow> length (handle_slots t') = length (handle_slots t) \<and>
     (\<forall>i<length (handle_slots t). slot_generation (handle_slots t ! i) \<le> slot_generation (handle_slots t' ! i) \<and>
        (slot_retired (handle_slots t ! i) \<longrightarrow> slot_retired (handle_slots t' ! i)))"

lemma slots_advance_refl [simp]: "slots_advance t t"
  by (simp add: slots_advance_def)

lemma slots_advance_update:
  assumes "slot_generation (handle_slots t ! i) \<le> slot_generation s" "slot_retired (handle_slots t ! i) \<longrightarrow> slot_retired s"
  shows "slots_advance t (t\<lparr>handle_slots := (handle_slots t)[i := s], handle_len := n\<rparr>)"
  using assms by (cases "i < length (handle_slots t)") (auto simp: slots_advance_def nth_list_update)

lemma insert_advance: "HandleTable_insert t e = (r, t') \<Longrightarrow> slots_advance t t'"
  by (cases rule: insert_cases) (auto intro: slots_advance_update)

lemma close_advance:
  assumes wf: "handle_table_wf t" and cl: "HandleTable_close t h = (r, t')"
  shows "slots_advance t t'"
proof (cases "handle_map t h")
  case (Some e)
  obtain i where i: "i < length (handle_slots t)" "decode h = Some (i, slot_generation (handle_slots t ! i))"
    using Some by (rule handle_map_SomeD)
  have "slot_generation (handle_slots t ! i) \<le> slot_generation (next_slot (handle_slots t ! i))"
    using generation_step(1) [OF handle_wf_slot [OF wf i(1)]] by (auto simp: next_slot_def Let_def)
  moreover have "slot_retired (handle_slots t ! i) \<longrightarrow> slot_retired (next_slot (handle_slots t ! i))"
    by (simp add: next_slot_def Let_def)
  ultimately show ?thesis using cl Some i(2) by (auto simp: close_eq intro: slots_advance_update)
qed (use cl in \<open>simp add: close_eq\<close>)

lemma spent_advance:
  assumes adv: "slots_advance t t'" and "handle_spent t h"
  shows "handle_spent t' h"
proof -
  obtain i g where i: "decode h = Some (i, g)" "i < length (handle_slots t)"
      "g < slot_generation (handle_slots t ! i) \<or>
       g = slot_generation (handle_slots t ! i) \<and> slot_retired (handle_slots t ! i)"
    using assms(2) by (auto simp: handle_spent_def)
  then have "slot_generation (handle_slots t ! i) \<le> slot_generation (handle_slots t' ! i)"
      "slot_retired (handle_slots t ! i) \<Longrightarrow> slot_retired (handle_slots t' ! i)"
      "i < length (handle_slots t')"
    using adv by (auto simp: slots_advance_def)
  then have "g < slot_generation (handle_slots t' ! i) \<or>
      g = slot_generation (handle_slots t' ! i) \<and> slot_retired (handle_slots t' ! i)"
    using i(3) by fastforce
  then show ?thesis using i(1) \<open>i < length (handle_slots t')\<close> by (auto simp: handle_spent_def)
qed

lemma duplicate_is_insert:
  assumes "HandleTable_duplicate t h acc inh = (r, t')"
  shows "t' = t \<or> (\<exists>e r. HandleTable_insert t e = (r, t'))"
  using assms by (auto simp: duplicate_eq split: option.splits if_splits)

lemma handle_step_cases:
  assumes "handle_step t t'"
  shows "t' = t \<or> (\<exists>e r. HandleTable_insert t e = (r, t')) \<or> (\<exists>h r. HandleTable_close t h = (r, t'))"
  using assms duplicate_is_insert by cases blast+

lemma insert_keeps_live:
  assumes wf: "handle_table_wf t" and ins: "HandleTable_insert t e = (r, t')" and l: "handle_map t h \<noteq> None"
  shows "handle_map t' h = handle_map t h"
proof (cases r)
  case (Inl err)
  from ins have "t' = t" by (cases rule: insert_cases) (simp_all add: Inl)
  then show ?thesis by simp
next
  case (Inr k)
  then show ?thesis using insert_map [OF wf, of e k t'] ins l by auto
qed

interpretation handles: generation_keys handle_step handle_table_wf "\<lambda>t h. handle_map t h \<noteq> None" handle_spent
proof unfold_locales
  fix t t' h
  show "handle_table_wf t'" if wf: "handle_table_wf t" and "handle_step t t'"
    using handle_step_cases [OF that(2)]
  proof (elim disjE exE)
    fix k r assume c: "HandleTable_close t k = (r, t')"
    then show ?thesis using close_spec(2) [OF wf _ c] wf by (cases "handle_map t k") (auto simp: close_eq)
  qed (use wf insert_wf in auto)
  show "\<not> handle_map t h \<noteq> None" if "handle_spent t h"
    using that by (auto simp: handle_spent_def handle_map_def slot_live_def)
  have adv: "slots_advance t t'" if "handle_table_wf t" "handle_step t t'"
    using handle_step_cases [OF that(2)] insert_advance close_advance [OF that(1)] by auto
  show "handle_spent t' h" if "handle_table_wf t" "handle_step t t'" "handle_spent t h"
    using spent_advance adv that by blast
  show "handle_spent t' h"
    if wf: "handle_table_wf t" and "handle_step t t'" and l: "handle_map t h \<noteq> None" "\<not> handle_map t' h \<noteq> None"
    using handle_step_cases [OF that(2)]
  proof (elim disjE exE)
    fix k r assume c: "HandleTable_close t k = (r, t')"
    show ?thesis
    proof (cases "handle_map t k")
      case None
      then show ?thesis using c l by (simp add: close_eq)
    next
      case (Some e)
      note cs = close_spec [OF wf Some c]
      then have "h = k" using l by (metis fun_upd_apply)
      then show ?thesis using cs(4) by simp
    qed
  next
    fix e r assume "HandleTable_insert t e = (r, t')"
    from insert_keeps_live [OF wf this l(1)] show ?thesis using l by simp
  qed (use l in simp)
qed

subsection \<open>Properties\<close>

text \<open>
  Encoding and decoding of handles are inverse on the indices and generations a table uses:
  an issued handle decodes to its slot and generation and is not null, and every handle that
  decodes at all is the encoding of what it decodes to, so different slots or generations never
  share a handle.
\<close>

theorem handle_encoding_roundtrip:
  "(index < MAX_HANDLE_ENTRIES \<and> 1 \<le> g \<and> g \<le> MAX_ISSUED_GENERATION \<longrightarrow>
     decode (encode index g) = Some (index, g) \<and> \<not> GuestHandle_is_null (encode index g)) \<and>
   (decode h = Some (index, g) \<longrightarrow> encode index g = h)"
proof (intro conjI impI)
  assume a: "index < MAX_HANDLE_ENTRIES \<and> 1 \<le> g \<and> g \<le> MAX_ISSUED_GENERATION"
  then show d: "decode (encode index g) = Some (index, g)" by (simp add: decode_encode MAX_HANDLE_ENTRIES_eq)
  have "decode (GuestHandle 0) = None" by (simp add: decode_def Let_def)
  then show "\<not> GuestHandle_is_null (encode index g)"
    using d by (cases "encode index g") (auto simp: GuestHandle_is_null_def)
qed (rule encode_decode)

theorem handle_encoding_roundtrip_witness:
  "decode (encode 7 3) = Some (7, 3) \<and> encode 7 3 = GuestHandle 0x3008"
proof -
  have "(7 :: nat) < MAX_HANDLE_ENTRIES" "(1 :: u32) \<le> 3" "(3 :: u32) \<le> MAX_ISSUED_GENERATION"
    by (simp_all add: MAX_HANDLE_ENTRIES_eq MAX_ISSUED_GENERATION_eq)
  then show ?thesis
    using handle_encoding_roundtrip [of 7 3] by (simp add: encode_def INDEX_BITS_def)
qed


abbreviation "sample_handles \<equiv> \<lparr>handle_slots = [Slot_EMPTY, Slot_EMPTY], handle_len = 0\<rparr>"
abbreviation "sample_entry \<equiv> \<lparr>entry_object_id = 9, entry_object_type = EventType,
  entry_access = AccessMask_SYNCHRONIZE, entry_inheritable = False\<rparr>"

lemma sample_handles_wf: "handle_table_wf sample_handles"
  by (simp add: handle_table_wf_def handle_slot_wf_def Slot_EMPTY_def MAX_HANDLE_ENTRIES_eq MAX_ISSUED_GENERATION_eq)

abbreviation "sample_filled \<equiv>
  \<lparr>handle_slots = [Slot_EMPTY\<lparr>slot_occupied := True, slot_entry := sample_entry\<rparr>, Slot_EMPTY], handle_len = 1\<rparr>"

lemma sample_insert: "HandleTable_insert sample_handles sample_entry = (Inr (GuestHandle 0x1001), sample_filled)"
  by (simp add: HandleTable_insert_def position_def Slot_EMPTY_def encode_def INDEX_BITS_def)

lemma sample_filled_wf: "handle_table_wf sample_filled"
  using insert_wf [OF sample_handles_wf sample_insert] .


text \<open>
  C33. A handle that has been closed never becomes valid again: whatever is inserted, closed or
  duplicated afterwards, looking it up, referencing it or closing it fails as an invalid handle.
\<close>

theorem handle_never_reused:
  assumes "handle_table_wf t" "HandleTable_close t h = (Inr e, t')" "handle_step\<^sup>*\<^sup>* t' t''"
  shows "handle_map t'' h = None \<and> HandleTable_reference t'' h ty acc = Inl InvalidHandle \<and>
    HandleTable_close t'' h = (Inl InvalidHandle, t'')"
proof -
  have l: "handle_map t h \<noteq> None" using assms(2) by (auto simp: close_eq split: option.splits)
  then obtain e' where e': "handle_map t h = Some e'" by auto
  have gone: "\<not> handle_map t' h \<noteq> None" using close_spec(3) [OF assms(1) e' assms(2)] by simp
  have "handle_step\<^sup>*\<^sup>* t t'" using step_close [OF assms(2)] by blast
  then have "\<not> handle_map t'' h \<noteq> None" using handles.never_again [OF assms(1) l _ gone assms(3)] by blast
  then show ?thesis by (simp add: reference_eq close_eq)
qed

lemma sample_close:
  "HandleTable_close sample_filled (GuestHandle 0x1001) =
     (Inr sample_entry, \<lparr>handle_slots = [Slot_EMPTY\<lparr>slot_generation := 2\<rparr>, Slot_EMPTY], handle_len = 0\<rparr>)"
  by (simp add: HandleTable_close_def decode_def INDEX_BITS_def INDEX_MASK_def Slot_EMPTY_def Let_def
      MAX_ISSUED_GENERATION_eq index_opt_def)

theorem handle_never_reused_witness:
  "\<exists>t' t''. HandleTable_close sample_filled (GuestHandle 0x1001) = (Inr sample_entry, t') \<and>
     HandleTable_insert t' sample_entry = (Inr (GuestHandle 0x2001), t'') \<and>
     handle_map t'' (GuestHandle 0x1001) = None"
proof -
  define t' where "t' = \<lparr>handle_slots = [Slot_EMPTY\<lparr>slot_generation := 2\<rparr>, Slot_EMPTY], handle_len = 0\<rparr>"
  obtain t'' where n: "HandleTable_insert t' sample_entry = (Inr (GuestHandle 0x2001), t'')"
    by (simp add: t'_def HandleTable_insert_def position_def Slot_EMPTY_def encode_def INDEX_BITS_def)
  have "handle_step\<^sup>*\<^sup>* t' t''" using step_insert [OF n] by blast
  from handle_never_reused [OF sample_filled_wf sample_close [folded t'_def] this] show ?thesis
    using sample_close n by (auto simp: t'_def)
qed

text \<open>
  Duplicating a handle never adds rights: the new handle is bound to the same object and type,
  and its access mask is contained in that of the source; a request for rights the source does not
  have is refused and changes nothing.
\<close>

theorem duplicate_attenuates:
  assumes "handle_table_wf t" "HandleTable_duplicate t h acc inh = (r, t')"
  shows "case r of
      Inr k \<Rightarrow> \<exists>e e'. handle_map t h = Some e \<and> handle_map t' = (handle_map t)(k \<mapsto> e') \<and> handle_map t k = None \<and>
        entry_object_id e' = entry_object_id e \<and> entry_object_type e' = entry_object_type e \<and>
        AccessMask_contains (entry_access e) (entry_access e')
    | Inl err \<Rightarrow> t' = t"
proof (cases "handle_map t h")
  case None
  then show ?thesis using assms(2) by (auto simp: duplicate_eq)
next
  case (Some e)
  show ?thesis
  proof (cases "\<exists>a. acc = Some a \<and> \<not> AccessMask_contains (entry_access e) a")
    case True
    then show ?thesis using assms(2) Some by (auto simp: duplicate_eq)
  next
    case False
    then have ins: "HandleTable_insert t (derived_entry e acc inh) = (r, t')"
      using assms(2) Some by (auto simp: duplicate_eq split: if_splits)
    have c: "AccessMask_contains (entry_access e) (entry_access (derived_entry e acc inh))"
      using False by (auto simp: derived_entry_def split: option.splits)
    show ?thesis
    proof (cases r)
      case (Inl err)
      from ins have "t' = t" by (cases rule: insert_cases) (simp_all add: Inl)
      then show ?thesis by (simp add: Inl)
    next
      case (Inr k)
      then show ?thesis
        using insert_map(1,2) [OF assms(1), of "derived_entry e acc inh" k t'] ins c Some
        by (auto simp: derived_entry_def)
    qed
  qed
qed

theorem duplicate_attenuates_witness:
  "HandleTable_duplicate sample_filled (GuestHandle 0x1001) (Some AccessMask_GENERIC_WRITE) None =
     (Inl (HandleAccessDenied AccessMask_GENERIC_WRITE AccessMask_SYNCHRONIZE), sample_filled)"
proof -
  have m: "handle_map sample_filled (GuestHandle 0x1001) = Some sample_entry"
    by (simp add: handle_map_def decode_def INDEX_BITS_def INDEX_MASK_def Slot_EMPTY_def slot_live_def)
  have n: "\<not> AccessMask_contains AccessMask_SYNCHRONIZE AccessMask_GENERIC_WRITE"
    by (simp add: AccessMask_contains_def AccessMask_SYNCHRONIZE_def AccessMask_GENERIC_WRITE_def)
  obtain r t' where d: "HandleTable_duplicate sample_filled (GuestHandle 0x1001) (Some AccessMask_GENERIC_WRITE) None = (r, t')"
    by (cases "HandleTable_duplicate sample_filled (GuestHandle 0x1001) (Some AccessMask_GENERIC_WRITE) None")
  then have "r = Inl (HandleAccessDenied AccessMask_GENERIC_WRITE AccessMask_SYNCHRONIZE)"
    using m n by (simp add: duplicate_eq)
  then show ?thesis using duplicate_attenuates [OF sample_filled_wf d] d by simp
qed

end
