(* ===== verification/Nt_Modules.thy ===== *)
theory Nt_Modules
  imports Nt_Handle
begin

text \<open>
  The module registry of \<open>user/winhost-core/src/imports.rs\<close>: canonical module names, export names,
  registration of images and exports, and the resolution of imports. A fixed buffer with a length is
  the list of its used bytes; the unused tail of such a buffer is always zero.
\<close>

subsection \<open>Names\<close>

definition MAX_IMPORT_NAME_BYTES :: nat where
  "MAX_IMPORT_NAME_BYTES = 256"

definition MAX_MODULE_NAME_BYTES :: nat where
  "MAX_MODULE_NAME_BYTES = MAX_IMPORT_NAME_BYTES"

definition MAX_EXPORT_NAME_BYTES :: nat where
  "MAX_EXPORT_NAME_BYTES = MAX_IMPORT_NAME_BYTES"

definition MAX_FORWARDER_NAME_BYTES :: nat where
  "MAX_FORWARDER_NAME_BYTES = MAX_IMPORT_NAME_BYTES"

definition MAX_REGISTERED_MODULES :: nat where
  "MAX_REGISTERED_MODULES = 256"

definition MAX_REGISTERED_EXPORTS :: nat where
  "MAX_REGISTERED_EXPORTS = 4096"

text \<open>The ASCII predicates of \<open>core\<close> on bytes.\<close>

definition is_ascii_alphanumeric :: "u8 \<Rightarrow> bool" where
  "is_ascii_alphanumeric b \<longleftrightarrow> (0x30 \<le> b \<and> b \<le> 0x39) \<or> (0x41 \<le> b \<and> b \<le> 0x5A) \<or> (0x61 \<le> b \<and> b \<le> 0x7A)"

definition to_ascii_uppercase :: "u8 \<Rightarrow> u8" where
  "to_ascii_uppercase b = (if 0x61 \<le> b \<and> b \<le> 0x7A then b - 0x20 else b)"

definition ascii :: "string \<Rightarrow> u8 list" where
  "ascii s = map of_char s"

datatype ModuleError =
    ModuleInvalidCapacity nat nat
  | InvalidModuleName
  | InvalidSymbolName
  | InvalidOrdinal
  | InvalidForwarder
  | InvalidImageRange
  | OverlappingImage
  | DuplicateModule
  | ModuleTableFull
  | InvalidModuleId
  | ExportOutsideImage
  | DuplicateExport
  | ExportTableFull

datatype ModuleName = ModuleName (ModuleName_as_bytes: "u8 list")

definition ModuleName_EMPTY :: ModuleName where
  "ModuleName_EMPTY = ModuleName []"

definition ModuleName_parse :: "u8 list \<Rightarrow> ModuleError + ModuleName" where
  "ModuleName_parse value =
     (if value = [] \<or> length value > MAX_MODULE_NAME_BYTES then Inl InvalidModuleName
      else if \<exists>byte\<in>set value. \<not> is_ascii_alphanumeric byte \<and> byte \<notin> {0x2E, 0x5F, 0x2D} then Inl InvalidModuleName
      else Inr (ModuleName (map to_ascii_uppercase value)))"

definition starts_with :: "'a list \<Rightarrow> 'a list \<Rightarrow> bool" where
  "starts_with xs p \<longleftrightarrow> take (length p) xs = p"

definition ModuleName_is_api_set :: "ModuleName \<Rightarrow> bool" where
  "ModuleName_is_api_set self \<longleftrightarrow>
     starts_with (ModuleName_as_bytes self) (ascii ''API-MS-WIN-'') \<or>
     starts_with (ModuleName_as_bytes self) (ascii ''EXT-MS-WIN-'')"

datatype SymbolName = SymbolName (SymbolName_as_bytes: "u8 list")

definition SymbolName_parse :: "u8 list \<Rightarrow> ModuleError + SymbolName" where
  "SymbolName_parse value =
     (if value = [] \<or> length value > MAX_EXPORT_NAME_BYTES then Inl InvalidSymbolName
      else if \<exists>byte\<in>set value. \<not> (0x20 \<le> byte \<and> byte \<le> 0x7E) then Inl InvalidSymbolName
      else Inr (SymbolName value))"

datatype ForwarderName = ForwarderName (ForwarderName_as_bytes: "u8 list")

text \<open>The loop of \<open>parse\<close>: it rejects bytes outside the printable range and remembers the last dot.\<close>

fun last_dot :: "nat \<Rightarrow> nat option \<Rightarrow> u8 list \<Rightarrow> ModuleError + nat option" where
  "last_dot index dot [] = Inr dot"
| "last_dot index dot (byte # rest) =
     (if \<not> (0x21 \<le> byte \<and> byte \<le> 0x7E) then Inl InvalidForwarder
      else last_dot (index + 1) (if byte = 0x2E then Some index else dot) rest)"

definition ForwarderName_parse :: "u8 list \<Rightarrow> ModuleError + ForwarderName" where
  "ForwarderName_parse value =
     (if value = [] \<or> length value > MAX_FORWARDER_NAME_BYTES then Inl InvalidForwarder
      else
        and_then (last_dot 0 None value) (\<lambda>dot.
          if dot \<in> {None, Some 0} \<or> dot = Some (length value - 1) then Inl InvalidForwarder
          else Inr (ForwarderName value)))"

subsection \<open>The registry\<close>

record ModuleId =
  module_slot :: u16
  module_generation :: u16

definition ModuleId_INVALID :: ModuleId where
  "ModuleId_INVALID = \<lparr>module_slot = 0, module_generation = 0\<rparr>"

datatype ExportQuery = QueryName "u8 list" | QueryOrdinal u16

datatype ExportTargetRegistration = ImageRva u32 | RegisterForwarder "u8 list"

datatype StoredSelector = SelectorEmpty | SelectorName SymbolName | SelectorOrdinal u16

datatype StoredTarget = TargetEmpty | TargetAddress u64 | TargetForwarder ForwarderName

record ExportEntry =
  export_occupied :: bool
  export_module :: ModuleId
  export_selector :: StoredSelector
  export_target :: StoredTarget

definition ExportEntry_EMPTY :: ExportEntry where
  "ExportEntry_EMPTY =
     \<lparr>export_occupied = False, export_module = ModuleId_INVALID, export_selector = SelectorEmpty,
      export_target = TargetEmpty\<rparr>"

record ModuleSlot =
  mod_occupied :: bool
  mod_retired :: bool
  mod_generation :: u16
  mod_name :: ModuleName
  mod_image_base :: u64
  mod_image_size :: u32

definition ModuleSlot_EMPTY :: ModuleSlot where
  "ModuleSlot_EMPTY =
     \<lparr>mod_occupied = False, mod_retired = False, mod_generation = 1, mod_name = ModuleName_EMPTY,
      mod_image_base = 0, mod_image_size = 0\<rparr>"

datatype ImportResolution =
    Resolved ModuleId u64
  | ResolutionInvalidModuleName
  | ResolutionInvalidSymbol
  | UnsupportedApiSet
  | ModuleNotFound
  | SymbolNotFound ModuleId
  | UnsupportedForwarder ModuleId ForwarderName

record ModuleRegistry =
  reg_modules :: "ModuleSlot list"
  reg_exports :: "ExportEntry list"
  reg_len :: nat
  reg_export_count :: nat

definition ModuleRegistry_try_new :: "nat \<Rightarrow> nat \<Rightarrow> ModuleError + ModuleRegistry" where
  "ModuleRegistry_try_new m e =
     (if m = 0 \<or> m > MAX_REGISTERED_MODULES \<or> e = 0 \<or> e > MAX_REGISTERED_EXPORTS
      then Inl (ModuleInvalidCapacity m e)
      else Inr \<lparr>reg_modules = replicate m ModuleSlot_EMPTY, reg_exports = replicate e ExportEntry_EMPTY,
                reg_len = 0, reg_export_count = 0\<rparr>)"

fun image_conflict :: "ModuleName \<Rightarrow> u64 \<Rightarrow> u64 \<Rightarrow> ModuleSlot list \<Rightarrow> ModuleError option" where
  "image_conflict name image_base image_end [] = None"
| "image_conflict name image_base image_end (slot # rest) =
     (if mod_occupied slot then
        if mod_name slot = name then Some DuplicateModule
        else
          let slot_end = mod_image_base slot + ucast (mod_image_size slot) in
          if image_base < slot_end \<and> mod_image_base slot < image_end then Some OverlappingImage
          else image_conflict name image_base image_end rest
      else image_conflict name image_base image_end rest)"

definition ModuleRegistry_register_module ::
    "ModuleRegistry \<Rightarrow> u8 list \<Rightarrow> u64 \<Rightarrow> u32 \<Rightarrow> (ModuleError + ModuleId) \<times> ModuleRegistry" where
  "ModuleRegistry_register_module self name image_base image_size =
     (case ModuleName_parse name of
        Inl err \<Rightarrow> (Inl err, self)
      | Inr name' \<Rightarrow>
          case opt_filter (\<lambda>_. image_size \<noteq> 0) (checked_add image_base (ucast image_size)) of
            None \<Rightarrow> (Inl InvalidImageRange, self)
          | Some image_end \<Rightarrow>
              case image_conflict name' image_base image_end (reg_modules self) of
                Some err \<Rightarrow> (Inl err, self)
              | None \<Rightarrow>
                  case position (\<lambda>slot. \<not> mod_occupied slot \<and> \<not> mod_retired slot) (reg_modules self) of
                    None \<Rightarrow> (Inl ModuleTableFull, self)
                  | Some index \<Rightarrow>
                      let slot = reg_modules self ! index in
                      (Inr \<lparr>module_slot = of_nat index, module_generation = mod_generation slot\<rparr>,
                       self\<lparr>reg_modules := (reg_modules self)
                              [index := slot\<lparr>mod_occupied := True, mod_name := name', mod_image_base := image_base,
                                            mod_image_size := image_size\<rparr>],
                            reg_len := reg_len self + 1\<rparr>))"

definition ModuleRegistry_module_index :: "ModuleRegistry \<Rightarrow> ModuleId \<Rightarrow> ModuleError + nat" where
  "ModuleRegistry_module_index self id' =
     (let index = unat (module_slot id') in
      and_then (ok_or (index_opt (reg_modules self) index) InvalidModuleId) (\<lambda>slot.
        if \<not> mod_occupied slot \<or> mod_retired slot \<or> mod_generation slot \<noteq> module_generation id'
        then Inl InvalidModuleId else Inr index))"

definition ModuleRegistry_unregister_module ::
    "ModuleRegistry \<Rightarrow> ModuleId \<Rightarrow> (ModuleError + (u64 \<times> u32)) \<times> ModuleRegistry" where
  "ModuleRegistry_unregister_module self id' =
     (case ModuleRegistry_module_index self id' of
        Inl err \<Rightarrow> (Inl err, self)
      | Inr index \<Rightarrow>
          let slot = reg_modules self ! index;
              slot' = slot\<lparr>mod_occupied := False, mod_name := ModuleName_EMPTY, mod_image_base := 0, mod_image_size := 0\<rparr>;
              slot'' = (if mod_generation slot' = - 1 then slot'\<lparr>mod_retired := True\<rparr>
                        else slot'\<lparr>mod_generation := mod_generation slot' + 1\<rparr>);
              mine = (\<lambda>export. export_occupied export \<and> export_module export = id') in
          (Inr (mod_image_base slot, mod_image_size slot),
           self\<lparr>reg_modules := (reg_modules self)[index := slot''],
                reg_exports := map (\<lambda>export. if mine export then ExportEntry_EMPTY else export) (reg_exports self),
                reg_export_count := reg_export_count self - length (filter mine (reg_exports self)),
                reg_len := reg_len self - 1\<rparr>))"

definition stored_selector :: "ExportQuery \<Rightarrow> ModuleError + StoredSelector" where
  "stored_selector query =
     (case query of
        QueryName name \<Rightarrow> and_then (SymbolName_parse name) (\<lambda>n. Inr (SelectorName n))
      | QueryOrdinal ordinal \<Rightarrow> if ordinal = 0 then Inl InvalidOrdinal else Inr (SelectorOrdinal ordinal))"

definition stored_target :: "ModuleSlot \<Rightarrow> ExportTargetRegistration \<Rightarrow> ModuleError + StoredTarget" where
  "stored_target slot target =
     (case target of
        ImageRva rva \<Rightarrow>
          if rva \<ge> mod_image_size slot then Inl ExportOutsideImage
          else and_then (ok_or (checked_add (mod_image_base slot) (ucast rva)) ExportOutsideImage)
                 (\<lambda>address. Inr (TargetAddress address))
      | RegisterForwarder value \<Rightarrow> and_then (ForwarderName_parse value) (\<lambda>f. Inr (TargetForwarder f)))"

definition ModuleRegistry_register_export ::
    "ModuleRegistry \<Rightarrow> ModuleId \<Rightarrow> ExportQuery \<Rightarrow> ExportTargetRegistration \<Rightarrow> (ModuleError + unit) \<times> ModuleRegistry" where
  "ModuleRegistry_register_export self module' query target =
     (case stored_selector query of
        Inl err \<Rightarrow> (Inl err, self)
      | Inr selector \<Rightarrow>
          case ModuleRegistry_module_index self module' of
            Inl err \<Rightarrow> (Inl err, self)
          | Inr module_index \<Rightarrow>
              if \<exists>entry\<in>set (reg_exports self). export_occupied entry \<and> export_module entry = module' \<and>
                   export_selector entry = selector
              then (Inl DuplicateExport, self)
              else if reg_export_count self = length (reg_exports self) then (Inl ExportTableFull, self)
              else
                case stored_target (reg_modules self ! module_index) target of
                  Inl err \<Rightarrow> (Inl err, self)
                | Inr target' \<Rightarrow>
                    case position (\<lambda>entry. \<not> export_occupied entry) (reg_exports self) of
                      None \<Rightarrow> (Inl ExportTableFull, self)
                    | Some index \<Rightarrow>
                        (Inr (),
                         self\<lparr>reg_exports := (reg_exports self)
                                [index := \<lparr>export_occupied = True, export_module = module', export_selector = selector,
                                          export_target = target'\<rparr>],
                              reg_export_count := reg_export_count self + 1\<rparr>))"

definition ModuleRegistry_resolve_stored :: "ModuleRegistry \<Rightarrow> ModuleName \<Rightarrow> StoredSelector \<Rightarrow> ImportResolution" where
  "ModuleRegistry_resolve_stored self module_name selector =
     (if ModuleName_is_api_set module_name then UnsupportedApiSet
      else
        case position (\<lambda>slot. mod_occupied slot \<and> mod_name slot = module_name) (reg_modules self) of
          None \<Rightarrow> ModuleNotFound
        | Some index \<Rightarrow>
            let id' = \<lparr>module_slot = of_nat index, module_generation = mod_generation (reg_modules self ! index)\<rparr> in
            case List.find (\<lambda>entry. export_occupied entry \<and> export_module entry = id' \<and> export_selector entry = selector)
                   (reg_exports self) of
              None \<Rightarrow> SymbolNotFound id'
            | Some export \<Rightarrow>
                (case export_target export of
                   TargetAddress address \<Rightarrow> Resolved id' address
                 | TargetForwarder forwarder \<Rightarrow> UnsupportedForwarder id' forwarder
                 | TargetEmpty \<Rightarrow> SymbolNotFound id'))"

definition ModuleRegistry_resolve :: "ModuleRegistry \<Rightarrow> u8 list \<Rightarrow> ExportQuery \<Rightarrow> ImportResolution" where
  "ModuleRegistry_resolve self module' query =
     (case ModuleName_parse module' of
        Inl _ \<Rightarrow> ResolutionInvalidModuleName
      | Inr module_name \<Rightarrow>
          case stored_selector query of
            Inl _ \<Rightarrow> ResolutionInvalidSymbol
          | Inr selector \<Rightarrow> ModuleRegistry_resolve_stored self module_name selector)"

subsection \<open>The registry invariant\<close>

definition image_set :: "ModuleSlot \<Rightarrow> nat set" where
  "image_set s = {unat (mod_image_base s)..<unat (mod_image_base s) + unat (mod_image_size s)}"

definition module_slot_wf :: "ModuleSlot \<Rightarrow> bool" where
  "module_slot_wf s \<longleftrightarrow> 1 \<le> mod_generation s \<and> (mod_retired s \<longrightarrow> \<not> mod_occupied s) \<and>
     (mod_occupied s \<longrightarrow> mod_image_size s \<noteq> 0 \<and> unat (mod_image_base s) + unat (mod_image_size s) < 2 ^ 64)"

definition modules_ok :: "ModuleSlot list \<Rightarrow> bool" where
  "modules_ok ms \<longleftrightarrow> (\<forall>s\<in>set ms. module_slot_wf s) \<and>
     (\<forall>i<length ms. \<forall>j<length ms. i \<noteq> j \<longrightarrow> mod_occupied (ms ! i) \<longrightarrow> mod_occupied (ms ! j) \<longrightarrow>
        mod_name (ms ! i) \<noteq> mod_name (ms ! j) \<and> image_set (ms ! i) \<inter> image_set (ms ! j) = {})"

definition module_at :: "ModuleSlot list \<Rightarrow> ModuleId \<Rightarrow> ModuleSlot option" where
  "module_at ms i =
     (let k = unat (module_slot i) in
      if k < length ms \<and> mod_occupied (ms ! k) \<and> \<not> mod_retired (ms ! k) \<and> mod_generation (ms ! k) = module_generation i
      then Some (ms ! k) else None)"

definition export_ok :: "ModuleSlot list \<Rightarrow> ExportEntry \<Rightarrow> bool" where
  "export_ok ms e \<longleftrightarrow> (export_occupied e \<longrightarrow> export_target e \<noteq> TargetEmpty \<and>
     (\<exists>s. module_at ms (export_module e) = Some s \<and>
       (\<forall>a. export_target e = TargetAddress a \<longrightarrow> unat a \<in> image_set s)))"

definition exports_distinct :: "ExportEntry list \<Rightarrow> bool" where
  "exports_distinct es \<longleftrightarrow> (\<forall>i<length es. \<forall>j<length es. i \<noteq> j \<longrightarrow> export_occupied (es ! i) \<longrightarrow> export_occupied (es ! j) \<longrightarrow>
     (export_module (es ! i), export_selector (es ! i)) \<noteq> (export_module (es ! j), export_selector (es ! j)))"

definition registry_wf :: "ModuleRegistry \<Rightarrow> bool" where
  "registry_wf r \<longleftrightarrow> length (reg_modules r) \<le> 256 \<and> modules_ok (reg_modules r) \<and>
     (\<forall>e\<in>set (reg_exports r). export_ok (reg_modules r) e) \<and> exports_distinct (reg_exports r) \<and>
     reg_len r = length (filter mod_occupied (reg_modules r)) \<and>
     reg_export_count r = length (filter export_occupied (reg_exports r))"

lemma module_index_eq:
  "ModuleRegistry_module_index r i =
     (if module_at (reg_modules r) i = None then Inl InvalidModuleId else Inr (unat (module_slot i)))"
  by (auto simp: ModuleRegistry_module_index_def module_at_def Let_def index_opt_def)

lemma module_at_SomeD:
  assumes "module_at ms i = Some s"
  shows "unat (module_slot i) < length ms" "ms ! unat (module_slot i) = s" "mod_occupied s" "\<not> mod_retired s"
    "mod_generation s = module_generation i"
  using assms by (auto simp: module_at_def Let_def split: if_splits)

lemma ucast_size: "unat (ucast (n :: u32) :: u64) = unat n"
  using unat_less_exp [of n] by (simp add: unsigned_ucast_eq take_bit_nat_eq_self)

lemma image_end:
  assumes "module_slot_wf s" "mod_occupied s"
  shows "unat (mod_image_base s + ucast (mod_image_size s) :: u64) = unat (mod_image_base s) + unat (mod_image_size s)"
  using assms by (simp add: module_slot_wf_def unat_word_ariths ucast_size)

lemma image_conflict_None:
  assumes "image_conflict name b e ms = None" "\<forall>s\<in>set ms. module_slot_wf s" "s \<in> set ms" "mod_occupied s"
  shows "mod_name s \<noteq> name \<and> image_set s \<inter> {unat b..<unat e} = {}"
  using assms
proof (induction ms)
  case (Cons m ms)
  then show ?case
    by (auto simp: Let_def image_set_def word_less_nat_alt image_end split: if_splits)
qed simp

text \<open>Changing one module slot.\<close>

lemma modules_ok_update:
  assumes ok: "modules_ok ms" and s: "module_slot_wf s" and k: "k < length ms"
    and new: "mod_occupied s \<Longrightarrow> \<forall>j<length ms. j \<noteq> k \<longrightarrow> mod_occupied (ms ! j) \<longrightarrow>
      mod_name (ms ! j) \<noteq> mod_name s \<and> image_set (ms ! j) \<inter> image_set s = {}"
  shows "modules_ok (ms[k := s])"
proof -
  have "\<forall>x\<in>set (ms[k := s]). module_slot_wf x"
    using ok s set_update_subset_insert [of ms k s] by (auto simp: modules_ok_def)
  moreover have "mod_name (ms[k := s] ! i) \<noteq> mod_name (ms[k := s] ! j) \<and>
      image_set (ms[k := s] ! i) \<inter> image_set (ms[k := s] ! j) = {}"
    if "i < length ms" "j < length ms" "i \<noteq> j" "mod_occupied (ms[k := s] ! i)" "mod_occupied (ms[k := s] ! j)" for i j
    using that ok new k by (cases "i = k"; cases "j = k") (auto simp: modules_ok_def)
  ultimately show ?thesis by (simp add: modules_ok_def)
qed

lemma module_at_update_other:
  assumes "module_slot i \<noteq> of_nat k" "k < 256"
  shows "module_at (ms[k := s]) i = module_at ms i"
proof -
  have "unat (module_slot i) \<noteq> k" using assms(1) by (metis of_nat_unat ucast_id)
  then show ?thesis by (simp add: module_at_def Let_def)
qed

text \<open>Filling a free slot leaves the modules that were there in place.\<close>

lemma module_at_fill:
  assumes "\<not> mod_occupied (ms ! k)" "module_at ms i = Some x"
  shows "module_at (ms[k := s]) i = Some x"
proof -
  have "unat (module_slot i) \<noteq> k" using assms module_at_SomeD [OF assms(2)] by auto
  then show ?thesis using assms(2) by (auto simp: module_at_def Let_def split: if_splits)
qed

subsection \<open>Preservation\<close>

lemma registry_new_wf: "ModuleRegistry_try_new m e = Inr r \<Longrightarrow> registry_wf r"
  by (auto simp: ModuleRegistry_try_new_def registry_wf_def modules_ok_def module_slot_wf_def ModuleSlot_EMPTY_def
      ExportEntry_EMPTY_def export_ok_def exports_distinct_def MAX_REGISTERED_MODULES_def split: if_splits)

lemma export_ok_fill:
  assumes "export_ok ms e" "\<not> mod_occupied (ms ! k)"
  shows "export_ok (ms[k := s]) e"
  using assms module_at_fill [OF assms(2)] by (auto simp: export_ok_def)

lemma register_module_Inl: "ModuleRegistry_register_module r name b n = (Inl err, r') \<Longrightarrow> r' = r"
  by (auto simp: ModuleRegistry_register_module_def Let_def split: sum.split_asm option.split_asm)

lemma register_module_Inr:
  assumes "ModuleRegistry_register_module r name b n = (Inr i, r')"
  obtains nm e k where "ModuleName_parse name = Inr nm" "checked_add b (ucast n) = Some e" "n \<noteq> 0"
      "image_conflict nm b e (reg_modules r) = None"
      "position (\<lambda>slot. \<not> mod_occupied slot \<and> \<not> mod_retired slot) (reg_modules r) = Some k"
      "i = \<lparr>module_slot = of_nat k, module_generation = mod_generation (reg_modules r ! k)\<rparr>"
      "r' = r\<lparr>reg_modules := (reg_modules r)[k := (reg_modules r ! k)\<lparr>mod_occupied := True, mod_name := nm,
         mod_image_base := b, mod_image_size := n\<rparr>], reg_len := reg_len r + 1\<rparr>"
  using assms
  by (auto simp: ModuleRegistry_register_module_def Let_def split: sum.split_asm option.split_asm)

text \<open>Registering a module fills one free slot with a name and an image no other module has.\<close>

lemma register_module_spec:
  assumes wf: "registry_wf r" and reg: "ModuleRegistry_register_module r name b n = (res, r')"
  shows "registry_wf r' \<and>
    (case res of
       Inl err \<Rightarrow> r' = r
     | Inr i \<Rightarrow> module_at (reg_modules r) i = None \<and> reg_exports r' = reg_exports r \<and>
         (\<exists>k s. k < length (reg_modules r) \<and> \<not> mod_occupied (reg_modules r ! k) \<and> \<not> mod_retired (reg_modules r ! k) \<and>
           i = \<lparr>module_slot = of_nat k, module_generation = mod_generation (reg_modules r ! k)\<rparr> \<and>
           reg_modules r' = (reg_modules r)[k := s] \<and> mod_generation s = mod_generation (reg_modules r ! k) \<and>
           \<not> mod_retired s \<and> mod_occupied s \<and> ModuleName_parse name = Inr (mod_name s) \<and>
           image_set s = {unat b..<unat b + unat n}))"
proof (cases "\<exists>err. res = Inl err")
  case True
  then have "r' = r" using reg register_module_Inl by blast
  then show ?thesis using True wf by auto
next
  case False
  then obtain i where i: "res = Inr i" by (cases res) auto
  obtain nm e k where c: "ModuleName_parse name = Inr nm" "checked_add b (ucast n) = Some e" "n \<noteq> 0"
      "image_conflict nm b e (reg_modules r) = None"
      "position (\<lambda>slot. \<not> mod_occupied slot \<and> \<not> mod_retired slot) (reg_modules r) = Some k"
      "i = \<lparr>module_slot = of_nat k, module_generation = mod_generation (reg_modules r ! k)\<rparr>"
      "r' = r\<lparr>reg_modules := (reg_modules r)[k := (reg_modules r ! k)\<lparr>mod_occupied := True, mod_name := nm,
         mod_image_base := b, mod_image_size := n\<rparr>], reg_len := reg_len r + 1\<rparr>"
    by (rule register_module_Inr [OF reg [unfolded i]])
  define s where "s = (reg_modules r ! k)\<lparr>mod_occupied := True, mod_name := nm, mod_image_base := b, mod_image_size := n\<rparr>"
  note k = position_SomeD(1,2) [OF c(5)]
  have mok: "modules_ok (reg_modules r)" "length (reg_modules r) \<le> 256" using wf by (simp_all add: registry_wf_def)
  have e: "unat e = unat b + unat n" "unat b + unat n < 2 ^ 64"
    using c(2) by (auto simp: checked_add_eq_Some ucast_size)
  have img: "image_set s = {unat b..<unat e}" by (simp add: image_set_def s_def e(1))
  have "module_slot_wf (reg_modules r ! k)" using mok(1) k(1) by (simp add: modules_ok_def)
  then have sw: "module_slot_wf s" using c(3) e(2) k(2) by (simp add: module_slot_wf_def s_def)
  have "mod_name x \<noteq> nm \<and> image_set x \<inter> image_set s = {}" if "x \<in> set (reg_modules r)" "mod_occupied x" for x
    using image_conflict_None [OF c(4) _ that] mok(1) img by (simp add: modules_ok_def)
  then have "modules_ok ((reg_modules r)[k := s])"
    by (intro modules_ok_update [OF mok(1) sw k(1)]) (simp add: s_def)
  moreover have "length (filter mod_occupied ((reg_modules r)[k := s])) = reg_len r + 1"
    using length_filter_update [OF k(1), of mod_occupied s] k(2) wf by (simp add: s_def registry_wf_def)
  moreover have "\<forall>x\<in>set (reg_exports r). export_ok ((reg_modules r)[k := s]) x"
    using wf k(2) export_ok_fill by (auto simp: registry_wf_def)
  ultimately have "registry_wf r'" using wf unfolding c(7) by (simp add: registry_wf_def s_def)
  moreover have "unat (of_nat k :: u16) = k" using k(1) mok(2) by (simp add: unat_of_nat take_bit_nat_eq_self)
  then have "module_at (reg_modules r) \<lparr>module_slot = of_nat k, module_generation = mod_generation (reg_modules r ! k)\<rparr> = None"
    using k(2) by (simp add: module_at_def)
  moreover have "reg_modules r' = (reg_modules r)[k := s]" "reg_exports r' = reg_exports r"
    by (simp_all add: c(7) s_def)
  moreover have "image_set s = {unat b..<unat b + unat n}" using img e(1) by simp
  moreover have "mod_generation s = mod_generation (reg_modules r ! k)" "\<not> mod_retired s" "mod_occupied s" "mod_name s = nm"
    using k(2) by (simp_all add: s_def)
  ultimately show ?thesis
    unfolding i c(6) sum.case using c(1) k by (intro conjI exI [of _ k] exI [of _ s]) simp_all
qed

lemma word_one_le: "(1 :: 'a::len word) \<le> x \<longleftrightarrow> x \<noteq> 0"
  using word_gt_0 [of x] by (simp add: word_le_nat_alt word_less_nat_alt Suc_le_eq)

text \<open>Unregistering removes the module's slot and exactly its exports.\<close>

lemma filter_length_split:
  "length (filter P xs) = length (filter (\<lambda>x. P x \<and> Q x) xs) + length (filter (\<lambda>x. P x \<and> \<not> Q x) xs)"
  by (induction xs) auto

lemma unregister_spec:
  assumes wf: "registry_wf r" and s: "module_at (reg_modules r) i = Some s"
    and un: "ModuleRegistry_unregister_module r i = (res, r')"
  shows "registry_wf r' \<and> res = Inr (mod_image_base s, mod_image_size s) \<and>
    module_at (reg_modules r') i = None \<and>
    (\<forall>j. j \<noteq> i \<longrightarrow> module_at (reg_modules r') j = module_at (reg_modules r) j) \<and>
    (\<forall>e\<in>set (reg_exports r'). export_occupied e \<longrightarrow> export_module e \<noteq> i)"
proof -
  define k where "k = unat (module_slot i)"
  note m = module_at_SomeD [OF s, folded k_def]
  define s' where "s' = (let s1 = s\<lparr>mod_occupied := False, mod_name := ModuleName_EMPTY, mod_image_base := 0, mod_image_size := 0\<rparr> in
    if mod_generation s = - 1 then s1\<lparr>mod_retired := True\<rparr> else s1\<lparr>mod_generation := mod_generation s + 1\<rparr>)"
  define mine where "mine = (\<lambda>e :: ExportEntry. export_occupied e \<and> export_module e = i)"
  have r': "res = Inr (mod_image_base s, mod_image_size s)"
      "r' = r\<lparr>reg_modules := (reg_modules r)[k := s'],
         reg_exports := map (\<lambda>e. if mine e then ExportEntry_EMPTY else e) (reg_exports r),
         reg_export_count := reg_export_count r - length (filter mine (reg_exports r)), reg_len := reg_len r - 1\<rparr>"
    using un s m by (auto simp: ModuleRegistry_unregister_module_def module_index_eq Let_def k_def s'_def mine_def)
  have mok: "modules_ok (reg_modules r)" "length (reg_modules r) \<le> 256" using wf by (simp_all add: registry_wf_def)
  have sw: "module_slot_wf s" using mok(1) m(1,2) by (auto simp: modules_ok_def)
  have occ: "\<not> mod_occupied s'" by (simp add: s'_def Let_def)
  have gen: "1 \<le> mod_generation s + 1" if "mod_generation s \<noteq> - 1"
    using that word_one_le [of "mod_generation s + 1"] by (simp add: add_eq_0_iff2)
  have "module_slot_wf s'" using sw gen by (auto simp: module_slot_wf_def s'_def Let_def)
  then have "modules_ok ((reg_modules r)[k := s'])" using occ by (intro modules_ok_update [OF mok(1) _ m(1)]) auto
  moreover have at: "module_at ((reg_modules r)[k := s']) j = (if j = i then None else module_at (reg_modules r) j)" for j
  proof (cases "unat (module_slot j) = k")
    case True
    then have "module_at (reg_modules r) j = None" if "j \<noteq> i"
      using that m by (auto simp: module_at_def Let_def k_def word_unat_eq_iff [symmetric])
    then show ?thesis using True m(1) occ by (auto simp: module_at_def)
  next
    case False
    then show ?thesis by (auto simp: module_at_def Let_def k_def)
  qed
  moreover have "export_ok ((reg_modules r)[k := s']) e" if "e \<in> set (reg_exports r')" for e
    using that wf at unfolding r'(2)
    by (auto simp: export_ok_def ExportEntry_EMPTY_def registry_wf_def mine_def split: if_splits)
  moreover have "exports_distinct (reg_exports r')"
    using wf unfolding r'(2) by (auto simp: exports_distinct_def registry_wf_def ExportEntry_EMPTY_def)
  moreover have "length (filter mod_occupied ((reg_modules r)[k := s'])) = reg_len r - 1"
    using length_filter_update [OF m(1), of mod_occupied s'] occ m(2,3) wf by (simp add: registry_wf_def)
  moreover have "length (filter export_occupied (reg_exports r')) = reg_export_count r'"
  proof -
    have "length (filter export_occupied (map (\<lambda>e. if mine e then ExportEntry_EMPTY else e) xs)) =
        length (filter (\<lambda>e. export_occupied e \<and> \<not> mine e) xs)" for xs
      by (induction xs) (auto simp: ExportEntry_EMPTY_def)
    moreover have "(\<lambda>e. export_occupied e \<and> mine e) = mine" by (auto simp: mine_def fun_eq_iff)
    ultimately show ?thesis
      using filter_length_split [of export_occupied "reg_exports r" mine] wf unfolding r'(2) by (simp add: registry_wf_def)
  qed
  ultimately have "registry_wf r'" using mok(2) unfolding r'(2) by (simp add: registry_wf_def)
  moreover have "\<forall>e\<in>set (reg_exports r'). export_occupied e \<longrightarrow> export_module e \<noteq> i"
    unfolding r'(2) by (auto simp: mine_def ExportEntry_EMPTY_def)
  ultimately show ?thesis using r' at by simp
qed

text \<open>Registering an export fills one free entry of the export table.\<close>

lemma register_export_Inl: "ModuleRegistry_register_export r i q t = (Inl err, r') \<Longrightarrow> r' = r"
  by (auto simp: ModuleRegistry_register_export_def split: sum.split_asm option.split_asm if_split_asm)

lemma register_export_Inr:
  assumes "ModuleRegistry_register_export r i q t = (Inr u, r')"
  obtains sel s tgt k where "stored_selector q = Inr sel" "module_at (reg_modules r) i = Some s"
    "\<forall>x\<in>set (reg_exports r). \<not> (export_occupied x \<and> export_module x = i \<and> export_selector x = sel)"
    "stored_target s t = Inr tgt" "k < length (reg_exports r)" "\<not> export_occupied (reg_exports r ! k)"
    "r' = r\<lparr>reg_exports := (reg_exports r)[k := \<lparr>export_occupied = True, export_module = i, export_selector = sel,
       export_target = tgt\<rparr>], reg_export_count := reg_export_count r + 1\<rparr>"
proof -
  obtain sel n tgt k where c: "stored_selector q = Inr sel" "ModuleRegistry_module_index r i = Inr n"
    "\<forall>x\<in>set (reg_exports r). \<not> (export_occupied x \<and> export_module x = i \<and> export_selector x = sel)"
    "stored_target (reg_modules r ! n) t = Inr tgt" "position (\<lambda>entry. \<not> export_occupied entry) (reg_exports r) = Some k"
    "r' = r\<lparr>reg_exports := (reg_exports r)[k := \<lparr>export_occupied = True, export_module = i, export_selector = sel,
       export_target = tgt\<rparr>], reg_export_count := reg_export_count r + 1\<rparr>"
    using assms by (auto simp: ModuleRegistry_register_export_def split: sum.split_asm option.split_asm if_split_asm)
  then obtain s where s: "module_at (reg_modules r) i = Some s" "n = unat (module_slot i)"
    by (auto simp: module_index_eq split: if_splits)
  show thesis
    using that [OF c(1) s(1) c(3) _ position_SomeD(1,2) [OF c(5)] c(6)] c(4) s(2) module_at_SomeD(2) [OF s(1)] by simp
qed

lemma stored_target_image:
  assumes "stored_target s t = Inr tgt"
  shows "tgt \<noteq> TargetEmpty \<and> (\<forall>a. tgt = TargetAddress a \<longrightarrow> unat a \<in> image_set s)"
  using assms
  by (auto simp: stored_target_def and_then_eq_Inr checked_add_eq_Some image_set_def ucast_size word_le_nat_alt not_le
      split: ExportTargetRegistration.splits if_splits)

lemma register_export_wf:
  assumes wf: "registry_wf r" and reg: "ModuleRegistry_register_export r i q t = (res, r')"
  shows "registry_wf r'"
proof (cases res)
  case (Inl err)
  then show ?thesis using wf reg register_export_Inl by blast
next
  case (Inr u)
  obtain sel s tgt k where c: "stored_selector q = Inr sel" "module_at (reg_modules r) i = Some s"
    "\<forall>x\<in>set (reg_exports r). \<not> (export_occupied x \<and> export_module x = i \<and> export_selector x = sel)"
    "stored_target s t = Inr tgt" "k < length (reg_exports r)" "\<not> export_occupied (reg_exports r ! k)"
    "r' = r\<lparr>reg_exports := (reg_exports r)[k := \<lparr>export_occupied = True, export_module = i, export_selector = sel,
       export_target = tgt\<rparr>], reg_export_count := reg_export_count r + 1\<rparr>"
    by (rule register_export_Inr [OF reg [unfolded Inr]])
  define x where "x = \<lparr>export_occupied = True, export_module = i, export_selector = sel, export_target = tgt\<rparr>"
  have "export_ok (reg_modules r) x" using c(2) stored_target_image [OF c(4)] by (simp add: export_ok_def x_def)
  then have "\<forall>y\<in>set ((reg_exports r)[k := x]). export_ok (reg_modules r) y"
    using wf set_update_subset_insert [of "reg_exports r" k x] by (auto simp: registry_wf_def)
  moreover have "exports_distinct ((reg_exports r)[k := x])"
    using wf c(3,5) by (auto simp: registry_wf_def exports_distinct_def x_def nth_list_update all_set_conv_all_nth)
  moreover have "length (filter export_occupied ((reg_exports r)[k := x])) = reg_export_count r + 1"
    using length_filter_update [OF c(5), of export_occupied x] c(6) wf by (simp add: x_def registry_wf_def)
  ultimately show ?thesis using wf unfolding c(7) by (simp add: registry_wf_def x_def)
qed

subsection \<open>Resolution\<close>

lemma position_unique:
  assumes "k < length xs" "P (xs ! k)" "\<forall>j<length xs. P (xs ! j) \<longrightarrow> j = k"
  shows "position P xs = Some k"
proof (cases "position P xs")
  case None
  then show ?thesis using assms(1,2) nth_mem [of k xs] by (simp add: position_None)
next
  case (Some j)
  then have "j = k" using position_SomeD(1,2) [OF Some] assms(3) by blast
  then show ?thesis using Some by simp
qed

lemma find_update:
  assumes "k < length xs" "\<not> P (xs ! k)"
  shows "(P x \<longrightarrow> (\<forall>y\<in>set xs. \<not> P y) \<longrightarrow> List.find P (xs[k := x]) = Some x) \<and>
    (\<not> P x \<longrightarrow> List.find P (xs[k := x]) = List.find P xs)"
  using assms by (induction xs arbitrary: k) (auto simp: nth_Cons split: nat.splits)

definition resolve_export :: "ExportEntry list \<Rightarrow> ModuleId \<Rightarrow> StoredSelector \<Rightarrow> ImportResolution" where
  "resolve_export es i sel =
     (case List.find (\<lambda>x. export_occupied x \<and> export_module x = i \<and> export_selector x = sel) es of
        None \<Rightarrow> SymbolNotFound i
      | Some x \<Rightarrow> (case export_target x of TargetAddress a \<Rightarrow> Resolved i a | TargetForwarder f \<Rightarrow> UnsupportedForwarder i f
                   | TargetEmpty \<Rightarrow> SymbolNotFound i))"

text \<open>On a well-formed registry, resolution finds the one live module with the name.\<close>

lemma resolve_stored_found:
  assumes wf: "registry_wf r" and s: "module_at (reg_modules r) i = Some s" and api: "\<not> ModuleName_is_api_set (mod_name s)"
  shows "ModuleRegistry_resolve_stored r (mod_name s) sel = resolve_export (reg_exports r) i sel"
proof -
  note m = module_at_SomeD [OF s]
  have "position (\<lambda>slot. mod_occupied slot \<and> mod_name slot = mod_name s) (reg_modules r) = Some (unat (module_slot i))"
    using wf m by (intro position_unique) (auto simp: registry_wf_def modules_ok_def)
  moreover have "i = \<lparr>module_slot = of_nat (unat (module_slot i)), module_generation = mod_generation s\<rparr>"
    using m(5) by simp
  ultimately show ?thesis
    using api m(2) by (simp add: ModuleRegistry_resolve_stored_def resolve_export_def Let_def)
qed

lemma resolve_stored_missing:
  assumes wf: "registry_wf r" and no: "\<And>i s. module_at (reg_modules r) i = Some s \<Longrightarrow> mod_name s \<noteq> nm"
  shows "ModuleRegistry_resolve_stored r nm sel = (if ModuleName_is_api_set nm then UnsupportedApiSet else ModuleNotFound)"
proof -
  have "mod_name x \<noteq> nm" if x: "x \<in> set (reg_modules r)" "mod_occupied x" for x
  proof -
    obtain k where k: "k < length (reg_modules r)" "x = reg_modules r ! k" using x(1) by (auto simp: in_set_conv_nth)
    have "unat (of_nat k :: u16) = k" using k(1) wf by (simp add: unat_of_nat take_bit_nat_eq_self registry_wf_def)
    moreover have "\<not> mod_retired x" using wf x by (auto simp: registry_wf_def modules_ok_def module_slot_wf_def)
    ultimately have "module_at (reg_modules r) \<lparr>module_slot = of_nat k, module_generation = mod_generation x\<rparr> = Some x"
      using k x(2) by (simp add: module_at_def)
    then show ?thesis by (rule no)
  qed
  then have "position (\<lambda>slot. mod_occupied slot \<and> mod_name slot = nm) (reg_modules r) = None"
    by (auto simp: position_None)
  then show ?thesis by (simp add: ModuleRegistry_resolve_stored_def)
qed

lemma resolve_stored_cases:
  assumes wf: "registry_wf r" and api: "\<not> ModuleName_is_api_set nm"
  obtains i s where "module_at (reg_modules r) i = Some s" "mod_name s = nm"
      "ModuleRegistry_resolve_stored r nm sel = resolve_export (reg_exports r) i sel"
    | "\<forall>i s. module_at (reg_modules r) i = Some s \<longrightarrow> mod_name s \<noteq> nm" "ModuleRegistry_resolve_stored r nm sel = ModuleNotFound"
  using resolve_stored_found [OF wf] resolve_stored_missing [OF wf, of nm sel] api by metis

subsection \<open>Histories\<close>

inductive module_step :: "ModuleRegistry \<Rightarrow> ModuleRegistry \<Rightarrow> bool" where
  module_register: "ModuleRegistry_register_module r name b n = (res, r') \<Longrightarrow> module_step r r'"
| module_unregister: "ModuleRegistry_unregister_module r i = (res', r') \<Longrightarrow> module_step r r'"
| module_export: "ModuleRegistry_register_export r i q t = (res'', r') \<Longrightarrow> module_step r r'"

definition module_spent :: "ModuleRegistry \<Rightarrow> ModuleId \<Rightarrow> bool" where
  "module_spent r i \<longleftrightarrow>
     (let k = unat (module_slot i) in k < length (reg_modules r) \<and>
        (module_generation i < mod_generation (reg_modules r ! k) \<or>
         module_generation i = mod_generation (reg_modules r ! k) \<and> mod_retired (reg_modules r ! k)))"

definition modules_advance :: "ModuleRegistry \<Rightarrow> ModuleRegistry \<Rightarrow> bool" where
  "modules_advance r r' \<longleftrightarrow> length (reg_modules r') = length (reg_modules r) \<and>
     (\<forall>k<length (reg_modules r). mod_generation (reg_modules r ! k) \<le> mod_generation (reg_modules r' ! k) \<and>
        (mod_retired (reg_modules r ! k) \<longrightarrow>
         mod_retired (reg_modules r' ! k) \<and> mod_generation (reg_modules r' ! k) = mod_generation (reg_modules r ! k)))"

lemma module_spent_advance: "modules_advance r r' \<Longrightarrow> module_spent r i \<Longrightarrow> module_spent r' i"
  by (auto simp: modules_advance_def module_spent_def Let_def)

lemma modules_advance_same: "reg_modules r' = reg_modules r \<Longrightarrow> modules_advance r r'"
  by (simp add: modules_advance_def)

lemma unregister_dead:
  assumes "module_at (reg_modules r) i = None" "ModuleRegistry_unregister_module r i = (res, r')"
  shows "r' = r \<and> res = Inl InvalidModuleId"
  using assms by (simp add: ModuleRegistry_unregister_module_def module_index_eq)

lemma u16_less_inc: "(x :: u16) \<noteq> - 1 \<Longrightarrow> x < x + 1"
proof -
  assume "x \<noteq> - 1"
  then have "x < - 1" by (simp add: order_less_le)
  moreover have "unat (- 1 :: u16) = 65535" by (simp add: unsigned_minus_1_eq_mask mask_eq_exp_minus_1)
  ultimately have "unat x < 65535" by (simp add: word_less_nat_alt)
  then show ?thesis by (simp add: word_less_nat_alt unat_word_ariths)
qed

lemma unregister_advance:
  assumes s: "module_at (reg_modules r) i = Some s" and un: "ModuleRegistry_unregister_module r i = (res, r')"
  shows "modules_advance r r' \<and> module_spent r' i"
proof -
  define k where "k = unat (module_slot i)"
  note m = module_at_SomeD [OF s, folded k_def]
  have "reg_modules r' = (reg_modules r)[k := (let s1 = s\<lparr>mod_occupied := False, mod_name := ModuleName_EMPTY,
      mod_image_base := 0, mod_image_size := 0\<rparr> in
    if mod_generation s = - 1 then s1\<lparr>mod_retired := True\<rparr> else s1\<lparr>mod_generation := mod_generation s + 1\<rparr>)]"
    using un s m by (auto simp: ModuleRegistry_unregister_module_def module_index_eq Let_def k_def)
  moreover have "mod_generation s < mod_generation s + 1" if "mod_generation s \<noteq> - 1"
    using that by (rule u16_less_inc)
  ultimately show ?thesis
    using m by (auto simp: modules_advance_def module_spent_def Let_def nth_list_update k_def intro: less_imp_le)
qed

lemma register_module_advance:
  assumes wf: "registry_wf r" and reg: "ModuleRegistry_register_module r name b n = (res, r')"
  shows "modules_advance r r' \<and> (\<forall>i. module_at (reg_modules r) i \<noteq> None \<longrightarrow> module_at (reg_modules r') i = module_at (reg_modules r) i)"
proof (cases res)
  case (Inl err)
  have "r' = r" by (rule register_module_Inl [OF reg [unfolded Inl]])
  then show ?thesis by (simp add: modules_advance_same)
next
  case (Inr i)
  obtain k s where k: "k < length (reg_modules r)" "\<not> mod_occupied (reg_modules r ! k)" "\<not> mod_retired (reg_modules r ! k)"
    "reg_modules r' = (reg_modules r)[k := s]" "mod_generation s = mod_generation (reg_modules r ! k)" "\<not> mod_retired s"
    using register_module_spec [OF wf reg] unfolding Inr by auto
  then show ?thesis
    using module_at_fill [OF k(2)] by (auto simp: modules_advance_def nth_list_update)
qed

lemma register_export_modules: "ModuleRegistry_register_export r i q t = (res, r') \<Longrightarrow> reg_modules r' = reg_modules r"
  by (auto simp: ModuleRegistry_register_export_def split: sum.split_asm option.split_asm if_split_asm)

lemma module_step_spec:
  assumes wf: "registry_wf r" and st: "module_step r r'"
  shows "registry_wf r' \<and> modules_advance r r' \<and>
    (\<forall>i. module_at (reg_modules r) i \<noteq> None \<longrightarrow> module_at (reg_modules r') i = None \<longrightarrow> module_spent r' i)"
  using st
proof cases
  case (module_register name b n res)
  then show ?thesis using register_module_spec [OF wf] register_module_advance [OF wf] by fastforce
next
  case (module_unregister i res)
  show ?thesis
  proof (cases "module_at (reg_modules r) i")
    case None
    then show ?thesis using unregister_dead [OF None module_unregister] wf by (auto simp: modules_advance_same)
  next
    case (Some s)
    then show ?thesis
      using unregister_spec [OF wf Some module_unregister] unregister_advance [OF Some module_unregister] by metis
  qed
next
  case (module_export i q t res)
  then show ?thesis
    using register_export_wf [OF wf module_export] register_export_modules [OF module_export]
    by (auto simp: modules_advance_same)
qed

interpretation modules: generation_keys module_step registry_wf "\<lambda>r i. module_at (reg_modules r) i \<noteq> None" module_spent
proof unfold_locales
  show "\<not> module_at (reg_modules r) i \<noteq> None" if "module_spent r i" for r i
    using that by (auto simp: module_spent_def module_at_def Let_def)
next
  fix r r' i assume a: "registry_wf r" "module_step r r'"
  note sp = module_step_spec [OF a]
  show "registry_wf r'" using sp by simp
  show "module_spent r' i" if "module_spent r i" using module_spent_advance sp that by blast
  show "module_spent r' i" if "module_at (reg_modules r) i \<noteq> None" "\<not> module_at (reg_modules r') i \<noteq> None"
    using sp that by blast
qed

subsection \<open>Properties\<close>

definition registry_reached :: "nat \<Rightarrow> nat \<Rightarrow> ModuleRegistry \<Rightarrow> bool" where
  "registry_reached m e r \<longleftrightarrow> (\<exists>r0. ModuleRegistry_try_new m e = Inr r0 \<and> module_step\<^sup>*\<^sup>* r0 r)"

lemma registry_reached_wf: "registry_reached m e r \<Longrightarrow> registry_wf r"
  by (auto simp: registry_reached_def intro: modules.steps_wf registry_new_wf)

lemma registry_reached_step: "registry_reached m e r \<Longrightarrow> module_step r r' \<Longrightarrow> registry_reached m e r'"
  by (auto simp: registry_reached_def intro: rtranclp.rtrancl_into_rtrancl)

lemma resolve_eq:
  "ModuleName_parse nm = Inr n \<Longrightarrow> stored_selector q = Inr sel \<Longrightarrow>
   ModuleRegistry_resolve r nm q = ModuleRegistry_resolve_stored r n sel"
  by (simp add: ModuleRegistry_resolve_def)

text \<open>A registry with one module and one export.\<close>

abbreviation sample_name :: "u8 list" where
  "sample_name \<equiv> [0x61, 0x2E, 0x64]"

abbreviation sample_id :: ModuleId where
  "sample_id \<equiv> \<lparr>module_slot = 0, module_generation = 1\<rparr>"

abbreviation sample_module :: ModuleSlot where
  "sample_module \<equiv> \<lparr>mod_occupied = True, mod_retired = False, mod_generation = 1, mod_name = ModuleName [0x41, 0x2E, 0x44],
     mod_image_base = 0x10000, mod_image_size = 0x1000\<rparr>"

abbreviation sample_registry :: "ExportEntry \<Rightarrow> nat \<Rightarrow> ModuleRegistry" where
  "sample_registry x n \<equiv> \<lparr>reg_modules = [sample_module], reg_exports = [x], reg_len = 1, reg_export_count = n\<rparr>"

abbreviation sample_export :: ExportEntry where
  "sample_export \<equiv> \<lparr>export_occupied = True, export_module = sample_id, export_selector = SelectorOrdinal 7,
     export_target = TargetAddress 0x10040\<rparr>"

lemma sample_parse: "ModuleName_parse sample_name = Inr (ModuleName [0x41, 0x2E, 0x44])"
  by (simp add: ModuleName_parse_def MAX_MODULE_NAME_BYTES_def MAX_IMPORT_NAME_BYTES_def is_ascii_alphanumeric_def
      to_ascii_uppercase_def)

lemma sample_register_export:
  "ModuleRegistry_register_export (sample_registry ExportEntry_EMPTY 0) sample_id (QueryOrdinal 7) (ImageRva 0x40) =
     (Inr (), sample_registry sample_export 1)"
  by (simp add: ModuleRegistry_register_export_def stored_selector_def module_index_eq module_at_def ExportEntry_EMPTY_def
      stored_target_def checked_add_def position_def)

lemma sample_reached: "registry_reached 1 1 (sample_registry ExportEntry_EMPTY 0)"
proof -
  have "ModuleRegistry_try_new 1 1 = Inr \<lparr>reg_modules = [ModuleSlot_EMPTY], reg_exports = [ExportEntry_EMPTY], reg_len = 0,
      reg_export_count = 0\<rparr>"
    by (simp add: ModuleRegistry_try_new_def MAX_REGISTERED_MODULES_def MAX_REGISTERED_EXPORTS_def)
  moreover have "ModuleRegistry_register_module \<lparr>reg_modules = [ModuleSlot_EMPTY], reg_exports = [ExportEntry_EMPTY], reg_len = 0,
      reg_export_count = 0\<rparr> sample_name 0x10000 0x1000 = (Inr sample_id, sample_registry ExportEntry_EMPTY 0)"
    by (simp add: ModuleRegistry_register_module_def sample_parse ModuleSlot_EMPTY_def checked_add_def position_def)
  ultimately show ?thesis by (auto simp: registry_reached_def intro: module_register)
qed

lemma sample_exported: "registry_reached 1 1 (sample_registry sample_export 1)"
  using registry_reached_step [OF sample_reached module_export [OF sample_register_export]] .

lemma sample_resolves:
  "ModuleRegistry_resolve (sample_registry sample_export 1) sample_name (QueryOrdinal 7) = Resolved sample_id 0x10040"
  by (simp add: resolve_eq [OF sample_parse] stored_selector_def ModuleRegistry_resolve_stored_def ModuleName_is_api_set_def
      starts_with_def ascii_def position_def)

lemma resolve_export_image:
  assumes wf: "registry_wf r" and s: "module_at (reg_modules r) i = Some s"
    and res: "resolve_export (reg_exports r) i sel = Resolved j a"
  shows "j = i \<and> unat a \<in> image_set s"
proof -
  obtain x where x: "List.find (\<lambda>x. export_occupied x \<and> export_module x = i \<and> export_selector x = sel) (reg_exports r) = Some x"
      "export_target x = TargetAddress a" "j = i"
    using res by (auto simp: resolve_export_def split: option.split_asm StoredTarget.split_asm)
  then have "x \<in> set (reg_exports r)" "export_occupied x" "export_module x = i"
    by (auto simp: find_Some_iff)
  then have "export_ok (reg_modules r) x" "export_occupied x" "export_module x = i" using wf by (auto simp: registry_wf_def)
  then show ?thesis using s x by (auto simp: export_ok_def)
qed

lemma module_name_inj:
  assumes "registry_wf r" "module_at (reg_modules r) i = Some s" "module_at (reg_modules r) j = Some t"
  shows "mod_name s = mod_name t \<or> image_set s \<inter> image_set t \<noteq> {} \<longleftrightarrow> i = j"
proof -
  note mi = module_at_SomeD [OF assms(2)] and mj = module_at_SomeD [OF assms(3)]
  have "image_set s \<noteq> {}"
    using assms(1) mi(1-3) by (auto simp: registry_wf_def modules_ok_def module_slot_wf_def image_set_def unat_gt_0 dest: nth_mem)
  moreover have "i = j" if "mod_name s = mod_name t \<or> image_set s \<inter> image_set t \<noteq> {}"
  proof -
    have "unat (module_slot i) = unat (module_slot j)"
      using assms(1) mi(1-3) mj(1-3) that unfolding registry_wf_def modules_ok_def by blast
    then have "module_slot i = module_slot j" by (simp add: word_unat_eq_iff)
    then show ?thesis using mi(2,5) mj(2,5) by (intro ModuleId.equality) auto
  qed
  ultimately show ?thesis using assms(2,3) by auto
qed

text \<open>C35. An import that resolves names a module that is registered now, under that name; the
  address lies inside that module's image, and inside no other registered image, after any history of
  registrations and removals.\<close>

theorem import_resolution_sound:
  assumes "registry_reached m e r" and "ModuleRegistry_resolve r name q = Resolved i a"
  shows "\<exists>s. module_at (reg_modules r) i = Some s \<and> ModuleName_parse name = Inr (mod_name s) \<and> unat a \<in> image_set s \<and>
    (\<forall>j t. module_at (reg_modules r) j = Some t \<longrightarrow> unat a \<in> image_set t \<longrightarrow> j = i)"
proof -
  have wf: "registry_wf r" by (rule registry_reached_wf [OF assms(1)])
  obtain n sel where n: "ModuleName_parse name = Inr n" "ModuleRegistry_resolve_stored r n sel = Resolved i a"
    using assms(2) by (auto simp: ModuleRegistry_resolve_def split: sum.split_asm)
  have api: "\<not> ModuleName_is_api_set n" using n(2) by (auto simp: ModuleRegistry_resolve_stored_def)
  obtain s where s: "module_at (reg_modules r) i = Some s" "mod_name s = n" "unat a \<in> image_set s"
    using resolve_stored_cases [OF wf api, of sel] n(2) resolve_export_image [OF wf] by (metis ImportResolution.distinct(7))
  have "j = i" if "module_at (reg_modules r) j = Some t" "unat a \<in> image_set t" for j t
    using module_name_inj [OF wf s(1) that(1)] s(3) that(2) by blast
  then show ?thesis using s n(1) by blast
qed

theorem import_resolution_sound_witness:
  "\<exists>s. module_at [sample_module] sample_id = Some s \<and> ModuleName_parse sample_name = Inr (mod_name s) \<and>
     unat (0x10040 :: u64) \<in> image_set s"
  using import_resolution_sound [OF sample_exported sample_resolves] by auto

lemma resolve_export_fill:
  assumes "k < length es" "\<not> export_occupied (es ! k)"
    "\<forall>x\<in>set es. \<not> (export_occupied x \<and> export_module x = i \<and> export_selector x = sel)"
  shows "resolve_export (es[k := \<lparr>export_occupied = True, export_module = i, export_selector = sel, export_target = tgt\<rparr>]) j sel' =
    (if j = i \<and> sel' = sel
     then case tgt of TargetAddress a \<Rightarrow> Resolved i a | TargetForwarder f \<Rightarrow> UnsupportedForwarder i f | TargetEmpty \<Rightarrow> SymbolNotFound i
     else resolve_export es j sel')"
proof (cases "j = i \<and> sel' = sel")
  case True
  then show ?thesis using find_update [OF assms(1)] assms(2,3) by (simp add: resolve_export_def)
next
  case False
  then show ?thesis using find_update [OF assms(1)] assms(2) by (auto simp: resolve_export_def)
qed

lemma stored_target_resolution:
  assumes "stored_target s t = Inr tgt"
  shows "(case tgt of TargetAddress a \<Rightarrow> Resolved i a | TargetForwarder f \<Rightarrow> UnsupportedForwarder i f | TargetEmpty \<Rightarrow> SymbolNotFound i) =
    (case t of ImageRva rva \<Rightarrow> Resolved i (mod_image_base s + ucast rva) | RegisterForwarder v \<Rightarrow> UnsupportedForwarder i (ForwarderName v))"
  using assms
  by (auto simp: stored_target_def and_then_eq_Inr ForwarderName_parse_def checked_add_def
      split: ExportTargetRegistration.splits if_split_asm)

lemma resolve_stored_api: "ModuleName_is_api_set nm \<Longrightarrow> ModuleRegistry_resolve_stored r nm sel = UnsupportedApiSet"
  by (simp add: ModuleRegistry_resolve_stored_def)

lemma resolve_stored_after_export:
  assumes wf: "registry_wf r" and reg: "ModuleRegistry_register_export r i q t = (Inr u, r')"
    and s: "module_at (reg_modules r) i = Some s" and sel: "stored_selector q = Inr sel"
    and api: "\<not> ModuleName_is_api_set n"
  shows "ModuleRegistry_resolve_stored r' n sel' =
    (if n = mod_name s \<and> sel' = sel
     then case t of ImageRva rva \<Rightarrow> Resolved i (mod_image_base s + ucast rva) | RegisterForwarder v \<Rightarrow> UnsupportedForwarder i (ForwarderName v)
     else ModuleRegistry_resolve_stored r n sel')"
proof -
  obtain tgt k where c:
    "\<forall>x\<in>set (reg_exports r). \<not> (export_occupied x \<and> export_module x = i \<and> export_selector x = sel)"
    "stored_target s t = Inr tgt" "k < length (reg_exports r)" "\<not> export_occupied (reg_exports r ! k)"
    "reg_exports r' = (reg_exports r)[k := \<lparr>export_occupied = True, export_module = i, export_selector = sel,
       export_target = tgt\<rparr>]"
    using reg s sel by (elim register_export_Inr) simp
  note ms = register_export_modules [OF reg] and wf' = register_export_wf [OF wf reg]
  note fill = resolve_export_fill [OF c(3,4,1), of tgt, folded c(5), unfolded stored_target_resolution [OF c(2)]]
  show ?thesis
  proof (cases "\<exists>j x. module_at (reg_modules r) j = Some x \<and> mod_name x = n")
    case True
    then obtain j x where x: "module_at (reg_modules r) j = Some x" "mod_name x = n" by blast
    have "j = i \<longleftrightarrow> n = mod_name s"
      using wf s x module_at_SomeD [OF s] module_at_SomeD [OF x(1)] module_name_inj [OF wf s x(1)] by auto
    then show ?thesis
      using resolve_stored_found [OF wf x(1), of sel'] resolve_stored_found [OF wf', of j x sel'] x api ms fill [of j sel'] by auto
  next
    case False
    then show ?thesis
      using resolve_stored_missing [OF wf, of n sel'] resolve_stored_missing [OF wf', of n sel'] ms s by auto
  qed
qed

lemma resolve_stored_after_any:
  assumes wf: "registry_wf r" and reg: "ModuleRegistry_register_export r i q t = (Inr u, r')"
    and s: "module_at (reg_modules r) i = Some s" and sel: "stored_selector q = Inr sel"
  shows "ModuleRegistry_resolve_stored r' n sel' =
    (if n = mod_name s \<and> sel' = sel \<and> \<not> ModuleName_is_api_set (mod_name s)
     then case t of ImageRva rva \<Rightarrow> Resolved i (mod_image_base s + ucast rva) | RegisterForwarder v \<Rightarrow> UnsupportedForwarder i (ForwarderName v)
     else ModuleRegistry_resolve_stored r n sel')"
  using resolve_stored_after_export [OF assms, of n sel']
  by (cases "ModuleName_is_api_set n") (auto simp: resolve_stored_api)

text \<open>Export round trip: once an export is registered, resolving the module's name with the same
  name or ordinal gives the address at the registered offset in the image (or reports the registered
  forwarder), and every other import resolves exactly as before.\<close>

theorem export_resolve_roundtrip:
  assumes "registry_reached m e r" and "ModuleRegistry_register_export r i q t = (Inr (), r')"
  shows "\<exists>s. module_at (reg_modules r) i = Some s \<and>
    (\<forall>name q'. ModuleRegistry_resolve r' name q' =
      (if ModuleName_parse name = Inr (mod_name s) \<and> stored_selector q' = stored_selector q \<and> \<not> ModuleName_is_api_set (mod_name s)
       then case t of ImageRva rva \<Rightarrow> Resolved i (mod_image_base s + ucast rva)
            | RegisterForwarder v \<Rightarrow> UnsupportedForwarder i (ForwarderName v)
       else ModuleRegistry_resolve r name q'))"
proof -
  have wf: "registry_wf r" by (rule registry_reached_wf [OF assms(1)])
  obtain s sel where s: "module_at (reg_modules r) i = Some s" "stored_selector q = Inr sel"
    using assms(2) by (elim register_export_Inr) simp
  have "ModuleRegistry_resolve r' name q' =
      (if ModuleName_parse name = Inr (mod_name s) \<and> stored_selector q' = stored_selector q \<and> \<not> ModuleName_is_api_set (mod_name s)
       then case t of ImageRva rva \<Rightarrow> Resolved i (mod_image_base s + ucast rva)
            | RegisterForwarder v \<Rightarrow> UnsupportedForwarder i (ForwarderName v)
       else ModuleRegistry_resolve r name q')" for name q'
    by (cases "ModuleName_parse name"; cases "stored_selector q'")
       (simp_all add: ModuleRegistry_resolve_def s(2) resolve_stored_after_any [OF wf assms(2) s])
  then show ?thesis using s(1) by blast
qed

theorem export_resolve_roundtrip_witness:
  "\<exists>s. module_at [sample_module] sample_id = Some s \<and>
     ModuleRegistry_resolve (sample_registry sample_export 1) sample_name (QueryOrdinal 8) =
     ModuleRegistry_resolve (sample_registry ExportEntry_EMPTY 0) sample_name (QueryOrdinal 8)"
  using export_resolve_roundtrip [OF sample_reached sample_register_export] by (auto simp: stored_selector_def)

lemma find_map_other:
  assumes "\<And>x. x \<in> set xs \<Longrightarrow> P x \<Longrightarrow> f x = x" "\<And>x. x \<in> set xs \<Longrightarrow> \<not> P x \<Longrightarrow> \<not> P (f x)"
  shows "List.find P (map f xs) = List.find P xs"
  using assms by (induction xs) auto

lemma unregister_resolve:
  assumes wf: "registry_wf r" and s: "module_at (reg_modules r) i = Some s"
    and un: "ModuleRegistry_unregister_module r i = (res, r')" and api: "\<not> ModuleName_is_api_set n"
  shows "ModuleRegistry_resolve_stored r' n sel =
    (if n = mod_name s then ModuleNotFound else ModuleRegistry_resolve_stored r n sel)"
proof -
  have sp: "registry_wf r'" "module_at (reg_modules r') i = None"
      "j \<noteq> i \<Longrightarrow> module_at (reg_modules r') j = module_at (reg_modules r) j" for j
    using unregister_spec [OF wf s un] by simp_all
  have es: "reg_exports r' = map (\<lambda>x. if export_occupied x \<and> export_module x = i then ExportEntry_EMPTY else x) (reg_exports r)"
    using un s by (auto simp: ModuleRegistry_unregister_module_def module_index_eq Let_def)
  have re: "resolve_export (reg_exports r') j sel = resolve_export (reg_exports r) j sel" if "j \<noteq> i" for j
    unfolding es resolve_export_def using that
    by (subst find_map_other) (auto simp: ExportEntry_EMPTY_def split: if_splits)
  have at: "module_at (reg_modules r') j = Some x \<longleftrightarrow> j \<noteq> i \<and> module_at (reg_modules r) j = Some x" for j x
    using sp(2,3) by (cases "j = i") auto
  show ?thesis
  proof (cases "\<exists>j x. module_at (reg_modules r') j = Some x \<and> mod_name x = n")
    case True
    then obtain j x where x: "module_at (reg_modules r') j = Some x" "mod_name x = n" by blast
    then have j: "j \<noteq> i" "module_at (reg_modules r) j = Some x" using at by auto
    then have "n \<noteq> mod_name s" using module_name_inj [OF wf s j(2)] x(2) by auto
    then show ?thesis
      using resolve_stored_found [OF wf j(2), of sel] resolve_stored_found [OF sp(1) x(1), of sel] x(2) api re [OF j(1)] by simp
  next
    case False
    then have "module_at (reg_modules r) j = Some x \<Longrightarrow> mod_name x = n \<Longrightarrow> n = mod_name s" for j x
      using at s by (metis option.inject)
    then show ?thesis
      using resolve_stored_missing [OF wf, of n sel] resolve_stored_missing [OF sp(1), of n sel] False api by metis
  qed
qed

text \<open>Removing a module invalidates its identity for good: no later history of registrations makes
  that id valid again, and right after the removal every import of its name reports the module missing
  while every other import resolves as before.\<close>

theorem unregister_forgets:
  assumes "registry_reached m e r" and "ModuleRegistry_unregister_module r i = (Inr (base, sz), r')"
    and "module_step\<^sup>*\<^sup>* r' r''"
  shows "ModuleRegistry_module_index r'' i = Inl InvalidModuleId \<and>
    (\<exists>s. module_at (reg_modules r) i = Some s \<and> (base, sz) = (mod_image_base s, mod_image_size s) \<and>
      (\<forall>name q. ModuleRegistry_resolve r' name q =
        (if ModuleName_parse name = Inr (mod_name s) \<and> is_ok (stored_selector q) \<and> \<not> ModuleName_is_api_set (mod_name s)
         then ModuleNotFound else ModuleRegistry_resolve r name q)))"
proof -
  have wf: "registry_wf r" by (rule registry_reached_wf [OF assms(1)])
  obtain s where s: "module_at (reg_modules r) i = Some s"
    using assms(2) unregister_dead [of r i] by (cases "module_at (reg_modules r) i") auto
  note sp = unregister_spec [OF wf s assms(2)]
  have "module_at (reg_modules r'') i = None"
    using modules.never_again [OF wf, of i r' r''] s sp assms(3) r_into_rtranclp [of module_step, OF module_unregister [OF assms(2)]] by auto
  moreover have "ModuleRegistry_resolve_stored r' n sel =
      (if n = mod_name s \<and> \<not> ModuleName_is_api_set (mod_name s) then ModuleNotFound else ModuleRegistry_resolve_stored r n sel)" for n sel
    using unregister_resolve [OF wf s assms(2), of n sel] by (cases "ModuleName_is_api_set n") (auto simp: resolve_stored_api)
  then have "ModuleRegistry_resolve r' name q =
        (if ModuleName_parse name = Inr (mod_name s) \<and> is_ok (stored_selector q) \<and> \<not> ModuleName_is_api_set (mod_name s)
         then ModuleNotFound else ModuleRegistry_resolve r name q)" for name q
    by (cases "ModuleName_parse name"; cases "stored_selector q") (simp_all add: ModuleRegistry_resolve_def)
  ultimately show ?thesis using s sp by (simp add: module_index_eq)
qed

lemma sample_unregister:
  "ModuleRegistry_unregister_module (sample_registry sample_export 1) sample_id =
     (Inr (0x10000, 0x1000),
      \<lparr>reg_modules = [ModuleSlot_EMPTY\<lparr>mod_generation := 2\<rparr>], reg_exports = [ExportEntry_EMPTY], reg_len = 0,
       reg_export_count = 0\<rparr>)"
  by (simp add: ModuleRegistry_unregister_module_def module_index_eq module_at_def Let_def ModuleSlot_EMPTY_def)

theorem unregister_forgets_witness:
  "ModuleRegistry_module_index
     \<lparr>reg_modules = [ModuleSlot_EMPTY\<lparr>mod_generation := 2\<rparr>], reg_exports = [ExportEntry_EMPTY], reg_len = 0,
      reg_export_count = 0\<rparr> sample_id = Inl InvalidModuleId"
  using unregister_forgets [OF sample_exported sample_unregister rtranclp.rtrancl_refl] by blast

end
