(* ===== verification/Nt_Sync.thy ===== *)
theory Nt_Sync
  imports Nt_Types
begin

text \<open>
  The waitable objects of \<open>user/winhost-core/src/sync.rs\<close>: events, recursive mutants, counting
  semaphores and timers. A method that takes \<open>&mut self\<close> returns its result and the new state.
\<close>

subsection \<open>Results and errors\<close>

datatype WaitSatisfaction = Satisfied | Abandoned | WouldBlock

datatype SyncError =
    SyncInvalidParameter
  | MutantNotOwned
  | MutantLimitExceeded
  | SemaphoreLimitExceeded
  | SyncIntegerOverflow

fun SyncError_status :: "SyncError \<Rightarrow> NtStatus" where
  "SyncError_status SyncInvalidParameter = NtStatus_INVALID_PARAMETER"
| "SyncError_status MutantNotOwned = NtStatus_MUTANT_NOT_OWNED"
| "SyncError_status MutantLimitExceeded = NtStatus_MUTANT_LIMIT_EXCEEDED"
| "SyncError_status SemaphoreLimitExceeded = NtStatus_SEMAPHORE_LIMIT_EXCEEDED"
| "SyncError_status SyncIntegerOverflow = NtStatus_INTEGER_OVERFLOW"

subsection \<open>Events\<close>

datatype EventKind = Notification | Synchronization

record EventState =
  event_kind :: EventKind
  event_signaled :: bool

definition EventState_new :: "EventKind \<Rightarrow> bool \<Rightarrow> EventState" where
  "EventState_new kind signaled = \<lparr>event_kind = kind, event_signaled = signaled\<rparr>"

definition EventState_set :: "EventState \<Rightarrow> bool \<times> EventState" where
  "EventState_set self = (event_signaled self, self\<lparr>event_signaled := True\<rparr>)"

definition EventState_reset :: "EventState \<Rightarrow> bool \<times> EventState" where
  "EventState_reset self = (event_signaled self, self\<lparr>event_signaled := False\<rparr>)"

definition EventState_try_wait :: "EventState \<Rightarrow> WaitSatisfaction \<times> EventState" where
  "EventState_try_wait self =
     (if \<not> event_signaled self then (WouldBlock, self)
      else if event_kind self = Synchronization then (Satisfied, self\<lparr>event_signaled := False\<rparr>)
      else (Satisfied, self))"

subsection \<open>Mutants\<close>

record MutantState =
  mutant_owner :: "NtThreadId option"
  mutant_recursion :: u32
  mutant_abandoned :: bool

definition MutantState_new :: "NtThreadId option \<Rightarrow> MutantState" where
  "MutantState_new owner' =
     \<lparr>mutant_owner = owner', mutant_recursion = (if owner' \<noteq> None then 1 else 0), mutant_abandoned = False\<rparr>"

definition MutantState_try_wait ::
    "MutantState \<Rightarrow> NtThreadId \<Rightarrow> (SyncError + WaitSatisfaction) \<times> MutantState" where
  "MutantState_try_wait self thread =
     (case mutant_owner self of
        None \<Rightarrow>
          (let self' = self\<lparr>mutant_owner := Some thread, mutant_recursion := 1\<rparr> in
           if mutant_abandoned self then (Inr Abandoned, self'\<lparr>mutant_abandoned := False\<rparr>)
           else (Inr Satisfied, self'))
      | Some owner' \<Rightarrow>
          if owner' = thread then
            (case checked_add (mutant_recursion self) 1 of
               None \<Rightarrow> (Inl MutantLimitExceeded, self)
             | Some r \<Rightarrow> (Inr Satisfied, self\<lparr>mutant_recursion := r\<rparr>))
          else (Inr WouldBlock, self))"

definition MutantState_release ::
    "MutantState \<Rightarrow> NtThreadId \<Rightarrow> (SyncError + u32) \<times> MutantState" where
  "MutantState_release self thread =
     (if mutant_owner self \<noteq> Some thread \<or> mutant_recursion self = 0 then (Inl MutantNotOwned, self)
      else
        let previous = mutant_recursion self;
            self' = self\<lparr>mutant_recursion := mutant_recursion self - 1\<rparr> in
        (Inr previous, if mutant_recursion self' = 0 then self'\<lparr>mutant_owner := None\<rparr> else self'))"

definition MutantState_abandon_if_owned :: "MutantState \<Rightarrow> NtThreadId \<Rightarrow> bool \<times> MutantState" where
  "MutantState_abandon_if_owned self thread =
     (if mutant_owner self \<noteq> Some thread then (False, self)
      else (True, self\<lparr>mutant_owner := None, mutant_recursion := 0, mutant_abandoned := True\<rparr>))"

subsection \<open>Semaphores\<close>

record SemaphoreState =
  semaphore_count :: u32
  semaphore_limit :: u32

definition SemaphoreState_try_new :: "u32 \<Rightarrow> u32 \<Rightarrow> SyncError + SemaphoreState" where
  "SemaphoreState_try_new initial limit =
     (if limit = 0 \<or> initial > limit then Inl SyncInvalidParameter
      else Inr \<lparr>semaphore_count = initial, semaphore_limit = limit\<rparr>)"

definition SemaphoreState_try_wait :: "SemaphoreState \<Rightarrow> WaitSatisfaction \<times> SemaphoreState" where
  "SemaphoreState_try_wait self =
     (if semaphore_count self = 0 then (WouldBlock, self)
      else (Satisfied, self\<lparr>semaphore_count := semaphore_count self - 1\<rparr>))"

definition SemaphoreState_release ::
    "SemaphoreState \<Rightarrow> u32 \<Rightarrow> (SyncError + u32) \<times> SemaphoreState" where
  "SemaphoreState_release self release_count =
     (if release_count = 0 then (Inl SyncInvalidParameter, self)
      else
        case opt_filter (\<lambda>next. next \<le> semaphore_limit self) (checked_add (semaphore_count self) release_count) of
          None \<Rightarrow> (Inl SemaphoreLimitExceeded, self)
        | Some next \<Rightarrow> (Inr (semaphore_count self), self\<lparr>semaphore_count := next\<rparr>))"

subsection \<open>Timers\<close>

datatype TimerKind = TimerNotification | TimerSynchronization

record TimerState =
  timer_kind :: TimerKind
  timer_active :: bool
  timer_signaled :: bool
  timer_deadline_ticks :: u64
  timer_period_ticks :: u64

definition TimerState_new :: "TimerKind \<Rightarrow> TimerState" where
  "TimerState_new kind =
     \<lparr>timer_kind = kind, timer_active = False, timer_signaled = False, timer_deadline_ticks = 0,
      timer_period_ticks = 0\<rparr>"

definition TimerState_deadline_ticks :: "TimerState \<Rightarrow> u64 option" where
  "TimerState_deadline_ticks self = (if timer_active self then Some (timer_deadline_ticks self) else None)"

definition TimerState_set_relative ::
    "TimerState \<Rightarrow> u64 \<Rightarrow> u64 \<Rightarrow> u64 \<Rightarrow> (SyncError + bool) \<times> TimerState" where
  "TimerState_set_relative self now delay period =
     (case checked_add now delay of
        None \<Rightarrow> (Inl SyncIntegerOverflow, self)
      | Some deadline \<Rightarrow>
          (Inr (timer_active self),
           self\<lparr>timer_active := True, timer_signaled := False, timer_deadline_ticks := deadline,
                timer_period_ticks := period\<rparr>))"

definition TimerState_cancel :: "TimerState \<Rightarrow> bool \<times> TimerState" where
  "TimerState_cancel self =
     (timer_active self,
      self\<lparr>timer_active := False, timer_signaled := False, timer_deadline_ticks := 0, timer_period_ticks := 0\<rparr>)"

text \<open>The deadline after \<open>now\<close> on the grid of a periodic timer; \<open>None\<close> for a one-shot timer.\<close>

definition next_deadline :: "u64 \<Rightarrow> u64 \<Rightarrow> u64 \<Rightarrow> SyncError + u64 option" where
  "next_deadline deadline period now =
     (if period = 0 then Inr None
      else
        let elapsed = now - deadline in
        and_then (ok_or (checked_div elapsed period) SyncIntegerOverflow) (\<lambda>q.
        and_then (ok_or (checked_add q 1) SyncIntegerOverflow) (\<lambda>periods.
        and_then (ok_or (checked_mul periods period) SyncIntegerOverflow) (\<lambda>advance.
        and_then (ok_or (checked_add deadline advance) SyncIntegerOverflow) (\<lambda>next.
        Inr (Some next))))))"

definition TimerState_refresh :: "TimerState \<Rightarrow> u64 \<Rightarrow> (SyncError + bool) \<times> TimerState" where
  "TimerState_refresh self now =
     (if \<not> timer_active self \<or> now < timer_deadline_ticks self then (Inr (timer_signaled self), self)
      else
        case next_deadline (timer_deadline_ticks self) (timer_period_ticks self) now of
          Inl err \<Rightarrow> (Inl err, self)
        | Inr None \<Rightarrow> (Inr True, self\<lparr>timer_signaled := True, timer_active := False\<rparr>)
        | Inr (Some next) \<Rightarrow> (Inr True, self\<lparr>timer_signaled := True, timer_deadline_ticks := next\<rparr>))"

definition TimerState_try_wait :: "TimerState \<Rightarrow> u64 \<Rightarrow> (SyncError + WaitSatisfaction) \<times> TimerState" where
  "TimerState_try_wait self now =
     (case TimerState_refresh self now of
        (Inl err, self') \<Rightarrow> (Inl err, self')
      | (Inr _, self') \<Rightarrow>
          if \<not> timer_signaled self' then (Inr WouldBlock, self')
          else if timer_kind self' = TimerSynchronization then (Inr Satisfied, self'\<lparr>timer_signaled := False\<rparr>)
          else (Inr Satisfied, self'))"

subsection \<open>The contract of a waitable object\<close>

text \<open>
  What a caller of \<open>try_wait\<close> relies on, for every kind of object: an object that is not ready
  answers \<open>WouldBlock\<close> and keeps its state, a ready one never does, and an error keeps the state.
\<close>

locale waitable =
  fixes try_wait :: "'s \<Rightarrow> (SyncError + WaitSatisfaction) \<times> 's"
    and ready :: "'s \<Rightarrow> bool"
  assumes not_ready: "\<not> ready s \<Longrightarrow> try_wait s = (Inr WouldBlock, s)"
    and ready_acts: "ready s \<Longrightarrow> fst (try_wait s) \<noteq> Inr WouldBlock"
    and error_keeps: "fst (try_wait s) = Inl e \<Longrightarrow> snd (try_wait s) = s"
begin

lemma would_block_iff: "fst (try_wait s) = Inr WouldBlock \<longleftrightarrow> \<not> ready s"
  using not_ready ready_acts by (metis fst_conv)

lemma poll_keeps:
  assumes "try_wait s = (r, s')" "r \<notin> {Inr Satisfied, Inr Abandoned}"
  shows "s' = s"
proof (cases r)
  case (Inl e)
  then show ?thesis using error_keeps [of s e] assms(1) by simp
next
  case (Inr v)
  then have "r = Inr WouldBlock" using assms(2) by (cases v) auto
  then show ?thesis using assms(1) not_ready [of s] would_block_iff [of s] by auto
qed

end

definition timer_ready :: "u64 \<Rightarrow> TimerState \<Rightarrow> bool" where
  "timer_ready now s \<longleftrightarrow> timer_signaled s \<or> (timer_active s \<and> timer_deadline_ticks s \<le> now)"

interpretation event: waitable "\<lambda>s. apfst Inr (EventState_try_wait s)" event_signaled
  by unfold_locales (auto simp: EventState_try_wait_def split: if_splits)

interpretation semaphore: waitable "\<lambda>s. apfst Inr (SemaphoreState_try_wait s)" "\<lambda>s. semaphore_count s \<noteq> 0"
  by unfold_locales (auto simp: SemaphoreState_try_wait_def split: if_splits)

interpretation mutant: waitable "\<lambda>s. MutantState_try_wait s t" "\<lambda>s. mutant_owner s \<in> {None, Some t}" for t
  by unfold_locales (auto simp: MutantState_try_wait_def Let_def split: option.splits if_splits)

interpretation timer: waitable "\<lambda>s. TimerState_try_wait s now" "timer_ready now" for now
  by unfold_locales (auto simp: TimerState_try_wait_def TimerState_refresh_def timer_ready_def
      split: sum.splits option.splits if_splits)

subsection \<open>Periodic timers\<close>

text \<open>The reference for catching up: add the period until the deadline lies after \<open>now\<close>.\<close>

function catch_up :: "nat \<Rightarrow> nat \<Rightarrow> nat \<Rightarrow> nat" where
  "catch_up period now deadline =
     (if deadline \<le> now \<and> 0 < period then catch_up period now (deadline + period) else deadline)"
  by pat_completeness auto
termination
  by (relation "measure (\<lambda>(period, now, deadline). Suc now - deadline)") auto

declare catch_up.simps [simp del]

lemma catch_up_closed:
  assumes "d \<le> now" "0 < p"
  shows "catch_up p now d = d + ((now - d) div p + 1) * p"
  using assms
proof (induction p now d rule: catch_up.induct)
  case (1 p now d)
  show ?case
  proof (cases "d + p \<le> now")
    case True
    have "(now - d) div p = (now - (d + p)) div p + 1"
      using True 1(3) by (simp add: le_div_geq diff_diff_add)
    then show ?thesis using 1 True by (subst catch_up.simps) (simp add: algebra_simps)
  next
    case False
    then have "(now - d) div p = 0" using 1(2) by simp
    moreover have "catch_up p now (d + p) = d + p" using False by (subst catch_up.simps) simp
    ultimately show ?thesis using 1(2,3) by (subst catch_up.simps) simp
  qed
qed

lemma next_deadline_spec:
  assumes due: "d \<le> now" and p: "p \<noteq> 0"
  defines "c \<equiv> catch_up (unat p) (unat now) (unat d)"
  shows "next_deadline d p now = (if c < 2 ^ 64 then Inr (Some (of_nat c)) else Inl SyncIntegerOverflow)"
proof -
  let ?q = "unat ((now - d) div p)"
  have up: "0 < unat p" using p by (simp add: unat_gt_0)
  have "unat (now - d) = unat now - unat d" using due by (simp add: unat_sub)
  then have q: "?q = (unat now - unat d) div unat p" by (simp add: unat_div)
  have c: "c = unat d + (?q + 1) * unat p"
    using catch_up_closed [of "unat d" "unat now" "unat p"] due up q by (simp add: c_def word_le_nat_alt)
  have "(?q + 1) * 1 \<le> (?q + 1) * unat p" using up by (intro mult_le_mono2) simp
  then have le: "?q + 1 \<le> (?q + 1) * unat p" "(?q + 1) * unat p \<le> c" using c by simp_all
  show ?thesis
  proof (cases "c < 2 ^ 64")
    case True
    then have fit: "?q + unat (1 :: u64) < 2 ^ LENGTH(64)" using le by simp
    obtain ps where ps: "checked_add ((now - d) div p) 1 = Some ps" "unat ps = ?q + 1"
      using checked_add_fits [OF fit] by auto
    have "unat ps * unat p < 2 ^ LENGTH(64)" using True le ps(2) by simp
    then have m: "checked_mul ps p = Some (ps * p)" by (simp add: checked_mul_def)
    obtain a where a: "checked_mul ps p = Some a" "unat a = (?q + 1) * unat p"
      using m unat_checked_mul [OF m] unfolding ps(2) by blast
    have "unat d + unat a < 2 ^ LENGTH(64)" using True c a(2) by simp
    then obtain n where n: "checked_add d a = Some n" "unat n = unat d + unat a"
      by (rule checked_add_fits)
    then have "unat n = c" using c a(2) by simp
    then have "n = of_nat c" by (metis of_nat_unat ucast_id)
    then show ?thesis using True p ps(1) a(1) n(1) by (simp add: next_deadline_def checked_div_def)
  next
    case False
    then show ?thesis
      using p c by (auto simp: next_deadline_def checked_div_def and_then_def ok_or_def
          checked_add_eq_Some checked_mul_eq_Some split: option.splits)
  qed
qed

text \<open>
  C29. Polling a periodic timer that is due computes the same deadline as adding its period over and
  over until the deadline lies in the future, and signals the timer. When that deadline does not
  fit in 64 bits the poll reports the overflow and the timer keeps its state.
\<close>

theorem timer_refresh_catches_up:
  assumes "timer_active s" "timer_deadline_ticks s \<le> now" "timer_period_ticks s \<noteq> 0"
  shows "TimerState_refresh s now =
    (let c = catch_up (unat (timer_period_ticks s)) (unat now) (unat (timer_deadline_ticks s)) in
     if c < 2 ^ 64 then (Inr True, s\<lparr>timer_signaled := True, timer_deadline_ticks := of_nat c\<rparr>)
     else (Inl SyncIntegerOverflow, s))"
proof -
  have "\<not> now < timer_deadline_ticks s" using assms(2) by simp
  then show ?thesis using assms(1) next_deadline_spec [OF assms(2,3)] by (simp add: TimerState_refresh_def Let_def)
qed

theorem timer_refresh_catches_up_witness:
  "TimerState_refresh (snd (TimerState_set_relative (TimerState_new TimerNotification) 10 5 4)) 24 =
     (Inr True, \<lparr>timer_kind = TimerNotification, timer_active = True, timer_signaled = True,
        timer_deadline_ticks = 27, timer_period_ticks = 4\<rparr>)"
proof -
  define s where "s = snd (TimerState_set_relative (TimerState_new TimerNotification) 10 5 4)"
  have s: "s = \<lparr>timer_kind = TimerNotification, timer_active = True, timer_signaled = False,
      timer_deadline_ticks = 15, timer_period_ticks = 4\<rparr>"
    by (simp add: s_def TimerState_set_relative_def TimerState_new_def checked_add_def)
  have "catch_up 4 24 15 = 27" by (simp add: catch_up.simps)
  moreover have "timer_active s" "timer_deadline_ticks s \<le> 24" "timer_period_ticks s \<noteq> 0" by (simp_all add: s)
  ultimately show ?thesis unfolding s_def [symmetric] using timer_refresh_catches_up [of s 24] by (simp add: s)
qed

subsection \<open>Semaphores\<close>

datatype semaphore_op = SemaphoreWait | SemaphoreRelease u32

text \<open>A run of a semaphore, with the number of waits it satisfied and the permits it accepted.\<close>

fun semaphore_run :: "SemaphoreState \<Rightarrow> semaphore_op list \<Rightarrow> SemaphoreState \<times> nat \<times> nat" where
  "semaphore_run s [] = (s, 0, 0)"
| "semaphore_run s (SemaphoreWait # ops) =
     (case SemaphoreState_try_wait s of (r, s') \<Rightarrow>
       case semaphore_run s' ops of (s'', granted, released) \<Rightarrow>
         (s'', if r = Satisfied then granted + 1 else granted, released))"
| "semaphore_run s (SemaphoreRelease n # ops) =
     (case SemaphoreState_release s n of (r, s') \<Rightarrow>
       case semaphore_run s' ops of (s'', granted, released) \<Rightarrow>
         (s'', granted, if is_ok r then released + unat n else released))"

lemma semaphore_try_wait_count:
  assumes "SemaphoreState_try_wait s = (r, s')"
  shows "semaphore_limit s' = semaphore_limit s"
    "unat (semaphore_count s') + (if r = Satisfied then 1 else 0) = unat (semaphore_count s)"
  using assms by (auto simp: SemaphoreState_try_wait_def unat_sub_if' word_le_nat_alt unat_gt_0 Suc_le_eq
      split: if_splits)

lemma semaphore_release_count:
  assumes "SemaphoreState_release s n = (r, s')"
  shows "semaphore_limit s' = semaphore_limit s"
    "unat (semaphore_count s') = unat (semaphore_count s) + (if is_ok r then unat n else 0)"
    "semaphore_count s \<le> semaphore_limit s \<Longrightarrow> semaphore_count s' \<le> semaphore_limit s'"
  using assms by (auto simp: SemaphoreState_release_def checked_add_eq_Some split: if_splits option.splits)

text \<open>
  C30. A semaphore neither loses nor invents permits: over any sequence of waits and releases the
  current count plus the waits it satisfied equals the initial count plus the permits whose
  release it accepted, and the count never exceeds the limit.
\<close>

theorem semaphore_conserves_permits:
  assumes "SemaphoreState_try_new initial limit = Inr s" "semaphore_run s ops = (s', granted, released)"
  shows "unat (semaphore_count s') + granted = unat initial + released \<and> semaphore_count s' \<le> limit"
proof -
  have "semaphore_count s \<le> semaphore_limit s \<Longrightarrow>
      unat (semaphore_count s') + granted = unat (semaphore_count s) + released \<and>
      semaphore_count s' \<le> semaphore_limit s"
    using assms(2)
  proof (induction s ops arbitrary: s' granted released rule: semaphore_run.induct)
    case (2 s ops)
    obtain r t where t: "SemaphoreState_try_wait s = (r, t)" by (cases "SemaphoreState_try_wait s")
    note c = semaphore_try_wait_count [OF t]
    have "semaphore_count t \<le> semaphore_limit t" using c 2(2) by (simp add: word_le_nat_alt)
    then show ?case using 2(1) [OF t [symmetric]] 2(3) t c by (auto split: prod.splits if_splits)
  next
    case (3 s n ops)
    obtain r t where t: "SemaphoreState_release s n = (r, t)" by (cases "SemaphoreState_release s n")
    note c = semaphore_release_count [OF t]
    then show ?case using 3(1) [OF t [symmetric]] 3(2,3) t by (auto split: prod.splits if_splits)
  qed simp
  then show ?thesis using assms(1) by (auto simp: SemaphoreState_try_new_def split: if_splits)
qed

theorem semaphore_conserves_permits_witness:
  "semaphore_run \<lparr>semaphore_count = 1, semaphore_limit = 3\<rparr>
     [SemaphoreWait, SemaphoreWait, SemaphoreRelease 2, SemaphoreRelease 2]
   = (\<lparr>semaphore_count = 2, semaphore_limit = 3\<rparr>, 1, 2) \<and> unat (2 :: u32) + 1 = unat (1 :: u32) + 2"
proof -
  have new: "SemaphoreState_try_new 1 3 = Inr \<lparr>semaphore_count = 1, semaphore_limit = 3\<rparr>"
    by (simp add: SemaphoreState_try_new_def)
  have run: "semaphore_run \<lparr>semaphore_count = 1, semaphore_limit = 3\<rparr>
     [SemaphoreWait, SemaphoreWait, SemaphoreRelease 2, SemaphoreRelease 2]
   = (\<lparr>semaphore_count = 2, semaphore_limit = 3\<rparr>, 1, 2)"
    by (simp add: SemaphoreState_try_wait_def SemaphoreState_release_def checked_add_def)
  show ?thesis using run semaphore_conserves_permits [OF new run] by simp
qed

subsection \<open>Mutants as locks\<close>

text \<open>
  The abstract lock: its holder with the number of unreleased acquisitions, and whether the last
  holder went away without releasing it.
\<close>

type_synonym lock = "(NtThreadId \<times> nat) option \<times> bool"

datatype lock_op = LockWait NtThreadId | LockRelease NtThreadId | LockAbandon NtThreadId

datatype lock_reply = Waited "SyncError + WaitSatisfaction" | Released "SyncError + nat" | AbandonedBy bool

fun lock_step :: "lock \<Rightarrow> lock_op \<Rightarrow> lock_reply \<times> lock" where
  "lock_step (None, left) (LockWait t) = (Waited (Inr (if left then Abandoned else Satisfied)), (Some (t, 1), False))"
| "lock_step (Some (h, n), left) (LockWait t) =
     (if h \<noteq> t then (Waited (Inr WouldBlock), (Some (h, n), left))
      else if n + 1 < 2 ^ 32 then (Waited (Inr Satisfied), (Some (h, n + 1), left))
      else (Waited (Inl MutantLimitExceeded), (Some (h, n), left)))"
| "lock_step (None, left) (LockRelease t) = (Released (Inl MutantNotOwned), (None, left))"
| "lock_step (Some (h, n), left) (LockRelease t) =
     (if h \<noteq> t then (Released (Inl MutantNotOwned), (Some (h, n), left))
      else (Released (Inr n), (if n = 1 then None else Some (h, n - 1), left)))"
| "lock_step (None, left) (LockAbandon t) = (AbandonedBy False, (None, left))"
| "lock_step (Some (h, n), left) (LockAbandon t) =
     (if h \<noteq> t then (AbandonedBy False, (Some (h, n), left)) else (AbandonedBy True, (None, True)))"

fun mutant_step :: "MutantState \<Rightarrow> lock_op \<Rightarrow> lock_reply \<times> MutantState" where
  "mutant_step m (LockWait t) = apfst Waited (MutantState_try_wait m t)"
| "mutant_step m (LockRelease t) =
     apfst (\<lambda>r. Released (map_sum id unat r)) (MutantState_release m t)"
| "mutant_step m (LockAbandon t) = apfst AbandonedBy (MutantState_abandon_if_owned m t)"

fun run_ops :: "('s \<Rightarrow> 'o \<Rightarrow> 'r \<times> 's) \<Rightarrow> 's \<Rightarrow> 'o list \<Rightarrow> 'r list \<times> 's" where
  "run_ops step s [] = ([], s)"
| "run_ops step s (x # xs) =
     (case step s x of (r, s') \<Rightarrow> case run_ops step s' xs of (rs, s'') \<Rightarrow> (r # rs, s''))"

definition mutant_wf :: "MutantState \<Rightarrow> bool" where
  "mutant_wf m \<longleftrightarrow> (mutant_owner m = None \<longleftrightarrow> mutant_recursion m = 0)"

definition abs_mutant :: "MutantState \<Rightarrow> lock" where
  "abs_mutant m = (map_option (\<lambda>t. (t, unat (mutant_recursion m))) (mutant_owner m), mutant_abandoned m)"

lemma mutant_step_refines:
  assumes wf: "mutant_wf m" and st: "mutant_step m x = (r, m')"
  shows "mutant_wf m' \<and> lock_step (abs_mutant m) x = (r, abs_mutant m')"
proof (cases "mutant_owner m")
  case None
  then show ?thesis
    using wf st by (cases x) (auto simp: mutant_wf_def abs_mutant_def MutantState_try_wait_def Let_def
        MutantState_release_def MutantState_abandon_if_owned_def)
next
  case (Some h)
  then have nz: "mutant_recursion m \<noteq> 0" using wf by (simp add: mutant_wf_def)
  then have pos: "1 \<le> unat (mutant_recursion m)" by (simp add: Suc_le_eq unat_gt_0)
  have dec: "unat (mutant_recursion m - 1) = unat (mutant_recursion m) - 1"
    using pos by (simp add: unat_sub word_le_nat_alt)
  have dec0: "mutant_recursion m - 1 = 0 \<longleftrightarrow> unat (mutant_recursion m) = 1"
    using pos dec by (auto simp: word_unat_eq_iff)
  show ?thesis
  proof (cases x)
    case (LockWait t)
    then show ?thesis using st Some nz
      by (auto simp: MutantState_try_wait_def abs_mutant_def mutant_wf_def checked_add_eq_Some
          checked_add_eq_None word_unat_eq_iff [of _ "0 :: u32"] split: option.splits if_splits)
  next
    case (LockRelease t)
    then show ?thesis using st Some nz pos dec dec0
      by (auto simp: MutantState_release_def abs_mutant_def mutant_wf_def Let_def split: if_splits)
  next
    case (LockAbandon t)
    then show ?thesis using st Some nz
      by (auto simp: MutantState_abandon_if_owned_def abs_mutant_def mutant_wf_def split: if_splits)
  qed
qed

text \<open>
  C31. A mutant is a recursive lock with one holder: over any sequence of waits, releases and thread
  exits it gives the answers of the abstract lock, which grants the lock to another thread only
  when it is free, counts acquisitions without wrapping, and reports an abandoned holder once.
\<close>

theorem mutant_refines_lock:
  "run_ops lock_step (abs_mutant (MutantState_new owner')) ops =
     apsnd abs_mutant (run_ops mutant_step (MutantState_new owner') ops)"
proof -
  have "run_ops lock_step (abs_mutant m) ops = apsnd abs_mutant (run_ops mutant_step m ops)"
    if "mutant_wf m" for m
    using that
  proof (induction ops arbitrary: m)
    case (Cons x xs)
    obtain r m' where s: "mutant_step m x = (r, m')" by (cases "mutant_step m x")
    then show ?case
      using mutant_step_refines [OF Cons.prems s] Cons.IH [of m'] by (simp split: prod.splits)
  qed simp
  moreover have "mutant_wf (MutantState_new owner')" by (auto simp: mutant_wf_def MutantState_new_def)
  ultimately show ?thesis by blast
qed

end
