(* ===== verification/Nt_Object.thy ===== *)
theory Nt_Object
  imports Nt_Sync Nt_Handle
begin

text \<open>
  The reference-counted object store of \<open>user/winhost-core/src/object.rs\<close>. A \<open>&mut\<close> reference into
  the store is the index of its slot, and a write through it is \<open>set_object\<close>.
\<close>

subsection \<open>Identities and objects\<close>

definition OBJECT_INDEX_BITS :: nat where
  "OBJECT_INDEX_BITS = 16"

definition OBJECT_INDEX_MASK :: u64 where
  "OBJECT_INDEX_MASK = push_bit OBJECT_INDEX_BITS 1 - 1"

definition OBJECT_GENERATION_MASK :: u64 where
  "OBJECT_GENERATION_MASK = push_bit (64 - OBJECT_INDEX_BITS) 1 - 1"

definition MAX_ISSUED_OBJECT_GENERATION :: u64 where
  "MAX_ISSUED_OBJECT_GENERATION = OBJECT_GENERATION_MASK - 1"

definition MAX_OBJECT_ENTRIES :: nat where
  "MAX_OBJECT_ENTRIES = unat OBJECT_INDEX_MASK"

datatype ObjectId = ObjectId (ObjectId_raw: u64)

definition ObjectId_from_raw :: "u64 \<Rightarrow> ObjectId" where
  "ObjectId_from_raw raw = ObjectId raw"

definition ObjectId_is_null :: "ObjectId \<Rightarrow> bool" where
  "ObjectId_is_null self \<longleftrightarrow> ObjectId_raw self = 0"

datatype ObjectError =
    ObjectInvalidCapacity nat nat
  | ObjectTableFull
  | InvalidObject
  | InvalidObjectId
  | ObjectTypeMismatch ObjectType ObjectType
  | ReferenceOverflow

fun ObjectError_status :: "ObjectError \<Rightarrow> NtStatus" where
  "ObjectError_status (ObjectInvalidCapacity c m) = NtStatus_INVALID_PARAMETER"
| "ObjectError_status InvalidObject = NtStatus_INVALID_PARAMETER"
| "ObjectError_status ObjectTableFull = NtStatus_INSUFFICIENT_RESOURCES"
| "ObjectError_status ReferenceOverflow = NtStatus_INSUFFICIENT_RESOURCES"
| "ObjectError_status InvalidObjectId = NtStatus_INVALID_HANDLE"
| "ObjectError_status (ObjectTypeMismatch e a) = NtStatus_OBJECT_TYPE_MISMATCH"

record ConsoleObject =
  console_descriptor :: u32
  console_readable :: bool
  console_writable :: bool

definition ConsoleObject_try_new :: "u32 \<Rightarrow> bool \<Rightarrow> bool \<Rightarrow> ObjectError + ConsoleObject" where
  "ConsoleObject_try_new descriptor readable writable =
     (if sint descriptor < 0 \<or> (\<not> readable \<and> \<not> writable) then Inl InvalidObject
      else Inr \<lparr>console_descriptor = descriptor, console_readable = readable, console_writable = writable\<rparr>)"

datatype RuntimeObject =
    InvalidRuntimeObject
  | Event EventState
  | Mutant MutantState
  | Semaphore SemaphoreState
  | Timer TimerState
  | Console ConsoleObject

fun RuntimeObject_object_type :: "RuntimeObject \<Rightarrow> ObjectType" where
  "RuntimeObject_object_type InvalidRuntimeObject = InvalidType"
| "RuntimeObject_object_type (Event _) = EventType"
| "RuntimeObject_object_type (Mutant _) = MutantType"
| "RuntimeObject_object_type (Semaphore _) = SemaphoreType"
| "RuntimeObject_object_type (Timer _) = TimerType"
| "RuntimeObject_object_type (Console _) = ConsoleType"

record ObjectSlot =
  obj_generation :: u64
  obj_references :: u32
  obj_occupied :: bool
  obj_retired :: bool
  obj_object :: RuntimeObject

definition ObjectSlot_EMPTY :: ObjectSlot where
  "ObjectSlot_EMPTY =
     \<lparr>obj_generation = 1, obj_references = 0, obj_occupied = False, obj_retired = False,
      obj_object = InvalidRuntimeObject\<rparr>"

subsection \<open>The table\<close>

record ObjectTable =
  object_slots :: "ObjectSlot list"
  object_len :: nat

definition validate_type :: "RuntimeObject \<Rightarrow> ObjectType option \<Rightarrow> ObjectError + unit" where
  "validate_type object expected =
     (case expected of
        Some ex \<Rightarrow> if RuntimeObject_object_type object \<noteq> ex
                   then Inl (ObjectTypeMismatch ex (RuntimeObject_object_type object)) else Inr ()
      | None \<Rightarrow> Inr ())"

definition encode_object :: "nat \<Rightarrow> u64 \<Rightarrow> ObjectId" where
  "encode_object index generation = ObjectId (push_bit OBJECT_INDEX_BITS generation OR (of_nat index + 1))"

definition decode_object :: "ObjectId \<Rightarrow> (nat \<times> u64) option" where
  "decode_object id' =
     (let slot = ObjectId_raw id' AND OBJECT_INDEX_MASK;
          generation = drop_bit OBJECT_INDEX_BITS (ObjectId_raw id') in
      if slot = 0 \<or> generation = 0 \<or> generation > MAX_ISSUED_OBJECT_GENERATION then None
      else Some (unat (slot - 1), generation))"

definition ObjectTable_try_new :: "nat \<Rightarrow> ObjectError + ObjectTable" where
  "ObjectTable_try_new n =
     (if n = 0 \<or> n > MAX_OBJECT_ENTRIES then Inl (ObjectInvalidCapacity n MAX_OBJECT_ENTRIES)
      else Inr \<lparr>object_slots = replicate n ObjectSlot_EMPTY, object_len = 0\<rparr>)"

definition ObjectTable_insert :: "ObjectTable \<Rightarrow> RuntimeObject \<Rightarrow> (ObjectError + ObjectId) \<times> ObjectTable" where
  "ObjectTable_insert self object =
     (if RuntimeObject_object_type object = InvalidType then (Inl InvalidObject, self)
      else
        case position (\<lambda>slot. \<not> obj_occupied slot \<and> \<not> obj_retired slot) (object_slots self) of
          None \<Rightarrow> (Inl ObjectTableFull, self)
        | Some index \<Rightarrow>
            let slot = object_slots self ! index in
            (Inr (encode_object index (obj_generation slot)),
             self\<lparr>object_slots := (object_slots self)
                    [index := slot\<lparr>obj_occupied := True, obj_references := 1, obj_object := object\<rparr>],
                  object_len := object_len self + 1\<rparr>))"

definition ObjectTable_live_slot :: "ObjectTable \<Rightarrow> ObjectId \<Rightarrow> ObjectError + ObjectSlot" where
  "ObjectTable_live_slot self id' =
     and_then (ok_or (decode_object id') InvalidObjectId) (\<lambda>(index, generation).
     and_then (ok_or (index_opt (object_slots self) index) InvalidObjectId) (\<lambda>slot.
       if \<not> obj_occupied slot \<or> obj_retired slot \<or> obj_generation slot \<noteq> generation \<or> obj_references slot = 0
       then Inl InvalidObjectId else Inr slot))"

definition ObjectTable_live_slot_mut :: "ObjectTable \<Rightarrow> ObjectId \<Rightarrow> ObjectError + nat" where
  "ObjectTable_live_slot_mut self id' =
     and_then (ok_or (decode_object id') InvalidObjectId) (\<lambda>(index, generation).
     and_then (ok_or (index_opt (object_slots self) index) InvalidObjectId) (\<lambda>slot.
       if \<not> obj_occupied slot \<or> obj_retired slot \<or> obj_generation slot \<noteq> generation \<or> obj_references slot = 0
       then Inl InvalidObjectId else Inr index))"

definition ObjectTable_reference :: "ObjectTable \<Rightarrow> ObjectId \<Rightarrow> ObjectType option \<Rightarrow> ObjectError + RuntimeObject" where
  "ObjectTable_reference self id' expected =
     and_then (ObjectTable_live_slot self id') (\<lambda>slot.
     and_then (validate_type (obj_object slot) expected) (\<lambda>_.
     Inr (obj_object slot)))"

definition ObjectTable_reference_mut :: "ObjectTable \<Rightarrow> ObjectId \<Rightarrow> ObjectType option \<Rightarrow> ObjectError + nat" where
  "ObjectTable_reference_mut self id' expected =
     and_then (ObjectTable_live_slot_mut self id') (\<lambda>index.
     and_then (validate_type (obj_object (object_slots self ! index)) expected) (\<lambda>_.
     Inr index))"

definition set_object :: "ObjectTable \<Rightarrow> nat \<Rightarrow> RuntimeObject \<Rightarrow> ObjectTable" where
  "set_object self index object =
     self\<lparr>object_slots := (object_slots self)[index := (object_slots self ! index)\<lparr>obj_object := object\<rparr>]\<rparr>"

definition ObjectTable_retain :: "ObjectTable \<Rightarrow> ObjectId \<Rightarrow> (ObjectError + u32) \<times> ObjectTable" where
  "ObjectTable_retain self id' =
     (case ObjectTable_live_slot_mut self id' of
        Inl err \<Rightarrow> (Inl err, self)
      | Inr index \<Rightarrow>
          let slot = object_slots self ! index in
          case checked_add (obj_references slot) 1 of
            None \<Rightarrow> (Inl ReferenceOverflow, self)
          | Some next \<Rightarrow>
              (Inr next, self\<lparr>object_slots := (object_slots self)[index := slot\<lparr>obj_references := next\<rparr>]\<rparr>))"

definition ObjectTable_release ::
    "ObjectTable \<Rightarrow> ObjectId \<Rightarrow> (ObjectError + RuntimeObject option) \<times> ObjectTable" where
  "ObjectTable_release self id' =
     (case decode_object id' of
        None \<Rightarrow> (Inl InvalidObjectId, self)
      | Some (index, generation) \<Rightarrow>
          case index_opt (object_slots self) index of
            None \<Rightarrow> (Inl InvalidObjectId, self)
          | Some slot \<Rightarrow>
              if \<not> obj_occupied slot \<or> obj_retired slot \<or> obj_generation slot \<noteq> generation \<or> obj_references slot = 0
              then (Inl InvalidObjectId, self)
              else
                let slot1 = slot\<lparr>obj_references := obj_references slot - 1\<rparr> in
                if obj_references slot1 \<noteq> 0
                then (Inr None, self\<lparr>object_slots := (object_slots self)[index := slot1]\<rparr>)
                else
                  let retired = obj_object slot1;
                      slot2 = slot1\<lparr>obj_object := InvalidRuntimeObject, obj_occupied := False\<rparr>;
                      slot3 = (if obj_generation slot2 = MAX_ISSUED_OBJECT_GENERATION
                               then slot2\<lparr>obj_retired := True\<rparr>
                               else slot2\<lparr>obj_generation := obj_generation slot2 + 1\<rparr>) in
                  (Inr (Some retired),
                   self\<lparr>object_slots := (object_slots self)[index := slot3], object_len := object_len self - 1\<rparr>))"

definition ObjectTable_reference_count :: "ObjectTable \<Rightarrow> ObjectId \<Rightarrow> ObjectError + u32" where
  "ObjectTable_reference_count self id' =
     and_then (ObjectTable_live_slot self id') (\<lambda>slot. Inr (obj_references slot))"

fun abandon_slots :: "NtThreadId \<Rightarrow> ObjectSlot list \<Rightarrow> nat \<times> ObjectSlot list" where
  "abandon_slots thread [] = (0, [])"
| "abandon_slots thread (slot # rest) =
     (let (changed, rest') = abandon_slots thread rest in
      if \<not> obj_occupied slot then (changed, slot # rest')
      else
        case obj_object slot of
          Mutant mutant \<Rightarrow>
            (let (c, m) = MutantState_abandon_if_owned mutant thread in
             (changed + of_bool c, slot\<lparr>obj_object := Mutant m\<rparr> # rest'))
        | _ \<Rightarrow> (changed, slot # rest'))"

definition ObjectTable_abandon_mutants :: "ObjectTable \<Rightarrow> NtThreadId \<Rightarrow> nat \<times> ObjectTable" where
  "ObjectTable_abandon_mutants self thread =
     (let (changed, slots) = abandon_slots thread (object_slots self) in
      (changed, self\<lparr>object_slots := slots\<rparr>))"

subsection \<open>Encoding\<close>

lemma OBJECT_INDEX_MASK_mask: "OBJECT_INDEX_MASK = mask 16"
  by (simp add: OBJECT_INDEX_MASK_def OBJECT_INDEX_BITS_def mask_eq_exp_minus_1)

lemma MAX_OBJECT_ENTRIES_eq: "MAX_OBJECT_ENTRIES = 65535"
  by (simp add: MAX_OBJECT_ENTRIES_def OBJECT_INDEX_MASK_def OBJECT_INDEX_BITS_def)

lemma MAX_ISSUED_OBJECT_GENERATION_eq: "MAX_ISSUED_OBJECT_GENERATION = 0xFFFFFFFFFFFE"
  by (simp add: MAX_ISSUED_OBJECT_GENERATION_def OBJECT_GENERATION_MASK_def OBJECT_INDEX_BITS_def)

lemma decode_encode_object:
  assumes "index < 65535" "1 \<le> g" "g \<le> MAX_ISSUED_OBJECT_GENERATION"
  shows "decode_object (encode_object index g) = Some (index, g)"
proof -
  let ?x = "of_nat index + 1 :: u64"
  have x: "unat ?x = index + 1" using assms(1) by (simp add: unat_word_ariths unat_of_nat take_bit_nat_eq_self)
  then have xk: "unat ?x < 2 ^ 16" using assms(1) by simp
  have "unat g \<le> unat MAX_ISSUED_OBJECT_GENERATION" using assms(3) by (simp add: word_le_nat_alt)
  then have gk: "unat g < 2 ^ (LENGTH(64) - 16)" by (simp add: MAX_ISSUED_OBJECT_GENERATION_eq)
  have "?x \<noteq> 0" using x by (metis add_is_0 one_neq_zero unsigned_0)
  moreover have "g \<noteq> 0" using assms(2) by auto
  moreover have "unat (?x - 1) = index" using assms(1) by (simp add: unat_of_nat take_bit_nat_eq_self)
  ultimately show ?thesis
    using pack_low [OF xk, of g] pack_high [OF xk gk] assms(3)
    by (simp add: decode_object_def encode_object_def OBJECT_INDEX_MASK_mask OBJECT_INDEX_BITS_def Let_def)
qed

lemma encode_decode_object:
  assumes "decode_object h = Some (index, g)"
  shows "encode_object index g = h"
proof -
  let ?s = "ObjectId_raw h AND OBJECT_INDEX_MASK"
  have s: "index = unat (?s - 1)" "g = drop_bit 16 (ObjectId_raw h)"
    using assms by (auto simp: decode_object_def Let_def OBJECT_INDEX_BITS_def split: if_splits)
  have "of_nat index + 1 = ?s" using s(1) by simp
  then have "push_bit 16 g OR (of_nat index + 1) = ObjectId_raw h"
    using pack_unpack [of 16 "ObjectId_raw h"] s(2) by (simp add: OBJECT_INDEX_MASK_mask)
  then show ?thesis by (simp add: encode_object_def OBJECT_INDEX_BITS_def)
qed

subsection \<open>The store as a map from identities to objects with their reference counts\<close>

definition obj_live :: "ObjectSlot \<Rightarrow> u64 \<Rightarrow> bool" where
  "obj_live s g \<longleftrightarrow> obj_occupied s \<and> \<not> obj_retired s \<and> obj_generation s = g \<and> obj_references s \<noteq> 0"

definition object_map :: "ObjectTable \<Rightarrow> ObjectId \<Rightarrow> (RuntimeObject \<times> nat) option" where
  "object_map t i =
     (case decode_object i of
        None \<Rightarrow> None
      | Some (k, g) \<Rightarrow> if k < length (object_slots t) \<and> obj_live (object_slots t ! k) g
                    then Some (obj_object (object_slots t ! k), unat (obj_references (object_slots t ! k))) else None)"

definition object_slot_wf :: "ObjectSlot \<Rightarrow> bool" where
  "object_slot_wf s \<longleftrightarrow>
     1 \<le> obj_generation s \<and> obj_generation s \<le> MAX_ISSUED_OBJECT_GENERATION \<and>
     (obj_retired s \<longrightarrow> \<not> obj_occupied s) \<and> (obj_occupied s \<longleftrightarrow> obj_references s \<noteq> 0) \<and>
     (obj_occupied s \<longrightarrow> RuntimeObject_object_type (obj_object s) \<noteq> InvalidType)"

definition object_table_wf :: "ObjectTable \<Rightarrow> bool" where
  "object_table_wf t \<longleftrightarrow>
     0 < length (object_slots t) \<and> length (object_slots t) \<le> MAX_OBJECT_ENTRIES \<and>
     (\<forall>s\<in>set (object_slots t). object_slot_wf s) \<and>
     object_len t = length (filter obj_occupied (object_slots t))"

definition object_spent :: "ObjectTable \<Rightarrow> ObjectId \<Rightarrow> bool" where
  "object_spent t i \<longleftrightarrow>
     (\<exists>k g. decode_object i = Some (k, g) \<and> k < length (object_slots t) \<and>
        (g < obj_generation (object_slots t ! k) \<or>
         g = obj_generation (object_slots t ! k) \<and> obj_retired (object_slots t ! k)))"

lemma object_wf_slot: "object_table_wf t \<Longrightarrow> k < length (object_slots t) \<Longrightarrow> object_slot_wf (object_slots t ! k)"
  by (simp add: object_table_wf_def)

lemma object_try_new_wf: "ObjectTable_try_new n = Inr t \<Longrightarrow> object_table_wf t \<and> object_map t = (\<lambda>i. None)"
  by (auto simp: ObjectTable_try_new_def object_table_wf_def object_slot_wf_def ObjectSlot_EMPTY_def object_map_def
      obj_live_def MAX_ISSUED_OBJECT_GENERATION_eq fun_eq_iff split: if_splits option.splits)

lemma object_wf_update:
  assumes wf: "object_table_wf t" and k: "k < length (object_slots t)" and s: "object_slot_wf s"
    and n: "n + (if obj_occupied (object_slots t ! k) then 1 else 0) = object_len t + (if obj_occupied s then 1 else 0)"
  shows "object_table_wf (t\<lparr>object_slots := (object_slots t)[k := s], object_len := n\<rparr>)"
  using wf s n length_filter_update [OF k, of obj_occupied s] set_update_subset_insert [of "object_slots t" k s]
  by (auto simp: object_table_wf_def)

lemma object_map_SomeD:
  assumes "object_map t i = Some (ob, n)"
  obtains k where "k < length (object_slots t)" "obj_occupied (object_slots t ! k)" "\<not> obj_retired (object_slots t ! k)"
    "obj_object (object_slots t ! k) = ob" "unat (obj_references (object_slots t ! k)) = n"
    "obj_references (object_slots t ! k) \<noteq> 0" "decode_object i = Some (k, obj_generation (object_slots t ! k))"
  using assms by (auto simp: object_map_def obj_live_def split: option.splits if_splits)

text \<open>One slot changes, and with it only the binding of its current identity.\<close>

lemma object_map_update:
  assumes k: "k < length (object_slots t)" and i: "decode_object i = Some (k, obj_generation (object_slots t ! k))"
    and new: "\<And>g. g \<noteq> obj_generation (object_slots t ! k) \<Longrightarrow> \<not> obj_live s g"
  shows "object_map (t\<lparr>object_slots := (object_slots t)[k := s], object_len := n\<rparr>) =
    (object_map t)(i := if obj_live s (obj_generation (object_slots t ! k))
       then Some (obj_object s, unat (obj_references s)) else None)"
proof
  fix j
  show "object_map (t\<lparr>object_slots := (object_slots t)[k := s], object_len := n\<rparr>) j =
    ((object_map t)(i := if obj_live s (obj_generation (object_slots t ! k))
       then Some (obj_object s, unat (obj_references s)) else None)) j"
  proof (cases "j = i \<or> decode_object j = None")
    case True
    then show ?thesis using i k by (auto simp: object_map_def)
  next
    case False
    then obtain l g where p: "decode_object j = Some (l, g)" by auto
    show ?thesis
    proof (cases "l = k")
      case True
      have g: "g \<noteq> obj_generation (object_slots t ! k)"
        using False True encode_decode_object [OF i] encode_decode_object [OF p] by auto
      then have "\<not> obj_live (object_slots t ! k) g" by (simp add: obj_live_def)
      then show ?thesis using True False p k new [OF g] by (simp add: object_map_def)
    next
      case False
      then show ?thesis using \<open>\<not> (j = i \<or> decode_object j = None)\<close> p by (simp add: object_map_def)
    qed
  qed
qed

subsection \<open>The operations on the map\<close>

definition slot_of :: "ObjectId \<Rightarrow> nat" where
  "slot_of i = fst (the (decode_object i))"

lemma live_slot_eq:
  "ObjectTable_live_slot t i =
     (if object_map t i = None then Inl InvalidObjectId else Inr (object_slots t ! slot_of i))"
  by (auto simp: ObjectTable_live_slot_def object_map_def obj_live_def index_opt_def slot_of_def
      split: option.splits if_splits)

lemma live_slot_mut_eq:
  "ObjectTable_live_slot_mut t i = (if object_map t i = None then Inl InvalidObjectId else Inr (slot_of i))"
  by (auto simp: ObjectTable_live_slot_mut_def object_map_def obj_live_def index_opt_def slot_of_def
      split: option.splits if_splits)

lemma slot_of_object:
  "object_map t i = Some (ob, n) \<Longrightarrow> obj_object (object_slots t ! slot_of i) = ob \<and>
     unat (obj_references (object_slots t ! slot_of i)) = n"
  by (auto simp: object_map_def slot_of_def split: option.splits if_splits)

lemma object_reference_eq:
  "ObjectTable_reference t i ex =
     (case object_map t i of None \<Rightarrow> Inl InvalidObjectId
      | Some (ob, n) \<Rightarrow> and_then (validate_type ob ex) (\<lambda>_. Inr ob))"
  using slot_of_object [of t i] by (auto simp: ObjectTable_reference_def live_slot_eq split: option.splits)

lemma object_reference_mut_eq:
  "ObjectTable_reference_mut t i ex =
     (case object_map t i of None \<Rightarrow> Inl InvalidObjectId
      | Some (ob, n) \<Rightarrow> and_then (validate_type ob ex) (\<lambda>_. Inr (slot_of i)))"
  using slot_of_object [of t i] by (auto simp: ObjectTable_reference_mut_def live_slot_mut_eq split: option.splits)

lemma reference_count_eq:
  "ObjectTable_reference_count t i =
     (case object_map t i of None \<Rightarrow> Inl InvalidObjectId | Some (ob, n) \<Rightarrow> Inr (of_nat n))"
  using slot_of_object [of t i] by (auto simp: ObjectTable_reference_count_def live_slot_eq split: option.splits)

text \<open>Slots only move forward.\<close>

definition objects_advance :: "ObjectTable \<Rightarrow> ObjectTable \<Rightarrow> bool" where
  "objects_advance t t' \<longleftrightarrow> length (object_slots t') = length (object_slots t) \<and>
     (\<forall>k<length (object_slots t). obj_generation (object_slots t ! k) \<le> obj_generation (object_slots t' ! k) \<and>
        (obj_retired (object_slots t ! k) \<longrightarrow> obj_retired (object_slots t' ! k)))"

lemma objects_advance_refl [simp]: "objects_advance t t"
  by (simp add: objects_advance_def)

lemma objects_advance_update:
  assumes "obj_generation (object_slots t ! k) \<le> obj_generation s" "obj_retired (object_slots t ! k) \<longrightarrow> obj_retired s"
  shows "objects_advance t (t\<lparr>object_slots := (object_slots t)[k := s], object_len := n\<rparr>)"
  using assms by (cases "k < length (object_slots t)") (auto simp: objects_advance_def nth_list_update)

lemma object_spent_advance:
  assumes adv: "objects_advance t t'" and "object_spent t i"
  shows "object_spent t' i"
proof -
  obtain k g where k: "decode_object i = Some (k, g)" "k < length (object_slots t)"
      "g < obj_generation (object_slots t ! k) \<or>
       g = obj_generation (object_slots t ! k) \<and> obj_retired (object_slots t ! k)"
    using assms(2) by (auto simp: object_spent_def)
  then have "obj_generation (object_slots t ! k) \<le> obj_generation (object_slots t' ! k)"
      "obj_retired (object_slots t ! k) \<Longrightarrow> obj_retired (object_slots t' ! k)"
      "k < length (object_slots t')"
    using adv by (auto simp: objects_advance_def)
  then have "g < obj_generation (object_slots t' ! k) \<or>
      g = obj_generation (object_slots t' ! k) \<and> obj_retired (object_slots t' ! k)"
    using k(3) by fastforce
  then show ?thesis using k(1) \<open>k < length (object_slots t')\<close> by (auto simp: object_spent_def)
qed

lemma object_insert_spec:
  assumes wf: "object_table_wf t" and ins: "ObjectTable_insert t ob = (r, t')"
  shows "object_table_wf t' \<and> objects_advance t t' \<and>
    (case r of
       Inl err \<Rightarrow> t' = t \<and> (err = ObjectTableFull \<and> (\<forall>s\<in>set (object_slots t). obj_occupied s \<or> obj_retired s) \<or>
         err = InvalidObject \<and> RuntimeObject_object_type ob = InvalidType)
     | Inr i \<Rightarrow> object_map t i = None \<and> object_map t' = (object_map t)(i \<mapsto> (ob, 1)) \<and> ObjectId_raw i \<noteq> 0 \<and>
         RuntimeObject_object_type ob \<noteq> InvalidType)"
proof (cases "RuntimeObject_object_type ob = InvalidType \<or>
    position (\<lambda>slot. \<not> obj_occupied slot \<and> \<not> obj_retired slot) (object_slots t) = None")
  case True
  moreover have "position (\<lambda>slot. \<not> obj_occupied slot \<and> \<not> obj_retired slot) (object_slots t) = None \<Longrightarrow>
      \<forall>s\<in>set (object_slots t). obj_occupied s \<or> obj_retired s" by (auto simp: position_None)
  ultimately show ?thesis using ins wf by (auto simp: ObjectTable_insert_def split: if_splits)
next
  case False
  then obtain k where pos: "position (\<lambda>slot. \<not> obj_occupied slot \<and> \<not> obj_retired slot) (object_slots t) = Some k"
      and ty: "RuntimeObject_object_type ob \<noteq> InvalidType" by auto
  note k = position_SomeD [OF pos]
  define s where "s = (object_slots t ! k)\<lparr>obj_occupied := True, obj_references := 1, obj_object := ob\<rparr>"
  define i where "i = encode_object k (obj_generation (object_slots t ! k))"
  have w: "object_slot_wf (object_slots t ! k)" using object_wf_slot [OF wf k(1)] .
  have "k < 65535" using k(1) wf by (simp add: object_table_wf_def MAX_OBJECT_ENTRIES_eq)
  then have d: "decode_object i = Some (k, obj_generation (object_slots t ! k))"
    using w unfolding i_def by (intro decode_encode_object) (simp_all add: object_slot_wf_def)
  have t': "r = Inr i" "t' = t\<lparr>object_slots := (object_slots t)[k := s], object_len := object_len t + 1\<rparr>"
    using ins pos ty by (auto simp: ObjectTable_insert_def Let_def s_def i_def)
  have "object_table_wf t'" unfolding t'(2)
    using w k(2) ty by (intro object_wf_update [OF wf k(1)]) (auto simp: s_def object_slot_wf_def)
  moreover have "objects_advance t t'" unfolding t'(2) by (rule objects_advance_update) (simp_all add: s_def)
  moreover have "object_map t' = (object_map t)(i \<mapsto> (ob, 1))"
    using object_map_update [OF k(1) d, of s] k(2) unfolding t'(2) by (simp add: s_def obj_live_def)
  moreover have "object_map t i = None" using d k(2) by (simp add: object_map_def obj_live_def)
  moreover have "ObjectId_raw i \<noteq> 0" using d by (auto simp: decode_object_def Let_def split: if_splits)
  ultimately show ?thesis using t'(1) ty by simp
qed

text \<open>A change of the slot of a live identity that keeps it live.\<close>

lemma object_slot_change:
  assumes wf: "object_table_wf t" and i: "object_map t i = Some (ob, n)"
    and s: "obj_generation s = obj_generation (object_slots t ! slot_of i)" "obj_occupied s" "\<not> obj_retired s"
      "obj_references s \<noteq> 0" "RuntimeObject_object_type (obj_object s) \<noteq> InvalidType"
    and t': "t' = t\<lparr>object_slots := (object_slots t)[slot_of i := s]\<rparr>"
  shows "object_table_wf t' \<and> objects_advance t t' \<and> object_map t' = (object_map t)(i \<mapsto> (obj_object s, unat (obj_references s)))"
proof -
  obtain k where k: "k < length (object_slots t)" "obj_occupied (object_slots t ! k)" "\<not> obj_retired (object_slots t ! k)"
      "decode_object i = Some (k, obj_generation (object_slots t ! k))"
    using i by (rule object_map_SomeD)
  have so: "slot_of i = k" using k(4) by (simp add: slot_of_def)
  have t'': "t' = t\<lparr>object_slots := (object_slots t)[k := s], object_len := object_len t\<rparr>" using t' so by simp
  have sw: "object_slot_wf s" using object_wf_slot [OF wf k(1)] s so by (simp add: object_slot_wf_def)
  have "object_table_wf t'" unfolding t'' using k(2) s(2) by (intro object_wf_update [OF wf k(1) sw]) simp
  moreover have "objects_advance t t'" unfolding t'' using s k(3) so by (intro objects_advance_update) simp_all
  moreover have "object_map t' = (object_map t)(i \<mapsto> (obj_object s, unat (obj_references s)))"
    using object_map_update [OF k(1,4), of s "object_len t"] s so unfolding t'' by (simp add: obj_live_def)
  ultimately show ?thesis by simp
qed

lemma set_object_spec:
  assumes wf: "object_table_wf t" and i: "object_map t i = Some (ob, n)"
    and ty: "RuntimeObject_object_type ob' = RuntimeObject_object_type ob"
  shows "object_table_wf (set_object t (slot_of i) ob')" "objects_advance t (set_object t (slot_of i) ob')"
    "object_map (set_object t (slot_of i) ob') = (object_map t)(i \<mapsto> (ob', n))"
proof -
  obtain k where k: "k < length (object_slots t)" "obj_occupied (object_slots t ! k)" "\<not> obj_retired (object_slots t ! k)"
      "obj_object (object_slots t ! k) = ob" "unat (obj_references (object_slots t ! k)) = n"
      "obj_references (object_slots t ! k) \<noteq> 0" "decode_object i = Some (k, obj_generation (object_slots t ! k))"
    using i by (rule object_map_SomeD)
  have so: "slot_of i = k" using k(7) by (simp add: slot_of_def)
  have "RuntimeObject_object_type ob \<noteq> InvalidType"
    using object_wf_slot [OF wf k(1)] k(2,4) by (simp add: object_slot_wf_def)
  from object_slot_change [OF wf i, where s = "(object_slots t ! k)\<lparr>obj_object := ob'\<rparr>", OF _ _ _ _ _ refl] this
  show "object_table_wf (set_object t (slot_of i) ob')" "objects_advance t (set_object t (slot_of i) ob')"
    "object_map (set_object t (slot_of i) ob') = (object_map t)(i \<mapsto> (ob', n))"
    using k so ty by (simp_all add: set_object_def)
qed

lemma retain_spec:
  assumes wf: "object_table_wf t" and i: "object_map t i = Some (ob, n)" and r: "ObjectTable_retain t i = (r, t')"
  shows "if n + 1 < 2 ^ 32
    then is_ok r \<and> object_table_wf t' \<and> objects_advance t t' \<and> object_map t' = (object_map t)(i \<mapsto> (ob, n + 1))
    else r = Inl ReferenceOverflow \<and> t' = t"
proof -
  obtain k where k: "k < length (object_slots t)" "obj_occupied (object_slots t ! k)" "\<not> obj_retired (object_slots t ! k)"
      "obj_object (object_slots t ! k) = ob" "unat (obj_references (object_slots t ! k)) = n"
      "decode_object i = Some (k, obj_generation (object_slots t ! k))"
    using i by (rule object_map_SomeD)
  have so: "slot_of i = k" using k(6) by (simp add: slot_of_def)
  have ty: "RuntimeObject_object_type ob \<noteq> InvalidType"
    using object_wf_slot [OF wf k(1)] k(2,4) by (simp add: object_slot_wf_def)
  show ?thesis
  proof (cases "checked_add (obj_references (object_slots t ! k)) 1")
    case None
    then show ?thesis using r i so k(5) checked_add_eq_None [of "obj_references (object_slots t ! k)" 1]
      by (simp add: ObjectTable_retain_def live_slot_mut_eq)
  next
    case (Some m)
    have m: "unat m = n + 1" "n + 1 < 2 ^ 32" using Some k(5) by (auto simp: checked_add_eq_Some)
    then have "m \<noteq> 0" by (metis add_is_0 one_neq_zero unsigned_0)
    have t': "is_ok r" "t' = t\<lparr>object_slots := (object_slots t)[slot_of i := (object_slots t ! k)\<lparr>obj_references := m\<rparr>]\<rparr>"
      using r i so Some by (auto simp: ObjectTable_retain_def live_slot_mut_eq)
    show ?thesis
      using object_slot_change [OF wf i _ _ _ _ _ t'(2)] t'(1) k(2-4) so ty m \<open>m \<noteq> 0\<close> by simp
  qed
qed

lemma release_spec:
  assumes wf: "object_table_wf t" and i: "object_map t i = Some (ob, n)" and r: "ObjectTable_release t i = (r, t')"
  shows "object_table_wf t' \<and> objects_advance t t' \<and>
    (if n = 1 then r = Inr (Some ob) \<and> object_map t' = (object_map t)(i := None) \<and> object_spent t' i
     else r = Inr None \<and> object_map t' = (object_map t)(i \<mapsto> (ob, n - 1)))"
proof -
  obtain k where k: "k < length (object_slots t)" "obj_occupied (object_slots t ! k)" "\<not> obj_retired (object_slots t ! k)"
      "obj_object (object_slots t ! k) = ob" "unat (obj_references (object_slots t ! k)) = n"
      "obj_references (object_slots t ! k) \<noteq> 0" "decode_object i = Some (k, obj_generation (object_slots t ! k))"
    using i by (rule object_map_SomeD)
  let ?s = "object_slots t ! k"
  have so: "slot_of i = k" using k(7) by (simp add: slot_of_def)
  have w: "object_slot_wf ?s" using object_wf_slot [OF wf k(1)] .
  have n0: "0 < n" using k(5,6) by (metis unat_gt_0)
  then have dec: "unat (obj_references ?s - 1) = n - 1" using k(5) by (simp add: unat_sub word_le_nat_alt)
  then have z: "obj_references ?s - 1 = 0 \<longleftrightarrow> n = 1" using n0 by (auto simp: word_unat_eq_iff)
  show ?thesis
  proof (cases "n = 1")
    case False
    then have t': "r = Inr None" "t' = t\<lparr>object_slots := (object_slots t)[slot_of i := ?s\<lparr>obj_references := obj_references ?s - 1\<rparr>]\<rparr>"
      using r k z so by (auto simp: ObjectTable_release_def)
    show ?thesis
      using object_slot_change [OF wf i _ _ _ _ _ t'(2)] t'(1) k(2-4) so w False z dec by (simp add: object_slot_wf_def)
  next
    case True
    define s where "s = (let s2 = ?s\<lparr>obj_references := 0, obj_object := InvalidRuntimeObject, obj_occupied := False\<rparr> in
      if obj_generation ?s = MAX_ISSUED_OBJECT_GENERATION then s2\<lparr>obj_retired := True\<rparr>
      else s2\<lparr>obj_generation := obj_generation ?s + 1\<rparr>)"
    have gen: "obj_generation ?s < obj_generation ?s + 1 \<and> obj_generation ?s + 1 \<le> MAX_ISSUED_OBJECT_GENERATION"
      if "obj_generation ?s \<noteq> MAX_ISSUED_OBJECT_GENERATION"
    proof -
      have lt: "obj_generation ?s < MAX_ISSUED_OBJECT_GENERATION" using w that by (simp add: object_slot_wf_def order_less_le)
      then show ?thesis
        using inc_le [OF lt] by (simp add: word_less_nat_alt MAX_ISSUED_OBJECT_GENERATION_eq unat_word_ariths)
    qed
    have sw: "object_slot_wf s" using w gen by (auto simp: object_slot_wf_def s_def Let_def)
    have dead: "\<not> obj_live s g" for g by (auto simp: s_def Let_def obj_live_def)
    have t': "r = Inr (Some ob)" "t' = t\<lparr>object_slots := (object_slots t)[k := s], object_len := object_len t - 1\<rparr>"
      using r k z True by (auto simp: ObjectTable_release_def s_def Let_def)
    have "0 < object_len t"
      using wf k(1,2) by (auto simp: object_table_wf_def filter_empty_conv intro!: bexI [of _ ?s])
    then have "object_table_wf t'" unfolding t'(2)
      using k(2) by (intro object_wf_update [OF wf k(1) sw]) (auto simp: s_def Let_def)
    moreover have "objects_advance t t'" unfolding t'(2)
      using k(3) gen by (intro objects_advance_update) (auto simp: s_def Let_def)
    moreover have "object_map t' = (object_map t)(i := None)"
      using object_map_update [OF k(1,7) dead, where n = "object_len t - 1"] dead unfolding t'(2) by simp
    moreover have "object_spent t' i" using k(1,7) gen unfolding t'(2) by (auto simp: object_spent_def s_def Let_def)
    ultimately show ?thesis using t'(1) True by simp
  qed
qed

lemma not_live_unchanged:
  assumes "object_map t i = None"
  shows "ObjectTable_retain t i = (Inl InvalidObjectId, t)" "ObjectTable_release t i = (Inl InvalidObjectId, t)"
    "ObjectTable_reference_mut t i ex = Inl InvalidObjectId"
proof -
  show "ObjectTable_retain t i = (Inl InvalidObjectId, t)" "ObjectTable_reference_mut t i ex = Inl InvalidObjectId"
    using assms by (simp_all add: ObjectTable_retain_def live_slot_mut_eq object_reference_mut_eq)
  show "ObjectTable_release t i = (Inl InvalidObjectId, t)"
    using assms by (auto simp: ObjectTable_release_def object_map_def obj_live_def index_opt_def split: option.splits if_splits)
qed

subsection \<open>Abandoning the mutants of a thread\<close>

definition abandon_object :: "NtThreadId \<Rightarrow> RuntimeObject \<Rightarrow> RuntimeObject" where
  "abandon_object thread ob = (case ob of Mutant m \<Rightarrow> Mutant (snd (MutantState_abandon_if_owned m thread)) | _ \<Rightarrow> ob)"

definition owns_mutant :: "NtThreadId \<Rightarrow> RuntimeObject \<Rightarrow> bool" where
  "owns_mutant thread ob \<longleftrightarrow> (\<exists>m. ob = Mutant m \<and> mutant_owner m = Some thread)"

lemma abandon_object_type [simp]: "RuntimeObject_object_type (abandon_object th ob) = RuntimeObject_object_type ob"
  by (cases ob) (simp_all add: abandon_object_def)

definition abandon_slot :: "NtThreadId \<Rightarrow> ObjectSlot \<Rightarrow> ObjectSlot" where
  "abandon_slot th s = (if obj_occupied s then s\<lparr>obj_object := abandon_object th (obj_object s)\<rparr> else s)"

lemma abandon_slot_fields [simp]:
  "obj_occupied (abandon_slot th s) = obj_occupied s" "obj_retired (abandon_slot th s) = obj_retired s"
  "obj_generation (abandon_slot th s) = obj_generation s" "obj_references (abandon_slot th s) = obj_references s"
  "obj_occupied s \<Longrightarrow> obj_object (abandon_slot th s) = abandon_object th (obj_object s)"
  by (simp_all add: abandon_slot_def)

lemma abandon_slots_eq:
  "abandon_slots th slots =
     (length (filter (\<lambda>s. obj_occupied s \<and> owns_mutant th (obj_object s)) slots), map (abandon_slot th) slots)"
proof (induction slots)
  case (Cons s slots)
  then show ?case
    by (cases "obj_object s")
      (auto simp: abandon_slot_def abandon_object_def owns_mutant_def MutantState_abandon_if_owned_def)
qed simp

lemma abandon_spec:
  assumes wf: "object_table_wf t" and a: "ObjectTable_abandon_mutants t th = (c, t')"
  shows "object_table_wf t' \<and> objects_advance t t' \<and>
    object_map t' = (\<lambda>i. map_option (apfst (abandon_object th)) (object_map t i)) \<and>
    c = length (filter (\<lambda>s. obj_occupied s \<and> owns_mutant th (obj_object s)) (object_slots t))"
proof -
  have t': "t' = t\<lparr>object_slots := map (abandon_slot th) (object_slots t)\<rparr>"
      "c = length (filter (\<lambda>s. obj_occupied s \<and> owns_mutant th (obj_object s)) (object_slots t))"
    using a by (auto simp: ObjectTable_abandon_mutants_def abandon_slots_eq)
  have "length (filter obj_occupied (map (abandon_slot th) xs)) = length (filter obj_occupied xs)" for xs
    by (induction xs) auto
  from this [of "object_slots t"] have "object_table_wf t'"
    using wf unfolding t'(1) by (auto simp: object_table_wf_def object_slot_wf_def)
  moreover have "objects_advance t t'" unfolding t'(1) by (simp add: objects_advance_def)
  moreover have "object_map t' i = map_option (apfst (abandon_object th)) (object_map t i)" for i
    unfolding t'(1) by (cases "decode_object i") (auto simp: object_map_def obj_live_def)
  ultimately show ?thesis using t'(2) by auto
qed

subsection \<open>Histories of the store\<close>

inductive object_step :: "ObjectTable \<Rightarrow> ObjectTable \<Rightarrow> bool" where
  object_insert: "ObjectTable_insert t ob = (r, t') \<Longrightarrow> object_step t t'"
| object_retain: "ObjectTable_retain t i = (r', t') \<Longrightarrow> object_step t t'"
| object_release: "ObjectTable_release t i = (r'', t') \<Longrightarrow> object_step t t'"
| object_write: "ObjectTable_reference_mut t i (Some (RuntimeObject_object_type ob)) = Inr k \<Longrightarrow>
    object_step t (set_object t k ob)"
| object_abandon: "ObjectTable_abandon_mutants t th = (c, t') \<Longrightarrow> object_step t t'"

text \<open>Every step keeps the store consistent, advances its slots, and frees an object only by a last release.\<close>

lemma object_step_spec:
  assumes wf: "object_table_wf t" and st: "object_step t t'"
  shows "object_table_wf t' \<and> objects_advance t t' \<and>
    (\<forall>i. object_map t i \<noteq> None \<longrightarrow> object_map t' i = None \<longrightarrow> object_spent t' i)"
  using st
proof cases
  case (object_insert ob r)
  then show ?thesis using object_insert_spec [OF wf object_insert] wf by (auto split: sum.splits)
next
  case (object_retain i r)
  show ?thesis
  proof (cases "object_map t i")
    case None
    then show ?thesis using not_live_unchanged(1) [OF None] object_retain wf by auto
  next
    case (Some p)
    then have "object_map t i = Some (fst p, snd p)" by simp
    from retain_spec [OF wf this object_retain] show ?thesis using wf by (cases "snd p + 1 < 2 ^ 32") auto
  qed
next
  case (object_release i r)
  show ?thesis
  proof (cases "object_map t i")
    case None
    then show ?thesis using not_live_unchanged(2) [OF None] object_release wf by auto
  next
    case (Some p)
    then have "object_map t i = Some (fst p, snd p)" by simp
    from release_spec [OF wf this object_release] show ?thesis by (cases "snd p = 1") auto
  qed
next
  case (object_write i ob k)
  show ?thesis
  proof (cases "object_map t i")
    case None
    then show ?thesis using not_live_unchanged(3) [OF None] object_write by simp
  next
    case (Some p)
    then have m: "object_map t i = Some (fst p, snd p)" by simp
    have "k = slot_of i" "RuntimeObject_object_type ob = RuntimeObject_object_type (fst p)"
      using object_write(2) m by (auto simp: object_reference_mut_eq validate_type_def split_def split: if_splits)
    then show ?thesis using set_object_spec [OF wf m] object_write(1) by auto
  qed
next
  case (object_abandon th c)
  then show ?thesis using abandon_spec [OF wf object_abandon] by auto
qed

interpretation objects: generation_keys object_step object_table_wf "\<lambda>t i. object_map t i \<noteq> None" object_spent
proof unfold_locales
  show "\<not> object_map t i \<noteq> None" if "object_spent t i" for t i
    using that by (auto simp: object_spent_def object_map_def obj_live_def split: if_splits)
next
  fix t t' i assume a: "object_table_wf t" "object_step t t'"
  note sp = object_step_spec [OF a]
  show "object_table_wf t'" using sp by simp
  show "object_spent t' i" if "object_spent t i" using object_spent_advance sp that by blast
  show "object_spent t' i" if "object_map t i \<noteq> None" "\<not> object_map t' i \<noteq> None" using sp that by blast
qed


lemma sample_store:
  obtains t where "ObjectTable_insert \<lparr>object_slots = [ObjectSlot_EMPTY], object_len = 0\<rparr> (Event (EventState_new Notification False))
      = (Inr (ObjectId 0x10001), t)" "object_table_wf t"
    "object_map t (ObjectId 0x10001) = Some (Event (EventState_new Notification False), 1)"
proof -
  let ?t = "\<lparr>object_slots = [ObjectSlot_EMPTY], object_len = 0\<rparr>" and ?ob = "Event (EventState_new Notification False)"
  have wf: "object_table_wf ?t"
    by (simp add: object_table_wf_def object_slot_wf_def ObjectSlot_EMPTY_def MAX_OBJECT_ENTRIES_eq
        MAX_ISSUED_OBJECT_GENERATION_eq)
  obtain r t where r: "ObjectTable_insert ?t ?ob = (r, t)" by (cases "ObjectTable_insert ?t ?ob")
  have "r = Inr (ObjectId 0x10001)"
    using r by (simp add: ObjectTable_insert_def position_def ObjectSlot_EMPTY_def encode_object_def OBJECT_INDEX_BITS_def)
  then show thesis using that r object_insert_spec [OF wf r] by simp
qed


end
