(* ===== verification/Nt_Service.thy ===== *)
theory Nt_Service
  imports Nt_Modules Nt_Object
begin

text \<open>
  The service contracts of \<open>user/winhost-core/src/service.rs\<close>: service identities and their export
  symbols, the typed calls and the replies.
\<close>

datatype NtService =
    ServiceClose
  | ServiceDuplicateObject
  | ServiceCreateEvent
  | ServiceSetEvent
  | ServiceResetEvent
  | ServiceCreateMutant
  | ServiceReleaseMutant
  | ServiceCreateSemaphore
  | ServiceReleaseSemaphore
  | ServiceCreateTimer
  | ServiceSetTimer
  | ServiceCancelTimer
  | ServiceWaitForSingleObject
  | ServiceUnknown

fun NtService_symbol :: "NtService \<Rightarrow> u8 list" where
  "NtService_symbol ServiceClose = ascii ''NtClose''"
| "NtService_symbol ServiceDuplicateObject = ascii ''NtDuplicateObject''"
| "NtService_symbol ServiceCreateEvent = ascii ''NtCreateEvent''"
| "NtService_symbol ServiceSetEvent = ascii ''NtSetEvent''"
| "NtService_symbol ServiceResetEvent = ascii ''NtResetEvent''"
| "NtService_symbol ServiceCreateMutant = ascii ''NtCreateMutant''"
| "NtService_symbol ServiceReleaseMutant = ascii ''NtReleaseMutant''"
| "NtService_symbol ServiceCreateSemaphore = ascii ''NtCreateSemaphore''"
| "NtService_symbol ServiceReleaseSemaphore = ascii ''NtReleaseSemaphore''"
| "NtService_symbol ServiceCreateTimer = ascii ''NtCreateTimer''"
| "NtService_symbol ServiceSetTimer = ascii ''NtSetTimer''"
| "NtService_symbol ServiceCancelTimer = ascii ''NtCancelTimer''"
| "NtService_symbol ServiceWaitForSingleObject = ascii ''NtWaitForSingleObject''"
| "NtService_symbol ServiceUnknown = []"

definition resolve_nt_service :: "u8 list \<Rightarrow> u8 list \<Rightarrow> NtService" where
  "resolve_nt_service module' symbol =
     (case ModuleName_parse module' of
        Inl _ \<Rightarrow> ServiceUnknown
      | Inr m \<Rightarrow>
          case SymbolName_parse symbol of
            Inl _ \<Rightarrow> ServiceUnknown
          | Inr s \<Rightarrow>
              if ModuleName_as_bytes m \<noteq> ascii ''NTDLL.DLL'' then ServiceUnknown
              else
                let b = SymbolName_as_bytes s in
                if b = ascii ''NtClose'' then ServiceClose
                else if b = ascii ''NtDuplicateObject'' then ServiceDuplicateObject
                else if b = ascii ''NtCreateEvent'' then ServiceCreateEvent
                else if b = ascii ''NtSetEvent'' then ServiceSetEvent
                else if b = ascii ''NtResetEvent'' then ServiceResetEvent
                else if b = ascii ''NtCreateMutant'' then ServiceCreateMutant
                else if b = ascii ''NtReleaseMutant'' then ServiceReleaseMutant
                else if b = ascii ''NtCreateSemaphore'' then ServiceCreateSemaphore
                else if b = ascii ''NtReleaseSemaphore'' then ServiceReleaseSemaphore
                else if b = ascii ''NtCreateTimer'' then ServiceCreateTimer
                else if b = ascii ''NtSetTimer'' then ServiceSetTimer
                else if b = ascii ''NtCancelTimer'' then ServiceCancelTimer
                else if b = ascii ''NtWaitForSingleObject'' then ServiceWaitForSingleObject
                else ServiceUnknown)"

datatype NtWaitMode = Poll | Blocking

datatype NtServiceCall =
    CallClose GuestHandle
  | CallDuplicateObject GuestHandle "AccessMask option" "bool option"
  | CallCreateEvent EventKind bool AccessMask bool
  | CallSetEvent GuestHandle
  | CallResetEvent GuestHandle
  | CallCreateMutant "NtThreadId option" AccessMask bool
  | CallReleaseMutant GuestHandle NtThreadId
  | CallCreateSemaphore u32 u32 AccessMask bool
  | CallReleaseSemaphore GuestHandle u32
  | CallCreateTimer TimerKind AccessMask bool
  | CallSetTimer GuestHandle u64 u64 u64
  | CallCancelTimer GuestHandle
  | CallWaitForSingleObject GuestHandle NtThreadId u64 NtWaitMode

fun NtServiceCall_service :: "NtServiceCall \<Rightarrow> NtService" where
  "NtServiceCall_service (CallClose _) = ServiceClose"
| "NtServiceCall_service (CallDuplicateObject _ _ _) = ServiceDuplicateObject"
| "NtServiceCall_service (CallCreateEvent _ _ _ _) = ServiceCreateEvent"
| "NtServiceCall_service (CallSetEvent _) = ServiceSetEvent"
| "NtServiceCall_service (CallResetEvent _) = ServiceResetEvent"
| "NtServiceCall_service (CallCreateMutant _ _ _) = ServiceCreateMutant"
| "NtServiceCall_service (CallReleaseMutant _ _) = ServiceReleaseMutant"
| "NtServiceCall_service (CallCreateSemaphore _ _ _ _) = ServiceCreateSemaphore"
| "NtServiceCall_service (CallReleaseSemaphore _ _) = ServiceReleaseSemaphore"
| "NtServiceCall_service (CallCreateTimer _ _ _) = ServiceCreateTimer"
| "NtServiceCall_service (CallSetTimer _ _ _ _) = ServiceSetTimer"
| "NtServiceCall_service (CallCancelTimer _) = ServiceCancelTimer"
| "NtServiceCall_service (CallWaitForSingleObject _ _ _ _) = ServiceWaitForSingleObject"

datatype NtServiceValue =
    ValueNone
  | ValueHandle GuestHandle
  | ValueBoolean bool
  | ValueCount u32

record NtServiceReply =
  reply_status :: NtStatus
  reply_value :: NtServiceValue

definition NtServiceReply_status :: "NtStatus \<Rightarrow> NtServiceReply" where
  "NtServiceReply_status status = \<lparr>reply_status = status, reply_value = ValueNone\<rparr>"

definition NtServiceReply_handle :: "GuestHandle \<Rightarrow> NtServiceReply" where
  "NtServiceReply_handle handle = \<lparr>reply_status = NtStatus_SUCCESS, reply_value = ValueHandle handle\<rparr>"

definition NtServiceReply_boolean :: "bool \<Rightarrow> NtServiceReply" where
  "NtServiceReply_boolean previous = \<lparr>reply_status = NtStatus_SUCCESS, reply_value = ValueBoolean previous\<rparr>"

definition NtServiceReply_count :: "u32 \<Rightarrow> NtServiceReply" where
  "NtServiceReply_count previous = \<lparr>reply_status = NtStatus_SUCCESS, reply_value = ValueCount previous\<rparr>"

subsection \<open>Resolution of symbols\<close>

lemma NtService_symbol_valid:
  "s \<noteq> ServiceUnknown \<Longrightarrow> SymbolName_parse (NtService_symbol s) = Inr (SymbolName (NtService_symbol s))"
  by (cases s) (simp_all add: SymbolName_parse_def ascii_def MAX_EXPORT_NAME_BYTES_def MAX_IMPORT_NAME_BYTES_def)

lemma ntdll_upper: "ModuleName_parse value = Inr m \<Longrightarrow> ModuleName_as_bytes m = map to_ascii_uppercase value"
  by (auto simp: ModuleName_parse_def split: if_splits)

lemma resolve_to_symbol:
  assumes "resolve_nt_service m b = s" "s \<noteq> ServiceUnknown"
  shows "b = NtService_symbol s"
  using assms
  by (cases "ModuleName_parse m"; cases "SymbolName_parse b")
     (auto simp: resolve_nt_service_def SymbolName_parse_def Let_def split: if_split_asm)

lemma parse_ntdll:
  assumes "map to_ascii_uppercase value = ascii ''NTDLL.DLL''"
  shows "ModuleName_parse value = Inr (ModuleName (ascii ''NTDLL.DLL''))"
proof -
  have len: "length value = 9" using arg_cong [OF assms, of length] by (simp add: ascii_def)
  have "is_ascii_alphanumeric b \<or> b = 0x2E" if "b \<in> set value" for b
  proof (cases "0x61 \<le> b \<and> b \<le> 0x7A")
    case True
    then show ?thesis by (simp add: is_ascii_alphanumeric_def)
  next
    case False
    then have "to_ascii_uppercase b = b" by (auto simp: to_ascii_uppercase_def)
    then have "b \<in> set (map to_ascii_uppercase value)" using that by force
    then show ?thesis unfolding assms by (auto simp: ascii_def is_ascii_alphanumeric_def)
  qed
  then show ?thesis
    using len assms by (auto simp: ModuleName_parse_def MAX_MODULE_NAME_BYTES_def MAX_IMPORT_NAME_BYTES_def)
qed

lemma resolve_symbol:
  assumes "map to_ascii_uppercase m = ascii ''NTDLL.DLL''"
  shows "resolve_nt_service m (NtService_symbol s) = s"
  by (cases "s = ServiceUnknown"; cases s)
     (simp_all add: resolve_nt_service_def parse_ntdll [OF assms] NtService_symbol_valid [of s, simplified] Let_def ascii_def
       SymbolName_parse_def MAX_EXPORT_NAME_BYTES_def MAX_IMPORT_NAME_BYTES_def)

lemma resolve_module:
  assumes "resolve_nt_service m b \<noteq> ServiceUnknown"
  shows "map to_ascii_uppercase m = ascii ''NTDLL.DLL''"
  using assms ntdll_upper [of m]
  by (cases "ModuleName_parse m"; cases "SymbolName_parse b") (auto simp: resolve_nt_service_def split: if_split_asm)

text \<open>Symbol resolution inverts the symbol table: a service is found exactly when the module
  name is NTDLL.DLL up to the case of its letters and the symbol is that service's own export name,
  letter for letter.\<close>

theorem resolve_nt_service_exact:
  "s \<noteq> ServiceUnknown \<longrightarrow>
   (resolve_nt_service module' symbol = s \<longleftrightarrow>
     map to_ascii_uppercase module' = ascii ''NTDLL.DLL'' \<and> symbol = NtService_symbol s)"
  using resolve_symbol resolve_module resolve_to_symbol by blast

theorem resolve_nt_service_exact_witness:
  "resolve_nt_service (ascii ''ntdll.dll'') (ascii ''NtSetTimer'') = ServiceSetTimer"
  using resolve_nt_service_exact [of ServiceSetTimer "ascii ''ntdll.dll''" "ascii ''NtSetTimer''"]
  by (simp add: ascii_def to_ascii_uppercase_def)

end
