(* ===== verification/Nt_Runtime.thy ===== *)
theory Nt_Runtime
  imports Nt_Service
begin

text \<open>
  The object, handle and service runtime of \<open>user/winhost-core/src/runtime.rs\<close>. A service call
  returns its reply and the new runtime; the outer option is \<open>None\<close> where the source reaches
  \<open>unreachable!()\<close>.
\<close>

subsection \<open>Access masks per object type\<close>

definition EVENT_ALLOWED_ACCESS :: AccessMask where
  "EVENT_ALLOWED_ACCESS =
     AccessMask_union (AccessMask_union AccessMask_EVENT_QUERY_STATE AccessMask_EVENT_MODIFY_STATE) AccessMask_SYNCHRONIZE"

definition MUTANT_ALLOWED_ACCESS :: AccessMask where
  "MUTANT_ALLOWED_ACCESS = AccessMask_union AccessMask_MUTANT_QUERY_STATE AccessMask_SYNCHRONIZE"

definition SEMAPHORE_ALLOWED_ACCESS :: AccessMask where
  "SEMAPHORE_ALLOWED_ACCESS =
     AccessMask_union (AccessMask_union AccessMask_SEMAPHORE_QUERY_STATE AccessMask_SEMAPHORE_MODIFY_STATE)
       AccessMask_SYNCHRONIZE"

definition TIMER_ALLOWED_ACCESS :: AccessMask where
  "TIMER_ALLOWED_ACCESS =
     AccessMask_union (AccessMask_union AccessMask_TIMER_QUERY_STATE AccessMask_TIMER_MODIFY_STATE) AccessMask_SYNCHRONIZE"

definition validate_access :: "AccessMask \<Rightarrow> AccessMask \<Rightarrow> NtStatus + unit" where
  "validate_access access allowed =
     (if AccessMask_bits access AND NOT (AccessMask_bits allowed) \<noteq> 0 then Inl NtStatus_ACCESS_DENIED else Inr ())"

subsection \<open>The runtime\<close>

record NtRuntime =
  rt_handles :: HandleTable
  rt_objects :: ObjectTable

definition NtRuntime_try_new :: "nat \<Rightarrow> nat \<Rightarrow> NtStatus + NtRuntime" where
  "NtRuntime_try_new h o' =
     (case HandleTable_try_new h of
        Inl error \<Rightarrow> Inl (HandleError_status error)
      | Inr handles \<Rightarrow>
          case ObjectTable_try_new o' of
            Inl error \<Rightarrow> Inl (ObjectError_status error)
          | Inr objects \<Rightarrow> Inr \<lparr>rt_handles = handles, rt_objects = objects\<rparr>)"

definition NtRuntime_handle_count :: "NtRuntime \<Rightarrow> nat" where
  "NtRuntime_handle_count self = handle_len (rt_handles self)"

definition NtRuntime_object_count :: "NtRuntime \<Rightarrow> nat" where
  "NtRuntime_object_count self = object_len (rt_objects self)"

definition NtRuntime_object_reference_count :: "NtRuntime \<Rightarrow> GuestHandle \<Rightarrow> NtStatus + u32" where
  "NtRuntime_object_reference_count self handle =
     and_then (map_err HandleError_status (HandleTable_reference (rt_handles self) handle None AccessMask_NONE)) (\<lambda>entry.
     map_err ObjectError_status (ObjectTable_reference_count (rt_objects self) (ObjectId_from_raw (entry_object_id entry))))"

definition NtRuntime_insert_object_handle ::
    "NtRuntime \<Rightarrow> RuntimeObject \<Rightarrow> AccessMask \<Rightarrow> bool \<Rightarrow> (NtStatus + GuestHandle) \<times> NtRuntime" where
  "NtRuntime_insert_object_handle self object access inheritable =
     (let object_type = RuntimeObject_object_type object in
      case ObjectTable_insert (rt_objects self) object of
        (Inl error, objects) \<Rightarrow> (Inl (ObjectError_status error), self\<lparr>rt_objects := objects\<rparr>)
      | (Inr id', objects) \<Rightarrow>
          let entry = \<lparr>entry_object_id = ObjectId_raw id', entry_object_type = object_type, entry_access = access,
                       entry_inheritable = inheritable\<rparr> in
          case HandleTable_insert (rt_handles self) entry of
            (Inr handle, handles) \<Rightarrow> (Inr handle, self\<lparr>rt_objects := objects, rt_handles := handles\<rparr>)
          | (Inl error, handles) \<Rightarrow>
              (Inl (HandleError_status error),
               self\<lparr>rt_objects := snd (ObjectTable_release objects id'), rt_handles := handles\<rparr>))"

definition NtRuntime_insert_console ::
    "NtRuntime \<Rightarrow> u32 \<Rightarrow> bool \<Rightarrow> bool \<Rightarrow> bool \<Rightarrow> (NtStatus + GuestHandle) \<times> NtRuntime" where
  "NtRuntime_insert_console self descriptor readable writable inheritable =
     (case ConsoleObject_try_new descriptor readable writable of
        Inl error \<Rightarrow> (Inl (ObjectError_status error), self)
      | Inr console \<Rightarrow>
          let access = AccessMask_NONE;
              access = (if readable then AccessMask_union access AccessMask_GENERIC_READ else access);
              access = (if writable then AccessMask_union access AccessMask_GENERIC_WRITE else access) in
          NtRuntime_insert_object_handle self (Console console) access inheritable)"

definition NtRuntime_console_descriptor :: "NtRuntime \<Rightarrow> GuestHandle \<Rightarrow> bool \<Rightarrow> NtStatus + u32" where
  "NtRuntime_console_descriptor self handle write =
     (let requested = (if write then AccessMask_GENERIC_WRITE else AccessMask_GENERIC_READ) in
      and_then (map_err HandleError_status
        (HandleTable_reference (rt_handles self) handle (Some ConsoleType) requested)) (\<lambda>entry.
      and_then (map_err ObjectError_status
        (ObjectTable_reference (rt_objects self) (ObjectId_from_raw (entry_object_id entry)) (Some ConsoleType))) (\<lambda>object.
      case object of
        Console console \<Rightarrow>
          if write \<and> \<not> console_writable console \<or> \<not> write \<and> \<not> console_readable console then Inl NtStatus_ACCESS_DENIED
          else Inr (console_descriptor console)
      | _ \<Rightarrow> Inl NtStatus_OBJECT_TYPE_MISMATCH)))"

definition NtRuntime_close :: "NtRuntime \<Rightarrow> GuestHandle \<Rightarrow> (NtStatus + RuntimeObject option) \<times> NtRuntime" where
  "NtRuntime_close self handle =
     (case HandleTable_reference (rt_handles self) handle None AccessMask_NONE of
        Inl error \<Rightarrow> (Inl (HandleError_status error), self)
      | Inr entry \<Rightarrow>
          let id' = ObjectId_from_raw (entry_object_id entry) in
          case ObjectTable_reference (rt_objects self) id' (Some (entry_object_type entry)) of
            Inl error \<Rightarrow> (Inl (ObjectError_status error), self)
          | Inr _ \<Rightarrow>
              case HandleTable_close (rt_handles self) handle of
                (Inl error, handles) \<Rightarrow> (Inl (HandleError_status error), self\<lparr>rt_handles := handles\<rparr>)
              | (Inr _, handles) \<Rightarrow>
                  let (result, objects) = ObjectTable_release (rt_objects self) id' in
                  (map_err ObjectError_status result, self\<lparr>rt_handles := handles, rt_objects := objects\<rparr>))"

definition NtRuntime_duplicate ::
    "NtRuntime \<Rightarrow> GuestHandle \<Rightarrow> AccessMask option \<Rightarrow> bool option \<Rightarrow> (NtStatus + GuestHandle) \<times> NtRuntime" where
  "NtRuntime_duplicate self source desired_access inheritable =
     (case HandleTable_reference (rt_handles self) source None AccessMask_NONE of
        Inl error \<Rightarrow> (Inl (HandleError_status error), self)
      | Inr entry \<Rightarrow>
          if (case desired_access of Some desired \<Rightarrow> \<not> AccessMask_contains (entry_access entry) desired | None \<Rightarrow> False)
          then (Inl NtStatus_ACCESS_DENIED, self)
          else
            let id' = ObjectId_from_raw (entry_object_id entry) in
            case ObjectTable_reference (rt_objects self) id' (Some (entry_object_type entry)) of
              Inl error \<Rightarrow> (Inl (ObjectError_status error), self)
            | Inr _ \<Rightarrow>
                case ObjectTable_retain (rt_objects self) id' of
                  (Inl error, objects) \<Rightarrow> (Inl (ObjectError_status error), self\<lparr>rt_objects := objects\<rparr>)
                | (Inr _, objects) \<Rightarrow>
                    case HandleTable_duplicate (rt_handles self) source desired_access inheritable of
                      (Inr handle, handles) \<Rightarrow> (Inr handle, self\<lparr>rt_objects := objects, rt_handles := handles\<rparr>)
                    | (Inl error, handles) \<Rightarrow>
                        (Inl (HandleError_status error),
                         self\<lparr>rt_objects := snd (ObjectTable_release objects id'), rt_handles := handles\<rparr>))"

text \<open>\<open>object_mut\<close> answers the slot its \<open>&mut\<close> reference points into; the services write through it.\<close>

definition NtRuntime_object_mut :: "NtRuntime \<Rightarrow> GuestHandle \<Rightarrow> ObjectType \<Rightarrow> AccessMask \<Rightarrow> NtStatus + nat" where
  "NtRuntime_object_mut self handle expected access =
     (let expected_handle = (if expected \<noteq> InvalidType then Some expected else None) in
      and_then (map_err HandleError_status (HandleTable_reference (rt_handles self) handle expected_handle access)) (\<lambda>entry.
      map_err ObjectError_status
        (ObjectTable_reference_mut (rt_objects self) (ObjectId_from_raw (entry_object_id entry))
          (if expected_handle \<noteq> None then expected_handle else Some (entry_object_type entry)))))"

definition object_at :: "NtRuntime \<Rightarrow> nat \<Rightarrow> RuntimeObject" where
  "object_at self index = obj_object (object_slots (rt_objects self) ! index)"

definition write_object :: "NtRuntime \<Rightarrow> nat \<Rightarrow> RuntimeObject \<Rightarrow> NtRuntime" where
  "write_object self index object = self\<lparr>rt_objects := set_object (rt_objects self) index object\<rparr>"

definition handle_reply :: "(NtStatus + GuestHandle) \<times> NtRuntime \<Rightarrow> NtServiceReply \<times> NtRuntime" where
  "handle_reply r =
     (case r of
        (Inr handle, self) \<Rightarrow> (NtServiceReply_handle handle, self)
      | (Inl status, self) \<Rightarrow> (NtServiceReply_status status, self))"

subsection \<open>Services\<close>

definition NtRuntime_create_event ::
    "NtRuntime \<Rightarrow> EventKind \<Rightarrow> bool \<Rightarrow> AccessMask \<Rightarrow> bool \<Rightarrow> NtServiceReply \<times> NtRuntime" where
  "NtRuntime_create_event self kind initial access inheritable =
     (case validate_access access EVENT_ALLOWED_ACCESS of
        Inl status \<Rightarrow> (NtServiceReply_status status, self)
      | Inr _ \<Rightarrow> handle_reply (NtRuntime_insert_object_handle self (Event (EventState_new kind initial)) access inheritable))"

definition NtRuntime_set_event :: "NtRuntime \<Rightarrow> GuestHandle \<Rightarrow> bool \<Rightarrow> NtServiceReply \<times> NtRuntime" where
  "NtRuntime_set_event self handle signaled =
     (case NtRuntime_object_mut self handle EventType AccessMask_EVENT_MODIFY_STATE of
        Inl status \<Rightarrow> (NtServiceReply_status status, self)
      | Inr index \<Rightarrow>
          (case object_at self index of
             Event event \<Rightarrow>
               let (previous, event') = (if signaled then EventState_set event else EventState_reset event) in
               (NtServiceReply_boolean previous, write_object self index (Event event'))
           | _ \<Rightarrow> (NtServiceReply_status NtStatus_OBJECT_TYPE_MISMATCH, self)))"

definition NtRuntime_create_mutant ::
    "NtRuntime \<Rightarrow> NtThreadId option \<Rightarrow> AccessMask \<Rightarrow> bool \<Rightarrow> NtServiceReply \<times> NtRuntime" where
  "NtRuntime_create_mutant self owner' access inheritable =
     (case validate_access access MUTANT_ALLOWED_ACCESS of
        Inl status \<Rightarrow> (NtServiceReply_status status, self)
      | Inr _ \<Rightarrow> handle_reply (NtRuntime_insert_object_handle self (Mutant (MutantState_new owner')) access inheritable))"

definition NtRuntime_release_mutant :: "NtRuntime \<Rightarrow> GuestHandle \<Rightarrow> NtThreadId \<Rightarrow> NtServiceReply \<times> NtRuntime" where
  "NtRuntime_release_mutant self handle thread =
     (case NtRuntime_object_mut self handle MutantType AccessMask_MUTANT_QUERY_STATE of
        Inl status \<Rightarrow> (NtServiceReply_status status, self)
      | Inr index \<Rightarrow>
          (case object_at self index of
             Mutant mutant \<Rightarrow>
               (case MutantState_release mutant thread of
                  (Inr previous, mutant') \<Rightarrow> (NtServiceReply_count previous, write_object self index (Mutant mutant'))
                | (Inl error, mutant') \<Rightarrow>
                    (NtServiceReply_status (SyncError_status error), write_object self index (Mutant mutant')))
           | _ \<Rightarrow> (NtServiceReply_status NtStatus_OBJECT_TYPE_MISMATCH, self)))"

definition NtRuntime_create_semaphore ::
    "NtRuntime \<Rightarrow> u32 \<Rightarrow> u32 \<Rightarrow> AccessMask \<Rightarrow> bool \<Rightarrow> NtServiceReply \<times> NtRuntime" where
  "NtRuntime_create_semaphore self initial limit access inheritable =
     (case validate_access access SEMAPHORE_ALLOWED_ACCESS of
        Inl status \<Rightarrow> (NtServiceReply_status status, self)
      | Inr _ \<Rightarrow>
          case SemaphoreState_try_new initial limit of
            Inl error \<Rightarrow> (NtServiceReply_status (SyncError_status error), self)
          | Inr semaphore \<Rightarrow> handle_reply (NtRuntime_insert_object_handle self (Semaphore semaphore) access inheritable))"

definition NtRuntime_release_semaphore :: "NtRuntime \<Rightarrow> GuestHandle \<Rightarrow> u32 \<Rightarrow> NtServiceReply \<times> NtRuntime" where
  "NtRuntime_release_semaphore self handle count =
     (case NtRuntime_object_mut self handle SemaphoreType AccessMask_SEMAPHORE_MODIFY_STATE of
        Inl status \<Rightarrow> (NtServiceReply_status status, self)
      | Inr index \<Rightarrow>
          (case object_at self index of
             Semaphore semaphore \<Rightarrow>
               (case SemaphoreState_release semaphore count of
                  (Inr previous, semaphore') \<Rightarrow> (NtServiceReply_count previous, write_object self index (Semaphore semaphore'))
                | (Inl error, semaphore') \<Rightarrow>
                    (NtServiceReply_status (SyncError_status error), write_object self index (Semaphore semaphore')))
           | _ \<Rightarrow> (NtServiceReply_status NtStatus_OBJECT_TYPE_MISMATCH, self)))"

definition NtRuntime_create_timer :: "NtRuntime \<Rightarrow> TimerKind \<Rightarrow> AccessMask \<Rightarrow> bool \<Rightarrow> NtServiceReply \<times> NtRuntime" where
  "NtRuntime_create_timer self kind access inheritable =
     (case validate_access access TIMER_ALLOWED_ACCESS of
        Inl status \<Rightarrow> (NtServiceReply_status status, self)
      | Inr _ \<Rightarrow> handle_reply (NtRuntime_insert_object_handle self (Timer (TimerState_new kind)) access inheritable))"

definition NtRuntime_set_timer :: "NtRuntime \<Rightarrow> GuestHandle \<Rightarrow> u64 \<Rightarrow> u64 \<Rightarrow> u64 \<Rightarrow> NtServiceReply \<times> NtRuntime" where
  "NtRuntime_set_timer self handle now delay period =
     (case NtRuntime_object_mut self handle TimerType AccessMask_TIMER_MODIFY_STATE of
        Inl status \<Rightarrow> (NtServiceReply_status status, self)
      | Inr index \<Rightarrow>
          (case object_at self index of
             Timer timer \<Rightarrow>
               (case TimerState_set_relative timer now delay period of
                  (Inr previous, timer') \<Rightarrow> (NtServiceReply_boolean previous, write_object self index (Timer timer'))
                | (Inl error, timer') \<Rightarrow>
                    (NtServiceReply_status (SyncError_status error), write_object self index (Timer timer')))
           | _ \<Rightarrow> (NtServiceReply_status NtStatus_OBJECT_TYPE_MISMATCH, self)))"

definition NtRuntime_cancel_timer :: "NtRuntime \<Rightarrow> GuestHandle \<Rightarrow> NtServiceReply \<times> NtRuntime" where
  "NtRuntime_cancel_timer self handle =
     (case NtRuntime_object_mut self handle TimerType AccessMask_TIMER_MODIFY_STATE of
        Inl status \<Rightarrow> (NtServiceReply_status status, self)
      | Inr index \<Rightarrow>
          (case object_at self index of
             Timer timer \<Rightarrow>
               let (previous, timer') = TimerState_cancel timer in
               (NtServiceReply_boolean previous, write_object self index (Timer timer'))
           | _ \<Rightarrow> (NtServiceReply_status NtStatus_OBJECT_TYPE_MISMATCH, self)))"

definition wait_reply :: "NtWaitMode \<Rightarrow> SyncError + WaitSatisfaction \<Rightarrow> NtServiceReply" where
  "wait_reply mode result =
     (case result of
        Inr Satisfied \<Rightarrow> NtServiceReply_status NtStatus_SUCCESS
      | Inr Abandoned \<Rightarrow> NtServiceReply_status NtStatus_ABANDONED
      | Inr WouldBlock \<Rightarrow>
          if mode = Poll then NtServiceReply_status NtStatus_TIMEOUT else NtServiceReply_status NtStatus_NOT_IMPLEMENTED
      | Inl error \<Rightarrow> NtServiceReply_status (SyncError_status error))"

text \<open>The wait of each kind of object; \<open>None\<close> for objects that cannot be waited on.\<close>

definition try_wait_object ::
    "RuntimeObject \<Rightarrow> NtThreadId \<Rightarrow> u64 \<Rightarrow> ((SyncError + WaitSatisfaction) \<times> RuntimeObject) option" where
  "try_wait_object object thread now =
     (case object of
        Event event \<Rightarrow> (case EventState_try_wait event of (w, event') \<Rightarrow> Some (Inr w, Event event'))
      | Mutant mutant \<Rightarrow> (case MutantState_try_wait mutant thread of (w, mutant') \<Rightarrow> Some (w, Mutant mutant'))
      | Semaphore semaphore \<Rightarrow>
          (case SemaphoreState_try_wait semaphore of (w, semaphore') \<Rightarrow> Some (Inr w, Semaphore semaphore'))
      | Timer timer \<Rightarrow> (case TimerState_try_wait timer now of (w, timer') \<Rightarrow> Some (w, Timer timer'))
      | _ \<Rightarrow> None)"

definition NtRuntime_wait_single ::
    "NtRuntime \<Rightarrow> GuestHandle \<Rightarrow> NtThreadId \<Rightarrow> u64 \<Rightarrow> NtWaitMode \<Rightarrow> (NtServiceReply \<times> NtRuntime) option" where
  "NtRuntime_wait_single self handle thread now mode =
     (case NtRuntime_object_mut self handle InvalidType AccessMask_SYNCHRONIZE of
        Inl status \<Rightarrow>
          if status = NtStatus_OBJECT_TYPE_MISMATCH then None
          else Some (NtServiceReply_status status, self)
      | Inr index \<Rightarrow>
          (case try_wait_object (object_at self index) thread now of
             None \<Rightarrow> Some (NtServiceReply_status NtStatus_OBJECT_TYPE_MISMATCH, self)
           | Some (result, object') \<Rightarrow> Some (wait_reply mode result, write_object self index object')))"

fun NtRuntime_dispatch :: "NtRuntime \<Rightarrow> NtServiceCall \<Rightarrow> (NtServiceReply \<times> NtRuntime) option" where
  "NtRuntime_dispatch self (CallClose handle) =
     (case NtRuntime_close self handle of
        (Inr _, self') \<Rightarrow> Some (NtServiceReply_status NtStatus_SUCCESS, self')
      | (Inl status, self') \<Rightarrow> Some (NtServiceReply_status status, self'))"
| "NtRuntime_dispatch self (CallDuplicateObject source desired_access inheritable) =
     Some (handle_reply (NtRuntime_duplicate self source desired_access inheritable))"
| "NtRuntime_dispatch self (CallCreateEvent kind initial_state access inheritable) =
     Some (NtRuntime_create_event self kind initial_state access inheritable)"
| "NtRuntime_dispatch self (CallSetEvent handle) = Some (NtRuntime_set_event self handle True)"
| "NtRuntime_dispatch self (CallResetEvent handle) = Some (NtRuntime_set_event self handle False)"
| "NtRuntime_dispatch self (CallCreateMutant initial_owner access inheritable) =
     Some (NtRuntime_create_mutant self initial_owner access inheritable)"
| "NtRuntime_dispatch self (CallReleaseMutant handle thread) = Some (NtRuntime_release_mutant self handle thread)"
| "NtRuntime_dispatch self (CallCreateSemaphore initial limit access inheritable) =
     Some (NtRuntime_create_semaphore self initial limit access inheritable)"
| "NtRuntime_dispatch self (CallReleaseSemaphore handle release_count) =
     Some (NtRuntime_release_semaphore self handle release_count)"
| "NtRuntime_dispatch self (CallCreateTimer kind access inheritable) =
     Some (NtRuntime_create_timer self kind access inheritable)"
| "NtRuntime_dispatch self (CallSetTimer handle now_ticks delay_ticks period_ticks) =
     Some (NtRuntime_set_timer self handle now_ticks delay_ticks period_ticks)"
| "NtRuntime_dispatch self (CallCancelTimer handle) = Some (NtRuntime_cancel_timer self handle)"
| "NtRuntime_dispatch self (CallWaitForSingleObject handle thread now_ticks mode) =
     NtRuntime_wait_single self handle thread now_ticks mode"

definition NtRuntime_dispatch_symbol ::
    "NtRuntime \<Rightarrow> u8 list \<Rightarrow> u8 list \<Rightarrow> NtServiceCall \<Rightarrow> (NtServiceReply \<times> NtRuntime) option" where
  "NtRuntime_dispatch_symbol self module' symbol call =
     (let service = resolve_nt_service module' symbol in
      if service = ServiceUnknown then Some (NtServiceReply_status NtStatus_NOT_IMPLEMENTED, self)
      else if service \<noteq> NtServiceCall_service call then Some (NtServiceReply_status NtStatus_INVALID_PARAMETER, self)
      else NtRuntime_dispatch self call)"

definition NtRuntime_abandon_thread :: "NtRuntime \<Rightarrow> NtThreadId \<Rightarrow> nat \<times> NtRuntime" where
  "NtRuntime_abandon_thread self thread =
     (let (changed, objects) = ObjectTable_abandon_mutants (rt_objects self) thread in
      (changed, self\<lparr>rt_objects := objects\<rparr>))"

subsection \<open>The runtime invariant\<close>

definition owners :: "(GuestHandle \<Rightarrow> HandleEntry option) \<Rightarrow> ObjectId \<Rightarrow> GuestHandle set" where
  "owners hm i = {h. \<exists>e. hm h = Some e \<and> ObjectId (entry_object_id e) = i}"

definition maps_inv :: "(GuestHandle \<Rightarrow> HandleEntry option) \<Rightarrow> (ObjectId \<Rightarrow> (RuntimeObject \<times> nat) option) \<Rightarrow> bool" where
  "maps_inv hm om \<longleftrightarrow> finite (dom hm) \<and>
     (\<forall>h e. hm h = Some e \<longrightarrow>
        (\<exists>ob n. om (ObjectId (entry_object_id e)) = Some (ob, n) \<and> RuntimeObject_object_type ob = entry_object_type e)) \<and>
     (\<forall>i ob n. om i = Some (ob, n) \<longrightarrow> n = card (owners hm i) \<and> 0 < n)"

definition runtime_inv :: "NtRuntime \<Rightarrow> bool" where
  "runtime_inv rt \<longleftrightarrow> handle_table_wf (rt_handles rt) \<and> object_table_wf (rt_objects rt) \<and>
     maps_inv (handle_map (rt_handles rt)) (object_map (rt_objects rt))"

lemma owners_finite: "finite (dom hm) \<Longrightarrow> finite (owners hm i)"
  by (rule finite_subset [of _ "dom hm"]) (auto simp: owners_def)

lemma owners_insert:
  "hm h = None \<Longrightarrow> owners (hm(h \<mapsto> e)) i =
     (if ObjectId (entry_object_id e) = i then insert h (owners hm i) else owners hm i)"
  by (auto simp: owners_def split: if_splits)

lemma owners_remove:
  "hm h = Some e \<Longrightarrow> owners (hm(h := None)) i =
     (if ObjectId (entry_object_id e) = i then owners hm i - {h} else owners hm i)"
  by (auto simp: owners_def split: if_splits)

text \<open>The four ways a service changes the two maps keep the counts exact.\<close>

lemma maps_inv_publish:
  assumes inv: "maps_inv hm om" and "hm h = None" "om i = None" "ObjectId (entry_object_id e) = i"
    "RuntimeObject_object_type ob = entry_object_type e"
  shows "maps_inv (hm(h \<mapsto> e)) (om(i \<mapsto> (ob, 1)))"
proof -
  have "owners hm i = {}" using assms by (fastforce simp: maps_inv_def owners_def)
  then show ?thesis using assms by (fastforce simp: maps_inv_def owners_insert [of hm h])
qed

lemma maps_inv_share:
  assumes inv: "maps_inv hm om" and "hm h = None" "om i = Some (ob, n)" "ObjectId (entry_object_id e) = i"
    "RuntimeObject_object_type ob = entry_object_type e"
  shows "maps_inv (hm(h \<mapsto> e)) (om(i \<mapsto> (ob, n + 1)))"
proof -
  have "h \<notin> owners hm i" using assms(2) by (simp add: owners_def)
  moreover have "finite (owners hm i)" "n = card (owners hm i)"
    using inv assms(3) owners_finite by (auto simp: maps_inv_def)
  ultimately have "card (insert h (owners hm i)) = n + 1" by simp
  then show ?thesis using assms by (fastforce simp: maps_inv_def owners_insert [of hm h])
qed

lemma maps_inv_close:
  assumes inv: "maps_inv hm om" and h: "hm h = Some e" and i: "i = ObjectId (entry_object_id e)" "om i = Some (ob, n)"
  shows "maps_inv (hm(h := None)) (if n = 1 then om(i := None) else om(i \<mapsto> (ob, n - 1)))"
proof -
  have c: "finite (owners hm i)" "n = card (owners hm i)" "h \<in> owners hm i"
    using inv i(2) owners_finite by (auto simp: maps_inv_def) (simp add: owners_def h i(1))
  then have "n = 1 \<Longrightarrow> owners hm i = {h}" using card_1_singletonE by (metis singletonD)
  then have other: "ObjectId (entry_object_id e') \<noteq> i" if "n = 1" "hm k = Some e'" "k \<noteq> h" for k e'
    using that by (auto simp: owners_def)
  have "card (owners hm i - {h}) = n - 1" "0 < n" using c by (auto simp: card_gt_0_iff)
  then show ?thesis using assms other by (fastforce simp: maps_inv_def owners_remove [of hm h])
qed

lemma maps_inv_write:
  assumes inv: "maps_inv hm om" and "om i = Some (ob, n)" "RuntimeObject_object_type ob' = RuntimeObject_object_type ob"
  shows "maps_inv hm (om(i \<mapsto> (ob', n)))"
  using assms by (fastforce simp: maps_inv_def)

lemma handle_map_finite: "finite (dom (handle_map t))" "card (dom (handle_map t)) \<le> length (handle_slots t)"
proof -
  have "dom (handle_map t) \<subseteq> (\<lambda>i. encode i (slot_generation (handle_slots t ! i))) ` {..<length (handle_slots t)}"
  proof
    fix h assume "h \<in> dom (handle_map t)"
    then obtain e where "handle_map t h = Some e" by blast
    then obtain i where "i < length (handle_slots t)" "decode h = Some (i, slot_generation (handle_slots t ! i))"
      by (rule handle_map_SomeD)
    then show "h \<in> (\<lambda>i. encode i (slot_generation (handle_slots t ! i))) ` {..<length (handle_slots t)}"
      using encode_decode by blast
  qed
  then show "finite (dom (handle_map t))" "card (dom (handle_map t)) \<le> length (handle_slots t)"
    using finite_subset [of "dom (handle_map t)"] surj_card_le [of "{..<length (handle_slots t)}" "dom (handle_map t)"]
    by simp_all
qed

lemma runtime_new_inv: "NtRuntime_try_new h n = Inr rt \<Longrightarrow> runtime_inv rt"
  using try_new_wf object_try_new_wf
  by (fastforce simp: NtRuntime_try_new_def runtime_inv_def maps_inv_def split: sum.split_asm)

text \<open>On a consistent runtime the lookups answer what the maps say.\<close>

lemma runtime_entry:
  assumes "runtime_inv rt" "handle_map (rt_handles rt) h = Some e"
  obtains ob n where "object_map (rt_objects rt) (ObjectId (entry_object_id e)) = Some (ob, n)"
    "RuntimeObject_object_type ob = entry_object_type e" "n = card (owners (handle_map (rt_handles rt)) (ObjectId (entry_object_id e)))"
    "0 < n" "n \<le> 4095"
proof -
  have inv: "maps_inv (handle_map (rt_handles rt)) (object_map (rt_objects rt))" using assms(1) by (simp add: runtime_inv_def)
  then obtain ob n where o12: "object_map (rt_objects rt) (ObjectId (entry_object_id e)) = Some (ob, n)"
      "RuntimeObject_object_type ob = entry_object_type e"
    using assms(2) unfolding maps_inv_def by blast
  then have o: "n = card (owners (handle_map (rt_handles rt)) (ObjectId (entry_object_id e)))" "0 < n"
    using inv unfolding maps_inv_def by blast+
  have "n \<le> card (dom (handle_map (rt_handles rt)))"
    unfolding o(1) by (rule card_mono [OF handle_map_finite(1)]) (auto simp: owners_def)
  also have "\<dots> \<le> 4095"
    using handle_map_finite(2) [of "rt_handles rt"] assms(1) by (simp add: runtime_inv_def handle_table_wf_def MAX_HANDLE_ENTRIES_eq)
  finally show thesis using that o12 o by blast
qed

abbreviation "hm rt \<equiv> handle_map (rt_handles rt)"

abbreviation "om rt \<equiv> object_map (rt_objects rt)"

lemma handle_insert_Inl: "HandleTable_insert t e = (Inl err, t') \<Longrightarrow> t' = t"
  by (auto simp: HandleTable_insert_def Let_def split: if_splits option.splits)

lemma insert_object_handle_spec:
  assumes inv: "runtime_inv rt" and ins: "NtRuntime_insert_object_handle rt ob acc inh = (r, rt')"
  shows "runtime_inv rt' \<and> handle_step\<^sup>*\<^sup>* (rt_handles rt) (rt_handles rt') \<and>
    (case r of
       Inl st \<Rightarrow> hm rt' = hm rt \<and> om rt' = om rt
     | Inr h \<Rightarrow> hm rt h = None \<and> (\<exists>i. om rt i = None \<and> om rt' = (om rt)(i \<mapsto> (ob, 1)) \<and>
         hm rt' = (hm rt)(h \<mapsto> \<lparr>entry_object_id = ObjectId_raw i, entry_object_type = RuntimeObject_object_type ob,
                               entry_access = acc, entry_inheritable = inh\<rparr>)))"
proof -
  have wf: "handle_table_wf (rt_handles rt)" "object_table_wf (rt_objects rt)" "maps_inv (hm rt) (om rt)"
    using inv by (simp_all add: runtime_inv_def)
  obtain ro os where o: "ObjectTable_insert (rt_objects rt) ob = (ro, os)" by (cases "ObjectTable_insert (rt_objects rt) ob")
  note os = object_insert_spec [OF wf(2) o]
  show ?thesis
  proof (cases ro)
    case (Inl err)
    then have "os = rt_objects rt" using os by simp
    then show ?thesis using ins o Inl inv by (auto simp: NtRuntime_insert_object_handle_def)
  next
    case (Inr i)
    define e where "e = \<lparr>entry_object_id = ObjectId_raw i, entry_object_type = RuntimeObject_object_type ob, entry_access = acc,
      entry_inheritable = inh\<rparr>"
    have i: "object_table_wf os" "om rt i = None" "object_map os = (om rt)(i \<mapsto> (ob, 1))" using os Inr by simp_all
    obtain rh hs where h: "HandleTable_insert (rt_handles rt) e = (rh, hs)" by (cases "HandleTable_insert (rt_handles rt) e")
    show ?thesis
    proof (cases rh)
      case rh: (Inl err)
      have hs: "hs = rt_handles rt" by (rule handle_insert_Inl [OF h [unfolded rh]])
      have r: "r = Inl (HandleError_status err)" "rt' = rt\<lparr>rt_objects := snd (ObjectTable_release os i), rt_handles := hs\<rparr>"
        using ins o Inr h rh by (auto simp: NtRuntime_insert_object_handle_def e_def)
      have "object_map os i = Some (ob, 1)" using i(3) by simp
      from release_spec [OF i(1) this prod.collapse [symmetric]]
      have "object_table_wf (snd (ObjectTable_release os i))" "object_map (snd (ObjectTable_release os i)) = om rt"
        using i(2,3) by (auto simp: fun_eq_iff)
      then show ?thesis using r hs wf by (simp add: runtime_inv_def)
    next
      case rh: (Inr k)
      have r: "r = Inr k" "rt' = rt\<lparr>rt_objects := os, rt_handles := hs\<rparr>"
        using ins o Inr h rh by (auto simp: NtRuntime_insert_object_handle_def e_def)
      note hs = insert_map [OF wf(1) h [unfolded rh]] insert_wf [OF wf(1) h] step_insert [OF h]
      have "maps_inv ((hm rt)(k \<mapsto> e)) ((om rt)(i \<mapsto> (ob, 1)))"
        by (rule maps_inv_publish [OF wf(3) hs(1) i(2)]) (simp_all add: e_def)
      then show ?thesis using r hs i by (auto simp: runtime_inv_def e_def)
    qed
  qed
qed

text \<open>Closing removes the handle and its reference; the object dies with its last handle.\<close>

lemma runtime_close_spec:
  assumes inv: "runtime_inv rt" and cl: "NtRuntime_close rt h = (r, rt')"
  shows "runtime_inv rt' \<and> handle_step\<^sup>*\<^sup>* (rt_handles rt) (rt_handles rt') \<and>
    (case hm rt h of
       None \<Rightarrow> r = Inl NtStatus_INVALID_HANDLE \<and> rt' = rt
     | Some e \<Rightarrow> is_ok r \<and> hm rt' = (hm rt)(h := None))"
proof (cases "hm rt h")
  case None
  then show ?thesis using inv cl by (simp add: NtRuntime_close_def reference_eq)
next
  case (Some e)
  define i where "i = ObjectId (entry_object_id e)"
  have wf: "handle_table_wf (rt_handles rt)" "object_table_wf (rt_objects rt)" "maps_inv (hm rt) (om rt)"
    using inv by (simp_all add: runtime_inv_def)
  obtain ob n where o: "om rt i = Some (ob, n)" "RuntimeObject_object_type ob = entry_object_type e"
    using runtime_entry [OF inv Some] unfolding i_def by blast
  obtain rh hs where h: "HandleTable_close (rt_handles rt) h = (rh, hs)" by (cases "HandleTable_close (rt_handles rt) h")
  note hs = close_spec [OF wf(1) Some h]
  obtain ro os where rel: "ObjectTable_release (rt_objects rt) i = (ro, os)" by (cases "ObjectTable_release (rt_objects rt) i")
  note os = release_spec [OF wf(2) o(1) rel]
  have r: "r = map_err ObjectError_status ro" "rt' = rt\<lparr>rt_handles := hs, rt_objects := os\<rparr>"
    using cl Some o h hs(1) rel
    by (auto simp: NtRuntime_close_def reference_eq object_reference_eq validate_type_def ObjectId_from_raw_def i_def)
  have "maps_inv ((hm rt)(h := None)) (if n = 1 then (om rt)(i := None) else (om rt)(i \<mapsto> (ob, n - 1)))"
    by (rule maps_inv_close [OF wf(3) Some i_def o(1)])
  moreover have "is_ok r" using r(1) os by (auto split: if_splits)
  ultimately show ?thesis using r(2) hs os Some step_close [OF h] by (auto simp: runtime_inv_def split: if_splits)
qed

lemma runtime_duplicate_spec:
  assumes inv: "runtime_inv rt" and dup: "NtRuntime_duplicate rt h acc inh = (r, rt')"
  shows "runtime_inv rt' \<and> handle_step\<^sup>*\<^sup>* (rt_handles rt) (rt_handles rt') \<and> (hm rt h = None \<longrightarrow> r = Inl NtStatus_INVALID_HANDLE \<and> rt' = rt)"
proof (cases "\<exists>e. hm rt h = Some e \<and> \<not> (\<exists>a. acc = Some a \<and> \<not> AccessMask_contains (entry_access e) a)")
  case False
  then have "rt' = rt \<and> (hm rt h = None \<longrightarrow> r = Inl NtStatus_INVALID_HANDLE)"
    using dup by (auto simp: NtRuntime_duplicate_def reference_eq split: option.splits)
  then show ?thesis using inv by simp
next
  case True
  then obtain e where e: "hm rt h = Some e" "\<not> (\<exists>a. acc = Some a \<and> \<not> AccessMask_contains (entry_access e) a)" by blast
  define i where "i = ObjectId (entry_object_id e)"
  have wf: "handle_table_wf (rt_handles rt)" "object_table_wf (rt_objects rt)" "maps_inv (hm rt) (om rt)"
    using inv by (simp_all add: runtime_inv_def)
  obtain ob n where o: "om rt i = Some (ob, n)" "RuntimeObject_object_type ob = entry_object_type e" "0 < n" "n \<le> 4095"
    using runtime_entry [OF inv e(1)] unfolding i_def by blast
  obtain ro os where ret: "ObjectTable_retain (rt_objects rt) i = (ro, os)" by (cases "ObjectTable_retain (rt_objects rt) i")
  have os: "is_ok ro" "object_table_wf os" "object_map os = (om rt)(i \<mapsto> (ob, n + 1))"
    using retain_spec [OF wf(2) o(1) ret] o(4) by simp_all
  obtain rh hs where d: "HandleTable_duplicate (rt_handles rt) h acc inh = (rh, hs)"
    by (cases "HandleTable_duplicate (rt_handles rt) h acc inh")
  have ins: "HandleTable_insert (rt_handles rt) (derived_entry e acc inh) = (rh, hs)"
    using d e by (simp add: duplicate_eq)
  have r: "(r, rt') = (case rh of Inr k \<Rightarrow> (Inr k, rt\<lparr>rt_objects := os, rt_handles := hs\<rparr>)
      | Inl err \<Rightarrow> (Inl (HandleError_status err), rt\<lparr>rt_objects := snd (ObjectTable_release os i), rt_handles := hs\<rparr>))"
    using dup e o(1,2) os(1) ret d
    by (auto simp: NtRuntime_duplicate_def reference_eq object_reference_eq validate_type_def ObjectId_from_raw_def i_def is_ok_iff
        split: option.splits sum.splits)
  show ?thesis
  proof (cases rh)
    case (Inl err)
    have "hs = rt_handles rt" by (rule handle_insert_Inl [OF ins [unfolded Inl]])
    moreover have "object_map os i = Some (ob, n + 1)" using os(3) by simp
    from release_spec [OF os(2) this prod.collapse [symmetric]]
    have "object_table_wf (snd (ObjectTable_release os i))" "object_map (snd (ObjectTable_release os i)) = om rt"
      using os(3) o(1,3) by (auto simp: fun_eq_iff)
    ultimately show ?thesis using r Inl wf e(1) by (simp add: runtime_inv_def)
  next
    case (Inr k)
    note hs = insert_map [OF wf(1) ins [unfolded Inr]] insert_wf [OF wf(1) ins] step_insert [OF ins]
    have "maps_inv ((hm rt)(k \<mapsto> derived_entry e acc inh)) ((om rt)(i \<mapsto> (ob, n + 1)))"
      by (rule maps_inv_share [OF wf(3) hs(1) o(1)]) (simp_all add: derived_entry_def i_def o(2))
    then show ?thesis using r Inr hs os e(1) by (auto simp: runtime_inv_def)
  qed
qed

lemma object_mut_eq:
  assumes "runtime_inv rt"
  shows "NtRuntime_object_mut rt h ty acc =
    (case hm rt h of
       None \<Rightarrow> Inl NtStatus_INVALID_HANDLE
     | Some e \<Rightarrow>
         if ty \<noteq> InvalidType \<and> entry_object_type e \<noteq> ty then Inl NtStatus_OBJECT_TYPE_MISMATCH
         else if AccessMask_contains (entry_access e) acc then Inr (slot_of (ObjectId (entry_object_id e)))
         else Inl NtStatus_ACCESS_DENIED)"
proof (cases "hm rt h")
  case None
  then show ?thesis by (simp add: NtRuntime_object_mut_def reference_eq)
next
  case (Some e)
  obtain ob n where "om rt (ObjectId (entry_object_id e)) = Some (ob, n)" "RuntimeObject_object_type ob = entry_object_type e"
    using runtime_entry [OF assms Some] by blast
  then show ?thesis
    using Some by (simp add: NtRuntime_object_mut_def reference_eq object_reference_mut_eq ObjectId_from_raw_def validate_type_def)
qed

lemma object_mut_Inr:
  assumes "runtime_inv rt" "NtRuntime_object_mut rt h ty acc = Inr k"
  obtains e i n where "hm rt h = Some e" "i = ObjectId (entry_object_id e)" "k = slot_of i" "om rt i = Some (object_at rt k, n)"
    "RuntimeObject_object_type (object_at rt k) = entry_object_type e" "ty \<noteq> InvalidType \<longrightarrow> entry_object_type e = ty"
proof -
  obtain e where e: "hm rt h = Some e" "k = slot_of (ObjectId (entry_object_id e))" "ty \<noteq> InvalidType \<longrightarrow> entry_object_type e = ty"
    using assms by (auto simp: object_mut_eq split: option.splits if_splits)
  obtain ob n where o: "om rt (ObjectId (entry_object_id e)) = Some (ob, n)" "RuntimeObject_object_type ob = entry_object_type e"
    using runtime_entry [OF assms(1) e(1)] by blast
  then have "object_at rt k = ob" using slot_of_object [OF o(1)] e(2) by (simp add: object_at_def)
  then show thesis using that e o by blast
qed

lemma object_mut_write:
  assumes inv: "runtime_inv rt" and k: "NtRuntime_object_mut rt h ty acc = Inr k"
    and ty: "RuntimeObject_object_type ob' = RuntimeObject_object_type (object_at rt k)"
  shows "runtime_inv (write_object rt k ob') \<and> rt_handles (write_object rt k ob') = rt_handles rt"
proof -
  obtain e i n where e: "k = slot_of i" "om rt i = Some (object_at rt k, n)" using object_mut_Inr [OF inv k] by metis
  have "object_table_wf (rt_objects rt)" using inv by (simp add: runtime_inv_def)
  note so = set_object_spec [OF this e(2) ty]
  have "maps_inv (hm rt) ((om rt)(i \<mapsto> (ob', n)))"
    using inv maps_inv_write [of "hm rt" "om rt" i "object_at rt k" n ob'] e(2) ty by (simp add: runtime_inv_def)
  then show ?thesis using so inv e(1) by (simp add: runtime_inv_def write_object_def)
qed

subsection \<open>Every service keeps the invariant\<close>

definition service_ok :: "NtRuntime \<Rightarrow> NtRuntime \<Rightarrow> bool" where
  "service_ok rt rt' \<longleftrightarrow> runtime_inv rt' \<and> handle_step\<^sup>*\<^sup>* (rt_handles rt) (rt_handles rt')"

lemma service_ok_refl: "runtime_inv rt \<Longrightarrow> service_ok rt rt"
  by (simp add: service_ok_def)

lemma service_ok_write:
  assumes "runtime_inv rt" "NtRuntime_object_mut rt h ty acc = Inr k"
    "RuntimeObject_object_type ob' = RuntimeObject_object_type (object_at rt k)"
  shows "service_ok rt (write_object rt k ob')"
  using object_mut_write [OF assms] by (simp add: service_ok_def)

lemma handle_reply_ok:
  assumes "runtime_inv rt"
  shows "service_ok rt (snd (handle_reply (NtRuntime_insert_object_handle rt ob acc inh)))"
    "service_ok rt (snd (handle_reply (NtRuntime_duplicate rt h acc' inh')))"
proof -
  obtain r rt' where a: "NtRuntime_insert_object_handle rt ob acc inh = (r, rt')"
    by (cases "NtRuntime_insert_object_handle rt ob acc inh")
  then show "service_ok rt (snd (handle_reply (NtRuntime_insert_object_handle rt ob acc inh)))"
    using insert_object_handle_spec [OF assms a] by (simp add: service_ok_def handle_reply_def split: sum.splits)
  obtain r rt' where b: "NtRuntime_duplicate rt h acc' inh' = (r, rt')" by (cases "NtRuntime_duplicate rt h acc' inh'")
  then show "service_ok rt (snd (handle_reply (NtRuntime_duplicate rt h acc' inh')))"
    using runtime_duplicate_spec [OF assms b] by (simp add: service_ok_def handle_reply_def split: sum.splits)
qed

lemma create_ok:
  assumes inv: "runtime_inv rt"
  shows "service_ok rt (snd (NtRuntime_create_event rt kind initial acc inh))"
    "service_ok rt (snd (NtRuntime_create_mutant rt owner' acc inh))"
    "service_ok rt (snd (NtRuntime_create_semaphore rt c limit acc inh))"
    "service_ok rt (snd (NtRuntime_create_timer rt tkind acc inh))"
  using handle_reply_ok(1) [OF inv] service_ok_refl [OF inv]
  by (simp_all add: NtRuntime_create_event_def NtRuntime_create_mutant_def NtRuntime_create_semaphore_def
      NtRuntime_create_timer_def split: sum.split)

lemma event_timer_ok:
  assumes inv: "runtime_inv rt"
  shows "service_ok rt (snd (NtRuntime_set_event rt h b))" "service_ok rt (snd (NtRuntime_cancel_timer rt h))"
    "service_ok rt (snd (NtRuntime_set_timer rt h now delay period))"
  using service_ok_refl [OF inv]
  by (auto simp: NtRuntime_set_event_def NtRuntime_cancel_timer_def NtRuntime_set_timer_def
      split: sum.split RuntimeObject.split prod.split intro!: service_ok_write [OF inv])

lemma release_ok:
  assumes inv: "runtime_inv rt"
  shows "service_ok rt (snd (NtRuntime_release_mutant rt h t))" "service_ok rt (snd (NtRuntime_release_semaphore rt h c))"
  using service_ok_refl [OF inv]
  by (auto simp: NtRuntime_release_mutant_def NtRuntime_release_semaphore_def
      split: sum.split RuntimeObject.split prod.split intro!: service_ok_write [OF inv])

lemma try_wait_object_type:
  "try_wait_object ob t now = Some (w, ob') \<Longrightarrow> RuntimeObject_object_type ob' = RuntimeObject_object_type ob"
  by (auto simp: try_wait_object_def split: RuntimeObject.split_asm prod.split_asm)

lemma wait_ok:
  assumes inv: "runtime_inv rt"
  obtains reply rt' where "NtRuntime_wait_single rt h t now mode = Some (reply, rt')" "service_ok rt rt'"
proof (cases "NtRuntime_object_mut rt h InvalidType AccessMask_SYNCHRONIZE")
  case (Inl st)
  then have "st \<noteq> NtStatus_OBJECT_TYPE_MISMATCH"
    by (auto simp: object_mut_eq [OF inv] NtStatus_defs split: option.splits if_splits)
  then show thesis using that Inl service_ok_refl [OF inv] by (simp add: NtRuntime_wait_single_def)
next
  case (Inr k)
  then show thesis
    using that service_ok_refl [OF inv] service_ok_write [OF inv Inr] try_wait_object_type
    by (cases "try_wait_object (object_at rt k) t now") (force simp: NtRuntime_wait_single_def)+
qed

lemma ex_pair_snd: "(\<exists>a b. p = (a, b) \<and> P b) \<longleftrightarrow> P (snd p)"
  by (cases p) auto

lemma dispatch_ok:
  assumes inv: "runtime_inv rt"
  obtains reply rt' where "NtRuntime_dispatch rt call = Some (reply, rt')" "service_ok rt rt'"
proof -
  have "\<exists>reply rt'. NtRuntime_dispatch rt call = Some (reply, rt') \<and> service_ok rt rt'"
  proof (cases call)
    case (CallClose h)
    obtain r rt' where cl: "NtRuntime_close rt h = (r, rt')" by (cases "NtRuntime_close rt h")
    then show ?thesis using runtime_close_spec [OF inv cl] CallClose by (cases r) (auto simp: service_ok_def)
  next
    case (CallWaitForSingleObject h t now mode)
    moreover obtain reply rt' where "NtRuntime_wait_single rt h t now mode = Some (reply, rt')" "service_ok rt rt'"
      by (rule wait_ok [OF inv])
    ultimately show ?thesis by simp
  qed (use handle_reply_ok [OF inv] create_ok [OF inv] event_timer_ok [OF inv] release_ok [OF inv] in
        \<open>simp_all add: ex_pair_snd\<close>)
  then show thesis using that by blast
qed

lemma dispatch_symbol_ok:
  assumes inv: "runtime_inv rt"
  obtains reply rt' where "NtRuntime_dispatch_symbol rt m s call = Some (reply, rt')" "service_ok rt rt'"
proof -
  obtain reply rt' where "NtRuntime_dispatch rt call = Some (reply, rt')" "service_ok rt rt'" by (rule dispatch_ok [OF inv])
  then have "\<exists>reply rt'. NtRuntime_dispatch_symbol rt m s call = Some (reply, rt') \<and> service_ok rt rt'"
    using service_ok_refl [OF inv] by (simp add: NtRuntime_dispatch_symbol_def Let_def)
  then show thesis using that by blast
qed

lemma console_ok:
  assumes inv: "runtime_inv rt" and c: "NtRuntime_insert_console rt d rd wr inh = (r, rt')"
  shows "service_ok rt rt'"
proof (cases "ConsoleObject_try_new d rd wr")
  case (Inl err)
  then show ?thesis using c service_ok_refl [OF inv] by (simp add: NtRuntime_insert_console_def)
next
  case (Inr console)
  then obtain acc where "NtRuntime_insert_object_handle rt (Console console) acc inh = (r, rt')"
    using c by (auto simp: NtRuntime_insert_console_def Let_def)
  from insert_object_handle_spec [OF inv this] show ?thesis by (simp add: service_ok_def)
qed

lemma abandon_ok:
  assumes inv: "runtime_inv rt" and a: "NtRuntime_abandon_thread rt t = (c, rt')"
  shows "service_ok rt rt'"
proof -
  have wf: "object_table_wf (rt_objects rt)" "maps_inv (hm rt) (om rt)" using inv by (simp_all add: runtime_inv_def)
  obtain os where o: "ObjectTable_abandon_mutants (rt_objects rt) t = (c, os)" "rt' = rt\<lparr>rt_objects := os\<rparr>"
    using a by (cases "ObjectTable_abandon_mutants (rt_objects rt) t") (auto simp: NtRuntime_abandon_thread_def)
  note os = abandon_spec [OF wf(1) o(1)]
  have "maps_inv (hm rt) (\<lambda>i. map_option (apfst (abandon_object t)) (om rt i))"
    using wf(2) by (fastforce simp: maps_inv_def)
  then show ?thesis using os o(2) inv by (simp add: service_ok_def runtime_inv_def)
qed

subsection \<open>Histories of a runtime\<close>

inductive runtime_step :: "NtRuntime \<Rightarrow> NtRuntime \<Rightarrow> bool" where
  step_dispatch: "NtRuntime_dispatch rt call = Some (reply, rt') \<Longrightarrow> runtime_step rt rt'"
| step_symbol: "NtRuntime_dispatch_symbol rt m s call = Some (reply, rt') \<Longrightarrow> runtime_step rt rt'"
| step_console: "NtRuntime_insert_console rt d rd wr inh = (r, rt') \<Longrightarrow> runtime_step rt rt'"
| step_abandon: "NtRuntime_abandon_thread rt t = (c, rt') \<Longrightarrow> runtime_step rt rt'"

definition runtime_reached :: "nat \<Rightarrow> nat \<Rightarrow> NtRuntime \<Rightarrow> bool" where
  "runtime_reached h n rt \<longleftrightarrow> (\<exists>rt0. NtRuntime_try_new h n = Inr rt0 \<and> runtime_step\<^sup>*\<^sup>* rt0 rt)"

lemma runtime_step_ok: "runtime_step rt rt' \<Longrightarrow> runtime_inv rt \<Longrightarrow> service_ok rt rt'"
proof (induction rule: runtime_step.induct)
  case (step_dispatch rt call reply rt')
  then show ?case using dispatch_ok [of rt call] by (metis option.inject prod.inject)
next
  case (step_symbol rt m s call reply rt')
  then show ?case using dispatch_symbol_ok [of rt m s call] by (metis option.inject prod.inject)
qed (use console_ok abandon_ok in blast)+

lemma runtime_steps_ok: "runtime_step\<^sup>*\<^sup>* rt rt' \<Longrightarrow> runtime_inv rt \<Longrightarrow> service_ok rt rt'"
proof (induction rule: rtranclp_induct)
  case base
  then show ?case by (rule service_ok_refl)
next
  case (step y z)
  then show ?case using runtime_step_ok [OF step(2)] by (auto simp: service_ok_def intro: rtranclp_trans)
qed

lemma runtime_reached_inv: "runtime_reached h n rt \<Longrightarrow> runtime_inv rt"
  using runtime_steps_ok runtime_new_inv by (auto simp: runtime_reached_def service_ok_def)

lemma runtime_reached_step: "runtime_reached h n rt \<Longrightarrow> runtime_step rt rt' \<Longrightarrow> runtime_reached h n rt'"
  by (auto simp: runtime_reached_def intro: rtranclp.rtrancl_into_rtrancl)

text \<open>The handle a call names.\<close>

fun call_handle :: "NtServiceCall \<Rightarrow> GuestHandle option" where
  "call_handle (CallClose h) = Some h"
| "call_handle (CallDuplicateObject h _ _) = Some h"
| "call_handle (CallSetEvent h) = Some h"
| "call_handle (CallResetEvent h) = Some h"
| "call_handle (CallReleaseMutant h _) = Some h"
| "call_handle (CallReleaseSemaphore h _) = Some h"
| "call_handle (CallSetTimer h _ _ _) = Some h"
| "call_handle (CallCancelTimer h) = Some h"
| "call_handle (CallWaitForSingleObject h _ _ _) = Some h"
| "call_handle _ = None"

lemma dispatch_dead:
  assumes inv: "runtime_inv rt" and "hm rt h = None" "call_handle call = Some h"
  shows "NtRuntime_dispatch rt call = Some (NtServiceReply_status NtStatus_INVALID_HANDLE, rt)"
  using assms(2,3)
  by (cases call) (auto simp: NtRuntime_close_def NtRuntime_duplicate_def reference_eq handle_reply_def NtRuntime_set_event_def
      NtRuntime_release_mutant_def NtRuntime_release_semaphore_def NtRuntime_set_timer_def NtRuntime_cancel_timer_def
      NtRuntime_wait_single_def object_mut_eq [OF inv] NtStatus_defs)

subsection \<open>Waiting\<close>

definition object_ready :: "RuntimeObject \<Rightarrow> NtThreadId \<Rightarrow> u64 \<Rightarrow> bool" where
  "object_ready ob t now \<longleftrightarrow>
     (case ob of
        Event s \<Rightarrow> event_signaled s
      | Mutant s \<Rightarrow> mutant_owner s \<in> {None, Some t}
      | Semaphore s \<Rightarrow> semaphore_count s \<noteq> 0
      | Timer s \<Rightarrow> timer_ready now s
      | _ \<Rightarrow> False)"

lemma try_wait_object_spec:
  assumes "try_wait_object ob t now = Some (w, ob')"
  shows "(w = Inr WouldBlock \<longleftrightarrow> \<not> object_ready ob t now) \<and> (w \<notin> {Inr Satisfied, Inr Abandoned} \<longrightarrow> ob' = ob)"
proof (cases ob)
  case (Event s)
  then show ?thesis
    using assms event.would_block_iff [of s] event.poll_keeps [of s]
    by (cases "EventState_try_wait s") (auto simp: try_wait_object_def object_ready_def)
next
  case (Mutant s)
  then show ?thesis
    using assms mutant.would_block_iff [of s t] mutant.poll_keeps [of s t]
    by (cases "MutantState_try_wait s t") (auto simp: try_wait_object_def object_ready_def)
next
  case (Semaphore s)
  then show ?thesis
    using assms semaphore.would_block_iff [of s] semaphore.poll_keeps [of s]
    by (cases "SemaphoreState_try_wait s") (auto simp: try_wait_object_def object_ready_def)
next
  case (Timer s)
  then show ?thesis
    using assms timer.would_block_iff [of s now] timer.poll_keeps [of s now]
    by (cases "TimerState_try_wait s now") (auto simp: try_wait_object_def object_ready_def)
qed (use assms in \<open>simp_all add: try_wait_object_def\<close>)

lemma write_same: "write_object rt k (object_at rt k) = rt"
  by (simp add: write_object_def set_object_def object_at_def)

subsection \<open>Properties\<close>

text \<open>A runtime with one handle slot and one object slot, before and after creating an event.\<close>

abbreviation sample_runtime :: NtRuntime where
  "sample_runtime \<equiv> \<lparr>rt_handles = \<lparr>handle_slots = [Slot_EMPTY], handle_len = 0\<rparr>,
     rt_objects = \<lparr>object_slots = [ObjectSlot_EMPTY], object_len = 0\<rparr>\<rparr>"

abbreviation event_entry :: HandleEntry where
  "event_entry \<equiv> \<lparr>entry_object_id = 0x10001, entry_object_type = EventType, entry_access = AccessMask 0x100002,
     entry_inheritable = False\<rparr>"

abbreviation event_runtime :: NtRuntime where
  "event_runtime \<equiv> \<lparr>rt_handles = \<lparr>handle_slots = [Slot_EMPTY\<lparr>slot_occupied := True, slot_entry := event_entry\<rparr>], handle_len = 1\<rparr>,
     rt_objects = \<lparr>object_slots = [ObjectSlot_EMPTY\<lparr>obj_occupied := True, obj_references := 1,
       obj_object := Event \<lparr>event_kind = Notification, event_signaled = False\<rparr>\<rparr>], object_len = 1\<rparr>\<rparr>"

lemma sample_try_new: "NtRuntime_try_new 1 1 = Inr sample_runtime"
  by (simp add: NtRuntime_try_new_def HandleTable_try_new_def ObjectTable_try_new_def MAX_HANDLE_ENTRIES_eq MAX_OBJECT_ENTRIES_eq)

lemma sample_create:
  "NtRuntime_dispatch sample_runtime (CallCreateEvent Notification False (AccessMask 0x100002) False) =
     Some (NtServiceReply_handle (GuestHandle 0x1001), event_runtime)"
  by (simp add: NtRuntime_create_event_def validate_access_def EVENT_ALLOWED_ACCESS_def AccessMask_union_def
      AccessMask_EVENT_QUERY_STATE_def AccessMask_EVENT_MODIFY_STATE_def AccessMask_SYNCHRONIZE_def EventState_new_def
      NtRuntime_insert_object_handle_def ObjectTable_insert_def HandleTable_insert_def position_def Slot_EMPTY_def
      ObjectSlot_EMPTY_def encode_object_def OBJECT_INDEX_BITS_def encode_def INDEX_BITS_def handle_reply_def)

lemma sample_runtime_reached: "runtime_reached 1 1 event_runtime"
  using sample_try_new step_dispatch [OF sample_create] unfolding runtime_reached_def by blast

lemma sample_hm: "hm event_runtime (GuestHandle 0x1001) = Some event_entry"
  by (simp add: handle_map_def decode_def INDEX_MASK_def INDEX_BITS_def slot_live_def Slot_EMPTY_def)

lemma sample_om: "om event_runtime (ObjectId 0x10001) = Some (Event \<lparr>event_kind = Notification, event_signaled = False\<rparr>, 1)"
  by (simp add: object_map_def decode_object_def OBJECT_INDEX_MASK_def OBJECT_INDEX_BITS_def obj_live_def ObjectSlot_EMPTY_def
      MAX_ISSUED_OBJECT_GENERATION_eq)

text \<open>C36. Reference counts are exact and nothing leaks: in every runtime reached by any history of
  service calls, console insertions and thread terminations, the count reported for a handle is the
  number of live handles that name the same object, and an object is alive exactly when some live
  handle names it.\<close>

theorem runtime_reference_counts_exact:
  assumes "runtime_reached h n rt"
  shows "(\<forall>k e. hm rt k = Some e \<longrightarrow>
      NtRuntime_object_reference_count rt k =
        Inr (of_nat (card {k'. \<exists>e'. hm rt k' = Some e' \<and> entry_object_id e' = entry_object_id e}))) \<and>
    (\<forall>i. om rt (ObjectId i) \<noteq> None \<longleftrightarrow> (\<exists>k e. hm rt k = Some e \<and> entry_object_id e = i))"
proof (intro conjI allI impI)
  have inv: "runtime_inv rt" by (rule runtime_reached_inv [OF assms])
  fix k e assume k: "hm rt k = Some e"
  obtain ob n where "om rt (ObjectId (entry_object_id e)) = Some (ob, n)" "n = card (owners (hm rt) (ObjectId (entry_object_id e)))"
    using runtime_entry [OF inv k] by blast
  then show "NtRuntime_object_reference_count rt k =
      Inr (of_nat (card {k'. \<exists>e'. hm rt k' = Some e' \<and> entry_object_id e' = entry_object_id e}))"
    using k by (simp add: NtRuntime_object_reference_count_def reference_eq reference_count_eq ObjectId_from_raw_def owners_def)
next
  have inv: "maps_inv (hm rt) (om rt)" using runtime_reached_inv [OF assms] by (simp add: runtime_inv_def)
  fix i
  have "owners (hm rt) (ObjectId i) \<noteq> {}" if "om rt (ObjectId i) = Some (ob, n)" for ob n
    using that inv unfolding maps_inv_def by fastforce
  then show "om rt (ObjectId i) \<noteq> None \<longleftrightarrow> (\<exists>k e. hm rt k = Some e \<and> entry_object_id e = i)"
    using inv unfolding maps_inv_def owners_def by fastforce
qed

theorem runtime_reference_counts_exact_witness:
  "NtRuntime_object_reference_count event_runtime (GuestHandle 0x1001) =
     Inr (of_nat (card {k'. \<exists>e'. hm event_runtime k' = Some e' \<and> entry_object_id e' = 0x10001}))"
  using runtime_reference_counts_exact [OF sample_runtime_reached] sample_hm by simp

text \<open>C37. Dispatch is total: on every reachable runtime no service call reaches the unreachable
  branch of the wait service, an unknown symbol and a call that does not match its symbol are refused
  without effect, and the runtime the call leaves behind is reachable again.\<close>

theorem dispatch_never_panics:
  assumes "runtime_reached h n rt"
  shows "\<exists>reply rt'. NtRuntime_dispatch_symbol rt m s call = Some (reply, rt') \<and> runtime_reached h n rt' \<and>
    (resolve_nt_service m s = ServiceUnknown \<longrightarrow> reply = NtServiceReply_status NtStatus_NOT_IMPLEMENTED \<and> rt' = rt) \<and>
    (resolve_nt_service m s \<notin> {ServiceUnknown, NtServiceCall_service call} \<longrightarrow>
      reply = NtServiceReply_status NtStatus_INVALID_PARAMETER \<and> rt' = rt)"
proof -
  obtain reply rt' where r: "NtRuntime_dispatch_symbol rt m s call = Some (reply, rt')"
    by (rule dispatch_symbol_ok [OF runtime_reached_inv [OF assms]])
  moreover have "runtime_reached h n rt'" by (rule runtime_reached_step [OF assms step_symbol [OF r]])
  ultimately show ?thesis by (auto simp: NtRuntime_dispatch_symbol_def Let_def split: if_splits)
qed

theorem dispatch_never_panics_witness:
  "\<exists>reply rt'. NtRuntime_dispatch_symbol event_runtime (ascii ''ntdll.dll'') (ascii ''NtWaitForSingleObject'')
     (CallWaitForSingleObject (GuestHandle 0x1001) (NtThreadId 4) 0 Poll) = Some (reply, rt') \<and> runtime_reached 1 1 rt'"
  using dispatch_never_panics [OF sample_runtime_reached] by blast

text \<open>C38. A closed handle stays closed: after \<open>NtClose\<close> succeeded on a handle, every later call that
  names it, after any further history of the runtime, answers STATUS_INVALID_HANDLE and changes
  nothing.\<close>

theorem closed_handle_stays_closed:
  assumes "runtime_reached h n rt"
    and "NtRuntime_dispatch rt (CallClose k) = Some (NtServiceReply_status NtStatus_SUCCESS, rt')"
    and "runtime_step\<^sup>*\<^sup>* rt' rt''" and "call_handle call = Some k"
  shows "NtRuntime_dispatch rt'' call = Some (NtServiceReply_status NtStatus_INVALID_HANDLE, rt'')"
proof -
  have inv: "runtime_inv rt" by (rule runtime_reached_inv [OF assms(1)])
  obtain r where r: "NtRuntime_close rt k = (r, rt')"
    using assms(2) by (cases "NtRuntime_close rt k") (auto split: sum.splits)
  note cl = runtime_close_spec [OF inv r]
  have live: "hm rt k \<noteq> None"
    using cl r assms(2) by (cases "hm rt k") (simp_all add: NtServiceReply_status_def NtStatus_defs)
  then have dead: "hm rt' k = None" "runtime_inv rt'" "handle_step\<^sup>*\<^sup>* (rt_handles rt) (rt_handles rt')" using cl by auto
  have later: "runtime_inv rt''" "handle_step\<^sup>*\<^sup>* (rt_handles rt') (rt_handles rt'')"
    using runtime_steps_ok [OF assms(3) dead(2)] by (simp_all add: service_ok_def)
  have "handle_table_wf (rt_handles rt)" using inv by (simp add: runtime_inv_def)
  from handles.never_again [OF this live dead(3) _ later(2)] dead(1) have "hm rt'' k = None" by simp
  then show ?thesis by (rule dispatch_dead [OF later(1) _ assms(4)])
qed

lemma sample_close_event:
  "\<exists>rt'. NtRuntime_dispatch event_runtime (CallClose (GuestHandle 0x1001)) = Some (NtServiceReply_status NtStatus_SUCCESS, rt')"
proof -
  have inv: "runtime_inv event_runtime" by (rule runtime_reached_inv [OF sample_runtime_reached])
  obtain r rt' where c: "NtRuntime_close event_runtime (GuestHandle 0x1001) = (r, rt')" by fastforce
  then have "is_ok r" using runtime_close_spec [OF inv c] sample_hm by simp
  then show ?thesis using c by (auto simp: is_ok_iff)
qed

theorem closed_handle_stays_closed_witness:
  "\<exists>rt'. NtRuntime_dispatch event_runtime (CallClose (GuestHandle 0x1001)) = Some (NtServiceReply_status NtStatus_SUCCESS, rt') \<and>
     NtRuntime_dispatch rt' (CallSetEvent (GuestHandle 0x1001)) = Some (NtServiceReply_status NtStatus_INVALID_HANDLE, rt')"
  using closed_handle_stays_closed [OF sample_runtime_reached _ rtranclp.rtrancl_refl, of "GuestHandle 0x1001" _
      "CallSetEvent (GuestHandle 0x1001)"] sample_close_event by fastforce

lemma wait_reply_status:
  "reply_status (wait_reply Poll w) = NtStatus_TIMEOUT \<longleftrightarrow> w = Inr WouldBlock"
  "reply_status (wait_reply Poll w) \<in> {NtStatus_SUCCESS, NtStatus_ABANDONED} \<longleftrightarrow> w \<in> {Inr Satisfied, Inr Abandoned}"
proof -
  show "reply_status (wait_reply Poll w) = NtStatus_TIMEOUT \<longleftrightarrow> w = Inr WouldBlock"
  proof (cases w)
    case (Inl e)
    then show ?thesis by (cases e) (simp_all add: wait_reply_def NtServiceReply_status_def NtStatus_defs)
  next
    case (Inr v)
    then show ?thesis by (cases v) (simp_all add: wait_reply_def NtServiceReply_status_def NtStatus_defs)
  qed
  show "reply_status (wait_reply Poll w) \<in> {NtStatus_SUCCESS, NtStatus_ABANDONED} \<longleftrightarrow> w \<in> {Inr Satisfied, Inr Abandoned}"
  proof (cases w)
    case (Inl e)
    then show ?thesis by (cases e) (simp_all add: wait_reply_def NtServiceReply_status_def NtStatus_defs)
  next
    case (Inr v)
    then show ?thesis by (cases v) (simp_all add: wait_reply_def NtServiceReply_status_def NtStatus_defs)
  qed
qed

text \<open>C39. Polling: a poll through a handle with synchronise access times out exactly when the object
  is not ready for the caller (an unsignalled event, a mutant owned by another thread, a semaphore
  without permits, a timer that is neither signalled nor due), and a poll that is not satisfied
  leaves the whole runtime as it was.\<close>

theorem poll_wait_exact:
  assumes "runtime_reached h n rt" and "hm rt k = Some e" and "AccessMask_contains (entry_access e) AccessMask_SYNCHRONIZE"
    and "om rt (ObjectId (entry_object_id e)) = Some (ob, refs)" and "RuntimeObject_object_type ob \<noteq> ConsoleType"
  shows "\<exists>reply rt'. NtRuntime_dispatch rt (CallWaitForSingleObject k t now Poll) = Some (reply, rt') \<and>
    (reply_status reply = NtStatus_TIMEOUT \<longleftrightarrow> \<not> object_ready ob t now) \<and>
    (reply_status reply \<notin> {NtStatus_SUCCESS, NtStatus_ABANDONED} \<longrightarrow> rt' = rt)"
proof -
  have inv: "runtime_inv rt" by (rule runtime_reached_inv [OF assms(1)])
  define i where "i = slot_of (ObjectId (entry_object_id e))"
  have i: "NtRuntime_object_mut rt k InvalidType AccessMask_SYNCHRONIZE = Inr i"
    using assms(2,3) by (simp add: object_mut_eq [OF inv] i_def)
  have at: "object_at rt i = ob" using slot_of_object [OF assms(4)] by (simp add: object_at_def i_def)
  have "RuntimeObject_object_type ob \<noteq> InvalidType"
    using object_map_SomeD [OF assms(4)] object_wf_slot inv by (metis object_slot_wf_def runtime_inv_def)
  then have "try_wait_object ob t now \<noteq> None"
    using assms(5) by (cases ob) (simp_all add: try_wait_object_def split_def)
  then obtain w ob' where w: "try_wait_object ob t now = Some (w, ob')" by auto
  have "NtRuntime_dispatch rt (CallWaitForSingleObject k t now Poll) = Some (wait_reply Poll w, write_object rt i ob')"
    using i at w by (simp add: NtRuntime_wait_single_def)
  then show ?thesis
    using try_wait_object_spec [OF w] wait_reply_status [of w] write_same [of rt i] at by auto
qed

theorem poll_wait_exact_witness:
  "\<exists>reply. NtRuntime_dispatch event_runtime (CallWaitForSingleObject (GuestHandle 0x1001) (NtThreadId 4) 0 Poll) =
       Some (reply, event_runtime) \<and> reply_status reply = NtStatus_TIMEOUT"
proof -
  have "AccessMask_contains (entry_access event_entry) AccessMask_SYNCHRONIZE"
    by (simp add: AccessMask_contains_def AccessMask_SYNCHRONIZE_def)
  from poll_wait_exact [OF sample_runtime_reached sample_hm this, of _ _ "NtThreadId 4" 0] sample_om
  show ?thesis by (auto simp: object_ready_def NtStatus_defs)
qed

end
