(* ===== verification/Pe_Reader.thy ===== *)
theory Pe_Reader
  imports Rust_Result Address
begin

text \<open>
  The data of \<open>crates/xenith-pe\<close>: its errors (\<open>error.rs\<close>), the little-endian byte reader
  (\<open>reader.rs\<close>) and the header structures (\<open>headers.rs\<close>). File offsets are \<open>usize\<close>, modelled by \<open>nat\<close>
  with the overflow checks of the source written out; \<open>usize\<close> has 64 bits, so the conversions from
  \<open>u16\<close> and \<open>u32\<close> never fail.
\<close>

subsection \<open>Errors\<close>

datatype (plugins only: size) PeError =
    Truncated nat nat
  | ArithmeticOverflow string
  | BadDosMagic u16
  | PeHeaderOverlapsDosHeader u32
  | BadPeSignature u32
  | UnsupportedMachine u16
  | NoSections
  | TooManySections u16
  | OptionalHeaderTooSmall u16
  | BadOptionalMagic u16
  | TooManyDataDirectories u32
  | DataDirectoriesTruncated u32 u16
  | InvalidFileAlignment u32
  | InvalidSectionAlignment u32
  | InvalidAlignmentRelationship u32 u32
  | InvalidImageBase u64
  | ImageAddressOverflow
  | InvalidSizeOfImage u32
  | ImageTooLarge u32 u32
  | InvalidSizeOfHeaders u32
  | SectionTableOutsideHeaders nat u32
  | EntryPointOutsideImage u32
  | EntryPointNotExecutable u32
  | InvalidStackSizes u64 u64
  | InvalidHeapSizes u64 u64
  | SectionVirtualAddressMisaligned nat u32
  | SectionRawSizeMisaligned nat u32
  | SectionRawPointerMisaligned nat u32
  | LowAlignmentSectionOffsetMismatch nat u32 u32
  | SectionRawDataOverlapsHeaders nat u32
  | SectionRawDataOutsideFile nat u32 u32
  | SectionVirtualRangeOverlapsHeaders nat u32
  | SectionVirtualRangeOutsideImage nat u32 u32
  | VirtualSectionsOverlap nat nat
  | RawSectionsOverlap nat nat
  | WriteExecuteSection nat
  | SizeOfImageMismatch u32 u32
  | IncompleteDataDirectory nat u32 u32
  | DataDirectoryOutsideImage nat u32 u32
  | DataDirectoryNotFileBacked nat u32 u32
  | CertificateTableMisaligned u32
  | CertificateTableOutsideFile u32 u32
  | RvaOutsideImage u32 u32
  | RvaNotFileBacked u32 u32
  | RvaNotSectionBacked u32 u32
  | RvaTouchesVirtualZeroFill nat u32 u32
  | InvalidActualImageBase u64
  | ActualImageAddressOverflow
  | RelocationsRequiredButMissing u64 u64
  | RelocationBlockHeaderTruncated u32 u32
  | InvalidRelocationBlockSize u32 u32 u32
  | RelocationPageMisaligned u32
  | RelocationPageOutsideImage u32
  | RelocationPagesNotIncreasing u32 u32
  | UnsupportedRelocationType u8 u32 u16
  | RelocationTargetOverflow u32 u16
  | TooManyBaseRelocations nat nat
  | RelocatedValueOverflow u32 u64
  | InvalidImportDirectorySize u32
  | ImportDirectoryTooLarge u32 u32
  | UnterminatedImportDirectory
  | NonZeroImportDirectoryTail u32
  | TooManyImportModules nat nat
  | MissingImportModuleName nat
  | MissingImportAddressTable nat
  | ImportThunkTableMisaligned nat u32
  | EmptyImportThunkTable nat
  | UnterminatedImportThunkTable nat nat
  | TooManyImports nat nat
  | NonZeroImportAddressTerminator nat u32 u64
  | InvalidOrdinalImportEncoding nat nat u64
  | InvalidImportOrdinal nat nat
  | ImportNameRvaTooWide nat nat u64
  | EmptyImportName u32
  | InvalidImportNameByte u32 nat u8
  | ImportNameTooLong u32 nat
  | UnsupportedTlsDirectory u32 u32
  | UnsupportedDelayImportDirectory u32 u32

instantiation PeError :: equal
begin

definition equal_PeError :: "PeError \<Rightarrow> PeError \<Rightarrow> bool" where
  "equal_PeError a b \<longleftrightarrow> a = b"

instance
  by standard (simp add: equal_PeError_def)

end

subsection \<open>Loops with early return\<close>

text \<open>A \<open>for\<close> loop whose body may return an error: the results in order, or the first error.\<close>

fun map_result :: "('a \<Rightarrow> 'e + 'b) \<Rightarrow> 'a list \<Rightarrow> 'e + 'b list" where
  "map_result f [] = Inr []"
| "map_result f (x # xs) = and_then (f x) (\<lambda>y. and_then (map_result f xs) (\<lambda>ys. Inr (y # ys)))"

text \<open>A \<open>for\<close> loop that only validates.\<close>

fun all_result :: "('a \<Rightarrow> 'e + unit) \<Rightarrow> 'a list \<Rightarrow> 'e + unit" where
  "all_result f [] = Inr ()"
| "all_result f (x # xs) = and_then (f x) (\<lambda>_. all_result f xs)"

lemma map_result_Inr: "map_result f xs = Inr ys \<longleftrightarrow> list_all2 (\<lambda>x y. f x = Inr y) xs ys"
  by (induction xs arbitrary: ys) (auto simp: and_then_eq_Inr list_all2_Cons1)

lemma all_result_Inr: "all_result f xs = Inr () \<longleftrightarrow> (\<forall>x\<in>set xs. f x = Inr ())"
  by (induction xs) (auto simp: and_then_eq_Inr)

subsection \<open>Reading bytes\<close>

definition from_le_bytes :: "u8 list \<Rightarrow> 'a::len word" where
  "from_le_bytes bytes = foldr (\<lambda>b acc. push_bit 8 acc OR ucast b) bytes 0"

datatype Reader = Reader (reader_bytes: "u8 list")

definition Reader_bytes :: "Reader \<Rightarrow> nat \<Rightarrow> nat \<Rightarrow> PeError + u8 list" where
  "Reader_bytes self offset size' =
     (if 2 ^ 64 \<le> offset + size' then Inl (ArithmeticOverflow ''file range'')
      else if offset + size' \<le> length (reader_bytes self) then Inr (take size' (drop offset (reader_bytes self)))
      else Inl (Truncated offset size'))"

definition Reader_u8 :: "Reader \<Rightarrow> nat \<Rightarrow> PeError + u8" where
  "Reader_u8 self offset = and_then (Reader_bytes self offset 1) (\<lambda>bytes. Inr (bytes ! 0))"

definition Reader_u16 :: "Reader \<Rightarrow> nat \<Rightarrow> PeError + u16" where
  "Reader_u16 self offset =
     and_then (Reader_bytes self offset 2) (\<lambda>bytes. Inr (from_le_bytes [bytes ! 0, bytes ! 1]))"

definition Reader_u32 :: "Reader \<Rightarrow> nat \<Rightarrow> PeError + u32" where
  "Reader_u32 self offset =
     and_then (Reader_bytes self offset 4)
       (\<lambda>bytes. Inr (from_le_bytes [bytes ! 0, bytes ! 1, bytes ! 2, bytes ! 3]))"

definition Reader_u64 :: "Reader \<Rightarrow> nat \<Rightarrow> PeError + u64" where
  "Reader_u64 self offset =
     and_then (Reader_bytes self offset 8)
       (\<lambda>bytes. Inr (from_le_bytes
          [bytes ! 0, bytes ! 1, bytes ! 2, bytes ! 3, bytes ! 4, bytes ! 5, bytes ! 6, bytes ! 7]))"

definition pe_checked_add :: "nat \<Rightarrow> nat \<Rightarrow> string \<Rightarrow> PeError + nat" where
  "pe_checked_add left right field =
     (if left + right < 2 ^ 64 then Inr (left + right) else Inl (ArithmeticOverflow field))"

definition pe_checked_mul :: "nat \<Rightarrow> nat \<Rightarrow> string \<Rightarrow> PeError + nat" where
  "pe_checked_mul left right field =
     (if left * right < 2 ^ 64 then Inr (left * right) else Inl (ArithmeticOverflow field))"

definition pe_align_up :: "u32 \<Rightarrow> u32 \<Rightarrow> string \<Rightarrow> PeError + u32" where
  "pe_align_up value alignment field =
     (let m = alignment - 1 in
      ok_or (map_option (\<lambda>rounded. rounded AND NOT m) (checked_add value m)) (ArithmeticOverflow field))"

subsection \<open>Headers\<close>

definition MAX_SECTIONS :: nat where "MAX_SECTIONS = 96"
definition MAX_DATA_DIRECTORIES :: nat where "MAX_DATA_DIRECTORIES = 16"
definition MAX_IMAGE_SIZE :: u32 where "MAX_IMAGE_SIZE = 512 * 1024 * 1024"
definition IMAGE_FILE_MACHINE_AMD64 :: u16 where "IMAGE_FILE_MACHINE_AMD64 = 0x8664"
definition IMAGE_NT_OPTIONAL_HDR64_MAGIC :: u16 where "IMAGE_NT_OPTIONAL_HDR64_MAGIC = 0x020b"
definition IMAGE_DIRECTORY_ENTRY_IMPORT :: nat where "IMAGE_DIRECTORY_ENTRY_IMPORT = 1"
definition IMAGE_DIRECTORY_ENTRY_SECURITY :: nat where "IMAGE_DIRECTORY_ENTRY_SECURITY = 4"
definition IMAGE_DIRECTORY_ENTRY_BASERELOC :: nat where "IMAGE_DIRECTORY_ENTRY_BASERELOC = 5"
definition IMAGE_DIRECTORY_ENTRY_TLS :: nat where "IMAGE_DIRECTORY_ENTRY_TLS = 9"
definition IMAGE_DIRECTORY_ENTRY_DELAY_IMPORT :: nat where "IMAGE_DIRECTORY_ENTRY_DELAY_IMPORT = 13"
definition IMAGE_SCN_MEM_EXECUTE :: u32 where "IMAGE_SCN_MEM_EXECUTE = 0x20000000"
definition IMAGE_SCN_MEM_READ :: u32 where "IMAGE_SCN_MEM_READ = 0x40000000"
definition IMAGE_SCN_MEM_WRITE :: u32 where "IMAGE_SCN_MEM_WRITE = 0x80000000"

record DosHeader =
  pe_offset :: u32

record CoffHeader =
  machine :: u16
  number_of_sections :: u16
  time_date_stamp :: u32
  pointer_to_symbol_table :: u32
  number_of_symbols :: u32
  size_of_optional_header :: u16
  coff_characteristics :: u16

record OptionalHeader64 =
  major_linker_version :: u8
  minor_linker_version :: u8
  size_of_code :: u32
  size_of_initialized_data :: u32
  size_of_uninitialized_data :: u32
  address_of_entry_point :: u32
  base_of_code :: u32
  image_base :: u64
  section_alignment :: u32
  file_alignment :: u32
  major_operating_system_version :: u16
  minor_operating_system_version :: u16
  major_image_version :: u16
  minor_image_version :: u16
  major_subsystem_version :: u16
  minor_subsystem_version :: u16
  win32_version_value :: u32
  size_of_image :: u32
  size_of_headers :: u32
  checksum :: u32
  subsystem :: u16
  dll_characteristics :: u16
  size_of_stack_reserve :: u64
  size_of_stack_commit :: u64
  size_of_heap_reserve :: u64
  size_of_heap_commit :: u64
  loader_flags :: u32
  number_of_rva_and_sizes :: u32

record PeHeaders =
  dos :: DosHeader
  coff :: CoffHeader
  optional :: OptionalHeader64

record DataDirectory =
  dir_address :: u32
  dir_size :: u32

definition DataDirectory_is_empty :: "DataDirectory \<Rightarrow> bool" where
  "DataDirectory_is_empty self \<longleftrightarrow> dir_address self = 0 \<and> dir_size self = 0"

record FileRange =
  file_offset :: u32
  file_size :: u32

definition FileRange_checked_end :: "FileRange \<Rightarrow> u32 option" where
  "FileRange_checked_end self = checked_add (file_offset self) (file_size self)"

record RvaRange =
  range_rva :: u32
  range_size :: u32

definition RvaRange_checked_end :: "RvaRange \<Rightarrow> u32 option" where
  "RvaRange_checked_end self = checked_add (range_rva self) (range_size self)"

record SectionHeader =
  sec_name :: "u8 list"
  virtual_size :: u32
  virtual_address :: u32
  size_of_raw_data :: u32
  pointer_to_raw_data :: u32
  pointer_to_relocations :: u32
  pointer_to_line_numbers :: u32
  number_of_relocations :: u16
  number_of_line_numbers :: u16
  sec_characteristics :: u32
  mapped_size :: u32

definition SectionHeader_file_range :: "SectionHeader \<Rightarrow> FileRange option" where
  "SectionHeader_file_range self =
     (if size_of_raw_data self = 0 then None
      else Some \<lparr>file_offset = pointer_to_raw_data self, file_size = size_of_raw_data self\<rparr>)"

definition SectionHeader_virtual_range :: "SectionHeader \<Rightarrow> RvaRange" where
  "SectionHeader_virtual_range self = \<lparr>range_rva = virtual_address self, range_size = mapped_size self\<rparr>"

subsection \<open>Alignment\<close>

lemma pow2_minus_1:
  assumes "is_power_of_two (a :: 'a::len word)"
  obtains k where "k < LENGTH('a)" "unat a = 2 ^ k" "a - 1 = mask k"
  using assms by (auto simp: is_power_of_two_iff unat_exp mask_eq_exp_minus_1)

lemma and_pow2_eq_0:
  assumes "is_power_of_two (a :: 'a::len word)"
  shows "w AND (a - 1) = 0 \<longleftrightarrow> unat a dvd unat w"
  using assms by (elim pow2_minus_1) (auto simp: unat_and_mask unat_eq_0 [symmetric] simp flip: dvd_eq_mod_eq_0)

lemma pe_align_up_spec:
  assumes "is_power_of_two al" "pe_align_up v al field = Inr r"
  shows "unat al dvd unat r" "unat v \<le> unat r" "unat r < unat v + unat al"
proof -
  obtain k where k: "k < 32" "unat al = 2 ^ k" "al - 1 = mask k" using assms(1) by (rule pow2_minus_1) simp
  obtain s where s: "checked_add v (al - 1) = Some s" "r = s AND NOT (al - 1)"
    using assms(2) by (auto simp: pe_align_up_def Let_def)
  have "1 \<le> al" using k(2) by (simp add: word_le_nat_alt)
  then have "unat (al - 1) = 2 ^ k - 1" using k(2) by (simp add: unat_sub)
  then have r: "unat r = (unat v + (2 ^ k - 1)) div 2 ^ k * 2 ^ k"
    using unat_checked_add [OF s(1)] s(2) k(3) unat_and_not_mask [of s k] by simp
  show "unat al dvd unat r" unfolding r k(2) by simp
  show "unat v \<le> unat r" unfolding r by (rule round_up_ge) simp
  have "unat r \<le> unat v + (2 ^ k - 1)" unfolding r by (rule div_times_less_eq_dividend)
  moreover have "(0::nat) < 2 ^ k" by simp
  ultimately show "unat r < unat v + unat al" using k(2) by linarith
qed

subsection \<open>Little-endian words in byte slices\<close>

text \<open>\<open>xs[a..b]\<close>, which panics out of range, and the readers of one word from such a slice.\<close>

definition slice_opt :: "'a list \<Rightarrow> nat \<Rightarrow> nat \<Rightarrow> 'a list option" where
  "slice_opt xs a b = (if a \<le> b \<and> b \<le> length xs then Some (take (b - a) (drop a xs)) else None)"

definition read_le :: "nat \<Rightarrow> u8 list \<Rightarrow> 'a::len word option" where
  "read_le n bytes = (if n \<le> length bytes then Some (from_le_bytes (take n bytes)) else None)"

definition read_u16 :: "u8 list \<Rightarrow> u16 option" where
  "read_u16 bytes = read_le 2 bytes"

definition read_u32 :: "u8 list \<Rightarrow> u32 option" where
  "read_u32 bytes = read_le 4 bytes"

definition read_u64 :: "u8 list \<Rightarrow> u64 option" where
  "read_u64 bytes = read_le 8 bytes"

definition to_le_bytes :: "'a::len word \<Rightarrow> u8 list" where
  "to_le_bytes w = map (\<lambda>i. ucast (drop_bit (8 * i) w)) [0..<LENGTH('a) div 8]"

lemma from_le_bytes_Cons: "from_le_bytes (b # bs) = push_bit 8 (from_le_bytes bs) OR ucast b"
  by (simp add: from_le_bytes_def)

lemma bit_from_le_bytes:
  "bit (from_le_bytes bs :: 'a::len word) i \<longleftrightarrow>
     i < LENGTH('a) \<and> i div 8 < length bs \<and> bit (bs ! (i div 8)) (i mod 8)"
proof (induction bs arbitrary: i)
  case Nil
  then show ?case by (simp add: from_le_bytes_def)
next
  case (Cons b bs)
  show ?case
  proof (cases "i < 8")
    case True
    then show ?thesis by (auto simp: from_le_bytes_Cons bit_simps)
  next
    case False
    then obtain j where j: "i = j + 8" by (metis le_add_diff_inverse2 not_less)
    have "\<not> bit b (j + 8)" using bit_imp_le_length [of b "j + 8"] by auto
    moreover have "(j + 8) div 8 = Suc (j div 8)" by simp
    ultimately show ?thesis using Cons.IH [of j] unfolding j by (auto simp: from_le_bytes_Cons bit_simps)
  qed
qed

lemma to_from_le_bytes:
  assumes "LENGTH('a::len) = 8 * length bs"
  shows "to_le_bytes (from_le_bytes bs :: 'a word) = bs"
proof (rule nth_equalityI)
  show "length (to_le_bytes (from_le_bytes bs :: 'a word)) = length bs" using assms by (simp add: to_le_bytes_def)
  fix i assume "i < length (to_le_bytes (from_le_bytes bs :: 'a word))"
  then have i: "i < length bs" using assms by (simp add: to_le_bytes_def)
  show "to_le_bytes (from_le_bytes bs :: 'a word) ! i = bs ! i"
  proof (rule bit_word_eqI)
    fix j assume "j < LENGTH(8)"
    then have "j < 8" by simp
    then have "(8 * i + j) div 8 = i" "(8 * i + j) mod 8 = j" "8 * i + j < LENGTH('a)" using i assms by auto
    then show "bit (to_le_bytes (from_le_bytes bs :: 'a word) ! i) j = bit (bs ! i) j"
      using i assms \<open>j < 8\<close> by (auto simp: to_le_bytes_def bit_simps bit_from_le_bytes ac_simps)
  qed
qed

lemma from_to_le_bytes:
  assumes "8 dvd LENGTH('a::len)"
  shows "from_le_bytes (to_le_bytes (w :: 'a word)) = w"
proof (rule bit_word_eqI)
  fix i assume "i < LENGTH('a)"
  then have "i div 8 < LENGTH('a) div 8" using assms by (simp add: div_less_iff_less_mult) 
  then show "bit (from_le_bytes (to_le_bytes w) :: 'a word) i = bit w i"
    using \<open>i < LENGTH('a)\<close> by (auto simp: bit_from_le_bytes to_le_bytes_def bit_simps)
qed

end
