(* ===== verification/Pe_Image.thy ===== *)
theory Pe_Image
  imports Pe_Reader
begin

text \<open>
  The parser of \<open>crates/xenith-pe/src/image.rs\<close>: \<open>PeImage_parse\<close> with each of its validation passes, the
  translation of relative virtual addresses to file ranges, and the directory table. The two fixed
  arrays of the image with their counts are the lists of the entries in use. The property of the theory
  is what a successfully parsed image guarantees its consumers, as \<open>image_sound\<close>.
\<close>

subsection \<open>Constants\<close>

definition DOS_HEADER_SIZE :: nat where "DOS_HEADER_SIZE = 64"
definition PE_SIGNATURE :: u32 where "PE_SIGNATURE = 0x00004550"
definition PE_SIGNATURE_SIZE :: nat where "PE_SIGNATURE_SIZE = 4"
definition COFF_HEADER_SIZE :: nat where "COFF_HEADER_SIZE = 20"
definition OPTIONAL_HEADER64_FIXED_SIZE :: nat where "OPTIONAL_HEADER64_FIXED_SIZE = 112"
definition DATA_DIRECTORY_SIZE :: nat where "DATA_DIRECTORY_SIZE = 8"
definition SECTION_HEADER_SIZE :: nat where "SECTION_HEADER_SIZE = 40"
definition MIN_FILE_ALIGNMENT :: u32 where "MIN_FILE_ALIGNMENT = 0x200"
definition MAX_FILE_ALIGNMENT :: u32 where "MAX_FILE_ALIGNMENT = 0x10000"
definition PE_PAGE_SIZE :: u32 where "PE_PAGE_SIZE = 0x1000"
definition IMAGE_BASE_ALIGNMENT :: u64 where "IMAGE_BASE_ALIGNMENT = 0x10000"

record PeImage =
  pe_bytes :: "u8 list"
  pe_headers :: PeHeaders
  pe_directories :: "DataDirectory list"
  pe_sections :: "SectionHeader list"

subsection \<open>Reading the headers\<close>

definition parse_coff_header :: "Reader \<Rightarrow> nat \<Rightarrow> PeError + CoffHeader" where
  "parse_coff_header reader offset =
     and_then (Reader_bytes reader offset COFF_HEADER_SIZE) (\<lambda>_.
     and_then (Reader_u16 reader offset) (\<lambda>machine'.
     and_then (Reader_u16 reader (offset + 2)) (\<lambda>sections'.
     and_then (Reader_u32 reader (offset + 4)) (\<lambda>stamp.
     and_then (Reader_u32 reader (offset + 8)) (\<lambda>symbol_table.
     and_then (Reader_u32 reader (offset + 12)) (\<lambda>symbols.
     and_then (Reader_u16 reader (offset + 16)) (\<lambda>optional_size.
     and_then (Reader_u16 reader (offset + 18)) (\<lambda>chars.
       Inr \<lparr>machine = machine', number_of_sections = sections', time_date_stamp = stamp,
            pointer_to_symbol_table = symbol_table, number_of_symbols = symbols,
            size_of_optional_header = optional_size, coff_characteristics = chars\<rparr>))))))))"

definition parse_optional_header :: "Reader \<Rightarrow> nat \<Rightarrow> PeError + OptionalHeader64" where
  "parse_optional_header reader offset =
     and_then (Reader_u16 reader offset) (\<lambda>magic.
     if magic \<noteq> IMAGE_NT_OPTIONAL_HDR64_MAGIC then Inl (BadOptionalMagic magic)
     else
     and_then (Reader_u8 reader (offset + 2)) (\<lambda>f2.
     and_then (Reader_u8 reader (offset + 3)) (\<lambda>f3.
     and_then (Reader_u32 reader (offset + 4)) (\<lambda>f4.
     and_then (Reader_u32 reader (offset + 8)) (\<lambda>f8.
     and_then (Reader_u32 reader (offset + 12)) (\<lambda>f12.
     and_then (Reader_u32 reader (offset + 16)) (\<lambda>f16.
     and_then (Reader_u32 reader (offset + 20)) (\<lambda>f20.
     and_then (Reader_u64 reader (offset + 24)) (\<lambda>f24.
     and_then (Reader_u32 reader (offset + 32)) (\<lambda>f32.
     and_then (Reader_u32 reader (offset + 36)) (\<lambda>f36.
     and_then (Reader_u16 reader (offset + 40)) (\<lambda>f40.
     and_then (Reader_u16 reader (offset + 42)) (\<lambda>f42.
     and_then (Reader_u16 reader (offset + 44)) (\<lambda>f44.
     and_then (Reader_u16 reader (offset + 46)) (\<lambda>f46.
     and_then (Reader_u16 reader (offset + 48)) (\<lambda>f48.
     and_then (Reader_u16 reader (offset + 50)) (\<lambda>f50.
     and_then (Reader_u32 reader (offset + 52)) (\<lambda>f52.
     and_then (Reader_u32 reader (offset + 56)) (\<lambda>f56.
     and_then (Reader_u32 reader (offset + 60)) (\<lambda>f60.
     and_then (Reader_u32 reader (offset + 64)) (\<lambda>f64.
     and_then (Reader_u16 reader (offset + 68)) (\<lambda>f68.
     and_then (Reader_u16 reader (offset + 70)) (\<lambda>f70.
     and_then (Reader_u64 reader (offset + 72)) (\<lambda>f72.
     and_then (Reader_u64 reader (offset + 80)) (\<lambda>f80.
     and_then (Reader_u64 reader (offset + 88)) (\<lambda>f88.
     and_then (Reader_u64 reader (offset + 96)) (\<lambda>f96.
     and_then (Reader_u32 reader (offset + 104)) (\<lambda>f104.
     and_then (Reader_u32 reader (offset + 108)) (\<lambda>f108.
       Inr \<lparr>major_linker_version = f2, minor_linker_version = f3, size_of_code = f4,
            size_of_initialized_data = f8, size_of_uninitialized_data = f12,
            address_of_entry_point = f16, base_of_code = f20, image_base = f24,
            section_alignment = f32, file_alignment = f36,
            major_operating_system_version = f40, minor_operating_system_version = f42,
            major_image_version = f44, minor_image_version = f46,
            major_subsystem_version = f48, minor_subsystem_version = f50,
            win32_version_value = f52, size_of_image = f56, size_of_headers = f60,
            checksum = f64, subsystem = f68, dll_characteristics = f70,
            size_of_stack_reserve = f72, size_of_stack_commit = f80,
            size_of_heap_reserve = f88, size_of_heap_commit = f96,
            loader_flags = f104, number_of_rva_and_sizes = f108\<rparr>
     )))))))))))))))))))))))))))))"

definition parse_section_header :: "Reader \<Rightarrow> nat \<Rightarrow> PeError + SectionHeader" where
  "parse_section_header reader offset =
     and_then (Reader_bytes reader offset 8) (\<lambda>name.
     and_then (Reader_u32 reader (offset + 8)) (\<lambda>f8.
     and_then (Reader_u32 reader (offset + 12)) (\<lambda>f12.
     and_then (Reader_u32 reader (offset + 16)) (\<lambda>f16.
     and_then (Reader_u32 reader (offset + 20)) (\<lambda>f20.
     and_then (Reader_u32 reader (offset + 24)) (\<lambda>f24.
     and_then (Reader_u32 reader (offset + 28)) (\<lambda>f28.
     and_then (Reader_u16 reader (offset + 32)) (\<lambda>f32.
     and_then (Reader_u16 reader (offset + 34)) (\<lambda>f34.
     and_then (Reader_u32 reader (offset + 36)) (\<lambda>f36.
       Inr \<lparr>sec_name = name, virtual_size = f8, virtual_address = f12, size_of_raw_data = f16,
            pointer_to_raw_data = f20, pointer_to_relocations = f24, pointer_to_line_numbers = f28,
            number_of_relocations = f32, number_of_line_numbers = f34, sec_characteristics = f36,
            mapped_size = 0\<rparr>))))))))))"

subsection \<open>Validation\<close>

definition validate_optional_header :: "OptionalHeader64 \<Rightarrow> PeError + unit" where
  "validate_optional_header opt =
     (if \<not> is_power_of_two (section_alignment opt) then Inl (InvalidSectionAlignment (section_alignment opt))
      else if \<not> is_power_of_two (file_alignment opt) then Inl (InvalidFileAlignment (file_alignment opt))
      else
        let conventional_file_alignment =
              MIN_FILE_ALIGNMENT \<le> file_alignment opt \<and> file_alignment opt \<le> MAX_FILE_ALIGNMENT;
            low_alignment_image =
              section_alignment opt < PE_PAGE_SIZE \<and> file_alignment opt = section_alignment opt
        in
        if \<not> conventional_file_alignment \<and> \<not> low_alignment_image
        then Inl (InvalidFileAlignment (file_alignment opt))
        else if section_alignment opt < file_alignment opt \<or>
                (section_alignment opt < PE_PAGE_SIZE \<and> section_alignment opt \<noteq> file_alignment opt)
        then Inl (InvalidAlignmentRelationship (section_alignment opt) (file_alignment opt))
        else if image_base opt AND (IMAGE_BASE_ALIGNMENT - 1) \<noteq> 0
        then Inl (InvalidImageBase (image_base opt))
        else if checked_add (image_base opt) (ucast (size_of_image opt)) = None
        then Inl ImageAddressOverflow
        else if size_of_image opt = 0 \<or> size_of_image opt AND (section_alignment opt - 1) \<noteq> 0
        then Inl (InvalidSizeOfImage (size_of_image opt))
        else if MAX_IMAGE_SIZE < size_of_image opt
        then Inl (ImageTooLarge (size_of_image opt) MAX_IMAGE_SIZE)
        else if size_of_headers opt = 0 \<or> size_of_headers opt AND (file_alignment opt - 1) \<noteq> 0 \<or>
                size_of_image opt < size_of_headers opt
        then Inl (InvalidSizeOfHeaders (size_of_headers opt))
        else if size_of_image opt \<le> address_of_entry_point opt \<and> address_of_entry_point opt \<noteq> 0
        then Inl (EntryPointOutsideImage (address_of_entry_point opt))
        else if size_of_stack_reserve opt < size_of_stack_commit opt
        then Inl (InvalidStackSizes (size_of_stack_reserve opt) (size_of_stack_commit opt))
        else if size_of_heap_reserve opt < size_of_heap_commit opt
        then Inl (InvalidHeapSizes (size_of_heap_reserve opt) (size_of_heap_commit opt))
        else Inr ())"

text \<open>The checks on the raw data of a section that has some.\<close>

definition validate_raw_data :: "nat \<Rightarrow> nat \<Rightarrow> SectionHeader \<Rightarrow> OptionalHeader64 \<Rightarrow> PeError + unit" where
  "validate_raw_data file_size' index section' opt =
     (let ptr = pointer_to_raw_data section'; raw = size_of_raw_data section' in
      if section_alignment opt < PE_PAGE_SIZE \<and> ptr \<noteq> virtual_address section'
      then Inl (LowAlignmentSectionOffsetMismatch index (virtual_address section') ptr)
      else if ptr AND (file_alignment opt - 1) \<noteq> 0 then Inl (SectionRawPointerMisaligned index ptr)
      else if ptr < size_of_headers opt then Inl (SectionRawDataOverlapsHeaders index ptr)
      else and_then (ok_or (checked_add ptr raw) (SectionRawDataOutsideFile index ptr raw)) (\<lambda>raw_end.
        if file_size' < unat raw_end then Inl (SectionRawDataOutsideFile index ptr raw) else Inr ()))"

definition validate_section ::
  "nat \<Rightarrow> nat \<Rightarrow> SectionHeader \<Rightarrow> OptionalHeader64 \<Rightarrow> u32 \<Rightarrow> PeError + SectionHeader" where
  "validate_section file_size' index section' opt header_mapped_size =
     (if virtual_address section' AND (section_alignment opt - 1) \<noteq> 0
      then Inl (SectionVirtualAddressMisaligned index (virtual_address section'))
      else if size_of_raw_data section' AND (file_alignment opt - 1) \<noteq> 0
      then Inl (SectionRawSizeMisaligned index (size_of_raw_data section'))
      else
        and_then (if size_of_raw_data section' \<noteq> 0 then validate_raw_data file_size' index section' opt
                  else Inr ()) (\<lambda>_.
        let content_size = max (virtual_size section') (size_of_raw_data section') in
        and_then (pe_align_up content_size (section_alignment opt) ''section load size'') (\<lambda>mapped.
        let section' = section'\<lparr>mapped_size := mapped\<rparr> in
        if mapped = 0 then Inr section'
        else if virtual_address section' < header_mapped_size
        then Inl (SectionVirtualRangeOverlapsHeaders index (virtual_address section'))
        else
          and_then (ok_or (checked_add (virtual_address section') mapped)
                     (SectionVirtualRangeOutsideImage index (virtual_address section') mapped))
            (\<lambda>virtual_end.
             if size_of_image opt < virtual_end
             then Inl (SectionVirtualRangeOutsideImage index (virtual_address section') mapped)
             else if sec_characteristics section' AND IMAGE_SCN_MEM_WRITE \<noteq> 0 \<and>
                     sec_characteristics section' AND IMAGE_SCN_MEM_EXECUTE \<noteq> 0
             then Inl (WriteExecuteSection index)
             else Inr section'))))"

definition ranges_overlap :: "u32 \<Rightarrow> u32 \<Rightarrow> u32 \<Rightarrow> u32 \<Rightarrow> bool" where
  "ranges_overlap first_start first_size second_start second_size =
     (if first_size = 0 \<or> second_size = 0 then False
      else case checked_add first_start first_size of
        None \<Rightarrow> True
      | Some first_end \<Rightarrow>
          (case checked_add second_start second_size of
             None \<Rightarrow> True
           | Some second_end \<Rightarrow> first_start < second_end \<and> second_start < first_end))"

definition validate_section_overlaps :: "SectionHeader list \<Rightarrow> PeError + unit" where
  "validate_section_overlaps sections' =
     all_result (\<lambda>first.
       all_result (\<lambda>second.
         let f = sections' ! first; s = sections' ! second in
         if ranges_overlap (virtual_address f) (mapped_size f) (virtual_address s) (mapped_size s)
         then Inl (VirtualSectionsOverlap first second)
         else if ranges_overlap (pointer_to_raw_data f) (size_of_raw_data f)
                   (pointer_to_raw_data s) (size_of_raw_data s)
         then Inl (RawSectionsOverlap first second)
         else Inr ()) [first + 1..<length sections']) [0..<length sections']"

definition entry_in_section :: "u32 \<Rightarrow> SectionHeader \<Rightarrow> bool" where
  "entry_in_section entry section' =
     (case checked_add (virtual_address section') (mapped_size section') of
        None \<Rightarrow> False
      | Some end' \<Rightarrow>
          virtual_address section' \<le> entry \<and> entry < end' \<and>
          sec_characteristics section' AND IMAGE_SCN_MEM_EXECUTE \<noteq> 0)"

definition validate_entry_point :: "OptionalHeader64 \<Rightarrow> SectionHeader list \<Rightarrow> PeError + unit" where
  "validate_entry_point opt sections' =
     (let entry = address_of_entry_point opt in
      if entry = 0 then Inr ()
      else if \<not> list_ex (entry_in_section entry) sections' then Inl (EntryPointNotExecutable entry)
      else Inr ())"

subsection \<open>Address translation\<close>

definition PeImage_directory :: "PeImage \<Rightarrow> nat \<Rightarrow> DataDirectory option" where
  "PeImage_directory self index = index_opt (pe_directories self) index"

fun rva_scan :: "nat \<Rightarrow> u32 \<Rightarrow> u32 \<Rightarrow> u32 \<Rightarrow> SectionHeader list \<Rightarrow> PeError + FileRange" where
  "rva_scan file_len rva size' end' [] = Inl (RvaNotFileBacked rva size')"
| "rva_scan file_len rva size' end' (section' # rest) =
     and_then (ok_or (checked_add (virtual_address section') (size_of_raw_data section'))
                (RvaNotFileBacked rva size')) (\<lambda>raw_end_rva.
     if virtual_address section' \<le> rva \<and> end' \<le> raw_end_rva then
       (let delta = rva - virtual_address section' in
        and_then (ok_or (checked_add (pointer_to_raw_data section') delta) (RvaNotFileBacked rva size')) (\<lambda>offset.
        and_then (ok_or (checked_add offset size') (RvaNotFileBacked rva size')) (\<lambda>file_end.
        if file_len < unat file_end then Inl (RvaNotFileBacked rva size')
        else Inr \<lparr>file_offset = offset, file_size = size'\<rparr>)))
     else rva_scan file_len rva size' end' rest)"

definition PeImage_rva_to_file_range :: "PeImage \<Rightarrow> u32 \<Rightarrow> u32 \<Rightarrow> PeError + FileRange" where
  "PeImage_rva_to_file_range self rva size' =
     and_then (ok_or (checked_add rva size') (RvaOutsideImage rva size')) (\<lambda>end'.
     let opt = optional (pe_headers self) in
     if size_of_image opt < end' then Inl (RvaOutsideImage rva size')
     else if rva < size_of_headers opt \<and> end' \<le> size_of_headers opt
     then Inr \<lparr>file_offset = rva, file_size = size'\<rparr>
     else rva_scan (length (pe_bytes self)) rva size' end' (pe_sections self))"

fun section_scan :: "u32 \<Rightarrow> u32 \<Rightarrow> u32 \<Rightarrow> nat \<Rightarrow> SectionHeader list \<Rightarrow> PeError + FileRange" where
  "section_scan rva size' end' index [] = Inl (RvaNotSectionBacked rva size')"
| "section_scan rva size' end' index (section' # rest) =
     and_then (ok_or (checked_add (virtual_address section') (mapped_size section'))
                (RvaNotSectionBacked rva size')) (\<lambda>mapped_end.
     let starts_in_section =
           (if size' = 0 then virtual_address section' \<le> rva \<and> rva \<le> mapped_end
            else virtual_address section' \<le> rva \<and> rva < mapped_end) in
     if \<not> starts_in_section then section_scan rva size' end' (index + 1) rest
     else
       and_then (ok_or (checked_add (virtual_address section') (size_of_raw_data section'))
                  (RvaNotSectionBacked rva size')) (\<lambda>raw_end.
       if end' \<le> raw_end then
         (let delta = rva - virtual_address section' in
          and_then (ok_or (checked_add (pointer_to_raw_data section') delta)
                     (RvaNotSectionBacked rva size')) (\<lambda>offset.
          Inr \<lparr>file_offset = offset, file_size = size'\<rparr>))
       else if end' \<le> mapped_end then Inl (RvaTouchesVirtualZeroFill index rva size')
       else Inl (RvaNotSectionBacked rva size')))"

definition PeImage_section_file_range :: "PeImage \<Rightarrow> u32 \<Rightarrow> u32 \<Rightarrow> PeError + FileRange" where
  "PeImage_section_file_range self rva size' =
     and_then (ok_or (checked_add rva size') (RvaOutsideImage rva size')) (\<lambda>end'.
     if size_of_image (optional (pe_headers self)) < end' then Inl (RvaOutsideImage rva size')
     else section_scan rva size' end' 0 (pe_sections self))"

definition PeImage_file_bytes :: "PeImage \<Rightarrow> FileRange \<Rightarrow> PeError + u8 list" where
  "PeImage_file_bytes self r =
     Reader_bytes (Reader (pe_bytes self)) (unat (file_offset r)) (unat (file_size r))"

definition PeImage_section_bytes :: "PeImage \<Rightarrow> u32 \<Rightarrow> u32 \<Rightarrow> PeError + u8 list" where
  "PeImage_section_bytes self rva size' =
     and_then (PeImage_section_file_range self rva size') (PeImage_file_bytes self)"

definition validate_directory :: "PeImage \<Rightarrow> nat \<times> DataDirectory \<Rightarrow> PeError + unit" where
  "validate_directory self = (\<lambda>(index, d).
     if DataDirectory_is_empty d then Inr ()
     else if dir_address d = 0 \<or> dir_size d = 0
     then Inl (IncompleteDataDirectory index (dir_address d) (dir_size d))
     else if index = IMAGE_DIRECTORY_ENTRY_SECURITY then
       (if dir_address d AND 7 \<noteq> 0 then Inl (CertificateTableMisaligned (dir_address d))
        else and_then (ok_or (checked_add (dir_address d) (dir_size d))
                        (CertificateTableOutsideFile (dir_address d) (dir_size d))) (\<lambda>end'.
          if length (pe_bytes self) < unat end'
          then Inl (CertificateTableOutsideFile (dir_address d) (dir_size d))
          else Inr ()))
     else
       and_then (ok_or (checked_add (dir_address d) (dir_size d))
                  (DataDirectoryOutsideImage index (dir_address d) (dir_size d))) (\<lambda>end'.
       if size_of_image (optional (pe_headers self)) < end'
       then Inl (DataDirectoryOutsideImage index (dir_address d) (dir_size d))
       else if \<not> is_ok (PeImage_rva_to_file_range self (dir_address d) (dir_size d))
       then Inl (DataDirectoryNotFileBacked index (dir_address d) (dir_size d))
       else Inr ()))"

definition PeImage_validate_directories :: "PeImage \<Rightarrow> PeError + unit" where
  "PeImage_validate_directories self =
     all_result (validate_directory self) (enumerate 0 (pe_directories self))"

subsection \<open>Parsing\<close>

definition parse_directories :: "Reader \<Rightarrow> nat \<Rightarrow> nat \<Rightarrow> PeError + DataDirectory list" where
  "parse_directories reader optional_offset directory_count =
     map_result (\<lambda>index.
       and_then (pe_checked_add (optional_offset + OPTIONAL_HEADER64_FIXED_SIZE)
                   (index * DATA_DIRECTORY_SIZE) ''data-directory offset'') (\<lambda>offset.
       and_then (Reader_u32 reader offset) (\<lambda>address'.
       and_then (Reader_u32 reader (offset + 4)) (\<lambda>size'.
         Inr \<lparr>dir_address = address', dir_size = size'\<rparr>)))) [0..<directory_count]"

text \<open>The loop over the section table: the validated headers and the image size they require.\<close>

fun parse_sections ::
  "Reader \<Rightarrow> nat \<Rightarrow> OptionalHeader64 \<Rightarrow> u32 \<Rightarrow> u32 \<Rightarrow> nat list \<Rightarrow> PeError + SectionHeader list \<times> u32" where
  "parse_sections reader table_offset opt header_mapped_size required [] = Inr ([], required)"
| "parse_sections reader table_offset opt header_mapped_size required (index # rest) =
     and_then (pe_checked_add table_offset (index * SECTION_HEADER_SIZE) ''section-header offset'') (\<lambda>offset.
     and_then (parse_section_header reader offset) (\<lambda>raw.
     and_then (validate_section (length (reader_bytes reader)) index raw opt header_mapped_size) (\<lambda>section'.
     and_then (ok_or (checked_add (virtual_address section') (mapped_size section'))
                (ArithmeticOverflow ''section virtual end'')) (\<lambda>end'.
     and_then (parse_sections reader table_offset opt header_mapped_size (max required end') rest)
       (\<lambda>(sections', required'). Inr (section' # sections', required'))))))"

text \<open>
  The first half of \<open>parse\<close>: the three headers with the offsets of the optional header and of the
  section table, both tables being inside the file.
\<close>

definition parse_coff :: "Reader \<Rightarrow> PeError + DosHeader \<times> CoffHeader \<times> nat" where
  "parse_coff reader =
     and_then (Reader_u16 reader 0) (\<lambda>dos_magic.
     if dos_magic \<noteq> 0x5a4d then Inl (BadDosMagic dos_magic)
     else
     and_then (Reader_u32 reader 0x3c) (\<lambda>offset.
     if offset < of_nat DOS_HEADER_SIZE then Inl (PeHeaderOverlapsDosHeader offset)
     else
     and_then (Reader_u32 reader (unat offset)) (\<lambda>signature.
     if signature \<noteq> PE_SIGNATURE then Inl (BadPeSignature signature)
     else
     and_then (pe_checked_add (unat offset) PE_SIGNATURE_SIZE ''COFF header offset'') (\<lambda>coff_offset.
     and_then (parse_coff_header reader coff_offset) (\<lambda>coff'.
     if machine coff' \<noteq> IMAGE_FILE_MACHINE_AMD64 then Inl (UnsupportedMachine (machine coff'))
     else if number_of_sections coff' = 0 then Inl NoSections
     else if MAX_SECTIONS < unat (number_of_sections coff')
     then Inl (TooManySections (number_of_sections coff'))
     else if unat (size_of_optional_header coff') < OPTIONAL_HEADER64_FIXED_SIZE
     then Inl (OptionalHeaderTooSmall (size_of_optional_header coff'))
     else
     and_then (pe_checked_add coff_offset COFF_HEADER_SIZE ''optional header offset'') (\<lambda>optional_offset.
       Inr (\<lparr>pe_offset = offset\<rparr>, coff', optional_offset)))))))"

definition parse_tables :: "Reader \<Rightarrow> CoffHeader \<Rightarrow> nat \<Rightarrow> PeError + OptionalHeader64 \<times> nat" where
  "parse_tables reader coff' optional_offset =
     and_then (Reader_bytes reader optional_offset (unat (size_of_optional_header coff'))) (\<lambda>_.
     and_then (parse_optional_header reader optional_offset) (\<lambda>opt.
     and_then (validate_optional_header opt) (\<lambda>_.
     if of_nat MAX_DATA_DIRECTORIES < number_of_rva_and_sizes opt
     then Inl (TooManyDataDirectories (number_of_rva_and_sizes opt))
     else
     and_then (pe_checked_mul (unat (number_of_rva_and_sizes opt)) DATA_DIRECTORY_SIZE
                 ''data-directory table size'') (\<lambda>directory_bytes.
     and_then (pe_checked_add OPTIONAL_HEADER64_FIXED_SIZE directory_bytes
                 ''required optional-header size'') (\<lambda>required_optional_size.
     if unat (size_of_optional_header coff') < required_optional_size
     then Inl (DataDirectoriesTruncated (number_of_rva_and_sizes opt) (size_of_optional_header coff'))
     else
     and_then (pe_checked_add optional_offset (unat (size_of_optional_header coff'))
                 ''section-table offset'') (\<lambda>section_table_offset.
     and_then (pe_checked_mul (unat (number_of_sections coff')) SECTION_HEADER_SIZE
                 ''section-table size'') (\<lambda>section_table_size.
     and_then (pe_checked_add section_table_offset section_table_size ''section-table end'')
       (\<lambda>section_table_end.
     and_then (Reader_bytes reader section_table_offset section_table_size) (\<lambda>_.
     if unat (size_of_headers opt) < section_table_end
     then Inl (SectionTableOutsideHeaders section_table_end (size_of_headers opt))
     else
     and_then (Reader_bytes reader 0 (unat (size_of_headers opt))) (\<lambda>_.
       Inr (opt, section_table_offset)))))))))))"

definition PeImage_parse :: "u8 list \<Rightarrow> PeError + PeImage" where
  "PeImage_parse bytes =
     (let reader = Reader bytes in
     and_then (parse_coff reader) (\<lambda>(dos', coff', optional_offset).
     and_then (parse_tables reader coff' optional_offset) (\<lambda>(opt, section_table_offset).
     and_then (parse_directories reader optional_offset (unat (number_of_rva_and_sizes opt)))
       (\<lambda>directories'.
     and_then (pe_align_up (size_of_headers opt) (section_alignment opt) ''mapped header size'')
       (\<lambda>header_mapped_size.
     and_then (parse_sections reader section_table_offset opt header_mapped_size header_mapped_size
                 [0..<unat (number_of_sections coff')]) (\<lambda>(sections', required).
     and_then (validate_section_overlaps sections') (\<lambda>_.
     and_then (validate_entry_point opt sections') (\<lambda>_.
     if size_of_image opt \<noteq> required then Inl (SizeOfImageMismatch (size_of_image opt) required)
     else
       (let image = \<lparr>pe_bytes = bytes,
                     pe_headers = \<lparr>dos = dos', coff = coff', optional = opt\<rparr>,
                     pe_directories = directories', pe_sections = sections'\<rparr> in
        and_then (PeImage_validate_directories image) (\<lambda>_. Inr image))))))))))"

subsection \<open>What a parsed image guarantees\<close>

definition sec_virtual :: "SectionHeader \<Rightarrow> nat set" where
  "sec_virtual s = {unat (virtual_address s)..<unat (virtual_address s) + unat (mapped_size s)}"

definition sec_end :: "SectionHeader \<Rightarrow> nat" where
  "sec_end s = unat (virtual_address s) + unat (mapped_size s)"

definition sec_raw :: "SectionHeader \<Rightarrow> nat set" where
  "sec_raw s = {unat (pointer_to_raw_data s)..<unat (pointer_to_raw_data s) + unat (size_of_raw_data s)}"

text \<open>
  One section: inside the image and behind the mapped headers, page permissions never both writable and
  executable, its raw data inside the file, behind the headers, and no longer than its mapping.
\<close>

definition section_sound :: "nat \<Rightarrow> OptionalHeader64 \<Rightarrow> nat \<Rightarrow> SectionHeader \<Rightarrow> bool" where
  "section_sound file_len opt header_end s \<longleftrightarrow>
     unat (virtual_address s) + unat (mapped_size s) \<le> unat (size_of_image opt) \<and>
     unat (size_of_raw_data s) \<le> unat (mapped_size s) \<and>
     unat (virtual_size s) \<le> unat (mapped_size s) \<and>
     unat (section_alignment opt) dvd unat (virtual_address s) \<and>
     unat (section_alignment opt) dvd unat (mapped_size s) \<and>
     (mapped_size s \<noteq> 0 \<longrightarrow> header_end \<le> unat (virtual_address s) \<and>
        (sec_characteristics s AND IMAGE_SCN_MEM_WRITE = 0 \<or>
         sec_characteristics s AND IMAGE_SCN_MEM_EXECUTE = 0)) \<and>
     (size_of_raw_data s \<noteq> 0 \<longrightarrow>
        unat (size_of_headers opt) \<le> unat (pointer_to_raw_data s) \<and>
        unat (pointer_to_raw_data s) + unat (size_of_raw_data s) \<le> file_len \<and>
        unat (pointer_to_raw_data s) + unat (size_of_raw_data s) < 2 ^ 32)"

text \<open>One data directory: empty, or inside the file for the certificate table, or file-backed.\<close>

definition directory_sound :: "PeImage \<Rightarrow> nat \<Rightarrow> DataDirectory \<Rightarrow> bool" where
  "directory_sound img i d \<longleftrightarrow> DataDirectory_is_empty d \<or>
     (dir_address d \<noteq> 0 \<and> dir_size d \<noteq> 0 \<and>
      (if i = IMAGE_DIRECTORY_ENTRY_SECURITY
       then unat (dir_address d) + unat (dir_size d) \<le> length (pe_bytes img)
       else is_ok (PeImage_rva_to_file_range img (dir_address d) (dir_size d))))"

definition image_sound :: "PeImage \<Rightarrow> bool" where
  "image_sound img \<longleftrightarrow>
     (let opt = optional (pe_headers img); ss = pe_sections img; len = length (pe_bytes img) in
      \<exists>header_end.
        unat (section_alignment opt) dvd header_end \<and>
        unat (size_of_headers opt) \<le> header_end \<and> header_end < unat (size_of_headers opt) + unat (section_alignment opt) \<and>
        unat (size_of_headers opt) \<le> len \<and>
        unat (image_base opt) + unat (size_of_image opt) < 2 ^ 64 \<and> 65536 dvd unat (image_base opt) \<and>
        unat (size_of_image opt) \<le> 512 * 1024 * 1024 \<and>
        ss \<noteq> [] \<and> length ss \<le> 96 \<and>
        (\<forall>s\<in>set ss. section_sound len opt header_end s) \<and>
        (\<forall>i j. i < j \<longrightarrow> j < length ss \<longrightarrow>
           sec_virtual (ss ! i) \<inter> sec_virtual (ss ! j) = {} \<and> sec_raw (ss ! i) \<inter> sec_raw (ss ! j) = {}) \<and>
        (address_of_entry_point opt = 0 \<or>
         (\<exists>s\<in>set ss. unat (address_of_entry_point opt) \<in> sec_virtual s \<and>
            sec_characteristics s AND IMAGE_SCN_MEM_EXECUTE \<noteq> 0)) \<and>
        unat (size_of_image opt) =
          Max (insert header_end (sec_end ` set ss)) \<and>
        length (pe_directories img) \<le> 16 \<and>
        (\<forall>i<length (pe_directories img). directory_sound img i (pe_directories img ! i)))"

lemma Reader_bytes_Inr:
  "Reader_bytes r off n = Inr xs \<longleftrightarrow>
     off + n < 2 ^ 64 \<and> off + n \<le> length (reader_bytes r) \<and> xs = take n (drop off (reader_bytes r))"
  by (auto simp: Reader_bytes_def)

lemma validate_optional_headerD:
  assumes "validate_optional_header opt = Inr ()"
  shows "is_power_of_two (section_alignment opt)" "is_power_of_two (file_alignment opt)"
    "image_base opt AND (IMAGE_BASE_ALIGNMENT - 1) = 0"
    "checked_add (image_base opt) (ucast (size_of_image opt)) \<noteq> None"
    "size_of_image opt \<le> MAX_IMAGE_SIZE" "size_of_image opt \<noteq> 0"
    "size_of_image opt AND (section_alignment opt - 1) = 0"
    "size_of_headers opt \<le> size_of_image opt" "size_of_headers opt \<noteq> 0"
  using assms by (auto simp: validate_optional_header_def Let_def not_less split: if_split_asm)

lemma image_base_range:
  assumes "validate_optional_header opt = Inr ()"
  shows "unat (image_base opt) + unat (size_of_image opt) < 2 ^ 64" "65536 dvd unat (image_base opt)"
    "unat (size_of_image opt) \<le> 512 * 1024 * 1024"
proof -
  note v = validate_optional_headerD [OF assms]
  have "unat (ucast (size_of_image opt) :: u64) = unat (size_of_image opt)"
    by (simp add: unsigned_ucast_eq take_bit_eq_mod) (rule mod_less, use unat_less_exp [of "size_of_image opt"] in simp)
  then show "unat (image_base opt) + unat (size_of_image opt) < 2 ^ 64"
    using v(4) by (auto simp: checked_add_def split: if_split_asm)
  have "is_power_of_two IMAGE_BASE_ALIGNMENT"
    by (auto simp: is_power_of_two_iff IMAGE_BASE_ALIGNMENT_def intro!: exI [of _ 16])
  from and_pow2_eq_0 [OF this, of "image_base opt"] v(3) show "65536 dvd unat (image_base opt)"
    by (simp add: IMAGE_BASE_ALIGNMENT_def)
  show "unat (size_of_image opt) \<le> 512 * 1024 * 1024"
    using v(5) by (simp add: MAX_IMAGE_SIZE_def word_le_nat_alt)
qed

lemma validate_raw_dataD:
  assumes "validate_raw_data len i s opt = Inr ()"
  shows "size_of_headers opt \<le> pointer_to_raw_data s"
    "unat (pointer_to_raw_data s) + unat (size_of_raw_data s) \<le> len"
    "unat (pointer_to_raw_data s) + unat (size_of_raw_data s) < 2 ^ 32"
proof -
  obtain e where e: "checked_add (pointer_to_raw_data s) (size_of_raw_data s) = Some e" "unat e \<le> len"
    "size_of_headers opt \<le> pointer_to_raw_data s"
    using assms by (auto simp: validate_raw_data_def Let_def and_then_eq_Inr not_less split: if_split_asm)
  then show "size_of_headers opt \<le> pointer_to_raw_data s"
    "unat (pointer_to_raw_data s) + unat (size_of_raw_data s) \<le> len"
    "unat (pointer_to_raw_data s) + unat (size_of_raw_data s) < 2 ^ 32"
    using unat_checked_add [OF e(1)] unat_less_exp [of e] by simp_all
qed

lemma validate_section_fields:
  assumes "validate_section len i raw opt hm = Inr s"
  shows "s = raw\<lparr>mapped_size := mapped_size s\<rparr>"
    "pe_align_up (max (virtual_size raw) (size_of_raw_data raw)) (section_alignment opt) ''section load size'' =
       Inr (mapped_size s)"
    "virtual_address raw AND (section_alignment opt - 1) = 0"
    "size_of_raw_data raw \<noteq> 0 \<Longrightarrow> validate_raw_data len i raw opt = Inr ()"
    "mapped_size s \<noteq> 0 \<Longrightarrow> hm \<le> virtual_address s"
    "mapped_size s \<noteq> 0 \<Longrightarrow> sec_characteristics s AND IMAGE_SCN_MEM_WRITE = 0 \<or>
         sec_characteristics s AND IMAGE_SCN_MEM_EXECUTE = 0"
proof -
  show "virtual_address raw AND (section_alignment opt - 1) = 0"
    using assms by (simp add: validate_section_def split: if_split_asm)
  show "size_of_raw_data raw \<noteq> 0 \<Longrightarrow> validate_raw_data len i raw opt = Inr ()"
    using assms by (simp add: validate_section_def and_then_eq_Inr split: if_split_asm)
  obtain m where m: "pe_align_up (max (virtual_size raw) (size_of_raw_data raw)) (section_alignment opt) ''section load size'' = Inr m"
    and s: "s = raw\<lparr>mapped_size := m\<rparr>"
    and c: "m \<noteq> 0 \<Longrightarrow> hm \<le> virtual_address raw" 
      "m \<noteq> 0 \<Longrightarrow> sec_characteristics raw AND IMAGE_SCN_MEM_WRITE = 0 \<or> sec_characteristics raw AND IMAGE_SCN_MEM_EXECUTE = 0"
    using assms by (simp add: validate_section_def Let_def and_then_eq_Inr not_less split: if_split_asm) blast+
  show "s = raw\<lparr>mapped_size := mapped_size s\<rparr>" using s by simp
  show "pe_align_up (max (virtual_size raw) (size_of_raw_data raw)) (section_alignment opt) ''section load size'' =
       Inr (mapped_size s)" using m s by simp
  show "mapped_size s \<noteq> 0 \<Longrightarrow> hm \<le> virtual_address s" using c s by simp
  show "mapped_size s \<noteq> 0 \<Longrightarrow> sec_characteristics s AND IMAGE_SCN_MEM_WRITE = 0 \<or>
         sec_characteristics s AND IMAGE_SCN_MEM_EXECUTE = 0" using c s by simp
qed

lemma validate_section_sound:
  assumes v: "validate_section len i raw opt hm = Inr s" and al: "is_power_of_two (section_alignment opt)"
    and e: "checked_add (virtual_address s) (mapped_size s) = Some e" "e \<le> size_of_image opt"
  shows "section_sound len opt (unat hm) s"
proof -
  note f = validate_section_fields [OF v]
  have s: "virtual_address s = virtual_address raw" "virtual_size s = virtual_size raw"
    "size_of_raw_data s = size_of_raw_data raw" "pointer_to_raw_data s = pointer_to_raw_data raw"
    by (subst f(1), simp)+
  note m = pe_align_up_spec [OF al f(2)]
  have "unat (virtual_size s) \<le> unat (mapped_size s)" "unat (size_of_raw_data s) \<le> unat (mapped_size s)"
    using m(2) s by (auto simp: max_def word_le_nat_alt split: if_split_asm)
  moreover have "unat (section_alignment opt) dvd unat (virtual_address s)"
    using f(3) s and_pow2_eq_0 [OF al] by simp
  moreover have "unat (virtual_address s) + unat (mapped_size s) \<le> unat (size_of_image opt)"
    using e unat_checked_add [OF e(1)] by (simp add: word_le_nat_alt)
  ultimately show ?thesis
    using m(1) f(5,6) validate_raw_dataD [OF f(4)] s
    by (auto simp: section_sound_def word_le_nat_alt)
qed

lemma parse_sections_spec:
  assumes "parse_sections r t opt hm req idxs = Inr (ss, req')"
  shows "length ss = length idxs" "unat req' = Max (insert (unat req) (sec_end ` set ss))"
    "\<forall>s\<in>set ss. \<exists>i raw e. validate_section (length (reader_bytes r)) i raw opt hm = Inr s \<and>
       checked_add (virtual_address s) (mapped_size s) = Some e"
  using assms
proof (induction idxs arbitrary: req ss)
  case Nil
  { case 1 then show ?case by simp }
  { case 2 then show ?case by simp }
  { case 3 then show ?case by simp }
next
  case (Cons i idxs)
  have step: "\<exists>raw s e ss'. ss = s # ss' \<and> validate_section (length (reader_bytes r)) i raw opt hm = Inr s \<and>
      checked_add (virtual_address s) (mapped_size s) = Some e \<and>
      parse_sections r t opt hm (max req e) idxs = Inr (ss', req')"
    if "parse_sections r t opt hm req (i # idxs) = Inr (ss, req')" for req ss
    using that by (auto simp: and_then_eq_Inr)
  { case 1 then show ?case using step [OF 1] Cons.IH(1) by auto }
  { case 2
    from step [OF 2] obtain s e ss' where *: "ss = s # ss'"
      "checked_add (virtual_address s) (mapped_size s) = Some e"
      "parse_sections r t opt hm (max req e) idxs = Inr (ss', req')" by blast
    have "unat req' = Max (insert (unat (max req e)) (sec_end ` set ss'))" by (rule Cons.IH(2) [OF *(3)])
    moreover have "unat (max req e) = max (unat req) (sec_end s)"
      using unat_checked_add [OF *(2)] by (auto simp: sec_end_def max_def word_le_nat_alt)
    ultimately show ?case using *(1) by (cases "ss' = []") (simp_all add: max.assoc) }
  { case 3
    from step [OF 3] obtain raw s e ss' where *: "ss = s # ss'"
      "validate_section (length (reader_bytes r)) i raw opt hm = Inr s"
      "checked_add (virtual_address s) (mapped_size s) = Some e"
      "parse_sections r t opt hm (max req e) idxs = Inr (ss', req')" by blast
    then show ?case using Cons.IH(3) [OF *(4)] by auto }
qed

lemma ranges_overlap_disjoint:
  assumes "\<not> ranges_overlap a n b m"
  shows "{unat a..<unat a + unat n} \<inter> {unat b..<unat b + unat m} = {}"
proof (cases "n = 0 \<or> m = 0")
  case False
  then obtain e f where "checked_add a n = Some e" "checked_add b m = Some f"
    "\<not> (a < f \<and> b < e)"
    using assms by (auto simp: ranges_overlap_def split: option.split_asm)
  then show ?thesis
    using unat_checked_add [of a n e] unat_checked_add [of b m f] by (auto simp: word_less_nat_alt)
qed auto

lemma validate_section_overlaps_sound:
  assumes "validate_section_overlaps ss = Inr ()" "i < j" "j < length ss"
  shows "sec_virtual (ss ! i) \<inter> sec_virtual (ss ! j) = {} \<and> sec_raw (ss ! i) \<inter> sec_raw (ss ! j) = {}"
proof -
  have "i \<in> set [0..<length ss]" "j \<in> set [i + 1..<length ss]" using assms(2,3) by auto
  then have "\<not> ranges_overlap (virtual_address (ss ! i)) (mapped_size (ss ! i)) (virtual_address (ss ! j)) (mapped_size (ss ! j)) \<and>
    \<not> ranges_overlap (pointer_to_raw_data (ss ! i)) (size_of_raw_data (ss ! i))
        (pointer_to_raw_data (ss ! j)) (size_of_raw_data (ss ! j))"
    using assms(1) unfolding validate_section_overlaps_def all_result_Inr
    by (fastforce simp: Let_def split: if_split_asm)
  then show ?thesis unfolding sec_virtual_def sec_raw_def using ranges_overlap_disjoint by blast
qed

lemma validate_entry_point_sound:
  assumes "validate_entry_point opt ss = Inr ()"
  shows "address_of_entry_point opt = 0 \<or>
    (\<exists>s\<in>set ss. unat (address_of_entry_point opt) \<in> sec_virtual s \<and>
       sec_characteristics s AND IMAGE_SCN_MEM_EXECUTE \<noteq> 0)"
proof (cases "address_of_entry_point opt = 0")
  case False
  then obtain s where "s \<in> set ss" and e: "entry_in_section (address_of_entry_point opt) s"
    using assms by (auto simp: validate_entry_point_def Let_def list_ex_iff split: if_split_asm)
  then obtain e' where "checked_add (virtual_address s) (mapped_size s) = Some e'"
    "virtual_address s \<le> address_of_entry_point opt" "address_of_entry_point opt < e'"
    "sec_characteristics s AND IMAGE_SCN_MEM_EXECUTE \<noteq> 0"
    by (auto simp: entry_in_section_def split: option.split_asm)
  then have "unat (address_of_entry_point opt) \<in> sec_virtual s"
    using unat_checked_add [of "virtual_address s" "mapped_size s" e']
    by (auto simp: sec_virtual_def word_le_nat_alt word_less_nat_alt)
  then show ?thesis using \<open>s \<in> set ss\<close> \<open>sec_characteristics s AND IMAGE_SCN_MEM_EXECUTE \<noteq> 0\<close> by blast
qed simp

lemma validate_directories_sound:
  assumes "PeImage_validate_directories img = Inr ()" "i < length (pe_directories img)"
  shows "directory_sound img i (pe_directories img ! i)"
proof -
  have "(i, pe_directories img ! i) \<in> set (enumerate 0 (pe_directories img))"
    using assms(2) by (auto simp: in_set_enumerate_eq)
  then have "validate_directory img (i, pe_directories img ! i) = Inr ()"
    using assms(1) by (auto simp: PeImage_validate_directories_def all_result_Inr)
  then show ?thesis
    by (auto simp: validate_directory_def directory_sound_def and_then_eq_Inr not_less unat_checked_add
        split: if_split_asm)
qed

lemma parse_coff_sections:
  assumes "parse_coff reader = Inr (dos', coff', off)"
  shows "0 < unat (number_of_sections coff')" "unat (number_of_sections coff') \<le> 96"
  using assms
  by (auto simp: parse_coff_def and_then_eq_Inr not_less MAX_SECTIONS_def unat_gt_0 split: if_split_asm)

lemma parse_tablesD:
  assumes "parse_tables reader coff' off = Inr (opt, table)"
  shows "validate_optional_header opt = Inr ()" "unat (number_of_rva_and_sizes opt) \<le> 16"
    "unat (size_of_headers opt) \<le> length (reader_bytes reader)"
  using assms
  by (auto simp: parse_tables_def and_then_eq_Inr not_less MAX_DATA_DIRECTORIES_def word_le_nat_alt
      Reader_bytes_Inr split: if_split_asm)

lemma PeImage_parseD:
  assumes "PeImage_parse bytes = Inr img"
  obtains off table hm req where
    "parse_coff (Reader bytes) = Inr (dos (pe_headers img), coff (pe_headers img), off)"
    "parse_tables (Reader bytes) (coff (pe_headers img)) off = Inr (optional (pe_headers img), table)"
    "parse_directories (Reader bytes) off (unat (number_of_rva_and_sizes (optional (pe_headers img)))) =
       Inr (pe_directories img)"
    "pe_align_up (size_of_headers (optional (pe_headers img))) (section_alignment (optional (pe_headers img)))
       ''mapped header size'' = Inr hm"
    "parse_sections (Reader bytes) table (optional (pe_headers img)) hm hm
       [0..<unat (number_of_sections (coff (pe_headers img)))] =
       Inr (pe_sections img, size_of_image (optional (pe_headers img)))"
    "validate_section_overlaps (pe_sections img) = Inr ()"
    "validate_entry_point (optional (pe_headers img)) (pe_sections img) = Inr ()"
    "PeImage_validate_directories img = Inr ()" "pe_bytes img = bytes"
  using assms by (auto simp: PeImage_parse_def Let_def and_then_eq_Inr split: if_split_asm)

lemma parse_image_sound:
  assumes "PeImage_parse bytes = Inr img"
  shows "pe_bytes img = bytes \<and> image_sound img"
proof -
  let ?opt = "optional (pe_headers img)" and ?ss = "pe_sections img"
  obtain off table hm where
    p: "parse_coff (Reader bytes) = Inr (dos (pe_headers img), coff (pe_headers img), off)"
      "parse_tables (Reader bytes) (coff (pe_headers img)) off = Inr (?opt, table)"
      "parse_directories (Reader bytes) off (unat (number_of_rva_and_sizes ?opt)) = Inr (pe_directories img)"
      "pe_align_up (size_of_headers ?opt) (section_alignment ?opt) ''mapped header size'' = Inr hm"
      "parse_sections (Reader bytes) table ?opt hm hm [0..<unat (number_of_sections (coff (pe_headers img)))] =
         Inr (?ss, size_of_image ?opt)"
      "validate_section_overlaps ?ss = Inr ()" "validate_entry_point ?opt ?ss = Inr ()"
      "PeImage_validate_directories img = Inr ()" "pe_bytes img = bytes"
    using assms by (rule PeImage_parseD)
  note t = parse_tablesD [OF p(2)] and secs = parse_sections_spec [OF p(5)]
  note v = validate_optional_headerD [OF t(1)] and hm = pe_align_up_spec [OF validate_optional_headerD(1) [OF t(1)] p(4)]
  have sound: "section_sound (length bytes) ?opt (unat hm) s" if s: "s \<in> set ?ss" for s
  proof -
    obtain i raw e where r: "validate_section (length bytes) i raw ?opt hm = Inr s"
      "checked_add (virtual_address s) (mapped_size s) = Some e" using secs(3) s by auto
    have "sec_end s \<le> unat (size_of_image ?opt)" unfolding secs(2) using s by (intro Max_ge) auto
    then have "e \<le> size_of_image ?opt" using unat_checked_add [OF r(2)] by (simp add: sec_end_def word_le_nat_alt)
    then show ?thesis by (rule validate_section_sound [OF r(1) v(1) r(2)])
  qed
  have "length (pe_directories img) \<le> 16"
    using p(3) t(2) by (auto simp: parse_directories_def map_result_Inr dest!: list_all2_lengthD)
  moreover have "?ss \<noteq> []" "length ?ss \<le> 96" using secs(1) parse_coff_sections [OF p(1)] by auto
  ultimately have "image_sound img"
    unfolding image_sound_def Let_def
    using hm t(3) image_base_range [OF t(1)] sound validate_section_overlaps_sound [OF p(6)]
      validate_entry_point_sound [OF p(7)] secs(2) validate_directories_sound [OF p(8)] p(9)
    by (intro exI [of _ "unat hm"]) auto
  then show ?thesis using p(9) by simp
qed

subsection \<open>A small image\<close>

text \<open>
  A complete image of 1536 bytes with a code and a data section, an import directory with one function
  of \<open>kernel32.dll\<close>, and a relocation directory with one patch. The definition lists the
  bytes that are not zero.
\<close>

definition sample_byte :: "nat \<Rightarrow> u8" where
  "sample_byte i = (
    if i = 0 then 77 else if i = 1 then 90 else if i = 60 then 64 else if i = 64 then 80 else
    if i = 65 then 69 else if i = 68 then 100 else if i = 69 then 134 else if i = 70 then 2 else
    if i = 84 then 160 else if i = 86 then 34 else if i = 88 then 11 else if i = 89 then 2 else
    if i = 105 then 16 else if i = 114 then 1 else if i = 121 then 16 else if i = 125 then 2 else
    if i = 145 then 48 else if i = 149 then 2 else if i = 156 then 3 else if i = 161 then 32 else
    if i = 169 then 16 else if i = 177 then 32 else if i = 185 then 16 else if i = 196 then 6 else
    if i = 209 then 32 else if i = 212 then 40 else if i = 240 then 96 else if i = 241 then 32 else
    if i = 244 then 12 else if i = 248 then 46 else if i = 249 then 116 else if i = 250 then 101 else
    if i = 251 then 120 else if i = 252 then 116 else if i = 256 then 16 else if i = 261 then 16 else
    if i = 265 then 2 else if i = 269 then 2 else if i = 287 then 96 else if i = 288 then 46 else
    if i = 289 then 100 else if i = 290 then 97 else if i = 291 then 116 else if i = 292 then 97 else
    if i = 297 then 3 else if i = 301 then 32 else if i = 305 then 2 else if i = 309 then 4 else
    if i = 327 then 192 else if i = 512 then 195 else if i = 1036 then 64 else if i = 1037 then 32 else
    if i = 1040 then 40 else if i = 1041 then 32 else if i = 1064 then 80 else if i = 1065 then 32 else
    if i = 1081 then 16 else if i = 1082 then 1 else if i = 1088 then 107 else
    if i = 1089 then 101 else if i = 1090 then 114 else if i = 1091 then 110 else
    if i = 1092 then 101 else if i = 1093 then 108 else if i = 1094 then 51 else
    if i = 1095 then 50 else if i = 1096 then 46 else if i = 1097 then 100 else
    if i = 1098 then 108 else if i = 1099 then 108 else if i = 1106 then 69 else
    if i = 1107 then 120 else if i = 1108 then 105 else if i = 1109 then 116 else
    if i = 1110 then 80 else if i = 1111 then 114 else if i = 1112 then 111 else
    if i = 1113 then 99 else if i = 1114 then 101 else if i = 1115 then 115 else
    if i = 1116 then 115 else if i = 1121 then 32 else if i = 1124 then 12 else
    if i = 1128 then 56 else if i = 1129 then 160 else 0)"

definition sample_pe :: "u8 list" where
  "sample_pe = map sample_byte [0..<1536]"

lemma take_drop_sample:
  "off + n \<le> 1536 \<Longrightarrow> take n (drop off sample_pe) = map sample_byte [off..<off + n]"
  by (rule nth_equalityI) (auto simp: sample_pe_def)

lemma sample_reads:
  "off + 1 \<le> 1536 \<Longrightarrow> Reader_u8 (Reader sample_pe) off = Inr (sample_byte off)"
  "off + 2 \<le> 1536 \<Longrightarrow> Reader_u16 (Reader sample_pe) off = Inr (from_le_bytes [sample_byte off, sample_byte (off + 1)])"
  "off + 4 \<le> 1536 \<Longrightarrow> Reader_u32 (Reader sample_pe) off =
     Inr (from_le_bytes [sample_byte off, sample_byte (off + 1), sample_byte (off + 2), sample_byte (off + 3)])"
  "off + 8 \<le> 1536 \<Longrightarrow> Reader_u64 (Reader sample_pe) off =
     Inr (from_le_bytes [sample_byte off, sample_byte (off + 1), sample_byte (off + 2), sample_byte (off + 3),
        sample_byte (off + 4), sample_byte (off + 5), sample_byte (off + 6), sample_byte (off + 7)])"
  "off + n \<le> 1536 \<Longrightarrow> Reader_bytes (Reader sample_pe) off n = Inr (map sample_byte [off..<off + n])"
  by (simp_all add: Reader_u8_def Reader_u16_def Reader_u32_def Reader_u64_def Reader_bytes_def sample_pe_def
      take_drop_sample [unfolded sample_pe_def])

lemmas sample_eval = sample_byte_def from_le_bytes_def

lemma sample_coff:
  "parse_coff (Reader sample_pe) =
     Inr (\<lparr>pe_offset = 64\<rparr>,
          \<lparr>machine = 0x8664, number_of_sections = 2, time_date_stamp = 0, pointer_to_symbol_table = 0,
           number_of_symbols = 0, size_of_optional_header = 160, coff_characteristics = 0x22\<rparr>, 88)"
  by (simp add: parse_coff_def parse_coff_header_def sample_reads sample_eval pe_checked_add_def
      DOS_HEADER_SIZE_def PE_SIGNATURE_def PE_SIGNATURE_SIZE_def COFF_HEADER_SIZE_def IMAGE_FILE_MACHINE_AMD64_def
      MAX_SECTIONS_def OPTIONAL_HEADER64_FIXED_SIZE_def)

definition sample_optional :: OptionalHeader64 where
  "sample_optional =
     \<lparr>major_linker_version = 0, minor_linker_version = 0, size_of_code = 0, size_of_initialized_data = 0,
      size_of_uninitialized_data = 0, address_of_entry_point = 0x1000, base_of_code = 0, image_base = 0x10000,
      section_alignment = 0x1000, file_alignment = 0x200, major_operating_system_version = 0,
      minor_operating_system_version = 0, major_image_version = 0, minor_image_version = 0,
      major_subsystem_version = 0, minor_subsystem_version = 0, win32_version_value = 0,
      size_of_image = 0x3000, size_of_headers = 0x200, checksum = 0, subsystem = 3, dll_characteristics = 0,
      size_of_stack_reserve = 0x2000, size_of_stack_commit = 0x1000, size_of_heap_reserve = 0x2000,
      size_of_heap_commit = 0x1000, loader_flags = 0, number_of_rva_and_sizes = 6\<rparr>"

lemma sample_parse_optional: "parse_optional_header (Reader sample_pe) 88 = Inr sample_optional"
  by (simp add: parse_optional_header_def sample_reads sample_eval IMAGE_NT_OPTIONAL_HDR64_MAGIC_def
      sample_optional_def)

lemma sample_validate_optional: "validate_optional_header sample_optional = Inr ()"
proof -
  have "is_power_of_two (0x1000 :: u32)" by (auto simp: is_power_of_two_iff intro!: exI [of _ 12])
  moreover have "is_power_of_two (0x200 :: u32)" by (auto simp: is_power_of_two_iff intro!: exI [of _ 9])
  ultimately show ?thesis
    by (simp add: validate_optional_header_def sample_optional_def PE_PAGE_SIZE_def IMAGE_BASE_ALIGNMENT_def
      MIN_FILE_ALIGNMENT_def MAX_FILE_ALIGNMENT_def
      MAX_IMAGE_SIZE_def checked_add_def)
qed

lemma sample_tables:
  "parse_tables (Reader sample_pe)
     \<lparr>machine = 0x8664, number_of_sections = 2, time_date_stamp = 0, pointer_to_symbol_table = 0,
      number_of_symbols = 0, size_of_optional_header = 160, coff_characteristics = 0x22\<rparr> 88 =
   Inr (sample_optional, 248)"
  by (simp add: parse_tables_def sample_reads(5) sample_parse_optional sample_validate_optional)
     (simp add: sample_optional_def sample_reads(5) pe_checked_add_def pe_checked_mul_def MAX_DATA_DIRECTORIES_def DATA_DIRECTORY_SIZE_def
      OPTIONAL_HEADER64_FIXED_SIZE_def SECTION_HEADER_SIZE_def)

lemma sample_directories:
  "parse_directories (Reader sample_pe) 88 6 =
     Inr [\<lparr>dir_address = 0, dir_size = 0\<rparr>, \<lparr>dir_address = 0x2000, dir_size = 40\<rparr>, \<lparr>dir_address = 0, dir_size = 0\<rparr>,
          \<lparr>dir_address = 0, dir_size = 0\<rparr>, \<lparr>dir_address = 0, dir_size = 0\<rparr>, \<lparr>dir_address = 0x2060, dir_size = 12\<rparr>]"
  by (simp add: parse_directories_def upt_rec sample_reads sample_eval pe_checked_add_def
      DATA_DIRECTORY_SIZE_def OPTIONAL_HEADER64_FIXED_SIZE_def)

definition sample_text :: SectionHeader where
  "sample_text =
     \<lparr>sec_name = [46, 116, 101, 120, 116, 0, 0, 0], virtual_size = 16, virtual_address = 0x1000, size_of_raw_data = 0x200,
      pointer_to_raw_data = 0x200, pointer_to_relocations = 0, pointer_to_line_numbers = 0, number_of_relocations = 0,
      number_of_line_numbers = 0, sec_characteristics = 0x60000000, mapped_size = 0x1000\<rparr>"

definition sample_data :: SectionHeader where
  "sample_data =
     \<lparr>sec_name = [46, 100, 97, 116, 97, 0, 0, 0], virtual_size = 0x300, virtual_address = 0x2000, size_of_raw_data = 0x200,
      pointer_to_raw_data = 0x400, pointer_to_relocations = 0, pointer_to_line_numbers = 0, number_of_relocations = 0,
      number_of_line_numbers = 0, sec_characteristics = 0xC0000000, mapped_size = 0x1000\<rparr>"

lemma sample_section_headers:
  "parse_section_header (Reader sample_pe) 248 = Inr (sample_text\<lparr>mapped_size := 0\<rparr>)"
  "parse_section_header (Reader sample_pe) 288 = Inr (sample_data\<lparr>mapped_size := 0\<rparr>)"
  by (simp_all add: parse_section_header_def upt_rec sample_reads sample_eval sample_text_def sample_data_def)

lemma sample_validate_sections:
  "validate_section 1536 0 (sample_text\<lparr>mapped_size := 0\<rparr>) sample_optional 0x1000 = Inr sample_text"
  "validate_section 1536 1 (sample_data\<lparr>mapped_size := 0\<rparr>) sample_optional 0x1000 = Inr sample_data"
  by (simp_all add: validate_section_def validate_raw_data_def Let_def sample_text_def sample_data_def sample_optional_def
     pe_align_up_def checked_add_def PE_PAGE_SIZE_def IMAGE_SCN_MEM_WRITE_def IMAGE_SCN_MEM_EXECUTE_def)

definition sample_image :: PeImage where
  "sample_image =
     \<lparr>pe_bytes = sample_pe,
      pe_headers =
        \<lparr>dos = \<lparr>pe_offset = 64\<rparr>,
         coff = \<lparr>machine = 0x8664, number_of_sections = 2, time_date_stamp = 0, pointer_to_symbol_table = 0,
                 number_of_symbols = 0, size_of_optional_header = 160, coff_characteristics = 0x22\<rparr>,
         optional = sample_optional\<rparr>,
      pe_directories =
        [\<lparr>dir_address = 0, dir_size = 0\<rparr>, \<lparr>dir_address = 0x2000, dir_size = 40\<rparr>, \<lparr>dir_address = 0, dir_size = 0\<rparr>,
         \<lparr>dir_address = 0, dir_size = 0\<rparr>, \<lparr>dir_address = 0, dir_size = 0\<rparr>, \<lparr>dir_address = 0x2060, dir_size = 12\<rparr>],
      pe_sections = [sample_text, sample_data]\<rparr>"

lemma sample_length: "length sample_pe = 1536"
  by (simp add: sample_pe_def)

lemma sample_parse_sections:
  "parse_sections (Reader sample_pe) 248 sample_optional 0x1000 0x1000 [0..<2] = Inr ([sample_text, sample_data], 0x3000)"
proof -
  have "[0..<2] = [0, 1 :: nat]" by (simp add: upt_rec)
  then show ?thesis
    using sample_validate_sections
    by (simp add: pe_checked_add_def SECTION_HEADER_SIZE_def sample_section_headers sample_length)
       (simp add: sample_text_def sample_data_def checked_add_def max_def)
qed

lemma sample_overlaps: "validate_section_overlaps [sample_text, sample_data] = Inr ()"
  by (simp add: validate_section_overlaps_def upt_rec ranges_overlap_def sample_text_def sample_data_def checked_add_def)

lemma sample_entry: "validate_entry_point sample_optional [sample_text, sample_data] = Inr ()"
  by (simp add: validate_entry_point_def entry_in_section_def sample_optional_def sample_text_def checked_add_def
      IMAGE_SCN_MEM_EXECUTE_def)

lemma sample_validate_directories: "PeImage_validate_directories sample_image = Inr ()"
  by (simp add: PeImage_validate_directories_def sample_image_def enumerate_eq_zip validate_directory_def
      DataDirectory_is_empty_def IMAGE_DIRECTORY_ENTRY_SECURITY_def PeImage_rva_to_file_range_def Let_def
      sample_text_def sample_data_def sample_optional_def sample_length checked_add_def upt_rec)

lemma sample_pe_parses: "PeImage_parse sample_pe = Inr sample_image"
proof -
  have opt: "unat (number_of_rva_and_sizes sample_optional) = 6" "size_of_image sample_optional = 0x3000"
    "pe_align_up (size_of_headers sample_optional) (section_alignment sample_optional) ''mapped header size'' = Inr 0x1000"
    by (simp_all add: sample_optional_def pe_align_up_def checked_add_def)
  show ?thesis
    unfolding PeImage_parse_def
    using sample_validate_directories [unfolded sample_image_def]
    by (simp add: sample_coff sample_tables opt sample_directories sample_parse_sections sample_overlaps sample_entry)
       (simp add: sample_image_def)
qed

text \<open>C14. Every image that the PE parser accepts is safe to load: the sections and the headers
  occupy disjoint, aligned ranges inside the image, no mapped section is both writable and executable,
  raw data and the certificate table are inside the file and disjoint, the entry point is absent or in
  an executable section, the image size is exactly the end of the last section and bounded, and every
  other directory is backed by file bytes.\<close>

theorem parse_sound:
  assumes "PeImage_parse bytes = Inr img"
  shows "pe_bytes img = bytes \<and> image_sound img"
  using assms by (rule parse_image_sound)

theorem parse_sound_witness: "PeImage_parse sample_pe = Inr sample_image \<and> image_sound sample_image"
  using parse_sound [OF sample_pe_parses] sample_pe_parses by blast

end
