(* ===== verification/Pe_Plan.thy ===== *)
theory Pe_Plan
  imports Pe_Image
begin

text \<open>
  The load plan (\<open>crates/xenith-pe/src/plan.rs\<close>) and the directory policy (\<open>policy.rs\<close>) derived from a
  parsed image, and the reference against which address translation and loading are stated:
  \<open>image_byte\<close> is the byte that the loaded image has at a relative virtual address.
\<close>

subsection \<open>Load plan\<close>

record LoadPermissions =
  perm_read :: bool
  perm_write :: bool
  perm_execute :: bool

definition LoadPermissions_from_characteristics :: "u32 \<Rightarrow> LoadPermissions" where
  "LoadPermissions_from_characteristics chars =
     \<lparr>perm_read = (chars AND IMAGE_SCN_MEM_READ \<noteq> 0),
      perm_write = (chars AND IMAGE_SCN_MEM_WRITE \<noteq> 0),
      perm_execute = (chars AND IMAGE_SCN_MEM_EXECUTE \<noteq> 0)\<rparr>"

record HeaderLoad =
  hl_file :: FileRange
  hl_virtual_range :: RvaRange

record SectionLoad =
  sl_index :: nat
  sl_name :: "u8 list"
  sl_virtual_range :: RvaRange
  sl_file :: "FileRange option"
  sl_permissions :: LoadPermissions
  sl_characteristics :: u32

record LoaderPlan =
  plan_image_base :: u64
  plan_size_of_image :: u32
  plan_entry_rva :: u32
  plan_headers :: HeaderLoad
  plan_sections :: "SectionLoad list"

definition section_load :: "nat \<times> SectionHeader \<Rightarrow> SectionLoad" where
  "section_load = (\<lambda>(index, section').
     \<lparr>sl_index = index, sl_name = sec_name section',
      sl_virtual_range = SectionHeader_virtual_range section',
      sl_file = SectionHeader_file_range section',
      sl_permissions = LoadPermissions_from_characteristics (sec_characteristics section'),
      sl_characteristics = sec_characteristics section'\<rparr>)"

definition LoaderPlan_from_image :: "PeImage \<Rightarrow> PeError + LoaderPlan" where
  "LoaderPlan_from_image img =
     (let opt = optional (pe_headers img) in
      and_then (pe_align_up (size_of_headers opt) (section_alignment opt) ''mapped headers'') (\<lambda>header_mapped_size.
        Inr \<lparr>plan_image_base = image_base opt,
             plan_size_of_image = size_of_image opt,
             plan_entry_rva = address_of_entry_point opt,
             plan_headers =
               \<lparr>hl_file = \<lparr>file_offset = 0, file_size = size_of_headers opt\<rparr>,
                hl_virtual_range = \<lparr>range_rva = 0, range_size = header_mapped_size\<rparr>\<rparr>,
             plan_sections = map section_load (enumerate 0 (pe_sections img))\<rparr>))"

definition LoaderPlan_preferred_entry :: "LoaderPlan \<Rightarrow> u64 option" where
  "LoaderPlan_preferred_entry self =
     (if plan_entry_rva self = 0 then None
      else checked_add (plan_image_base self) (ucast (plan_entry_rva self)))"

subsection \<open>Directory policy\<close>

datatype DirectorySupport = Absent | Supported | Unsupported

record LoaderFormatPolicy =
  regular_imports :: DirectorySupport
  base_relocations :: DirectorySupport
  tls :: DirectorySupport
  delay_imports :: DirectorySupport

definition has_directory :: "PeImage \<Rightarrow> nat \<Rightarrow> bool" where
  "has_directory img index =
     (case PeImage_directory img index of None \<Rightarrow> False | Some d \<Rightarrow> \<not> DataDirectory_is_empty d)"

definition supported_when_present :: "PeImage \<Rightarrow> nat \<Rightarrow> DirectorySupport" where
  "supported_when_present img index = (if has_directory img index then Supported else Absent)"

definition unsupported_when_present :: "PeImage \<Rightarrow> nat \<Rightarrow> DirectorySupport" where
  "unsupported_when_present img index = (if has_directory img index then Unsupported else Absent)"

definition PeImage_loader_format_policy :: "PeImage \<Rightarrow> LoaderFormatPolicy" where
  "PeImage_loader_format_policy self =
     \<lparr>regular_imports = supported_when_present self IMAGE_DIRECTORY_ENTRY_IMPORT,
      base_relocations = supported_when_present self IMAGE_DIRECTORY_ENTRY_BASERELOC,
      tls = unsupported_when_present self IMAGE_DIRECTORY_ENTRY_TLS,
      delay_imports = unsupported_when_present self IMAGE_DIRECTORY_ENTRY_DELAY_IMPORT\<rparr>"

definition PeImage_require_initial_loader_policy :: "PeImage \<Rightarrow> PeError + LoaderFormatPolicy" where
  "PeImage_require_initial_loader_policy self =
     (let policy = PeImage_loader_format_policy self in
      case (if tls policy = Unsupported then PeImage_directory self IMAGE_DIRECTORY_ENTRY_TLS else None) of
        Some d \<Rightarrow> Inl (UnsupportedTlsDirectory (dir_address d) (dir_size d))
      | None \<Rightarrow>
          (case (if delay_imports policy = Unsupported
                 then PeImage_directory self IMAGE_DIRECTORY_ENTRY_DELAY_IMPORT else None) of
             Some d \<Rightarrow> Inl (UnsupportedDelayImportDirectory (dir_address d) (dir_size d))
           | None \<Rightarrow> Inr policy))"

lemma initial_loader_policy_iff:
  "is_ok (PeImage_require_initial_loader_policy img) \<longleftrightarrow>
     \<not> has_directory img IMAGE_DIRECTORY_ENTRY_TLS \<and> \<not> has_directory img IMAGE_DIRECTORY_ENTRY_DELAY_IMPORT"
  by (auto simp: PeImage_require_initial_loader_policy_def PeImage_loader_format_policy_def Let_def
      unsupported_when_present_def has_directory_def split: option.splits)

subsection \<open>The loaded image\<close>

text \<open>
  The bytes of a section that come from the file, by their addresses in the image, and the byte that a
  loaded image has at an address: of the headers, of the raw data of a section, or zero.
\<close>

definition sec_file_backed :: "SectionHeader \<Rightarrow> nat set" where
  "sec_file_backed s = {unat (virtual_address s)..<unat (virtual_address s) + unat (size_of_raw_data s)}"

definition image_byte :: "PeImage \<Rightarrow> nat \<Rightarrow> u8" where
  "image_byte img a =
     (if a < unat (size_of_headers (optional (pe_headers img))) then pe_bytes img ! a
      else case List.find (\<lambda>s. a \<in> sec_file_backed s) (pe_sections img) of
        Some s \<Rightarrow> pe_bytes img ! (unat (pointer_to_raw_data s) + (a - unat (virtual_address s)))
      | None \<Rightarrow> 0)"

lemma image_soundD:
  assumes "image_sound img"
  shows "unat (size_of_headers (optional (pe_headers img))) \<le> length (pe_bytes img)"
    "s \<in> set (pe_sections img) \<Longrightarrow> sec_end s \<le> unat (size_of_image (optional (pe_headers img)))"
    "s \<in> set (pe_sections img) \<Longrightarrow> unat (size_of_raw_data s) \<le> unat (mapped_size s)"
    "s \<in> set (pe_sections img) \<Longrightarrow> mapped_size s \<noteq> 0 \<Longrightarrow>
       unat (size_of_headers (optional (pe_headers img))) \<le> unat (virtual_address s)"
    "s \<in> set (pe_sections img) \<Longrightarrow> size_of_raw_data s \<noteq> 0 \<Longrightarrow>
       unat (pointer_to_raw_data s) + unat (size_of_raw_data s) \<le> length (pe_bytes img)"
    "s \<in> set (pe_sections img) \<Longrightarrow> size_of_raw_data s \<noteq> 0 \<Longrightarrow>
       unat (pointer_to_raw_data s) + unat (size_of_raw_data s) < 2 ^ 32"
    "unat (size_of_headers (optional (pe_headers img))) \<le> unat (size_of_image (optional (pe_headers img)))"
proof -
  let ?opt = "optional (pe_headers img)"
  obtain h where h: "unat (size_of_headers ?opt) \<le> h" "unat (size_of_headers ?opt) \<le> length (pe_bytes img)"
      "\<forall>s\<in>set (pe_sections img). section_sound (length (pe_bytes img)) ?opt h s"
      "unat (size_of_image ?opt) = Max (insert h (sec_end ` set (pe_sections img)))"
    using assms unfolding image_sound_def Let_def by blast
  show "unat (size_of_headers ?opt) \<le> length (pe_bytes img)" by (rule h(2))
  have "h \<le> unat (size_of_image ?opt)" unfolding h(4) by (rule Max_ge) auto
  then show "unat (size_of_headers ?opt) \<le> unat (size_of_image ?opt)" using h(1) by linarith
  assume "s \<in> set (pe_sections img)"
  then have "section_sound (length (pe_bytes img)) ?opt h s" using h(3) by blast
  then show "sec_end s \<le> unat (size_of_image ?opt)" "unat (size_of_raw_data s) \<le> unat (mapped_size s)"
    "mapped_size s \<noteq> 0 \<Longrightarrow> unat (size_of_headers ?opt) \<le> unat (virtual_address s)"
    "size_of_raw_data s \<noteq> 0 \<Longrightarrow> unat (pointer_to_raw_data s) + unat (size_of_raw_data s) \<le> length (pe_bytes img)"
    "size_of_raw_data s \<noteq> 0 \<Longrightarrow> unat (pointer_to_raw_data s) + unat (size_of_raw_data s) < 2 ^ 32"
    using h(1) by (auto simp: section_sound_def sec_end_def)
qed

lemma sections_disjoint:
  assumes "image_sound img" "i < length (pe_sections img)" "j < length (pe_sections img)" "i \<noteq> j"
  shows "sec_virtual (pe_sections img ! i) \<inter> sec_virtual (pe_sections img ! j) = {}"
  using assms unfolding image_sound_def Let_def
  by (cases i j rule: linorder_cases) (blast, simp, blast)

lemma sections_unique:
  assumes "image_sound img" "s \<in> set (pe_sections img)" "t \<in> set (pe_sections img)"
    "a \<in> sec_virtual s" "a \<in> sec_virtual t"
  shows "s = t"
proof -
  obtain i j where ij: "i < length (pe_sections img)" "s = pe_sections img ! i"
    "j < length (pe_sections img)" "t = pe_sections img ! j"
    using assms(2,3) by (metis in_set_conv_nth)
  have "i = j"
  proof (rule ccontr)
    assume "i \<noteq> j"
    from sections_disjoint [OF assms(1) ij(1,3) this] show False using assms(4,5) ij by blast
  qed
  then show ?thesis using ij by simp
qed

lemma file_backed_virtual:
  assumes "image_sound img" "s \<in> set (pe_sections img)" "a \<in> sec_file_backed s"
  shows "a \<in> sec_virtual s" "unat (size_of_headers (optional (pe_headers img))) \<le> a"
    "size_of_raw_data s \<noteq> 0"
proof -
  have a: "unat (virtual_address s) \<le> a" "a < unat (virtual_address s) + unat (size_of_raw_data s)"
    using assms(3) by (auto simp: sec_file_backed_def)
  then show "size_of_raw_data s \<noteq> 0" by auto
  show "a \<in> sec_virtual s" using a image_soundD(3) [OF assms(1,2)] by (auto simp: sec_virtual_def)
  then have "mapped_size s \<noteq> 0" by (auto simp: sec_virtual_def)
  then show "unat (size_of_headers (optional (pe_headers img))) \<le> a"
    using image_soundD(4) [OF assms(1,2)] a(1) by linarith
qed

lemma image_byte_section:
  assumes "image_sound img" "s \<in> set (pe_sections img)" "a \<in> sec_file_backed s"
  shows "image_byte img a = pe_bytes img ! (unat (pointer_to_raw_data s) + (a - unat (virtual_address s)))"
proof -
  obtain t where t: "List.find (\<lambda>s. a \<in> sec_file_backed s) (pe_sections img) = Some t"
    using assms(2,3) by (cases "List.find (\<lambda>s. a \<in> sec_file_backed s) (pe_sections img)")
      (auto simp: find_None_iff)
  then have "t \<in> set (pe_sections img)" "a \<in> sec_file_backed t" by (auto simp: find_Some_iff)
  then have "t = s"
    using sections_unique [OF assms(1)] file_backed_virtual(1) [OF assms(1)] assms(2,3) by blast
  then show ?thesis using t file_backed_virtual(2) [OF assms] by (simp add: image_byte_def)
qed

subsection \<open>Address translation\<close>

text \<open>The arithmetic facts under which the checked additions of the translation loops succeed.\<close>

definition sec_fits :: "SectionHeader \<Rightarrow> bool" where
  "sec_fits s \<longleftrightarrow> sec_end s < 2 ^ 32 \<and> unat (size_of_raw_data s) \<le> unat (mapped_size s) \<and>
     (size_of_raw_data s \<noteq> 0 \<longrightarrow> unat (pointer_to_raw_data s) + unat (size_of_raw_data s) < 2 ^ 32)"

lemma image_sound_fits: "image_sound img \<Longrightarrow> s \<in> set (pe_sections img) \<Longrightarrow> sec_fits s"
  using image_soundD(2,3,6) [of img s] unat_less_exp [of "size_of_image (optional (pe_headers img))"]
  by (auto simp: sec_fits_def)

lemma sec_fits_sums:
  assumes "sec_fits s"
  obtains m r where "checked_add (virtual_address s) (mapped_size s) = Some m" "unat m = sec_end s"
    "checked_add (virtual_address s) (size_of_raw_data s) = Some r"
    "unat r = unat (virtual_address s) + unat (size_of_raw_data s)"
proof -
  have "unat (virtual_address s) + unat (mapped_size s) < 2 ^ LENGTH(32)"
    "unat (virtual_address s) + unat (size_of_raw_data s) < 2 ^ LENGTH(32)"
    using assms by (auto simp: sec_fits_def sec_end_def)
  from this [THEN checked_add_fits] show ?thesis using that by (metis sec_end_def)
qed

lemma sec_fits_offset:
  assumes "sec_fits s" "unat rva \<in> sec_file_backed s"
  shows "checked_add (pointer_to_raw_data s) (rva - virtual_address s) =
      Some (pointer_to_raw_data s + (rva - virtual_address s))"
    "unat (pointer_to_raw_data s + (rva - virtual_address s)) =
      unat (pointer_to_raw_data s) + (unat rva - unat (virtual_address s))"
proof -
  have "unat (rva - virtual_address s) = unat rva - unat (virtual_address s)"
    using assms(2) by (intro unat_sub) (auto simp: sec_file_backed_def word_le_nat_alt)
  moreover have "size_of_raw_data s \<noteq> 0" "unat rva - unat (virtual_address s) < unat (size_of_raw_data s)"
    using assms(2) by (auto simp: sec_file_backed_def)
  ultimately show "checked_add (pointer_to_raw_data s) (rva - virtual_address s) =
      Some (pointer_to_raw_data s + (rva - virtual_address s))"
    "unat (pointer_to_raw_data s + (rva - virtual_address s)) =
      unat (pointer_to_raw_data s) + (unat rva - unat (virtual_address s))"
    using assms(1) by (auto simp: checked_add_def sec_fits_def unat_plus_if')
qed

definition section_answer :: "u32 \<Rightarrow> u32 \<Rightarrow> u32 \<Rightarrow> nat \<times> SectionHeader \<Rightarrow> PeError + FileRange" where
  "section_answer rva n e = (\<lambda>(k, s).
     if unat e \<le> unat (virtual_address s) + unat (size_of_raw_data s)
     then Inr \<lparr>file_offset = pointer_to_raw_data s + (rva - virtual_address s), file_size = n\<rparr>
     else if unat e \<le> sec_end s then Inl (RvaTouchesVirtualZeroFill k rva n)
     else Inl (RvaNotSectionBacked rva n))"

lemma section_scan_find:
  assumes "n \<noteq> 0" "unat rva < unat e" "\<forall>s\<in>set ss. sec_fits s"
  shows "section_scan rva n e i ss =
    (case List.find (\<lambda>(k, s). unat rva \<in> sec_virtual s) (enumerate i ss) of
       None \<Rightarrow> Inl (RvaNotSectionBacked rva n)
     | Some ks \<Rightarrow> section_answer rva n e ks)"
  using assms(3)
proof (induction ss arbitrary: i)
  case (Cons s ss)
  have fits: "sec_fits s" using Cons.prems by simp
  obtain m r where mr: "checked_add (virtual_address s) (mapped_size s) = Some m" "unat m = sec_end s"
    "checked_add (virtual_address s) (size_of_raw_data s) = Some r"
    "unat r = unat (virtual_address s) + unat (size_of_raw_data s)"
    using fits by (rule sec_fits_sums)
  have starts: "virtual_address s \<le> rva \<and> rva < m \<longleftrightarrow> unat rva \<in> sec_virtual s"
    using mr(2) by (auto simp: sec_virtual_def sec_end_def word_le_nat_alt word_less_nat_alt)
  show ?case
  proof (cases "unat rva \<in> sec_virtual s")
    case False
    then show ?thesis using Cons mr(1) starts assms(1) by (auto simp: Let_def)
  next
    case True
    have "unat rva \<in> sec_file_backed s" if "unat e \<le> unat r"
      using True that assms(2) mr(4) by (auto simp: sec_virtual_def sec_file_backed_def)
    then show ?thesis
      using True mr starts assms(1) sec_fits_offset(1) [OF fits, of rva]
      by (auto simp: Let_def section_answer_def word_le_nat_alt)
  qed
qed simp

lemma find_section:
  assumes "image_sound img" "k < length (pe_sections img)" "a \<in> sec_virtual (pe_sections img ! k)"
  shows "List.find (\<lambda>(k, s). a \<in> sec_virtual s) (enumerate 0 (pe_sections img)) = Some (k, pe_sections img ! k)"
proof -
  have "a \<notin> sec_virtual (pe_sections img ! j)" if "j < k" for j
    using sections_disjoint [OF assms(1), of j k] that assms(2,3) by auto
  then show ?thesis
    unfolding find_Some_iff using assms by (intro exI [of _ k]) (auto simp: nth_enumerate_eq)
qed

lemma range_subset:
  "0 < n \<Longrightarrow> {a..<a + n} \<subseteq> {b..<c :: nat} \<longleftrightarrow> b \<le> a \<and> a + n \<le> c"
  by (auto dest: atLeastLessThan_subset_iff)

lemma range_backed:
  "0 < n \<Longrightarrow> {a..<a + n} \<subseteq> sec_file_backed s \<longleftrightarrow>
     unat (virtual_address s) \<le> a \<and> a + n \<le> unat (virtual_address s) + unat (size_of_raw_data s)"
  "0 < n \<Longrightarrow> {a..<a + n} \<subseteq> sec_virtual s \<longleftrightarrow> unat (virtual_address s) \<le> a \<and> a + n \<le> sec_end s"
  unfolding sec_file_backed_def sec_virtual_def sec_end_def by (rule range_subset, assumption)+

lemma section_file_range_find:
  assumes snd: "image_sound img" and n: "n \<noteq> 0"
  shows "PeImage_section_file_range img rva n =
    (if unat (size_of_image (optional (pe_headers img))) < unat rva + unat n then Inl (RvaOutsideImage rva n)
     else case List.find (\<lambda>(k, s). unat rva \<in> sec_virtual s) (enumerate 0 (pe_sections img)) of
       None \<Rightarrow> Inl (RvaNotSectionBacked rva n)
     | Some ks \<Rightarrow> section_answer rva n (rva + n) ks)"
proof (cases "unat rva + unat n < 2 ^ 32")
  case True
  then have e: "checked_add rva n = Some (rva + n)" "unat (rva + n) = unat rva + unat n"
    by (auto simp: checked_add_def unat_plus_if')
  moreover have "0 < unat n" using n by (simp add: unat_gt_0)
  ultimately show ?thesis
    using section_scan_find [OF n, of rva "rva + n" "pe_sections img" 0] image_sound_fits [OF snd]
    by (simp add: PeImage_section_file_range_def word_less_nat_alt)
next
  case False
  then show ?thesis
    using unat_less_exp [of "size_of_image (optional (pe_headers img))"]
    by (simp add: PeImage_section_file_range_def checked_add_def)
qed

lemma file_bytes_section:
  assumes "image_sound img" "s \<in> set (pe_sections img)" "n \<noteq> 0"
    and r: "{unat rva..<unat rva + unat n} \<subseteq> sec_file_backed s"
  shows "PeImage_file_bytes img \<lparr>file_offset = pointer_to_raw_data s + (rva - virtual_address s), file_size = n\<rparr> =
    Inr (map (image_byte img) [unat rva..<unat rva + unat n])"
proof -
  have n: "0 < unat n" using assms(3) by (simp add: unat_gt_0)
  have rv: "unat rva \<in> sec_file_backed s" using r n by auto
  have b: "unat (virtual_address s) \<le> unat rva"
    "unat rva + unat n \<le> unat (virtual_address s) + unat (size_of_raw_data s)"
    using r range_backed(1) [OF n] by auto
  note o = sec_fits_offset(2) [OF image_sound_fits [OF assms(1,2)] rv]
  have raw: "unat (pointer_to_raw_data s) + unat (size_of_raw_data s) \<le> length (pe_bytes img)"
    "unat (pointer_to_raw_data s) + unat (size_of_raw_data s) < 2 ^ 32"
    using image_soundD(5,6) [OF assms(1,2)] file_backed_virtual(3) [OF assms(1,2) rv] by auto
  have "take (unat n) (drop (unat (pointer_to_raw_data s) + (unat rva - unat (virtual_address s))) (pe_bytes img)) =
      map (image_byte img) [unat rva..<unat rva + unat n]" (is "?l = ?r")
  proof (rule nth_equalityI)
    show "length ?l = length ?r" using raw b by simp
    fix i assume "i < length ?l"
    then have i: "i < unat n" by simp
    then have "unat rva + i \<in> sec_file_backed s" using r by auto
    from image_byte_section [OF assms(1,2) this] show "?l ! i = ?r ! i"
      using i b raw by (simp add: add.assoc)
  qed
  moreover have "unat (pointer_to_raw_data s) + (unat rva - unat (virtual_address s)) + unat n \<le>
      unat (pointer_to_raw_data s) + unat (size_of_raw_data s)" using b by linarith
  ultimately show ?thesis
    using raw unfolding PeImage_file_bytes_def Reader_bytes_Inr by (simp add: o del: diff_add_assoc)
qed

lemma section_file_range_hit:
  assumes snd: "image_sound img" and n: "n \<noteq> 0" and k: "k < length (pe_sections img)"
    and R: "{unat rva..<unat rva + unat n} \<subseteq> sec_virtual (pe_sections img ! k)"
  shows "PeImage_section_file_range img rva n = section_answer rva n (rva + n) (k, pe_sections img ! k)"
    "unat (rva + n) = unat rva + unat n"
proof -
  let ?s = "pe_sections img ! k"
  have n0: "0 < unat n" using n by (simp add: unat_gt_0)
  then have rv: "unat rva \<in> sec_virtual ?s" using R by auto
  have "unat rva + unat n \<le> unat (size_of_image (optional (pe_headers img)))"
    using R range_backed(2) [OF n0] image_soundD(2) [OF snd nth_mem [OF k]] by simp
  then show "PeImage_section_file_range img rva n = section_answer rva n (rva + n) (k, ?s)"
    "unat (rva + n) = unat rva + unat n"
    using unat_less_exp [of "size_of_image (optional (pe_headers img))"]
    by (simp_all add: section_file_range_find [OF snd n] find_section [OF snd k rv] unat_plus_if')
qed

lemma section_file_range_cases:
  assumes snd: "image_sound img" and n: "n \<noteq> 0"
    and r: "PeImage_section_file_range img rva n = r" "r \<noteq> Inl (RvaOutsideImage rva n)" "r \<noteq> Inl (RvaNotSectionBacked rva n)"
  obtains k where "k < length (pe_sections img)" "{unat rva..<unat rva + unat n} \<subseteq> sec_virtual (pe_sections img ! k)"
    "r = section_answer rva n (rva + n) (k, pe_sections img ! k)"
proof -
  have n0: "0 < unat n" using n by (simp add: unat_gt_0)
  obtain k s where f: "List.find (\<lambda>(k, s). unat rva \<in> sec_virtual s) (enumerate 0 (pe_sections img)) = Some (k, s)"
    and r': "r = section_answer rva n (rva + n) (k, s)"
    and le: "unat rva + unat n \<le> unat (size_of_image (optional (pe_headers img)))"
    using r by (auto simp: section_file_range_find [OF snd n] split: if_split_asm option.split_asm)
  have k: "k < length (pe_sections img)" "s = pe_sections img ! k" "unat rva \<in> sec_virtual s"
    using f by (auto simp: find_Some_iff nth_enumerate_eq)
  have "unat (rva + n) = unat rva + unat n"
    using le unat_less_exp [of "size_of_image (optional (pe_headers img))"] by (simp add: unat_plus_if')
  moreover have "unat (size_of_raw_data s) \<le> unat (mapped_size s)"
    using image_soundD(3) [OF snd] k by simp
  ultimately have "{unat rva..<unat rva + unat n} \<subseteq> sec_virtual s"
    using r r' k(3) unfolding range_backed(2) [OF n0]
    by (auto simp: section_answer_def sec_virtual_def sec_end_def split: if_split_asm)
  then show thesis using that k r' by blast
qed

lemma section_bytes_spec:
  assumes snd: "image_sound img" and n: "n \<noteq> 0"
  shows "case PeImage_section_bytes img rva n of
      Inr bs \<Rightarrow> (\<exists>s\<in>set (pe_sections img). {unat rva..<unat rva + unat n} \<subseteq> sec_file_backed s) \<and>
        bs = map (image_byte img) [unat rva..<unat rva + unat n]
    | Inl e \<Rightarrow> \<not> (\<exists>s\<in>set (pe_sections img). {unat rva..<unat rva + unat n} \<subseteq> sec_file_backed s) \<and>
        (\<forall>k. e = RvaTouchesVirtualZeroFill k rva n \<longleftrightarrow>
          k < length (pe_sections img) \<and> {unat rva..<unat rva + unat n} \<subseteq> sec_virtual (pe_sections img ! k))"
proof -
  let ?R = "{unat rva..<unat rva + unat n}" and ?ss = "pe_sections img"
  let ?r = "PeImage_section_file_range img rva n"
  have n0: "0 < unat n" using n by (simp add: unat_gt_0)
  have rv: "unat rva \<in> ?R" using n0 by simp
  have virt: "?R \<subseteq> sec_virtual s" if "s \<in> set ?ss" "?R \<subseteq> sec_file_backed s" for s
    using that(2) image_soundD(3) [OF snd that(1)] unfolding range_backed [OF n0] sec_end_def by simp
  have hit: "?r = (if ?R \<subseteq> sec_file_backed (?ss ! k)
        then Inr \<lparr>file_offset = pointer_to_raw_data (?ss ! k) + (rva - virtual_address (?ss ! k)), file_size = n\<rparr>
        else Inl (RvaTouchesVirtualZeroFill k rva n))" if "k < length ?ss" "?R \<subseteq> sec_virtual (?ss ! k)" for k
    using section_file_range_hit [OF snd n that] that(2) unfolding range_backed [OF n0]
    by (simp add: section_answer_def)
  show ?thesis
  proof (cases "\<exists>k<length ?ss. ?R \<subseteq> sec_virtual (?ss ! k)")
    case True
    then obtain k where k: "k < length ?ss" "?R \<subseteq> sec_virtual (?ss ! k)" by blast
    have uniq: "s = ?ss ! k" if "s \<in> set ?ss" "?R \<subseteq> sec_virtual s" for s
      using sections_unique [OF snd that(1) nth_mem [OF k(1)] subsetD [OF that(2) rv] subsetD [OF k(2) rv]] .
    have uk: "j = k" if "j < length ?ss" "?R \<subseteq> sec_virtual (?ss ! j)" for j
      using sections_disjoint [OF snd that(1) k(1)] subsetD [OF that(2) rv] subsetD [OF k(2) rv] by blast
    show ?thesis
    proof (cases "?R \<subseteq> sec_file_backed (?ss ! k)")
      case True
      then show ?thesis
        using hit [OF k] file_bytes_section [OF snd nth_mem [OF k(1)] n True] nth_mem [OF k(1)]
        by (auto simp: PeImage_section_bytes_def)
    next
      case False
      have "\<not> (\<exists>s\<in>set ?ss. ?R \<subseteq> sec_file_backed s)" using False uniq virt by metis
      moreover have "\<forall>j. k = j \<longleftrightarrow> j < length ?ss \<and> ?R \<subseteq> sec_virtual (?ss ! j)" using uk k by metis
      ultimately show ?thesis using hit [OF k] False by (simp add: PeImage_section_bytes_def)
    qed
  next
    case False
    have "?r = Inl (RvaOutsideImage rva n) \<or> ?r = Inl (RvaNotSectionBacked rva n)"
      using section_file_range_cases [OF snd n refl] False by metis
    moreover have "\<not> (\<exists>s\<in>set ?ss. ?R \<subseteq> sec_file_backed s)" using False virt by (metis in_set_conv_nth)
    ultimately show ?thesis using False by (auto simp: PeImage_section_bytes_def)
  qed
qed

lemma rva_scan_find:
  assumes n: "n \<noteq> 0" and e: "unat e = unat rva + unat n"
    and ss: "\<forall>s\<in>set ss. sec_fits s \<and> (size_of_raw_data s \<noteq> 0 \<longrightarrow>
      unat (pointer_to_raw_data s) + unat (size_of_raw_data s) \<le> len)"
  shows "rva_scan len rva n e ss =
    (case List.find (\<lambda>s. {unat rva..<unat rva + unat n} \<subseteq> sec_file_backed s) ss of
       None \<Rightarrow> Inl (RvaNotFileBacked rva n)
     | Some s \<Rightarrow> Inr \<lparr>file_offset = pointer_to_raw_data s + (rva - virtual_address s), file_size = n\<rparr>)"
  using ss
proof (induction ss)
  case (Cons s ss)
  let ?R = "{unat rva..<unat rva + unat n}"
  have n0: "0 < unat n" using n by (simp add: unat_gt_0)
  have fits: "sec_fits s" using Cons.prems by simp
  obtain r where r: "checked_add (virtual_address s) (size_of_raw_data s) = Some r"
    "unat r = unat (virtual_address s) + unat (size_of_raw_data s)"
    using fits by (rule sec_fits_sums)
  have R: "virtual_address s \<le> rva \<and> e \<le> r \<longleftrightarrow> ?R \<subseteq> sec_file_backed s"
    unfolding range_backed [OF n0] using r(2) e by (auto simp: word_le_nat_alt)
  show ?case
  proof (cases "?R \<subseteq> sec_file_backed s")
    case False
    then show ?thesis using Cons r(1) R by auto
  next
    case True
    have rv: "unat rva \<in> sec_file_backed s" using True n0 by auto
    note o = sec_fits_offset [OF fits rv]
    have b: "unat (virtual_address s) \<le> unat rva"
      "unat rva + unat n \<le> unat (virtual_address s) + unat (size_of_raw_data s)"
      using True unfolding range_backed [OF n0] by auto
    have "size_of_raw_data s \<noteq> 0" using rv by (auto simp: sec_file_backed_def)
    then have raw: "unat (pointer_to_raw_data s) + unat (size_of_raw_data s) < 2 ^ 32"
      "unat (pointer_to_raw_data s) + unat (size_of_raw_data s) \<le> len"
      using Cons.prems by (auto simp: sec_fits_def)
    let ?o = "pointer_to_raw_data s + (rva - virtual_address s)"
    have le: "unat ?o + unat n \<le> unat (pointer_to_raw_data s) + unat (size_of_raw_data s)"
      using b o(2) by linarith
    then have "checked_add ?o n = Some (?o + n)" "unat (?o + n) = unat ?o + unat n"
      using raw(1) by (auto simp: checked_add_def unat_plus_if')
    then show ?thesis using True r(1) R o(1) le raw(2) by (simp add: Let_def)
  qed
qed simp

text \<open>The two ways a range of a loaded image is backed by the file.\<close>

definition file_backed :: "PeImage \<Rightarrow> nat \<Rightarrow> nat \<Rightarrow> bool" where
  "file_backed img a n \<longleftrightarrow> a + n \<le> unat (size_of_headers (optional (pe_headers img))) \<or>
     (\<exists>s\<in>set (pe_sections img). {a..<a + n} \<subseteq> sec_file_backed s)"

lemma header_bytes:
  assumes "image_sound img" "unat rva + unat n \<le> unat (size_of_headers (optional (pe_headers img)))"
  shows "PeImage_file_bytes img \<lparr>file_offset = rva, file_size = n\<rparr> =
    Inr (map (image_byte img) [unat rva..<unat rva + unat n])"
proof -
  have len: "unat rva + unat n \<le> length (pe_bytes img)" using assms image_soundD(1) [OF assms(1)] by linarith
  have "take (unat n) (drop (unat rva) (pe_bytes img)) = map (image_byte img) [unat rva..<unat rva + unat n]"
    by (rule nth_equalityI) (use len assms(2) in \<open>auto simp: image_byte_def\<close>)
  then show ?thesis
    using len assms(2) unat_less_exp [of "size_of_headers (optional (pe_headers img))"]
    by (simp add: PeImage_file_bytes_def Reader_bytes_def)
qed

lemma rva_to_file_range_eq:
  assumes snd: "image_sound img" and n: "n \<noteq> 0"
  shows "PeImage_rva_to_file_range img rva n =
    (if unat (size_of_image (optional (pe_headers img))) < unat rva + unat n then Inl (RvaOutsideImage rva n)
     else if unat rva + unat n \<le> unat (size_of_headers (optional (pe_headers img)))
     then Inr \<lparr>file_offset = rva, file_size = n\<rparr>
     else case List.find (\<lambda>s. {unat rva..<unat rva + unat n} \<subseteq> sec_file_backed s) (pe_sections img) of
       None \<Rightarrow> Inl (RvaNotFileBacked rva n)
     | Some s \<Rightarrow> Inr \<lparr>file_offset = pointer_to_raw_data s + (rva - virtual_address s), file_size = n\<rparr>)"
proof (cases "unat rva + unat n < 2 ^ 32")
  case False
  then show ?thesis
    using unat_less_exp [of "size_of_image (optional (pe_headers img))"]
    by (simp add: PeImage_rva_to_file_range_def checked_add_def)
next
  case True
  then have e: "checked_add rva n = Some (rva + n)" "unat (rva + n) = unat rva + unat n"
    by (auto simp: checked_add_def unat_plus_if')
  have "\<forall>s\<in>set (pe_sections img). sec_fits s \<and> (size_of_raw_data s \<noteq> 0 \<longrightarrow>
      unat (pointer_to_raw_data s) + unat (size_of_raw_data s) \<le> length (pe_bytes img))"
    using image_sound_fits [OF snd] image_soundD(5) [OF snd] by blast
  from rva_scan_find [OF n e(2) this] show ?thesis
    using e n by (simp add: PeImage_rva_to_file_range_def Let_def word_less_nat_alt word_le_nat_alt unat_gt_0 [symmetric])
qed

lemma rva_to_file_range_spec:
  assumes snd: "image_sound img" and n: "n \<noteq> 0"
  shows "case PeImage_rva_to_file_range img rva n of
      Inr r \<Rightarrow> file_backed img (unat rva) (unat n) \<and>
        PeImage_file_bytes img r = Inr (map (image_byte img) [unat rva..<unat rva + unat n])
    | Inl e \<Rightarrow> \<not> file_backed img (unat rva) (unat n)"
proof -
  let ?opt = "optional (pe_headers img)" and ?R = "{unat rva..<unat rva + unat n}" and ?ss = "pe_sections img"
  have n0: "0 < unat n" using n by (simp add: unat_gt_0)
  note r = rva_to_file_range_eq [OF snd n, of rva]
  have inside: "unat rva + unat n \<le> unat (size_of_image ?opt)" if "file_backed img (unat rva) (unat n)"
    using that image_soundD(7) [OF snd] image_soundD(2,3) [OF snd]
    unfolding file_backed_def range_backed [OF n0] sec_end_def by fastforce
  consider (out) "unat (size_of_image ?opt) < unat rva + unat n"
    | (headers) "unat rva + unat n \<le> unat (size_of_image ?opt)" "unat rva + unat n \<le> unat (size_of_headers ?opt)"
    | (sections) "unat rva + unat n \<le> unat (size_of_image ?opt)" "\<not> unat rva + unat n \<le> unat (size_of_headers ?opt)"
    by linarith
  then show ?thesis
  proof cases
    case out then show ?thesis using inside r by auto
  next
    case headers
    then show ?thesis using header_bytes [OF snd headers(2)] r by (simp add: file_backed_def)
  next
    case sections
    show ?thesis
    proof (cases "List.find (\<lambda>s. ?R \<subseteq> sec_file_backed s) ?ss")
      case None
      then have "\<forall>s\<in>set ?ss. \<not> ?R \<subseteq> sec_file_backed s" by (simp add: find_None_iff)
      then show ?thesis using r [unfolded None] sections by (simp add: file_backed_def)
    next
      case (Some s)
      then have s: "s \<in> set ?ss" "?R \<subseteq> sec_file_backed s" by (auto simp: find_Some_iff)
      then show ?thesis
        using r [unfolded Some] sections file_bytes_section [OF snd s(1) n s(2)] by (auto simp: file_backed_def)
    qed
  qed
qed

text \<open>C15. Address translation of a parsed image is exact. \<open>rva_to_file_range\<close> succeeds precisely for the
  non-empty ranges that lie wholly in the headers or in the raw data of one section, and the file bytes
  it denotes are the bytes of the loaded image at those addresses. \<open>section_bytes\<close> likewise returns the
  loaded bytes of precisely the ranges inside the raw data of one section, and it reports zero fill
  precisely for the other ranges inside the mapping of a section, naming that section.\<close>

theorem address_translation_exact:
  assumes parse: "PeImage_parse bytes = Inr img" and n: "n \<noteq> 0"
  shows "(case PeImage_rva_to_file_range img rva n of
      Inr r \<Rightarrow> file_backed img (unat rva) (unat n) \<and>
        PeImage_file_bytes img r = Inr (map (image_byte img) [unat rva..<unat rva + unat n])
    | Inl e \<Rightarrow> \<not> file_backed img (unat rva) (unat n)) \<and>
   (case PeImage_section_bytes img rva n of
      Inr bs \<Rightarrow> (\<exists>s\<in>set (pe_sections img). {unat rva..<unat rva + unat n} \<subseteq> sec_file_backed s) \<and>
        bs = map (image_byte img) [unat rva..<unat rva + unat n]
    | Inl e \<Rightarrow> \<not> (\<exists>s\<in>set (pe_sections img). {unat rva..<unat rva + unat n} \<subseteq> sec_file_backed s) \<and>
        (\<forall>k. e = RvaTouchesVirtualZeroFill k rva n \<longleftrightarrow>
          k < length (pe_sections img) \<and> {unat rva..<unat rva + unat n} \<subseteq> sec_virtual (pe_sections img ! k)))"
  using rva_to_file_range_spec [OF _ n] section_bytes_spec [OF _ n] parse_image_sound [OF parse] by blast

theorem address_translation_exact_witness:
  "PeImage_parse sample_pe = Inr sample_image \<and>
   PeImage_rva_to_file_range sample_image 0x2038 8 = Inr \<lparr>file_offset = 0x438, file_size = 8\<rparr> \<and>
   PeImage_file_bytes sample_image \<lparr>file_offset = 0x438, file_size = 8\<rparr> =
     Inr (map (image_byte sample_image) [0x2038..<0x2040])"
proof -
  have "PeImage_rva_to_file_range sample_image 0x2038 8 = Inr \<lparr>file_offset = 0x438, file_size = 8\<rparr>"
    by (simp add: PeImage_rva_to_file_range_def sample_image_def sample_optional_def sample_text_def
        sample_data_def sample_length checked_add_def)
  then show ?thesis
    using address_translation_exact [OF sample_pe_parses, of 8 "0x2038"] sample_pe_parses by simp
qed

end
