(* ===== verification/Pe_Relocation.thy ===== *)
theory Pe_Relocation
  imports Pe_Plan
begin

text \<open>
  Base relocations (\<open>crates/xenith-pe/src/relocation.rs\<close>). The scan is the two nested loops of the
  source; the visitor closure is the list of the patches it has been called with, in order, and a slice
  out of range is \<open>None\<close>.
\<close>

subsection \<open>Data\<close>

definition RELOCATION_TYPE_ABSOLUTE :: u8 where "RELOCATION_TYPE_ABSOLUTE = 0"
definition RELOCATION_TYPE_DIR64 :: u8 where "RELOCATION_TYPE_DIR64 = 10"
definition MAX_BASE_RELOCATIONS :: nat where "MAX_BASE_RELOCATIONS = 65536"
definition RELOCATION_BLOCK_HEADER_SIZE :: nat where "RELOCATION_BLOCK_HEADER_SIZE = 8"
definition RELOCATION_ENTRY_SIZE :: nat where "RELOCATION_ENTRY_SIZE = 2"
definition RELOCATION_PAGE_SIZE :: u32 where "RELOCATION_PAGE_SIZE = 0x1000"

record BaseRelocationPlan =
  preferred_image_base :: u64
  actual_image_base :: u64
  image_delta :: int
  patch_count :: nat

record RelocationPatch =
  target_rva :: u32
  original_value :: u64
  relocated_value :: u64

subsection \<open>Operations\<close>

definition relocate_value :: "u64 \<Rightarrow> u64 \<Rightarrow> u64 \<Rightarrow> u32 \<Rightarrow> PeError + u64" where
  "relocate_value original preferred_base actual_base target =
     (let relocated =
        (if preferred_base \<le> actual_base then checked_add original (actual_base - preferred_base)
         else checked_sub original (preferred_base - actual_base)) in
      ok_or relocated (RelocatedValueOverflow target original))"

definition as_u32 :: "nat \<Rightarrow> string \<Rightarrow> PeError + u32" where
  "as_u32 value field = (if value < 2 ^ 32 then Inr (of_nat value) else Inl (ArithmeticOverflow field))"

text \<open>One entry: \<open>None\<close> for the padding that the loop skips, or the patch that it visits.\<close>

definition relocation_entry ::
  "PeImage \<Rightarrow> u64 \<Rightarrow> u32 \<Rightarrow> nat \<Rightarrow> u16 \<Rightarrow> (PeError + RelocationPatch option) option" where
  "relocation_entry img actual page_rva count raw' =
     (let relocation_type = (ucast (drop_bit 12 raw') :: u8); page_offset = raw' AND 0x0fff in
      if relocation_type = RELOCATION_TYPE_ABSOLUTE then Some (Inr None)
      else if relocation_type \<noteq> RELOCATION_TYPE_DIR64
      then Some (Inl (UnsupportedRelocationType relocation_type page_rva page_offset))
      else if 2 ^ 64 \<le> count + 1
      then Some (Inl (TooManyBaseRelocations (2 ^ 64 - 1) MAX_BASE_RELOCATIONS))
      else if MAX_BASE_RELOCATIONS < count + 1
      then Some (Inl (TooManyBaseRelocations (count + 1) MAX_BASE_RELOCATIONS))
      else case checked_add page_rva (ucast page_offset) of
        None \<Rightarrow> Some (Inl (RelocationTargetOverflow page_rva page_offset))
      | Some target \<Rightarrow>
          (case PeImage_section_bytes img target 8 of
             Inl e \<Rightarrow> Some (Inl e)
           | Inr source \<Rightarrow>
               do {
                 original \<leftarrow> read_u64 source;
                 Some (and_then
                   (relocate_value original (image_base (optional (pe_headers img))) actual target)
                   (\<lambda>relocated. Inr (Some \<lparr>target_rva = target, original_value = original,
                                            relocated_value = relocated\<rparr>)))
               }))"

text \<open>The inner loop over the entries of a block.\<close>

function relocation_entries ::
  "PeImage \<Rightarrow> u64 \<Rightarrow> u8 list \<Rightarrow> u32 \<Rightarrow> nat \<Rightarrow> nat \<Rightarrow> nat \<Rightarrow> RelocationPatch list \<Rightarrow>
   ((PeError + nat) \<times> RelocationPatch list) option" where
  "relocation_entries img actual bytes page_rva block_end entry_cursor count out =
     (if entry_cursor < block_end then
        do {
          slot \<leftarrow> slice_opt bytes entry_cursor (entry_cursor + RELOCATION_ENTRY_SIZE);
          raw' \<leftarrow> read_u16 slot;
          entry \<leftarrow> relocation_entry img actual page_rva count raw';
          let next = entry_cursor + RELOCATION_ENTRY_SIZE;
          case entry of
            Inl e \<Rightarrow> Some (Inl e, out)
          | Inr None \<Rightarrow> relocation_entries img actual bytes page_rva block_end next count out
          | Inr (Some patch) \<Rightarrow>
              relocation_entries img actual bytes page_rva block_end next (count + 1) (out @ [patch])
        }
      else Some (Inr count, out))"
  by pat_completeness auto
termination
  by (relation "measure (\<lambda>(img, actual, bytes, page_rva, block_end, cursor, count, out). block_end - cursor)")
     (auto simp: RELOCATION_ENTRY_SIZE_def)

text \<open>The outer loop over the blocks of the directory.\<close>

function relocation_blocks ::
  "PeImage \<Rightarrow> u64 \<Rightarrow> u8 list \<Rightarrow> nat \<Rightarrow> nat \<Rightarrow> u32 option \<Rightarrow> RelocationPatch list \<Rightarrow>
   ((PeError + nat) \<times> RelocationPatch list) option" where
  "relocation_blocks img actual bytes cursor count previous out =
     (if cursor < length bytes then
        let remaining = length bytes - cursor in
        if remaining < RELOCATION_BLOCK_HEADER_SIZE then
          Some (and_then (as_u32 cursor ''relocation directory offset'') (\<lambda>offset.
                and_then (as_u32 remaining ''relocation remaining size'') (\<lambda>rest.
                  Inl (RelocationBlockHeaderTruncated offset rest))), out)
        else do {
          page_slot \<leftarrow> slice_opt bytes cursor (cursor + 4);
          page_rva \<leftarrow> read_u32 page_slot;
          size_slot \<leftarrow> slice_opt bytes (cursor + 4) (cursor + 8);
          block_size \<leftarrow> read_u32 size_slot;
          if unat block_size < RELOCATION_BLOCK_HEADER_SIZE \<or> unat block_size AND 3 \<noteq> 0 \<or>
             remaining < unat block_size
          then
            Some (and_then (as_u32 cursor ''relocation directory offset'') (\<lambda>offset.
                  and_then (as_u32 remaining ''relocation remaining size'') (\<lambda>rest.
                    Inl (InvalidRelocationBlockSize offset block_size rest))), out)
          else if page_rva AND (RELOCATION_PAGE_SIZE - 1) \<noteq> 0
          then Some (Inl (RelocationPageMisaligned page_rva), out)
          else if size_of_image (optional (pe_headers img)) \<le> page_rva
          then Some (Inl (RelocationPageOutsideImage page_rva), out)
          else if (case previous of None \<Rightarrow> False | Some prev \<Rightarrow> page_rva \<le> prev)
          then Some (Inl (RelocationPagesNotIncreasing (the previous) page_rva), out)
          else do {
            (result, out) \<leftarrow> relocation_entries img actual bytes page_rva (cursor + unat block_size)
              (cursor + RELOCATION_BLOCK_HEADER_SIZE) count out;
            case result of
              Inl e \<Rightarrow> Some (Inl e, out)
            | Inr count \<Rightarrow> relocation_blocks img actual bytes (cursor + unat block_size) count (Some page_rva) out
          }
        }
      else Some (Inr count, out))"
  by pat_completeness auto
termination
  by (relation "measure (\<lambda>(img, actual, bytes, cursor, count, previous, out). length bytes - cursor)")
     (auto simp: RELOCATION_BLOCK_HEADER_SIZE_def)

declare relocation_entries.simps [simp del] relocation_blocks.simps [simp del]

definition scan_base_relocations ::
  "PeImage \<Rightarrow> u64 \<Rightarrow> ((PeError + BaseRelocationPlan) \<times> RelocationPatch list) option" where
  "scan_base_relocations img actual =
     (let opt = optional (pe_headers img) in
      if actual AND (IMAGE_BASE_ALIGNMENT - 1) \<noteq> 0 then Some (Inl (InvalidActualImageBase actual), [])
      else if checked_add actual (ucast (size_of_image opt)) = None
      then Some (Inl ActualImageAddressOverflow, [])
      else case opt_filter (\<lambda>d. \<not> DataDirectory_is_empty d) (PeImage_directory img IMAGE_DIRECTORY_ENTRY_BASERELOC) of
        None \<Rightarrow>
          if actual \<noteq> image_base opt then Some (Inl (RelocationsRequiredButMissing (image_base opt) actual), [])
          else Some (Inr \<lparr>preferred_image_base = image_base opt, actual_image_base = actual,
                          image_delta = 0, patch_count = 0\<rparr>, [])
      | Some d \<Rightarrow>
          (case PeImage_section_bytes img (dir_address d) (dir_size d) of
             Inl e \<Rightarrow> Some (Inl e, [])
           | Inr bytes \<Rightarrow>
               do {
                 (result, out) \<leftarrow> relocation_blocks img actual bytes 0 0 None [];
                 Some (and_then result (\<lambda>count.
                   Inr \<lparr>preferred_image_base = image_base opt, actual_image_base = actual,
                        image_delta = uint actual - uint (image_base opt), patch_count = count\<rparr>), out)
               }))"

definition PeImage_base_relocation_plan :: "PeImage \<Rightarrow> u64 \<Rightarrow> (PeError + BaseRelocationPlan) option" where
  "PeImage_base_relocation_plan img actual = map_option fst (scan_base_relocations img actual)"

definition PeImage_visit_base_relocations ::
  "PeImage \<Rightarrow> u64 \<Rightarrow> ((PeError + BaseRelocationPlan) \<times> RelocationPatch list) option" where
  "PeImage_visit_base_relocations img actual =
     do {
       validated \<leftarrow> PeImage_base_relocation_plan img actual;
       case validated of
         Inl e \<Rightarrow> Some (Inl e, [])
       | Inr plan \<Rightarrow>
           do {
             (emitted, out) \<leftarrow> scan_base_relocations img actual;
             Some (and_then emitted (\<lambda>_. Inr plan), out)
           }
     }"

subsection \<open>The relocation table as data\<close>

text \<open>
  A relocation table is a sequence of blocks, each the address of a page and a list of 16-bit entries
  with a type in the high four bits and an offset in the page in the others.
\<close>

definition entry_type :: "u16 \<Rightarrow> u8" where
  "entry_type e = ucast (drop_bit 12 e)"

definition entry_target :: "u32 \<Rightarrow> u16 \<Rightarrow> u32" where
  "entry_target page e = page + ucast (e AND 0x0fff)"

definition encode_block :: "u32 \<times> u16 list \<Rightarrow> u8 list" where
  "encode_block = (\<lambda>(page, es).
     to_le_bytes page @ to_le_bytes (of_nat (8 + 2 * length es) :: u32) @ concat (map to_le_bytes es))"

definition block_targets :: "u32 \<times> u16 list \<Rightarrow> u32 list" where
  "block_targets = (\<lambda>(page, es). map (entry_target page) (filter (\<lambda>e. entry_type e = RELOCATION_TYPE_DIR64) es))"

definition patch_ok :: "PeImage \<Rightarrow> u64 \<Rightarrow> RelocationPatch \<Rightarrow> bool" where
  "patch_ok img actual p \<longleftrightarrow>
     (\<exists>s\<in>set (pe_sections img). {unat (target_rva p)..<unat (target_rva p) + 8} \<subseteq> sec_file_backed s) \<and>
     original_value p = from_le_bytes (map (image_byte img) [unat (target_rva p)..<unat (target_rva p) + 8]) \<and>
     uint (relocated_value p) =
       uint (original_value p) + (uint actual - uint (image_base (optional (pe_headers img))))"

lemma relocate_value_exact:
  "case relocate_value orig pref actual t of
     Inr v \<Rightarrow> uint v = uint orig + (uint actual - uint pref)
   | Inl e \<Rightarrow> e = RelocatedValueOverflow t orig \<and> uint orig + (uint actual - uint pref) \<notin> {0..<2 ^ 64}"
proof (cases "pref \<le> actual")
  case True
  then have d: "unat (actual - pref) = unat actual - unat pref" "unat pref \<le> unat actual"
    by (auto simp: unat_sub word_le_nat_alt)
  show ?thesis
  proof (cases "checked_add orig (actual - pref)")
    case None
    then show ?thesis
      using True d None [unfolded checked_add_eq_None] unfolding relocate_value_def uint_nat by (simp del: of_nat_unat)
  next
    case (Some v)
    then show ?thesis using True d unat_checked_add [OF Some] unfolding relocate_value_def uint_nat by (simp del: of_nat_unat)
  qed
next
  case False
  then have d: "unat (pref - actual) = unat pref - unat actual" "unat actual < unat pref"
    by (auto simp: unat_sub word_le_nat_alt)
  show ?thesis
  proof (cases "checked_sub orig (pref - actual)")
    case None
    then show ?thesis
      using False d None [unfolded checked_sub_eq_None] unfolding relocate_value_def uint_nat by (simp add: word_less_nat_alt del: of_nat_unat) linarith
  next
    case (Some v)
    have "unat pref - unat actual \<le> unat orig" "unat v = unat orig - (unat pref - unat actual)"
      using Some [unfolded checked_sub_eq_Some] unat_checked_sub [OF Some] d(1) by (simp_all add: word_le_nat_alt)
    then show ?thesis using False d Some unfolding relocate_value_def uint_nat by (simp del: of_nat_unat)
  qed
qed

text \<open>Moving an address to another base and back gives the address again.\<close>

lemma relocate_value_roundtrip:
  "relocate_value orig pref actual t = Inr v \<Longrightarrow> relocate_value v actual pref t' = Inr orig"
  using relocate_value_exact [where orig = orig and pref = pref and actual = actual and t = t]
    relocate_value_exact [where orig = v and pref = actual and actual = pref and t = t']
    uint_lt2p [of orig] uint_ge_0 [of orig]
  by (cases "relocate_value v actual pref t'") (auto intro: word_uint_eqI)

lemma slice_ok: "a + n \<le> length bytes \<Longrightarrow> slice_opt bytes a (a + n) = Some (take n (drop a bytes))"
  by (simp add: slice_opt_def)

lemma read_ok:
  "length bs = 2 \<Longrightarrow> read_u16 bs = Some (from_le_bytes bs) \<and> to_le_bytes (from_le_bytes bs :: u16) = bs"
  "length bs = 4 \<Longrightarrow> read_u32 bs = Some (from_le_bytes bs) \<and> to_le_bytes (from_le_bytes bs :: u32) = bs"
  "length bs = 8 \<Longrightarrow> read_u64 bs = Some (from_le_bytes bs) \<and> to_le_bytes (from_le_bytes bs :: u64) = bs"
  by (simp_all add: read_u16_def read_u32_def read_u64_def read_le_def to_from_le_bytes)

lemma relocation_entry_spec:
  assumes snd: "image_sound img"
  shows "\<exists>res. relocation_entry img actual page count e = Some res \<and>
    (case res of
       Inl err \<Rightarrow> True
     | Inr None \<Rightarrow> entry_type e = RELOCATION_TYPE_ABSOLUTE
     | Inr (Some p) \<Rightarrow> entry_type e = RELOCATION_TYPE_DIR64 \<and> target_rva p = entry_target page e \<and>
         patch_ok img actual p \<and> count < MAX_BASE_RELOCATIONS)"
proof (cases "entry_type e = RELOCATION_TYPE_ABSOLUTE \<or> entry_type e \<noteq> RELOCATION_TYPE_DIR64 \<or>
    MAX_BASE_RELOCATIONS < count + 1 \<or> checked_add page (ucast (e AND 0xfff)) = None")
  case True
  then show ?thesis
    by (auto simp: relocation_entry_def entry_type_def Let_def MAX_BASE_RELOCATIONS_def split: option.splits)
next
  case False
  then obtain t where t: "checked_add page (ucast (e AND 0xfff)) = Some t" "t = entry_target page e"
    by (auto simp: entry_target_def checked_add_def split: if_split_asm)
  show ?thesis
  proof (cases "PeImage_section_bytes img t 8")
    case (Inl err)
    then show ?thesis using False t
      by (auto simp: relocation_entry_def entry_type_def Let_def MAX_BASE_RELOCATIONS_def)
  next
    case (Inr src)
    let ?o = "from_le_bytes (map (image_byte img) [unat t..<unat t + 8]) :: u64"
    have s: "\<exists>s\<in>set (pe_sections img). {unat t..<unat t + 8} \<subseteq> sec_file_backed s"
      "src = map (image_byte img) [unat t..<unat t + 8]"
      using section_bytes_spec [OF snd, of 8 t] Inr by simp_all
    then have "read_u64 src = Some ?o" by (simp add: read_u64_def read_le_def)
    then have "relocation_entry img actual page count e = Some (and_then
        (relocate_value ?o (image_base (optional (pe_headers img))) actual t)
        (\<lambda>r. Inr (Some \<lparr>target_rva = t, original_value = ?o, relocated_value = r\<rparr>)))"
      using False t(1) Inr by (simp add: relocation_entry_def entry_type_def Let_def MAX_BASE_RELOCATIONS_def)
    then show ?thesis
      using s(1) t(2) False relocate_value_exact [where orig = ?o and t = t and actual = actual and
          pref = "image_base (optional (pe_headers img))"]
      by (cases "relocate_value ?o (image_base (optional (pe_headers img))) actual t") (simp_all add: patch_ok_def)
  qed
qed

definition entries_done :: "PeImage \<Rightarrow> u64 \<Rightarrow> u32 \<Rightarrow> u16 list \<Rightarrow> RelocationPatch list \<Rightarrow> bool" where
  "entries_done img actual page es ps \<longleftrightarrow>
     (\<forall>e\<in>set es. entry_type e \<in> {RELOCATION_TYPE_ABSOLUTE, RELOCATION_TYPE_DIR64}) \<and>
     map target_rva ps = block_targets (page, es) \<and> (\<forall>p\<in>set ps. patch_ok img actual p)"

lemma entries_done_Cons:
  "entry_type e = RELOCATION_TYPE_ABSOLUTE \<Longrightarrow> entries_done img actual page es ps \<Longrightarrow>
     entries_done img actual page (e # es) ps"
  "entry_type e = RELOCATION_TYPE_DIR64 \<Longrightarrow> target_rva p = entry_target page e \<Longrightarrow> patch_ok img actual p \<Longrightarrow>
     entries_done img actual page es ps \<Longrightarrow> entries_done img actual page (e # es) (p # ps)"
  by (auto simp: entries_done_def block_targets_def RELOCATION_TYPE_ABSOLUTE_def RELOCATION_TYPE_DIR64_def)

text \<open>What the inner loop returns for the entry bytes \<open>bs\<close> that remain.\<close>

definition entries_result ::
  "PeImage \<Rightarrow> u64 \<Rightarrow> u32 \<Rightarrow> u8 list \<Rightarrow> nat \<Rightarrow> RelocationPatch list \<Rightarrow>
   ((PeError + nat) \<times> RelocationPatch list) option \<Rightarrow> bool" where
  "entries_result img actual page bs count out r \<longleftrightarrow>
     (\<exists>res new. r = Some (res, out @ new) \<and>
       (\<forall>c. res = Inr c \<longrightarrow> c = count + length new \<and> c \<le> MAX_BASE_RELOCATIONS \<and>
         (\<exists>es. bs = concat (map to_le_bytes es) \<and> entries_done img actual page es new)))"

lemma entries_result_skip:
  assumes "entries_result img actual page bs count out r" "entry_type e = RELOCATION_TYPE_ABSOLUTE"
  shows "entries_result img actual page (to_le_bytes e @ bs) count out r"
proof -
  obtain res new where r: "r = Some (res, out @ new)" and ok: "\<forall>c. res = Inr c \<longrightarrow>
      c = count + length new \<and> c \<le> MAX_BASE_RELOCATIONS \<and>
      (\<exists>es. bs = concat (map to_le_bytes es) \<and> entries_done img actual page es new)"
    using assms(1) unfolding entries_result_def by blast
  have "\<exists>es. to_le_bytes e @ bs = concat (map to_le_bytes es) \<and> entries_done img actual page es new"
    if "bs = concat (map to_le_bytes es)" "entries_done img actual page es new" for es
    using that entries_done_Cons(1) [OF assms(2) that(2)] by (intro exI [of _ "e # es"]) simp
  then show ?thesis using r ok unfolding entries_result_def by blast
qed

lemma entries_result_patch:
  assumes "entries_result img actual page bs (count + 1) (out @ [p]) r"
    and "entry_type e = RELOCATION_TYPE_DIR64" "target_rva p = entry_target page e" "patch_ok img actual p"
  shows "entries_result img actual page (to_le_bytes e @ bs) count out r"
proof -
  obtain res new where r: "r = Some (res, out @ p # new)" and ok: "\<forall>c. res = Inr c \<longrightarrow>
      c = count + length (p # new) \<and> c \<le> MAX_BASE_RELOCATIONS \<and>
      (\<exists>es. bs = concat (map to_le_bytes es) \<and> entries_done img actual page es new)"
    using assms(1) unfolding entries_result_def by auto
  have "\<exists>es. to_le_bytes e @ bs = concat (map to_le_bytes es) \<and> entries_done img actual page es (p # new)"
    if "bs = concat (map to_le_bytes es)" "entries_done img actual page es new" for es
    using that entries_done_Cons(2) [OF assms(2-4) that(2)] by (intro exI [of _ "e # es"]) simp
  then show ?thesis using r ok unfolding entries_result_def by blast
qed

lemma relocation_entries_spec:
  assumes snd: "image_sound img" and "cur + 2 * k \<le> length bytes" "count \<le> MAX_BASE_RELOCATIONS"
  shows "entries_result img actual page (take (2 * k) (drop cur bytes)) count out
    (relocation_entries img actual bytes page (cur + 2 * k) cur count out)"
  using assms(2,3)
proof (induction k arbitrary: cur count out)
  case 0
  have "\<exists>es. [] = concat (map to_le_bytes es) \<and> entries_done img actual page es []"
    by (intro exI [of _ "[]"]) (simp add: entries_done_def block_targets_def)
  then show ?case using 0 by (subst relocation_entries.simps) (simp add: entries_result_def)
next
  case (Suc k)
  let ?bs = "take 2 (drop cur bytes)" and ?r = "relocation_entries img actual bytes page (cur + 2 + 2 * k) (cur + 2)"
  let ?e = "from_le_bytes ?bs :: u16"
  have sl: "slice_opt bytes cur (cur + 2) = Some ?bs" by (rule slice_ok) (use Suc.prems in simp)
  have e: "read_u16 ?bs = Some ?e" "to_le_bytes ?e = ?bs" using read_ok(1) [of ?bs] Suc.prems by simp_all
  have split: "take (2 * Suc k) (drop cur bytes) = to_le_bytes ?e @ take (2 * k) (drop (cur + 2) bytes)"
    unfolding e(2) using take_add [of 2 "2 * k" "drop cur bytes"] by (simp add: add.commute)
  obtain res where r: "relocation_entry img actual page count ?e = Some res"
    and ok: "case res of Inl err \<Rightarrow> True | Inr None \<Rightarrow> entry_type ?e = RELOCATION_TYPE_ABSOLUTE
      | Inr (Some p) \<Rightarrow> entry_type ?e = RELOCATION_TYPE_DIR64 \<and> target_rva p = entry_target page ?e \<and>
         patch_ok img actual p \<and> count < MAX_BASE_RELOCATIONS"
    using relocation_entry_spec [OF snd, of actual page count ?e] by blast
  have bend: "cur + 2 * Suc k = cur + 2 + 2 * k" "cur < cur + 2 + 2 * k" by simp_all
  have step: "relocation_entries img actual bytes page (cur + 2 * Suc k) cur count out =
      (case res of Inl e \<Rightarrow> Some (Inl e, out) | Inr None \<Rightarrow> ?r count out
       | Inr (Some p) \<Rightarrow> ?r (count + 1) (out @ [p]))"
    by (subst relocation_entries.simps)
       (simp only: RELOCATION_ENTRY_SIZE_def sl e(1) r bend if_True Option.bind_lunit Let_def)
  have len: "cur + 2 + 2 * k \<le> length bytes" using Suc.prems(1) by simp
  show ?case
  proof (cases res)
    case (Inl err)
    then show ?thesis unfolding step by (simp add: entries_result_def)
  next
    case (Inr o')
    show ?thesis
    proof (cases o')
      case None
      then show ?thesis
        unfolding step split using Inr ok entries_result_skip [OF Suc.IH [OF len Suc.prems(2)]] by simp
    next
      case (Some p)
      then have p: "entry_type ?e = RELOCATION_TYPE_DIR64" "target_rva p = entry_target page ?e"
        "patch_ok img actual p" "count + 1 \<le> MAX_BASE_RELOCATIONS" using Inr ok by simp_all
      show ?thesis
        unfolding step split using Inr Some entries_result_patch [OF Suc.IH [OF len p(4)] p(1-3)] by simp
    qed
  qed
qed

text \<open>A table the loader accepts: increasing pages of the image, padded blocks, known entry types.\<close>

definition table_ok :: "PeImage \<Rightarrow> u32 option \<Rightarrow> (u32 \<times> u16 list) list \<Rightarrow> bool" where
  "table_ok img previous bl \<longleftrightarrow>
     sorted_wrt (<) (map fst bl) \<and> (\<forall>p. previous = Some p \<longrightarrow> (\<forall>b\<in>set bl. p < fst b)) \<and>
     (\<forall>(page, es)\<in>set bl. page AND (RELOCATION_PAGE_SIZE - 1) = 0 \<and>
        page < size_of_image (optional (pe_headers img)) \<and> even (length es) \<and>
        (\<forall>e\<in>set es. entry_type e \<in> {RELOCATION_TYPE_ABSOLUTE, RELOCATION_TYPE_DIR64}))"

lemma table_ok_Cons:
  assumes "table_ok img (Some page) bl" "page AND (RELOCATION_PAGE_SIZE - 1) = 0"
    "page < size_of_image (optional (pe_headers img))" "even (length es)"
    "\<forall>e\<in>set es. entry_type e \<in> {RELOCATION_TYPE_ABSOLUTE, RELOCATION_TYPE_DIR64}"
    "\<forall>p. previous = Some p \<longrightarrow> p < page"
  shows "table_ok img previous ((page, es) # bl)"
  using assms unfolding table_ok_def by (auto intro: less_trans)

definition blocks_result ::
  "PeImage \<Rightarrow> u64 \<Rightarrow> u32 option \<Rightarrow> u8 list \<Rightarrow> nat \<Rightarrow> RelocationPatch list \<Rightarrow>
   ((PeError + nat) \<times> RelocationPatch list) option \<Rightarrow> bool" where
  "blocks_result img actual previous bs count out r \<longleftrightarrow>
     (\<exists>res new. r = Some (res, out @ new) \<and>
       (\<forall>c. res = Inr c \<longrightarrow> c = count + length new \<and> c \<le> MAX_BASE_RELOCATIONS \<and>
         (\<exists>bl. bs = concat (map encode_block bl) \<and> table_ok img previous bl \<and>
           map target_rva new = concat (map block_targets bl) \<and> (\<forall>p\<in>set new. patch_ok img actual p))))"

lemma blocks_result_error: "blocks_result img actual previous bs count out (Some (Inl e, out))"
  by (simp add: blocks_result_def)

lemma length_encode_entries: "length (concat (map to_le_bytes (es :: u16 list))) = 2 * length es"
  by (induction es) (simp_all add: to_le_bytes_def)

lemma blocks_result_step:
  assumes rest: "blocks_result img actual (Some page) bs c (out @ new) r" and c: "c = count + length new"
    and es: "entries_done img actual page es new" "even (length es)"
    and page: "page AND (RELOCATION_PAGE_SIZE - 1) = 0" "page < size_of_image (optional (pe_headers img))"
      "\<forall>p. previous = Some p \<longrightarrow> p < page"
  shows "blocks_result img actual previous (encode_block (page, es) @ bs) count out r"
proof -
  obtain res new' where r: "r = Some (res, (out @ new) @ new')" and ok: "\<forall>d. res = Inr d \<longrightarrow>
      d = c + length new' \<and> d \<le> MAX_BASE_RELOCATIONS \<and>
      (\<exists>bl. bs = concat (map encode_block bl) \<and> table_ok img (Some page) bl \<and>
        map target_rva new' = concat (map block_targets bl) \<and> (\<forall>p\<in>set new'. patch_ok img actual p))"
    using rest unfolding blocks_result_def by blast
  have "\<exists>bl. encode_block (page, es) @ bs = concat (map encode_block bl) \<and> table_ok img previous bl \<and>
      map target_rva (new @ new') = concat (map block_targets bl) \<and> (\<forall>p\<in>set (new @ new'). patch_ok img actual p)"
    if "bs = concat (map encode_block bl)" "table_ok img (Some page) bl"
      "map target_rva new' = concat (map block_targets bl)" "\<forall>p\<in>set new'. patch_ok img actual p" for bl
    using that es table_ok_Cons [OF that(2) page(1,2) es(2) _ page(3)] unfolding entries_done_def
    by (intro exI [of _ "(page, es) # bl"]) auto
  then show ?thesis
    unfolding blocks_result_def using r ok c by (intro exI [of _ res] exI [of _ "new @ new'"]) fastforce
qed

lemma block_split:
  assumes "cur + (8 + 2 * k) \<le> length bytes"
  shows "drop cur bytes = take 4 (drop cur bytes) @ take 4 (drop (cur + 4) bytes) @
    take (2 * k) (drop (cur + 8) bytes) @ drop (cur + (8 + 2 * k)) bytes"
proof -
  have "drop (cur + 8) bytes = take (2 * k) (drop (cur + 8) bytes) @ drop (cur + (8 + 2 * k)) bytes"
    by (metis add.assoc append_take_drop_id drop_drop add.commute)
  moreover have "drop (cur + 4) bytes = take 4 (drop (cur + 4) bytes) @ drop (cur + 8) bytes"
    by (metis append_take_drop_id drop_drop add.commute add.assoc numeral_Bit0)
  ultimately show ?thesis by (metis append_take_drop_id drop_drop add.commute)
qed

lemma block_header:
  assumes "cur + 8 \<le> length bytes"
  defines "page \<equiv> from_le_bytes (take 4 (drop cur bytes)) :: u32"
    and "sz \<equiv> from_le_bytes (take 4 (drop (cur + 4) bytes)) :: u32"
  shows "slice_opt bytes cur (cur + 4) = Some (take 4 (drop cur bytes))"
    "slice_opt bytes (cur + 4) (cur + 8) = Some (take 4 (drop (cur + 4) bytes))"
    "read_u32 (take 4 (drop cur bytes)) = Some page" "read_u32 (take 4 (drop (cur + 4) bytes)) = Some sz"
    "to_le_bytes page = take 4 (drop cur bytes)" "to_le_bytes sz = take 4 (drop (cur + 4) bytes)"
  using assms(1) read_ok(2) [of "take 4 (drop cur bytes)"] read_ok(2) [of "take 4 (drop (cur + 4) bytes)"]
  by (simp_all add: slice_opt_def page_def sz_def)

lemma block_size:
  assumes "8 \<le> unat (sz :: u32)" "unat sz AND 3 = 0"
  obtains k where "unat sz = 8 + 2 * k" "even k"
proof -
  have "(3::nat) = mask 2" by (simp add: mask_eq_exp_minus_1)
  then have "unat sz mod 4 = 0"
    using assms(2) take_bit_eq_mask [of 2 "unat sz"] take_bit_eq_mod [of 2 "unat sz"] by simp
  then obtain q where q: "unat sz = 4 * q" by (auto elim: dvdE)
  then have "unat sz = 8 + 2 * (2 * (q - 2))" using assms(1) by simp
  then show thesis using that by simp
qed

lemma blocks_result_done:
  "count \<le> MAX_BASE_RELOCATIONS \<Longrightarrow> blocks_result img actual previous [] count out (Some (Inr count, out))"
proof -
  assume "count \<le> MAX_BASE_RELOCATIONS"
  moreover have "\<exists>bl. [] = concat (map encode_block bl) \<and> table_ok img previous bl \<and>
      [] = concat (map block_targets bl)" by (intro exI [of _ "[]"]) (simp add: table_ok_def)
  ultimately show ?thesis by (simp add: blocks_result_def)
qed

lemma as_u32_error:
  "\<exists>e. and_then (as_u32 a f) (\<lambda>x. and_then (as_u32 b g) (\<lambda>y. Inl (h x y))) = Inl e"
  by (auto simp: as_u32_def)

text \<open>One turn of the outer loop: an error that visits nothing, or a block and the rest.\<close>

lemma relocation_blocks_step:
  assumes lt: "cur < length bytes"
  obtains (error) e where "relocation_blocks img actual bytes cur count previous out = Some (Inl e, out)"
  | (block) page k where "cur + (8 + 2 * k) \<le> length bytes" "even k"
      "page AND (RELOCATION_PAGE_SIZE - 1) = 0" "page < size_of_image (optional (pe_headers img))"
      "\<forall>p. previous = Some p \<longrightarrow> p < page"
      "drop cur bytes = (to_le_bytes page @ to_le_bytes (of_nat (8 + 2 * k) :: u32) @
         take (2 * k) (drop (cur + 8) bytes)) @ drop (cur + (8 + 2 * k)) bytes"
      "relocation_blocks img actual bytes cur count previous out =
         do { (result, out) \<leftarrow> relocation_entries img actual bytes page (cur + 8 + 2 * k) (cur + 8) count out;
              case result of Inl e \<Rightarrow> Some (Inl e, out)
              | Inr count \<Rightarrow> relocation_blocks img actual bytes (cur + (8 + 2 * k)) count (Some page) out }"
proof (cases "length bytes - cur < 8")
  case True
  then have "\<exists>e. relocation_blocks img actual bytes cur count previous out = Some (Inl e, out)"
    using lt as_u32_error by (subst relocation_blocks.simps) (simp add: RELOCATION_BLOCK_HEADER_SIZE_def)
  then show thesis using error by blast
next
  case False
  then have len: "cur + 8 \<le> length bytes" by simp
  define page sz where "page = (from_le_bytes (take 4 (drop cur bytes)) :: u32)"
    and "sz = (from_le_bytes (take 4 (drop (cur + 4) bytes)) :: u32)"
  note h = block_header [OF len, folded page_def sz_def]
  note unf = relocation_blocks.simps [of img actual bytes cur count previous out]
  let ?bad = "unat sz < 8 \<or> unat sz AND 3 \<noteq> 0 \<or> length bytes - cur < unat sz \<or>
    page AND (RELOCATION_PAGE_SIZE - 1) \<noteq> 0 \<or> size_of_image (optional (pe_headers img)) \<le> page \<or>
    (case previous of None \<Rightarrow> False | Some prev \<Rightarrow> page \<le> prev)"
  show thesis
  proof (cases ?bad)
    case True
    then have "\<exists>e. relocation_blocks img actual bytes cur count previous out = Some (Inl e, out)"
      using lt False unfolding unf Let_def RELOCATION_BLOCK_HEADER_SIZE_def h(1-4)
      by (auto simp: h(1-4) as_u32_error)
    then show thesis using error by blast
  next
    case ok: False
    then have "8 \<le> unat sz" "unat sz AND 3 = 0" by simp_all
    then obtain k where k: "unat sz = 8 + 2 * k" "even k" by (rule block_size)
    have k': "cur + (8 + 2 * k) \<le> length bytes" using ok len unfolding k(1) by linarith
    have sz: "sz = of_nat (8 + 2 * k)" unfolding k(1) [symmetric] by simp
    have eq: "relocation_blocks img actual bytes cur count previous out =
         do { (result, out) \<leftarrow> relocation_entries img actual bytes page (cur + 8 + 2 * k) (cur + 8) count out;
              case result of Inl e \<Rightarrow> Some (Inl e, out)
              | Inr count \<Rightarrow> relocation_blocks img actual bytes (cur + (8 + 2 * k)) count (Some page) out }"
      unfolding unf using lt False ok
      by (simp add: RELOCATION_BLOCK_HEADER_SIZE_def h(1-4) add.assoc) (unfold k(1), rule refl)
    have prev: "\<forall>p. previous = Some p \<longrightarrow> p < page" using ok by (auto split: option.split_asm)
    have "drop cur bytes = (to_le_bytes page @ to_le_bytes (of_nat (8 + 2 * k) :: u32) @
         take (2 * k) (drop (cur + 8) bytes)) @ drop (cur + (8 + 2 * k)) bytes"
      using block_split [OF k'] unfolding h(5,6) [symmetric] sz append_assoc .
    from block [OF k' k(2) _ _ prev this eq] show thesis using ok by (simp add: not_le)
  qed
qed

lemma relocation_blocks_spec:
  assumes snd: "image_sound img" and "cur \<le> length bytes" "count \<le> MAX_BASE_RELOCATIONS"
  shows "blocks_result img actual previous (drop cur bytes) count out
    (relocation_blocks img actual bytes cur count previous out)"
  using assms(2,3)
proof (induction "length bytes - cur" arbitrary: cur count previous out rule: less_induct)
  case less
  show ?case
  proof (cases "cur < length bytes")
    case False
    then show ?thesis
      using less.prems(2) by (subst relocation_blocks.simps) (simp add: blocks_result_done)
  next
    case lt: True
    from lt show ?thesis
    proof (cases rule: relocation_blocks_step
        [where img = img and actual = actual and count = count and previous = previous and out = out])
      case (error e)
      then show ?thesis by (simp add: blocks_result_error)
    next
      case (block page k)
      let ?es = "take (2 * k) (drop (cur + 8) bytes)" and ?rest = "drop (cur + (8 + 2 * k)) bytes"
      have "entries_result img actual page ?es count out
          (relocation_entries img actual bytes page (cur + 8 + 2 * k) (cur + 8) count out)"
        by (rule relocation_entries_spec [OF snd]) (use block(1) less.prems in simp_all)
      then obtain res new where r: "relocation_entries img actual bytes page (cur + 8 + 2 * k) (cur + 8) count out =
          Some (res, out @ new)" and ok: "\<forall>c. res = Inr c \<longrightarrow> c = count + length new \<and>
          c \<le> MAX_BASE_RELOCATIONS \<and> (\<exists>es. ?es = concat (map to_le_bytes es) \<and> entries_done img actual page es new)"
        unfolding entries_result_def by blast
      show ?thesis
      proof (cases res)
        case (Inl e)
        then show ?thesis using block(7) r by (simp add: blocks_result_def)
      next
        case (Inr c)
        then obtain es where c: "c = count + length new" "c \<le> MAX_BASE_RELOCATIONS"
          and es: "?es = concat (map to_le_bytes es)" "entries_done img actual page es new" using ok by blast
        have "2 * length es = 2 * k"
          using arg_cong [OF es(1), of length] block(1) length_encode_entries [of es] by simp
        then have k: "length es = k" by simp
        have "blocks_result img actual (Some page) ?rest c (out @ new)
            (relocation_blocks img actual bytes (cur + (8 + 2 * k)) c (Some page) (out @ new))"
          by (rule less.hyps) (use lt block(1) c(2) in simp_all)
        from blocks_result_step [OF this c(1) es(2) _ block(3,4,5)] k block(2)
        have "blocks_result img actual previous (encode_block (page, es) @ ?rest) count out
            (relocation_blocks img actual bytes (cur + (8 + 2 * k)) c (Some page) (out @ new))" by simp
        moreover have "encode_block (page, es) @ ?rest = drop cur bytes"
          using block(6) k unfolding encode_block_def es(1) by simp
        ultimately show ?thesis using block(7) r Inr by simp
      qed
    qed
  qed
qed

subsection \<open>The whole scan\<close>

text \<open>The relocation directory of an image, when it is present.\<close>

definition relocation_directory :: "PeImage \<Rightarrow> DataDirectory option" where
  "relocation_directory img =
     opt_filter (\<lambda>d. \<not> DataDirectory_is_empty d) (PeImage_directory img IMAGE_DIRECTORY_ENTRY_BASERELOC)"

definition relocation_sound :: "PeImage \<Rightarrow> u64 \<Rightarrow> BaseRelocationPlan \<Rightarrow> RelocationPatch list \<Rightarrow> bool" where
  "relocation_sound img actual plan ps \<longleftrightarrow>
     (let opt = optional (pe_headers img) in
      65536 dvd unat actual \<and> unat actual + unat (size_of_image opt) < 2 ^ 64 \<and>
      plan = \<lparr>preferred_image_base = image_base opt, actual_image_base = actual,
              image_delta = uint actual - uint (image_base opt), patch_count = length ps\<rparr> \<and>
      length ps \<le> MAX_BASE_RELOCATIONS \<and> (\<forall>p\<in>set ps. patch_ok img actual p) \<and>
      (case relocation_directory img of
         None \<Rightarrow> ps = [] \<and> actual = image_base opt
       | Some d \<Rightarrow>
           \<exists>bl. map (image_byte img) [unat (dir_address d)..<unat (dir_address d) + unat (dir_size d)] =
             concat (map encode_block bl) \<and> table_ok img None bl \<and>
             map target_rva ps = concat (map block_targets bl)))"

lemma relocation_directory_size:
  assumes "image_sound img" "relocation_directory img = Some d"
  shows "dir_size d \<noteq> 0"
proof -
  have "index_opt (pe_directories img) 5 = Some d" "\<not> DataDirectory_is_empty d"
    using assms(2)
    by (auto simp: relocation_directory_def PeImage_directory_def IMAGE_DIRECTORY_ENTRY_BASERELOC_def)
  moreover have "\<forall>i<length (pe_directories img). directory_sound img i (pe_directories img ! i)"
    using assms(1) unfolding image_sound_def Let_def by blast
  ultimately show ?thesis by (auto simp: index_opt_eq_Some directory_sound_def)
qed

lemma base_alignment: "w AND (IMAGE_BASE_ALIGNMENT - 1) = 0 \<longleftrightarrow> 65536 dvd unat w"
proof -
  have "is_power_of_two IMAGE_BASE_ALIGNMENT"
    by (auto simp: is_power_of_two_iff IMAGE_BASE_ALIGNMENT_def intro!: exI [of _ 16])
  from and_pow2_eq_0 [OF this, of w] show ?thesis by (simp add: IMAGE_BASE_ALIGNMENT_def)
qed

lemma unat_ucast_64: "unat (ucast (w :: u32) :: u64) = unat w"
  by (simp add: unsigned_ucast_eq take_bit_eq_mod) (rule mod_less, use unat_less_exp [of w] in simp)

lemma scan_base_relocations_spec:
  assumes snd: "image_sound img"
  shows "\<exists>res ps. scan_base_relocations img actual = Some (res, ps) \<and>
    (\<forall>plan. res = Inr plan \<longrightarrow> relocation_sound img actual plan ps)"
proof -
  let ?opt = "optional (pe_headers img)"
  note scan = scan_base_relocations_def [of img actual, folded relocation_directory_def]
  show ?thesis
  proof (cases "actual AND (IMAGE_BASE_ALIGNMENT - 1) \<noteq> 0 \<or> checked_add actual (ucast (size_of_image ?opt)) = None")
    case True
    then show ?thesis unfolding scan Let_def by auto
  next
    case ok: False
    then have base: "65536 dvd unat actual" "unat actual + unat (size_of_image ?opt) < 2 ^ 64"
      by (auto simp: base_alignment checked_add_def unat_ucast_64 split: if_split_asm)
    show ?thesis
    proof (cases "relocation_directory img")
      case None
      then show ?thesis
        using ok base unfolding scan by (auto simp: relocation_sound_def Let_def MAX_BASE_RELOCATIONS_def)
    next
      case (Some d)
      show ?thesis
      proof (cases "PeImage_section_bytes img (dir_address d) (dir_size d)")
        case (Inl e)
        then show ?thesis using ok Some unfolding scan Let_def by auto
      next
        case (Inr bytes)
        have bytes: "bytes = map (image_byte img) [unat (dir_address d)..<unat (dir_address d) + unat (dir_size d)]"
          using section_bytes_spec [OF snd relocation_directory_size [OF snd Some], of "dir_address d"] Inr by simp
        have "blocks_result img actual None bytes 0 [] (relocation_blocks img actual bytes 0 0 None [])"
          using relocation_blocks_spec [OF snd, of 0 bytes 0 actual None "[]"] by simp
        then obtain res ps where r: "relocation_blocks img actual bytes 0 0 None [] = Some (res, ps)"
          and ok': "\<And>c. res = Inr c \<Longrightarrow> c = length ps \<and> c \<le> MAX_BASE_RELOCATIONS \<and>
            (\<exists>bl. bytes = concat (map encode_block bl) \<and> table_ok img None bl \<and>
               map target_rva ps = concat (map block_targets bl) \<and> (\<forall>p\<in>set ps. patch_ok img actual p))"
          unfolding blocks_result_def by auto
        have "scan_base_relocations img actual = Some (and_then res (\<lambda>count.
            Inr \<lparr>preferred_image_base = image_base ?opt, actual_image_base = actual,
                 image_delta = uint actual - uint (image_base ?opt), patch_count = count\<rparr>), ps)"
          using ok Some Inr r by (auto simp: scan Let_def)
        then show ?thesis
          using ok' base Some bytes by (cases res) (auto simp: relocation_sound_def Let_def)
      qed
    qed
  qed
qed

text \<open>C16. Visiting the base relocations of a parsed image never panics and visits all patches or none. When
  it succeeds, the directory is a well-formed table of blocks, the targets visited are exactly its
  64-bit entries in order, each patch is backed by eight file bytes of one section and carries the value
  the loaded image has there together with that value moved by the difference of the bases, and the
  plan counts the patches. Without a directory it succeeds only at the preferred base.\<close>

theorem relocation_visit_exact:
  assumes "PeImage_parse bytes = Inr img"
  shows "\<exists>res ps. PeImage_visit_base_relocations img actual = Some (res, ps) \<and>
    PeImage_base_relocation_plan img actual = Some res \<and>
    (case res of Inl e \<Rightarrow> ps = [] | Inr plan \<Rightarrow> relocation_sound img actual plan ps)"
proof -
  obtain res ps where r: "scan_base_relocations img actual = Some (res, ps)"
    "\<forall>plan. res = Inr plan \<longrightarrow> relocation_sound img actual plan ps"
    using scan_base_relocations_spec parse_image_sound [OF assms] by blast
  then show ?thesis
    by (cases res) (simp_all add: PeImage_visit_base_relocations_def PeImage_base_relocation_plan_def)
qed

lemma sample_section_bytes:
  "PeImage_section_bytes sample_image 0x2060 12 = Inr [0, 32, 0, 0, 12, 0, 0, 0, 56, 160, 0, 0]"
  "PeImage_section_bytes sample_image 0x2038 8 = Inr [0, 16, 1, 0, 0, 0, 0, 0]"
  by (simp_all add: PeImage_section_bytes_def PeImage_section_file_range_def PeImage_file_bytes_def sample_image_def
      sample_optional_def sample_text_def sample_data_def checked_add_def sample_reads(5) sample_byte_def upt_rec)

lemma sample_scan_at:
  assumes base: "actual AND (IMAGE_BASE_ALIGNMENT - 1) = 0" "checked_add actual 0x3000 = Some x"
    and v: "relocate_value 0x11000 0x10000 actual 0x2038 = Inr v"
  shows "scan_base_relocations sample_image actual =
     Some (Inr \<lparr>preferred_image_base = 0x10000, actual_image_base = actual, image_delta = uint actual - 0x10000, patch_count = 1\<rparr>,
           [\<lparr>target_rva = 0x2038, original_value = 0x11000, relocated_value = v\<rparr>])"
proof -
  let ?bytes = "[0, 32, 0, 0, 12, 0, 0, 0, 56, 160, 0, 0] :: u8 list"
  let ?p = "\<lparr>target_rva = 0x2038, original_value = 0x11000, relocated_value = v\<rparr> :: RelocationPatch"
  have opt: "optional (pe_headers sample_image) = sample_optional" by (simp add: sample_image_def)
  have h: "size_of_image sample_optional = 0x3000" "image_base sample_optional = 0x10000"
    by (simp_all add: sample_optional_def)
  have e: "relocation_entry sample_image actual 0x2000 0 0xA038 = Some (Inr (Some ?p))"
    "relocation_entry sample_image actual 0x2000 1 0 = Some (Inr None)"
    using sample_section_bytes(2) v
    by (simp_all add: relocation_entry_def RELOCATION_TYPE_ABSOLUTE_def RELOCATION_TYPE_DIR64_def
        MAX_BASE_RELOCATIONS_def checked_add_def opt h read_u64_def read_le_def from_le_bytes_def)
  have "relocation_entries sample_image actual ?bytes 0x2000 12 8 0 [] = Some (Inr 1, [?p])"
    using e by (simp add: relocation_entries.simps RELOCATION_ENTRY_SIZE_def slice_opt_def read_u16_def read_le_def
        from_le_bytes_def)
  then have "relocation_blocks sample_image actual ?bytes 0 0 None [] = Some (Inr 1, [?p])"
    by (simp add: relocation_blocks.simps RELOCATION_BLOCK_HEADER_SIZE_def slice_opt_def read_u32_def read_le_def
        from_le_bytes_def RELOCATION_PAGE_SIZE_def opt h)
  moreover have "PeImage_directory sample_image 5 = Some \<lparr>dir_address = 0x2060, dir_size = 12\<rparr>"
    by (simp add: PeImage_directory_def sample_image_def index_opt_def)
  ultimately show ?thesis
    using sample_section_bytes(1) base
    by (simp add: scan_base_relocations_def IMAGE_DIRECTORY_ENTRY_BASERELOC_def DataDirectory_is_empty_def opt h)
qed

lemma sample_scan:
  "scan_base_relocations sample_image 0x20000 =
     Some (Inr \<lparr>preferred_image_base = 0x10000, actual_image_base = 0x20000, image_delta = 0x10000, patch_count = 1\<rparr>,
           [\<lparr>target_rva = 0x2038, original_value = 0x11000, relocated_value = 0x21000\<rparr>])"
  "scan_base_relocations sample_image 0x10000 =
     Some (Inr \<lparr>preferred_image_base = 0x10000, actual_image_base = 0x10000, image_delta = 0, patch_count = 1\<rparr>,
           [\<lparr>target_rva = 0x2038, original_value = 0x11000, relocated_value = 0x11000\<rparr>])"
  using sample_scan_at [of "0x20000" "0x23000" "0x21000"] sample_scan_at [of "0x10000" "0x13000" "0x11000"]
  by (simp_all add: IMAGE_BASE_ALIGNMENT_def checked_add_def relocate_value_def)

theorem relocation_visit_exact_witness:
  "PeImage_parse sample_pe = Inr sample_image \<and>
   PeImage_visit_base_relocations sample_image 0x20000 = scan_base_relocations sample_image 0x20000 \<and>
   (\<exists>plan. relocation_sound sample_image 0x20000 plan
      [\<lparr>target_rva = 0x2038, original_value = 0x11000, relocated_value = 0x21000\<rparr>])"
  using relocation_visit_exact [OF sample_pe_parses, of "0x20000"] sample_pe_parses sample_scan
  by (auto simp: PeImage_visit_base_relocations_def PeImage_base_relocation_plan_def)

end
