(* ===== verification/Pe_Imports.thy ===== *)
theory Pe_Imports
  imports Pe_Relocation
begin

text \<open>
  The import directory (\<open>crates/xenith-pe/src/imports.rs\<close>): descriptors, thunk tables and names, with the
  visitor closure as the list of the records it has been called with. Slices and indices out of range are
  \<open>None\<close>.
\<close>

subsection \<open>Data\<close>

definition MAX_IMPORT_MODULES :: nat where "MAX_IMPORT_MODULES = 256"
definition MAX_IMPORTS_PER_MODULE :: nat where "MAX_IMPORTS_PER_MODULE = 4095"
definition MAX_IMPORTS_TOTAL :: nat where "MAX_IMPORTS_TOTAL = 16384"
definition PE_MAX_IMPORT_NAME_BYTES :: nat where "PE_MAX_IMPORT_NAME_BYTES = 256"
definition IMPORT_DESCRIPTOR_SIZE :: nat where "IMPORT_DESCRIPTOR_SIZE = 20"

definition MAX_IMPORT_DIRECTORY_BYTES :: u32 where
  "MAX_IMPORT_DIRECTORY_BYTES = of_nat ((MAX_IMPORT_MODULES + 1) * IMPORT_DESCRIPTOR_SIZE)"

definition IMPORT_THUNK_SIZE :: u32 where "IMPORT_THUNK_SIZE = 8"
definition ORDINAL_FLAG64 :: u64 where "ORDINAL_FLAG64 = 0x8000000000000000"
definition ORDINAL_RESERVED_MASK64 :: u64 where "ORDINAL_RESERVED_MASK64 = 0x7fffffffffff0000"

record ImportDescriptor =
  original_first_thunk :: u32
  bind_time_date_stamp :: u32
  forwarder_chain :: u32
  name_rva :: u32
  first_thunk :: u32

definition ImportDescriptor_is_null :: "ImportDescriptor \<Rightarrow> bool" where
  "ImportDescriptor_is_null self \<longleftrightarrow>
     original_first_thunk self = 0 \<and> bind_time_date_stamp self = 0 \<and> forwarder_chain self = 0 \<and>
     name_rva self = 0 \<and> first_thunk self = 0"

datatype PeImportTarget = PeOrdinal u16 | PeName u16 "u8 list"

record ImportRecord =
  descriptor_index :: nat
  thunk_index :: nat
  descriptor :: ImportDescriptor
  import_module_name :: "u8 list"
  lookup_rva :: u32
  iat_rva :: u32
  import_target :: PeImportTarget

record ImportSummary =
  module_count :: nat
  import_count :: nat

subsection \<open>Operations\<close>

definition parse_descriptor :: "u8 list \<Rightarrow> ImportDescriptor option" where
  "parse_descriptor bytes =
     do {
       b0 \<leftarrow> slice_opt bytes 0 4; f0 \<leftarrow> read_u32 b0;
       b4 \<leftarrow> slice_opt bytes 4 8; f4 \<leftarrow> read_u32 b4;
       b8 \<leftarrow> slice_opt bytes 8 12; f8 \<leftarrow> read_u32 b8;
       b12 \<leftarrow> slice_opt bytes 12 16; f12 \<leftarrow> read_u32 b12;
       b16 \<leftarrow> slice_opt bytes 16 20; f16 \<leftarrow> read_u32 b16;
       Some \<lparr>original_first_thunk = f0, bind_time_date_stamp = f4, forwarder_chain = f8,
             name_rva = f12, first_thunk = f16\<rparr>
     }"

definition lookup_table_rva :: "ImportDescriptor \<Rightarrow> u32" where
  "lookup_table_rva d = (if original_first_thunk d = 0 then first_thunk d else original_first_thunk d)"

definition validate_descriptor_fields :: "ImportDescriptor \<Rightarrow> nat \<Rightarrow> PeError + unit" where
  "validate_descriptor_fields d index =
     (if name_rva d = 0 then Inl (MissingImportModuleName index)
      else if first_thunk d = 0 then Inl (MissingImportAddressTable index)
      else if lookup_table_rva d AND (IMPORT_THUNK_SIZE - 1) \<noteq> 0
      then Inl (ImportThunkTableMisaligned index (lookup_table_rva d))
      else if first_thunk d AND (IMPORT_THUNK_SIZE - 1) \<noteq> 0
      then Inl (ImportThunkTableMisaligned index (first_thunk d))
      else Inr ())"

definition thunk_rva :: "u32 \<Rightarrow> nat \<Rightarrow> PeError + u32" where
  "thunk_rva table_rva index =
     and_then (ok_or (if index < 2 ^ 32 then checked_mul (of_nat index) IMPORT_THUNK_SIZE else None)
                (ArithmeticOverflow ''import thunk byte offset'')) (\<lambda>byte_offset.
       ok_or (checked_add table_rva byte_offset) (ArithmeticOverflow ''import thunk RVA''))"

text \<open>The loop of \<open>read_ascii_name\<close> over the candidate lengths.\<close>

fun ascii_name_scan :: "PeImage \<Rightarrow> u32 \<Rightarrow> nat list \<Rightarrow> (PeError + u8 list) option" where
  "ascii_name_scan img rva [] = Some (Inl (ImportNameTooLong rva PE_MAX_IMPORT_NAME_BYTES))"
| "ascii_name_scan img rva (len # rest) =
     (case checked_add rva (of_nat len) of
        None \<Rightarrow> Some (Inl (RvaOutsideImage rva (- 1)))
      | Some byte_rva \<Rightarrow>
          (case PeImage_section_bytes img byte_rva 1 of
             Inl e \<Rightarrow> Some (Inl e)
           | Inr bytes \<Rightarrow>
               do {
                 byte \<leftarrow> index_opt bytes 0;
                 if byte = 0 then
                   (if len = 0 then Some (Inl (EmptyImportName rva))
                    else Some (PeImage_section_bytes img rva (of_nat len)))
                 else if \<not> (0x20 \<le> byte \<and> byte \<le> 0x7e) then Some (Inl (InvalidImportNameByte rva len byte))
                 else ascii_name_scan img rva rest
               }))"

definition read_ascii_name :: "PeImage \<Rightarrow> u32 \<Rightarrow> (PeError + u8 list) option" where
  "read_ascii_name img rva = ascii_name_scan img rva [0..<PE_MAX_IMPORT_NAME_BYTES + 1]"

definition parse_target :: "PeImage \<Rightarrow> nat \<Rightarrow> nat \<Rightarrow> u64 \<Rightarrow> (PeError + PeImportTarget) option" where
  "parse_target img desc thunk value =
     (if value AND ORDINAL_FLAG64 \<noteq> 0 then
        if value AND ORDINAL_RESERVED_MASK64 \<noteq> 0
        then Some (Inl (InvalidOrdinalImportEncoding desc thunk value))
        else let ordinal = ucast value :: u16 in
          if ordinal = 0 then Some (Inl (InvalidImportOrdinal desc thunk))
          else Some (Inr (PeOrdinal ordinal))
      else if 2 ^ 32 \<le> unat value then Some (Inl (ImportNameRvaTooWide desc thunk value))
      else
        let hint_rva = ucast value :: u32 in
        case PeImage_section_bytes img hint_rva 2 of
          Inl e \<Rightarrow> Some (Inl e)
        | Inr bytes \<Rightarrow>
            do {
              hint \<leftarrow> read_u16 bytes;
              case checked_add hint_rva 2 of
                None \<Rightarrow> Some (Inl (RvaOutsideImage hint_rva 2))
              | Some string_rva \<Rightarrow>
                  map_option (\<lambda>r. and_then r (\<lambda>name. Inr (PeName hint name))) (read_ascii_name img string_rva)
            })"

text \<open>Reading one eight-byte thunk at an address.\<close>

definition read_thunk :: "PeImage \<Rightarrow> u32 \<Rightarrow> (PeError + u64) option" where
  "read_thunk img rva =
     (case PeImage_section_bytes img rva IMPORT_THUNK_SIZE of
        Inl e \<Rightarrow> Some (Inl e)
      | Inr bytes \<Rightarrow> map_option Inr (read_u64 bytes))"

text \<open>One turn of the loop over the thunks of a module: \<open>None\<close> at the terminator, or a record.\<close>

definition import_thunk ::
  "PeImage \<Rightarrow> nat \<Rightarrow> ImportDescriptor \<Rightarrow> u8 list \<Rightarrow> nat \<Rightarrow> nat \<Rightarrow> (PeError + ImportRecord option) option" where
  "import_thunk img index d name module_imports count =
     (if MAX_IMPORTS_PER_MODULE < module_imports
      then Some (Inl (UnterminatedImportThunkTable index MAX_IMPORTS_PER_MODULE))
      else case thunk_rva (lookup_table_rva d) module_imports of
        Inl e \<Rightarrow> Some (Inl e)
      | Inr lookup \<Rightarrow>
      (case thunk_rva (first_thunk d) module_imports of
        Inl e \<Rightarrow> Some (Inl e)
      | Inr iat \<Rightarrow>
      do {
        lookup_result \<leftarrow> read_thunk img lookup;
        case lookup_result of
          Inl e \<Rightarrow> Some (Inl e)
        | Inr lookup_value \<Rightarrow>
        do {
          iat_result \<leftarrow> read_thunk img iat;
          case iat_result of
            Inl e \<Rightarrow> Some (Inl e)
          | Inr iat_value \<Rightarrow>
          if lookup_value = 0 then
            (if module_imports = 0 then Some (Inl (EmptyImportThunkTable index))
             else if iat_value \<noteq> 0 then Some (Inl (NonZeroImportAddressTerminator index iat iat_value))
             else Some (Inr None))
          else if module_imports = MAX_IMPORTS_PER_MODULE
          then Some (Inl (UnterminatedImportThunkTable index MAX_IMPORTS_PER_MODULE))
          else if 2 ^ 64 \<le> count + 1 then Some (Inl (TooManyImports (2 ^ 64 - 1) MAX_IMPORTS_TOTAL))
          else if MAX_IMPORTS_TOTAL < count + 1 then Some (Inl (TooManyImports (count + 1) MAX_IMPORTS_TOTAL))
          else map_option (\<lambda>r. and_then r (\<lambda>target.
                 Inr (Some \<lparr>descriptor_index = index, thunk_index = module_imports, descriptor = d,
                            import_module_name = name, lookup_rva = lookup, iat_rva = iat,
                            import_target = target\<rparr>)))
               (parse_target img index module_imports lookup_value)
        }
      }))"

lemma import_thunk_InrE:
  assumes "import_thunk img index d name m count = Some (Inr res)"
  obtains lookup iat lv iv where "thunk_rva (lookup_table_rva d) m = Inr lookup" "thunk_rva (first_thunk d) m = Inr iat"
    "read_thunk img lookup = Some (Inr lv)" "read_thunk img iat = Some (Inr iv)"
    "lv = 0 \<longrightarrow> m \<noteq> 0 \<and> iv = 0 \<and> res = None"
    "lv \<noteq> 0 \<longrightarrow> m < MAX_IMPORTS_PER_MODULE \<and> count < MAX_IMPORTS_TOTAL \<and>
       (\<exists>target. parse_target img index m lv = Some (Inr target) \<and>
          res = Some \<lparr>descriptor_index = index, thunk_index = m, descriptor = d, import_module_name = name,
                       lookup_rva = lookup, iat_rva = iat, import_target = target\<rparr>)"
proof -
  have m: "m \<le> MAX_IMPORTS_PER_MODULE" using assms by (auto simp: import_thunk_def split: if_split_asm)
  obtain lookup iat where t: "thunk_rva (lookup_table_rva d) m = Inr lookup" "thunk_rva (first_thunk d) m = Inr iat"
    using assms m by (auto simp: import_thunk_def split: sum.split_asm)
  obtain lv where lv: "read_thunk img lookup = Some (Inr lv)"
    using assms m t by (cases "read_thunk img lookup") (auto simp: import_thunk_def split: sum.split_asm)
  obtain iv where iv: "read_thunk img iat = Some (Inr iv)"
    using assms m t lv by (cases "read_thunk img iat") (auto simp: import_thunk_def split: sum.split_asm)
  show thesis
    by (rule that [OF t lv iv])
       (use assms m t lv iv in \<open>auto simp: import_thunk_def and_then_eq_Inr not_less split: if_split_asm\<close>)
qed

text \<open>The loop over the thunks of one module; the count and the records so far are carried along.\<close>

function import_thunks ::
  "PeImage \<Rightarrow> nat \<Rightarrow> ImportDescriptor \<Rightarrow> u8 list \<Rightarrow> nat \<Rightarrow> nat \<Rightarrow> ImportRecord list \<Rightarrow>
   ((PeError + nat) \<times> ImportRecord list) option" where
  "import_thunks img index d name module_imports count out =
     do {
       step \<leftarrow> import_thunk img index d name module_imports count;
       case step of
         Inl e \<Rightarrow> Some (Inl e, out)
       | Inr None \<Rightarrow> Some (Inr count, out)
       | Inr (Some rec) \<Rightarrow> import_thunks img index d name (module_imports + 1) (count + 1) (out @ [rec])
     }"
  by pat_completeness auto

termination
  by (relation "measure (\<lambda>(img, index, d, name, m, count, out). MAX_IMPORTS_PER_MODULE - m)")
     (auto elim!: import_thunk_InrE)

declare import_thunks.simps [simp del]

text \<open>The loop over the descriptors, with the counts of modules and of imports and the records so far.\<close>

fun import_descriptors ::
  "PeImage \<Rightarrow> u8 list \<Rightarrow> nat list \<Rightarrow> nat \<Rightarrow> nat \<Rightarrow> ImportRecord list \<Rightarrow>
   ((PeError + ImportSummary) \<times> ImportRecord list) option" where
  "import_descriptors img bytes [] modules count out = Some (Inl UnterminatedImportDirectory, out)"
| "import_descriptors img bytes (index # rest) modules count out =
     (let offset = index * IMPORT_DESCRIPTOR_SIZE in
      do {
        slot \<leftarrow> slice_opt bytes offset (offset + IMPORT_DESCRIPTOR_SIZE);
        d \<leftarrow> parse_descriptor slot;
        if ImportDescriptor_is_null d then
          do {
            tail \<leftarrow> slice_opt bytes (offset + IMPORT_DESCRIPTOR_SIZE) (length bytes);
            case position (\<lambda>byte. byte \<noteq> 0) tail of
              Some tail_offset \<Rightarrow>
                let at = offset + IMPORT_DESCRIPTOR_SIZE + tail_offset in
                Some (if at < 2 ^ 32 then Inl (NonZeroImportDirectoryTail (of_nat at))
                      else Inl (ArithmeticOverflow ''import directory tail offset''), out)
            | None \<Rightarrow> Some (Inr \<lparr>module_count = modules, import_count = count\<rparr>, out)
          }
        else if MAX_IMPORT_MODULES < modules + 1
        then Some (Inl (TooManyImportModules (modules + 1) MAX_IMPORT_MODULES), out)
        else case validate_descriptor_fields d index of
          Inl e \<Rightarrow> Some (Inl e, out)
        | Inr _ \<Rightarrow>
            do {
              name_result \<leftarrow> read_ascii_name img (name_rva d);
              case name_result of
                Inl e \<Rightarrow> Some (Inl e, out)
              | Inr name \<Rightarrow>
                  do {
                    (result, out) \<leftarrow> import_thunks img index d name 0 count out;
                    case result of
                      Inl e \<Rightarrow> Some (Inl e, out)
                    | Inr count \<Rightarrow> import_descriptors img bytes rest (modules + 1) count out
                  }
            }
      })"

definition scan_imports :: "PeImage \<Rightarrow> ((PeError + ImportSummary) \<times> ImportRecord list) option" where
  "scan_imports img =
     (case opt_filter (\<lambda>d. \<not> DataDirectory_is_empty d) (PeImage_directory img IMAGE_DIRECTORY_ENTRY_IMPORT) of
        None \<Rightarrow> Some (Inr \<lparr>module_count = 0, import_count = 0\<rparr>, [])
      | Some d \<Rightarrow>
          if dir_size d = 0 \<or> dir_size d mod of_nat IMPORT_DESCRIPTOR_SIZE \<noteq> 0
          then Some (Inl (InvalidImportDirectorySize (dir_size d)), [])
          else if MAX_IMPORT_DIRECTORY_BYTES < dir_size d
          then Some (Inl (ImportDirectoryTooLarge (dir_size d) MAX_IMPORT_DIRECTORY_BYTES), [])
          else case PeImage_section_bytes img (dir_address d) (dir_size d) of
            Inl e \<Rightarrow> Some (Inl e, [])
          | Inr bytes \<Rightarrow> import_descriptors img bytes [0..<length bytes div IMPORT_DESCRIPTOR_SIZE] 0 0 [])"

definition PeImage_import_summary :: "PeImage \<Rightarrow> (PeError + ImportSummary) option" where
  "PeImage_import_summary img = map_option fst (scan_imports img)"

definition PeImage_visit_imports :: "PeImage \<Rightarrow> ((PeError + ImportSummary) \<times> ImportRecord list) option" where
  "PeImage_visit_imports img =
     do {
       validated \<leftarrow> PeImage_import_summary img;
       case validated of
         Inl e \<Rightarrow> Some (Inl e, [])
       | Inr summary \<Rightarrow>
           do {
             (emitted, out) \<leftarrow> scan_imports img;
             Some (and_then emitted (\<lambda>_. Inr summary), out)
           }
     }"

subsection \<open>What a scanned import table means\<close>

definition backed :: "PeImage \<Rightarrow> nat \<Rightarrow> nat \<Rightarrow> bool" where
  "backed img a n \<longleftrightarrow> (\<exists>s\<in>set (pe_sections img). {a..<a + n} \<subseteq> sec_file_backed s)"

definition bytes_at :: "PeImage \<Rightarrow> nat \<Rightarrow> nat \<Rightarrow> u8 list" where
  "bytes_at img a n = map (image_byte img) [a..<a + n]"

definition thunk_at :: "PeImage \<Rightarrow> nat \<Rightarrow> u64" where
  "thunk_at img a = from_le_bytes (bytes_at img a 8)"

text \<open>A printable, NUL-terminated name of 1 to 256 characters in file-backed bytes of the image.\<close>

definition cstring_at :: "PeImage \<Rightarrow> nat \<Rightarrow> u8 list \<Rightarrow> bool" where
  "cstring_at img a name \<longleftrightarrow>
     name \<noteq> [] \<and> length name \<le> PE_MAX_IMPORT_NAME_BYTES \<and> name = bytes_at img a (length name) \<and>
     (\<forall>b\<in>set name. 0x20 \<le> b \<and> b \<le> 0x7e) \<and> backed img a (length name) \<and>
     backed img (a + length name) 1 \<and> image_byte img (a + length name) = 0"

text \<open>The target that the value of a lookup thunk encodes.\<close>

definition target_ok :: "PeImage \<Rightarrow> u64 \<Rightarrow> PeImportTarget \<Rightarrow> bool" where
  "target_ok img v t =
     (case t of
        PeOrdinal n \<Rightarrow> n \<noteq> 0 \<and> v = ORDINAL_FLAG64 OR ucast n
      | PeName hint name \<Rightarrow> unat v < 2 ^ 32 \<and> backed img (unat v) 2 \<and>
          hint = from_le_bytes (bytes_at img (unat v) 2) \<and> cstring_at img (unat v + 2) name)"

lemma section_bytes_InrD:
  assumes "image_sound img" "n \<noteq> 0" "PeImage_section_bytes img rva n = Inr bs"
  shows "backed img (unat rva) (unat n)" "bs = bytes_at img (unat rva) (unat n)"
  using section_bytes_spec [OF assms(1,2), of rva] assms(3) by (simp_all add: backed_def bytes_at_def)

lemma length_bytes_at [simp]: "length (bytes_at img a n) = n"
  by (simp add: bytes_at_def)

lemma bytes_at_eq_Nil [simp]: "bytes_at img a n = [] \<longleftrightarrow> n = 0"
  by (auto simp: bytes_at_def)

lemma read_thunk_spec:
  assumes "image_sound img"
  shows "\<exists>r. read_thunk img rva = Some r \<and>
    (\<forall>v. r = Inr v \<longrightarrow> backed img (unat rva) 8 \<and> v = thunk_at img (unat rva))"
proof (cases "PeImage_section_bytes img rva 8")
  case (Inl e)
  then show ?thesis by (simp add: read_thunk_def IMPORT_THUNK_SIZE_def)
next
  case (Inr bs)
  then have "backed img (unat rva) 8" "bs = bytes_at img (unat rva) 8"
    using section_bytes_InrD [OF assms _ Inr] by simp_all
  then show ?thesis
    using Inr read_ok(3) [of bs] by (simp add: read_thunk_def IMPORT_THUNK_SIZE_def thunk_at_def)
qed

lemma unat_of_nat_small: "k < 2 ^ 32 \<Longrightarrow> unat (of_nat k :: u32) = k"
  by (simp add: unsigned_of_nat take_bit_eq_mod)

lemma cstring_found:
  assumes "image_sound img" "0 < k" "k \<le> 256"
    and "\<forall>j<k. 0x20 \<le> image_byte img (unat rva + j) \<and> image_byte img (unat rva + j) \<le> 0x7e"
    and "image_byte img (unat rva + k) = 0" "backed img (unat rva + k) 1"
    and "PeImage_section_bytes img rva (of_nat k) = Inr name"
  shows "cstring_at img (unat rva) name"
proof -
  have k: "unat (of_nat k :: u32) = k" using assms(3) by (simp add: unat_of_nat_small)
  then have "of_nat k \<noteq> (0 :: u32)" using assms(2) by (metis less_irrefl unsigned_0)
  then have "backed img (unat rva) k" "name = bytes_at img (unat rva) k"
    using section_bytes_InrD [OF assms(1) _ assms(7)] k by simp_all
  moreover have "\<forall>b\<in>set (bytes_at img (unat rva) k). 0x20 \<le> b \<and> b \<le> 0x7e"
    unfolding all_set_conv_all_nth using assms(4) by (simp add: bytes_at_def)
  ultimately show ?thesis
    using assms(2,3,5,6) by (auto simp: cstring_at_def PE_MAX_IMPORT_NAME_BYTES_def)
qed

lemma ascii_name_scan_spec:
  assumes snd: "image_sound img" and "k \<le> 257"
    and "\<forall>j<k. 0x20 \<le> image_byte img (unat rva + j) \<and> image_byte img (unat rva + j) \<le> 0x7e"
  shows "\<exists>r. ascii_name_scan img rva [k..<257] = Some r \<and> (\<forall>name. r = Inr name \<longrightarrow> cstring_at img (unat rva) name)"
  using assms(2,3)
proof (induction "257 - k" arbitrary: k)
  case 0
  then show ?case by simp
next
  case (Suc d)
  then have k: "k < 257" "[k..<257] = k # [Suc k..<257]" by (simp_all add: upt_conv_Cons)
  have uk: "unat (of_nat k :: u32) = k" using k(1) by (simp add: unsigned_of_nat take_bit_eq_mod)
  show ?case
  proof (cases "checked_add rva (of_nat k)")
    case None
    then show ?thesis by (simp add: k(2))
  next
    case (Some b)
    then have ub: "unat b = unat rva + k" using unat_checked_add [OF Some] uk by simp
    show ?thesis
    proof (cases "PeImage_section_bytes img b 1")
      case (Inl e)
      then show ?thesis using Some by (simp add: k(2))
    next
      case (Inr bs)
      have bs: "backed img (unat rva + k) 1" "bs = [image_byte img (unat rva + k)]"
        using section_bytes_InrD [OF snd _ Inr] ub by (simp_all add: bytes_at_def)
      let ?c = "image_byte img (unat rva + k)"
      consider (zero) "?c = 0" | (bad) "?c \<noteq> 0" "\<not> (0x20 \<le> ?c \<and> ?c \<le> 0x7e)" | (more) "?c \<noteq> 0" "0x20 \<le> ?c \<and> ?c \<le> 0x7e"
        by blast
      then show ?thesis
      proof cases
        case zero
        have "\<exists>r. ascii_name_scan img rva [k..<257] = Some r \<and> (k = 0 \<longrightarrow> (\<exists>e. r = Inl e)) \<and>
            (k \<noteq> 0 \<longrightarrow> r = PeImage_section_bytes img rva (of_nat k))"
          using zero Some Inr bs(2) by (simp add: k(2) index_opt_def)
        then show ?thesis
          using cstring_found [OF snd _ _ Suc.prems(2) zero bs(1)] k(1) by (cases "k = 0") auto
      next
        case bad
        then show ?thesis using Some Inr bs(2) by (auto simp: k(2) index_opt_def)
      next
        case more
        have "\<forall>j<Suc k. 0x20 \<le> image_byte img (unat rva + j) \<and> image_byte img (unat rva + j) \<le> 0x7e"
          using Suc.prems(2) more(2) less_Suc_eq by auto
        from Suc.hyps(1) [OF _ _ this] show ?thesis
          using Suc.hyps(2) k(1) Some Inr bs(2) more by (simp add: k(2) index_opt_def)
      qed
    qed
  qed
qed

lemma read_ascii_name_spec:
  assumes "image_sound img"
  shows "\<exists>r. read_ascii_name img rva = Some r \<and> (\<forall>name. r = Inr name \<longrightarrow> cstring_at img (unat rva) name)"
  using ascii_name_scan_spec [OF assms, of 0 rva] by (simp add: read_ascii_name_def PE_MAX_IMPORT_NAME_BYTES_def)

lemma bit_shifted_mask: "bit (push_bit a (mask b) :: u64) i \<longleftrightarrow> i < 64 \<and> a \<le> i \<and> i < a + b"
  by (auto simp: bit_simps)

lemma ordinal_bits:
  "bit ORDINAL_FLAG64 i \<longleftrightarrow> i = 63" "bit ORDINAL_RESERVED_MASK64 i \<longleftrightarrow> 16 \<le> i \<and> i < 63"
proof -
  have flag: "ORDINAL_FLAG64 = push_bit 63 (mask 1)" by (simp add: ORDINAL_FLAG64_def)
  have res: "ORDINAL_RESERVED_MASK64 = push_bit 16 (mask 47)"
    by (simp add: ORDINAL_RESERVED_MASK64_def mask_eq_exp_minus_1)
  show "bit ORDINAL_FLAG64 i \<longleftrightarrow> i = 63" "bit ORDINAL_RESERVED_MASK64 i \<longleftrightarrow> 16 \<le> i \<and> i < 63"
    unfolding flag res bit_shifted_mask by auto
qed

lemma ordinal_value:
  assumes "v AND ORDINAL_FLAG64 \<noteq> 0" "v AND ORDINAL_RESERVED_MASK64 = 0"
  shows "v = ORDINAL_FLAG64 OR ucast (ucast v :: u16)"
proof -
  obtain j where "bit (v AND ORDINAL_FLAG64) j" using assms(1) bit_eqI [of "v AND ORDINAL_FLAG64" 0] by auto
  then have top: "bit v 63" by (auto simp: bit_and_iff ordinal_bits)
  have mid: "\<not> bit v i" if "16 \<le> i" "i < 63" for i
    using arg_cong [OF assms(2), of "\<lambda>w. bit w i"] that by (simp add: bit_and_iff ordinal_bits)
  show ?thesis
  proof (rule bit_word_eqI)
    fix i assume i: "i < LENGTH(64)"
    have "i < 16 \<or> 16 \<le> i \<and> i < 63 \<or> i = 63" using i by auto
    then show "bit v i = bit (ORDINAL_FLAG64 OR ucast (ucast v :: u16)) i"
      using top mid by (elim disjE) (simp_all add: bit_or_iff bit_ucast_iff ordinal_bits)
  qed
qed

lemma parse_target_spec:
  assumes snd: "image_sound img"
  shows "\<exists>r. parse_target img desc thunk v = Some r \<and> (\<forall>t. r = Inr t \<longrightarrow> target_ok img v t)"
proof (cases "v AND ORDINAL_FLAG64 \<noteq> 0 \<or> 2 ^ 32 \<le> unat v")
  case True
  then show ?thesis
    using ordinal_value [of v] by (auto simp: parse_target_def Let_def target_ok_def)
next
  case False
  let ?h = "ucast v :: u32"
  have h: "unat ?h = unat v" using False by (simp add: unsigned_ucast_eq take_bit_eq_mod)
  show ?thesis
  proof (cases "PeImage_section_bytes img ?h 2")
    case (Inl e)
    then show ?thesis using False by (simp add: parse_target_def)
  next
    case (Inr bs)
    have bs: "backed img (unat v) 2" "bs = bytes_at img (unat v) 2"
      using section_bytes_InrD [OF snd _ Inr] h by simp_all
    show ?thesis
    proof (cases "checked_add ?h 2")
      case None
      then show ?thesis using False Inr bs read_ok(1) [of bs] by (simp add: parse_target_def)
    next
      case (Some sr)
      obtain r where r: "read_ascii_name img sr = Some r" "\<forall>name. r = Inr name \<longrightarrow> cstring_at img (unat v + 2) name"
        using read_ascii_name_spec [OF snd, of sr] unat_checked_add [OF Some] h by auto
      have "parse_target img desc thunk v = Some (and_then r (\<lambda>name. Inr (PeName (from_le_bytes bs) name)))"
        using False Inr Some r(1) bs(2) read_ok(1) [of bs] by (simp add: parse_target_def)
      then show ?thesis
        using False r(2) bs by (cases r) (auto simp: target_ok_def)
    qed
  qed
qed

text \<open>The slots of a module: the lookup thunk and the import address with a given index.\<close>

definition lookup_slot :: "ImportDescriptor \<Rightarrow> nat \<Rightarrow> nat" where
  "lookup_slot d k = unat (lookup_table_rva d) + 8 * k"

definition iat_slot :: "ImportDescriptor \<Rightarrow> nat \<Rightarrow> nat" where
  "iat_slot d k = unat (first_thunk d) + 8 * k"

definition slot_ok :: "PeImage \<Rightarrow> ImportDescriptor \<Rightarrow> nat \<Rightarrow> bool" where
  "slot_ok img d k \<longleftrightarrow> backed img (lookup_slot d k) 8 \<and> backed img (iat_slot d k) 8"

definition import_record :: "nat \<Rightarrow> ImportDescriptor \<Rightarrow> u8 list \<Rightarrow> nat \<times> PeImportTarget \<Rightarrow> ImportRecord" where
  "import_record index d name = (\<lambda>(k, t).
     \<lparr>descriptor_index = index, thunk_index = k, descriptor = d, import_module_name = name,
      lookup_rva = of_nat (lookup_slot d k), iat_rva = of_nat (iat_slot d k), import_target = t\<rparr>)"

text \<open>The thunks of a module from index \<open>m\<close> on: targets \<open>ts\<close> followed by a null terminator in both tables.\<close>

definition thunks_ok :: "PeImage \<Rightarrow> ImportDescriptor \<Rightarrow> nat \<Rightarrow> PeImportTarget list \<Rightarrow> bool" where
  "thunks_ok img d m ts \<longleftrightarrow>
     (\<forall>k<length ts. slot_ok img d (m + k) \<and> thunk_at img (lookup_slot d (m + k)) \<noteq> 0 \<and>
        target_ok img (thunk_at img (lookup_slot d (m + k))) (ts ! k)) \<and>
     slot_ok img d (m + length ts) \<and> thunk_at img (lookup_slot d (m + length ts)) = 0 \<and>
     thunk_at img (iat_slot d (m + length ts)) = 0 \<and>
     m + length ts \<noteq> 0 \<and> m + length ts \<le> MAX_IMPORTS_PER_MODULE"

lemma thunk_rva_InrD:
  assumes "thunk_rva t k = Inr r"
  shows "unat r = unat t + 8 * k" "r = of_nat (unat t + 8 * k)"
proof -
  obtain off where o: "k < 2 ^ 32" "checked_mul (of_nat k) IMPORT_THUNK_SIZE = Some off" "checked_add t off = Some r"
    using assms by (auto simp: thunk_rva_def and_then_eq_Inr split: if_split_asm)
  then have "unat off = k * 8"
    using unat_checked_mul [OF o(2)] by (simp add: unat_of_nat_small IMPORT_THUNK_SIZE_def)
  then show r: "unat r = unat t + 8 * k" using unat_checked_add [OF o(3)] by simp
  have "of_nat (unat r) = r" by simp
  then show "r = of_nat (unat t + 8 * k)" unfolding r by (rule sym)
qed

lemma import_thunk_total:
  assumes snd: "image_sound img"
  shows "\<exists>r. import_thunk img index d name m count = Some r"
proof -
  note rt = read_thunk_spec [OF snd] and pt = parse_target_spec [OF snd]
  show ?thesis
  proof (cases "thunk_rva (lookup_table_rva d) m")
    case (Inl e) then show ?thesis by (simp add: import_thunk_def)
  next
    case l: (Inr lookup)
    show ?thesis
    proof (cases "thunk_rva (first_thunk d) m")
      case (Inl e) then show ?thesis using l by (simp add: import_thunk_def)
    next
      case i: (Inr iat)
      obtain r1 r2 where "read_thunk img lookup = Some r1" "read_thunk img iat = Some r2" using rt by blast
      moreover have "\<exists>r. parse_target img index k v = Some r" for k v using pt by blast
      ultimately show ?thesis
        using l i by (cases r1; cases r2) (simp_all add: import_thunk_def)
    qed
  qed
qed

lemma import_thunk_spec:
  assumes snd: "image_sound img" and r: "import_thunk img index d name m count = Some (Inr res)"
  shows "slot_ok img d m" "res = None \<Longrightarrow> thunks_ok img d m []"
    "res = Some p \<Longrightarrow> thunk_at img (lookup_slot d m) \<noteq> 0 \<and> count < MAX_IMPORTS_TOTAL \<and>
       (\<exists>t. target_ok img (thunk_at img (lookup_slot d m)) t \<and> p = import_record index d name (m, t))"
proof -
  from r obtain lookup iat lv iv where t: "thunk_rva (lookup_table_rva d) m = Inr lookup"
      "thunk_rva (first_thunk d) m = Inr iat"
      "read_thunk img lookup = Some (Inr lv)" "read_thunk img iat = Some (Inr iv)"
    and zero: "lv = 0 \<longrightarrow> m \<noteq> 0 \<and> iv = 0 \<and> res = None"
    and more: "lv \<noteq> 0 \<longrightarrow> m < MAX_IMPORTS_PER_MODULE \<and> count < MAX_IMPORTS_TOTAL \<and>
       (\<exists>target. parse_target img index m lv = Some (Inr target) \<and>
          res = Some \<lparr>descriptor_index = index, thunk_index = m, descriptor = d, import_module_name = name,
                       lookup_rva = lookup, iat_rva = iat, import_target = target\<rparr>)"
    by (rule import_thunk_InrE)
  have slots: "lookup_slot d m = unat lookup" "iat_slot d m = unat iat"
    "lookup = of_nat (lookup_slot d m)" "iat = of_nat (iat_slot d m)"
    using thunk_rva_InrD [OF t(1)] thunk_rva_InrD [OF t(2)] by (simp_all add: lookup_slot_def iat_slot_def)
  have v: "backed img (lookup_slot d m) 8" "lv = thunk_at img (lookup_slot d m)"
    "backed img (iat_slot d m) 8" "iv = thunk_at img (iat_slot d m)"
    using read_thunk_spec [OF snd, of lookup] read_thunk_spec [OF snd, of iat] t(3,4) slots(1,2) by auto
  show s: "slot_ok img d m" using v by (simp add: slot_ok_def)
  have m: "m \<le> MAX_IMPORTS_PER_MODULE" using r by (auto simp: import_thunk_def split: if_split_asm)
  show "thunks_ok img d m []" if "res = None"
    using that zero more s v m by (cases "lv = 0") (auto simp: thunks_ok_def)
  show "thunk_at img (lookup_slot d m) \<noteq> 0 \<and> count < MAX_IMPORTS_TOTAL \<and>
       (\<exists>t. target_ok img (thunk_at img (lookup_slot d m)) t \<and> p = import_record index d name (m, t))" if p: "res = Some p"
  proof -
    have nz: "lv \<noteq> 0" using p zero by auto
    then obtain target where tg: "parse_target img index m lv = Some (Inr target)" "count < MAX_IMPORTS_TOTAL"
      "p = import_record index d name (m, target)"
      using more p slots(3,4) by (auto simp: import_record_def)
    moreover have "target_ok img lv target" using parse_target_spec [OF snd, of index m lv] tg(1) by auto
    ultimately show ?thesis using nz v(2) by blast
  qed
qed

lemma thunks_ok_Cons:
  assumes "slot_ok img d m" "thunk_at img (lookup_slot d m) \<noteq> 0"
    "target_ok img (thunk_at img (lookup_slot d m)) t" "thunks_ok img d (Suc m) ts"
  shows "thunks_ok img d m (t # ts)"
  using assms unfolding thunks_ok_def by (auto simp: less_Suc_eq_0_disj)

lemma import_thunks_spec:
  assumes snd: "image_sound img" and "count \<le> MAX_IMPORTS_TOTAL"
  shows "\<exists>res new. import_thunks img index d name m count out = Some (res, out @ new) \<and>
    (\<forall>c. res = Inr c \<longrightarrow> c = count + length new \<and> c \<le> MAX_IMPORTS_TOTAL \<and>
      (\<exists>ts. new = map (import_record index d name) (enumerate m ts) \<and> thunks_ok img d m ts))"
  using assms(2)
proof (induction "MAX_IMPORTS_PER_MODULE - m" arbitrary: m count out rule: less_induct)
  case less
  obtain r where r: "import_thunk img index d name m count = Some r" using import_thunk_total [OF snd] by blast
  note unf = import_thunks.simps [of img index d name m count out, unfolded r]
  show ?case
  proof (cases r)
    case (Inl e)
    then show ?thesis by (simp add: unf)
  next
    case (Inr res)
    note t = import_thunk_spec [OF snd r [unfolded Inr]]
    show ?thesis
    proof (cases res)
      case None
      have "\<exists>ts. [] = map (import_record index d name) (enumerate m ts) \<and> thunks_ok img d m ts"
        using t(2) [OF None] by (intro exI [of _ "[]"]) simp
      then show ?thesis using Inr None less.prems by (simp add: unf)
    next
      case (Some p)
      then obtain tg where p: "thunk_at img (lookup_slot d m) \<noteq> 0" "count < MAX_IMPORTS_TOTAL"
        "target_ok img (thunk_at img (lookup_slot d m)) tg" "p = import_record index d name (m, tg)"
        using t(3) by blast
      have m: "m < MAX_IMPORTS_PER_MODULE" using r Inr Some by (auto elim!: import_thunk_InrE)
      obtain res' new where n: "import_thunks img index d name (Suc m) (Suc count) (out @ [p]) =
          Some (res', (out @ [p]) @ new)" and ok: "\<forall>c. res' = Inr c \<longrightarrow> c = Suc count + length new \<and>
          c \<le> MAX_IMPORTS_TOTAL \<and> (\<exists>ts. new = map (import_record index d name) (enumerate (Suc m) ts) \<and>
            thunks_ok img d (Suc m) ts)"
        using less.hyps [of "Suc m" "Suc count" "out @ [p]"] m p(2) by (auto simp: diff_less_mono2)
      have "\<exists>us. p # new = map (import_record index d name) (enumerate m us) \<and> thunks_ok img d m us"
        if "new = map (import_record index d name) (enumerate (Suc m) ts)" "thunks_ok img d (Suc m) ts" for ts
        using that p(4) thunks_ok_Cons [OF t(1) p(1,3) that(2)] by (intro exI [of _ "tg # ts"]) simp
      then show ?thesis
        using Inr Some n ok by (intro exI [of _ res'] exI [of _ "p # new"]) (auto simp: unf)
    qed
  qed
qed

subsection \<open>The descriptor table\<close>

definition encode_descriptor :: "ImportDescriptor \<Rightarrow> u8 list" where
  "encode_descriptor d =
     to_le_bytes (original_first_thunk d) @ to_le_bytes (bind_time_date_stamp d) @
     to_le_bytes (forwarder_chain d) @ to_le_bytes (name_rva d) @ to_le_bytes (first_thunk d)"

lemma split_20:
  fixes bs :: "u8 list"
  assumes "length bs = 20"
  shows "bs = take 4 bs @ take 4 (drop 4 bs) @ take 4 (drop 8 bs) @ take 4 (drop 12 bs) @ take 4 (drop 16 bs)"
proof -
  have d: "drop a bs = take 4 (drop a bs) @ drop (a + 4) bs" for a
    by (metis append_take_drop_id drop_drop add.commute)
  have "take 4 (drop 16 bs) = drop 16 bs" using assms by simp
  then show ?thesis using d [of 0] d [of 4] d [of 8] d [of 12] by simp
qed

lemma parse_descriptor_spec:
  assumes "length bs = 20"
  obtains d where "parse_descriptor bs = Some d" "encode_descriptor d = bs"
proof -
  have s: "slice_opt bs 0 4 = Some (take 4 bs)" "slice_opt bs 4 8 = Some (take 4 (drop 4 bs))"
    "slice_opt bs 8 12 = Some (take 4 (drop 8 bs))" "slice_opt bs 12 16 = Some (take 4 (drop 12 bs))"
    "slice_opt bs 16 20 = Some (take 4 (drop 16 bs))"
    using assms by (simp_all add: slice_opt_def)
  have r: "read_u32 (take 4 (drop a bs)) = Some (from_le_bytes (take 4 (drop a bs)))"
    "to_le_bytes (from_le_bytes (take 4 (drop a bs)) :: u32) = take 4 (drop a bs)" if "a + 4 \<le> 20" for a
    using read_ok(2) [of "take 4 (drop a bs)"] that assms by simp_all
  let ?f = "\<lambda>a. from_le_bytes (take 4 (drop a bs)) :: u32"
  show thesis
  proof (rule that)
    show "parse_descriptor bs = Some \<lparr>original_first_thunk = ?f 0, bind_time_date_stamp = ?f 4,
        forwarder_chain = ?f 8, name_rva = ?f 12, first_thunk = ?f 16\<rparr>"
      using r(1) [of 0] r(1) [of 4] r(1) [of 8] r(1) [of 12] r(1) [of 16] by (simp add: parse_descriptor_def s)
    show "encode_descriptor \<lparr>original_first_thunk = ?f 0, bind_time_date_stamp = ?f 4,
        forwarder_chain = ?f 8, name_rva = ?f 12, first_thunk = ?f 16\<rparr> = bs"
      using r(2) [of 0] r(2) [of 4] r(2) [of 8] r(2) [of 12] r(2) [of 16] split_20 [OF assms]
      by (simp add: encode_descriptor_def)
  qed
qed

type_synonym import_module = "ImportDescriptor \<times> u8 list \<times> PeImportTarget list"

definition module_ok :: "PeImage \<Rightarrow> import_module \<Rightarrow> bool" where
  "module_ok img = (\<lambda>(d, name, ts).
     first_thunk d \<noteq> 0 \<and> 8 dvd unat (lookup_table_rva d) \<and> 8 dvd unat (first_thunk d) \<and>
     cstring_at img (unat (name_rva d)) name \<and> thunks_ok img d 0 ts)"

definition module_records :: "nat \<times> import_module \<Rightarrow> ImportRecord list" where
  "module_records = (\<lambda>(i, d, name, ts). map (import_record i d name) (enumerate 0 ts))"

text \<open>What the loop over the descriptors returns for the directory bytes \<open>bs\<close> from index \<open>i\<close> on.\<close>

definition descriptors_result ::
  "PeImage \<Rightarrow> u8 list \<Rightarrow> nat \<Rightarrow> nat \<Rightarrow> ImportRecord list \<Rightarrow>
   ((PeError + ImportSummary) \<times> ImportRecord list) option \<Rightarrow> bool" where
  "descriptors_result img bs i count out r \<longleftrightarrow>
     (\<exists>res new. r = Some (res, out @ new) \<and>
       (\<forall>sm. res = Inr sm \<longrightarrow>
         (\<exists>mods z. bs = concat (map (encode_descriptor \<circ> fst) mods) @ replicate z 0 \<and> 20 \<le> z \<and>
           i + length mods \<le> MAX_IMPORT_MODULES \<and> (\<forall>m\<in>set mods. module_ok img m) \<and>
           new = concat (map module_records (enumerate i mods)) \<and>
           sm = \<lparr>module_count = i + length mods, import_count = count + length new\<rparr> \<and>
           count + length new \<le> MAX_IMPORTS_TOTAL)))"

lemma descriptors_result_error: "descriptors_result img bs i count out (Some (Inl e, out @ new))"
  by (auto simp: descriptors_result_def)

lemma null_descriptor_bytes:
  assumes "ImportDescriptor_is_null d"
  shows "encode_descriptor d = replicate 20 0"
proof -
  have "to_le_bytes (0 :: u32) = replicate 4 0" by (simp add: to_le_bytes_def map_replicate_const)
  then show ?thesis
    using assms by (simp add: encode_descriptor_def ImportDescriptor_is_null_def flip: replicate_add)
qed

lemma zero_bytes: "position (\<lambda>b. b \<noteq> 0) bs = None \<longleftrightarrow> bs = replicate (length bs) 0"
  unfolding position_None by (simp add: list_eq_iff_nth_eq all_set_conv_all_nth)

lemma validate_descriptor_fields_spec:
  "validate_descriptor_fields d i = Inr () \<Longrightarrow>
     first_thunk d \<noteq> 0 \<and> 8 dvd unat (lookup_table_rva d) \<and> 8 dvd unat (first_thunk d)"
proof -
  assume v: "validate_descriptor_fields d i = Inr ()"
  have "is_power_of_two IMPORT_THUNK_SIZE"
    by (auto simp: is_power_of_two_iff IMPORT_THUNK_SIZE_def intro!: exI [of _ 3])
  from and_pow2_eq_0 [OF this] have "w AND (IMPORT_THUNK_SIZE - 1) = 0 \<longleftrightarrow> 8 dvd unat w" for w
    by (simp add: IMPORT_THUNK_SIZE_def)
  then show ?thesis using v by (auto simp: validate_descriptor_fields_def split: if_split_asm)
qed

lemma descriptors_result_step:
  assumes rest: "descriptors_result img bs (Suc i) c (out @ new) r" and c: "c = count + length new"
    and m: "module_ok img (d, name, ts)" "new = map (import_record i d name) (enumerate 0 ts)"
  shows "descriptors_result img (encode_descriptor d @ bs) i count out r"
proof -
  obtain res new' where r: "r = Some (res, (out @ new) @ new')" and ok: "\<forall>sm. res = Inr sm \<longrightarrow>
      (\<exists>mods z. bs = concat (map (encode_descriptor \<circ> fst) mods) @ replicate z 0 \<and> 20 \<le> z \<and>
         Suc i + length mods \<le> MAX_IMPORT_MODULES \<and> (\<forall>m\<in>set mods. module_ok img m) \<and>
         new' = concat (map module_records (enumerate (Suc i) mods)) \<and>
         sm = \<lparr>module_count = Suc i + length mods, import_count = c + length new'\<rparr> \<and>
         c + length new' \<le> MAX_IMPORTS_TOTAL)"
    using rest unfolding descriptors_result_def by blast
  show ?thesis
    unfolding descriptors_result_def
  proof (intro exI [of _ res] exI [of _ "new @ new'"] conjI allI impI)
    show "r = Some (res, out @ new @ new')" using r by simp
    fix sm assume "res = Inr sm"
    then obtain mods z where mods: "bs = concat (map (encode_descriptor \<circ> fst) mods) @ replicate z 0" "20 \<le> z"
      "Suc i + length mods \<le> MAX_IMPORT_MODULES" "\<forall>m\<in>set mods. module_ok img m"
      "new' = concat (map module_records (enumerate (Suc i) mods))"
      "sm = \<lparr>module_count = Suc i + length mods, import_count = c + length new'\<rparr>"
      "c + length new' \<le> MAX_IMPORTS_TOTAL" using ok by blast
    then show "\<exists>mods z. encode_descriptor d @ bs = concat (map (encode_descriptor \<circ> fst) mods) @ replicate z 0 \<and>
        20 \<le> z \<and> i + length mods \<le> MAX_IMPORT_MODULES \<and> (\<forall>m\<in>set mods. module_ok img m) \<and>
        new @ new' = concat (map module_records (enumerate i mods)) \<and>
        sm = \<lparr>module_count = i + length mods, import_count = count + length (new @ new')\<rparr> \<and>
        count + length (new @ new') \<le> MAX_IMPORTS_TOTAL"
      using m c by (intro exI [of _ "(d, name, ts) # mods"] exI [of _ z]) (auto simp: module_records_def)
  qed
qed

lemma descriptors_result_done:
  assumes "20 \<le> z" "i \<le> MAX_IMPORT_MODULES" "count \<le> MAX_IMPORTS_TOTAL"
  shows "descriptors_result img (replicate z 0) i count out
    (Some (Inr \<lparr>module_count = i, import_count = count\<rparr>, out))"
proof -
  have "\<exists>mods z'. replicate z 0 = concat (map (encode_descriptor \<circ> fst) mods) @ replicate z' 0 \<and> 20 \<le> z' \<and>
      i + length mods \<le> MAX_IMPORT_MODULES \<and> (\<forall>m\<in>set mods. module_ok img m) \<and>
      [] = concat (map module_records (enumerate i mods)) \<and> length mods = 0"
    using assms by (intro exI [of _ "[]"] exI [of _ z]) simp
  then show ?thesis using assms(3) unfolding descriptors_result_def by (intro exI) auto
qed

lemma descriptor_slot:
  assumes "length bytes = 20 * n" "i < n"
  obtains d where "slice_opt bytes (i * 20) (i * 20 + 20) = Some (take 20 (drop (20 * i) bytes))"
    "parse_descriptor (take 20 (drop (20 * i) bytes)) = Some d"
    "drop (20 * i) bytes = encode_descriptor d @ drop (20 * Suc i) bytes"
proof -
  have le: "20 * i + 20 \<le> length bytes" using assms by simp
  then have "length (take 20 (drop (20 * i) bytes)) = 20" by simp
  then obtain d where d: "parse_descriptor (take 20 (drop (20 * i) bytes)) = Some d"
    "encode_descriptor d = take 20 (drop (20 * i) bytes)" by (rule parse_descriptor_spec)
  have "drop (20 * i) bytes = take 20 (drop (20 * i) bytes) @ drop (20 * Suc i) bytes"
    using append_take_drop_id [of 20 "drop (20 * i) bytes"] by (simp add: add.commute)
  then show thesis
    using that [of d] d slice_ok [OF le] by (simp add: mult.commute)
qed

text \<open>The part of the loop that handles a non-null descriptor, with the rest of the loop as \<open>k\<close>.\<close>

lemma import_module_result:
  assumes snd: "image_sound img" and count: "count \<le> MAX_IMPORTS_TOTAL"
    and k: "\<And>c out. i + 1 \<le> MAX_IMPORT_MODULES \<Longrightarrow> c \<le> MAX_IMPORTS_TOTAL \<Longrightarrow>
      descriptors_result img bs (i + 1) c out (k c out)"
  shows "descriptors_result img (encode_descriptor d @ bs) i count out
    (if MAX_IMPORT_MODULES < i + 1 then Some (Inl (TooManyImportModules (i + 1) MAX_IMPORT_MODULES), out)
     else case validate_descriptor_fields d i of Inl e \<Rightarrow> Some (Inl e, out)
     | Inr _ \<Rightarrow> do { name_result \<leftarrow> read_ascii_name img (name_rva d);
         case name_result of Inl e \<Rightarrow> Some (Inl e, out)
         | Inr name \<Rightarrow> do { (result, out) \<leftarrow> import_thunks img i d name 0 count out;
             case result of Inl e \<Rightarrow> Some (Inl e, out) | Inr count \<Rightarrow> k count out } })"
proof (cases "MAX_IMPORT_MODULES < i + 1 \<or> (\<exists>e. validate_descriptor_fields d i = Inl e)")
  case True
  then show ?thesis using descriptors_result_error [where new = "[]"] by auto
next
  case False
  then have v: "validate_descriptor_fields d i = Inr ()" "i + 1 \<le> MAX_IMPORT_MODULES"
    by (cases "validate_descriptor_fields d i"; simp)+
  obtain nr where nr: "read_ascii_name img (name_rva d) = Some nr"
    "\<forall>name. nr = Inr name \<longrightarrow> cstring_at img (unat (name_rva d)) name"
    using read_ascii_name_spec [OF snd] by blast
  show ?thesis
  proof (cases nr)
    case (Inl e)
    then show ?thesis using v nr descriptors_result_error [where new = "[]"] by simp
  next
    case (Inr name)
    obtain res new where r: "import_thunks img i d name 0 count out = Some (res, out @ new)"
      and ok: "\<forall>c. res = Inr c \<longrightarrow> c = count + length new \<and> c \<le> MAX_IMPORTS_TOTAL \<and>
        (\<exists>ts. new = map (import_record i d name) (enumerate 0 ts) \<and> thunks_ok img d 0 ts)"
      using import_thunks_spec [OF snd count] by blast
    show ?thesis
    proof (cases res)
      case (Inl e)
      then show ?thesis using v nr Inr r descriptors_result_error by simp
    next
      case c: (Inr c)
      then obtain ts where ts: "c = count + length new" "c \<le> MAX_IMPORTS_TOTAL"
        "new = map (import_record i d name) (enumerate 0 ts)" "thunks_ok img d 0 ts" using ok by blast
      have "module_ok img (d, name, ts)"
        using validate_descriptor_fields_spec [OF v(1)] nr(2) Inr ts(4) by (simp add: module_ok_def)
      from descriptors_result_step [OF k [OF v(2) ts(2), unfolded Suc_eq_plus1 [symmetric]] ts(1) this ts(3)] show ?thesis
        using v nr Inr r c by simp
    qed
  qed
qed

lemma import_descriptors_spec:
  assumes snd: "image_sound img" and len: "length bytes = 20 * n"
    and "i \<le> n" "i \<le> MAX_IMPORT_MODULES" "count \<le> MAX_IMPORTS_TOTAL"
  shows "descriptors_result img (drop (20 * i) bytes) i count out
    (import_descriptors img bytes [i..<n] i count out)"
  using assms(3-)
proof (induction "n - i" arbitrary: i count out)
  case 0
  then show ?case using descriptors_result_error [where new = "[]"] by simp
next
  case (Suc m)
  then have i: "i < n" "[i..<n] = i # [Suc i..<n]" by (simp_all add: upt_conv_Cons)
  obtain d where d: "slice_opt bytes (i * 20) (i * 20 + 20) = Some (take 20 (drop (20 * i) bytes))"
    "parse_descriptor (take 20 (drop (20 * i) bytes)) = Some d"
    "drop (20 * i) bytes = encode_descriptor d @ drop (20 * Suc i) bytes"
    using len i(1) by (rule descriptor_slot)
  have tail: "slice_opt bytes (i * 20 + 20) (length bytes) = Some (drop (20 * Suc i) bytes)"
    using len i(1) by (simp add: slice_opt_def mult.commute add.commute)
  note step = import_descriptors.simps(2) [of img bytes i "[Suc i..<n]" i count out, folded i(2),
      unfolded Let_def IMPORT_DESCRIPTOR_SIZE_def d(1,2) tail Option.bind_lunit]
  show ?case
  proof (cases "ImportDescriptor_is_null d")
    case null: True
    show ?thesis
    proof (cases "position (\<lambda>b. b \<noteq> 0) (drop (20 * Suc i) bytes)")
      case None
      let ?z = "length (drop (20 * Suc i) bytes)"
      have "drop (20 * Suc i) bytes = replicate ?z 0" using None zero_bytes by metis
      then have z: "drop (20 * i) bytes = replicate (20 + ?z) 0"
        unfolding d(3) null_descriptor_bytes [OF null] replicate_add by metis
      show ?thesis
        unfolding step None z using null descriptors_result_done [of "20 + ?z" i count img out] Suc.prems by simp
    next
      case (Some t)
      show ?thesis
        unfolding step Some using null descriptors_result_error [where new = "[]"] by simp
    qed
  next
    case nz: False
    have k: "descriptors_result img (drop (20 * Suc i) bytes) (i + 1) c out
        (import_descriptors img bytes [Suc i..<n] (i + 1) c out)"
      if "i + 1 \<le> MAX_IMPORT_MODULES" "c \<le> MAX_IMPORTS_TOTAL" for c out
      unfolding Suc_eq_plus1 [symmetric] by (rule Suc.hyps(1)) (use Suc.hyps(2) i(1) that in simp_all)
    show ?thesis
      unfolding step d(3) if_not_P [OF nz] by (rule import_module_result [OF snd Suc.prems(3) k])
  qed
qed

subsection \<open>The whole scan\<close>

definition import_directory :: "PeImage \<Rightarrow> DataDirectory option" where
  "import_directory img =
     opt_filter (\<lambda>d. \<not> DataDirectory_is_empty d) (PeImage_directory img IMAGE_DIRECTORY_ENTRY_IMPORT)"

text \<open>
  The directory is the descriptors of the modules followed by at least one null descriptor; the records
  are those of the modules, in order.
\<close>

definition imports_sound :: "PeImage \<Rightarrow> ImportSummary \<Rightarrow> ImportRecord list \<Rightarrow> bool" where
  "imports_sound img sm recs \<longleftrightarrow>
     (case import_directory img of
        None \<Rightarrow> recs = [] \<and> sm = \<lparr>module_count = 0, import_count = 0\<rparr>
      | Some d \<Rightarrow>
          \<exists>mods z. bytes_at img (unat (dir_address d)) (unat (dir_size d)) =
              concat (map (encode_descriptor \<circ> fst) mods) @ replicate z 0 \<and> 20 \<le> z \<and>
            length mods \<le> MAX_IMPORT_MODULES \<and> (\<forall>m\<in>set mods. module_ok img m) \<and>
            recs = concat (map module_records (enumerate 0 mods)) \<and>
            sm = \<lparr>module_count = length mods, import_count = length recs\<rparr> \<and>
            length recs \<le> MAX_IMPORTS_TOTAL)"

lemma scan_imports_spec:
  assumes snd: "image_sound img"
  shows "\<exists>res recs. scan_imports img = Some (res, recs) \<and> (\<forall>sm. res = Inr sm \<longrightarrow> imports_sound img sm recs)"
proof (cases "import_directory img")
  case None
  then show ?thesis by (simp add: scan_imports_def import_directory_def imports_sound_def)
next
  case (Some d)
  note scan = scan_imports_def [of img, folded import_directory_def, unfolded Some]
  let ?bad = "dir_size d = 0 \<or> dir_size d mod of_nat IMPORT_DESCRIPTOR_SIZE \<noteq> 0 \<or> MAX_IMPORT_DIRECTORY_BYTES < dir_size d"
  show ?thesis
  proof (cases "?bad \<or> (\<exists>e. PeImage_section_bytes img (dir_address d) (dir_size d) = Inl e)")
    case True
    then show ?thesis unfolding scan by auto
  next
    case False
    then obtain bytes where b: "PeImage_section_bytes img (dir_address d) (dir_size d) = Inr bytes"
      by (cases "PeImage_section_bytes img (dir_address d) (dir_size d)") auto
    then have bytes: "bytes = bytes_at img (unat (dir_address d)) (unat (dir_size d))"
      using section_bytes_InrD(2) [OF snd _ b] False by blast
    have "dir_size d mod 20 = 0" using False by (simp add: IMPORT_DESCRIPTOR_SIZE_def)
    from arg_cong [OF this, of unat] have "unat (dir_size d) mod 20 = 0" by (simp add: unat_mod)
    then have len: "length bytes = 20 * (length bytes div 20)"
      using bytes mult_div_mod_eq [of 20 "unat (dir_size d)"] by simp
    have "scan_imports img = import_descriptors img bytes [0..<length bytes div 20] 0 0 []"
      unfolding scan using False b by (simp add: IMPORT_DESCRIPTOR_SIZE_def)
    then show ?thesis
      using import_descriptors_spec [OF snd len, of 0 0 "[]"] Some bytes
      by (simp add: descriptors_result_def imports_sound_def)
  qed
qed

text \<open>C13. Visiting the imports of a parsed image never panics and visits all records or none. When it
  succeeds, the directory is a null-terminated list of at most 256 descriptors, each names a module by a
  printable name of 1 to 256 bytes, its lookup and address tables are file-backed, aligned and
  null-terminated after 1 to 4095 thunks, the records are exactly the decoded thunks in order with the
  addresses of their slots, and there are at most 16384 of them.\<close>

theorem imports_visit_exact:
  assumes "PeImage_parse bytes = Inr img"
  shows "\<exists>res recs. PeImage_visit_imports img = Some (res, recs) \<and> PeImage_import_summary img = Some res \<and>
    (case res of Inl e \<Rightarrow> recs = [] | Inr sm \<Rightarrow> imports_sound img sm recs)"
proof -
  obtain res recs where r: "scan_imports img = Some (res, recs)" "\<forall>sm. res = Inr sm \<longrightarrow> imports_sound img sm recs"
    using scan_imports_spec parse_image_sound [OF assms] by blast
  then show ?thesis
    by (cases res) (simp_all add: PeImage_visit_imports_def PeImage_import_summary_def)
qed

lemma sample_import_bytes:
  "PeImage_section_bytes sample_image 0x2000 40 =
     Inr [0, 0, 0, 0, 0, 0, 0, 0, 0, 0, 0, 0, 64, 32, 0, 0, 40, 32, 0, 0,
          0, 0, 0, 0, 0, 0, 0, 0, 0, 0, 0, 0, 0, 0, 0, 0, 0, 0, 0, 0]"
  "PeImage_section_bytes sample_image 0x2028 8 = Inr [80, 32, 0, 0, 0, 0, 0, 0]"
  "PeImage_section_bytes sample_image 0x2030 8 = Inr [0, 0, 0, 0, 0, 0, 0, 0]"
  "PeImage_section_bytes sample_image 0x2050 2 = Inr [0, 0]"
  by (simp_all add: PeImage_section_bytes_def PeImage_section_file_range_def PeImage_file_bytes_def sample_image_def
      sample_optional_def sample_text_def sample_data_def checked_add_def sample_reads(5) sample_byte_def upt_rec)

lemma sample_names:
  "read_ascii_name sample_image 0x2040 = Some (Inr [107, 101, 114, 110, 101, 108, 51, 50, 46, 100, 108, 108])"
  "read_ascii_name sample_image 0x2052 = Some (Inr [69, 120, 105, 116, 80, 114, 111, 99, 101, 115, 115])"
  by (simp_all add: read_ascii_name_def PE_MAX_IMPORT_NAME_BYTES_def upt_rec PeImage_section_bytes_def PeImage_section_file_range_def PeImage_file_bytes_def sample_image_def
      sample_optional_def sample_text_def sample_data_def checked_add_def sample_reads(5) sample_byte_def index_opt_def)

definition sample_descriptor :: ImportDescriptor where
  "sample_descriptor = \<lparr>original_first_thunk = 0, bind_time_date_stamp = 0, forwarder_chain = 0,
     name_rva = 0x2040, first_thunk = 0x2028\<rparr>"

definition sample_record :: ImportRecord where
  "sample_record =
     \<lparr>descriptor_index = 0, thunk_index = 0, descriptor = sample_descriptor,
      import_module_name = [107, 101, 114, 110, 101, 108, 51, 50, 46, 100, 108, 108],
      lookup_rva = 0x2028, iat_rva = 0x2028,
      import_target = PeName 0 [69, 120, 105, 116, 80, 114, 111, 99, 101, 115, 115]\<rparr>"

lemma sample_scan_imports:
  "scan_imports sample_image = Some (Inr \<lparr>module_count = 1, import_count = 1\<rparr>, [sample_record])"
proof -
  let ?name = "[107, 101, 114, 110, 101, 108, 51, 50, 46, 100, 108, 108] :: u8 list"
  have th: "read_thunk sample_image 0x2028 = Some (Inr 0x2050)" "read_thunk sample_image 0x2030 = Some (Inr 0)"
    using sample_import_bytes(2,3)
    by (simp_all add: read_thunk_def IMPORT_THUNK_SIZE_def read_u64_def read_le_def from_le_bytes_def)
  have "parse_target sample_image 0 0 0x2050 = Some (Inr (import_target sample_record))"
    using sample_import_bytes(4) sample_names(2)
    by (simp add: parse_target_def ORDINAL_FLAG64_def read_u16_def read_le_def from_le_bytes_def checked_add_def
        sample_record_def)
  then have first: "import_thunk sample_image 0 sample_descriptor ?name 0 0 = Some (Inr (Some sample_record))"
    using th by (simp add: import_thunk_def thunk_rva_def checked_mul_def checked_add_def lookup_table_rva_def
        sample_descriptor_def IMPORT_THUNK_SIZE_def MAX_IMPORTS_PER_MODULE_def MAX_IMPORTS_TOTAL_def sample_record_def)
  have last: "import_thunk sample_image 0 sample_descriptor ?name 1 1 = Some (Inr None)"
    using th by (simp add: import_thunk_def thunk_rva_def checked_mul_def checked_add_def lookup_table_rva_def
        sample_descriptor_def IMPORT_THUNK_SIZE_def MAX_IMPORTS_PER_MODULE_def)
  have "import_thunks sample_image 0 sample_descriptor ?name 1 1 [sample_record] = Some (Inr 1, [sample_record])"
    by (subst import_thunks.simps) (simp add: last [simplified])
  then have t: "import_thunks sample_image 0 sample_descriptor ?name 0 0 [] = Some (Inr 1, [sample_record])"
    by (subst import_thunks.simps) (simp add: first)
  have v: "validate_descriptor_fields sample_descriptor 0 = Inr ()" "\<not> ImportDescriptor_is_null sample_descriptor"
    by (simp_all add: validate_descriptor_fields_def lookup_table_rva_def sample_descriptor_def IMPORT_THUNK_SIZE_def
        ImportDescriptor_is_null_def)
  have d: "PeImage_directory sample_image 1 = Some \<lparr>dir_address = 0x2000, dir_size = 40\<rparr>"
    by (simp add: PeImage_directory_def sample_image_def index_opt_def)
  show ?thesis
    using sample_import_bytes(1) d sample_names(1) t v
    by (simp add: scan_imports_def IMAGE_DIRECTORY_ENTRY_IMPORT_def DataDirectory_is_empty_def
        IMPORT_DESCRIPTOR_SIZE_def MAX_IMPORT_DIRECTORY_BYTES_def MAX_IMPORT_MODULES_def upt_rec slice_opt_def
        parse_descriptor_def read_u32_def read_le_def from_le_bytes_def position_def
        ImportDescriptor_is_null_def sample_descriptor_def)
qed

theorem imports_visit_exact_witness:
  "PeImage_parse sample_pe = Inr sample_image \<and>
   PeImage_visit_imports sample_image = Some (Inr \<lparr>module_count = 1, import_count = 1\<rparr>, [sample_record]) \<and>
   imports_sound sample_image \<lparr>module_count = 1, import_count = 1\<rparr> [sample_record]"
  using imports_visit_exact [OF sample_pe_parses] sample_pe_parses sample_scan_imports
  by (auto simp: PeImage_visit_imports_def PeImage_import_summary_def)

end
