(* ===== verification/Vm_Planner.thy ===== *)
theory Vm_Planner
  imports Pe_Reader
begin

text \<open>
  The virtual-address planner of \<open>user/winhost-core/src/vm.rs\<close>: page protections, exact and first-fit
  reservations, and the sorted reservation table. \<open>reserve_pe_image\<close>, which places a parsed PE image,
  is not part of it.
\<close>

subsection \<open>Protections and reservations\<close>

definition VM_PAGE_SIZE :: u64 where
  "VM_PAGE_SIZE = 4096"

definition PE_IMAGE_ALIGNMENT :: u64 where
  "PE_IMAGE_ALIGNMENT = 65536"

definition MAX_ADDRESS_RESERVATIONS :: nat where
  "MAX_ADDRESS_RESERVATIONS = 4096"

datatype AddressError =
    AddressInvalidCapacity nat nat
  | InvalidBounds
  | InvalidSize
  | AddressInvalidAlignment
  | MisalignedAddress
  | AddressOverflow
  | OutsideAddressSpace
  | Overlap
  | OutOfAddressSpace
  | ReservationTableFull
  | WritableExecutable
  | PreferredAddressUnavailable
  | AddressPe PeError

record VmProtection =
  prot_read :: bool
  prot_write :: bool
  prot_execute :: bool

definition VmProtection_NONE :: VmProtection where
  "VmProtection_NONE = \<lparr>prot_read = False, prot_write = False, prot_execute = False\<rparr>"

definition VmProtection_READ :: VmProtection where
  "VmProtection_READ = \<lparr>prot_read = True, prot_write = False, prot_execute = False\<rparr>"

definition VmProtection_READ_WRITE :: VmProtection where
  "VmProtection_READ_WRITE = \<lparr>prot_read = True, prot_write = True, prot_execute = False\<rparr>"

definition VmProtection_READ_EXECUTE :: VmProtection where
  "VmProtection_READ_EXECUTE = \<lparr>prot_read = True, prot_write = False, prot_execute = True\<rparr>"

definition VmProtection_EXECUTE :: VmProtection where
  "VmProtection_EXECUTE = \<lparr>prot_read = False, prot_write = False, prot_execute = True\<rparr>"

definition VmProtection_WRITE :: VmProtection where
  "VmProtection_WRITE = \<lparr>prot_read = False, prot_write = True, prot_execute = False\<rparr>"

definition VmProtection_try_new :: "bool \<Rightarrow> bool \<Rightarrow> bool \<Rightarrow> AddressError + VmProtection" where
  "VmProtection_try_new read write execute =
     (if write \<and> execute then Inl WritableExecutable
      else Inr \<lparr>prot_read = read, prot_write = write, prot_execute = execute\<rparr>)"

datatype ReservationKind = HostRuntime | PeImageReservation | Stack | Heap | Shared | Guard | OtherReservation u16

record Reservation =
  res_start :: u64
  res_size :: u64
  res_protection :: VmProtection
  res_kind :: ReservationKind

definition Reservation_EMPTY :: Reservation where
  "Reservation_EMPTY = \<lparr>res_start = 0, res_size = 0, res_protection = VmProtection_NONE, res_kind = Guard\<rparr>"

definition Reservation_checked_end :: "Reservation \<Rightarrow> u64 option" where
  "Reservation_checked_end self = checked_add (res_start self) (res_size self)"

subsection \<open>Validation\<close>

definition validate_size :: "u64 \<Rightarrow> AddressError + unit" where
  "validate_size size' = (if size' = 0 \<or> \<not> is_multiple_of size' VM_PAGE_SIZE then Inl InvalidSize else Inr ())"

definition validate_alignment :: "u64 \<Rightarrow> AddressError + unit" where
  "validate_alignment alignment =
     (if alignment < VM_PAGE_SIZE \<or> \<not> is_power_of_two alignment then Inl AddressInvalidAlignment else Inr ())"

definition vm_align_up :: "u64 \<Rightarrow> u64 \<Rightarrow> AddressError + u64" where
  "vm_align_up value alignment =
     (let mask' = alignment - 1 in
      case checked_add value mask' of
        Some v \<Rightarrow> Inr (v AND NOT mask')
      | None \<Rightarrow> Inl AddressOverflow)"

definition validate_image_subrange :: "u64 \<Rightarrow> u64 \<Rightarrow> u64 \<Rightarrow> u64 \<Rightarrow> AddressError + unit" where
  "validate_image_subrange base_address image_size range_start range_bytes =
     and_then (ok_or (checked_add base_address image_size) AddressOverflow) (\<lambda>image_end.
     and_then (ok_or (checked_add range_start range_bytes) AddressOverflow) (\<lambda>range_end.
     if range_bytes = 0 \<or> range_start < base_address \<or> range_end > image_end then Inl OutsideAddressSpace else Inr ()))"

subsection \<open>The planner\<close>

text \<open>The reservation array has a fixed length; its first \<open>plan_len\<close> entries are in use.\<close>

record VirtualAddressPlanner =
  plan_floor :: u64
  plan_ceiling :: u64
  plan_reservations :: "Reservation list"
  plan_len :: nat

definition VirtualAddressPlanner_try_new :: "nat \<Rightarrow> u64 \<Rightarrow> u64 \<Rightarrow> AddressError + VirtualAddressPlanner" where
  "VirtualAddressPlanner_try_new n floor' ceiling' =
     (if n = 0 \<or> n > MAX_ADDRESS_RESERVATIONS then Inl (AddressInvalidCapacity n MAX_ADDRESS_RESERVATIONS)
      else if floor' \<ge> ceiling' \<or> \<not> is_multiple_of floor' VM_PAGE_SIZE \<or> \<not> is_multiple_of ceiling' VM_PAGE_SIZE
      then Inl InvalidBounds
      else Inr \<lparr>plan_floor = floor', plan_ceiling = ceiling', plan_reservations = replicate n Reservation_EMPTY, plan_len = 0\<rparr>)"

definition VirtualAddressPlanner_reservations :: "VirtualAddressPlanner \<Rightarrow> Reservation list" where
  "VirtualAddressPlanner_reservations self = take (plan_len self) (plan_reservations self)"

text \<open>The scan of \<open>validate_available\<close> for a range \<open>[start, end)\<close>.\<close>

fun overlap_scan :: "u64 \<Rightarrow> u64 \<Rightarrow> Reservation list \<Rightarrow> AddressError + unit" where
  "overlap_scan start end' [] = Inr ()"
| "overlap_scan start end' (reservation # rest) =
     (case Reservation_checked_end reservation of
        None \<Rightarrow> Inl AddressOverflow
      | Some reservation_end \<Rightarrow>
          if start < reservation_end \<and> res_start reservation < end' then Inl Overlap
          else overlap_scan start end' rest)"

definition VirtualAddressPlanner_validate_available :: "VirtualAddressPlanner \<Rightarrow> u64 \<Rightarrow> u64 \<Rightarrow> AddressError + unit" where
  "VirtualAddressPlanner_validate_available self start size' =
     and_then (ok_or (checked_add start size') AddressOverflow) (\<lambda>end'.
     if start < plan_floor self \<or> end' > plan_ceiling self then Inl OutsideAddressSpace
     else overlap_scan start end' (VirtualAddressPlanner_reservations self))"

text \<open>The loop of \<open>find_first_fit\<close>: \<open>Inl\<close> of an early answer, \<open>Inr\<close> of the last candidate.\<close>

fun fit_scan :: "u64 \<Rightarrow> u64 \<Rightarrow> u64 \<Rightarrow> Reservation list \<Rightarrow> AddressError + (u64 + u64)" where
  "fit_scan size' alignment candidate [] = Inr (Inr candidate)"
| "fit_scan size' alignment candidate (reservation # rest) =
     and_then (ok_or (Reservation_checked_end reservation) AddressOverflow) (\<lambda>reservation_end.
     and_then (ok_or (checked_add candidate size') AddressOverflow) (\<lambda>candidate_end.
     if candidate_end \<le> res_start reservation then Inr (Inl candidate)
     else if candidate < reservation_end
     then and_then (vm_align_up reservation_end alignment) (\<lambda>candidate'. fit_scan size' alignment candidate' rest)
     else fit_scan size' alignment candidate rest))"

definition VirtualAddressPlanner_find_first_fit :: "VirtualAddressPlanner \<Rightarrow> u64 \<Rightarrow> u64 \<Rightarrow> AddressError + u64" where
  "VirtualAddressPlanner_find_first_fit self size' alignment =
     and_then (vm_align_up (plan_floor self) alignment) (\<lambda>candidate0.
     and_then (fit_scan size' alignment candidate0 (VirtualAddressPlanner_reservations self)) (\<lambda>r.
     case r of
       Inl candidate \<Rightarrow> Inr candidate
     | Inr candidate \<Rightarrow>
         and_then (ok_or (checked_add candidate size') AddressOverflow) (\<lambda>end'.
         if candidate < plan_floor self \<or> end' > plan_ceiling self then Inl OutOfAddressSpace else Inr candidate)))"

text \<open>The loop of \<open>insert_sorted\<close> that moves the tail of the array one place up.\<close>

fun shift_up :: "'a list \<Rightarrow> nat \<Rightarrow> nat \<Rightarrow> 'a list" where
  "shift_up xs insertion index =
     (if index > insertion then shift_up (xs[index := xs ! (index - 1)]) insertion (index - 1) else xs)"

declare shift_up.simps [simp del]

definition VirtualAddressPlanner_insert_sorted ::
    "VirtualAddressPlanner \<Rightarrow> Reservation \<Rightarrow> (AddressError + unit) \<times> VirtualAddressPlanner" where
  "VirtualAddressPlanner_insert_sorted self reservation =
     (if plan_len self = length (plan_reservations self) then (Inl ReservationTableFull, self)
      else
        let insertion = (case position (\<lambda>existing. res_start existing > res_start reservation)
                                (VirtualAddressPlanner_reservations self) of
                           Some i \<Rightarrow> i | None \<Rightarrow> plan_len self);
            shifted = shift_up (plan_reservations self) insertion (plan_len self) in
        (Inr (), self\<lparr>plan_reservations := shifted[insertion := reservation], plan_len := plan_len self + 1\<rparr>))"

definition VirtualAddressPlanner_reserve_exact ::
    "VirtualAddressPlanner \<Rightarrow> u64 \<Rightarrow> u64 \<Rightarrow> VmProtection \<Rightarrow> ReservationKind
      \<Rightarrow> (AddressError + Reservation) \<times> VirtualAddressPlanner" where
  "VirtualAddressPlanner_reserve_exact self start size' protection kind =
     (case validate_size size' of
        Inl err \<Rightarrow> (Inl err, self)
      | Inr _ \<Rightarrow>
          if \<not> is_multiple_of start VM_PAGE_SIZE then (Inl MisalignedAddress, self)
          else
            case VirtualAddressPlanner_validate_available self start size' of
              Inl err \<Rightarrow> (Inl err, self)
            | Inr _ \<Rightarrow>
                let reservation = \<lparr>res_start = start, res_size = size', res_protection = protection, res_kind = kind\<rparr> in
                case VirtualAddressPlanner_insert_sorted self reservation of
                  (Inl err, self') \<Rightarrow> (Inl err, self')
                | (Inr _, self') \<Rightarrow> (Inr reservation, self'))"

definition VirtualAddressPlanner_reserve_first_fit ::
    "VirtualAddressPlanner \<Rightarrow> u64 \<Rightarrow> u64 \<Rightarrow> VmProtection \<Rightarrow> ReservationKind
      \<Rightarrow> (AddressError + Reservation) \<times> VirtualAddressPlanner" where
  "VirtualAddressPlanner_reserve_first_fit self size' alignment protection kind =
     (case and_then (validate_size size') (\<lambda>_. validate_alignment alignment) of
        Inl err \<Rightarrow> (Inl err, self)
      | Inr _ \<Rightarrow>
          case VirtualAddressPlanner_find_first_fit self size' alignment of
            Inl err \<Rightarrow> (Inl err, self)
          | Inr start \<Rightarrow>
              let reservation = \<lparr>res_start = start, res_size = size', res_protection = protection, res_kind = kind\<rparr> in
              case VirtualAddressPlanner_insert_sorted self reservation of
                (Inl err, self') \<Rightarrow> (Inl err, self')
              | (Inr _, self') \<Rightarrow> (Inr reservation, self'))"

subsection \<open>The planner invariant\<close>

definition res_set :: "Reservation \<Rightarrow> nat set" where
  "res_set r = {unat (res_start r)..<unat (res_start r) + unat (res_size r)}"

definition res_wf :: "nat \<Rightarrow> nat \<Rightarrow> Reservation \<Rightarrow> bool" where
  "res_wf lo hi r \<longleftrightarrow> res_size r \<noteq> 0 \<and> lo \<le> unat (res_start r) \<and> unat (res_start r) + unat (res_size r) \<le> hi \<and>
     4096 dvd unat (res_start r) \<and> 4096 dvd unat (res_size r)"

definition res_before :: "Reservation \<Rightarrow> Reservation \<Rightarrow> bool" where
  "res_before a b \<longleftrightarrow> unat (res_start a) + unat (res_size a) \<le> unat (res_start b)"

definition planner_wf :: "VirtualAddressPlanner \<Rightarrow> bool" where
  "planner_wf p \<longleftrightarrow> plan_len p \<le> length (plan_reservations p) \<and> length (plan_reservations p) \<le> MAX_ADDRESS_RESERVATIONS \<and>
     (\<forall>r\<in>set (VirtualAddressPlanner_reservations p). res_wf (unat (plan_floor p)) (unat (plan_ceiling p)) r) \<and>
     sorted_wrt res_before (VirtualAddressPlanner_reservations p)"

text \<open>A range of \<open>n\<close> bytes at \<open>a\<close> is free.\<close>

definition range_free :: "Reservation list \<Rightarrow> nat \<Rightarrow> nat \<Rightarrow> bool" where
  "range_free rs a n \<longleftrightarrow> (\<forall>r\<in>set rs. {a..<a + n} \<inter> res_set r = {})"

definition fits :: "VirtualAddressPlanner \<Rightarrow> nat \<Rightarrow> nat \<Rightarrow> bool" where
  "fits p a n \<longleftrightarrow> unat (plan_floor p) \<le> a \<and> a + n \<le> unat (plan_ceiling p) \<and>
     range_free (VirtualAddressPlanner_reservations p) a n"

lemma disjoint_ranges: "0 < n \<Longrightarrow> 0 < m \<Longrightarrow> {a..<a + n} \<inter> {b..<b + m :: nat} = {} \<longleftrightarrow> a + n \<le> b \<or> b + m \<le> a"
proof -
  assume "0 < n" "0 < m"
  moreover have "max a b \<in> {a..<a + n} \<inter> {b..<b + m}" if "\<not> a + n \<le> b" "\<not> b + m \<le> a"
    using that \<open>0 < n\<close> \<open>0 < m\<close> by auto
  ultimately show ?thesis by fastforce
qed

lemma res_end: "res_wf lo hi r \<Longrightarrow> hi < 2 ^ 64 \<Longrightarrow>
    \<exists>e. Reservation_checked_end r = Some e \<and> unat e = unat (res_start r) + unat (res_size r)"
  using checked_add_fits [of "res_start r" "res_size r"] by (fastforce simp: res_wf_def Reservation_checked_end_def)

lemma range_free_Cons:
  assumes "res_wf lo hi r" "0 < n"
  shows "range_free (r # rs) a n \<longleftrightarrow>
    (a + n \<le> unat (res_start r) \<or> unat (res_start r) + unat (res_size r) \<le> a) \<and> range_free rs a n"
proof -
  have "0 < unat (res_size r)" using assms(1) by (simp add: res_wf_def unat_gt_0)
  from disjoint_ranges [OF assms(2) this] show ?thesis by (simp add: range_free_def res_set_def)
qed

lemma overlap_scan_eq:
  assumes "\<forall>r\<in>set rs. res_wf lo hi r" "hi < 2 ^ 64" "unat e = unat s + n" "0 < n"
  shows "overlap_scan s e rs = (if range_free rs (unat s) n then Inr () else Inl Overlap)"
  using assms(1)
proof (induction rs)
  case (Cons r rs)
  then have r: "res_wf lo hi r" by simp
  obtain re where "Reservation_checked_end r = Some re" "unat re = unat (res_start r) + unat (res_size r)"
    using res_end [OF r assms(2)] by blast
  then show ?case using Cons assms(3) range_free_Cons [OF r assms(4)] by (auto simp: word_less_nat_alt)
qed (simp add: range_free_def)

lemma validate_available_eq:
  assumes wf: "planner_wf p" and n: "size' \<noteq> 0"
  shows "VirtualAddressPlanner_validate_available p start size' =
    (if 2 ^ 64 \<le> unat start + unat size' then Inl AddressOverflow
     else if unat start < unat (plan_floor p) \<or> unat (plan_ceiling p) < unat start + unat size' then Inl OutsideAddressSpace
     else if fits p (unat start) (unat size') then Inr () else Inl Overlap)"
proof (cases "checked_add start size'")
  case None
  then show ?thesis using None [unfolded checked_add_eq_None] by (simp add: VirtualAddressPlanner_validate_available_def)
next
  case (Some e)
  then have e: "unat e = unat start + unat size'" "unat start + unat size' < 2 ^ 64" by (auto simp: checked_add_eq_Some)
  have "0 < unat size'" using n by (simp add: unat_gt_0)
  moreover have "\<forall>r\<in>set (VirtualAddressPlanner_reservations p). res_wf (unat (plan_floor p)) (unat (plan_ceiling p)) r"
    using wf by (simp add: planner_wf_def)
  ultimately have "overlap_scan start e (VirtualAddressPlanner_reservations p) =
      (if range_free (VirtualAddressPlanner_reservations p) (unat start) (unat size') then Inr () else Inl Overlap)"
    using overlap_scan_eq e(1) unat_less_exp [of "plan_ceiling p"] by simp
  then show ?thesis
    using Some e by (auto simp: VirtualAddressPlanner_validate_available_def word_less_nat_alt fits_def)
qed

lemma vm_align_up_spec:
  assumes k: "k < 64"
  shows "case vm_align_up v (2 ^ k) of
      Inr b \<Rightarrow> 2 ^ k dvd unat b \<and> unat v \<le> unat b \<and> (\<forall>a. 2 ^ k dvd a \<and> unat v \<le> a \<longrightarrow> unat b \<le> a)
    | Inl e \<Rightarrow> e = AddressOverflow \<and> (\<forall>a<2 ^ 64. 2 ^ k dvd a \<longrightarrow> a < unat v)"
proof (cases "checked_add v (2 ^ k - 1)")
  case None
  then have "2 ^ 64 \<le> unat v + (2 ^ k - 1)" using k by (simp add: checked_add_eq_None unat_exp_minus_1)
  then show ?thesis using None round_up_overflow [OF k] by (simp add: vm_align_up_def)
next
  case (Some b)
  then show ?thesis
    using round_up_word [OF k Some] round_up_ge [of "2 ^ k" "unat v"] round_up_least [of "2 ^ k" _ "unat v"]
    by (simp add: vm_align_up_def)
qed

subsection \<open>First fit\<close>

lemma range_free_before:
  assumes "sorted_wrt res_before (r # rs)" "\<forall>x\<in>set (r # rs). res_wf lo hi x" "a + n \<le> unat (res_start r)" "0 < n"
  shows "range_free (r # rs) a n"
proof -
  have "a + n \<le> unat (res_start x)" if "x \<in> set (r # rs)" for x
    using assms(1,3) that by (auto simp: res_before_def)
  then show ?thesis unfolding range_free_def res_set_def by fastforce
qed

text \<open>An aligned start at or above a bound whose range is free.\<close>

definition start_ok :: "nat \<Rightarrow> Reservation list \<Rightarrow> nat \<Rightarrow> nat \<Rightarrow> nat \<Rightarrow> bool" where
  "start_ok al rs n lo a \<longleftrightarrow> lo \<le> a \<and> al dvd a \<and> range_free rs a n"

lemma fit_scan_spec:
  assumes k: "k < 64" and n: "0 < unat n" and hi: "hi < 2 ^ 64"
    and "sorted_wrt res_before rs" "\<forall>r\<in>set rs. res_wf lo hi r" "2 ^ k dvd unat c"
  shows "case fit_scan n (2 ^ k) c rs of
      Inl e \<Rightarrow> e = AddressOverflow \<and> (\<forall>a. start_ok (2 ^ k) rs (unat n) (unat c) a \<longrightarrow> 2 ^ 64 \<le> a + unat n)
    | Inr r \<Rightarrow> (\<exists>c'. (r = Inl c' \<and> unat c' + unat n \<le> hi \<or> r = Inr c') \<and> start_ok (2 ^ k) rs (unat n) (unat c) (unat c') \<and>
        (\<forall>a. start_ok (2 ^ k) rs (unat n) (unat c) a \<longrightarrow> a + unat n < 2 ^ 64 \<longrightarrow> unat c' \<le> a))"
  using assms(4-6)
proof (induction rs arbitrary: c)
  case Nil
  then show ?case by (simp add: range_free_def start_ok_def)
next
  case (Cons r rs)
  then have r: "res_wf lo hi r" by simp
  obtain re where re: "Reservation_checked_end r = Some re" "unat re = unat (res_start r) + unat (res_size r)"
    using res_end [OF r hi] by blast
  note fr = range_free_Cons [OF r n]
  show ?case
  proof (cases "checked_add c n")
    case None
    then have "2 ^ 64 \<le> unat c + unat n" by (simp add: checked_add_eq_None)
    then show ?thesis using None re by (auto simp: start_ok_def)
  next
    case (Some ce)
    then have ce: "unat ce = unat c + unat n" by (rule unat_checked_add)
    consider (before) "ce \<le> res_start r" | (overlap) "\<not> ce \<le> res_start r" "c < re" | (after) "\<not> ce \<le> res_start r" "\<not> c < re"
      by blast
    then show ?thesis
    proof cases
      case before
      then have "unat c + unat n \<le> unat (res_start r)" using ce by (simp add: word_le_nat_alt)
      moreover from range_free_before [OF Cons.prems(1,2) this n] have "range_free (r # rs) (unat c) (unat n)" .
      ultimately show ?thesis using before Some re r Cons.prems(3) by (auto simp: res_wf_def start_ok_def)
    next
      case after
      then have ok: "start_ok (2 ^ k) (r # rs) (unat n) (unat c) = start_ok (2 ^ k) rs (unat n) (unat c)"
        using fr re(2) by (auto simp: start_ok_def fun_eq_iff word_less_nat_alt)
      have scan: "fit_scan n (2 ^ k) c (r # rs) = fit_scan n (2 ^ k) c rs" using after Some re by simp
      show ?thesis unfolding ok scan by (rule Cons.IH) (use Cons.prems in simp_all)
    next
      case overlap
      have out: "unat re \<le> a" if "unat c \<le> a" "range_free (r # rs) a (unat n)" for a
        using that fr re(2) overlap ce by (auto simp: word_le_nat_alt word_less_nat_alt)
      show ?thesis
      proof (cases "vm_align_up re (2 ^ k)")
        case (Inl e)
        then have e: "e = AddressOverflow" "\<forall>a<2 ^ 64. 2 ^ k dvd a \<longrightarrow> a < unat re" using vm_align_up_spec [OF k, of re] by simp_all
        then have "2 ^ 64 \<le> a + unat n" if "start_ok (2 ^ k) (r # rs) (unat n) (unat c) a" for a
          using out [of a] that unfolding start_ok_def by (metis add_lessD1 not_le)
        then show ?thesis using Inl overlap Some re e(1) by simp
      next
        case (Inr b)
        then have b: "2 ^ k dvd unat b" "unat re \<le> unat b" "\<And>a. 2 ^ k dvd a \<Longrightarrow> unat re \<le> a \<Longrightarrow> unat b \<le> a"
          using vm_align_up_spec [OF k, of re] by auto
        have cb: "unat c \<le> unat b" using overlap(2) b(2) by (simp add: word_less_nat_alt)
        have "start_ok (2 ^ k) (r # rs) (unat n) (unat c) a = start_ok (2 ^ k) rs (unat n) (unat b) a" for a
          unfolding start_ok_def using out [of a] b(2,3) cb fr re(2) by (metis order.trans)
        then have ok: "start_ok (2 ^ k) (r # rs) (unat n) (unat c) = start_ok (2 ^ k) rs (unat n) (unat b)" by (rule ext)
        have scan: "fit_scan n (2 ^ k) c (r # rs) = fit_scan n (2 ^ k) b rs" using Inr overlap Some re by simp
        show ?thesis unfolding ok scan by (rule Cons.IH) (use Cons.prems b(1) in simp_all)
      qed
    qed
  qed
qed

lemma planner_bounds:
  assumes "planner_wf p"
  shows "sorted_wrt res_before (VirtualAddressPlanner_reservations p)"
    "\<forall>r\<in>set (VirtualAddressPlanner_reservations p). res_wf (unat (plan_floor p)) (unat (plan_ceiling p)) r"
    "unat (plan_ceiling p) < 2 ^ 64"
  using assms unat_less_exp [of "plan_ceiling p"] by (simp_all add: planner_wf_def)

lemma find_first_fit_spec:
  assumes wf: "planner_wf p" and k: "k < 64" and n: "size' \<noteq> 0"
  shows "case VirtualAddressPlanner_find_first_fit p size' (2 ^ k) of
      Inr a \<Rightarrow> fits p (unat a) (unat size') \<and> 2 ^ k dvd unat a \<and>
        (\<forall>b. fits p b (unat size') \<and> 2 ^ k dvd b \<longrightarrow> unat a \<le> b)
    | Inl e \<Rightarrow> e \<in> {AddressOverflow, OutOfAddressSpace} \<and> (\<forall>b. fits p b (unat size') \<longrightarrow> \<not> 2 ^ k dvd b)"
proof (cases "vm_align_up (plan_floor p) (2 ^ k)")
  case (Inl e)
  then have e: "e = AddressOverflow" "\<forall>a<2 ^ 64. 2 ^ k dvd a \<longrightarrow> a < unat (plan_floor p)"
    using vm_align_up_spec [OF k, of "plan_floor p"] by simp_all
  have "\<not> 2 ^ k dvd b" if "fits p b (unat size')" for b
    using e(2) that planner_bounds(3) [OF wf] unfolding fits_def by (metis add_leD1 leD le_less_trans)
  then show ?thesis using Inl e(1) by (simp add: VirtualAddressPlanner_find_first_fit_def)
next
  case (Inr c)
  let ?rs = "VirtualAddressPlanner_reservations p"
  have c: "2 ^ k dvd unat c" "unat (plan_floor p) \<le> unat c" "\<And>a. 2 ^ k dvd a \<Longrightarrow> unat (plan_floor p) \<le> a \<Longrightarrow> unat c \<le> a"
    using Inr vm_align_up_spec [OF k, of "plan_floor p"] by auto
  have n0: "0 < unat size'" using n by (simp add: unat_gt_0)
  note scan = fit_scan_spec [OF k n0 planner_bounds(3,1,2) [OF wf] c(1)]
  have cand: "start_ok (2 ^ k) ?rs (unat size') (unat c) b \<and> b + unat size' < 2 ^ 64"
    if "fits p b (unat size')" "2 ^ k dvd b" for b
    using that c(3) planner_bounds(3) [OF wf] by (auto simp: fits_def start_ok_def)
  show ?thesis
  proof (cases "fit_scan size' (2 ^ k) c ?rs")
    case scanned: (Inl e)
    then have "e = AddressOverflow" "\<And>b. start_ok (2 ^ k) ?rs (unat size') (unat c) b \<Longrightarrow> 2 ^ 64 \<le> b + unat size'"
      using scan by auto
    then show ?thesis using Inr scanned cand by (fastforce simp: VirtualAddressPlanner_find_first_fit_def)
  next
    case scanned: (Inr r)
    then obtain c' where c': "r = Inl c' \<and> unat c' + unat size' \<le> unat (plan_ceiling p) \<or> r = Inr c'"
        "start_ok (2 ^ k) ?rs (unat size') (unat c) (unat c')"
        and least: "\<And>a. start_ok (2 ^ k) ?rs (unat size') (unat c) a \<Longrightarrow> a + unat size' < 2 ^ 64 \<Longrightarrow> unat c' \<le> a"
      using scan by auto
    have low: "\<And>b. fits p b (unat size') \<Longrightarrow> 2 ^ k dvd b \<Longrightarrow> unat c' \<le> b" using least cand by blast
    have ok: "fits p (unat c') (unat size') \<longleftrightarrow> unat c' + unat size' \<le> unat (plan_ceiling p)" "2 ^ k dvd unat c'"
        "unat (plan_floor p) \<le> unat c'"
      using c'(2) c(2) by (auto simp: start_ok_def fits_def)
    have res: "VirtualAddressPlanner_find_first_fit p size' (2 ^ k) =
        (if unat c' + unat size' \<le> unat (plan_ceiling p) then Inr c'
         else if unat c' + unat size' < 2 ^ 64 then Inl OutOfAddressSpace else Inl AddressOverflow)"
    proof (cases "checked_add c' size'")
      case None
      then have "2 ^ 64 \<le> unat c' + unat size'" by (simp add: checked_add_eq_None)
      then show ?thesis
        using Inr scanned c'(1) None planner_bounds(3) [OF wf] by (auto simp: VirtualAddressPlanner_find_first_fit_def)
    next
      case (Some e)
      then have "unat e = unat c' + unat size'" by (rule unat_checked_add)
      then show ?thesis
        using Inr scanned c'(1) ok(3) Some unat_less_exp [of e] planner_bounds(3) [OF wf]
        by (auto simp: VirtualAddressPlanner_find_first_fit_def word_less_nat_alt)
    qed
    have "\<not> 2 ^ k dvd b" if "fits p b (unat size')" "\<not> unat c' + unat size' \<le> unat (plan_ceiling p)" for b
      using low that by (fastforce simp: fits_def)
    then show ?thesis using res ok low by auto
  qed
qed

subsection \<open>Insertion\<close>

lemma shift_up_eq:
  "insertion \<le> index \<Longrightarrow> index < length xs \<Longrightarrow>
   shift_up xs insertion index = take (Suc insertion) xs @ drop insertion (take index xs) @ drop (Suc index) xs"
proof (induction xs insertion index rule: shift_up.induct)
  case (1 xs insertion index)
  show ?case
  proof (cases "index > insertion")
    case True
    then obtain j where j: "index = Suc j" "insertion \<le> j" by (cases index) auto
    let ?ys = "xs[index := xs ! (index - 1)]"
    have "shift_up xs insertion index = shift_up ?ys insertion j" using True j by (simp add: shift_up.simps [of xs])
    also have "\<dots> = take (Suc insertion) ?ys @ drop insertion (take j ?ys) @ drop (Suc j) ?ys"
      using 1 True j by simp
    also have "drop (Suc j) ?ys = xs ! j # drop (Suc index) xs"
      using 1(3) j by (simp add: drop_update_swap Cons_nth_drop_Suc [symmetric])
    also have "drop insertion (take j ?ys) @ xs ! j # drop (Suc index) xs = drop insertion (take index xs) @ drop (Suc index) xs"
      using 1(3) j by (simp add: take_Suc_conv_app_nth)
    also have "take (Suc insertion) ?ys = take (Suc insertion) xs" using j by simp
    finally show ?thesis .
  next
    case False
    then have "index = insertion" using 1(2) by simp
    then show ?thesis using 1(3) by (simp add: shift_up.simps [of xs])
  qed
qed

lemma shift_insert:
  assumes "insertion \<le> len" "len < length xs"
  shows "take (Suc len) ((shift_up xs insertion len)[insertion := r]) = take insertion (take len xs) @ r # drop insertion (take len xs)"
proof -
  have "shift_up xs insertion len = take insertion xs @ xs ! insertion # drop insertion (take len xs) @ drop (Suc len) xs"
    using shift_up_eq [OF assms] assms by (simp add: take_Suc_conv_app_nth)
  then show ?thesis using assms by (simp add: list_update_append take_Cons' min_def)
qed

text \<open>The insertion point splits the table into the reservations below and above the new one.\<close>

lemma insertion_split:
  assumes "sorted_wrt res_before rs"
    and i: "i = (case position (\<lambda>x. res_start x > s) rs of Some i \<Rightarrow> i | None \<Rightarrow> length rs)"
  shows "i \<le> length rs" "\<forall>x\<in>set (take i rs). res_start x \<le> s" "\<forall>x\<in>set (drop i rs). s < res_start x"
proof -
  have "i \<le> length rs \<and> (\<forall>x\<in>set (take i rs). res_start x \<le> s) \<and> (\<forall>x\<in>set (drop i rs). s < res_start x)"
  proof (cases "position (\<lambda>x. res_start x > s) rs")
    case None
    then have "i = length rs" using i by simp
    then show ?thesis using None [unfolded position_None] by (auto simp: not_less)
  next
    case (Some j)
    note j = position_SomeD [OF Some]
    have "s < res_start x" if "x \<in> set (drop j rs)" for x
    proof -
      have "drop j rs = rs ! j # drop (Suc j) rs" using j(1) by (simp add: Cons_nth_drop_Suc)
      then have "x = rs ! j \<or> res_before (rs ! j) x"
        using that sorted_wrt_drop [OF assms(1), of j] by auto
      then show ?thesis using j(2) by (auto simp: res_before_def word_less_nat_alt)
    qed
    moreover have "res_start x \<le> s" if "x \<in> set (take j rs)" for x
      using that j(3) by (auto simp: in_set_conv_nth not_less)
    ultimately show ?thesis using Some i j(1) by simp
  qed
  then show "i \<le> length rs" "\<forall>x\<in>set (take i rs). res_start x \<le> s" "\<forall>x\<in>set (drop i rs). s < res_start x" by auto
qed

lemma insert_sorted_spec:
  assumes wf: "planner_wf p" and fit: "fits p (unat (res_start r)) (unat (res_size r))"
    and r: "res_size r \<noteq> 0" "4096 dvd unat (res_start r)" "4096 dvd unat (res_size r)"
    and ins: "VirtualAddressPlanner_insert_sorted p r = (res, p')"
  shows "planner_wf p' \<and> plan_floor p' = plan_floor p \<and> plan_ceiling p' = plan_ceiling p \<and>
    (if plan_len p = length (plan_reservations p) then res = Inl ReservationTableFull \<and> p' = p
     else res = Inr () \<and> set (VirtualAddressPlanner_reservations p') = insert r (set (VirtualAddressPlanner_reservations p)) \<and>
       length (VirtualAddressPlanner_reservations p') = length (VirtualAddressPlanner_reservations p) + 1)"
proof (cases "plan_len p = length (plan_reservations p)")
  case True
  then show ?thesis using ins wf by (auto simp: VirtualAddressPlanner_insert_sorted_def)
next
  case False
  let ?rs = "VirtualAddressPlanner_reservations p"
  have len: "length ?rs = plan_len p" "plan_len p < length (plan_reservations p)"
    using False wf by (auto simp: planner_wf_def VirtualAddressPlanner_reservations_def)
  define i where "i = (case position (\<lambda>x. res_start x > res_start r) ?rs of Some i \<Rightarrow> i | None \<Rightarrow> plan_len p)"
  note sp = insertion_split [OF planner_bounds(1) [OF wf] i_def [folded len(1)]]
  have p': "res = Inr ()" "p' = p\<lparr>plan_reservations := (shift_up (plan_reservations p) i (plan_len p))[i := r], plan_len := plan_len p + 1\<rparr>"
    using ins False by (auto simp: VirtualAddressPlanner_insert_sorted_def i_def Let_def)
  have act: "VirtualAddressPlanner_reservations p' = take i ?rs @ r # drop i ?rs"
    using shift_insert [of i "plan_len p" "plan_reservations p" r] sp(1) len
    by (simp add: p'(2) VirtualAddressPlanner_reservations_def)
  have "length (plan_reservations p') = length (plan_reservations p)"
    using shift_up_eq [of i "plan_len p" "plan_reservations p"] sp(1) len by (simp add: p'(2))
  have rs: "set ?rs = set (take i ?rs) \<union> set (drop i ?rs)" by (metis append_take_drop_id set_append)
  have dis: "unat (res_start r) + unat (res_size r) \<le> unat (res_start x) \<or>
      unat (res_start x) + unat (res_size x) \<le> unat (res_start r)" "0 < unat (res_size x)" if "x \<in> set ?rs" for x
    using that fit r(1) planner_bounds(2) [OF wf] disjoint_ranges [of "unat (res_size r)" "unat (res_size x)"]
    by (auto simp: fits_def range_free_def res_set_def res_wf_def unat_gt_0)
  have r0: "0 < unat (res_size r)" using r(1) by (simp add: unat_gt_0)
  have "res_before x r" if "x \<in> set (take i ?rs)" for x
    using dis(1) [OF in_set_takeD [OF that]] sp(2) that r0 by (auto simp: res_before_def word_le_nat_alt)
  moreover have "res_before r x" if "x \<in> set (drop i ?rs)" for x
    using dis [OF in_set_dropD [OF that]] sp(3) that by (auto simp: res_before_def word_less_nat_alt)
  moreover have "sorted_wrt res_before (take i ?rs @ drop i ?rs)" using planner_bounds(1) [OF wf] by simp
  ultimately have "sorted_wrt res_before (VirtualAddressPlanner_reservations p')"
    unfolding act sorted_wrt_append by auto
  moreover have "res_wf (unat (plan_floor p)) (unat (plan_ceiling p)) r" using fit r by (simp add: fits_def res_wf_def)
  then have "\<forall>x\<in>set (VirtualAddressPlanner_reservations p'). res_wf (unat (plan_floor p)) (unat (plan_ceiling p)) x"
    using planner_bounds(2) [OF wf] rs unfolding act by auto
  ultimately have "planner_wf p'"
    using wf len \<open>length (plan_reservations p') = _\<close> by (simp add: planner_wf_def p'(2))
  then show ?thesis using False p' act rs sp(1) by auto
qed

subsection \<open>Reservations\<close>

lemma planner_new_wf: "VirtualAddressPlanner_try_new n lo hi = Inr p \<Longrightarrow> planner_wf p"
  by (auto simp: VirtualAddressPlanner_try_new_def planner_wf_def VirtualAddressPlanner_reservations_def split: if_splits)

lemma page_multiple: "is_multiple_of (x :: u64) VM_PAGE_SIZE \<longleftrightarrow> 4096 dvd unat x"
  by (simp add: is_multiple_of_def VM_PAGE_SIZE_def word_unat_eq_iff unat_mod dvd_eq_mod_eq_0)

text \<open>A start the planner chose is inserted: the table gains exactly that reservation, or it was full.\<close>

lemma reserve_insert:
  assumes wf: "planner_wf p" and n: "size' \<noteq> 0" "4096 dvd unat size'" and a: "fits p (unat a) (unat size')" "4096 dvd unat a"
    and ins: "VirtualAddressPlanner_insert_sorted p \<lparr>res_start = a, res_size = size', res_protection = pr, res_kind = kd\<rparr> = (res, p')"
  shows "planner_wf p' \<and> plan_floor p' = plan_floor p \<and> plan_ceiling p' = plan_ceiling p \<and>
    (if plan_len p = length (plan_reservations p) then res = Inl ReservationTableFull \<and> p' = p
     else res = Inr () \<and> set (VirtualAddressPlanner_reservations p') =
         insert \<lparr>res_start = a, res_size = size', res_protection = pr, res_kind = kd\<rparr> (set (VirtualAddressPlanner_reservations p)))"
  using insert_sorted_spec [OF wf _ _ _ _ ins] assms by simp

text \<open>A planner over one megabyte with two entries, the first page taken.\<close>

abbreviation sample_planner :: VirtualAddressPlanner where
  "sample_planner \<equiv> \<lparr>plan_floor = 0x10000, plan_ceiling = 0x110000,
     plan_reservations = [\<lparr>res_start = 0x10000, res_size = 0x1000, res_protection = VmProtection_READ, res_kind = HostRuntime\<rparr>,
       Reservation_EMPTY], plan_len = 1\<rparr>"

lemma sample_planner_wf: "planner_wf sample_planner"
  by (simp add: planner_wf_def VirtualAddressPlanner_reservations_def MAX_ADDRESS_RESERVATIONS_def res_wf_def)

text \<open>Exact reservation: a request succeeds exactly when its size is a positive page multiple, its
  start is page aligned, the range lies inside the planner's bounds, touches no existing reservation
  and a table entry is left. Success adds exactly that reservation, every refusal leaves the planner
  unchanged, and the reservations stay sorted, disjoint and in bounds.\<close>

theorem reserve_exact_exact:
  assumes "planner_wf p" and "VirtualAddressPlanner_reserve_exact p start size' pr kd = (res, p')"
  shows "planner_wf p' \<and>
    (is_ok res \<longleftrightarrow> size' \<noteq> 0 \<and> 4096 dvd unat size' \<and> 4096 dvd unat start \<and> fits p (unat start) (unat size') \<and>
       plan_len p < length (plan_reservations p)) \<and>
    (case res of
       Inr r \<Rightarrow> r = \<lparr>res_start = start, res_size = size', res_protection = pr, res_kind = kd\<rparr> \<and>
         set (VirtualAddressPlanner_reservations p') = insert r (set (VirtualAddressPlanner_reservations p))
     | Inl e \<Rightarrow> p' = p)"
proof -
  let ?r = "\<lparr>res_start = start, res_size = size', res_protection = pr, res_kind = kd\<rparr>"
  have len: "plan_len p \<le> length (plan_reservations p)" using assms(1) by (simp add: planner_wf_def)
  show ?thesis
  proof (cases "size' \<noteq> 0 \<and> 4096 dvd unat size' \<and> 4096 dvd unat start \<and> fits p (unat start) (unat size')")
    case True
    obtain ri q where ins: "VirtualAddressPlanner_insert_sorted p ?r = (ri, q)" by fastforce
    have "unat start + unat size' < 2 ^ 64"
      using True unat_less_exp [of "plan_ceiling p"] by (simp add: fits_def)
    then have "VirtualAddressPlanner_validate_available p start size' = Inr ()"
      using True validate_available_eq [OF assms(1)] by (auto simp: fits_def)
    then have r: "(res, p') = (case ri of Inl e \<Rightarrow> (Inl e, q) | Inr u \<Rightarrow> (Inr ?r, q))"
      using assms(2) True ins by (auto simp: VirtualAddressPlanner_reserve_exact_def validate_size_def page_multiple split: sum.splits)
    then show ?thesis
      using reserve_insert [OF assms(1) _ _ _ _ ins] True len by (auto split: if_splits)
  next
    case False
    then have "p' = p \<and> \<not> is_ok res"
      using assms(2) validate_available_eq [OF assms(1), of size' start]
      by (auto simp: VirtualAddressPlanner_reserve_exact_def validate_size_def page_multiple split: if_splits)
    then show ?thesis using False assms(1) by (cases res) auto
  qed
qed

theorem reserve_exact_exact_witness:
  "\<exists>p'. VirtualAddressPlanner_reserve_exact sample_planner 0x11000 0x1000 VmProtection_READ Heap =
     (Inr \<lparr>res_start = 0x11000, res_size = 0x1000, res_protection = VmProtection_READ, res_kind = Heap\<rparr>, p') \<and> planner_wf p'"
proof -
  obtain res p' where r: "VirtualAddressPlanner_reserve_exact sample_planner 0x11000 0x1000 VmProtection_READ Heap = (res, p')"
    by fastforce
  have "fits sample_planner 0x11000 0x1000"
    by (simp add: fits_def range_free_def res_set_def VirtualAddressPlanner_reservations_def)
  then show ?thesis using reserve_exact_exact [OF sample_planner_wf r] r by (auto simp: is_ok_iff)
qed

lemma alignment_power:
  assumes "validate_alignment al = Inr ()"
  obtains k where "k < 64" "al = 2 ^ k" "\<And>a :: nat. 2 ^ k dvd a \<Longrightarrow> 4096 dvd a"
proof -
  obtain k where k: "k < 64" "al = 2 ^ k" and ge: "\<not> al < VM_PAGE_SIZE"
    using assms by (auto simp: validate_alignment_def is_power_of_two_iff split: if_splits)
  have "(2 :: nat) ^ 12 \<le> 2 ^ k" using ge k by (simp add: VM_PAGE_SIZE_def word_less_nat_alt unat_exp)
  then have "12 \<le> k" by (rule power_le_imp_le_exp [rotated]) simp
  then have "(2 :: nat) ^ 12 dvd 2 ^ k" by (rule le_imp_power_dvd)
  then have "4096 dvd (2 :: nat) ^ k" by simp
  then show thesis using that [of k] k dvd_trans by blast
qed



end
