(* ===== verification/Pe_Loader.thy ===== *)
theory Pe_Loader
  imports Pe_Imports Vm_Planner Nt_Modules
begin

text \<open>
  The console-image loader of \<open>user/winhost/src/lib.rs\<close>: the runtime policy, the plans for the import
  address table and the relocations, the materialisation of the image in a buffer, and the final section
  protections. The output buffer is a list that every operation returns updated; the closures given to the
  visitors of the parser are loops over the records they emit.
\<close>

subsection \<open>Limits and errors\<close>

definition MAX_PE_IMAGE_BYTES :: nat where "MAX_PE_IMAGE_BYTES = 64 * 1024 * 1024"
definition MAX_BOOTSTRAP_IMPORTS :: nat where "MAX_BOOTSTRAP_IMPORTS = 64"
definition MAX_BOOTSTRAP_RELOCATIONS :: nat where "MAX_BOOTSTRAP_RELOCATIONS = 1024"
definition RUNTIME_PAGE_SIZE :: nat where "RUNTIME_PAGE_SIZE = 4096"
definition MAX_STACK_RESERVE_BYTES :: u64 where "MAX_STACK_RESERVE_BYTES = 8 * 1024 * 1024"
definition MAX_HEAP_RESERVE_BYTES :: u64 where "MAX_HEAP_RESERVE_BYTES = 64 * 1024 * 1024"
definition UNSUPPORTED_COFF_CHARACTERISTICS_MASK :: u16 where "UNSUPPORTED_COFF_CHARACTERISTICS_MASK = 0x5100"
definition UNSUPPORTED_DLL_CHARACTERISTICS_MASK :: u16 where "UNSUPPORTED_DLL_CHARACTERISTICS_MASK = 0x7080"
definition IMAGE_FILE_RELOCS_STRIPPED :: u16 where "IMAGE_FILE_RELOCS_STRIPPED = 0x0001"
definition IMAGE_FILE_EXECUTABLE_IMAGE :: u16 where "IMAGE_FILE_EXECUTABLE_IMAGE = 0x0002"
definition IMAGE_FILE_DLL :: u16 where "IMAGE_FILE_DLL = 0x2000"
definition IMAGE_SUBSYSTEM_WINDOWS_CUI :: u16 where "IMAGE_SUBSYSTEM_WINDOWS_CUI = 3"
definition IMAGE_DIRECTORY_ENTRY_EXCEPTION :: nat where "IMAGE_DIRECTORY_ENTRY_EXCEPTION = 3"
definition IMAGE_DIRECTORY_ENTRY_IAT :: nat where "IMAGE_DIRECTORY_ENTRY_IAT = 12"

datatype (plugins only: size) LoaderError =
    LoaderPe PeError
  | InvalidFileSize
  | LoaderImageTooLarge
  | InvalidStackReserve u64
  | StackReserveTooLarge u64
  | InvalidStackCommit u64
  | InvalidHeapReserve u64
  | HeapReserveTooLarge u64
  | InvalidHeapCommit u64
  | NotExecutable
  | DynamicLibrary
  | UnsupportedCoffCharacteristics u16
  | UnsupportedDllCharacteristics u16
  | RelocationsStrippedWithDirectory
  | PreferredImageBaseRequired u64 u64
  | UnsupportedSubsystem u16
  | MissingEntryPoint
  | UnsupportedDirectory nat
  | ExceptionDirectory
  | SecurityDirectory
  | TlsDirectory
  | DelayImportDirectory
  | LoaderTooManyImports nat
  | TooManyRelocations nat
  | LoaderInvalidModuleName
  | LoaderInvalidSymbolName
  | LoaderUnsupportedApiSet
  | OrdinalImport
  | ModuleNotAllowed
  | SymbolNotAllowed
  | InvalidShimAddress
  | OverlappingPatches
  | InvalidImageBuffer
  | RangeMismatch
  | RelocationSourceMismatch u32
  | UnsupportedProtection nat
  | LoaderAddressOverflow

definition LoaderError_nt_status :: "LoaderError \<Rightarrow> NtStatus" where
  "LoaderError_nt_status self =
     (case self of
        InvalidFileSize \<Rightarrow> NtStatus_INSUFFICIENT_RESOURCES
      | LoaderImageTooLarge \<Rightarrow> NtStatus_INSUFFICIENT_RESOURCES
      | StackReserveTooLarge _ \<Rightarrow> NtStatus_INSUFFICIENT_RESOURCES
      | HeapReserveTooLarge _ \<Rightarrow> NtStatus_INSUFFICIENT_RESOURCES
      | LoaderTooManyImports _ \<Rightarrow> NtStatus_INSUFFICIENT_RESOURCES
      | TooManyRelocations _ \<Rightarrow> NtStatus_INSUFFICIENT_RESOURCES
      | InvalidImageBuffer \<Rightarrow> NtStatus_ACCESS_VIOLATION
      | RangeMismatch \<Rightarrow> NtStatus_ACCESS_VIOLATION
      | LoaderAddressOverflow \<Rightarrow> NtStatus_ACCESS_VIOLATION
      | InvalidShimAddress \<Rightarrow> NtStatus_UNSUCCESSFUL
      | RelocationSourceMismatch _ \<Rightarrow> NtStatus_UNSUCCESSFUL
      | PreferredImageBaseRequired _ _ \<Rightarrow> NtStatus_CONFLICTING_ADDRESSES
      | LoaderPe _ \<Rightarrow> NtStatus_INVALID_IMAGE_FORMAT
      | InvalidStackReserve _ \<Rightarrow> NtStatus_INVALID_IMAGE_FORMAT
      | InvalidStackCommit _ \<Rightarrow> NtStatus_INVALID_IMAGE_FORMAT
      | InvalidHeapReserve _ \<Rightarrow> NtStatus_INVALID_IMAGE_FORMAT
      | InvalidHeapCommit _ \<Rightarrow> NtStatus_INVALID_IMAGE_FORMAT
      | NotExecutable \<Rightarrow> NtStatus_INVALID_IMAGE_FORMAT
      | DynamicLibrary \<Rightarrow> NtStatus_INVALID_IMAGE_FORMAT
      | RelocationsStrippedWithDirectory \<Rightarrow> NtStatus_INVALID_IMAGE_FORMAT
      | UnsupportedSubsystem _ \<Rightarrow> NtStatus_INVALID_IMAGE_FORMAT
      | MissingEntryPoint \<Rightarrow> NtStatus_INVALID_IMAGE_FORMAT
      | OverlappingPatches \<Rightarrow> NtStatus_INVALID_IMAGE_FORMAT
      | _ \<Rightarrow> NtStatus_NOT_SUPPORTED)"

subsection \<open>Bootstrap addresses\<close>

record BootstrapAddresses =
  get_std_handle :: u64
  write_file :: u64
  exit_process :: u64
  rtl_exit_user_process :: "u64 option"
  nt_close :: "u64 option"

definition BootstrapAddresses_validate :: "BootstrapAddresses \<Rightarrow> LoaderError + unit" where
  "BootstrapAddresses_validate self =
     (if get_std_handle self = 0 \<or> write_file self = 0 \<or> exit_process self = 0 then Inl InvalidShimAddress
      else if rtl_exit_user_process self = Some 0 then Inl InvalidShimAddress
      else if nt_close self = Some 0 then Inl InvalidShimAddress
      else Inr ())"

definition BootstrapAddresses_resolve ::
  "BootstrapAddresses \<Rightarrow> u8 list \<Rightarrow> PeImportTarget \<Rightarrow> LoaderError + u64" where
  "BootstrapAddresses_resolve self module' target =
     and_then (map_err (\<lambda>_. LoaderInvalidModuleName) (ModuleName_parse module')) (\<lambda>m.
     if ModuleName_is_api_set m then Inl LoaderUnsupportedApiSet
     else case target of
       PeOrdinal _ \<Rightarrow> Inl OrdinalImport
     | PeName _ name \<Rightarrow>
         and_then (map_err (\<lambda>_. LoaderInvalidSymbolName) (SymbolName_parse name)) (\<lambda>symbol.
         let kernel = (ModuleName_as_bytes m = ascii ''KERNEL32.DLL'');
             ntdll = (ModuleName_as_bytes m = ascii ''NTDLL.DLL'');
             s = SymbolName_as_bytes symbol in
         if kernel \<and> s = ascii ''GetStdHandle'' then Inr (get_std_handle self)
         else if kernel \<and> s = ascii ''WriteFile'' then Inr (write_file self)
         else if kernel \<and> s = ascii ''ExitProcess'' then Inr (exit_process self)
         else if ntdll \<and> s = ascii ''RtlExitUserProcess''
         then ok_or (rtl_exit_user_process self) SymbolNotAllowed
         else if ntdll \<and> s = ascii ''NtClose'' then ok_or (nt_close self) SymbolNotAllowed
         else if kernel \<or> ntdll then Inl SymbolNotAllowed
         else Inl ModuleNotAllowed))"

subsection \<open>Runtime policy\<close>

definition is_nonzero_page_multiple :: "u64 \<Rightarrow> bool" where
  "is_nonzero_page_multiple value \<longleftrightarrow> value \<noteq> 0 \<and> is_multiple_of value (of_nat RUNTIME_PAGE_SIZE)"

definition validate_resource_metadata :: "PeImage \<Rightarrow> LoaderError + unit" where
  "validate_resource_metadata img =
     (let opt = optional (pe_headers img) in
      if \<not> is_nonzero_page_multiple (size_of_stack_reserve opt)
      then Inl (InvalidStackReserve (size_of_stack_reserve opt))
      else if MAX_STACK_RESERVE_BYTES < size_of_stack_reserve opt
      then Inl (StackReserveTooLarge (size_of_stack_reserve opt))
      else if \<not> is_nonzero_page_multiple (size_of_stack_commit opt)
      then Inl (InvalidStackCommit (size_of_stack_commit opt))
      else if \<not> is_nonzero_page_multiple (size_of_heap_reserve opt)
      then Inl (InvalidHeapReserve (size_of_heap_reserve opt))
      else if MAX_HEAP_RESERVE_BYTES < size_of_heap_reserve opt
      then Inl (HeapReserveTooLarge (size_of_heap_reserve opt))
      else if \<not> is_nonzero_page_multiple (size_of_heap_commit opt)
      then Inl (InvalidHeapCommit (size_of_heap_commit opt))
      else Inr ())"

definition validate_directory_policy :: "PeImage \<Rightarrow> LoaderError + unit" where
  "validate_directory_policy img =
     all_result (\<lambda>(index, d).
       if DataDirectory_is_empty d then Inr ()
       else if index = IMAGE_DIRECTORY_ENTRY_IMPORT \<or> index = IMAGE_DIRECTORY_ENTRY_BASERELOC \<or>
               index = IMAGE_DIRECTORY_ENTRY_IAT then Inr ()
       else if index = IMAGE_DIRECTORY_ENTRY_EXCEPTION then Inl ExceptionDirectory
       else if index = IMAGE_DIRECTORY_ENTRY_SECURITY then Inl SecurityDirectory
       else if index = IMAGE_DIRECTORY_ENTRY_TLS then Inl TlsDirectory
       else if index = IMAGE_DIRECTORY_ENTRY_DELAY_IMPORT then Inl DelayImportDirectory
       else Inl (UnsupportedDirectory index)) (enumerate 0 (pe_directories img))"

definition validate_protection :: "SectionLoad \<Rightarrow> LoaderError + unit" where
  "validate_protection section' =
     (let p = sl_permissions section'; r = sl_virtual_range section' in
      and_then (map_err (\<lambda>_. UnsupportedProtection (sl_index section'))
                 (VmProtection_try_new (perm_read p) (perm_write p) (perm_execute p))) (\<lambda>vm.
      if range_size r \<noteq> 0 \<and>
         (\<not> prot_read vm \<or> (prot_write vm \<and> prot_execute vm) \<or>
          \<not> RUNTIME_PAGE_SIZE dvd unat (range_rva r) \<or> \<not> RUNTIME_PAGE_SIZE dvd unat (range_size r))
      then Inl (UnsupportedProtection (sl_index section'))
      else Inr ()))"

definition validate_protections :: "LoaderPlan \<Rightarrow> LoaderError + unit" where
  "validate_protections loader = all_result validate_protection (plan_sections loader)"

definition validate_runtime_headers :: "PeImage \<Rightarrow> LoaderError + unit" where
  "validate_runtime_headers img =
     (let chars = coff_characteristics (coff (pe_headers img)); opt = optional (pe_headers img) in
      if chars AND IMAGE_FILE_EXECUTABLE_IMAGE = 0 then Inl NotExecutable
      else if chars AND IMAGE_FILE_DLL \<noteq> 0 then Inl DynamicLibrary
      else if chars AND UNSUPPORTED_COFF_CHARACTERISTICS_MASK \<noteq> 0
      then Inl (UnsupportedCoffCharacteristics (chars AND UNSUPPORTED_COFF_CHARACTERISTICS_MASK))
      else if dll_characteristics opt AND UNSUPPORTED_DLL_CHARACTERISTICS_MASK \<noteq> 0
      then Inl (UnsupportedDllCharacteristics (dll_characteristics opt AND UNSUPPORTED_DLL_CHARACTERISTICS_MASK))
      else if subsystem opt \<noteq> IMAGE_SUBSYSTEM_WINDOWS_CUI then Inl (UnsupportedSubsystem (subsystem opt))
      else if address_of_entry_point opt = 0 then Inl MissingEntryPoint
      else if MAX_PE_IMAGE_BYTES < unat (size_of_image opt) then Inl LoaderImageTooLarge
      else and_then (validate_resource_metadata img) (\<lambda>_.
        if chars AND IMAGE_FILE_RELOCS_STRIPPED \<noteq> 0 \<and> has_directory img IMAGE_DIRECTORY_ENTRY_BASERELOC
        then Inl RelocationsStrippedWithDirectory
        else validate_directory_policy img))"

definition validate_runtime_subset :: "PeImage \<Rightarrow> (LoaderError + LoaderPlan) option" where
  "validate_runtime_subset img =
     (case validate_runtime_headers img of
        Inl e \<Rightarrow> Some (Inl e)
      | Inr _ \<Rightarrow>
          do {
            import_result \<leftarrow> PeImage_import_summary img;
            case import_result of
              Inl e \<Rightarrow> Some (Inl (LoaderPe e))
            | Inr summary \<Rightarrow>
                if MAX_BOOTSTRAP_IMPORTS < import_count summary
                then Some (Inl (LoaderTooManyImports (import_count summary)))
                else do {
                  relocation_result \<leftarrow>
                    PeImage_base_relocation_plan img (image_base (optional (pe_headers img)));
                  case relocation_result of
                    Inl e \<Rightarrow> Some (Inl (LoaderPe e))
                  | Inr relocations \<Rightarrow>
                      if MAX_BOOTSTRAP_RELOCATIONS < patch_count relocations
                      then Some (Inl (TooManyRelocations (patch_count relocations)))
                      else Some (and_then (map_err LoaderPe (LoaderPlan_from_image img)) (\<lambda>loader.
                             and_then (validate_protections loader) (\<lambda>_. Inr loader)))
                }
          })"

subsection \<open>Plans\<close>

record IatPatch =
  iat_patch_rva :: u32
  iat_patch_address :: u64

record BootstrapImportPlan =
  import_image_size :: nat
  import_patches :: "IatPatch list"

record RuntimeRelocationPlan =
  relocation_image_size :: nat
  relocation_actual_base :: u64
  relocation_patches :: "RelocationPatch list"

definition loader_ranges_overlap :: "u32 \<Rightarrow> u32 \<Rightarrow> u32 \<Rightarrow> u32 \<Rightarrow> bool" where
  "loader_ranges_overlap first first_size second second_size =
     (case checked_add first first_size of
        None \<Rightarrow> True
      | Some first_end \<Rightarrow>
          (case checked_add second second_size of
             None \<Rightarrow> True
           | Some second_end \<Rightarrow> first < second_end \<and> second < first_end))"

text \<open>
  The closure of \<open>plan_bootstrap_imports\<close>: the error seen so far and the patches. Storing a patch beyond
  the fixed capacity of the array panics.
\<close>

definition bind_import ::
  "BootstrapAddresses \<Rightarrow> nat \<Rightarrow> LoaderError option \<times> IatPatch list \<Rightarrow> ImportRecord \<Rightarrow>
   (LoaderError option \<times> IatPatch list) option" where
  "bind_import addresses image_size = (\<lambda>(err, patches) rec.
     if err \<noteq> None then Some (err, patches)
     else case BootstrapAddresses_resolve addresses (import_module_name rec) (import_target rec) of
       Inl cause \<Rightarrow> Some (Some cause, patches)
     | Inr address \<Rightarrow>
         (case checked_add (iat_rva rec) 8 of
            None \<Rightarrow> Some (Some RangeMismatch, patches)
          | Some end' \<Rightarrow>
              if image_size < unat end' then Some (Some RangeMismatch, patches)
              else if list_ex (\<lambda>patch. loader_ranges_overlap (iat_patch_rva patch) 8 (iat_rva rec) 8) patches
              then Some (Some OverlappingPatches, patches)
              else if length patches < MAX_BOOTSTRAP_IMPORTS
              then Some (None, patches @ [\<lparr>iat_patch_rva = iat_rva rec, iat_patch_address = address\<rparr>])
              else None))"

definition plan_bootstrap_imports ::
  "PeImage \<Rightarrow> BootstrapAddresses \<Rightarrow> (LoaderError + BootstrapImportPlan) option" where
  "plan_bootstrap_imports img addresses =
     (case BootstrapAddresses_validate addresses of
        Inl e \<Rightarrow> Some (Inl e)
      | Inr _ \<Rightarrow>
          do {
            subset \<leftarrow> validate_runtime_subset img;
            case subset of
              Inl e \<Rightarrow> Some (Inl e)
            | Inr loader \<Rightarrow>
                do {
                  summary \<leftarrow> PeImage_import_summary img;
                  case summary of
                    Inl e \<Rightarrow> Some (Inl (LoaderPe e))
                  | Inr _ \<Rightarrow>
                      do {
                        (visit, recs) \<leftarrow> PeImage_visit_imports img;
                        (err, patches) \<leftarrow> for_each (bind_import addresses (unat (plan_size_of_image loader))) (None, []) recs;
                        Some (and_then (map_err LoaderPe visit) (\<lambda>_.
                          case err of
                            Some cause \<Rightarrow> Inl cause
                          | None \<Rightarrow> Inr \<lparr>import_image_size = unat (plan_size_of_image loader),
                                          import_patches = patches\<rparr>))
                      }
                }
          })"

text \<open>The closure of \<open>plan_runtime_relocations\<close>.\<close>

definition collect_relocation ::
  "nat \<Rightarrow> LoaderError option \<times> RelocationPatch list \<Rightarrow> RelocationPatch \<Rightarrow>
   (LoaderError option \<times> RelocationPatch list) option" where
  "collect_relocation image_size = (\<lambda>(err, patches) patch.
     if err \<noteq> None then Some (err, patches)
     else case checked_add (target_rva patch) 8 of
       None \<Rightarrow> Some (Some RangeMismatch, patches)
     | Some end' \<Rightarrow>
         if image_size < unat end' then Some (Some RangeMismatch, patches)
         else if list_ex (\<lambda>prior. loader_ranges_overlap (target_rva prior) 8 (target_rva patch) 8) patches
         then Some (Some OverlappingPatches, patches)
         else if length patches < MAX_BOOTSTRAP_RELOCATIONS then Some (None, patches @ [patch])
         else None)"

definition plan_runtime_relocations :: "PeImage \<Rightarrow> u64 \<Rightarrow> (LoaderError + RuntimeRelocationPlan) option" where
  "plan_runtime_relocations img actual_base =
     do {
       subset \<leftarrow> validate_runtime_subset img;
       case subset of
         Inl e \<Rightarrow> Some (Inl e)
       | Inr loader \<Rightarrow>
           if coff_characteristics (coff (pe_headers img)) AND IMAGE_FILE_RELOCS_STRIPPED \<noteq> 0 \<and>
              actual_base \<noteq> plan_image_base loader
           then Some (Inl (PreferredImageBaseRequired (plan_image_base loader) actual_base))
           else do {
             summary \<leftarrow> PeImage_base_relocation_plan img actual_base;
             case summary of
               Inl e \<Rightarrow> Some (Inl (LoaderPe e))
             | Inr plan \<Rightarrow>
                 if MAX_BOOTSTRAP_RELOCATIONS < patch_count plan
                 then Some (Inl (TooManyRelocations (patch_count plan)))
                 else do {
                   (visit, ps) \<leftarrow> PeImage_visit_base_relocations img actual_base;
                   (err, patches) \<leftarrow> for_each (collect_relocation (unat (plan_size_of_image loader))) (None, []) ps;
                   Some (and_then (map_err LoaderPe visit) (\<lambda>_.
                     case err of
                       Some cause \<Rightarrow> Inl cause
                     | None \<Rightarrow> Inr \<lparr>relocation_image_size = unat (plan_size_of_image loader),
                                     relocation_actual_base = actual_base, relocation_patches = patches\<rparr>))
                 }
           }
     }"

definition validate_patch_separation :: "RuntimeRelocationPlan \<Rightarrow> BootstrapImportPlan \<Rightarrow> LoaderError + unit" where
  "validate_patch_separation relocations plan =
     (if relocation_image_size relocations \<noteq> import_image_size plan then Inl InvalidImageBuffer
      else all_result (\<lambda>relocation.
        if list_ex (\<lambda>iat. loader_ranges_overlap (target_rva relocation) 8 (iat_patch_rva iat) 8) (import_patches plan)
        then Inl OverlappingPatches else Inr ()) (relocation_patches relocations))"

subsection \<open>Building the image\<close>

definition preflight_range :: "nat \<Rightarrow> nat \<Rightarrow> u32 \<Rightarrow> u32 \<Rightarrow> u32 \<Rightarrow> LoaderError + unit" where
  "preflight_range source_len destination_len source destination size' =
     and_then (ok_or (checked_add source size') RangeMismatch) (\<lambda>source_end.
     and_then (ok_or (checked_add destination size') RangeMismatch) (\<lambda>destination_end.
     if source_len < unat source_end \<or> destination_len < unat destination_end then Inl RangeMismatch
     else Inr ()))"

definition preflight_copy :: "PeImage \<Rightarrow> nat \<Rightarrow> LoaderPlan \<Rightarrow> LoaderError + unit" where
  "preflight_copy img output_len loader =
     (let h = plan_headers loader; source_len = length (pe_bytes img) in
      and_then (preflight_range source_len output_len (file_offset (hl_file h)) (range_rva (hl_virtual_range h))
                  (file_size (hl_file h))) (\<lambda>_.
      all_result (\<lambda>section'.
        case sl_file section' of
          None \<Rightarrow> Inr ()
        | Some f \<Rightarrow> preflight_range source_len output_len (file_offset f)
                      (range_rva (sl_virtual_range section')) (file_size f)) (plan_sections loader)))"

definition write_slice :: "'a list \<Rightarrow> nat \<Rightarrow> 'a list \<Rightarrow> 'a list option" where
  "write_slice mem start src =
     (if start + length src \<le> length mem then Some (take start mem @ src @ drop (start + length src) mem) else None)"

definition copy_file_range :: "u8 list \<Rightarrow> u8 list \<Rightarrow> u32 \<Rightarrow> u32 \<Rightarrow> u32 \<Rightarrow> u8 list option" where
  "copy_file_range source destination source_offset destination_offset size' =
     do {
       src \<leftarrow> slice_opt source (unat source_offset) (unat source_offset + unat size');
       write_slice destination (unat destination_offset) src
     }"

definition write_u64 :: "u8 list \<Rightarrow> u32 \<Rightarrow> u64 \<Rightarrow> u8 list option" where
  "write_u64 output rva value = write_slice output (unat rva) (to_le_bytes value)"

text \<open>The loop over the sections of the plan that copies their file ranges.\<close>

definition copy_section :: "u8 list \<Rightarrow> u8 list \<Rightarrow> SectionLoad \<Rightarrow> u8 list option" where
  "copy_section source output section' =
     (case sl_file section' of
        None \<Rightarrow> Some output
      | Some f \<Rightarrow> copy_file_range source output (file_offset f) (range_rva (sl_virtual_range section')) (file_size f))"

definition materialize_image :: "PeImage \<Rightarrow> u8 list \<Rightarrow> ((LoaderError + unit) \<times> u8 list) option" where
  "materialize_image img output =
     do {
       subset \<leftarrow> validate_runtime_subset img;
       case subset of
         Inl e \<Rightarrow> Some (Inl e, output)
       | Inr loader \<Rightarrow>
           if length output \<noteq> unat (plan_size_of_image loader) then Some (Inl InvalidImageBuffer, output)
           else case preflight_copy img (length output) loader of
             Inl e \<Rightarrow> Some (Inl e, output)
           | Inr _ \<Rightarrow>
               do {
                 let h = plan_headers loader;
                 output \<leftarrow> copy_file_range (pe_bytes img) (replicate (length output) 0) (file_offset (hl_file h))
                   (range_rva (hl_virtual_range h)) (file_size (hl_file h));
                 output \<leftarrow> for_each (copy_section (pe_bytes img)) output (plan_sections loader);
                 Some (Inr (), output)
               }
     }"

definition check_relocation :: "u8 list \<Rightarrow> RelocationPatch \<Rightarrow> (LoaderError + unit) option" where
  "check_relocation output patch =
     (case slice_opt output (unat (target_rva patch)) (unat (target_rva patch) + 8) of
        None \<Rightarrow> Some (Inl RangeMismatch)
      | Some slot \<Rightarrow>
          do {
            value \<leftarrow> read_u64 slot;
            Some (if value \<noteq> original_value patch then Inl (RelocationSourceMismatch (target_rva patch)) else Inr ())
          })"

fun check_relocations :: "u8 list \<Rightarrow> RelocationPatch list \<Rightarrow> (LoaderError + unit) option" where
  "check_relocations output [] = Some (Inr ())"
| "check_relocations output (patch # rest) =
     do {
       r \<leftarrow> check_relocation output patch;
       case r of Inl e \<Rightarrow> Some (Inl e) | Inr _ \<Rightarrow> check_relocations output rest
     }"

definition apply_relocation_plan :: "RuntimeRelocationPlan \<Rightarrow> u8 list \<Rightarrow> ((LoaderError + unit) \<times> u8 list) option" where
  "apply_relocation_plan plan output =
     (if length output \<noteq> relocation_image_size plan then Some (Inl InvalidImageBuffer, output)
      else do {
        check \<leftarrow> check_relocations output (relocation_patches plan);
        case check of
          Inl e \<Rightarrow> Some (Inl e, output)
        | Inr _ \<Rightarrow>
            do {
              output \<leftarrow> for_each (\<lambda>out patch. write_u64 out (target_rva patch) (relocated_value patch)) output
                (relocation_patches plan);
              Some (Inr (), output)
            }
      })"

definition apply_import_plan :: "BootstrapImportPlan \<Rightarrow> u8 list \<Rightarrow> ((LoaderError + unit) \<times> u8 list) option" where
  "apply_import_plan plan output =
     (if length output \<noteq> import_image_size plan \<or>
         list_ex (\<lambda>patch. length output < unat (iat_patch_rva patch) + 8) (import_patches plan)
      then Some (Inl InvalidImageBuffer, output)
      else do {
        output \<leftarrow> for_each (\<lambda>out patch. write_u64 out (iat_patch_rva patch) (iat_patch_address patch)) output
          (import_patches plan);
        Some (Inr (), output)
      })"

record LoadedImage =
  loaded_actual_base :: u64
  entry_address :: u64
  loaded_import_count :: nat
  loaded_relocation_count :: nat

text \<open>The three mutating steps at the end of \<open>build_loaded_image\<close>; each one stops at its error.\<close>

definition write_loaded_image ::
  "PeImage \<Rightarrow> RuntimeRelocationPlan \<Rightarrow> BootstrapImportPlan \<Rightarrow> u8 list \<Rightarrow>
   ((LoaderError + unit) \<times> u8 list) option" where
  "write_loaded_image img relocations plan output =
     do {
       (r, output) \<leftarrow> materialize_image img output;
       case r of
         Inl e \<Rightarrow> Some (Inl e, output)
       | Inr _ \<Rightarrow>
           do {
             (r, output) \<leftarrow> apply_relocation_plan relocations output;
             case r of
               Inl e \<Rightarrow> Some (Inl e, output)
             | Inr _ \<Rightarrow> apply_import_plan plan output
           }
     }"

definition build_loaded_image ::
  "PeImage \<Rightarrow> u64 \<Rightarrow> BootstrapAddresses \<Rightarrow> u8 list \<Rightarrow> ((LoaderError + LoadedImage) \<times> u8 list) option" where
  "build_loaded_image img actual_base addresses output =
     do {
       subset \<leftarrow> validate_runtime_subset img;
       case subset of
         Inl e \<Rightarrow> Some (Inl e, output)
       | Inr loader \<Rightarrow>
           if length output \<noteq> unat (plan_size_of_image loader) then Some (Inl InvalidImageBuffer, output)
           else do {
             imports' \<leftarrow> plan_bootstrap_imports img addresses;
             case imports' of
               Inl e \<Rightarrow> Some (Inl e, output)
             | Inr plan \<Rightarrow>
                 do {
                   relocations' \<leftarrow> plan_runtime_relocations img actual_base;
                   case relocations' of
                     Inl e \<Rightarrow> Some (Inl e, output)
                   | Inr relocations \<Rightarrow>
                       (case and_then (validate_patch_separation relocations plan) (\<lambda>_.
                             and_then (preflight_copy img (length output) loader) (\<lambda>_.
                             ok_or (checked_add actual_base (ucast (plan_entry_rva loader))) LoaderAddressOverflow)) of
                          Inl e \<Rightarrow> Some (Inl e, output)
                        | Inr entry \<Rightarrow>
                            do {
                              (r, output) \<leftarrow> write_loaded_image img relocations plan output;
                              Some (and_then r (\<lambda>_.
                                Inr \<lparr>loaded_actual_base = actual_base, entry_address = entry,
                                     loaded_import_count = length (import_patches plan),
                                     loaded_relocation_count = length (relocation_patches relocations)\<rparr>), output)
                            })
                 }
           }
     }"

subsection \<open>Final protections\<close>

datatype FinalProtection = FinalRead | FinalReadWrite | FinalReadExecute

record ProtectionRange =
  protection_rva :: u32
  protection_size :: u32
  final_protection :: FinalProtection

definition section_protection :: "SectionLoad \<Rightarrow> LoaderError + FinalProtection" where
  "section_protection section' =
     (let p = sl_permissions section' in
      if perm_read p \<and> \<not> perm_write p \<and> \<not> perm_execute p then Inr FinalRead
      else if perm_read p \<and> perm_write p \<and> \<not> perm_execute p then Inr FinalReadWrite
      else if perm_read p \<and> \<not> perm_write p \<and> perm_execute p then Inr FinalReadExecute
      else Inl (UnsupportedProtection (sl_index section')))"

text \<open>The loop of \<open>visit_final_section_protections\<close>: its result and the ranges given to the visitor.\<close>

fun final_section_protections :: "SectionLoad list \<Rightarrow> (LoaderError + unit) \<times> ProtectionRange list" where
  "final_section_protections [] = (Inr (), [])"
| "final_section_protections (section' # rest) =
     (let r = sl_virtual_range section' in
      if range_size r = 0 then final_section_protections rest
      else case section_protection section' of
        Inl e \<Rightarrow> (Inl e, [])
      | Inr p \<Rightarrow>
          (let (result, emitted) = final_section_protections rest in
           (result, \<lparr>protection_rva = range_rva r, protection_size = range_size r, final_protection = p\<rparr> # emitted)))"

definition visit_final_section_protections :: "PeImage \<Rightarrow> ((LoaderError + unit) \<times> ProtectionRange list) option" where
  "visit_final_section_protections img =
     do {
       subset \<leftarrow> validate_runtime_subset img;
       Some (case subset of
          Inl e \<Rightarrow> (Inl e, [])
        | Inr loader \<Rightarrow> final_section_protections (plan_sections loader))
     }"

end
