(* ===== verification/Pe_Loader_Laws.thy ===== *)
theory Pe_Loader_Laws
  imports Pe_Loader
begin

text \<open>
  What the loader of \<open>user/winhost/src/lib.rs\<close> guarantees: the collection of patches, the writes of
  8-byte slots, the copy of the file into the image, and from these that building an image is all or
  nothing and exact.
\<close>

subsection \<open>Slots\<close>

definition apart :: "u32 \<Rightarrow> u32 \<Rightarrow> bool" where
  "apart a b \<longleftrightarrow> unat a + 8 \<le> unat b \<or> unat b + 8 \<le> unat a"

lemma overlap_apart:
  assumes "unat a + 8 < 2 ^ 32" "unat b + 8 < 2 ^ 32"
  shows "loader_ranges_overlap a 8 b 8 \<longleftrightarrow> \<not> apart a b"
proof -
  have "unat a + unat (8 :: u32) < 2 ^ LENGTH(32)" "unat b + unat (8 :: u32) < 2 ^ LENGTH(32)" using assms by simp_all
  then obtain x y where "checked_add a 8 = Some x" "unat x = unat a + unat (8 :: u32)"
    "checked_add b 8 = Some y" "unat y = unat b + unat (8 :: u32)"
    by (elim checked_add_fits)
  then show ?thesis by (auto simp: loader_ranges_overlap_def apart_def word_less_nat_alt)
qed

text \<open>The slots of a list of patches: inside an image of \<open>n\<close> bytes and pairwise apart.\<close>

definition slots_ok :: "('p \<Rightarrow> u32) \<Rightarrow> nat \<Rightarrow> 'p list \<Rightarrow> bool" where
  "slots_ok slot n ps \<longleftrightarrow>
     sorted_wrt (\<lambda>p q. apart (slot p) (slot q)) ps \<and> (\<forall>p\<in>set ps. unat (slot p) + 8 \<le> n)"

subsection \<open>Collecting patches\<close>

text \<open>
  The contract of the two closures that collect patches: a remembered error is kept; otherwise the record
  is bound to a patch whose slot must lie in the image and apart from the slots before it, and the fixed
  array must have room.
\<close>

locale patch_collector =
  fixes step :: "nat \<Rightarrow> LoaderError option \<times> 'p list \<Rightarrow> 'r \<Rightarrow> (LoaderError option \<times> 'p list) option"
    and slot :: "'p \<Rightarrow> u32"
    and bind :: "'r \<Rightarrow> LoaderError + 'p"
    and cap :: nat
  assumes step_error: "step n (Some e, ps) r = Some (Some e, ps)"
    and step_reject: "bind r = Inl e \<Longrightarrow> step n (None, ps) r = Some (Some e, ps)"
    and step_range: "n < 2 ^ 32 \<Longrightarrow> bind r = Inr p \<Longrightarrow> n < unat (slot p) + 8 \<Longrightarrow>
          step n (None, ps) r = Some (Some RangeMismatch, ps)"
    and step_overlap: "n < 2 ^ 32 \<Longrightarrow> bind r = Inr p \<Longrightarrow> unat (slot p) + 8 \<le> n \<Longrightarrow>
          \<forall>q\<in>set ps. unat (slot q) + 8 \<le> n \<Longrightarrow> \<exists>q\<in>set ps. \<not> apart (slot q) (slot p) \<Longrightarrow>
          step n (None, ps) r = Some (Some OverlappingPatches, ps)"
    and step_store: "n < 2 ^ 32 \<Longrightarrow> bind r = Inr p \<Longrightarrow> unat (slot p) + 8 \<le> n \<Longrightarrow>
          \<forall>q\<in>set ps. unat (slot q) + 8 \<le> n \<Longrightarrow> \<forall>q\<in>set ps. apart (slot q) (slot p) \<Longrightarrow> length ps < cap \<Longrightarrow>
          step n (None, ps) r = Some (None, ps @ [p])"
begin

lemma collect_error: "for_each (step n) (Some e, ps) rs = Some (Some e, ps)"
  by (induction rs) (simp_all add: step_error)

lemma collect_step:
  assumes n: "n < 2 ^ 32" and c: "slots_ok slot n ps" "length ps < cap"
  shows "(\<exists>e. step n (None, ps) r = Some (Some e, ps)) \<or>
    (\<exists>p. step n (None, ps) r = Some (None, ps @ [p]) \<and> bind r = Inr p \<and> slots_ok slot n (ps @ [p]))"
proof (cases "bind r")
  case (Inl e)
  then show ?thesis using step_reject by blast
next
  case (Inr p)
  have old: "\<forall>q\<in>set ps. unat (slot q) + 8 \<le> n" using c(1) by (simp add: slots_ok_def)
  show ?thesis
  proof (cases "n < unat (slot p) + 8 \<or> (\<exists>q\<in>set ps. \<not> apart (slot q) (slot p))")
    case True
    then show ?thesis using step_range [OF n Inr] step_overlap [OF n Inr _ old] by (meson linorder_not_le)
  next
    case False
    then have "step n (None, ps) r = Some (None, ps @ [p])" using step_store [OF n Inr _ old _ c(2)] by auto
    then show ?thesis using False c(1) Inr by (auto simp: slots_ok_def sorted_wrt_append)
  qed
qed

lemma collect_all:
  assumes n: "n < 2 ^ 32"
  shows "slots_ok slot n ps \<Longrightarrow> length ps + length rs \<le> cap \<Longrightarrow>
    \<exists>err ps'. for_each (step n) (None, ps) rs = Some (err, ps') \<and>
      (err = None \<longrightarrow> (\<exists>new. ps' = ps @ new \<and> list_all2 (\<lambda>r p. bind r = Inr p) rs new) \<and> slots_ok slot n ps')"
proof (induction rs arbitrary: ps)
  case (Cons r rs)
  consider (error) e where "step n (None, ps) r = Some (Some e, ps)"
    | (store) p where "step n (None, ps) r = Some (None, ps @ [p])" "bind r = Inr p" "slots_ok slot n (ps @ [p])"
    using collect_step [OF n Cons.prems(1), of r] Cons.prems(2) by auto
  then show ?case
  proof cases
    case error
    then show ?thesis by (simp add: collect_error)
  next
    case store
    then obtain err ps' where "for_each (step n) (None, ps @ [p]) rs = Some (err, ps')"
      "err = None \<longrightarrow> (\<exists>new. ps' = (ps @ [p]) @ new \<and> list_all2 (\<lambda>r p. bind r = Inr p) rs new) \<and> slots_ok slot n ps'"
      using Cons.IH [of "ps @ [p]"] Cons.prems(2) by auto
    then show ?thesis using store by (auto simp: list_all2_Cons1)
  qed
qed simp

end

text \<open>The patch an import is bound to, and the two closures as collectors.\<close>

definition import_patch :: "BootstrapAddresses \<Rightarrow> ImportRecord \<Rightarrow> LoaderError + IatPatch" where
  "import_patch addresses r =
     and_then (BootstrapAddresses_resolve addresses (import_module_name r) (import_target r)) (\<lambda>address.
       Inr \<lparr>iat_patch_rva = iat_rva r, iat_patch_address = address\<rparr>)"

lemma slot_overlap:
  assumes "n < 2 ^ 32" "unat a + 8 \<le> n" "\<forall>q\<in>set ps. unat (slot q) + 8 \<le> n"
  shows "checked_add a 8 = Some (a + 8)" "unat (a + 8) = unat a + 8"
    "list_ex (\<lambda>q. loader_ranges_overlap (slot q) 8 a 8) ps \<longleftrightarrow> (\<exists>q\<in>set ps. \<not> apart (slot q) a)"
proof -
  show "checked_add a 8 = Some (a + 8)" "unat (a + 8) = unat a + 8"
    using assms by (simp_all add: checked_add_def unat_plus_if')
  have "loader_ranges_overlap (slot q) 8 a 8 \<longleftrightarrow> \<not> apart (slot q) a" if "q \<in> set ps" for q
    using overlap_apart [of "slot q" a] assms that by fastforce
  then show "list_ex (\<lambda>q. loader_ranges_overlap (slot q) 8 a 8) ps \<longleftrightarrow> (\<exists>q\<in>set ps. \<not> apart (slot q) a)"
    by (auto simp: list_ex_iff)
qed

lemma slot_outside:
  assumes "n < 2 ^ 32" "n < unat (a :: u32) + 8"
  shows "checked_add a 8 = None \<or> checked_add a 8 = Some (a + 8) \<and> n < unat (a + 8)"
  using assms by (simp add: checked_add_def unat_plus_if')

interpretation iat: patch_collector "bind_import addresses" iat_patch_rva "import_patch addresses" MAX_BOOTSTRAP_IMPORTS
  for addresses
proof unfold_locales
  fix n :: nat and ps r p
  assume n: "n < 2 ^ 32" and b: "import_patch addresses r = Inr p"
  then have r: "BootstrapAddresses_resolve addresses (import_module_name r) (import_target r) = Inr (iat_patch_address p)"
    "p = \<lparr>iat_patch_rva = iat_rva r, iat_patch_address = iat_patch_address p\<rparr>"
    "iat_patch_rva p = iat_rva r"
    by (auto simp: import_patch_def and_then_eq_Inr)
  show "bind_import addresses n (None, ps) r = Some (Some RangeMismatch, ps)" if "n < unat (iat_patch_rva p) + 8"
    using slot_outside [OF n that] r by (auto simp: bind_import_def)
  assume s: "unat (iat_patch_rva p) + 8 \<le> n" "\<forall>q\<in>set ps. unat (iat_patch_rva q) + 8 \<le> n"
  note o = slot_overlap [OF n s(1) s(2)]
  show "bind_import addresses n (None, ps) r = Some (Some OverlappingPatches, ps)"
    if "\<exists>q\<in>set ps. \<not> apart (iat_patch_rva q) (iat_patch_rva p)"
    using o that r s(1) by (simp add: bind_import_def)
  show "bind_import addresses n (None, ps) r = Some (None, ps @ [p])"
    if "\<forall>q\<in>set ps. apart (iat_patch_rva q) (iat_patch_rva p)" "length ps < MAX_BOOTSTRAP_IMPORTS"
    using o that r s(1) by (simp add: bind_import_def)
qed (auto simp: bind_import_def import_patch_def split: sum.splits)

interpretation dir64: patch_collector collect_relocation target_rva Inr MAX_BOOTSTRAP_RELOCATIONS
proof unfold_locales
  fix n :: nat and ps :: "RelocationPatch list" and r p
  assume n: "n < 2 ^ 32" and b: "(Inr r :: LoaderError + RelocationPatch) = Inr p"
  then have r: "r = p" by simp
  show "collect_relocation n (None, ps) r = Some (Some RangeMismatch, ps)" if "n < unat (target_rva p) + 8"
    using slot_outside [OF n that] r by (auto simp: collect_relocation_def)
  assume s: "unat (target_rva p) + 8 \<le> n" "\<forall>q\<in>set ps. unat (target_rva q) + 8 \<le> n"
  note o = slot_overlap [OF n s(1) s(2)]
  show "collect_relocation n (None, ps) r = Some (Some OverlappingPatches, ps)"
    if "\<exists>q\<in>set ps. \<not> apart (target_rva q) (target_rva p)"
    using o that r s(1) by (simp add: collect_relocation_def)
  show "collect_relocation n (None, ps) r = Some (None, ps @ [p])"
    if "\<forall>q\<in>set ps. apart (target_rva q) (target_rva p)" "length ps < MAX_BOOTSTRAP_RELOCATIONS"
    using o that r s(1) by (simp add: collect_relocation_def)
qed (auto simp: collect_relocation_def)

subsection \<open>The runtime subset and the plans\<close>

lemma visit_imports_spec:
  assumes "image_sound img"
  obtains e where "PeImage_import_summary img = Some (Inl e)"
  | sm recs where "PeImage_import_summary img = Some (Inr sm)" "PeImage_visit_imports img = Some (Inr sm, recs)"
      "imports_sound img sm recs"
proof -
  obtain res recs where r: "scan_imports img = Some (res, recs)" "\<forall>sm. res = Inr sm \<longrightarrow> imports_sound img sm recs"
    using scan_imports_spec [OF assms] by blast
  then show thesis
    using that by (cases res) (auto simp: PeImage_visit_imports_def PeImage_import_summary_def)
qed

lemma visit_relocations_spec:
  assumes "image_sound img"
  obtains e where "PeImage_base_relocation_plan img base = Some (Inl e)"
  | plan ps where "PeImage_base_relocation_plan img base = Some (Inr plan)"
      "PeImage_visit_base_relocations img base = Some (Inr plan, ps)" "relocation_sound img base plan ps"
proof -
  obtain res ps where r: "scan_base_relocations img base = Some (res, ps)"
    "\<forall>plan. res = Inr plan \<longrightarrow> relocation_sound img base plan ps"
    using scan_base_relocations_spec [OF assms] by blast
  then show thesis
    using that by (cases res) (auto simp: PeImage_visit_base_relocations_def PeImage_base_relocation_plan_def)
qed

text \<open>What an accepted image satisfies besides the soundness of its structure.\<close>

definition runtime_subset :: "PeImage \<Rightarrow> LoaderPlan \<Rightarrow> bool" where
  "runtime_subset img loader \<longleftrightarrow>
     LoaderPlan_from_image img = Inr loader \<and> validate_protections loader = Inr () \<and>
     plan_entry_rva loader \<noteq> 0 \<and> unat (plan_size_of_image loader) \<le> MAX_PE_IMAGE_BYTES \<and>
     (\<exists>sm. PeImage_import_summary img = Some (Inr sm) \<and> import_count sm \<le> MAX_BOOTSTRAP_IMPORTS)"

lemma plan_fields:
  assumes "LoaderPlan_from_image img = Inr loader"
  shows "plan_image_base loader = image_base (optional (pe_headers img))"
    "plan_size_of_image loader = size_of_image (optional (pe_headers img))"
    "plan_entry_rva loader = address_of_entry_point (optional (pe_headers img))"
    "hl_file (plan_headers loader) = \<lparr>file_offset = 0, file_size = size_of_headers (optional (pe_headers img))\<rparr>"
    "range_rva (hl_virtual_range (plan_headers loader)) = 0"
    "plan_sections loader = map section_load (enumerate 0 (pe_sections img))"
  using assms by (auto simp: LoaderPlan_from_image_def Let_def and_then_eq_Inr)

lemma validate_runtime_headersD:
  assumes "validate_runtime_headers img = Inr u"
  shows "address_of_entry_point (optional (pe_headers img)) \<noteq> 0"
    "unat (size_of_image (optional (pe_headers img))) \<le> MAX_PE_IMAGE_BYTES"
  using assms by (auto simp: validate_runtime_headers_def Let_def split: if_split_asm)

lemma validate_runtime_subset_total:
  assumes "image_sound img"
  shows "\<exists>res. validate_runtime_subset img = Some res"
proof -
  obtain a where a: "PeImage_import_summary img = Some a" using assms by (rule visit_imports_spec)
  obtain b where b: "PeImage_base_relocation_plan img (image_base (optional (pe_headers img))) = Some b"
    using assms by (rule visit_relocations_spec)
  show ?thesis
    unfolding validate_runtime_subset_def by (cases a; cases b) (simp_all add: a b split: sum.split)
qed

lemma validate_runtime_subset_Inr:
  assumes "validate_runtime_subset img = Some (Inr loader)"
  shows "runtime_subset img loader"
proof -
  obtain u where h: "validate_runtime_headers img = Inr u"
    using assms by (auto simp: validate_runtime_subset_def split: sum.splits)
  let ?i = "PeImage_import_summary img"
  let ?r = "PeImage_base_relocation_plan img (image_base (optional (pe_headers img)))"
  obtain sm where i: "?i = Some (Inr sm)" "import_count sm \<le> MAX_BOOTSTRAP_IMPORTS"
    using assms h
    by (cases ?i; cases "the ?i") (auto simp: validate_runtime_subset_def not_less split: if_split_asm)
  have "LoaderPlan_from_image img = Inr loader" "validate_protections loader = Inr ()"
    using assms h i
    by (cases ?r; cases "the ?r";
        auto simp: validate_runtime_subset_def and_then_eq_Inr split: if_split_asm)+
  then show ?thesis
    using validate_runtime_headersD [OF h] i by (simp add: runtime_subset_def plan_fields)
qed

lemma validate_runtime_subset_spec:
  assumes "image_sound img"
  obtains e where "validate_runtime_subset img = Some (Inl e)"
  | loader where "validate_runtime_subset img = Some (Inr loader)" "runtime_subset img loader"
  using validate_runtime_subset_total [OF assms] validate_runtime_subset_Inr by (metis sum.exhaust)

text \<open>What the two plans contain.\<close>

definition import_plan_ok :: "PeImage \<Rightarrow> BootstrapAddresses \<Rightarrow> ImportRecord list \<Rightarrow> BootstrapImportPlan \<Rightarrow> bool" where
  "import_plan_ok img addresses recs plan \<longleftrightarrow>
     BootstrapAddresses_validate addresses = Inr () \<and>
     (\<exists>sm. PeImage_visit_imports img = Some (Inr sm, recs) \<and> imports_sound img sm recs) \<and>
     import_image_size plan = unat (size_of_image (optional (pe_headers img))) \<and>
     list_all2 (\<lambda>r p. import_patch addresses r = Inr p) recs (import_patches plan) \<and>
     slots_ok iat_patch_rva (import_image_size plan) (import_patches plan)"

definition relocation_plan_ok :: "PeImage \<Rightarrow> u64 \<Rightarrow> RuntimeRelocationPlan \<Rightarrow> bool" where
  "relocation_plan_ok img base plan \<longleftrightarrow>
     (\<exists>summary. PeImage_visit_base_relocations img base = Some (Inr summary, relocation_patches plan) \<and>
        relocation_sound img base summary (relocation_patches plan)) \<and>
     relocation_image_size plan = unat (size_of_image (optional (pe_headers img))) \<and>
     relocation_actual_base plan = base \<and> length (relocation_patches plan) \<le> MAX_BOOTSTRAP_RELOCATIONS \<and>
     slots_ok target_rva (relocation_image_size plan) (relocation_patches plan)"

lemma imports_sound_count: "imports_sound img sm recs \<Longrightarrow> import_count sm = length recs"
  by (auto simp: imports_sound_def split: option.splits)

lemma plan_bootstrap_imports_spec:
  assumes snd: "image_sound img"
  obtains e where "plan_bootstrap_imports img addresses = Some (Inl e)"
  | recs plan where "plan_bootstrap_imports img addresses = Some (Inr plan)" "import_plan_ok img addresses recs plan"
proof (cases "BootstrapAddresses_validate addresses")
  case (Inl e)
  then show thesis using that(1) by (simp add: plan_bootstrap_imports_def)
next
  case a: (Inr u)
  from snd show thesis
  proof (cases rule: validate_runtime_subset_spec)
    case 1
    then show thesis using that(1) a by (simp add: plan_bootstrap_imports_def)
  next
    case l: (2 loader)
    then obtain sm' where sm': "PeImage_import_summary img = Some (Inr sm')" "import_count sm' \<le> MAX_BOOTSTRAP_IMPORTS"
      by (auto simp: runtime_subset_def)
    obtain recs where recs: "PeImage_visit_imports img = Some (Inr sm', recs)" "imports_sound img sm' recs"
      using snd by (rule visit_imports_spec) (use sm' in auto)
    let ?n = "unat (plan_size_of_image loader)"
    have n: "?n < 2 ^ 32" using unat_less_exp [of "plan_size_of_image loader"] by simp
    have "length [] + length recs \<le> MAX_BOOTSTRAP_IMPORTS" using sm'(2) imports_sound_count [OF recs(2)] by simp
    then obtain err ps where ps: "for_each (bind_import addresses ?n) (None, []) recs = Some (err, ps)"
      "err = None \<longrightarrow> (\<exists>new. ps = [] @ new \<and> list_all2 (\<lambda>r p. import_patch addresses r = Inr p) recs new) \<and>
         slots_ok iat_patch_rva ?n ps"
      using iat.collect_all [OF n, of "[]" recs addresses] by (auto simp: slots_ok_def)
    have eq: "plan_bootstrap_imports img addresses = Some (case err of Some cause \<Rightarrow> Inl cause
        | None \<Rightarrow> Inr \<lparr>import_image_size = ?n, import_patches = ps\<rparr>)"
      using a l(1) sm'(1) recs(1) ps(1) by (simp add: plan_bootstrap_imports_def)
    show thesis
    proof (cases err)
      case None
      then have "import_plan_ok img addresses recs \<lparr>import_image_size = ?n, import_patches = ps\<rparr>"
        using a recs ps(2) l(2) by (auto simp: import_plan_ok_def runtime_subset_def plan_fields)
      then show thesis using that(2) eq None by simp
    qed (use that(1) eq in simp)
  qed
qed

lemma plan_runtime_relocations_spec:
  assumes snd: "image_sound img"
  obtains e where "plan_runtime_relocations img base = Some (Inl e)"
  | plan where "plan_runtime_relocations img base = Some (Inr plan)" "relocation_plan_ok img base plan"
proof -
  from snd show thesis
  proof (cases rule: validate_runtime_subset_spec)
    case 1
    then show thesis using that(1) by (simp add: plan_runtime_relocations_def)
  next
    case l: (2 loader)
    let ?n = "unat (plan_size_of_image loader)"
    note eq = plan_runtime_relocations_def [of img base]
    show thesis
    proof (cases "coff_characteristics (coff (pe_headers img)) AND IMAGE_FILE_RELOCS_STRIPPED \<noteq> 0 \<and>
        base \<noteq> plan_image_base loader")
      case True
      then show thesis using that(1) l(1) eq by simp
    next
      case pref: False
      from snd show thesis
      proof (cases rule: visit_relocations_spec [where base = base])
        case 1
        then show thesis using that(1) l(1) pref eq by auto
      next
        case v: (2 summary ps)
        show thesis
        proof (cases "MAX_BOOTSTRAP_RELOCATIONS < patch_count summary")
          case True
          then show thesis using that(1) l(1) pref v(1) eq by auto
        next
          case count: False
          then have len: "length ps \<le> MAX_BOOTSTRAP_RELOCATIONS" using v(3) by (auto simp: relocation_sound_def Let_def)
          have n: "?n < 2 ^ 32" using unat_less_exp [of "plan_size_of_image loader"] by simp
          obtain err ps' where ps': "for_each (collect_relocation ?n) (None, []) ps = Some (err, ps')"
            "err = None \<longrightarrow> (\<exists>new. ps' = [] @ new \<and> list_all2 (\<lambda>r p. (Inr r :: LoaderError + _) = Inr p) ps new) \<and>
               slots_ok target_rva ?n ps'"
            using dir64.collect_all [OF n, of "[]" ps] len by (auto simp: slots_ok_def)
          have same: "err = None \<longrightarrow> ps' = ps" using ps'(2) by (auto simp: list.rel_eq)
          have res: "plan_runtime_relocations img base = Some (case err of Some cause \<Rightarrow> Inl cause
              | None \<Rightarrow> Inr \<lparr>relocation_image_size = ?n, relocation_actual_base = base, relocation_patches = ps'\<rparr>)"
            using l(1) pref v(1,2) count ps'(1) unfolding eq by auto
          show thesis
          proof (cases err)
            case None
            then have "relocation_plan_ok img base \<lparr>relocation_image_size = ?n, relocation_actual_base = base, relocation_patches = ps'\<rparr>"
              using v(2,3) ps'(2) same l(2) len by (auto simp: relocation_plan_ok_def runtime_subset_def plan_fields)
            then show thesis using that(2) res None by simp
          qed (use that(1) res in simp)
        qed
      qed
    qed
  qed
qed

subsection \<open>Writing slots\<close>

definition word_at :: "u8 list \<Rightarrow> nat \<Rightarrow> u64" where
  "word_at out a = from_le_bytes (take 8 (drop a out))"

lemma length_to_le_bytes_u64 [simp]: "length (to_le_bytes (v :: u64)) = 8"
  by (simp add: to_le_bytes_def)

lemma write_slice_spec:
  assumes "a + length src \<le> length mem"
  obtains mem' where "write_slice mem a src = Some mem'" "length mem' = length mem"
    "\<forall>i<length mem. mem' ! i = (if a \<le> i \<and> i < a + length src then src ! (i - a) else mem ! i)"
proof
  show "write_slice mem a src = Some (take a mem @ src @ drop (a + length src) mem)"
    using assms by (simp add: write_slice_def)
  show "length (take a mem @ src @ drop (a + length src) mem) = length mem" using assms by simp
  show "\<forall>i<length mem. (take a mem @ src @ drop (a + length src) mem) ! i =
      (if a \<le> i \<and> i < a + length src then src ! (i - a) else mem ! i)"
    using assms by (auto simp: nth_append)
qed

lemma write_u64_spec:
  assumes "unat a + 8 \<le> length mem"
  obtains mem' where "write_u64 mem a v = Some mem'" "length mem' = length mem" "word_at mem' (unat a) = v"
    "\<forall>i<length mem. i \<notin> {unat a..<unat a + 8} \<longrightarrow> mem' ! i = mem ! i"
proof -
  obtain mem' where m: "write_slice mem (unat a) (to_le_bytes v) = Some mem'" "length mem' = length mem"
    "\<forall>i<length mem. mem' ! i =
       (if unat a \<le> i \<and> i < unat a + length (to_le_bytes v) then to_le_bytes v ! (i - unat a) else mem ! i)"
    by (rule write_slice_spec [of "unat a" "to_le_bytes v" mem]) (use assms in auto)
  have "take 8 (drop (unat a) mem') = to_le_bytes v"
    using assms m(2,3) by (intro nth_equalityI) auto
  then have "word_at mem' (unat a) = v" by (simp add: word_at_def from_to_le_bytes)
  then show thesis using m by (intro that [of mem']) (auto simp: write_u64_def)
qed

lemma word_at_cong:
  assumes "length m = length m'" "a + 8 \<le> length m" "\<And>i. a \<le> i \<Longrightarrow> i < a + 8 \<Longrightarrow> m' ! i = m ! i"
  shows "word_at m' a = word_at m a"
proof -
  have "take 8 (drop a m') = take 8 (drop a m)" using assms by (intro nth_equalityI) auto
  then show ?thesis by (simp add: word_at_def)
qed

lemma write_slots_spec:
  assumes "slots_ok slot (length mem) ps"
  obtains mem' where "for_each (\<lambda>out p. write_u64 out (slot p) (val p)) mem ps = Some mem'" "length mem' = length mem"
    "\<forall>p\<in>set ps. word_at mem' (unat (slot p)) = val p"
    "\<forall>i<length mem. (\<forall>p\<in>set ps. i \<notin> {unat (slot p)..<unat (slot p) + 8}) \<longrightarrow> mem' ! i = mem ! i"
  using assms
proof (induction ps arbitrary: mem thesis)
  case (Cons p ps)
  have p: "unat (slot p) + 8 \<le> length mem" "\<forall>q\<in>set ps. apart (slot p) (slot q)"
    and ok: "slots_ok slot (length mem) ps" using Cons.prems(2) by (auto simp: slots_ok_def)
  obtain m where m: "write_u64 mem (slot p) (val p) = Some m" "length m = length mem"
    "word_at m (unat (slot p)) = val p"
    "\<forall>i<length mem. i \<notin> {unat (slot p)..<unat (slot p) + 8} \<longrightarrow> m ! i = mem ! i"
    by (rule write_u64_spec [OF p(1), of "val p"])
  obtain mem' where mem': "for_each (\<lambda>out p. write_u64 out (slot p) (val p)) m ps = Some mem'" "length mem' = length m"
    "\<forall>p\<in>set ps. word_at mem' (unat (slot p)) = val p"
    "\<forall>i<length m. (\<forall>p\<in>set ps. i \<notin> {unat (slot p)..<unat (slot p) + 8}) \<longrightarrow> mem' ! i = m ! i"
    by (rule Cons.IH [of m, OF _ ok [folded m(2)]])
  have "word_at mem' (unat (slot p)) = word_at m (unat (slot p))"
  proof (rule word_at_cong)
    fix i assume i: "unat (slot p) \<le> i" "i < unat (slot p) + 8"
    then have "\<forall>q\<in>set ps. i \<notin> {unat (slot q)..<unat (slot q) + 8}" using p(2) by (fastforce simp: apart_def)
    then show "mem' ! i = m ! i" using mem'(4) i p(1) m(2) by auto
  qed (use p m(2) mem'(2) in simp_all)
  then show ?case
    using m mem' by (intro Cons.prems(1) [of mem']) auto
qed simp

subsection \<open>Copying the file\<close>

lemma copy_file_range_spec:
  assumes "unat src + unat n \<le> length source" "unat dst + unat n \<le> length mem"
  obtains mem' where "copy_file_range source mem src dst n = Some mem'" "length mem' = length mem"
    "\<forall>i<length mem. mem' ! i =
       (if unat dst \<le> i \<and> i < unat dst + unat n then source ! (unat src + (i - unat dst)) else mem ! i)"
proof -
  let ?s = "take (unat n) (drop (unat src) source)"
  have len: "length ?s = unat n" using assms(1) by simp
  obtain mem' where m: "write_slice mem (unat dst) ?s = Some mem'" "length mem' = length mem"
    "\<forall>i<length mem. mem' ! i = (if unat dst \<le> i \<and> i < unat dst + length ?s then ?s ! (i - unat dst) else mem ! i)"
    by (rule write_slice_spec [of "unat dst" ?s mem]) (use assms(2) len in auto)
  show thesis
  proof (rule that)
    show "copy_file_range source mem src dst n = Some mem'"
      using assms(1) m(1) by (simp add: copy_file_range_def slice_opt_def)
    show "\<forall>i<length mem. mem' ! i = (if unat dst \<le> i \<and> i < unat dst + unat n then source ! (unat src + (i - unat dst)) else mem ! i)"
      using m(3) assms(1) unfolding len by auto
  qed (rule m(2))
qed

lemma section_load_simps [simp]:
  "sl_index (section_load k) = fst k" "sl_file (section_load k) = SectionHeader_file_range (snd k)"
  "sl_virtual_range (section_load k) = SectionHeader_virtual_range (snd k)"
  "sl_permissions (section_load k) = LoadPermissions_from_characteristics (sec_characteristics (snd k))"
  by (simp_all add: section_load_def split: prod.split)

lemma copy_sections_spec:
  assumes snd: "image_sound img" and len: "length mem = unat (size_of_image (optional (pe_headers img)))"
    and ss: "snd ` set ks \<subseteq> set (pe_sections img)"
  obtains mem' where "for_each (copy_section (pe_bytes img)) mem (map section_load ks) = Some mem'"
    "length mem' = length mem"
    "\<forall>i<length mem. mem' ! i = (if \<exists>s\<in>snd ` set ks. i \<in> sec_file_backed s then image_byte img i else mem ! i)"
  using len ss
proof (induction ks arbitrary: mem thesis)
  case (Cons k ks)
  let ?s = "snd k"
  have s: "?s \<in> set (pe_sections img)" using Cons.prems(3) by auto
  obtain m where m: "copy_section (pe_bytes img) mem (section_load k) = Some m" "length m = length mem"
    "\<forall>i<length mem. m ! i = (if i \<in> sec_file_backed ?s then image_byte img i else mem ! i)"
  proof (cases "size_of_raw_data ?s = 0")
    case True
    then show thesis
      using that [of mem] by (auto simp: copy_section_def SectionHeader_file_range_def sec_file_backed_def)
  next
    case False
    have src: "unat (pointer_to_raw_data ?s) + unat (size_of_raw_data ?s) \<le> length (pe_bytes img)"
      using image_soundD(5) [OF snd s False] .
    have dst: "unat (virtual_address ?s) + unat (size_of_raw_data ?s) \<le> length mem"
      using image_soundD(2,3) [OF snd s] Cons.prems(2) by (simp add: sec_end_def)
    obtain m where m: "copy_file_range (pe_bytes img) mem (pointer_to_raw_data ?s) (virtual_address ?s) (size_of_raw_data ?s) = Some m"
      "length m = length mem"
      "\<forall>i<length mem. m ! i = (if unat (virtual_address ?s) \<le> i \<and> i < unat (virtual_address ?s) + unat (size_of_raw_data ?s)
         then pe_bytes img ! (unat (pointer_to_raw_data ?s) + (i - unat (virtual_address ?s))) else mem ! i)"
      using copy_file_range_spec [OF src dst] by blast
    show thesis
    proof (rule that [of m])
      show "copy_section (pe_bytes img) mem (section_load k) = Some m"
        using m(1) False by (simp add: copy_section_def SectionHeader_file_range_def SectionHeader_virtual_range_def)
      show "\<forall>i<length mem. m ! i = (if i \<in> sec_file_backed ?s then image_byte img i else mem ! i)"
        using m(3) image_byte_section [OF snd s] by (simp add: sec_file_backed_def)
    qed (rule m(2))
  qed
  obtain mem' where "for_each (copy_section (pe_bytes img)) m (map section_load ks) = Some mem'" "length mem' = length m"
    "\<forall>i<length m. mem' ! i = (if \<exists>s\<in>snd ` set ks. i \<in> sec_file_backed s then image_byte img i else m ! i)"
    by (rule Cons.IH [of m]) (use Cons.prems(2,3) m(2) in auto)
  then show ?case using m by (intro Cons.prems(1) [of mem']) auto
qed simp

lemma preflight_range_ok:
  assumes "unat src + unat n < 2 ^ 32" "unat dst + unat n < 2 ^ 32"
    "unat src + unat n \<le> source_len" "unat dst + unat n \<le> destination_len"
  shows "preflight_range source_len destination_len src dst n = Inr ()"
proof -
  have "unat src + unat n < 2 ^ LENGTH(32)" "unat dst + unat n < 2 ^ LENGTH(32)" using assms by simp_all
  then obtain x y where "checked_add src n = Some x" "unat x = unat src + unat n"
    "checked_add dst n = Some y" "unat y = unat dst + unat n" by (elim checked_add_fits)
  then show ?thesis using assms by (simp add: preflight_range_def)
qed

lemma in_enumerate_snd: "k \<in> set (enumerate n xs) \<Longrightarrow> snd k \<in> set xs"
  by (cases k) (auto simp: enumerate_eq_zip dest: set_zip_rightD)

lemma preflight_copy_ok:
  assumes snd: "image_sound img" and l: "LoaderPlan_from_image img = Inr loader"
    and len: "len = unat (size_of_image (optional (pe_headers img)))"
  shows "preflight_copy img len loader = Inr ()"
proof -
  let ?opt = "optional (pe_headers img)"
  have size: "len < 2 ^ 32" using unat_less_exp [of "size_of_image ?opt"] len by simp
  have "preflight_range (length (pe_bytes img)) len 0 0 (size_of_headers ?opt) = Inr ()"
    using image_soundD(1,7) [OF snd] size len by (intro preflight_range_ok) auto
  moreover have "preflight_range (length (pe_bytes img)) len (pointer_to_raw_data s) (virtual_address s) (size_of_raw_data s) = Inr ()"
    if "s \<in> set (pe_sections img)" "size_of_raw_data s \<noteq> 0" for s
    using image_soundD(2,3,5,6) [OF snd that(1)] that(2) size len by (intro preflight_range_ok) (auto simp: sec_end_def)
  ultimately show ?thesis
    by (auto simp: preflight_copy_def Let_def plan_fields [OF l] all_result_Inr SectionHeader_file_range_def
        SectionHeader_virtual_range_def dest: in_enumerate_snd)
qed

lemma materialize_image_exact:
  assumes snd: "image_sound img" and sub: "validate_runtime_subset img = Some (Inr loader)"
    and len: "length output = unat (size_of_image (optional (pe_headers img)))"
  shows "materialize_image img output = Some (Inr (), map (image_byte img) [0..<length output])"
proof -
  let ?opt = "optional (pe_headers img)"
  let ?h = "unat (size_of_headers ?opt)"
  have l: "LoaderPlan_from_image img = Inr loader"
    using validate_runtime_subset_Inr [OF sub] by (simp add: runtime_subset_def)
  note f = plan_fields [OF l]
  obtain m where m: "copy_file_range (pe_bytes img) (replicate (length output) 0) 0 0 (size_of_headers ?opt) = Some m"
    "length m = length (replicate (length output) (0 :: u8))"
    "\<forall>i<length (replicate (length output) (0 :: u8)). m ! i =
       (if unat (0 :: u32) \<le> i \<and> i < unat (0 :: u32) + ?h then pe_bytes img ! (unat (0 :: u32) + (i - unat (0 :: u32)))
        else replicate (length output) 0 ! i)"
    by (rule copy_file_range_spec [of 0 "size_of_headers ?opt" "pe_bytes img" 0 "replicate (length output) 0"])
      (use image_soundD(1,7) [OF snd] len in auto)
  obtain m' where m': "for_each (copy_section (pe_bytes img)) m (map section_load (enumerate 0 (pe_sections img))) = Some m'"
    "length m' = length m"
    "\<forall>i<length m. m' ! i = (if \<exists>s\<in>snd ` set (enumerate 0 (pe_sections img)). i \<in> sec_file_backed s
       then image_byte img i else m ! i)"
    by (rule copy_sections_spec [OF snd, of m "enumerate 0 (pe_sections img)"])
      (use m(2) len in \<open>auto simp flip: set_map\<close>)
  have "m' = map (image_byte img) [0..<length output]"
  proof (rule nth_equalityI)
    fix i assume "i < length m'"
    then have i: "i < length output" using m(2) m'(2) by simp
    have "snd ` set (enumerate 0 (pe_sections img)) = set (pe_sections img)" by (simp flip: set_map)
    then have "m' ! i = (if \<exists>s\<in>set (pe_sections img). i \<in> sec_file_backed s then image_byte img i else m ! i)"
      using m'(3) i m(2) by simp
    also have "\<dots> = image_byte img i"
      using m(3) i by (auto simp: image_byte_def find_None_iff split: option.split dest: find_Some_iff [THEN iffD1])
    finally show "m' ! i = map (image_byte img) [0..<length output] ! i" using i by simp
  qed (use m(2) m'(2) in simp)
  then show ?thesis
    using sub len preflight_copy_ok [OF snd l len] m(1) m'(1) by (simp add: materialize_image_def f Let_def)
qed

subsection \<open>The loaded image\<close>

text \<open>
  \<open>image_loaded\<close> is the contract of a successful load at \<open>base\<close>: every import slot holds the address its
  import resolves to, every relocation target holds its relocated value, every other byte is that of the
  image, and the summary counts the patches and gives the entry point without wrap-around.
\<close>

definition slot_at :: "u32 \<Rightarrow> nat set" where
  "slot_at a = {unat a..<unat a + 8}"

definition image_loaded ::
  "PeImage \<Rightarrow> u64 \<Rightarrow> BootstrapAddresses \<Rightarrow> ImportRecord list \<Rightarrow> RelocationPatch list \<Rightarrow> LoadedImage \<Rightarrow> u8 list \<Rightarrow> bool" where
  "image_loaded img base addresses recs ps loaded out \<longleftrightarrow>
     length out = unat (size_of_image (optional (pe_headers img))) \<and>
     (\<forall>r\<in>set recs. BootstrapAddresses_resolve addresses (import_module_name r) (import_target r) =
        Inr (word_at out (unat (iat_rva r)))) \<and>
     (\<forall>p\<in>set ps. word_at out (unat (target_rva p)) = relocated_value p) \<and>
     (\<forall>i<length out. i \<in> (\<Union>r\<in>set recs. slot_at (iat_rva r)) \<union> (\<Union>p\<in>set ps. slot_at (target_rva p)) \<or>
        out ! i = image_byte img i) \<and>
     loaded_actual_base loaded = base \<and>
     unat (entry_address loaded) = unat base + unat (address_of_entry_point (optional (pe_headers img))) \<and>
     loaded_import_count loaded = length recs \<and> loaded_relocation_count loaded = length ps"

lemma check_relocations_ok:
  assumes "\<forall>p\<in>set ps. unat (target_rva p) + 8 \<le> length mem \<and> word_at mem (unat (target_rva p)) = original_value p"
  shows "check_relocations mem ps = Some (Inr ())"
  using assms
proof (induction ps)
  case (Cons p ps)
  then have "check_relocation mem p = Some (Inr ())"
    by (auto simp: check_relocation_def slice_opt_def read_u64_def read_le_def word_at_def)
  then show ?case using Cons by simp
qed simp

lemma image_word:
  assumes "a + 8 \<le> n"
  shows "word_at (map (image_byte img) [0..<n]) a = from_le_bytes (map (image_byte img) [a..<a + 8])"
proof -
  have "take 8 (drop a (map (image_byte img) [0..<n])) = map (image_byte img) [a..<a + 8]"
    using assms by (intro nth_equalityI) auto
  then show ?thesis by (simp add: word_at_def)
qed

lemma separation_apart:
  assumes "validate_patch_separation r plan = Inr ()" "relocation_image_size r < 2 ^ 32"
    "slots_ok target_rva (relocation_image_size r) (relocation_patches r)"
    "slots_ok iat_patch_rva (import_image_size plan) (import_patches plan)"
    "p \<in> set (relocation_patches r)" "q \<in> set (import_patches plan)"
  shows "apart (target_rva p) (iat_patch_rva q)"
proof -
  have "relocation_image_size r = import_image_size plan" "\<not> loader_ranges_overlap (target_rva p) 8 (iat_patch_rva q) 8"
    using assms(1,5,6) by (auto simp: validate_patch_separation_def all_result_Inr list_ex_iff split: if_split_asm)
  moreover have "unat (target_rva p) + 8 < 2 ^ 32" "unat (iat_patch_rva q) + 8 < 2 ^ 32"
    using assms(2-6) calculation(1) by (fastforce simp: slots_ok_def)+
  ultimately show ?thesis using overlap_apart by blast
qed

lemma write_loaded_image_exact:
  assumes snd: "image_sound img" and sub: "validate_runtime_subset img = Some (Inr loader)"
    and len: "length output = unat (size_of_image (optional (pe_headers img)))"
    and ip: "import_plan_ok img addresses recs plan" and rp: "relocation_plan_ok img base r"
    and sep: "validate_patch_separation r plan = Inr ()"
  obtains out where "write_loaded_image img r plan output = Some (Inr (), out)" "length out = length output"
    "\<forall>p\<in>set (import_patches plan). word_at out (unat (iat_patch_rva p)) = iat_patch_address p"
    "\<forall>p\<in>set (relocation_patches r). word_at out (unat (target_rva p)) = relocated_value p"
    "\<forall>i<length out. i \<in> (\<Union>p\<in>set (import_patches plan). slot_at (iat_patch_rva p)) \<union>
        (\<Union>p\<in>set (relocation_patches r). slot_at (target_rva p)) \<or> out ! i = image_byte img i"
proof -
  let ?m = "map (image_byte img) [0..<length output]"
  have sizes: "relocation_image_size r = length output" "import_image_size plan = length output"
    using ip rp len by (auto simp: import_plan_ok_def relocation_plan_ok_def)
  have rok: "slots_ok target_rva (length ?m) (relocation_patches r)"
    using rp len by (auto simp: relocation_plan_ok_def)
  have "word_at ?m (unat (target_rva p)) = original_value p" if "p \<in> set (relocation_patches r)" for p
    using that rp image_word [of "unat (target_rva p)" "length output" img] sizes
    by (auto simp: relocation_plan_ok_def relocation_sound_def patch_ok_def slots_ok_def Let_def)
  then have chk: "check_relocations ?m (relocation_patches r) = Some (Inr ())"
    using rok by (intro check_relocations_ok) (auto simp: slots_ok_def)
  obtain m1 where m1: "for_each (\<lambda>out p. write_u64 out (target_rva p) (relocated_value p)) ?m (relocation_patches r) = Some m1"
    "length m1 = length ?m" "\<forall>p\<in>set (relocation_patches r). word_at m1 (unat (target_rva p)) = relocated_value p"
    "\<forall>i<length ?m. (\<forall>p\<in>set (relocation_patches r). i \<notin> {unat (target_rva p)..<unat (target_rva p) + 8}) \<longrightarrow> m1 ! i = ?m ! i"
    by (rule write_slots_spec [OF rok])
  have iok: "slots_ok iat_patch_rva (length m1) (import_patches plan)"
    using ip len m1(2) by (auto simp: import_plan_ok_def)
  obtain m2 where m2: "for_each (\<lambda>out p. write_u64 out (iat_patch_rva p) (iat_patch_address p)) m1 (import_patches plan) = Some m2"
    "length m2 = length m1" "\<forall>p\<in>set (import_patches plan). word_at m2 (unat (iat_patch_rva p)) = iat_patch_address p"
    "\<forall>i<length m1. (\<forall>p\<in>set (import_patches plan). i \<notin> {unat (iat_patch_rva p)..<unat (iat_patch_rva p) + 8}) \<longrightarrow> m2 ! i = m1 ! i"
    by (rule write_slots_spec [OF iok])
  have ap: "apart (target_rva p) (iat_patch_rva q)" if "p \<in> set (relocation_patches r)" "q \<in> set (import_patches plan)" for p q
    using separation_apart [OF sep _ _ _ that] rp ip unat_less_exp [of "size_of_image (optional (pe_headers img))"]
    by (auto simp: relocation_plan_ok_def import_plan_ok_def)
  show thesis
  proof (rule that [of m2])
    show "write_loaded_image img r plan output = Some (Inr (), m2)"
      using materialize_image_exact [OF snd sub len] chk m1(1,2) m2(1) sizes iok
      by (auto simp: write_loaded_image_def apply_relocation_plan_def apply_import_plan_def slots_ok_def list_ex_iff not_less)
    show "\<forall>p\<in>set (relocation_patches r). word_at m2 (unat (target_rva p)) = relocated_value p"
    proof
      fix p assume p: "p \<in> set (relocation_patches r)"
      have "word_at m2 (unat (target_rva p)) = word_at m1 (unat (target_rva p))"
      proof (rule word_at_cong)
        fix i assume i: "unat (target_rva p) \<le> i" "i < unat (target_rva p) + 8"
        then have "\<forall>q\<in>set (import_patches plan). i \<notin> {unat (iat_patch_rva q)..<unat (iat_patch_rva q) + 8}"
          using ap [OF p] by (fastforce simp: apart_def)
        then show "m2 ! i = m1 ! i" using m2(4) i rok p m1(2) by (auto simp: slots_ok_def)
      qed (use m1(2) m2(2) rok p in \<open>auto simp: slots_ok_def\<close>)
      then show "word_at m2 (unat (target_rva p)) = relocated_value p" using m1(3) p by simp
    qed
  qed (use m1 m2 in \<open>auto simp: slot_at_def\<close>)
qed

lemma image_loadedI:
  assumes ip: "import_plan_ok img addresses recs plan" and len: "length out = unat (size_of_image (optional (pe_headers img)))"
    and "\<forall>p\<in>set (import_patches plan). word_at out (unat (iat_patch_rva p)) = iat_patch_address p"
    "\<forall>p\<in>set ps. word_at out (unat (target_rva p)) = relocated_value p"
    "\<forall>i<length out. i \<in> (\<Union>p\<in>set (import_patches plan). slot_at (iat_patch_rva p)) \<union>
        (\<Union>p\<in>set ps. slot_at (target_rva p)) \<or> out ! i = image_byte img i"
    and "unat entry = unat base + unat (address_of_entry_point (optional (pe_headers img)))"
  shows "image_loaded img base addresses recs ps \<lparr>loaded_actual_base = base, entry_address = entry,
    loaded_import_count = length (import_patches plan), loaded_relocation_count = length ps\<rparr> out"
proof -
  have all2: "list_all2 (\<lambda>r p. import_patch addresses r = Inr p) recs (import_patches plan)"
    using ip by (simp add: import_plan_ok_def)
  then have rvas: "map iat_rva recs = map iat_patch_rva (import_patches plan)"
    by (induction rule: list_all2_induct) (auto simp: import_patch_def and_then_eq_Inr)
  have "(\<Union>r\<in>set recs. slot_at (iat_rva r)) = \<Union> (slot_at ` set (map iat_rva recs))" by simp
  also have "\<dots> = (\<Union>p\<in>set (import_patches plan). slot_at (iat_patch_rva p))" unfolding rvas by simp
  finally have slots: "(\<Union>r\<in>set recs. slot_at (iat_rva r)) = (\<Union>p\<in>set (import_patches plan). slot_at (iat_patch_rva p))" .
  have "BootstrapAddresses_resolve addresses (import_module_name r) (import_target r) = Inr (word_at out (unat (iat_rva r)))"
    if r: "r \<in> set recs" for r
  proof -
    obtain i where i: "i < length recs" "r = recs ! i" using r by (auto simp: in_set_conv_nth)
    then obtain p where "import_patch addresses r = Inr p" "p \<in> set (import_patches plan)"
      using all2 by (auto simp: list_all2_conv_all_nth)
    moreover from this have "word_at out (unat (iat_patch_rva p)) = iat_patch_address p" using assms(3) by blast
    ultimately show ?thesis by (auto simp: import_patch_def and_then_eq_Inr)
  qed
  then show ?thesis
    using assms list_all2_lengthD [OF all2] by (simp add: image_loaded_def slots)
qed

text \<open>The checks that decide a load, all of them before the first write.\<close>

definition loadable :: "PeImage \<Rightarrow> u64 \<Rightarrow> BootstrapAddresses \<Rightarrow> nat \<Rightarrow> bool" where
  "loadable img base addresses len \<longleftrightarrow>
     (\<exists>loader plan r. validate_runtime_subset img = Some (Inr loader) \<and>
        len = unat (size_of_image (optional (pe_headers img))) \<and>
        plan_bootstrap_imports img addresses = Some (Inr plan) \<and> plan_runtime_relocations img base = Some (Inr r) \<and>
        validate_patch_separation r plan = Inr ())"

definition load_outcome ::
  "PeImage \<Rightarrow> u64 \<Rightarrow> BootstrapAddresses \<Rightarrow> u8 list \<Rightarrow> LoaderError + LoadedImage \<Rightarrow> u8 list \<Rightarrow> bool" where
  "load_outcome img base addresses output res out \<longleftrightarrow>
     (case res of
        Inl e \<Rightarrow> out = output \<and> \<not> loadable img base addresses (length output)
      | Inr loaded \<Rightarrow> loadable img base addresses (length output) \<and> (\<exists>sm recs summary ps.
          PeImage_visit_imports img = Some (Inr sm, recs) \<and> imports_sound img sm recs \<and>
          PeImage_visit_base_relocations img base = Some (Inr summary, ps) \<and> relocation_sound img base summary ps \<and>
          image_loaded img base addresses recs ps loaded out))"

lemma entry_in_image:
  assumes "image_sound img"
  shows "unat (address_of_entry_point (optional (pe_headers img))) \<le> unat (size_of_image (optional (pe_headers img)))"
proof -
  let ?e = "address_of_entry_point (optional (pe_headers img))"
  have "?e = 0 \<or> (\<exists>s\<in>set (pe_sections img). unat ?e \<in> sec_virtual s)"
    using assms unfolding image_sound_def Let_def by blast
  then show ?thesis using image_soundD(2) [OF assms] by (fastforce simp: sec_virtual_def sec_end_def)
qed

lemma build_loaded_image_commit:
  assumes snd: "image_sound img" and sub: "validate_runtime_subset img = Some (Inr loader)" "runtime_subset img loader"
    and len: "length output = unat (size_of_image (optional (pe_headers img)))"
    and ip: "plan_bootstrap_imports img addresses = Some (Inr plan)" "import_plan_ok img addresses recs plan"
    and rp: "plan_runtime_relocations img base = Some (Inr r)" "relocation_plan_ok img base r"
  shows "\<exists>res out. build_loaded_image img base addresses output = Some (res, out) \<and>
    load_outcome img base addresses output res out"
proof -
  note f = plan_fields [of img loader]
  have l: "LoaderPlan_from_image img = Inr loader" using sub(2) by (simp add: runtime_subset_def)
  note eq = build_loaded_image_def [of img base addresses "output"]
  have "unat base + unat (ucast (plan_entry_rva loader) :: u64) < 2 ^ LENGTH(64)"
    using rp(2) entry_in_image [OF snd] f(3) [OF l]
    by (auto simp: relocation_plan_ok_def relocation_sound_def Let_def unat_ucast_64)
  then obtain entry where entry: "checked_add base (ucast (plan_entry_rva loader)) = Some entry"
    "unat entry = unat base + unat (ucast (plan_entry_rva loader) :: u64)" by (rule checked_add_fits)
  note pre = preflight_copy_ok [OF snd l len]
  show ?thesis
  proof (cases "validate_patch_separation r plan")
    case (Inl e)
    then show ?thesis unfolding eq load_outcome_def loadable_def using sub(1) f(2) [OF l] len ip(1) rp(1) by simp
  next
    case (Inr u)
    then have sep: "validate_patch_separation r plan = Inr ()" by simp
    obtain out where out: "write_loaded_image img r plan output = Some (Inr (), out)" "length out = length output"
      "\<forall>p\<in>set (import_patches plan). word_at out (unat (iat_patch_rva p)) = iat_patch_address p"
      "\<forall>p\<in>set (relocation_patches r). word_at out (unat (target_rva p)) = relocated_value p"
      "\<forall>i<length out. i \<in> (\<Union>p\<in>set (import_patches plan). slot_at (iat_patch_rva p)) \<union>
          (\<Union>p\<in>set (relocation_patches r). slot_at (target_rva p)) \<or> out ! i = image_byte img i"
      by (rule write_loaded_image_exact [OF snd sub(1) len ip(2) rp(2) sep])
    have "image_loaded img base addresses recs (relocation_patches r) \<lparr>loaded_actual_base = base,
        entry_address = entry, loaded_import_count = length (import_patches plan),
        loaded_relocation_count = length (relocation_patches r)\<rparr> out"
      using out len entry(2) f(3) [OF l]
      by (intro image_loadedI [OF ip(2)]) (simp_all add: unat_ucast_64)
    then show ?thesis
      unfolding eq load_outcome_def loadable_def using sub(1) f(2) [OF l] len ip rp sep pre entry(1) out(1)
      by (auto simp: import_plan_ok_def relocation_plan_ok_def)
  qed
qed

text \<open>A small image that is accepted, loaded away from its preferred base.\<close>

definition sample_addresses :: BootstrapAddresses where
  "sample_addresses = \<lparr>get_std_handle = 0x7000, write_file = 0x7008, exit_process = 0x7010,
     rtl_exit_user_process = None, nt_close = None\<rparr>"

lemma sample_subset:
  obtains loader where "validate_runtime_subset sample_image = Some (Inr loader)" "plan_size_of_image loader = 0x3000"
    "plan_image_base loader = 0x10000"
proof -
  have opt: "optional (pe_headers sample_image) = sample_optional"
    and chars: "coff_characteristics (coff (pe_headers sample_image)) = 0x22"
    and dirs: "pe_directories sample_image =
      [\<lparr>dir_address = 0, dir_size = 0\<rparr>, \<lparr>dir_address = 0x2000, dir_size = 40\<rparr>, \<lparr>dir_address = 0, dir_size = 0\<rparr>,
       \<lparr>dir_address = 0, dir_size = 0\<rparr>, \<lparr>dir_address = 0, dir_size = 0\<rparr>, \<lparr>dir_address = 0x2060, dir_size = 12\<rparr>]"
    by (simp_all add: sample_image_def)
  have h: "validate_runtime_headers sample_image = Inr ()"
    by (simp add: validate_runtime_headers_def opt chars sample_optional_def Let_def validate_resource_metadata_def
        is_nonzero_page_multiple_def is_multiple_of_def RUNTIME_PAGE_SIZE_def MAX_STACK_RESERVE_BYTES_def
        MAX_HEAP_RESERVE_BYTES_def validate_directory_policy_def dirs enumerate_eq_zip upt_rec DataDirectory_is_empty_def
        IMAGE_DIRECTORY_ENTRY_IMPORT_def IMAGE_DIRECTORY_ENTRY_BASERELOC_def IMAGE_FILE_EXECUTABLE_IMAGE_def IMAGE_FILE_DLL_def
        UNSUPPORTED_COFF_CHARACTERISTICS_MASK_def UNSUPPORTED_DLL_CHARACTERISTICS_MASK_def IMAGE_SUBSYSTEM_WINDOWS_CUI_def
        MAX_PE_IMAGE_BYTES_def IMAGE_FILE_RELOCS_STRIPPED_def)
  have i: "PeImage_import_summary sample_image = Some (Inr \<lparr>module_count = 1, import_count = 1\<rparr>)"
    using sample_scan_imports by (simp add: PeImage_import_summary_def)
  have r: "PeImage_base_relocation_plan sample_image 0x10000 =
      Some (Inr \<lparr>preferred_image_base = 0x10000, actual_image_base = 0x10000, image_delta = 0, patch_count = 1\<rparr>)"
    using sample_scan(2) by (simp add: PeImage_base_relocation_plan_def)
  obtain loader where l: "LoaderPlan_from_image sample_image = Inr loader"
    by (auto simp: LoaderPlan_from_image_def Let_def opt pe_align_up_def sample_optional_def checked_add_def)
  have "validate_protections loader = Inr ()"
    by (simp add: validate_protections_def plan_fields(6) [OF l] all_result_Inr sample_image_def enumerate_eq_zip upt_rec
        validate_protection_def Let_def SectionHeader_virtual_range_def sample_text_def sample_data_def
        LoadPermissions_from_characteristics_def VmProtection_try_new_def RUNTIME_PAGE_SIZE_def
        IMAGE_SCN_MEM_READ_def IMAGE_SCN_MEM_WRITE_def IMAGE_SCN_MEM_EXECUTE_def)
  then have "validate_runtime_subset sample_image = Some (Inr loader)"
    using h i r l by (simp add: validate_runtime_subset_def opt sample_optional_def MAX_BOOTSTRAP_IMPORTS_def MAX_BOOTSTRAP_RELOCATIONS_def)
  then show thesis
    using that plan_fields(1,2) [OF l] by (simp add: opt sample_optional_def)
qed

lemma sample_resolve:
  "BootstrapAddresses_resolve sample_addresses (import_module_name sample_record) (import_target sample_record) = Inr 0x7010"
  by (simp add: BootstrapAddresses_resolve_def sample_record_def ModuleName_parse_def SymbolName_parse_def Let_def
      MAX_MODULE_NAME_BYTES_def MAX_EXPORT_NAME_BYTES_def MAX_IMPORT_NAME_BYTES_def is_ascii_alphanumeric_def to_ascii_uppercase_def
      ModuleName_is_api_set_def starts_with_def ascii_def sample_addresses_def)

lemma sample_loadable: "loadable sample_image 0x20000 sample_addresses 0x3000"
proof -
  obtain loader where l: "validate_runtime_subset sample_image = Some (Inr loader)" "plan_size_of_image loader = 0x3000"
    "plan_image_base loader = 0x10000" by (rule sample_subset)
  have v: "PeImage_visit_imports sample_image = Some (Inr \<lparr>module_count = 1, import_count = 1\<rparr>, [sample_record])"
    "PeImage_import_summary sample_image = Some (Inr \<lparr>module_count = 1, import_count = 1\<rparr>)"
    using sample_scan_imports by (simp_all add: PeImage_visit_imports_def PeImage_import_summary_def)
  have iat: "iat_rva sample_record = 0x2028" by (simp add: sample_record_def)
  have "plan_bootstrap_imports sample_image sample_addresses =
      Some (Inr \<lparr>import_image_size = 0x3000, import_patches = [\<lparr>iat_patch_rva = 0x2028, iat_patch_address = 0x7010\<rparr>]\<rparr>)"
    using l v sample_resolve iat
    by (simp add: plan_bootstrap_imports_def bind_import_def MAX_BOOTSTRAP_IMPORTS_def checked_add_def
        BootstrapAddresses_validate_def sample_addresses_def [simplified])
  moreover have "plan_runtime_relocations sample_image 0x20000 =
      Some (Inr \<lparr>relocation_image_size = 0x3000, relocation_actual_base = 0x20000,
        relocation_patches = [\<lparr>target_rva = 0x2038, original_value = 0x11000, relocated_value = 0x21000\<rparr>]\<rparr>)"
  proof -
    have "coff_characteristics (coff (pe_headers sample_image)) = 0x22" by (simp add: sample_image_def)
    then show ?thesis
      using l sample_scan(1)
      by (simp add: plan_runtime_relocations_def PeImage_base_relocation_plan_def PeImage_visit_base_relocations_def
          collect_relocation_def MAX_BOOTSTRAP_RELOCATIONS_def checked_add_def IMAGE_FILE_RELOCS_STRIPPED_def)
  qed
  moreover have "validate_patch_separation
      \<lparr>relocation_image_size = 0x3000, relocation_actual_base = 0x20000,
        relocation_patches = [\<lparr>target_rva = 0x2038, original_value = 0x11000, relocated_value = 0x21000\<rparr>]\<rparr>
      \<lparr>import_image_size = 0x3000, import_patches = [\<lparr>iat_patch_rva = 0x2028, iat_patch_address = 0x7010\<rparr>]\<rparr> = Inr ()"
    by (simp add: validate_patch_separation_def loader_ranges_overlap_def checked_add_def)
  moreover have "unat (size_of_image (optional (pe_headers sample_image))) = 0x3000"
    by (simp add: sample_image_def sample_optional_def)
  ultimately show ?thesis using l(1) by (auto simp: loadable_def)
qed

text \<open>
  C11. Loading an accepted image is all or nothing and exact. For every image that the parser accepts, every
  base, shim addresses and destination buffer, \<open>build_loaded_image\<close> returns without a panic; when it
  reports an error the buffer is untouched, and it does so only when the runtime subset, the buffer size, a
  plan or the separation of the plans is rejected; when it succeeds, the buffer has the size of the image, each
  import slot holds the address its module and symbol resolve to in the allowlist, each relocation target
  holds its original value moved by the distance between the preferred and the actual base, every other byte
  is the byte of the image (headers and section data from the file, zero elsewhere), and the entry address
  and the counts of the summary are exact.
\<close>

theorem build_loaded_image_exact:
  assumes "PeImage_parse bytes = Inr img"
  shows "\<exists>res out. build_loaded_image img base addresses output = Some (res, out) \<and>
    load_outcome img base addresses output res out"
proof -
  have snd: "image_sound img" using parse_image_sound [OF assms] by simp
  note eq = build_loaded_image_def [of img base addresses "output"]
  from snd show ?thesis
  proof (cases rule: validate_runtime_subset_spec)
    case 1
    then show ?thesis unfolding eq load_outcome_def loadable_def by simp
  next
    case sub: (2 loader)
    then have size: "plan_size_of_image loader = size_of_image (optional (pe_headers img))"
      by (simp add: runtime_subset_def plan_fields)
    show ?thesis
    proof (cases "length output = unat (size_of_image (optional (pe_headers img)))")
      case False
      then show ?thesis unfolding eq load_outcome_def loadable_def using sub(1) size by simp
    next
      case len: True
      from snd show ?thesis
      proof (cases rule: plan_bootstrap_imports_spec [where addresses = addresses])
        case 1
        then show ?thesis unfolding eq load_outcome_def loadable_def using sub(1) size len by simp
      next
        case ip: (2 recs plan)
        from snd show ?thesis
        proof (cases rule: plan_runtime_relocations_spec [where base = base])
          case 1
          then show ?thesis unfolding eq load_outcome_def loadable_def using sub(1) size len ip(1) by simp
        next
          case (2 r)
          then show ?thesis by (rule build_loaded_image_commit [OF snd sub len ip])
        qed
      qed
    qed
  qed
qed

theorem build_loaded_image_exact_witness:
  "PeImage_parse sample_pe = Inr sample_image \<and>
   (\<exists>loaded out. build_loaded_image sample_image 0x20000 sample_addresses (replicate 0x3000 0) = Some (Inr loaded, out) \<and>
      unat (entry_address loaded) = 0x21000 \<and> word_at out 0x2028 = 0x7010 \<and> word_at out 0x2038 = 0x21000)"
proof -
  obtain res out where b: "build_loaded_image sample_image 0x20000 sample_addresses (replicate 0x3000 0) = Some (res, out)"
    "load_outcome sample_image 0x20000 sample_addresses (replicate 0x3000 0) res out"
    using build_loaded_image_exact [OF sample_pe_parses, of "0x20000" sample_addresses "replicate 0x3000 0"] by blast
  moreover have "length (replicate 0x3000 (0 :: u8)) = 0x3000" by (rule length_replicate)
  ultimately obtain loaded where loaded: "res = Inr loaded"
    "image_loaded sample_image 0x20000 sample_addresses [sample_record]
       [\<lparr>target_rva = 0x2038, original_value = 0x11000, relocated_value = 0x21000\<rparr>] loaded out"
    using sample_loadable sample_scan_imports sample_scan(1) unfolding load_outcome_def
    by (cases res) (auto simp: PeImage_visit_imports_def PeImage_import_summary_def PeImage_visit_base_relocations_def
        PeImage_base_relocation_plan_def simp del: length_replicate)
  have "iat_rva sample_record = 0x2028" "address_of_entry_point (optional (pe_headers sample_image)) = 0x1000"
    by (simp_all add: sample_record_def sample_image_def sample_optional_def)
  then show ?thesis
    using b(1) loaded sample_resolve sample_pe_parses by (simp add: image_loaded_def)
qed

subsection \<open>Final protections\<close>

definition section_mode :: "SectionHeader \<Rightarrow> FinalProtection" where
  "section_mode s =
     (if sec_characteristics s AND IMAGE_SCN_MEM_WRITE \<noteq> 0 then FinalReadWrite
      else if sec_characteristics s AND IMAGE_SCN_MEM_EXECUTE \<noteq> 0 then FinalReadExecute else FinalRead)"

definition section_range :: "SectionHeader \<Rightarrow> ProtectionRange" where
  "section_range s =
     \<lparr>protection_rva = virtual_address s, protection_size = mapped_size s, final_protection = section_mode s\<rparr>"

definition protected_bytes :: "ProtectionRange \<Rightarrow> nat set" where
  "protected_bytes r = {unat (protection_rva r)..<unat (protection_rva r) + unat (protection_size r)}"

text \<open>A section that passes the protection check: readable, not both writable and executable, page aligned.\<close>

definition protectable :: "SectionHeader \<Rightarrow> bool" where
  "protectable s \<longleftrightarrow>
     sec_characteristics s AND IMAGE_SCN_MEM_READ \<noteq> 0 \<and>
     (sec_characteristics s AND IMAGE_SCN_MEM_WRITE = 0 \<or> sec_characteristics s AND IMAGE_SCN_MEM_EXECUTE = 0) \<and>
     RUNTIME_PAGE_SIZE dvd unat (virtual_address s) \<and> RUNTIME_PAGE_SIZE dvd unat (mapped_size s)"

lemma validate_protection_Inr:
  assumes "validate_protection (section_load k) = Inr ()" "mapped_size (snd k) \<noteq> 0"
  shows "protectable (snd k)"
  using assms
  by (auto simp: validate_protection_def Let_def and_then_eq_Inr VmProtection_try_new_def SectionHeader_virtual_range_def
      LoadPermissions_from_characteristics_def protectable_def split: if_split_asm)

lemma section_protection_ok:
  assumes "protectable (snd k)"
  shows "section_protection (section_load k) = Inr (section_mode (snd k))"
  using assms
  by (auto simp: section_protection_def Let_def LoadPermissions_from_characteristics_def protectable_def section_mode_def)

lemma final_section_protections_ok:
  assumes "\<forall>k\<in>set ks. mapped_size (snd k) \<noteq> 0 \<longrightarrow> protectable (snd k)"
  shows "final_section_protections (map section_load ks) =
    (Inr (), map section_range (filter (\<lambda>s. mapped_size s \<noteq> 0) (map snd ks)))"
  using assms
  by (induction ks) (auto simp: SectionHeader_virtual_range_def section_protection_ok section_range_def Let_def)

lemma section_ranges_disjoint:
  assumes "image_sound img"
  shows "sorted_wrt (\<lambda>a b. protected_bytes a \<inter> protected_bytes b = {})
    (map section_range (filter (\<lambda>s. mapped_size s \<noteq> 0) (pe_sections img)))"
proof -
  have "sorted_wrt (\<lambda>s t. sec_virtual s \<inter> sec_virtual t = {}) (pe_sections img)"
    using sections_disjoint [OF assms] by (auto simp: sorted_wrt_iff_nth_less)
  then show ?thesis
    by (simp add: sorted_wrt_map protected_bytes_def section_range_def sec_virtual_def sorted_wrt_filter)
qed

text \<open>
  C12. The final protections are exactly those of the sections. For an accepted image the visitor is called
  once for each nonempty section, in order, with the range and the access its characteristics ask for, or
  never when the image is outside the runtime subset. The ranges are whole pages inside the image, pairwise
  disjoint and never both writable and executable, and the entry point lies in an executable one.
\<close>

theorem final_protections_exact:
  assumes "PeImage_parse bytes = Inr img"
  shows "\<exists>res rs. visit_final_section_protections img = Some (res, rs) \<and>
    (case res of
       Inl e \<Rightarrow> rs = [] \<and> validate_runtime_subset img = Some (Inl e)
     | Inr _ \<Rightarrow>
         rs = map section_range (filter (\<lambda>s. mapped_size s \<noteq> 0) (pe_sections img)) \<and>
         (\<forall>s\<in>set (pe_sections img). mapped_size s = 0 \<or> protectable s) \<and>
         (\<forall>r\<in>set rs. 4096 dvd unat (protection_rva r) \<and> 4096 dvd unat (protection_size r) \<and>
            protected_bytes r \<subseteq> {..<unat (size_of_image (optional (pe_headers img)))}) \<and>
         sorted_wrt (\<lambda>a b. protected_bytes a \<inter> protected_bytes b = {}) rs \<and>
         (\<exists>r\<in>set rs. unat (address_of_entry_point (optional (pe_headers img))) \<in> protected_bytes r \<and>
            final_protection r = FinalReadExecute))"
proof -
  let ?rs = "map section_range (filter (\<lambda>s. mapped_size s \<noteq> 0) (pe_sections img))"
  let ?e = "address_of_entry_point (optional (pe_headers img))"
  have snd: "image_sound img" using parse_image_sound [OF assms] by simp
  from snd show ?thesis
  proof (cases rule: validate_runtime_subset_spec)
    case 1
    then show ?thesis by (simp add: visit_final_section_protections_def)
  next
    case sub: (2 loader)
    then have l: "LoaderPlan_from_image img = Inr loader" and v: "validate_protections loader = Inr ()"
      and e: "?e \<noteq> 0" by (auto simp: runtime_subset_def plan_fields)
    have ks: "\<forall>k\<in>set (enumerate 0 (pe_sections img)). mapped_size (snd k) \<noteq> 0 \<longrightarrow> protectable (snd k)"
      using v validate_protection_Inr by (simp add: validate_protections_def all_result_Inr plan_fields [OF l])
    have eq: "visit_final_section_protections img = Some (Inr (), ?rs)"
      using sub(1) final_section_protections_ok [OF ks]
      by (simp add: visit_final_section_protections_def plan_fields [OF l])
    have "set (pe_sections img) = snd ` set (enumerate 0 (pe_sections img))" by (simp flip: set_map)
    then have ok: "\<forall>s\<in>set (pe_sections img). mapped_size s = 0 \<or> protectable s" using ks by auto
    obtain s where s: "s \<in> set (pe_sections img)" "unat ?e \<in> sec_virtual s" "sec_characteristics s AND IMAGE_SCN_MEM_EXECUTE \<noteq> 0"
      using snd e unfolding image_sound_def Let_def by blast
    then have "mapped_size s \<noteq> 0" by (auto simp: sec_virtual_def)
    then have entry: "\<exists>r\<in>set ?rs. unat ?e \<in> protected_bytes r \<and> final_protection r = FinalReadExecute"
      using s ok by (auto simp: protected_bytes_def section_range_def sec_virtual_def section_mode_def protectable_def)
    have "\<forall>r\<in>set ?rs. 4096 dvd unat (protection_rva r) \<and> 4096 dvd unat (protection_size r) \<and>
        protected_bytes r \<subseteq> {..<unat (size_of_image (optional (pe_headers img)))}"
      using ok image_soundD(2) [OF snd]
      by (fastforce simp: protectable_def section_range_def RUNTIME_PAGE_SIZE_def protected_bytes_def sec_end_def)
    then show ?thesis using eq ok entry section_ranges_disjoint [OF snd] by auto
  qed
qed

theorem final_protections_exact_witness:
  "PeImage_parse sample_pe = Inr sample_image \<and>
   visit_final_section_protections sample_image =
     Some (Inr (), [\<lparr>protection_rva = 0x1000, protection_size = 0x1000, final_protection = FinalReadExecute\<rparr>,
                    \<lparr>protection_rva = 0x2000, protection_size = 0x1000, final_protection = FinalReadWrite\<rparr>])"
proof -
  obtain loader where "validate_runtime_subset sample_image = Some (Inr loader)" by (rule sample_subset)
  moreover have "pe_sections sample_image = [sample_text, sample_data]" by (simp add: sample_image_def)
  moreover have "section_range sample_text = \<lparr>protection_rva = 0x1000, protection_size = 0x1000, final_protection = FinalReadExecute\<rparr>"
    "section_range sample_data = \<lparr>protection_rva = 0x2000, protection_size = 0x1000, final_protection = FinalReadWrite\<rparr>"
    "mapped_size sample_text \<noteq> 0" "mapped_size sample_data \<noteq> 0"
    by (simp_all add: section_range_def section_mode_def sample_text_def sample_data_def IMAGE_SCN_MEM_WRITE_def
        IMAGE_SCN_MEM_EXECUTE_def)
  moreover obtain res rs where "visit_final_section_protections sample_image = Some (res, rs)"
    and r: "case res of Inl e \<Rightarrow> validate_runtime_subset sample_image = Some (Inl e)
      | Inr _ \<Rightarrow> rs = map section_range (filter (\<lambda>s. mapped_size s \<noteq> 0) (pe_sections sample_image))"
    using final_protections_exact [OF sample_pe_parses] by (elim exE conjE) (force split: sum.splits)
  ultimately show ?thesis using sample_pe_parses by (cases res) auto
qed

end
