(* ===== verification/Spec2Isabelle.thy ===== *)
theory Spec2Isabelle
  imports Page Frame_Lifecycle Buddy_Laws Memory_Contract Nt_Runtime Pe_Loader_Laws
begin

text \<open>
  A verification development for the Xenith operating system.

  \<^bold>\<open>The program.\<close> Xenith is a 64-bit kernel in Rust with a host for console programs in the PE format. The parts
  modelled here are the ones that decide which memory a process owns and which guest code runs where.
  \<^item> \<open>crates/xenith-types\<close>: addresses, pages, frames and table indices, used by everything below.
  \<^item> \<open>kernel/src/util/bitmap.rs\<close> and \<open>kernel/src/mm/physical\<close>: the frame allocator, built from the boot memory
    map, and the buddy allocator on top of it.
  \<^item> \<open>kernel/src/mm/virtual/address_space.rs\<close>: four-level page tables, whose frames come from the frame
    allocator, with copy-on-write fork and write faults; \<open>kernel/src/user\<close> maps and releases the pages of a process.
  \<^item> \<open>crates/xenith-pe\<close>: the parser of PE images, with relocations and imports, and \<open>user/winhost\<close>, the loader
    that plans and writes an image.
  \<^item> \<open>user/winhost-core\<close>: the services a guest program calls: handles, objects, waits, modules and the planner
    of its address range.

  \<^bold>\<open>Conventions.\<close> Rust integers are words of their width, with the wrap-around of a release build; \<open>usize\<close> values
  that only index are naturals. A panic (an overflow check, an index out of range, \<open>expect\<close>, \<open>unwrap\<close>) is \<open>None\<close> of an
  outer option, so that a theorem ending in \<open>Some\<close> says that the code does not panic. \<open>Result<T, E>\<close> is
  \<open>E + T\<close>, \<open>Option<T>\<close> is \<open>T option\<close>. A method with \<open>&mut self\<close> returns its answer and the new state. Newtypes are
  datatypes with one constructor, structs are records and enums are datatypes; a method \<open>m\<close> of a type \<open>T\<close>
  is \<open>T_m\<close>. \<open>debug_assert!\<close> and logging are left out. Loops are structural recursions, recursions with a
  termination proof, or folds over a bounded range, so every definition is total. The loop over a \<open>PageRange\<close> alone takes a number
  of iterations, and the length of the range is shown to be enough.

  \<^bold>\<open>Prelude.\<close> \<open>Xen_Prelude\<close> has the checked, saturating and bit-counting operations of \<open>core\<close>, lists with
  checked indices and the loops \<open>for_each\<close> and \<open>for_first\<close>; \<open>Rust_Result\<close> the combinators of \<open>Result\<close>.

  \<^bold>\<open>Addresses and pages.\<close> \<open>Address\<close> models \<open>address.rs\<close>; its locale \<open>aligned_address\<close> is the alignment
  contract that \<open>PhysAddr\<close> and \<open>VirtAddr\<close> share. \<open>Page\<close> models \<open>page.rs\<close> and \<open>size.rs\<close>. The lemmas show when
  results stay canonical, what each conversion keeps, and that iterating over pages ends with every page seen, except
  at the top of the address space, where the iterator panics.

  \<^bold>\<open>Physical memory.\<close> \<open>Bitmap\<close> models the bit set word by word and shows that its searches and counts agree
  with the bit-by-bit reference; the locale \<open>bit_store\<close> is what the allocator needs of it. \<open>Memory_Region\<close> is the
  boot memory map (\<open>crates/xenith-boot\<close>). \<open>Frame_Allocator\<close> and \<open>Frame_Lifecycle\<close> model
  \<open>kernel/src/mm/physical/bitmap.rs\<close> from construction to reclaiming the bootloader: \<open>allocator_inv\<close> ties the
  counter, the bitmap and the releasable spans together, and every operation is described by the set of free
  frames. \<open>Buddy\<close> models \<open>buddy.rs\<close> over an abstract backing, \<open>Buddy_Blocks\<close> sees its free lists as disjoint
  aligned blocks, \<open>Buddy_Alloc\<close> states the backing as the locale \<open>frame_backing\<close> and interprets it on the bitmap
  allocator, and \<open>Buddy_Laws\<close> has the results: exact allocation and release, round trip and coverage.

  \<^bold>\<open>Virtual memory.\<close> \<open>Page_Table\<close> has the flags and entries and the record \<open>Machine\<close>: the words of every frame,
  the frame allocator, the reference counts of shared frames, the outcomes of the coming heap reservations and the
  requested TLB shootdowns. Raw pointers into the direct map become accesses to a frame of that memory. The spin lock that
  covers fork and faults makes each operation one step. \<open>Address_Space\<close> has the walks, \<open>map_user\<close>, \<open>map_kernel\<close>,
  \<open>unmap\<close>, \<open>translate\<close> and \<open>protect_user\<close>; \<open>Cow_Fork\<close> has \<open>fork\<close> with its rollback, \<open>resolve_cow_fault\<close> and
  \<open>destroy\<close>. \<open>Address_Space_Laws\<close> states the invariant \<open>vm_inv\<close> of the tables of a set of spaces (a tree of
  frames taken from the allocator in every user half, kernel halves that may be shared) and what each operation
  does to every translation. \<open>Cow_Fork_Laws\<close> adds the reference counts (\<open>cow_inv\<close>) and the fault handler, \<open>Fork_Laws\<close>,
  \<open>Destroy_Laws\<close> and \<open>Fork_Transaction\<close> the steps of fork, rollback and release, and \<open>Fork_Spec\<close> their
  sum. \<open>Virtual_Memory\<close> has the operations of \<open>kernel/src/user\<close> that fill and empty a space and the step relation
  \<open>vm_step\<close> of all of them in any order, \<open>Memory_Isolation\<close> the reachable states: a page that can be written
  shares its frame with no other page, so no process sees a store of another. \<open>Memory_Contract\<close> has the contract of
  each operation, with the conditions under which \<open>fork\<close> succeeds. \<open>vm_step\<close> has no step for \<open>protect_user\<close>,
  because isolation does not survive it: \<open>fork\<close> shares a read-only page without marking it for copying, and making such a
  page writable afterwards lets the child write the page of the parent. Conversely a page that is marked becomes writable at
  the next store whatever protection it was given since. \<open>Memory_Contract\<close> proves both.

  \<^bold>\<open>PE images.\<close> \<open>Pe_Reader\<close> has the data and the byte reader, \<open>Pe_Image\<close> the parser and its soundness,
  \<open>Pe_Plan\<close> the load plan, the directory policy and address translation, \<open>Pe_Relocation\<close> and \<open>Pe_Imports\<close> the
  two directory visitors. \<open>Pe_Loader\<close> models \<open>user/winhost/src/lib.rs\<close>; \<open>Pe_Loader_Laws\<close> shows that loading
  writes exactly the image with its imports bound and its values relocated, or nothing. The
  locale \<open>patch_collector\<close> is what the two collections of patches have in common.

  \<^bold>\<open>Guest services.\<close> \<open>Nt_Types\<close>, \<open>Nt_Sync\<close>, \<open>Nt_Handle\<close>, \<open>Nt_Object\<close>, \<open>Nt_Modules\<close>, \<open>Nt_Service\<close> and
  \<open>Nt_Runtime\<close> model the files of the same topic in \<open>user/winhost-core\<close>. The locale \<open>waitable\<close> is the contract of
  the four waitable objects, \<open>generation_keys\<close> that of the three tables whose keys carry a generation: a key once removed is
  never valid again. \<open>Nt_Runtime\<close> composes them; over every sequence of calls, reference counts equal the number
  of live handles and no call panics. \<open>Vm_Planner\<close> models the reservations of \<open>vm.rs\<close>: exact and first fit.

  \<^bold>\<open>Bounds.\<close> The frame allocator is assumed to manage at most \<open>2 ^ 40\<close> frames, the number a 52-bit physical
  address can name. The limits of the tables (modules, exports, reservations, imports, relocations) are the constants of
  the sources. The interpretations and witnesses use small concrete machines, allocators and images.

  \<^bold>\<open>Not modelled.\<close> The heap and its raw-pointer lists, the set-up of paging at boot and the loading of CR3; the scheduler,
  interrupts and the assembly of the architecture layer; spin locks and atomics, and with them the interleaving of
  CPUs inside one operation; drivers, ACPI and timers, which talk to hardware; file systems, the network stack and
  inter-process communication, which block on the scheduler or on devices; system-call entry, the ELF loader and the region
  table of \<open>process.rs\<close>; of \<open>winhost-core\<close> the process layout, paths and namespace, \<open>plan_imports\<close> and
  \<open>reserve_pe_image\<close>; the user programs, the emulator, the boot loader and the build tools; and formatting of values.
\<close>

end
